(* ===== verification/Prelude.thy ===== *)
theory Prelude
  imports Main "HOL-Library.Word" "HOL-Library.Multiset"
begin

text \<open>
  Shared vocabulary of the development: the Go types the components use, the collections
  of rewrite rules, and the generic lemmas on lists, options and words that more than one
  component needs.

  \<^item> \<open>gtime\<close>: a \<open>time.Time\<close>, in nanoseconds since Go's zero time (year 1, UTC), so
    \<open>time.Time{}\<close> is \<open>0\<close> and \<open>t.After(u)\<close> is \<open>t > u\<close>.
  \<^item> \<open>duration\<close>: a \<open>time.Duration\<close>, in nanoseconds. \<open>Time.Sub\<close> saturates at the ends of
    the \<open>int64\<close> range, which \<open>time_sub\<close> writes out.
  \<^item> \<open>uuid\<close>: the sixteen bytes of a UUID read as one big-endian number, so \<open>uuid.Nil\<close> is
    \<open>0\<close> and the bytewise order of the code (also the order of the canonical text form,
    whose hyphens stand at fixed places) is the order of the numbers.
  \<^item> \<open>byte\<close>, \<open>u32\<close>, \<open>u64\<close>: the fixed-width unsigned integers, with wrap-around.
\<close>

type_synonym byte = "8 word"
type_synonym u32 = "32 word"
type_synonym u64 = "64 word"
type_synonym gtime = int
type_synonym duration = int
type_synonym uuid = nat

named_theorems go_defs \<open>definitions a component unfolds as a group\<close>
named_theorems go_inv \<open>preservation of a component's invariant\<close>

section \<open>Time\<close>

definition max_duration :: duration where
  "max_duration = 2 ^ 63 - 1"

definition min_duration :: duration where
  "min_duration = - (2 ^ 63)"

definition time_sub :: "gtime \<Rightarrow> gtime \<Rightarrow> duration" where
  "time_sub t u = max min_duration (min max_duration (t - u))"

definition nanosecond :: duration where "nanosecond = 1"
definition millisecond :: duration where "millisecond = 1000000"
definition second :: duration where "second = 1000000000"
definition minute :: duration where "minute = 60000000000"

lemmas time_units [simp] = nanosecond_def millisecond_def second_def minute_def

lemma time_sub_ge_iff:
  "min_duration < d \<Longrightarrow> d \<le> max_duration \<Longrightarrow> time_sub t u \<ge> d \<longleftrightarrow> t - u \<ge> d"
  by (auto simp: time_sub_def max_def min_def)

lemma time_sub_gt_iff:
  "min_duration \<le> d \<Longrightarrow> d < max_duration \<Longrightarrow> time_sub t u > d \<longleftrightarrow> t - u > d"
  by (auto simp: time_sub_def max_def min_def)

text \<open>Go's integer division truncates towards zero.\<close>

definition go_div :: "int \<Rightarrow> int \<Rightarrow> int" where
  "go_div a b = sgn a * sgn b * (\<bar>a\<bar> div \<bar>b\<bar>)"

section \<open>Fallible results\<close>

text \<open>
  A Go function that returns \<open>(v, error)\<close> is modelled by a value of \<open>'e + 'a\<close>; \<open>Inl\<close> is
  the error.
\<close>

abbreviation is_err :: "'e + 'a \<Rightarrow> bool" where
  "is_err r \<equiv> (\<exists>e. r = Inl e)"

lemma not_Inl_iff: "(\<forall>e. r \<noteq> Inl e) \<longleftrightarrow> (\<exists>v. r = Inr v)"
  by (cases r) auto

section \<open>Lists\<close>

lemma filter_id_conv_all: "(\<forall>x\<in>set xs. P x) \<Longrightarrow> filter P xs = xs"
  by (induction xs) auto

lemma sorted_hd_le: "sorted (x # xs) \<Longrightarrow> y \<in> set (x # xs) \<Longrightarrow> x \<le> y"
  by auto

text \<open>
  \<open>sort.Slice\<close> is not stable. Where the keys are pairwise distinct its result is
  nevertheless determined: any sorted permutation is the stable sort.
\<close>

lemma sorted_perm_unique:
  assumes "mset xs = mset ys" "sorted (map f xs)" "sorted (map f ys)" "distinct (map f xs)"
  shows "xs = ys"
proof -
  have inj: "inj_on f (set xs)"
    using assms(4) by (simp add: distinct_map)
  have "set ys = set xs"
    using assms(1) by (metis set_mset_mset)
  moreover have "map f xs = map f ys"
    by (metis assms(1-3) mset_map properties_for_sort)
  ultimately show ?thesis
    using inj by (metis inj_on_map_eq_map sup.idem)
qed

lemma sort_key_unique:
  "mset ys = mset xs \<Longrightarrow> sorted (map f ys) \<Longrightarrow> distinct (map f xs) \<Longrightarrow> ys = sort_key f xs"
  by (rule sorted_perm_unique[where f = f])
    (auto simp flip: mset_map, metis mset_map mset_eq_imp_distinct_iff)

lemma distinct_map_sort_key [simp]: "distinct (map f (sort_key g xs)) = distinct (map f xs)"
  by (metis mset_eq_imp_distinct_iff mset_map mset_sort)

lemma sorted_le_last: "sorted xs \<Longrightarrow> x \<in> set xs \<Longrightarrow> x \<le> last xs"
  by (induction xs) auto

lemma sorted_distinct_max:
  assumes "sorted xs" "distinct xs" "m \<in> set xs" "\<forall>x\<in>set xs. x \<le> m"
  shows "\<exists>ys. xs = ys @ [m] \<and> m \<notin> set ys"
proof (cases xs rule: rev_cases)
  case (snoc ys y)
  then have "m \<le> y" "y \<le> m"
    using assms by (auto simp: sorted_append)
  then show ?thesis
    using snoc assms(2) by auto
qed (use assms in simp)

lemma map_of_filter_neq: "map_of (filter (\<lambda>p. fst p \<noteq> k) xs) k' = (if k' = k then None else map_of xs k')"
  by (induction xs) auto

lemma sum_list_filter_le: "sum_list (map f (filter P xs)) \<le> (sum_list (map f xs) :: nat)"
  by (induction xs) auto

section \<open>Words\<close>

lemma unat_lt64: "unat (w :: u64) < 2 ^ 64"
  using unsigned_less[where w = w and 'a = nat] by simp

lemma unat_max64: "unat (- 1 :: u64) = 2 ^ 64 - 1"
  by (simp add: unsigned_minus_1_eq_mask mask_eq_exp_minus_1)

lemma unat_plus_no_overflow:
  "unat a + unat b < 2 ^ 64 \<Longrightarrow> unat (a + b :: u64) = unat a + unat b"
  by (simp add: unat_word_ariths)

lemma word_less_succ: "(x :: u64) \<noteq> - 1 \<Longrightarrow> x < x + 1"
  by (metis add.commute add_eq_0_iff2 lessI unatSuc word_less_nat_alt)

lemma unat_minus_le: "b \<le> a \<Longrightarrow> unat (a - b :: u64) = unat a - unat b"
  by (simp add: unat_sub)

end
