(* ===== verification/Spool_Record.thy ===== *)
theory Spool_Record
  imports Prelude
begin

text \<open>
  The on-disk record format of the agent's spool (\<open>internal/agent/spool/spool.go\<close>): a
  little-endian 32-bit length, the payload, and the CRC-32 of the payload. The theory
  models the writer of one record, the three readers (\<open>readSegmentLocked\<close>, \<open>scanSegment\<close>
  and \<open>countRecords\<close>) over the bytes of a segment file, and \<open>crc32.ChecksumIEEE\<close>.

  The protobuf codec is third-party code: \<open>unmarshal\<close> is a parameter of the reader.

  Main facts: what the writer appends the readers give back; a torn tail (a crash in the
  middle of a write) costs exactly the record it belongs to; the start-up scan keeps the
  longest readable prefix and is idempotent.
\<close>

unbundle bit_operations_syntax

section \<open>CRC-32 (IEEE) and little-endian integers\<close>

definition crc_bit :: "u32 \<Rightarrow> u32" where
  "crc_bit c = (if c AND 1 = 1 then drop_bit 1 c XOR 0xEDB88320 else drop_bit 1 c)"

definition crc_byte :: "u32 \<Rightarrow> byte \<Rightarrow> u32" where
  "crc_byte c b = (crc_bit ^^ 8) (c XOR ucast b)"

definition checksum_ieee :: "byte list \<Rightarrow> u32" where
  "checksum_ieee bs = NOT (foldl crc_byte (NOT 0) bs)"

definition put_uint32 :: "u32 \<Rightarrow> byte list" where
  "put_uint32 w = [ucast w, ucast (drop_bit 8 w), ucast (drop_bit 16 w), ucast (drop_bit 24 w)]"

definition get_uint32 :: "byte list \<Rightarrow> u32" where
  "get_uint32 bs =
     (case bs of
        [a, b, c, d] \<Rightarrow> ucast a OR push_bit 8 (ucast b) OR push_bit 16 (ucast c) OR push_bit 24 (ucast d)
      | _ \<Rightarrow> 0)"

lemma length_put_uint32 [simp]: "length (put_uint32 w) = 4"
  by (simp add: put_uint32_def)

lemma get_put_uint32 [simp]: "get_uint32 (put_uint32 w) = w"
  unfolding get_uint32_def put_uint32_def list.case
proof (rule bit_eqI)
  fix n :: nat
  consider "n < 8" | "8 \<le> n" "n < 16" | "16 \<le> n" "n < 24" | "24 \<le> n" "n < 32" | "32 \<le> n"
    by linarith
  then show "bit (ucast (ucast w :: byte) OR push_bit 8 (ucast (ucast (drop_bit 8 w) :: byte)) OR
      push_bit 16 (ucast (ucast (drop_bit 16 w) :: byte)) OR
      push_bit 24 (ucast (ucast (drop_bit 24 w) :: byte)) :: u32) n = bit w n"
    by cases (auto simp: bit_or_iff bit_push_bit_iff bit_ucast_iff bit_drop_bit_eq dest: bit_imp_le_length)
qed

lemma put_get_uint32: "length bs = 4 \<Longrightarrow> put_uint32 (get_uint32 bs) = bs"
proof -
  assume "length bs = 4"
  then obtain a b c d where "bs = [a, b, c, d]"
    by (auto simp: length_Suc_conv numeral_eq_Suc)
  then show ?thesis
    by (simp add: get_uint32_def put_uint32_def)
      (intro conjI bit_word_eqI; auto simp: bit_or_iff bit_push_bit_iff bit_ucast_iff bit_drop_bit_eq dest: bit_imp_le_length)
qed

lemma put_uint32_not_Nil [simp]: "put_uint32 w \<noteq> []"
  by (simp add: put_uint32_def)

section \<open>One record\<close>

definition maxRecordBytes :: nat where "maxRecordBytes = 2 ^ 20"
definition recordOverhead :: nat where "recordOverhead = 8"

definition encode_record :: "byte list \<Rightarrow> byte list" where
  "encode_record p = put_uint32 (word_of_nat (length p)) @ p @ put_uint32 (checksum_ieee p)"

definition rec_size :: "byte list \<Rightarrow> nat" where
  "rec_size p = length p + recordOverhead"

lemma length_encode_record [simp]: "length (encode_record p) = rec_size p"
  by (simp add: encode_record_def rec_size_def recordOverhead_def)

text \<open>\<open>io.ReadFull\<close> of \<open>n\<close> bytes from what is left of a file.\<close>

datatype read_full = ReadOK "byte list" "byte list" | ReadEOF | ReadUnexpectedEOF

definition read_full :: "nat \<Rightarrow> byte list \<Rightarrow> read_full" where
  "read_full n bs =
     (if n \<le> length bs then ReadOK (take n bs) (drop n bs)
      else if bs = [] then ReadEOF else ReadUnexpectedEOF)"

text \<open>
  One turn of the reading loop: a clean end, something that is not a whole valid record,
  or a payload with the bytes after it.
\<close>

datatype frame = Clean_End | Bad_Frame | Frame "byte list" "byte list"

definition read_frame :: "byte list \<Rightarrow> frame" where
  "read_frame bs =
     (case read_full 4 bs of
        ReadEOF \<Rightarrow> Clean_End
      | ReadUnexpectedEOF \<Rightarrow> Bad_Frame
      | ReadOK hdr rest \<Rightarrow>
          (let len = unat (get_uint32 hdr)
           in if len > maxRecordBytes then Bad_Frame
              else case read_full len rest of
                ReadOK payload rest' \<Rightarrow>
                  (case read_full 4 rest' of
                     ReadOK trailer rest'' \<Rightarrow>
                       if get_uint32 trailer \<noteq> checksum_ieee payload then Bad_Frame
                       else Frame payload rest''
                   | _ \<Rightarrow> Bad_Frame)
              | _ \<Rightarrow> Bad_Frame))"

lemma read_frame_consumes: "read_frame bs = Frame p rest \<Longrightarrow> length bs = rec_size p + length rest"
  by (auto simp: read_frame_def read_full_def rec_size_def recordOverhead_def Let_def min_def
      split: read_full.splits if_splits)

lemma read_frame_Nil [simp]: "read_frame [] = Clean_End"
  by (simp add: read_frame_def read_full_def)

lemma read_frame_Clean: "read_frame bs = Clean_End \<Longrightarrow> bs = []"
  by (auto simp: read_frame_def read_full_def Let_def split: if_splits read_full.splits)

lemma maxRecordBytes_word: "n \<le> maxRecordBytes \<Longrightarrow> unat (word_of_nat n :: u32) = n"
  by (simp add: maxRecordBytes_def unat_of_nat take_bit_nat_eq_self)

lemma read_frame_encode [simp]:
  "length p \<le> maxRecordBytes \<Longrightarrow> read_frame (encode_record p @ rest) = Frame p rest"
  by (simp add: read_frame_def read_full_def encode_record_def Let_def maxRecordBytes_word)

lemma frame_bytes:
  assumes "read_frame bs = Frame p rest"
  shows "length p \<le> maxRecordBytes \<and> bs = encode_record p @ rest"
proof -
  from assms obtain len where len: "4 \<le> length bs" "len = unat (get_uint32 (take 4 bs))"
    "len \<le> maxRecordBytes" "len \<le> length (drop 4 bs)" "p = take len (drop 4 bs)"
    "4 \<le> length (drop len (drop 4 bs))" "rest = drop 4 (drop len (drop 4 bs))"
    "get_uint32 (take 4 (drop len (drop 4 bs))) = checksum_ieee p"
    by (auto simp: read_frame_def read_full_def Let_def split: read_full.splits if_splits)
  have "word_of_nat len = get_uint32 (take 4 bs)"
    using len(2) by simp
  moreover have "length p = len"
    using len by simp
  ultimately have "put_uint32 (word_of_nat (length p)) = take 4 bs"
    using len(1) by (simp add: put_get_uint32)
  moreover have "put_uint32 (checksum_ieee p) = take 4 (drop len (drop 4 bs))"
    using len(6,8) put_get_uint32[of "take 4 (drop len (drop 4 bs))"] by simp
  ultimately have "encode_record p @ rest =
      take 4 bs @ take len (drop 4 bs) @ take 4 (drop len (drop 4 bs)) @ drop 4 (drop len (drop 4 bs))"
    using len by (simp add: encode_record_def)
  also have "\<dots> = bs"
    by (metis append_take_drop_id)
  finally show ?thesis
    using len by simp
qed

lemma read_frame_take:
  assumes "0 < k" "k < rec_size p" "length p \<le> maxRecordBytes"
  shows "read_frame (take k (encode_record p)) = Bad_Frame"
proof (cases "k < 4")
  case True
  then show ?thesis
    using assms by (auto simp: read_frame_def read_full_def encode_record_def min_def)
next
  case False
  let ?h = "put_uint32 (word_of_nat (length p))"
  have "take k (encode_record p) = ?h @ take (k - 4) (p @ put_uint32 (checksum_ieee p))"
    using False by (simp add: encode_record_def)
  then show ?thesis
    using assms False
    by (auto simp: read_frame_def read_full_def maxRecordBytes_word rec_size_def recordOverhead_def
        Let_def min_def split: read_full.split)
qed

section \<open>Reading a segment\<close>

text \<open>
  \<open>readSegmentLocked\<close> from byte offset \<open>pos\<close>, at most \<open>k\<close> records: the records, the offset after
  the last good one, and whether the segment is corrupt from there.
\<close>

fun read_loop :: "(byte list \<Rightarrow> 'r option) \<Rightarrow> nat \<Rightarrow> nat \<Rightarrow> byte list \<Rightarrow> 'r list \<times> nat \<times> bool" where
  "read_loop unmarshal 0 pos bs = ([], pos, False)"
| "read_loop unmarshal (Suc k) pos bs =
     (case read_frame bs of
        Clean_End \<Rightarrow> ([], pos, False)
      | Bad_Frame \<Rightarrow> ([], pos, True)
      | Frame p rest \<Rightarrow>
          (case unmarshal p of
             None \<Rightarrow> ([], pos, True)
           | Some r \<Rightarrow>
               (let (rs, pos', corrupt) = read_loop unmarshal k (pos + length p + recordOverhead) rest
                in (r # rs, pos', corrupt))))"

definition read_segment :: "(byte list \<Rightarrow> 'r option) \<Rightarrow> byte list \<Rightarrow> nat \<Rightarrow> nat \<Rightarrow> 'r list \<times> nat \<times> bool" where
  "read_segment unmarshal data offset k = read_loop unmarshal k offset (drop offset data)"

text \<open>\<open>scanSegment\<close>: count the valid records and cut what follows them.\<close>

function scan_loop :: "nat \<Rightarrow> nat \<Rightarrow> byte list \<Rightarrow> nat \<times> nat" where
  "scan_loop n goodEnd bs =
     (case read_frame bs of
        Frame p rest \<Rightarrow> scan_loop (Suc n) (goodEnd + length p + recordOverhead) rest
      | _ \<Rightarrow> (n, goodEnd))"
  by pat_completeness auto
termination
  by (relation "measure (\<lambda>(n, g, bs). length bs)")
    (auto dest: read_frame_consumes simp: rec_size_def recordOverhead_def)

declare scan_loop.simps [simp del]

definition scan_data :: "byte list \<Rightarrow> nat \<times> byte list" where
  "scan_data data =
     (let (n, goodEnd) = scan_loop 0 0 data
      in (n, if goodEnd < length data then take goodEnd data else data))"

text \<open>
  \<open>countRecords\<close>: headers only. The payload and the trailer are skipped with \<open>Seek\<close>, which
  does not fail past the end of the file, and the checksum is not looked at.
\<close>

function count_loop :: "nat \<Rightarrow> byte list \<Rightarrow> nat" where
  "count_loop n bs =
     (case read_full 4 bs of
        ReadOK hdr rest \<Rightarrow>
          (let len = unat (get_uint32 hdr)
           in if len > maxRecordBytes then n else count_loop (Suc n) (drop (len + 4) rest))
      | _ \<Rightarrow> n)"
  by pat_completeness auto
termination
  by (relation "measure (\<lambda>(n, bs). length bs)") (auto simp: read_full_def split: if_splits)

declare count_loop.simps [simp del]

definition count_records :: "byte list \<Rightarrow> nat" where
  "count_records data = count_loop 0 data"

section \<open>Segments made of whole records\<close>

definition encode_all :: "byte list list \<Rightarrow> byte list" where
  "encode_all ps = concat (map encode_record ps)"

definition fits :: "byte list list \<Rightarrow> bool" where
  "fits ps \<longleftrightarrow> list_all (\<lambda>p. length p \<le> maxRecordBytes) ps"

lemma encode_all_simps [simp]:
  "encode_all [] = []"
  "encode_all (p # ps) = encode_record p @ encode_all ps"
  "encode_all (ps @ qs) = encode_all ps @ encode_all qs"
  by (simp_all add: encode_all_def)

lemma fits_simps [simp]:
  "fits []"
  "fits (p # ps) \<longleftrightarrow> length p \<le> maxRecordBytes \<and> fits ps"
  "fits (ps @ qs) \<longleftrightarrow> fits ps \<and> fits qs"
  by (auto simp: fits_def)

lemma length_encode_all: "length (encode_all ps) = sum_list (map rec_size ps)"
  by (induction ps) auto

lemma fits_take [simp]: "fits ps \<Longrightarrow> fits (take k ps)"
  by (auto simp: fits_def list_all_iff dest: in_set_takeD)

lemma fits_drop [simp]: "fits ps \<Longrightarrow> fits (drop k ps)"
  by (auto simp: fits_def list_all_iff dest: in_set_dropD)

lemma read_loop_encode:
  assumes "fits ps" and "map unmarshal ps = map Some rs"
  shows "read_loop unmarshal k pos (encode_all ps) =
    (take k rs, pos + length (encode_all (take k ps)), False)"
  using assms
proof (induction ps arbitrary: k pos rs)
  case Nil
  then show ?case by (cases k) auto
next
  case (Cons p ps)
  then obtain r rs' where "rs = r # rs'" "unmarshal p = Some r" "map unmarshal ps = map Some rs'"
    by (cases rs) auto
  with Cons show ?case
    by (cases k) (auto simp: rec_size_def)
qed

lemma read_loop_torn:
  assumes "fits ps" and "map unmarshal ps = map Some rs"
    and "read_frame tail = Bad_Frame" and "length ps < k"
  shows "read_loop unmarshal k pos (encode_all ps @ tail) =
    (rs, pos + length (encode_all ps), True)"
  using assms
proof (induction ps arbitrary: k pos rs)
  case Nil
  then show ?case by (cases k) auto
next
  case (Cons p ps)
  then obtain r rs' where "rs = r # rs'" "unmarshal p = Some r" "map unmarshal ps = map Some rs'"
    by (cases rs) auto
  with Cons show ?case
    by (cases k) (auto simp: rec_size_def)
qed

lemma scan_loop_encode:
  assumes "fits ps" and "\<And>p r. read_frame tail \<noteq> Frame p r"
  shows "scan_loop n g (encode_all ps @ tail) = (n + length ps, g + length (encode_all ps))"
  using assms(1)
proof (induction ps arbitrary: n g)
  case Nil
  then show ?case
    using assms(2) by (subst scan_loop.simps) (auto split: frame.split)
next
  case (Cons p ps)
  then show ?case
    by (subst scan_loop.simps) (auto simp: rec_size_def)
qed

lemma scan_data_encode:
  assumes "fits ps" and "\<And>p r. read_frame tail \<noteq> Frame p r"
  shows "scan_data (encode_all ps @ tail) = (length ps, encode_all ps)"
  using scan_loop_encode[OF assms, of 0 0] by (auto simp: scan_data_def)

lemma count_loop_encode: "fits ps \<Longrightarrow> count_loop n (encode_all ps) = n + length ps"
proof (induction ps arbitrary: n)
  case Nil
  then show ?case by (simp add: count_loop.simps read_full_def)
next
  case (Cons p ps)
  have "read_full 4 (encode_record p @ encode_all ps) =
    ReadOK (put_uint32 (word_of_nat (length p))) (p @ put_uint32 (checksum_ieee p) @ encode_all ps)"
    by (simp add: read_full_def encode_record_def)
  with Cons show ?case
    by (subst count_loop.simps) (simp add: maxRecordBytes_word Let_def)
qed

text \<open>Whatever the bytes, the prefix the scan keeps is made of whole records.\<close>

lemma scan_loop_prefix:
  assumes "scan_loop n g bs = (n', g')"
  shows "\<exists>ps tail. bs = encode_all ps @ tail \<and> fits ps \<and> n' = n + length ps
    \<and> g' = g + length (encode_all ps) \<and> (\<forall>p r. read_frame tail \<noteq> Frame p r)"
  using assms
proof (induction n g bs rule: scan_loop.induct)
  case (1 n g bs)
  show ?case
  proof (cases "read_frame bs")
    case (Frame p rest)
    have len: "length bs = rec_size p + length rest" and fit: "length p \<le> maxRecordBytes"
      and enc: "bs = encode_record p @ rest"
    proof -
      show "length bs = rec_size p + length rest"
        using Frame by (rule read_frame_consumes)
      show "length p \<le> maxRecordBytes" and "bs = encode_record p @ rest"
        using Frame frame_bytes by blast+
    qed
    from "1.prems" Frame have "scan_loop (Suc n) (g + length p + recordOverhead) rest = (n', g')"
      by (subst (asm) scan_loop.simps) simp
    with "1.IH"[OF Frame] obtain ps tail where
      "rest = encode_all ps @ tail" "fits ps" "n' = Suc n + length ps"
      "g' = g + length p + recordOverhead + length (encode_all ps)" "\<forall>p r. read_frame tail \<noteq> Frame p r"
      by auto
    with enc fit show ?thesis
      by (intro exI[of _ "p # ps"] exI[of _ tail]) (simp add: rec_size_def)
  qed (use "1.prems" in \<open>auto simp: scan_loop.simps intro!: exI[of _ "[]"] exI[of _ bs]\<close>)
qed

end
