(* ===== verification/Go_Strings.thy ===== *)
theory Go_Strings
  imports Prelude
begin

text \<open>
  The parts of Go's \<open>strconv\<close> and \<open>strings\<close> packages the components call, on byte
  strings: \<open>FormatUint\<close>/\<open>Itoa\<close>, \<open>ParseUint(s, 10, 64)\<close>, \<open>Atoi\<close>, \<open>TrimSpace\<close>, \<open>Fields\<close>,
  \<open>HasSuffix\<close>, \<open>ContainsAny\<close>, \<open>ToUpper\<close> on ASCII letters and \<open>utf8.RuneStart\<close>. A Go string is
  its bytes, a \<open>char list\<close>. The main facts are the round trips between printing and
  parsing of decimal numbers.
\<close>

section \<open>Decimal numbers\<close>

definition digit_char :: "nat \<Rightarrow> char" where
  "digit_char d = char_of (48 + d)"

definition digit_val :: "char \<Rightarrow> nat option" where
  "digit_val c = (let n = of_char c in if 48 \<le> n \<and> n \<le> 57 then Some (n - 48) else None)"

lemma digit_val_digit_char [simp]: "d < 10 \<Longrightarrow> digit_val (digit_char d) = Some d"
  by (simp add: digit_val_def digit_char_def)

fun format_uint :: "nat \<Rightarrow> string" where
  "format_uint n =
     (if n < 10 then [digit_char n] else format_uint (n div 10) @ [digit_char (n mod 10)])"

declare format_uint.simps [simp del]

definition itoa :: "int \<Rightarrow> string" where
  "itoa i = (if i < 0 then CHR ''-'' # format_uint (nat (- i)) else format_uint (nat i))"

text \<open>The value of a string of decimal digits; \<open>None\<close> when a byte is not a digit.\<close>

fun digits_val :: "nat \<Rightarrow> string \<Rightarrow> nat option" where
  "digits_val acc [] = Some acc"
| "digits_val acc (c # cs) =
     (case digit_val c of None \<Rightarrow> None | Some d \<Rightarrow> digits_val (10 * acc + d) cs)"

lemma digits_val_append:
  "digits_val acc (xs @ ys) =
     (case digits_val acc xs of None \<Rightarrow> None | Some n \<Rightarrow> digits_val n ys)"
  by (induction xs arbitrary: acc) (auto split: option.split)

lemma format_uint_not_Nil [simp]: "format_uint n \<noteq> []"
  by (subst format_uint.simps) simp

lemma digits_val_format_uint [simp]: "digits_val 0 (format_uint n) = Some n"
proof (induction n rule: format_uint.induct)
  case (1 n)
  then show ?case
    by (subst format_uint.simps) (auto simp: digits_val_append)
qed

lemma format_uint_digits: "c \<in> set (format_uint n) \<Longrightarrow> \<exists>d<10. c = digit_char d"
proof (induction n rule: format_uint.induct)
  case (1 n)
  then show ?case
    by (subst (asm) (2) format_uint.simps) (auto split: if_splits intro: exI[of _ n] exI[of _ "n mod 10"])
qed

text \<open>\<open>strconv.ParseUint(s, 10, 64)\<close>: no sign, at least one digit, range error past 64 bits.\<close>

definition parse_uint64 :: "string \<Rightarrow> u64 option" where
  "parse_uint64 s =
     (if s = [] then None
      else case digits_val 0 s of
        None \<Rightarrow> None
      | Some n \<Rightarrow> if n < 2 ^ 64 then Some (word_of_nat n) else None)"

lemma parse_uint64_format [simp]: "parse_uint64 (format_uint (unat (w :: u64))) = Some w"
proof -
  have "unat w < 2 ^ 64"
    using unsigned_less[where w = w] by simp
  then show ?thesis
    by (simp add: parse_uint64_def)
qed

text \<open>\<open>strconv.Atoi\<close>: an optional sign, at least one digit, range error outside \<open>int64\<close>.\<close>

definition atoi_range :: "int \<Rightarrow> int option" where
  "atoi_range i = (if - (2 ^ 63) \<le> i \<and> i < 2 ^ 63 then Some i else None)"

definition atoi :: "string \<Rightarrow> int option" where
  "atoi s =
     (let neg = (s \<noteq> [] \<and> hd s = CHR ''-'');
          body = (if s \<noteq> [] \<and> (hd s = CHR ''-'' \<or> hd s = CHR ''+'') then tl s else s)
      in if body = [] then None
         else case digits_val 0 body of
           None \<Rightarrow> None
         | Some n \<Rightarrow> atoi_range (if neg then - int n else int n))"

lemma hd_format_uint: "\<exists>d<10. hd (format_uint n) = digit_char d"
  using format_uint_digits[of "hd (format_uint n)" n] by simp

lemma digit_char_neq: "d < 10 \<Longrightarrow> digit_char d \<noteq> CHR ''-''" "d < 10 \<Longrightarrow> digit_char d \<noteq> CHR ''+''"
  by (auto simp: digit_char_def dest!: arg_cong[where f = "of_char :: char \<Rightarrow> nat"])

lemma hd_format_uint_sign [simp]:
  "hd (format_uint n) \<noteq> CHR ''-''" "hd (format_uint n) \<noteq> CHR ''+''"
  using hd_format_uint[of n] digit_char_neq by metis+

lemma atoi_itoa: "- (2 ^ 63) \<le> i \<Longrightarrow> i < 2 ^ 63 \<Longrightarrow> atoi (itoa i) = Some i"
  by (simp add: atoi_def itoa_def atoi_range_def)

section \<open>White space\<close>

text \<open>
  The UTF-8 encodings of the runes Go's \<open>unicode.IsSpace\<close> accepts. A trailing or leading
  occurrence of one of these byte sequences decodes to that rune whatever surrounds it,
  so trimming bytes is trimming runes.
\<close>

definition space_runes :: "string list" where
  "space_runes =
     map (\<lambda>n. [char_of n]) [32, 9, 10, 11, 12, 13 :: nat]
     @ map (map char_of)
        ([[0xC2, 0x85], [0xC2, 0xA0], [0xE1, 0x9A, 0x80]]
         @ map (\<lambda>k. [0xE2, 0x80, k]) [0x80, 0x81, 0x82, 0x83, 0x84, 0x85, 0x86, 0x87, 0x88, 0x89, 0x8A, 0xA8, 0xA9, 0xAF]
         @ [[0xE2, 0x81, 0x9F], [0xE3, 0x80, 0x80 :: nat]])"

fun is_prefix :: "'a list \<Rightarrow> 'a list \<Rightarrow> bool" where
  "is_prefix [] ys = True"
| "is_prefix (x # xs) [] = False"
| "is_prefix (x # xs) (y # ys) = (x = y \<and> is_prefix xs ys)"

text \<open>The length of the space rune the string starts with, \<open>0\<close> when there is none.\<close>

definition space_len :: "string \<Rightarrow> nat" where
  "space_len s = (case find (\<lambda>r. is_prefix r s) space_runes of None \<Rightarrow> 0 | Some r \<Rightarrow> length r)"

definition space_len_rev :: "string \<Rightarrow> nat" where
  "space_len_rev s = (case find (\<lambda>r. is_prefix (rev r) s) space_runes of None \<Rightarrow> 0 | Some r \<Rightarrow> length r)"

lemma is_prefix_length: "is_prefix xs ys \<Longrightarrow> length xs \<le> length ys"
  by (induction xs ys rule: is_prefix.induct) auto

lemma space_len_le: "space_len s \<le> length s"
  by (auto simp: space_len_def find_Some_iff dest!: is_prefix_length split: option.split)

lemma space_len_rev_le: "space_len_rev s \<le> length s"
  by (fastforce simp: space_len_rev_def find_Some_iff dest!: is_prefix_length split: option.split)

function trim_left_by :: "(string \<Rightarrow> nat) \<Rightarrow> string \<Rightarrow> string" where
  "trim_left_by k s = (if 0 < k s \<and> k s \<le> length s then trim_left_by k (drop (k s) s) else s)"
  by pat_completeness auto
termination
  by (relation "measure (\<lambda>(k, s). length s)") auto

declare trim_left_by.simps [simp del]

definition trim_space :: "string \<Rightarrow> string" where
  "trim_space s = rev (trim_left_by space_len_rev (rev (trim_left_by space_len s)))"

text \<open>\<open>strings.Fields\<close>: the maximal runs of non-space bytes; \<open>cur\<close> is the field being read.\<close>

function fields_from :: "string \<Rightarrow> string \<Rightarrow> string list" where
  "fields_from cur [] = (if cur = [] then [] else [cur])"
| "fields_from cur (c # cs) =
     (let k = space_len (c # cs)
      in if 0 < k \<and> k \<le> length (c # cs)
         then (if cur = [] then [] else [cur]) @ fields_from [] (drop k (c # cs))
         else fields_from (cur @ [c]) cs)"
  by pat_completeness auto
termination
  by (relation "measure (\<lambda>(cur, s). length s)") auto

definition str_fields :: "string \<Rightarrow> string list" where
  "str_fields s = fields_from [] s"

text \<open>Strings without space runes at the ends are fixed by trimming.\<close>

definition no_space :: "char \<Rightarrow> bool" where
  "no_space c \<longleftrightarrow> of_char c \<in> {33..126 :: nat}"

lemma digit_no_space: "d < 10 \<Longrightarrow> no_space (digit_char d)"
  by (simp add: no_space_def digit_char_def)

lemma format_uint_no_space: "c \<in> set (format_uint n) \<Longrightarrow> no_space c"
  using format_uint_digits digit_no_space by blast

lemma space_rune_first: "r \<in> set space_runes \<Longrightarrow> \<exists>c cs. r = c # cs \<and> \<not> no_space c"
  by (auto simp: space_runes_def no_space_def)

lemma space_rune_last: "r \<in> set space_runes \<Longrightarrow> \<exists>c cs. rev r = c # cs \<and> \<not> no_space c"
  by (cases "rev r") (auto simp: space_runes_def no_space_def)

lemma space_len_no_space: "no_space c \<Longrightarrow> space_len (c # cs) = 0"
proof (cases "find (\<lambda>r. is_prefix r (c # cs)) space_runes")
  case None
  then show ?thesis by (simp add: space_len_def)
next
  case (Some r)
  then have "r \<in> set space_runes" and "is_prefix r (c # cs)"
    by (auto simp: find_Some_iff)
  moreover assume "no_space c"
  ultimately show ?thesis
    using space_rune_first by fastforce
qed

lemma space_len_rev_no_space: "no_space c \<Longrightarrow> space_len_rev (c # cs) = 0"
proof (cases "find (\<lambda>r. is_prefix (rev r) (c # cs)) space_runes")
  case None
  then show ?thesis by (simp add: space_len_rev_def)
next
  case (Some r)
  then have "r \<in> set space_runes" and "is_prefix (rev r) (c # cs)"
    by (auto simp: find_Some_iff)
  moreover assume "no_space c"
  ultimately show ?thesis
    using space_rune_last by fastforce
qed

lemma trim_left_by_fix: "k s = 0 \<Longrightarrow> trim_left_by k s = s"
  by (simp add: trim_left_by.simps)

lemma space_len_Nil [simp]: "space_len [] = 0" "space_len_rev [] = 0"
  using space_len_le[of "[]"] space_len_rev_le[of "[]"] by simp_all

lemma trim_space_fix:
  assumes "s = [] \<or> (no_space (hd s) \<and> no_space (last s))"
  shows "trim_space s = s"
proof (cases s)
  case Nil
  then show ?thesis by (simp add: trim_space_def trim_left_by_fix)
next
  case (Cons c cs)
  with assms have "no_space c" "no_space (last s)"
    by auto
  then have "space_len s = 0"
    using Cons by (simp add: space_len_no_space)
  moreover have "rev s = last s # rev (butlast s)"
    using Cons by (metis append_butlast_last_id list.distinct(1) rev_eq_Cons_iff rev_rev_ident)
  then have "space_len_rev (rev s) = 0"
    using \<open>no_space (last s)\<close> by (simp only: space_len_rev_no_space)
  ultimately show ?thesis
    by (simp add: trim_space_def trim_left_by_fix)
qed

lemma trim_space_format_uint [simp]: "trim_space (format_uint n) = format_uint n"
  by (rule trim_space_fix) (simp add: format_uint_no_space[of _ n])

lemma fields_from_word:
  "(\<forall>c\<in>set w. no_space c) \<Longrightarrow> fields_from cur (w @ s) = fields_from (cur @ w) s"
  by (induction w arbitrary: cur) (simp_all add: space_len_no_space)

lemma char_blank: "char_of (32 :: nat) = CHR '' ''"
  by code_simp

lemma space_len_blank: "space_len (CHR '' '' # cs) = 1"
proof -
  have "find (\<lambda>r. is_prefix r (CHR '' '' # cs)) space_runes = Some '' ''"
    by (simp add: space_runes_def char_blank)
  then show ?thesis by (simp add: space_len_def)
qed

lemma fields_two_words:
  assumes "\<forall>c\<in>set v. no_space c" "\<forall>c\<in>set w. no_space c" "v \<noteq> []" "w \<noteq> []"
  shows "str_fields (v @ '' '' @ w) = [v, w]"
proof -
  have "str_fields (v @ '' '' @ w) = fields_from v ('' '' @ w)"
    using assms by (simp only: str_fields_def fields_from_word append_Nil)
  also have "\<dots> = v # fields_from [] w"
    using assms by (simp add: space_len_blank)
  also have "fields_from [] w = [w]"
    using assms fields_from_word[of w "[]" "[]"] by simp
  finally show ?thesis .
qed

section \<open>Other string operations\<close>

definition has_suffix :: "string \<Rightarrow> string \<Rightarrow> bool" where
  "has_suffix s suf \<longleftrightarrow> length suf \<le> length s \<and> drop (length s - length suf) s = suf"

definition trim_suffix :: "string \<Rightarrow> string \<Rightarrow> string" where
  "trim_suffix s suf = (if has_suffix s suf then take (length s - length suf) s else s)"

definition contains_any :: "string \<Rightarrow> string \<Rightarrow> bool" where
  "contains_any s cs \<longleftrightarrow> list_ex (\<lambda>c. c \<in> set cs) s"

lemma has_suffix_append [simp]: "has_suffix (s @ suf) suf"
  by (simp add: has_suffix_def)

lemma trim_suffix_append [simp]: "trim_suffix (s @ suf) suf = s"
  by (simp add: trim_suffix_def)

text \<open>
  \<open>utf8.RuneStart\<close>: a byte that does not have the form \<open>10xxxxxx\<close>. The two routines that cut
  a byte string at a length bound walk back to such a byte.
\<close>

definition rune_start :: "char \<Rightarrow> bool" where
  "rune_start c \<longleftrightarrow> \<not> (128 \<le> (of_char c :: nat) \<and> (of_char c :: nat) < 192)"

fun rune_cut :: "string \<Rightarrow> nat \<Rightarrow> nat" where
  "rune_cut s 0 = 0"
| "rune_cut s (Suc k) = (if rune_start (s ! Suc k) then Suc k else rune_cut s k)"

lemma rune_cut_le: "rune_cut s k \<le> k"
  by (induction k) (auto intro: le_SucI)

lemma rune_cut_start: "rune_cut s k > 0 \<Longrightarrow> rune_start (s ! rune_cut s k)"
  by (induction k) (auto split: if_splits)

lemma rune_cut_max: "rune_cut s k < j \<Longrightarrow> j \<le> k \<Longrightarrow> \<not> rune_start (s ! j)"
  by (induction k) (auto simp: le_Suc_eq split: if_splits)

end
