(* ===== verification/Spool.thy ===== *)
theory Spool
  imports Spool_Record Go_Strings
begin

text \<open>
  The agent's crash-safe disk buffer (\<open>internal/agent/spool/spool.go\<close>). The state of
  \<open>type Spool\<close> is the record \<open>spool\<close>; it carries the spool directory (\<open>sp_dir\<close>, file
  names with their contents), so that every operation is a function from state to state.

  Every system call that can fail asks the environment: \<open>e_ok\<close> answers the \<open>n\<close>-th call of
  the process, and a failed write leaves the first \<open>e_part\<close> of its bytes in the file (a
  torn write). The theorems quantify over all environments unless they say that no call
  fails. An operation reads the clock once (\<open>e_now\<close>). Reads of an opened file, \<open>Stat\<close> of an
  open handle and \<open>Info\<close> of a listed entry do not fail in the model; files other than the
  segments and the two sidecars are left alone, as in the code.

  The closure \<open>ack\<close> that \<open>Next\<close> returns is the value \<open>ack_token\<close> and the function \<open>ack\<close>.
\<close>

section \<open>The directory\<close>

record fdesc =
  f_data :: "byte list"
  f_mod :: gtime

type_synonym dir = "(string \<times> fdesc) list"

definition dir_del :: "string \<Rightarrow> dir \<Rightarrow> dir" where
  "dir_del name d = filter (\<lambda>p. fst p \<noteq> name) d"

definition dir_put :: "string \<Rightarrow> fdesc \<Rightarrow> dir \<Rightarrow> dir" where
  "dir_put name f d = dir_del name d @ [(name, f)]"

definition bytes_of_string :: "string \<Rightarrow> byte list" where
  "bytes_of_string s = map (\<lambda>c. word_of_nat (of_char c)) s"

definition string_of_bytes :: "byte list \<Rightarrow> string" where
  "string_of_bytes bs = map (\<lambda>b. char_of (unat b)) bs"

record segment =
  sg_seq :: u64
  sg_path :: string
  sg_size :: nat
  sg_mod :: gtime

definition seg_name :: "u64 \<Rightarrow> string" where
  "seg_name seq =
     (let ds = format_uint (unat seq) in replicate (20 - length ds) (CHR ''0'') @ ds @ ''.seg'')"

definition entry_segment :: "string \<times> fdesc \<Rightarrow> segment option" where
  "entry_segment p =
     (if has_suffix (fst p) ''.seg''
      then map_option
        (\<lambda>seq. \<lparr>sg_seq = seq, sg_path = fst p, sg_size = length (f_data (snd p)), sg_mod = f_mod (snd p)\<rparr>)
        (parse_uint64 (trim_suffix (fst p) ''.seg''))
      else None)"

definition list_segments :: "dir \<Rightarrow> segment list" where
  "list_segments d = sort_key sg_seq (List.map_filter entry_segment d)"

section \<open>State\<close>

definition segMaxBytes :: nat where "segMaxBytes = 2 ^ 20"
definition segMaxAge :: duration where "segMaxAge = 60 * second"
definition droppedFile :: string where "droppedFile = ''dropped''"
definition droppedStateFile :: string where "droppedStateFile = ''dropped-state''"

record spool =
  sp_dir :: dir
  sp_tick :: nat
  maxBytes :: int
  maxAge :: duration
  active :: bool
  activeSeq :: u64
  activeSize :: nat
  activeOpenedAt :: gtime
  nextSeq :: u64
  readSeq :: u64
  readOffset :: nat
  pending :: int
  droppedTotal :: u64
  droppedAcked :: u64
  droppedUnacked :: u64
  totalBytes :: int
  lastBoundsCheck :: gtime
  notify :: bool

record spool_env =
  e_now :: gtime
  e_ok :: "nat \<Rightarrow> bool"
  e_part :: "nat \<Rightarrow> nat"

datatype spool_error =
    ErrMkdir | ErrList | ErrScan | ErrTruncate | ErrReadCounter | ErrReadState
  | ErrOpenSegment | ErrWrite | ErrRotate | ErrDropSegment | ErrPersist string
  | ErrRemove | ErrSync

type_synonym outcome = "spool_error option \<times> spool"

definition io_try :: "spool_env \<Rightarrow> spool \<Rightarrow> bool \<times> spool" where
  "io_try e s = (e_ok e (sp_tick s), s\<lparr>sp_tick := Suc (sp_tick s)\<rparr>)"

text \<open>Continue only after success, as \<open>if err := \<dots>; err != nil { return err }\<close> does.\<close>

definition and_then :: "outcome \<Rightarrow> (spool \<Rightarrow> outcome) \<Rightarrow> outcome" where
  "and_then r f = (case r of (None, s) \<Rightarrow> f s | (Some err, s) \<Rightarrow> (Some err, s))"

definition max0 :: "int \<Rightarrow> int" where
  "max0 v = (if v < 0 then 0 else v)"

section \<open>Sidecars\<close>

definition persistFileLocked :: "spool_env \<Rightarrow> string \<Rightarrow> string \<Rightarrow> spool \<Rightarrow> outcome" where
  "persistFileLocked e name content s =
     (let tmp = name @ ''.tmp'';
          part = e_part e (sp_tick s);
          (ok, s) = io_try e s
      in if \<not> ok
         then (Some (ErrPersist name),
               s\<lparr>sp_dir := dir_put tmp \<lparr>f_data = take part (bytes_of_string content), f_mod = e_now e\<rparr> (sp_dir s)\<rparr>)
         else
           (let f = \<lparr>f_data = bytes_of_string content, f_mod = e_now e\<rparr>;
                s = s\<lparr>sp_dir := dir_put tmp f (sp_dir s)\<rparr>;
                (ok, s) = io_try e s
            in if \<not> ok then (Some (ErrPersist name), s)
               else (None, s\<lparr>sp_dir := dir_put name f (dir_del tmp (sp_dir s))\<rparr>)))"

definition persistCounterLocked :: "spool_env \<Rightarrow> string \<Rightarrow> u64 \<Rightarrow> spool \<Rightarrow> outcome" where
  "persistCounterLocked e name v s = persistFileLocked e name (format_uint (unat v)) s"

definition droppedState_text :: "u64 \<Rightarrow> u64 \<Rightarrow> string" where
  "droppedState_text tot acked = format_uint (unat tot) @ '' '' @ format_uint (unat acked)"

definition persistDropCountersLocked :: "spool_env \<Rightarrow> spool \<Rightarrow> outcome" where
  "persistDropCountersLocked e s =
     and_then (persistCounterLocked e droppedFile (droppedUnacked s) s)
       (\<lambda>s. persistFileLocked e droppedStateFile (droppedState_text (droppedTotal s) (droppedAcked s)) s)"

definition parseDroppedState :: "string \<Rightarrow> (u64 \<times> u64) option" where
  "parseDroppedState b =
     (case str_fields (trim_space b) of
        [f0, f1] \<Rightarrow>
          (case parse_uint64 f0 of
             None \<Rightarrow> None
           | Some tot \<Rightarrow>
               (case parse_uint64 f1 of None \<Rightarrow> None | Some acked \<Rightarrow> Some (tot, acked)))
      | _ \<Rightarrow> None)"

definition parseDropped :: "string \<Rightarrow> u64 option" where
  "parseDropped b = parse_uint64 (trim_space b)"

text \<open>
  The reconciliation of \<open>Open\<close>: from what the two sidecars say (\<open>None\<close> for one that is absent
  or does not parse) to the three counters, and whether they must be written back.
\<close>

definition reconcile :: "u64 option \<Rightarrow> (u64 \<times> u64) option \<Rightarrow> (u64 \<times> u64 \<times> u64) \<times> bool" where
  "reconcile unackedFile stateFile =
     (let (t0, a0) = (case stateFile of None \<Rightarrow> (0, 0) | Some (t, a) \<Rightarrow> (t, min a t));
          unacked = (case unackedFile of Some v \<Rightarrow> v | None \<Rightarrow> t0 - a0);
          tot = (if unacked > - 1 - a0 then - 1 else max t0 (a0 + unacked));
          acked = tot - unacked
      in ((tot, acked, unacked),
          tot \<noteq> t0 \<or> acked \<noteq> a0 \<or> (unackedFile = None \<and> tot > 0)))"

section \<open>Segment operations\<close>

definition wake :: "spool \<Rightarrow> spool" where
  "wake s = s\<lparr>notify := True\<rparr>"

definition openActiveLocked :: "spool_env \<Rightarrow> spool \<Rightarrow> outcome" where
  "openActiveLocked e s =
     (let seq = nextSeq s; path = seg_name seq; (ok, s) = io_try e s
      in if \<not> ok then (Some ErrOpenSegment, s)
         else
           (let f = (case map_of (sp_dir s) path of Some f \<Rightarrow> f | None \<Rightarrow> \<lparr>f_data = [], f_mod = e_now e\<rparr>);
                s = s\<lparr>sp_dir := dir_put path f (sp_dir s)\<rparr>;
                (ok, s) = io_try e s
            in if \<not> ok then (Some ErrOpenSegment, s)
               else (None, s\<lparr>active := True, activeSeq := seq, activeSize := length (f_data f),
                             activeOpenedAt := e_now e, nextSeq := seq + 1\<rparr>)))"

definition rotateLocked :: "spool_env \<Rightarrow> spool \<Rightarrow> outcome" where
  "rotateLocked e s =
     (if \<not> active s then (None, s)
      else let (ok1, s) = io_try e s; (ok2, s) = io_try e s; s = s\<lparr>active := False\<rparr>
           in (if ok1 \<and> ok2 then None else Some ErrRotate, s))"

definition closeOp :: "spool_env \<Rightarrow> spool \<Rightarrow> outcome" where
  "closeOp e s =
     (if \<not> active s then (None, s)
      else let (ok1, s) = io_try e s; (ok2, s) = io_try e s
           in (if ok1 \<and> ok2 then None else Some ErrSync, s\<lparr>active := False\<rparr>))"

text \<open>A write to the append handle; a failure leaves a prefix of the bytes behind.\<close>

definition append_file :: "string \<Rightarrow> byte list \<Rightarrow> gtime \<Rightarrow> dir \<Rightarrow> dir" where
  "append_file path bs now d =
     (case map_of d path of
        None \<Rightarrow> d
      | Some f \<Rightarrow> dir_put path \<lparr>f_data = f_data f @ bs, f_mod = now\<rparr> d)"

definition write_active :: "spool_env \<Rightarrow> byte list \<Rightarrow> spool \<Rightarrow> outcome" where
  "write_active e bs s =
     (let part = e_part e (sp_tick s); (ok, s) = io_try e s; path = seg_name (activeSeq s)
      in if ok then (None, s\<lparr>sp_dir := append_file path bs (e_now e) (sp_dir s)\<rparr>)
         else (Some ErrWrite, s\<lparr>sp_dir := append_file path (take part bs) (e_now e) (sp_dir s)\<rparr>))"

definition truncateSegmentLocked :: "spool_env \<Rightarrow> segment \<Rightarrow> nat \<Rightarrow> spool \<Rightarrow> spool" where
  "truncateSegmentLocked e seg goodEnd s =
     (let s = (if sg_seq seg = activeSeq s \<and> active s then s\<lparr>active := False\<rparr> else s);
          (ok, s) = io_try e s
      in if \<not> ok then s
         else case map_of (sp_dir s) (sg_path seg) of
           None \<Rightarrow> s
         | Some f \<Rightarrow> s\<lparr>sp_dir := dir_put (sg_path seg) \<lparr>f_data = take goodEnd (f_data f), f_mod = e_now e\<rparr> (sp_dir s)\<rparr>)"

definition file_bytes :: "dir \<Rightarrow> string \<Rightarrow> byte list" where
  "file_bytes d path = (case map_of d path of None \<Rightarrow> [] | Some f \<Rightarrow> f_data f)"

section \<open>Bounds\<close>

text \<open>\<open>countRecords\<close>: zero when the file cannot be opened.\<close>

definition countRecords :: "spool_env \<Rightarrow> string \<Rightarrow> spool \<Rightarrow> nat \<times> spool" where
  "countRecords e path s =
     (let (ok, s) = io_try e s in (if ok then count_records (file_bytes (sp_dir s) path) else 0, s))"

definition drop_oldest :: "nat \<Rightarrow> segment \<Rightarrow> spool \<Rightarrow> spool" where
  "drop_oldest records oldest s =
     (let s = s\<lparr>sp_dir := dir_del (sg_path oldest) (sp_dir s)\<rparr>;
          s = (if readSeq s = sg_seq oldest then s\<lparr>readSeq := 0, readOffset := 0\<rparr> else s)
      in s\<lparr>pending := max0 (pending s - int records),
           droppedTotal := droppedTotal s + word_of_nat records,
           droppedUnacked := droppedUnacked s + word_of_nat records\<rparr>)"

definition overBounds :: "spool_env \<Rightarrow> spool \<Rightarrow> bool" where
  "overBounds e s =
     (case list_segments (sp_dir s) of
        [] \<Rightarrow> False
      | oldest # _ \<Rightarrow>
          int (sum_list (map sg_size (list_segments (sp_dir s)))) > maxBytes s
          \<or> time_sub (e_now e) (sg_mod oldest) > maxAge s)"

subsection \<open>Directory lemmas needed for termination\<close>

lemma map_filter_filter: "List.map_filter f (filter P xs) = List.map_filter (\<lambda>x. if P x then f x else None) xs"
  by (induction xs) (auto simp: List.map_filter_def)

lemma map_filter_append [simp]: "List.map_filter f (xs @ ys) = List.map_filter f xs @ List.map_filter f ys"
  by (simp add: List.map_filter_def)

lemma map_filter_Nil_iff: "List.map_filter f xs = [] \<longleftrightarrow> (\<forall>x\<in>set xs. f x = None)"
  by (auto simp: List.map_filter_def filter_empty_conv)

lemma list_segments_del_other:
  assumes "\<not> has_suffix name ''.seg''"
  shows "list_segments (dir_del name d) = list_segments d"
proof -
  have "List.map_filter entry_segment (dir_del name d) = List.map_filter entry_segment d"
    unfolding dir_del_def map_filter_filter
    by (rule arg_cong[where f = "\<lambda>g. List.map_filter g d"]) (use assms in \<open>auto simp: entry_segment_def\<close>)
  then show ?thesis by (simp add: list_segments_def)
qed

lemma list_segments_put_other:
  assumes "\<not> has_suffix name ''.seg''"
  shows "list_segments (dir_put name f d) = list_segments d"
proof -
  have "List.map_filter entry_segment [(name, f)] = []"
    using assms by (simp add: List.map_filter_def entry_segment_def)
  then have "list_segments (dir_put name f d) = list_segments (dir_del name d)"
    by (simp add: list_segments_def dir_put_def)
  then show ?thesis by (simp add: list_segments_del_other[OF assms])
qed

lemma sidecar_names [simp]:
  "\<not> has_suffix droppedFile ''.seg''" "\<not> has_suffix droppedStateFile ''.seg''"
  "\<not> has_suffix (droppedFile @ ''.tmp'') ''.seg''" "\<not> has_suffix (droppedStateFile @ ''.tmp'') ''.seg''"
  by (simp_all add: has_suffix_def droppedFile_def droppedStateFile_def)

lemma persistFileLocked_segments:
  assumes "\<not> has_suffix name ''.seg''" "\<not> has_suffix (name @ ''.tmp'') ''.seg''"
  shows "list_segments (sp_dir (snd (persistFileLocked e name c s))) = list_segments (sp_dir s)"
  using assms
  by (simp add: persistFileLocked_def io_try_def Let_def list_segments_put_other list_segments_del_other)

lemma persistDropCountersLocked_segments [simp]:
  "list_segments (sp_dir (snd (persistDropCountersLocked e s))) = list_segments (sp_dir s)"
proof -
  let ?r = "persistCounterLocked e droppedFile (droppedUnacked s) s"
  have "list_segments (sp_dir (snd ?r)) = list_segments (sp_dir s)"
    by (simp add: persistCounterLocked_def persistFileLocked_segments)
  then show ?thesis
    by (cases ?r) (auto simp: persistDropCountersLocked_def and_then_def persistFileLocked_segments split: option.split)
qed

lemma set_list_segments: "set (list_segments d) = {sg. \<exists>p\<in>set d. entry_segment p = Some sg}"
  by (force simp: list_segments_def List.map_filter_def)

lemma list_segments_path: "sg \<in> set (list_segments d) \<Longrightarrow> sg_path sg \<in> fst ` set d"
  by (force simp: set_list_segments entry_segment_def split: if_splits)

lemma length_list_segments: "length (list_segments d) = length (filter (\<lambda>p. entry_segment p \<noteq> None) d)"
  by (simp add: list_segments_def List.map_filter_def)

lemma list_segments_del_less:
  assumes "sg \<in> set (list_segments d)"
  shows "length (list_segments (dir_del (sg_path sg) d)) < length (list_segments d)"
proof -
  from assms obtain p where p: "p \<in> set d" "entry_segment p = Some sg"
    by (auto simp: set_list_segments)
  then have "fst p = sg_path sg"
    by (auto simp: entry_segment_def split: if_splits)
  then have "length (filter (\<lambda>p. fst p \<noteq> sg_path sg) (filter (\<lambda>p. entry_segment p \<noteq> None) d))
      < length (filter (\<lambda>p. entry_segment p \<noteq> None) d)"
    using p by (intro length_filter_less[where x = p]) auto
  then show ?thesis
    by (simp add: length_list_segments dir_del_def conj_commute)
qed

lemma rotateLocked_dir [simp]: "sp_dir (snd (rotateLocked e s)) = sp_dir s"
  by (simp add: rotateLocked_def io_try_def Let_def)

lemma rotateLocked_dirD: "rotateLocked e s = (r, s') \<Longrightarrow> sp_dir s' = sp_dir s"
  by (metis rotateLocked_dir snd_conv)

lemma io_try_dir [simp]: "sp_dir (snd (io_try e s)) = sp_dir s"
  by (simp add: io_try_def)

subsection \<open>The loop\<close>

text \<open>
  One turn of \<open>enforceBoundsLocked\<close> past the checks: seal the active segment if it is the
  oldest, remove the oldest, account for it, persist the account.
\<close>

definition enforce_turn :: "spool_env \<Rightarrow> segment \<Rightarrow> spool \<Rightarrow> outcome" where
  "enforce_turn e oldest s =
     and_then (if sg_seq oldest = activeSeq s \<and> active s then rotateLocked e s else (None, s))
       (\<lambda>s. let (records, s) = countRecords e (sg_path oldest) s; (ok, s) = io_try e s
            in if \<not> ok then (Some ErrDropSegment, s)
               else persistDropCountersLocked e (drop_oldest records oldest s))"

lemma drop_oldest_dir [simp]: "sp_dir (drop_oldest n sg s) = dir_del (sg_path sg) (sp_dir s)"
  by (simp add: drop_oldest_def Let_def)

lemma enforce_turn_dir:
  "enforce_turn e sg s = (None, s') \<Longrightarrow>
     list_segments (sp_dir s') = list_segments (dir_del (sg_path sg) (sp_dir s))"
  by (auto simp: enforce_turn_def and_then_def Let_def io_try_def countRecords_def
      dest!: rotateLocked_dirD arg_cong[where f = snd] split: option.splits prod.splits if_splits)

lemma enforce_turn_less:
  assumes "enforce_turn e sg s = (None, s')" "list_segments (sp_dir s) = sg # rest"
  shows "length (list_segments (sp_dir s')) < Suc (length rest)"
  using list_segments_del_less[of sg "sp_dir s"] enforce_turn_dir[OF assms(1)] assms(2) by simp

function enforceBoundsLocked :: "spool_env \<Rightarrow> spool \<Rightarrow> outcome" where
  "enforceBoundsLocked e s =
     (let (ok, s) = io_try e s
      in if \<not> ok then (Some ErrList, s)
         else case list_segments (sp_dir s) of
           [] \<Rightarrow> (None, s\<lparr>totalBytes := 0, lastBoundsCheck := e_now e\<rparr>)
         | oldest # rest \<Rightarrow>
             if \<not> overBounds e s
             then (None, s\<lparr>totalBytes := int (sum_list (map sg_size (oldest # rest))), lastBoundsCheck := e_now e\<rparr>)
             else case enforce_turn e oldest s of
               (Some err, s) \<Rightarrow> (Some err, s)
             | (None, s) \<Rightarrow> enforceBoundsLocked e s)"
  by pat_completeness auto
termination
  by (relation "measure (\<lambda>(e, s). length (list_segments (sp_dir s)))")
    (auto simp: io_try_def dest: enforce_turn_less[OF sym])

declare enforceBoundsLocked.simps [simp del]

section \<open>Append\<close>

definition dropUnspoolable :: "spool_env \<Rightarrow> spool \<Rightarrow> outcome" where
  "dropUnspoolable e s =
     persistDropCountersLocked e
       (s\<lparr>droppedTotal := droppedTotal s + 1, droppedUnacked := droppedUnacked s + 1\<rparr>)"

definition boundsCheckEvery :: "spool \<Rightarrow> duration" where
  "boundsCheckEvery s = min minute (go_div (maxAge s) 2)"

definition write_record :: "spool_env \<Rightarrow> byte list \<Rightarrow> spool \<Rightarrow> outcome" where
  "write_record e payload s =
     and_then (write_active e (put_uint32 (word_of_nat (length payload))) s)
       (\<lambda>s. and_then (write_active e payload s)
         (\<lambda>s. write_active e (put_uint32 (checksum_ieee payload)) s))"

definition appendPayload :: "spool_env \<Rightarrow> byte list \<Rightarrow> spool \<Rightarrow> outcome" where
  "appendPayload e payload s =
     and_then
       (if active s \<and> (activeSize s + length payload + recordOverhead > segMaxBytes
                       \<or> time_sub (e_now e) (activeOpenedAt s) \<ge> segMaxAge)
        then rotateLocked e s else (None, s))
     (\<lambda>s. and_then (if \<not> active s then openActiveLocked e s else (None, s))
     (\<lambda>s. and_then (write_record e payload s)
     (\<lambda>s. let n = length payload + recordOverhead;
              s = s\<lparr>activeSize := activeSize s + n, totalBytes := totalBytes s + int n, pending := pending s + 1\<rparr>
          in and_then
               (if totalBytes s > maxBytes s \<or> time_sub (e_now e) (lastBoundsCheck s) \<ge> boundsCheckEvery s
                then enforceBoundsLocked e s else (None, s))
               (\<lambda>s. (None, wake s)))))"

definition append :: "spool_env \<Rightarrow> ('r \<Rightarrow> byte list option) \<Rightarrow> 'r \<Rightarrow> spool \<Rightarrow> outcome" where
  "append e marshal res s =
     (case marshal res of
        None \<Rightarrow> dropUnspoolable e s
      | Some payload \<Rightarrow>
          if length payload > maxRecordBytes - recordOverhead then dropUnspoolable e s
          else appendPayload e payload s)"

section \<open>Next and its acknowledgement\<close>

record consumed_seg =
  c_seq :: u64
  c_path :: string
  c_end :: nat
  c_complete :: bool

text \<open>\<open>None\<close> is the no-op acknowledgement returned after a failed listing.\<close>

type_synonym ack_token = "(consumed_seg list \<times> nat) option"

definition readSegmentLocked ::
  "spool_env \<Rightarrow> (byte list \<Rightarrow> 'r option) \<Rightarrow> segment \<Rightarrow> nat \<Rightarrow> nat \<Rightarrow> spool \<Rightarrow> ('r list \<times> nat \<times> bool) \<times> spool" where
  "readSegmentLocked e unmarshal seg offset k s =
     (let (ok, s) = io_try e s
      in if \<not> ok then (([], offset, False), s)
         else let (ok, s) = io_try e s
              in if \<not> ok then (([], offset, True), s)
                 else (read_segment unmarshal (file_bytes (sp_dir s) (sg_path seg)) offset k, s))"

fun next_loop ::
  "spool_env \<Rightarrow> (byte list \<Rightarrow> 'r option) \<Rightarrow> nat \<Rightarrow> segment list \<Rightarrow> 'r list \<Rightarrow> consumed_seg list \<Rightarrow> spool
   \<Rightarrow> 'r list \<times> consumed_seg list \<times> spool" where
  "next_loop e unmarshal k [] out consumed s = (out, consumed, s)"
| "next_loop e unmarshal k (seg # segs) out consumed s =
     (if length out \<ge> k then (out, consumed, s)
      else
        (let start = (if sg_seq seg = readSeq s then readOffset s else 0);
             ((recs, stop, corrupt), s) = readSegmentLocked e unmarshal seg start (k - length out) s;
             s = (if corrupt then truncateSegmentLocked e seg stop s else s)
         in if recs = [] \<and> \<not> corrupt \<and> sg_seq seg \<noteq> activeSeq s \<and> stop \<ge> sg_size seg
            then next_loop e unmarshal k segs out
                   (consumed @ [\<lparr>c_seq = sg_seq seg, c_path = sg_path seg, c_end = stop, c_complete = True\<rparr>]) s
            else if recs = [] then next_loop e unmarshal k segs out consumed s
            else next_loop e unmarshal k segs (out @ recs)
                   (consumed @ [\<lparr>c_seq = sg_seq seg, c_path = sg_path seg, c_end = stop,
                      c_complete = (stop \<ge> sg_size seg \<and> sg_seq seg \<noteq> activeSeq s \<and> \<not> corrupt)\<rparr>]) s))"

definition nextOp ::
  "spool_env \<Rightarrow> (byte list \<Rightarrow> 'r option) \<Rightarrow> nat \<Rightarrow> spool \<Rightarrow> 'r list \<times> ack_token \<times> spool" where
  "nextOp e unmarshal k s =
     (let (ok, s) = io_try e s
      in if \<not> ok then ([], None, s)
         else
           (let (out, consumed, s) = next_loop e unmarshal k (list_segments (sp_dir s)) [] [] s;
                s = (if out = [] then s\<lparr>pending := 0\<rparr> else s)
            in (out, Some (consumed, length out), s)))"

text \<open>
  \<open>syncThenRemoveLocked\<close>: the result of the open and the sync is ignored; a missing file is
  not an error for the caller.
\<close>

definition ack_complete :: "spool_env \<Rightarrow> consumed_seg \<Rightarrow> spool \<Rightarrow> spool_error list \<times> spool" where
  "ack_complete e c s =
     (let (_, s) = io_try e s;
          (ok, s) = io_try e s
      in if \<not> ok \<and> map_of (sp_dir s) (c_path c) \<noteq> None then ([ErrRemove], s)
         else
           (let s = s\<lparr>sp_dir := dir_del (c_path c) (sp_dir s)\<rparr>;
                s = (if readSeq s = c_seq c then s\<lparr>readSeq := 0, readOffset := 0\<rparr> else s);
                (ok, s) = io_try e s
            in (if ok then [] else [ErrSync], s)))"

definition ack_partial :: "spool_env \<Rightarrow> consumed_seg \<Rightarrow> spool \<Rightarrow> spool_error list \<times> spool" where
  "ack_partial e c s =
     (let s = s\<lparr>readSeq := c_seq c, readOffset := c_end c\<rparr>
      in if active s \<and> c_seq c = activeSeq s
         then let (ok, s) = io_try e s in (if ok then [] else [ErrSync], s)
         else ([], s))"

fun ack_loop :: "spool_env \<Rightarrow> consumed_seg list \<Rightarrow> spool \<Rightarrow> spool_error list \<times> spool" where
  "ack_loop e [] s = ([], s)"
| "ack_loop e (c # cs) s =
     (let (errs, s) = (if c_complete c then ack_complete e c s else ack_partial e c s);
          (errs', s) = ack_loop e cs s
      in (errs @ errs', s))"

definition ack :: "spool_env \<Rightarrow> ack_token \<Rightarrow> spool \<Rightarrow> spool_error list \<times> spool" where
  "ack e tok s =
     (case tok of
        None \<Rightarrow> ([], s)
      | Some (consumed, n) \<Rightarrow>
          (let (errs, s) = ack_loop e consumed s
           in (errs, s\<lparr>pending := max0 (pending s - int n)\<rparr>)))"

definition ackDropped :: "spool_env \<Rightarrow> u64 \<Rightarrow> spool \<Rightarrow> spool" where
  "ackDropped e reported s =
     (let reported = min reported (droppedUnacked s);
          s = s\<lparr>droppedUnacked := droppedUnacked s - reported,
                droppedAcked := min (droppedAcked s + reported) (droppedTotal s)\<rparr>
      in snd (persistDropCountersLocked e s))"

definition dropped :: "spool \<Rightarrow> u64 \<times> u64" where
  "dropped s = (droppedTotal s, droppedUnacked s)"

section \<open>Open\<close>

definition scanSegment :: "spool_env \<Rightarrow> string \<Rightarrow> spool \<Rightarrow> (spool_error + nat) \<times> spool" where
  "scanSegment e path s =
     (let (ok, s) = io_try e s
      in if \<not> ok then (Inl ErrScan, s)
         else
           (let data = file_bytes (sp_dir s) path; (n, good) = scan_data data
            in if length good < length data
               then (let (ok, s) = io_try e s
                     in if \<not> ok then (Inl ErrTruncate, s)
                        else (Inr n, s\<lparr>sp_dir := dir_put path \<lparr>f_data = good, f_mod = e_now e\<rparr> (sp_dir s)\<rparr>))
               else (Inr n, s)))"

fun scan_all :: "spool_env \<Rightarrow> segment list \<Rightarrow> spool \<Rightarrow> outcome" where
  "scan_all e [] s = (None, s)"
| "scan_all e (seg # segs) s =
     (case scanSegment e (sg_path seg) s of
        (Inl err, s) \<Rightarrow> (Some err, s)
      | (Inr n, s) \<Rightarrow> scan_all e segs (s\<lparr>pending := pending s + int n, nextSeq := sg_seq seg + 1\<rparr>))"

text \<open>\<open>os.ReadFile\<close> of a sidecar: an error, absent, or the contents.\<close>

definition read_sidecar :: "spool_env \<Rightarrow> string \<Rightarrow> spool \<Rightarrow> (unit + string option) \<times> spool" where
  "read_sidecar e name s =
     (case map_of (sp_dir s) name of
        None \<Rightarrow> (Inr None, s)
      | Some f \<Rightarrow>
          (let (ok, s) = io_try e s
           in if ok then (Inr (Some (string_of_bytes (f_data f))), s) else (Inl (), s)))"

definition fresh_spool :: "dir \<Rightarrow> int \<Rightarrow> duration \<Rightarrow> spool" where
  "fresh_spool d mb ma =
     \<lparr>sp_dir = d, sp_tick = 0, maxBytes = mb, maxAge = ma, active = False, activeSeq = 0, activeSize = 0,
      activeOpenedAt = 0, nextSeq = 1, readSeq = 0, readOffset = 0, pending = 0, droppedTotal = 0,
      droppedAcked = 0, droppedUnacked = 0, totalBytes = 0, lastBoundsCheck = 0, notify = False\<rparr>"

definition load_counters :: "spool_env \<Rightarrow> spool \<Rightarrow> outcome" where
  "load_counters e s =
     (case read_sidecar e droppedFile s of
        (Inl _, s) \<Rightarrow> (Some ErrReadCounter, s)
      | (Inr u, s) \<Rightarrow>
          (case read_sidecar e droppedStateFile s of
             (Inl _, s) \<Rightarrow> (Some ErrReadState, s)
           | (Inr st, s) \<Rightarrow>
               (let ((t, a, un), repair) =
                      reconcile (Option.bind u parseDropped) (Option.bind st parseDroppedState);
                    s = s\<lparr>droppedTotal := t, droppedAcked := a, droppedUnacked := un\<rparr>
                in if repair then persistDropCountersLocked e s else (None, s))))"

definition openSpool :: "spool_env \<Rightarrow> dir \<Rightarrow> int \<Rightarrow> duration \<Rightarrow> outcome" where
  "openSpool e d mb ma =
     (let s = fresh_spool d mb ma; (ok, s) = io_try e s
      in if \<not> ok then (Some ErrMkdir, s)
         else let (ok, s) = io_try e s
              in if \<not> ok then (Some ErrList, s)
                 else and_then (scan_all e (list_segments (sp_dir s)) s)
                   (\<lambda>s. and_then (load_counters e s)
                   (\<lambda>s. and_then (enforceBoundsLocked e s)
                   (\<lambda>s. (None, if pending s > 0 then wake s else s)))))"

end
