(* ===== verification/Spool_Queue.thy ===== *)
theory Spool_Queue
  imports Spool "HOL-Library.Sublist"
begin

text \<open>
  The spool as a queue. \<open>queue s\<close> is the abstract content of a spool: the payloads not yet
  acknowledged, oldest first. Under the invariant \<open>spool_wf\<close> and when no system call fails,
  \<open>Append\<close> adds at the end, \<open>Next\<close> returns a prefix, its acknowledgement removes exactly
  that prefix, and bounds enforcement removes a prefix it accounts for.
\<close>

section \<open>Directories with canonical segment names\<close>

lemma digits_val_zeros: "digits_val 0 (replicate n (CHR ''0'') @ s) = digits_val 0 s"
proof (induction n)
  case (Suc n)
  have "digit_val (CHR ''0'') = Some 0" by (simp add: digit_val_def)
  with Suc show ?case by simp
qed simp

lemma parse_seg_name: "parse_uint64 (trim_suffix (seg_name q) ''.seg'') = Some q"
proof -
  have "seg_name q = (replicate (20 - length (format_uint (unat q))) (CHR ''0'') @ format_uint (unat q)) @ ''.seg''"
    by (simp add: seg_name_def Let_def)
  moreover have "unat q < 2 ^ 64"
    using unsigned_less[where w = q] by simp
  ultimately show ?thesis
    by (simp only: trim_suffix_append) (simp add: parse_uint64_def digits_val_zeros)
qed

lemma seg_name_suffix [simp]: "has_suffix (seg_name q) ''.seg''"
proof -
  have "seg_name q = (replicate (20 - length (format_uint (unat q))) (CHR ''0'') @ format_uint (unat q)) @ ''.seg''"
    by (simp add: seg_name_def Let_def)
  then show ?thesis by (simp only: has_suffix_append)
qed

lemma seg_name_inj [simp]: "seg_name q = seg_name q' \<longleftrightarrow> q = q'"
  using parse_seg_name by (metis option.inject)

lemma sidecar_not_seg [simp]:
  "seg_name q \<noteq> droppedFile" "seg_name q \<noteq> droppedStateFile"
  "seg_name q \<noteq> droppedFile @ ''.tmp''" "seg_name q \<noteq> droppedStateFile @ ''.tmp''"
  using seg_name_suffix sidecar_names by metis+

text \<open>File names are unique, and every segment file has the name \<open>openActiveLocked\<close> gives it.\<close>

definition canon :: "dir \<Rightarrow> bool" where
  "canon d \<longleftrightarrow> distinct (map fst d)
     \<and> list_all (\<lambda>p. case entry_segment p of None \<Rightarrow> True | Some sg \<Rightarrow> fst p = seg_name (sg_seq sg)) d"

definition seqs :: "dir \<Rightarrow> u64 list" where
  "seqs d = map sg_seq (list_segments d)"

definition seg_bytes :: "dir \<Rightarrow> u64 \<Rightarrow> byte list" where
  "seg_bytes d q = file_bytes d (seg_name q)"

definition seg_of :: "dir \<Rightarrow> u64 \<Rightarrow> segment" where
  "seg_of d q = \<lparr>sg_seq = q, sg_path = seg_name q, sg_size = length (seg_bytes d q),
     sg_mod = (case map_of d (seg_name q) of None \<Rightarrow> 0 | Some f \<Rightarrow> f_mod f)\<rparr>"

lemma seg_of_sel [simp]:
  "sg_seq (seg_of d q) = q" "sg_path (seg_of d q) = seg_name q" "sg_size (seg_of d q) = length (seg_bytes d q)"
  by (simp_all add: seg_of_def)

lemma canon_distinct: "canon d \<Longrightarrow> distinct (map fst d)"
  by (simp add: canon_def)

lemma entry_seg_name:
  "entry_segment (seg_name q, f) = Some \<lparr>sg_seq = q, sg_path = seg_name q, sg_size = length (f_data f), sg_mod = f_mod f\<rparr>"
  by (simp add: entry_segment_def parse_seg_name)

lemma canon_entry:
  assumes "canon d" "p \<in> set d" "entry_segment p = Some sg"
  shows "sg = seg_of d (sg_seq sg)" and "fst p = seg_name (sg_seq sg)"
proof -
  show n: "fst p = seg_name (sg_seq sg)"
    using assms by (auto simp: canon_def list_all_iff split: option.splits)
  have "map_of d (fst p) = Some (snd p)"
    using assms canon_distinct by (simp add: map_of_is_SomeI)
  then show "sg = seg_of d (sg_seq sg)"
    using assms(3) n entry_seg_name[of "sg_seq sg" "snd p"]
    by (cases p) (auto simp: seg_of_def seg_bytes_def file_bytes_def)
qed

lemma list_segments_seqs: "canon d \<Longrightarrow> list_segments d = map (seg_of d) (seqs d)"
  using canon_entry(1)[of d] by (force simp: seqs_def set_list_segments intro!: map_idI[symmetric])

lemma seqs_mem: "canon d \<Longrightarrow> q \<in> set (seqs d) \<longleftrightarrow> map_of d (seg_name q) \<noteq> None"
proof
  assume "canon d" "q \<in> set (seqs d)"
  then obtain p sg where "p \<in> set d" "entry_segment p = Some sg" "sg_seq sg = q"
    by (auto simp: seqs_def set_list_segments)
  then have "seg_name q \<in> fst ` set d"
    using canon_entry(2)[OF \<open>canon d\<close>] by (metis image_eqI)
  then show "map_of d (seg_name q) \<noteq> None"
    by (simp add: map_of_eq_None_iff)
next
  assume "map_of d (seg_name q) \<noteq> None"
  then obtain f where "(seg_name q, f) \<in> set d"
    by (auto dest: map_of_SomeD)
  then show "q \<in> set (seqs d)"
    using entry_seg_name[of q f] by (force simp: seqs_def set_list_segments image_iff)
qed

lemma sorted_seqs: "sorted (seqs d)"
  by (simp add: seqs_def list_segments_def)

lemma distinct_seqs: "canon d \<Longrightarrow> distinct (seqs d)"
proof -
  assume c: "canon d"
  have "distinct (map fst (filter (\<lambda>p. entry_segment p \<noteq> None) d))"
    using canon_distinct[OF c] by (simp add: distinct_map_filter)
  moreover have "map fst (filter (\<lambda>p. entry_segment p \<noteq> None) d) = map seg_name (map sg_seq (List.map_filter entry_segment d))"
    using canon_entry(2)[OF c] by (auto simp: List.map_filter_def)
  ultimately have "distinct (map sg_seq (List.map_filter entry_segment d))"
    by (metis distinct_map)
  then show ?thesis
    by (simp add: seqs_def list_segments_def)
qed

lemma seqs_eqI:
  assumes "canon d" "sorted xs" "distinct xs" "\<And>q. q \<in> set xs \<longleftrightarrow> map_of d (seg_name q) \<noteq> None"
  shows "seqs d = xs"
  using assms sorted_seqs[of d] distinct_seqs[of d] seqs_mem[of d]
  by (intro sorted_distinct_set_unique) auto

lemma map_of_dir_del: "map_of (dir_del n d) m = (if m = n then None else map_of d m)"
  by (simp add: dir_del_def map_of_filter_neq)

lemma map_of_dir_put: "map_of (dir_put n f d) m = (if m = n then Some f else map_of d m)"
  by (auto simp: dir_put_def map_add_def map_of_dir_del split: option.split)

lemma canon_del [simp]: "canon d \<Longrightarrow> canon (dir_del n d)"
  by (auto simp: canon_def dir_del_def distinct_map_filter list_all_iff)

lemma canon_put_entry:
  assumes "canon d" "case entry_segment (n, f) of None \<Rightarrow> True | Some sg \<Rightarrow> n = seg_name (sg_seq sg)"
  shows "canon (dir_put n f d)"
proof -
  have "distinct (map fst (dir_del n d @ [(n, f)]))"
    using canon_distinct[OF assms(1)] by (auto simp: dir_del_def distinct_map_filter)
  with assms canon_del[OF assms(1), of n] show ?thesis
    by (auto simp: canon_def dir_put_def split: option.splits)
qed

lemma canon_put_seg [simp]: "canon d \<Longrightarrow> canon (dir_put (seg_name q) f d)"
  by (rule canon_put_entry) (simp_all add: entry_seg_name)

lemma canon_put_other: "canon d \<Longrightarrow> \<not> has_suffix n ''.seg'' \<Longrightarrow> canon (dir_put n f d)"
  by (rule canon_put_entry) (simp_all add: entry_segment_def)

lemma seqs_del: "canon d \<Longrightarrow> seqs (dir_del (seg_name q) d) = filter (\<lambda>x. x \<noteq> q) (seqs d)"
  by (rule seqs_eqI)
    (auto simp: sorted_seqs sorted_wrt_filter distinct_seqs seqs_mem map_of_dir_del)

lemma seqs_put_mem: "canon d \<Longrightarrow> q \<in> set (seqs d) \<Longrightarrow> seqs (dir_put (seg_name q) f d) = seqs d"
  by (rule seqs_eqI) (auto simp: sorted_seqs distinct_seqs seqs_mem map_of_dir_put)

lemma seqs_put_new:
  "canon d \<Longrightarrow> \<forall>x\<in>set (seqs d). x < q \<Longrightarrow> seqs (dir_put (seg_name q) f d) = seqs d @ [q]"
  by (rule seqs_eqI)
    (auto simp: sorted_append sorted_seqs distinct_seqs seqs_mem map_of_dir_put intro: less_imp_le)

lemma seqs_put_other: "\<not> has_suffix n ''.seg'' \<Longrightarrow> seqs (dir_put n f d) = seqs d"
  by (simp add: seqs_def list_segments_put_other)

lemma seqs_del_other: "\<not> has_suffix n ''.seg'' \<Longrightarrow> seqs (dir_del n d) = seqs d"
  by (simp add: seqs_def list_segments_del_other)

lemma seg_bytes_put: "seg_bytes (dir_put (seg_name q) f d) q' = (if q' = q then f_data f else seg_bytes d q')"
  by (simp add: seg_bytes_def file_bytes_def map_of_dir_put)

lemma seg_bytes_del: "seg_bytes (dir_del (seg_name q) d) q' = (if q' = q then [] else seg_bytes d q')"
  by (simp add: seg_bytes_def file_bytes_def map_of_dir_del)

lemma seg_bytes_put_other: "\<not> has_suffix n ''.seg'' \<Longrightarrow> seg_bytes (dir_put n f d) q = seg_bytes d q"
  using seg_name_suffix[of q] by (auto simp: seg_bytes_def file_bytes_def map_of_dir_put)

lemma seg_bytes_del_other: "\<not> has_suffix n ''.seg'' \<Longrightarrow> seg_bytes (dir_del n d) q = seg_bytes d q"
  using seg_name_suffix[of q] by (auto simp: seg_bytes_def file_bytes_def map_of_dir_del)

section \<open>Payloads of a segment\<close>

function payloads :: "byte list \<Rightarrow> byte list list" where
  "payloads bs = (case read_frame bs of Frame p rest \<Rightarrow> p # payloads rest | _ \<Rightarrow> [])"
  by pat_completeness auto
termination
  by (relation "measure length") (auto dest: read_frame_consumes simp: rec_size_def recordOverhead_def)

declare payloads.simps [simp del]

lemma payloads_append: "fits ps \<Longrightarrow> payloads (encode_all ps @ bs) = ps @ payloads bs"
  by (induction ps) (simp_all add: payloads.simps[of "encode_record _ @ _"])

lemma payloads_Nil [simp]: "payloads [] = []"
  by (simp add: payloads.simps)

lemma payloads_encode [simp]: "fits ps \<Longrightarrow> payloads (encode_all ps) = ps"
  using payloads_append[of ps "[]"] by simp

lemma payloads_bad: "(\<And>p r. read_frame bs \<noteq> Frame p r) \<Longrightarrow> payloads bs = []"
  by (subst payloads.simps) (auto split: frame.split)

lemma fits_payloads [simp]: "fits (payloads bs)"
proof (induction bs rule: payloads.induct)
  case (1 bs)
  then show ?case
    by (subst payloads.simps) (auto split: frame.split dest: frame_bytes)
qed

text \<open>A byte string that consists of whole records.\<close>

definition whole :: "byte list \<Rightarrow> bool" where
  "whole bs \<longleftrightarrow> encode_all (payloads bs) = bs"

lemma whole_encode [simp]: "fits ps \<Longrightarrow> whole (encode_all ps)"
  by (simp add: whole_def)

lemma whole_Nil [simp]: "whole []"
  by (simp add: whole_def)

lemma whole_append: "whole bs \<Longrightarrow> payloads (bs @ cs) = payloads bs @ payloads cs"
  by (metis fits_payloads payloads_append whole_def)

lemma whole_appendI: "whole bs \<Longrightarrow> whole cs \<Longrightarrow> whole (bs @ cs)"
  by (simp add: whole_def whole_append)

lemma whole_record: "length p \<le> maxRecordBytes \<Longrightarrow> whole (encode_record p) \<and> payloads (encode_record p) = [p]"
  using whole_encode[of "[p]"] payloads_encode[of "[p]"] by simp

lemma whole_Nil_iff: "whole bs \<Longrightarrow> payloads bs = [] \<longleftrightarrow> bs = []"
  by (metis encode_all_simps(1) payloads_Nil whole_def)

lemma count_whole: "whole bs \<Longrightarrow> count_records bs = length (payloads bs)"
  using count_loop_encode[of "payloads bs" 0] by (simp add: count_records_def whole_def)

lemma payloads_prefix:
  "\<exists>tail. bs = encode_all (payloads bs) @ tail \<and> (\<forall>p r. read_frame tail \<noteq> Frame p r)"
proof (cases "scan_loop 0 0 bs")
  case (Pair n g)
  from scan_loop_prefix[OF this] obtain ps tail where
    "bs = encode_all ps @ tail" "fits ps" "\<forall>p r. read_frame tail \<noteq> Frame p r"
    by auto
  then show ?thesis
    by (auto simp: payloads_append payloads_bad)
qed

lemma scan_data_payloads: "scan_data bs = (length (payloads bs), encode_all (payloads bs))"
  using payloads_prefix[of bs] scan_data_encode[OF fits_payloads[of bs]] by metis

section \<open>The abstract queue and the invariant\<close>

definition seg_start :: "spool \<Rightarrow> u64 \<Rightarrow> nat" where
  "seg_start s q = (if q = readSeq s then readOffset s else 0)"

definition seg_queue :: "spool \<Rightarrow> u64 \<Rightarrow> byte list list" where
  "seg_queue s q = payloads (drop (seg_start s q) (seg_bytes (sp_dir s) q))"

definition queue :: "spool \<Rightarrow> byte list list" where
  "queue s = concat (map (seg_queue s) (seqs (sp_dir s)))"

definition boundary :: "nat \<Rightarrow> byte list \<Rightarrow> bool" where
  "boundary off bs \<longleftrightarrow> off \<le> length bs \<and> whole (take off bs) \<and> whole (drop off bs)"

definition spool_wf :: "spool \<Rightarrow> bool" where
  "spool_wf s \<longleftrightarrow> canon (sp_dir s)
     \<and> (\<forall>q\<in>set (seqs (sp_dir s)). 0 < q \<and> q < nextSeq s \<and> boundary (seg_start s q) (seg_bytes (sp_dir s) q))
     \<and> readSeq s < nextSeq s \<and> activeSeq s < nextSeq s
     \<and> (readSeq s \<in> set (seqs (sp_dir s)) \<longrightarrow> (\<forall>q\<in>set (seqs (sp_dir s)). readSeq s \<le> q))
     \<and> (activeSeq s \<in> set (seqs (sp_dir s)) \<longrightarrow> (\<forall>q\<in>set (seqs (sp_dir s)). q \<le> activeSeq s))
     \<and> (active s \<longrightarrow> activeSeq s \<in> set (seqs (sp_dir s)) \<and> activeSize s = length (seg_bytes (sp_dir s) (activeSeq s)))"

definition no_faults :: "spool_env \<Rightarrow> bool" where
  "no_faults e \<longleftrightarrow> (\<forall>n. e_ok e n)"

lemma no_faults_ok [simp]: "no_faults e \<Longrightarrow> e_ok e n"
  by (simp add: no_faults_def)

lemma boundary_0 [simp]: "boundary 0 bs \<longleftrightarrow> whole bs"
  by (simp add: boundary_def)

lemma boundary_whole: "boundary off bs \<Longrightarrow> whole bs"
  by (metis append_take_drop_id boundary_def whole_appendI)

lemma boundary_append: "boundary off bs \<Longrightarrow> whole cs \<Longrightarrow> boundary off (bs @ cs)"
  by (simp add: boundary_def whole_appendI)

lemma boundary_advance:
  assumes "boundary off bs" "stop = off + length (encode_all (take k (payloads (drop off bs))))"
  shows "boundary stop bs" and "payloads (drop stop bs) = drop k (payloads (drop off bs))"
proof -
  let ?ps = "payloads (drop off bs)"
  have split: "drop off bs = encode_all (take k ?ps) @ encode_all (drop k ?ps)"
    using assms(1) unfolding boundary_def whole_def
    by (metis append_take_drop_id encode_all_simps(3))
  have d: "drop stop bs = encode_all (drop k ?ps)"
    using assms(2) split by (metis add.commute append_eq_conv_conj drop_drop)
  have "take stop bs = take off bs @ encode_all (take k ?ps)"
    using assms split by (metis append_eq_conv_conj take_add)
  then have "whole (take stop bs)"
    using assms(1) by (simp add: boundary_def whole_appendI)
  moreover have "length (drop off bs) = length (encode_all (take k ?ps)) + length (encode_all (drop k ?ps))"
    using split by (metis length_append)
  then have "stop \<le> length bs"
    using assms by (auto simp: boundary_def)
  ultimately show "boundary stop bs"
    using d by (simp add: boundary_def)
  show "payloads (drop stop bs) = drop k ?ps"
    using d by simp
qed

text \<open>Fields that do not carry the queue.\<close>

lemma queue_frame [simp]:
  "queue (s\<lparr>sp_tick := n\<rparr>) = queue s" "queue (s\<lparr>pending := i\<rparr>) = queue s"
  "queue (s\<lparr>droppedTotal := w\<rparr>) = queue s" "queue (s\<lparr>droppedUnacked := w\<rparr>) = queue s"
  "queue (s\<lparr>droppedAcked := w\<rparr>) = queue s"
  "queue (s\<lparr>totalBytes := i\<rparr>) = queue s" "queue (s\<lparr>lastBoundsCheck := t\<rparr>) = queue s"
  "queue (s\<lparr>notify := b\<rparr>) = queue s" "queue (s\<lparr>active := b\<rparr>) = queue s"
  "queue (s\<lparr>activeSize := k\<rparr>) = queue s"
  by (simp_all add: queue_def seg_queue_def[abs_def] seg_start_def cong: if_cong)

lemma spool_wf_frame [simp]:
  "spool_wf (s\<lparr>sp_tick := n\<rparr>) = spool_wf s" "spool_wf (s\<lparr>pending := i\<rparr>) = spool_wf s"
  "spool_wf (s\<lparr>droppedTotal := w\<rparr>) = spool_wf s" "spool_wf (s\<lparr>droppedUnacked := w\<rparr>) = spool_wf s"
  "spool_wf (s\<lparr>droppedAcked := w\<rparr>) = spool_wf s"
  "spool_wf (s\<lparr>totalBytes := i\<rparr>) = spool_wf s" "spool_wf (s\<lparr>lastBoundsCheck := t\<rparr>) = spool_wf s"
  "spool_wf (s\<lparr>notify := b\<rparr>) = spool_wf s"
  by (simp_all add: spool_wf_def seg_start_def cong: if_cong)

lemma spool_wf_inactive: "spool_wf s \<Longrightarrow> spool_wf (s\<lparr>active := False\<rparr>)"
  by (simp add: spool_wf_def seg_start_def cong: if_cong)

lemma spool_wf_D:
  assumes "spool_wf s"
  shows "canon (sp_dir s)"
    and "q \<in> set (seqs (sp_dir s)) \<Longrightarrow> boundary (seg_start s q) (seg_bytes (sp_dir s) q)"
    and "q \<in> set (seqs (sp_dir s)) \<Longrightarrow> q < nextSeq s"
  using assms by (auto simp: spool_wf_def)

lemma seg_queue_frame [simp]: "seg_queue (s\<lparr>sp_tick := n\<rparr>) q = seg_queue s q"
  by (simp add: seg_queue_def seg_start_def cong: if_cong)

section \<open>Persisting the sidecars leaves the queue alone\<close>

definition same_segs :: "dir \<Rightarrow> dir \<Rightarrow> bool" where
  "same_segs d d' \<longleftrightarrow> (canon d \<longrightarrow> canon d') \<and> seqs d' = seqs d \<and> seg_bytes d' = seg_bytes d"

lemma same_segs_trans: "same_segs a b \<Longrightarrow> same_segs b c \<Longrightarrow> same_segs a c"
  by (simp add: same_segs_def)

lemma same_segs_sidecar:
  assumes "\<not> has_suffix n ''.seg''"
  shows "same_segs d (dir_put n f d)" "same_segs d (dir_del n d)"
  using assms
  by (auto simp: same_segs_def canon_put_other seqs_put_other seqs_del_other seg_bytes_put_other seg_bytes_del_other)

lemma same_segs_queue:
  "same_segs (sp_dir s) d' \<Longrightarrow> queue (s\<lparr>sp_dir := d', sp_tick := t\<rparr>) = queue s"
  by (simp add: same_segs_def queue_def seg_queue_def[abs_def] seg_start_def cong: if_cong)

lemma same_segs_wf:
  "same_segs (sp_dir s) d' \<Longrightarrow> spool_wf s \<Longrightarrow> spool_wf (s\<lparr>sp_dir := d', sp_tick := t\<rparr>)"
  by (simp add: same_segs_def spool_wf_def seg_start_def cong: if_cong)

lemma persistFileLocked_ok:
  assumes "no_faults e" "\<not> has_suffix n ''.seg''" "\<not> has_suffix (n @ ''.tmp'') ''.seg''"
  shows "\<exists>d' t. persistFileLocked e n c s = (None, s\<lparr>sp_dir := d', sp_tick := t\<rparr>) \<and> same_segs (sp_dir s) d'
    \<and> map_of d' n = Some \<lparr>f_data = bytes_of_string c, f_mod = e_now e\<rparr>
    \<and> (\<forall>m. m \<noteq> n \<longrightarrow> m \<noteq> n @ ''.tmp'' \<longrightarrow> map_of d' m = map_of (sp_dir s) m)"
proof -
  let ?f = "\<lparr>f_data = bytes_of_string c, f_mod = e_now e\<rparr>"
  let ?d = "dir_put n ?f (dir_del (n @ ''.tmp'') (dir_put (n @ ''.tmp'') ?f (sp_dir s)))"
  have "persistFileLocked e n c s = (None, s\<lparr>sp_dir := ?d, sp_tick := Suc (Suc (sp_tick s))\<rparr>)"
    using assms(1) by (simp add: persistFileLocked_def io_try_def Let_def)
  moreover have "same_segs (sp_dir s) ?d"
    using assms(2,3) same_segs_sidecar same_segs_trans by meson
  ultimately show ?thesis
    by (intro exI[of _ ?d] exI[of _ "Suc (Suc (sp_tick s))"]) (simp add: map_of_dir_put map_of_dir_del)
qed

lemma persistDropCounters_ok:
  assumes "no_faults e"
  shows "\<exists>d' t. persistDropCountersLocked e s = (None, s\<lparr>sp_dir := d', sp_tick := t\<rparr>) \<and> same_segs (sp_dir s) d'
    \<and> map_of d' droppedFile = Some \<lparr>f_data = bytes_of_string (format_uint (unat (droppedUnacked s))), f_mod = e_now e\<rparr>
    \<and> map_of d' droppedStateFile =
        Some \<lparr>f_data = bytes_of_string (droppedState_text (droppedTotal s) (droppedAcked s)), f_mod = e_now e\<rparr>"
proof -
  obtain d1 t1 where 1: "persistCounterLocked e droppedFile (droppedUnacked s) s = (None, s\<lparr>sp_dir := d1, sp_tick := t1\<rparr>)"
    "same_segs (sp_dir s) d1"
    "map_of d1 droppedFile = Some \<lparr>f_data = bytes_of_string (format_uint (unat (droppedUnacked s))), f_mod = e_now e\<rparr>"
    using persistFileLocked_ok[OF assms sidecar_names(1,3)] unfolding persistCounterLocked_def by blast
  let ?s = "s\<lparr>sp_dir := d1, sp_tick := t1\<rparr>"
  obtain d2 t2 where 2: "persistFileLocked e droppedStateFile (droppedState_text (droppedTotal s) (droppedAcked s)) ?s
      = (None, ?s\<lparr>sp_dir := d2, sp_tick := t2\<rparr>)" "same_segs d1 d2"
    "map_of d2 droppedStateFile =
        Some \<lparr>f_data = bytes_of_string (droppedState_text (droppedTotal s) (droppedAcked s)), f_mod = e_now e\<rparr>"
    "\<forall>m. m \<noteq> droppedStateFile \<longrightarrow> m \<noteq> droppedStateFile @ ''.tmp'' \<longrightarrow> map_of d2 m = map_of d1 m"
    using persistFileLocked_ok[OF assms sidecar_names(2,4), of "droppedState_text (droppedTotal s) (droppedAcked s)" ?s]
    by auto
  have "map_of d2 droppedFile = map_of d1 droppedFile"
    using 2(4) by (simp add: droppedFile_def droppedStateFile_def)
  then show ?thesis
    using 1 2 same_segs_trans[OF 1(2) 2(2)] by (auto simp: persistDropCountersLocked_def and_then_def)
qed

section \<open>Dropping the oldest segment\<close>

lemma spool_wf_remove:
  assumes "spool_wf s" "active s \<Longrightarrow> q \<noteq> activeSeq s"
  shows "spool_wf (s\<lparr>sp_dir := dir_del (seg_name q) (sp_dir s)\<rparr>)"
  using assms by (auto simp: spool_wf_def seqs_del seg_bytes_del seg_start_def)

lemma spool_wf_reset_read:
  "spool_wf s \<Longrightarrow> readSeq s \<notin> set (seqs (sp_dir s)) \<Longrightarrow> spool_wf (s\<lparr>readSeq := 0, readOffset := 0\<rparr>)"
  by (auto simp: spool_wf_def seg_start_def word_gt_0 dest: boundary_whole)

lemma seqs_remove_head:
  assumes "spool_wf s" "seqs (sp_dir s) = q # qs"
  shows "seqs (dir_del (seg_name q) (sp_dir s)) = qs"
  using assms distinct_seqs[of "sp_dir s"] by (auto simp: seqs_del spool_wf_D(1) intro!: filter_id_conv_all)

lemma concat_queue_cong:
  "(\<And>q. q \<in> set qs \<Longrightarrow> seg_queue s q = seg_queue s' q) \<Longrightarrow>
     concat (map (seg_queue s) qs) = concat (map (seg_queue s') qs)"
  by (metis map_cong)

text \<open>
  Removing the head segment, as \<open>enforceBoundsLocked\<close> and the acknowledgement both do: the
  file goes, and a read position inside it is forgotten.
\<close>

definition remove_head :: "u64 \<Rightarrow> spool \<Rightarrow> spool" where
  "remove_head q s =
     (let s = s\<lparr>sp_dir := dir_del (seg_name q) (sp_dir s)\<rparr>
      in if readSeq s = q then s\<lparr>readSeq := 0, readOffset := 0\<rparr> else s)"

lemma remove_head_props:
  assumes wf: "spool_wf s" and hd: "seqs (sp_dir s) = q # qs" and inact: "active s \<Longrightarrow> q \<noteq> activeSeq s"
  shows "spool_wf (remove_head q s)" and "seqs (sp_dir (remove_head q s)) = qs"
    and "\<And>x. x \<in> set qs \<Longrightarrow> seg_queue (remove_head q s) x = seg_queue s x"
    and "\<And>x. x \<in> set qs \<Longrightarrow> seg_start (remove_head q s) x = seg_start s x"
    and "queue s = seg_queue s q @ queue (remove_head q s)"
proof -
  let ?s1 = "s\<lparr>sp_dir := dir_del (seg_name q) (sp_dir s)\<rparr>"
  have wf1: "spool_wf ?s1"
    using wf inact by (rule spool_wf_remove)
  have qs: "seqs (dir_del (seg_name q) (sp_dir s)) = qs"
    using wf hd by (rule seqs_remove_head)
  have nin: "q \<notin> set qs"
    using hd distinct_seqs[OF spool_wf_D(1)[OF wf]] by simp
  show "spool_wf (remove_head q s)"
    using wf1 spool_wf_reset_read[OF wf1] qs nin by (auto simp: remove_head_def Let_def)
  show s': "seqs (sp_dir (remove_head q s)) = qs"
    using qs by (simp add: remove_head_def Let_def)
  have 0: "0 \<notin> set qs"
    using wf hd by (auto simp: spool_wf_def)
  show start: "\<And>x. x \<in> set qs \<Longrightarrow> seg_start (remove_head q s) x = seg_start s x"
    using nin 0 by (auto simp: remove_head_def Let_def seg_start_def)
  show q: "\<And>x. x \<in> set qs \<Longrightarrow> seg_queue (remove_head q s) x = seg_queue s x"
    using nin start by (auto simp: seg_queue_def) (auto simp: remove_head_def Let_def seg_bytes_del)
  show "queue s = seg_queue s q @ queue (remove_head q s)"
    using hd s' concat_queue_cong[OF q] by (simp add: queue_def)
qed

end
