(* ===== verification/Spool_Ops.thy ===== *)
theory Spool_Ops
  imports Spool_Queue
begin

text \<open>
  What each operation of the spool does to the abstract queue when no system call fails.
  \<open>same_account\<close> says that the drop counters and the limits are unchanged.
\<close>

section \<open>Frames\<close>

definition same_account :: "spool \<Rightarrow> spool \<Rightarrow> bool" where
  "same_account s s' \<longleftrightarrow> droppedTotal s' = droppedTotal s \<and> droppedUnacked s' = droppedUnacked s
     \<and> droppedAcked s' = droppedAcked s \<and> maxBytes s' = maxBytes s \<and> maxAge s' = maxAge s"

lemma same_account_refl [simp]: "same_account s s"
  by (simp add: same_account_def)

lemma same_account_trans: "same_account a b \<Longrightarrow> same_account b c \<Longrightarrow> same_account a c"
  by (simp add: same_account_def)

lemma and_then_None [simp]: "and_then (None, s) f = f s"
  by (simp add: and_then_def)

lemma spool_wf_active_max:
  assumes "spool_wf s" "activeSeq s \<in> set (seqs (sp_dir s))"
  shows "\<exists>qs. seqs (sp_dir s) = qs @ [activeSeq s] \<and> activeSeq s \<notin> set qs"
  using sorted_distinct_max[OF sorted_seqs distinct_seqs assms(2)] assms by (auto simp: spool_wf_def)

lemma and_then_assoc: "and_then (and_then r f) g = and_then r (\<lambda>s. and_then (f s) g)"
  by (simp add: and_then_def split: prod.split option.split)

section \<open>Sealing and opening the active segment\<close>

lemma rotate_ok:
  "no_faults e \<Longrightarrow> \<exists>t. rotateLocked e s = (None, s\<lparr>active := False, sp_tick := t\<rparr>)"
  by (rule exI[of _ "if active s then Suc (Suc (sp_tick s)) else sp_tick s"])
    (simp add: rotateLocked_def io_try_def)

lemma rotate_keeps:
  assumes "no_faults e" "spool_wf s"
  shows "\<exists>s'. rotateLocked e s = (None, s') \<and> spool_wf s' \<and> queue s' = queue s \<and> \<not> active s'
    \<and> same_account s s' \<and> nextSeq s' = nextSeq s"
  using rotate_ok[OF assms(1), of s] spool_wf_inactive[OF assms(2)]
  by (auto simp: same_account_def)

lemma queue_put_new:
  assumes "spool_wf s"
  shows "queue (s\<lparr>sp_dir := dir_put (seg_name (nextSeq s)) \<lparr>f_data = [], f_mod = t\<rparr> (sp_dir s)\<rparr>) = queue s"
proof -
  let ?s = "s\<lparr>sp_dir := dir_put (seg_name (nextSeq s)) \<lparr>f_data = [], f_mod = t\<rparr> (sp_dir s)\<rparr>"
  have "\<forall>q\<in>set (seqs (sp_dir s)). q < nextSeq s"
    using assms by (auto simp: spool_wf_def)
  then have "seqs (sp_dir ?s) = seqs (sp_dir s) @ [nextSeq s]"
    using assms by (simp add: seqs_put_new spool_wf_D(1))
  moreover have "seg_queue ?s q = seg_queue s q" if "q \<in> set (seqs (sp_dir s))" for q
    using spool_wf_D(3)[OF assms that] by (auto simp: seg_queue_def seg_start_def seg_bytes_put)
  moreover have "seg_queue ?s (nextSeq s) = []"
    by (simp add: seg_queue_def seg_bytes_put)
  ultimately show ?thesis
    by (simp add: queue_def cong: map_cong)
qed

lemma openActive_ok:
  assumes "no_faults e" "spool_wf s" "nextSeq s \<noteq> - 1"
  shows "\<exists>s'. openActiveLocked e s = (None, s') \<and> spool_wf s' \<and> queue s' = queue s \<and> active s'
    \<and> same_account s s' \<and> nextSeq s' = nextSeq s + 1"
proof -
  let ?q = "nextSeq s"
  let ?f = "\<lparr>f_data = [], f_mod = e_now e\<rparr>"
  let ?d = "dir_put (seg_name ?q) ?f (sp_dir s)"
  let ?s = "s\<lparr>sp_dir := ?d, sp_tick := Suc (Suc (sp_tick s)), active := True, activeSeq := ?q,
    activeSize := 0, activeOpenedAt := e_now e, nextSeq := ?q + 1\<rparr>"
  have old: "\<forall>q\<in>set (seqs (sp_dir s)). q < ?q"
    using assms(2) by (auto simp: spool_wf_def)
  then have "map_of (sp_dir s) (seg_name ?q) = None"
    using seqs_mem[OF spool_wf_D(1)[OF assms(2)], of ?q] by auto
  then have run: "openActiveLocked e s = (None, ?s)"
    using assms(1) by (simp add: openActiveLocked_def io_try_def Let_def)
  have inc: "q < ?q \<Longrightarrow> q < ?q + 1" "?q < ?q + 1" for q
    using word_less_succ[OF assms(3)] by (auto intro: less_trans)
  have qs: "seqs ?d = seqs (sp_dir s) @ [?q]"
    using old assms(2) by (simp add: seqs_put_new spool_wf_D(1))
  have pos: "0 < ?q"
    using assms(2) by (auto simp: spool_wf_def word_gt_0)
  have "spool_wf ?s"
    using assms(2) qs old inc pos
    by (auto simp: spool_wf_def seg_start_def seg_bytes_put intro: less_imp_le)
  moreover have "queue ?s = queue s"
    using queue_put_new[OF assms(2), of "e_now e"]
    by (simp add: queue_def seg_queue_def[abs_def] seg_start_def cong: if_cong)
  ultimately show ?thesis
    using run by (auto simp: same_account_def)
qed

section \<open>Writing a record\<close>

text \<open>\<open>grown d q bs d'\<close>: the file of segment \<open>q\<close> has \<open>bs\<close> more at its end, nothing else changed.\<close>

definition grown :: "dir \<Rightarrow> u64 \<Rightarrow> byte list \<Rightarrow> dir \<Rightarrow> bool" where
  "grown d q bs d' \<longleftrightarrow> canon d' \<and> seqs d' = seqs d \<and> seg_bytes d' = (seg_bytes d)(q := seg_bytes d q @ bs)"

lemma grown_append_file:
  assumes "canon d" "q \<in> set (seqs d)"
  shows "grown d q bs (append_file (seg_name q) bs now d)"
proof -
  obtain f where "map_of d (seg_name q) = Some f"
    using assms seqs_mem by blast
  moreover from this have "seg_bytes d q = f_data f"
    by (simp add: seg_bytes_def file_bytes_def)
  ultimately show ?thesis
    using assms by (auto simp: grown_def append_file_def seqs_put_mem seg_bytes_put fun_eq_iff)
qed

lemma grown_trans: "grown a q bs b \<Longrightarrow> grown b q cs c \<Longrightarrow> grown a q (bs @ cs) c"
  by (auto simp: grown_def)

lemma write_active_ok:
  assumes "no_faults e" "canon (sp_dir s)" "activeSeq s \<in> set (seqs (sp_dir s))"
  shows "\<exists>d' t. write_active e bs s = (None, s\<lparr>sp_dir := d', sp_tick := t\<rparr>) \<and> grown (sp_dir s) (activeSeq s) bs d'"
  using assms grown_append_file[OF assms(2,3)]
  by (intro exI[of _ "append_file (seg_name (activeSeq s)) bs (e_now e) (sp_dir s)"] exI[of _ "Suc (sp_tick s)"])
    (simp add: write_active_def io_try_def Let_def)

lemma write_record_ok:
  assumes "no_faults e" "canon (sp_dir s)" "activeSeq s \<in> set (seqs (sp_dir s))"
  shows "\<exists>d' t. write_record e p s = (None, s\<lparr>sp_dir := d', sp_tick := t\<rparr>)
    \<and> grown (sp_dir s) (activeSeq s) (encode_record p) d'"
proof -
  let ?q = "activeSeq s" and ?h = "put_uint32 (word_of_nat (length p))" and ?c = "put_uint32 (checksum_ieee p)"
  obtain d1 t1 where 1: "write_active e ?h s = (None, s\<lparr>sp_dir := d1, sp_tick := t1\<rparr>)" "grown (sp_dir s) ?q ?h d1"
    using write_active_ok[OF assms] by blast
  let ?s1 = "s\<lparr>sp_dir := d1, sp_tick := t1\<rparr>"
  obtain d2 t2 where 2: "write_active e p ?s1 = (None, ?s1\<lparr>sp_dir := d2, sp_tick := t2\<rparr>)" "grown d1 ?q p d2"
    using write_active_ok[OF assms(1), of ?s1 p] 1(2) assms by (auto simp: grown_def)
  let ?s2 = "?s1\<lparr>sp_dir := d2, sp_tick := t2\<rparr>"
  obtain d3 t3 where 3: "write_active e ?c ?s2 = (None, ?s2\<lparr>sp_dir := d3, sp_tick := t3\<rparr>)" "grown d2 ?q ?c d3"
    using write_active_ok[OF assms(1), of ?s2 ?c] 1(2) 2(2) assms by (auto simp: grown_def)
  have "grown (sp_dir s) ?q (encode_record p) d3"
    using grown_trans[OF grown_trans[OF 1(2) 2(2)] 3(2)] by (simp add: encode_record_def)
  with 1 2 3 show ?thesis
    by (auto simp: write_record_def)
qed

lemma grown_queue:
  assumes wf: "spool_wf s" and act: "activeSeq s \<in> set (seqs (sp_dir s))" and fit: "length p \<le> maxRecordBytes"
    and g: "grown (sp_dir s) (activeSeq s) (encode_record p) d'"
  shows "queue (s\<lparr>sp_dir := d', sp_tick := t\<rparr>) = queue s @ [p]"
proof -
  let ?q = "activeSeq s" and ?s = "s\<lparr>sp_dir := d', sp_tick := t\<rparr>"
  obtain qs where qs: "seqs (sp_dir s) = qs @ [?q]" "?q \<notin> set qs"
    using spool_wf_active_max[OF wf act] by blast
  have b: "boundary (seg_start s ?q) (seg_bytes (sp_dir s) ?q)"
    using wf act by (rule spool_wf_D)
  have start: "seg_start ?s q = seg_start s q" for q
    by (simp add: seg_start_def)
  have "seg_queue ?s ?q = seg_queue s ?q @ [p]"
    using b g whole_record[OF fit] by (simp add: seg_queue_def start grown_def boundary_def whole_append)
  moreover have "seg_queue ?s q = seg_queue s q" if "q \<in> set qs" for q
    using that qs(2) g by (auto simp: seg_queue_def start grown_def)
  ultimately show ?thesis
    using qs g by (simp add: queue_def grown_def cong: map_cong)
qed

lemma grown_wf:
  assumes wf: "spool_wf s" and act: "activeSeq s \<in> set (seqs (sp_dir s))" and fit: "length p \<le> maxRecordBytes"
    and g: "grown (sp_dir s) (activeSeq s) (encode_record p) d'"
  shows "spool_wf (s\<lparr>sp_dir := d', sp_tick := t, activeSize := activeSize s + rec_size p\<rparr>)"
proof -
  have "seg_start (s\<lparr>sp_dir := d', sp_tick := t, activeSize := activeSize s + rec_size p\<rparr>) q = seg_start s q" for q
    by (simp add: seg_start_def)
  then show ?thesis
    using wf g act whole_record[OF fit] by (auto simp: spool_wf_def grown_def intro: boundary_append)
qed

section \<open>Enforcing the bounds\<close>

definition seg_records :: "spool \<Rightarrow> u64 \<Rightarrow> nat" where
  "seg_records s q = length (payloads (seg_bytes (sp_dir s) q))"

text \<open>Records still on disk that were already acknowledged: the read part of a segment.\<close>

definition acked_on_disk :: "spool \<Rightarrow> nat" where
  "acked_on_disk s = sum_list (map (\<lambda>q. length (payloads (take (seg_start s q) (seg_bytes (sp_dir s) q)))) (seqs (sp_dir s)))"

lemma seg_records_split:
  assumes "spool_wf s" "q \<in> set (seqs (sp_dir s))"
  shows "seg_records s q = length (payloads (take (seg_start s q) (seg_bytes (sp_dir s) q))) + length (seg_queue s q)"
  using spool_wf_D(2)[OF assms] whole_append[of "take (seg_start s q) (seg_bytes (sp_dir s) q)"
      "drop (seg_start s q) (seg_bytes (sp_dir s) q)"]
  by (simp add: seg_records_def seg_queue_def boundary_def)

lemma drop_oldest_remove:
  "drop_oldest n (seg_of d q) s = (remove_head q s)\<lparr>pending := max0 (pending s - int n),
     droppedTotal := droppedTotal s + word_of_nat n, droppedUnacked := droppedUnacked s + word_of_nat n\<rparr>"
  by (simp add: drop_oldest_def remove_head_def seg_of_def Let_def)

text \<open>What bounds enforcement promises about the account: \<open>n\<close> records were counted as dropped.\<close>

definition charged :: "nat \<Rightarrow> spool \<Rightarrow> spool \<Rightarrow> bool" where
  "charged n s s' \<longleftrightarrow> droppedTotal s' = droppedTotal s + word_of_nat n
     \<and> droppedUnacked s' = droppedUnacked s + word_of_nat n
     \<and> droppedAcked s' = droppedAcked s \<and> maxBytes s' = maxBytes s \<and> maxAge s' = maxAge s"

lemma charged_trans: "charged m a b \<Longrightarrow> charged n b c \<Longrightarrow> charged (m + n) a c"
  by (simp add: charged_def)

lemma same_account_charged: "same_account a b \<Longrightarrow> charged n b c \<Longrightarrow> charged n a c"
  by (simp add: charged_def same_account_def)

lemma same_account_charged_0: "same_account a b \<longleftrightarrow> charged 0 a b"
  by (auto simp: charged_def same_account_def)

lemma remove_head_acked:
  assumes "spool_wf s" "seqs (sp_dir s) = q # qs" "active s \<Longrightarrow> q \<noteq> activeSeq s"
  shows "acked_on_disk s = length (payloads (take (seg_start s q) (seg_bytes (sp_dir s) q))) + acked_on_disk (remove_head q s)"
proof -
  note h = remove_head_props[OF assms]
  have "q \<notin> set qs"
    using distinct_seqs[OF spool_wf_D(1)[OF assms(1)]] assms(2) by simp
  then have "seg_bytes (sp_dir (remove_head q s)) x = seg_bytes (sp_dir s) x" if "x \<in> set qs" for x
    using that by (auto simp: remove_head_def Let_def seg_bytes_del)
  then show ?thesis
    using h(2,4) assms(2) by (simp add: acked_on_disk_def cong: map_cong)
qed

lemma same_segs_acked:
  "same_segs (sp_dir s) d' \<Longrightarrow> acked_on_disk (s\<lparr>sp_dir := d', sp_tick := t\<rparr>) = acked_on_disk s"
  by (simp add: acked_on_disk_def same_segs_def seg_start_def cong: if_cong)

lemma acked_on_disk_frame [simp]:
  "acked_on_disk (s\<lparr>sp_tick := n\<rparr>) = acked_on_disk s" "acked_on_disk (s\<lparr>active := b\<rparr>) = acked_on_disk s"
  "acked_on_disk (s\<lparr>pending := i\<rparr>) = acked_on_disk s" "acked_on_disk (s\<lparr>droppedTotal := w\<rparr>) = acked_on_disk s"
  "acked_on_disk (s\<lparr>droppedUnacked := w\<rparr>) = acked_on_disk s"
  "acked_on_disk (s\<lparr>totalBytes := i\<rparr>) = acked_on_disk s" "acked_on_disk (s\<lparr>lastBoundsCheck := x\<rparr>) = acked_on_disk s"
  by (simp_all add: acked_on_disk_def seg_start_def cong: if_cong)

lemma enforce_turn_ok:
  assumes nf: "no_faults e" and wf: "spool_wf s" and hd: "seqs (sp_dir s) = q # qs"
  shows "\<exists>s'. enforce_turn e (seg_of (sp_dir s) q) s = (None, s') \<and> spool_wf s'
    \<and> queue s = seg_queue s q @ queue s' \<and> charged (seg_records s q) s s'
    \<and> seg_records s q + acked_on_disk s' = length (seg_queue s q) + acked_on_disk s
    \<and> length (seg_queue s q) \<le> seg_records s q \<and> nextSeq s' = nextSeq s"
proof -
  define s1 where "s1 = snd (if q = activeSeq s \<and> active s then rotateLocked e s else (None, s))"
  obtain b t where s1: "s1 = s\<lparr>active := b, sp_tick := t\<rparr>" and wf1: "spool_wf s1"
    and in1: "active s1 \<Longrightarrow> q \<noteq> activeSeq s1"
    and r1: "(if q = activeSeq s \<and> active s then rotateLocked e s else (None, s)) = (None, s1)"
  proof (cases "q = activeSeq s \<and> active s")
    case True
    with rotate_ok[OF nf, of s] obtain t where "rotateLocked e s = (None, s\<lparr>active := False, sp_tick := t\<rparr>)"
      by blast
    with True that[of t False] spool_wf_inactive[OF wf] show ?thesis
      by (simp add: s1_def)
  next
    case False
    with that[of "sp_tick s" "active s"] wf show ?thesis
      by (auto simp: s1_def)
  qed
  define s2 where "s2 = s1\<lparr>sp_tick := Suc (Suc t)\<rparr>"
  let ?n = "seg_records s q"
  have cnt: "count_records (file_bytes (sp_dir s) (seg_name q)) = ?n"
    using boundary_whole[OF spool_wf_D(2)[OF wf, of q]] hd
    by (simp add: count_whole seg_records_def seg_bytes_def)
  have s2: "spool_wf s2" "seqs (sp_dir s2) = q # qs" "active s2 \<Longrightarrow> q \<noteq> activeSeq s2" "queue s2 = queue s"
    "seg_queue s2 q = seg_queue s q" "acked_on_disk s2 = acked_on_disk s" "sp_dir s2 = sp_dir s"
    using wf1 in1 hd by (auto simp: s2_def s1 seg_queue_def seg_start_def)
  note h = remove_head_props[OF s2(1-3)]
  let ?r = "drop_oldest ?n (seg_of (sp_dir s) q) s2"
  obtain d' t' where p: "persistDropCountersLocked e ?r = (None, ?r\<lparr>sp_dir := d', sp_tick := t'\<rparr>)"
    "same_segs (sp_dir ?r) d'"
    using persistDropCounters_ok[OF nf] by blast
  have "enforce_turn e (seg_of (sp_dir s) q) s = persistDropCountersLocked e ?r"
    using nf r1 cnt by (simp add: enforce_turn_def countRecords_def io_try_def s2_def s1 seg_of_def)
  moreover have "spool_wf ?r" "queue ?r = queue (remove_head q s2)" "acked_on_disk ?r = acked_on_disk (remove_head q s2)"
    using h(1) by (simp_all add: drop_oldest_remove)
  moreover have "charged ?n s ?r" "nextSeq ?r = nextSeq s"
    by (simp_all add: charged_def drop_oldest_remove remove_head_def Let_def s2_def s1)
  moreover have "?n + acked_on_disk (remove_head q s2) = length (seg_queue s q) + acked_on_disk s"
    using remove_head_acked[OF s2(1-3)] seg_records_split[OF wf, of q] hd s2(6,7)
    by (simp add: seg_start_def s2_def s1)
  ultimately show ?thesis
    using p h(5) s2(4,5) same_segs_queue[OF p(2)] same_segs_wf[OF p(2)] same_segs_acked[OF p(2)]
      seg_records_split[OF wf, of q] hd
    by (auto simp: charged_def)
qed

lemma overBounds_frame [simp]:
  "overBounds e (s\<lparr>sp_tick := n\<rparr>) = overBounds e s" "overBounds e (s\<lparr>totalBytes := i\<rparr>) = overBounds e s"
  "overBounds e (s\<lparr>lastBoundsCheck := x\<rparr>) = overBounds e s"
  by (simp_all add: overBounds_def split: list.split)

lemma enforce_done:
  assumes "no_faults e" "\<not> overBounds e s"
  shows "\<exists>b. enforceBoundsLocked e s =
    (None, s\<lparr>sp_tick := Suc (sp_tick s), totalBytes := b, lastBoundsCheck := e_now e\<rparr>)"
  using assms by (subst enforceBoundsLocked.simps) (auto simp: io_try_def split: list.split)

lemma enforce_more:
  assumes "no_faults e" "overBounds e s" "list_segments (sp_dir s) = oldest # rest"
    "enforce_turn e oldest (s\<lparr>sp_tick := Suc (sp_tick s)\<rparr>) = (None, s')"
  shows "enforceBoundsLocked e s = enforceBoundsLocked e s'"
  using assms by (subst enforceBoundsLocked.simps) (simp add: io_try_def)

lemma enforce_ok:
  assumes "no_faults e" "spool_wf s"
  shows "\<exists>s' k n. enforceBoundsLocked e s = (None, s') \<and> spool_wf s' \<and> \<not> overBounds e s'
    \<and> queue s' = drop k (queue s) \<and> k \<le> length (queue s) \<and> charged n s s' \<and> k \<le> n
    \<and> n \<le> k + acked_on_disk s \<and> nextSeq s' = nextSeq s"
  using assms(2)
proof (induction "length (list_segments (sp_dir s))" arbitrary: s rule: less_induct)
  case less
  show ?case
  proof (cases "overBounds e s")
    case False
    then obtain b where "enforceBoundsLocked e s =
        (None, s\<lparr>sp_tick := Suc (sp_tick s), totalBytes := b, lastBoundsCheck := e_now e\<rparr>)"
      using enforce_done[OF assms(1)] by blast
    with False less.prems show ?thesis
      by (auto simp: charged_def intro!: exI[of _ 0])
  next
    case True
    let ?s = "s\<lparr>sp_tick := Suc (sp_tick s)\<rparr>"
    have segs: "list_segments (sp_dir s) = map (seg_of (sp_dir s)) (seqs (sp_dir s))"
      using less.prems by (simp add: list_segments_seqs spool_wf_D)
    with True obtain q qs where hd: "seqs (sp_dir s) = q # qs"
      by (cases "seqs (sp_dir s)") (auto simp: overBounds_def)
    have "spool_wf ?s" "seqs (sp_dir ?s) = q # qs"
      using less.prems hd by simp_all
    from enforce_turn_ok[OF assms(1) this] obtain s1 where
      s1: "enforce_turn e (seg_of (sp_dir s) q) ?s = (None, s1)" "spool_wf s1"
        "queue s = seg_queue s q @ queue s1" "charged (seg_records ?s q) s s1"
        "seg_records ?s q + acked_on_disk s1 = length (seg_queue s q) + acked_on_disk s"
        "length (seg_queue s q) \<le> seg_records ?s q" "nextSeq s1 = nextSeq s"
      by (auto simp: charged_def)
    have "length (list_segments (sp_dir s1)) < length (list_segments (sp_dir s))"
      using enforce_turn_less[OF s1(1)] segs hd by simp
    from less.hyps[OF this s1(2)] obtain s' k n where
      IH: "enforceBoundsLocked e s1 = (None, s')" "spool_wf s'" "\<not> overBounds e s'"
        "queue s' = drop k (queue s1)" "k \<le> length (queue s1)" "charged n s1 s'" "k \<le> n" "n \<le> k + acked_on_disk s1"
        "nextSeq s' = nextSeq s1"
      by blast
    have "enforceBoundsLocked e s = (None, s')"
      using enforce_more[OF assms(1) True _ s1(1)] segs hd IH(1) by simp
    then show ?thesis
      using IH s1 charged_trans[OF s1(4) IH(6)]
      by (rule_tac x = s' in exI, rule_tac x = "length (seg_queue s q) + k" in exI,
          rule_tac x = "seg_records ?s q + n" in exI) simp
  qed
qed

section \<open>Append\<close>

lemma ensure_active_ok:
  assumes "no_faults e" "spool_wf s" "nextSeq s \<noteq> - 1"
  shows "\<exists>s'. and_then (if b then rotateLocked e s else (None, s))
      (\<lambda>s. if \<not> active s then openActiveLocked e s else (None, s)) = (None, s')
    \<and> spool_wf s' \<and> queue s' = queue s \<and> active s' \<and> same_account s s'
    \<and> (nextSeq s' = nextSeq s \<or> nextSeq s' = nextSeq s + 1)"
proof -
  obtain s1 where s1: "(if b then rotateLocked e s else (None, s)) = (None, s1)" "spool_wf s1" "queue s1 = queue s"
    "same_account s s1" "nextSeq s1 = nextSeq s"
    using rotate_keeps[OF assms(1,2)] assms(2) by (cases b) auto
  show ?thesis
  proof (cases "active s1")
    case True
    with s1 show ?thesis by auto
  next
    case False
    with s1 openActive_ok[OF assms(1) s1(2)] assms(3) same_account_trans[OF s1(4)] show ?thesis
      by fastforce
  qed
qed

lemma appendPayload_ok:
  assumes nf: "no_faults e" and wf: "spool_wf s" and seq: "nextSeq s \<noteq> - 1" and fit: "length p \<le> maxRecordBytes"
  shows "\<exists>s' k n. appendPayload e p s = (None, s') \<and> spool_wf s' \<and> queue s' = drop k (queue s @ [p])
    \<and> k \<le> length (queue s) + 1 \<and> charged n s s' \<and> k \<le> n \<and> notify s'
    \<and> (nextSeq s' = nextSeq s \<or> nextSeq s' = nextSeq s + 1)"
proof -
  let ?b = "active s \<and> (activeSize s + length p + recordOverhead > segMaxBytes
                       \<or> time_sub (e_now e) (activeOpenedAt s) \<ge> segMaxAge)"
  obtain s1 where s1: "and_then (if ?b then rotateLocked e s else (None, s))
      (\<lambda>s. if \<not> active s then openActiveLocked e s else (None, s)) = (None, s1)"
    "spool_wf s1" "queue s1 = queue s" "active s1" "same_account s s1"
    "nextSeq s1 = nextSeq s \<or> nextSeq s1 = nextSeq s + 1"
    using ensure_active_ok[OF nf wf seq] by blast
  have act: "activeSeq s1 \<in> set (seqs (sp_dir s1))"
    using s1(2,4) by (simp add: spool_wf_def)
  obtain d' t where w: "write_record e p s1 = (None, s1\<lparr>sp_dir := d', sp_tick := t\<rparr>)"
    "grown (sp_dir s1) (activeSeq s1) (encode_record p) d'"
    using write_record_ok[OF nf spool_wf_D(1)[OF s1(2)] act] by blast
  define s2 where "s2 = s1\<lparr>sp_dir := d', sp_tick := t, activeSize := activeSize s1 + rec_size p,
    totalBytes := totalBytes s1 + int (rec_size p), pending := pending s1 + 1\<rparr>"
  have s2: "spool_wf s2" "queue s2 = queue s @ [p]" "same_account s s2"
    using grown_wf[OF s1(2) act fit w(2), of t] grown_queue[OF s1(2) act fit w(2), of t] s1(3,5)
    by (simp_all add: s2_def same_account_def)
  let ?c = "totalBytes s2 > maxBytes s2 \<or> time_sub (e_now e) (lastBoundsCheck s2) \<ge> boundsCheckEvery s2"
  obtain s3 k n where s3: "(if ?c then enforceBoundsLocked e s2 else (None, s2)) = (None, s3)" "spool_wf s3"
    "queue s3 = drop k (queue s2)" "k \<le> length (queue s2)" "charged n s2 s3" "k \<le> n"
    "nextSeq s3 = nextSeq s2"
  proof (cases ?c)
    case True
    with that enforce_ok[OF nf s2(1)] show ?thesis by (smt (verit, best))
  next
    case False
    with that[of s2 0 0] s2(1) show ?thesis by (simp add: charged_def)
  qed
  have "appendPayload e p s = (None, wake s3)"
    unfolding appendPayload_def and_then_assoc[symmetric] s1(1) and_then_None w(1) Let_def
    using s3(1) by (auto simp: s2_def rec_size_def split: if_splits)
  then show ?thesis
    using s3 s2 same_account_charged[OF s2(3) s3(5)] s1(6) by (auto simp: wake_def charged_def s2_def)
qed

end
