(* ===== verification/Spool_Delivery.thy ===== *)
theory Spool_Delivery
  imports Spool_Ops
begin

text \<open>
  \<open>Next\<close> and the acknowledgement it returns. \<open>plan s k qs\<close> describes, without the file reads,
  which segments the acknowledgement will consume when \<open>k\<close> records may still be taken from the
  segments \<open>qs\<close>: completely read sealed segments are removed, at most one (the last) is only
  advanced. From it follow the two halves of the delivery contract.
\<close>

section \<open>The consumption plan\<close>

definition consume :: "spool \<Rightarrow> nat \<Rightarrow> u64 \<Rightarrow> bool \<Rightarrow> consumed_seg" where
  "consume s stop q cmpl = \<lparr>c_seq = q, c_path = seg_name q, c_end = stop, c_complete = cmpl\<rparr>"

definition plan_stop :: "spool \<Rightarrow> nat \<Rightarrow> u64 \<Rightarrow> nat" where
  "plan_stop s k q = seg_start s q + length (encode_all (take k (seg_queue s q)))"

fun plan :: "spool \<Rightarrow> nat \<Rightarrow> u64 list \<Rightarrow> consumed_seg list" where
  "plan s k [] = []"
| "plan s k (q # qs) =
     (if k = 0 then []
      else if seg_queue s q = []
      then (if q = activeSeq s then plan s k qs else consume s (plan_stop s k q) q True # plan s k qs)
      else consume s (plan_stop s k q) q (length (seg_queue s q) \<le> k \<and> q \<noteq> activeSeq s)
             # plan s (k - length (seg_queue s q)) qs)"

lemma plan_cong:
  assumes "activeSeq s' = activeSeq s" "\<And>q. q \<in> set qs \<Longrightarrow> seg_queue s' q = seg_queue s q"
    "\<And>q. q \<in> set qs \<Longrightarrow> seg_start s' q = seg_start s q"
  shows "plan s' k qs = plan s k qs"
  using assms by (induction qs arbitrary: k) (auto simp: consume_def plan_stop_def)

lemma plan_0 [simp]: "plan s 0 qs = []"
  by (cases qs) auto

lemma seg_start_frame [simp]: "seg_start (s\<lparr>sp_tick := n\<rparr>) = seg_start s"
  by (simp add: seg_start_def fun_eq_iff)

lemma plan_tick [simp]: "plan (s\<lparr>sp_tick := n\<rparr>) k qs = plan s k qs"
  by (rule plan_cong) simp_all

text \<open>How far a read of at most \<open>k\<close> records gets, compared with the size of the file.\<close>

lemma plan_stop_complete:
  assumes "spool_wf s" "q \<in> set (seqs (sp_dir s))"
  shows "plan_stop s k q \<ge> length (seg_bytes (sp_dir s) q) \<longleftrightarrow> length (seg_queue s q) \<le> k"
proof -
  let ?ps = "seg_queue s q" and ?bs = "seg_bytes (sp_dir s) q"
  have b: "seg_start s q \<le> length ?bs" "encode_all ?ps = drop (seg_start s q) ?bs"
    using spool_wf_D(2)[OF assms] by (simp_all add: boundary_def whole_def seg_queue_def)
  have "length (drop (seg_start s q) ?bs) = length (encode_all (take k ?ps)) + length (encode_all (drop k ?ps))"
    using b(2) by (metis append_take_drop_id encode_all_simps(3) length_append)
  then have "length ?bs = plan_stop s k q + length (encode_all (drop k ?ps))"
    using b(1) by (simp add: plan_stop_def)
  moreover have "encode_all (drop k ?ps) = [] \<longleftrightarrow> length ?ps \<le> k"
    by (cases "drop k ?ps") (auto simp: encode_record_def)
  ultimately show ?thesis
    by auto
qed

section \<open>Reading\<close>

lemma readSegment_ok:
  assumes "no_faults e" "spool_wf s" "q \<in> set (seqs (sp_dir s))" "map unmarshal (seg_queue s q) = map Some rs"
  shows "readSegmentLocked e unmarshal (seg_of (sp_dir s) q) (seg_start s q) k s =
    ((take k rs, plan_stop s k q, False), s\<lparr>sp_tick := Suc (Suc (sp_tick s))\<rparr>)"
proof -
  have "encode_all (seg_queue s q) = drop (seg_start s q) (seg_bytes (sp_dir s) q)"
    using spool_wf_D(2)[OF assms(2,3)] by (simp add: boundary_def whole_def seg_queue_def)
  moreover have "fits (seg_queue s q)"
    by (simp add: seg_queue_def)
  ultimately show ?thesis
    using assms(1) read_loop_encode[OF _ assms(4)]
    by (simp add: readSegmentLocked_def io_try_def read_segment_def seg_of_def plan_stop_def seg_bytes_def)
qed

lemma map_Some_append:
  "map f (xs @ ys) = map Some rs \<Longrightarrow> \<exists>as bs. rs = as @ bs \<and> map f xs = map Some as \<and> map f ys = map Some bs"
  by (auto simp: map_eq_append_conv append_eq_map_conv)

lemma next_loop_ok:
  assumes "no_faults e" "spool_wf s" "set qs \<subseteq> set (seqs (sp_dir s))"
    "map unmarshal (concat (map (seg_queue s) qs)) = map Some rs"
  shows "\<exists>t. next_loop e unmarshal k (map (seg_of (sp_dir s)) qs) out consumed s =
    (out @ take (k - length out) rs, consumed @ plan s (k - length out) qs, s\<lparr>sp_tick := t\<rparr>)"
  using assms
proof (induction qs arbitrary: out consumed s rs)
  case Nil
  then show ?case by (auto intro: exI[of _ "sp_tick s"])
next
  case (Cons q qs)
  show ?case
  proof (cases "length out \<ge> k")
    case True
    then show ?thesis by (auto intro: exI[of _ "sp_tick s"])
  next
    case False
    obtain as bs where rs: "rs = as @ bs" "map unmarshal (seg_queue s q) = map Some as"
      "map unmarshal (concat (map (seg_queue s) qs)) = map Some bs"
      using map_Some_append[of unmarshal "seg_queue s q" "concat (map (seg_queue s) qs)" rs] Cons.prems(4)
      by auto
    have q: "q \<in> set (seqs (sp_dir s))"
      using Cons.prems(3) by simp
    let ?k = "k - length out" and ?s = "s\<lparr>sp_tick := Suc (Suc (sp_tick s))\<rparr>"
    have len: "length as = length (seg_queue s q)"
      using arg_cong[OF rs(2), of length] by simp
    note rd = readSegment_ok[OF Cons.prems(1,2) q rs(2), of ?k]
    note cm = plan_stop_complete[OF Cons.prems(2) q, of ?k]
    have IH: "\<exists>t. next_loop e unmarshal k (map (seg_of (sp_dir s)) qs) out' consumed' ?s =
        (out' @ take (k - length out') bs, consumed' @ plan s (k - length out') qs, s\<lparr>sp_tick := t\<rparr>)"
      for out' consumed'
      using Cons.IH[of ?s bs out' consumed'] Cons.prems rs(3) by simp
    have sg: "sg_seq (seg_of (sp_dir s) q) = q" "sg_size (seg_of (sp_dir s) q) = length (seg_bytes (sp_dir s) q)"
      "sg_path (seg_of (sp_dir s) q) = seg_name q"
      by (simp_all add: seg_of_def)
    show ?thesis
    proof (cases "seg_queue s q = []")
      case True
      then have "as = []" using len by simp
      with True False IH[of out consumed] IH[of out "consumed @ [consume s (plan_stop s ?k q) q True]"] rd cm
      show ?thesis
        by (simp add: sg rs(1) consume_def flip: seg_start_def)
    next
      case nonempty: False
      then have as: "as \<noteq> []" "take ?k as \<noteq> []" using len False by auto
      have k: "k - length (out @ take ?k as) = ?k - length (seg_queue s q)"
        using len by auto
      have t: "take ?k as @ take (?k - length as) bs = take ?k rs"
        by (simp add: rs(1))
      show ?thesis
        using IH[of "out @ take ?k as" "consumed @ [consume s (plan_stop s ?k q) q (length (seg_queue s q) \<le> ?k \<and> q \<noteq> activeSeq s)]"]
          nonempty False rd cm as k t len
        by (simp add: sg consume_def flip: seg_start_def)
    qed
  qed
qed

section \<open>Acknowledging\<close>

lemma ack_complete_ok:
  "no_faults e \<Longrightarrow> \<exists>t. ack_complete e (consume s0 stop q True) s = ([], (remove_head q s)\<lparr>sp_tick := t\<rparr>)"
  by (rule exI[of _ "Suc (Suc (Suc (sp_tick s)))"])
    (simp add: ack_complete_def consume_def remove_head_def io_try_def Let_def)

lemma ack_partial_ok:
  "no_faults e \<Longrightarrow> \<exists>t. ack_partial e (consume s0 stop q b) s = ([], s\<lparr>readSeq := q, readOffset := stop, sp_tick := t\<rparr>)"
  by (rule exI[of _ "if active s \<and> q = activeSeq s then Suc (sp_tick s) else sp_tick s"])
    (simp add: ack_partial_def consume_def io_try_def Let_def)

lemma advance_head:
  assumes wf: "spool_wf s" and hd: "seqs (sp_dir s) = q # qs" and k: "length (seg_queue s q) \<le> k \<Longrightarrow> qs = []"
    and s'_def: "s' = s\<lparr>readSeq := q, readOffset := plan_stop s k q, sp_tick := t\<rparr>"
  shows "spool_wf s'" and "queue s' = drop k (queue s)"
proof -
  let ?bs = "seg_bytes (sp_dir s) q"
  have b: "boundary (seg_start s q) ?bs"
    using spool_wf_D(2)[OF wf] hd by simp
  note adv = boundary_advance[OF b, of "plan_stop s k q" k]
  have ge: "\<And>x. x \<in> set qs \<Longrightarrow> q \<le> x" and nin: "q \<notin> set qs"
    using sorted_seqs[of "sp_dir s"] distinct_seqs[OF spool_wf_D(1)[OF wf]] hd by auto
  have start: "seg_start s x = 0" if "x \<in> set qs" for x
  proof -
    have "x \<noteq> readSeq s \<or> x \<le> q"
      using wf hd that by (auto simp: spool_wf_def)
    then show ?thesis
      using nin that ge[OF that] by (auto simp: seg_start_def)
  qed
  have start': "seg_start s' q = plan_stop s k q" "\<And>x. x \<in> set qs \<Longrightarrow> seg_start s' x = 0"
    using nin by (auto simp: s'_def seg_start_def)
  show "spool_wf s'"
    using wf hd adv(1) start start' ge
    by (auto simp: spool_wf_def s'_def plan_stop_def seg_queue_def seg_start_def)
  have "seg_queue s' q = drop k (seg_queue s q)"
    using adv(2) start'(1) by (simp add: seg_queue_def s'_def plan_stop_def)
  moreover have "seg_queue s' x = seg_queue s x" if "x \<in> set qs" for x
    using start'(2)[OF that] start[OF that] by (simp add: seg_queue_def s'_def)
  ultimately have "queue s' = drop k (seg_queue s q) @ concat (map (seg_queue s) qs)"
    using hd by (simp add: queue_def s'_def cong: map_cong)
  then show "queue s' = drop k (queue s)"
    using hd k by (cases "length (seg_queue s q) \<le> k") (auto simp: queue_def)
qed

lemma ack_plan:
  assumes "no_faults e" "spool_wf s"
  shows "\<exists>s'. ack_loop e (plan s k (seqs (sp_dir s))) s = ([], s') \<and> spool_wf s' \<and> queue s' = drop k (queue s)
    \<and> same_account s s' \<and> nextSeq s' = nextSeq s"
  using assms(2)
proof (induction "seqs (sp_dir s)" arbitrary: s k)
  case Nil
  then show ?case
    by (simp add: queue_def)
next
  case (Cons q qs)
  note hd = Cons.hyps(2)[symmetric]
  consider (zero) "k = 0" | (skip) "k > 0" "seg_queue s q = []" "q = activeSeq s"
    | (gone) "k > 0" "length (seg_queue s q) \<le> k" "q \<noteq> activeSeq s"
    | (part) "k > 0" "seg_queue s q \<noteq> []" "length (seg_queue s q) > k \<or> q = activeSeq s"
    by force
  then show ?case
  proof cases
    case zero
    then show ?thesis using Cons.prems by simp
  next
    case skip
    have "qs = []"
      using spool_wf_active_max[OF Cons.prems] hd skip(3) by (cases qs rule: rev_cases) (auto simp: Cons_eq_append_conv)
    with skip hd Cons.prems show ?thesis
      by (simp add: queue_def)
  next
    case gone
    have inact: "active s \<Longrightarrow> q \<noteq> activeSeq s" using gone by simp
    note h = remove_head_props[OF Cons.prems hd inact]
    obtain t where a: "ack_complete e (consume s (plan_stop s k q) q True) s = ([], (remove_head q s)\<lparr>sp_tick := t\<rparr>)"
      using ack_complete_ok[OF assms(1)] by blast
    let ?s = "(remove_head q s)\<lparr>sp_tick := t\<rparr>" and ?k = "k - length (seg_queue s q)"
    have p: "plan s k (seqs (sp_dir s)) = consume s (plan_stop s k q) q True # plan ?s ?k qs"
      using gone hd plan_cong[of "remove_head q s" s qs ?k] h(3,4)
      by (auto simp: remove_head_def Let_def)
    obtain s' where "ack_loop e (plan ?s ?k (seqs (sp_dir ?s))) ?s = ([], s')" "spool_wf s'"
      "queue s' = drop ?k (queue ?s)" "same_account ?s s'" "nextSeq s' = nextSeq ?s"
      using Cons.hyps(1)[of ?s ?k] h(1,2) by auto
    with p a h(2,5) gone show ?thesis
      by (auto simp: consume_def same_account_def remove_head_def Let_def)
  next
    case part
    have k: "length (seg_queue s q) \<le> k \<Longrightarrow> qs = []"
      using part spool_wf_active_max[OF Cons.prems] hd
      by (cases qs rule: rev_cases) (auto simp: Cons_eq_append_conv)
    then have p: "plan s k (seqs (sp_dir s)) = [consume s (plan_stop s k q) q False]"
      using part hd by (cases "length (seg_queue s q) \<le> k") auto
    obtain t where "ack_partial e (consume s (plan_stop s k q) q False) s =
        ([], s\<lparr>readSeq := q, readOffset := plan_stop s k q, sp_tick := t\<rparr>)"
      using ack_partial_ok[OF assms(1)] by blast
    with p advance_head[OF Cons.prems hd k refl, where t = t] show ?thesis
      by (simp add: consume_def same_account_def)
  qed
qed

section \<open>The delivery contract\<close>

lemma next_ok:
  assumes "no_faults e" "spool_wf s" "map unmarshal (queue s) = map Some rs"
  shows "\<exists>t i. nextOp e unmarshal k s =
    (take k rs, Some (plan s k (seqs (sp_dir s)), min k (length rs)), s\<lparr>sp_tick := t, pending := i\<rparr>)"
proof -
  let ?s = "s\<lparr>sp_tick := Suc (sp_tick s)\<rparr>"
  obtain t where "next_loop e unmarshal k (map (seg_of (sp_dir s)) (seqs (sp_dir s))) [] [] ?s =
      (take k rs, plan s k (seqs (sp_dir s)), ?s\<lparr>sp_tick := t\<rparr>)"
    using next_loop_ok[OF assms(1), of ?s "seqs (sp_dir s)" unmarshal rs k "[]" "[]"] assms(2,3)
    by (auto simp: queue_def cong: map_cong)
  then show ?thesis
    using assms(1,2)
    by (intro exI[of _ t] exI[of _ "if take k rs = [] then 0 else pending s"])
      (auto simp: nextOp_def io_try_def list_segments_seqs spool_wf_D(1) min_def)
qed

lemma ack_ok:
  assumes "no_faults e" "spool_wf s"
  shows "\<exists>s'. ack e (Some (plan s k (seqs (sp_dir s)), n)) s = ([], s') \<and> spool_wf s' \<and> queue s' = drop k (queue s)
    \<and> same_account s s' \<and> nextSeq s' = nextSeq s"
  using ack_plan[OF assms, of k] by (auto simp: ack_def same_account_def)

end
