(* ===== verification/Spool_Recovery.thy ===== *)
theory Spool_Recovery
  imports Spool_Delivery
begin

text \<open>
  Start-up: what \<open>Open\<close> recovers from the directory a crash left behind (the records, and the
  drop counters reconciled from the two sidecars), and the accounting of drops over the life of
  the spool.
\<close>

section \<open>The drop counters\<close>

lemma bytes_of_string_inv [simp]: "string_of_bytes (bytes_of_string s) = s"
  by (induction s) (auto simp: string_of_bytes_def bytes_of_string_def unat_of_nat take_bit_nat_eq_self)

lemma parseDropped_text [simp]: "parseDropped (format_uint (unat v)) = Some v"
  using unsigned_less[where w = v] by (simp add: parseDropped_def trim_space_format_uint)

lemma parseDroppedState_text [simp]: "parseDroppedState (droppedState_text t a) = Some (t, a)"
proof -
  let ?t = "format_uint (unat t)" and ?a = "format_uint (unat a)"
  have "no_space (hd ?t)" "no_space (last ?a)"
    using format_uint_no_space by (metis format_uint_not_Nil hd_in_set last_in_set)+
  then have "trim_space (?t @ '' '' @ ?a) = ?t @ '' '' @ ?a"
    by (intro trim_space_fix) simp
  moreover have "str_fields (?t @ '' '' @ ?a) = [?t, ?a]"
    by (rule fields_two_words) (auto dest: format_uint_no_space)
  ultimately show ?thesis
    by (simp add: parseDroppedState_def droppedState_text_def)
qed

text \<open>The books balance: every drop is either acknowledged or still to be reported.\<close>

definition balanced :: "u64 \<Rightarrow> u64 \<Rightarrow> u64 \<Rightarrow> bool" where
  "balanced tot acked unacked \<longleftrightarrow> unat tot = unat acked + unat unacked"

lemma balanced_iff: "balanced t a u \<longleftrightarrow> u \<le> t \<and> a = t - u"
proof
  assume b: "balanced t a u"
  then have "u \<le> t"
    by (simp add: balanced_def word_le_nat_alt)
  moreover from this have "unat (t - u) = unat a"
    using b by (simp add: unat_minus_le balanced_def)
  ultimately show "u \<le> t \<and> a = t - u"
    by (metis word_unat_eq_iff)
next
  assume "u \<le> t \<and> a = t - u"
  then show "balanced t a u"
    by (simp add: balanced_def unat_minus_le word_le_nat_alt)
qed

lemma balanced_D:
  assumes "balanced t a u"
  shows "a \<le> t" "t = a + u" "unat a + unat u < 2 ^ 64" "unat t = unat a + unat u"
proof -
  show "unat t = unat a + unat u" using assms by (simp add: balanced_def)
  then show l: "unat a + unat u < 2 ^ 64" "a \<le> t"
    using unat_lt64[of t] by (simp_all add: word_le_nat_alt)
  show "t = a + u"
    using unat_plus_no_overflow[OF l(1)] assms by (simp add: balanced_def word_unat_eq_iff)
qed

lemma reconcile_unfold:
  assumes "reconcile uf sf = ((t, a, u), repair)" "(t0, a0) = (case sf of None \<Rightarrow> (0, 0) | Some (t, a) \<Rightarrow> (t, min a t))"
  shows "u = (case uf of Some v \<Rightarrow> v | None \<Rightarrow> t0 - a0)"
    and "t = (if unat u + unat a0 < 2 ^ 64 then max t0 (a0 + u) else - 1)"
    and "a = t - u"
    and "repair = (t \<noteq> t0 \<or> a \<noteq> a0 \<or> (uf = None \<and> t > 0))"
    and "a0 \<le> t0"
proof -
  have "unat (- 1 - a0) = 2 ^ 64 - 1 - unat a0"
    by (simp add: unat_minus_le unat_max64)
  then have "u > - 1 - a0 \<longleftrightarrow> \<not> unat u + unat a0 < 2 ^ 64"
    using unat_lt64[of a0] by (auto simp: word_less_nat_alt)
  then show "u = (case uf of Some v \<Rightarrow> v | None \<Rightarrow> t0 - a0)"
    and "t = (if unat u + unat a0 < 2 ^ 64 then max t0 (a0 + u) else - 1)"
    and "a = t - u" and "repair = (t \<noteq> t0 \<or> a \<noteq> a0 \<or> (uf = None \<and> t > 0))"
    using assms by (auto simp: reconcile_def Let_def split: prod.splits)
  show "a0 \<le> t0"
    using assms(2) by (auto split: option.splits prod.splits)
qed


lemma reconcile_spec:
  assumes "reconcile uf sf = ((t, a, u), repair)" "(t0, a0) = (case sf of None \<Rightarrow> (0, 0) | Some (t, a) \<Rightarrow> (t, min a t))"
  shows "balanced t a u" and "t0 \<le> t" and "a0 + u \<le> t \<or> t = - 1"
proof -
  note r = reconcile_unfold[OF assms]
  have no: "unat (a0 + u) = unat a0 + unat u" if "unat u + unat a0 < 2 ^ 64"
    using that by (intro unat_plus_no_overflow) simp
  have "u \<le> t"
  proof (cases "unat u + unat a0 < 2 ^ 64")
    case True
    then have "u \<le> a0 + u" using no by (simp add: word_le_nat_alt)
    also have "\<dots> \<le> t" using r(2) True by simp
    finally show ?thesis .
  qed (simp add: r(2))
  then show "balanced t a u"
    by (simp add: balanced_iff r(3))
  show "t0 \<le> t" and "a0 + u \<le> t \<or> t = - 1"
    by (auto simp: r(2))
qed

lemma reconcile_balanced:
  assumes "balanced t a u"
  shows "reconcile (Some u) (Some (t, a)) = ((t, a, u), False)"
proof -
  have u: "u \<le> t" "a = t - u" and "unat a + unat u < 2 ^ 64" "a \<le> t"
    using assms balanced_D[OF assms] by (simp_all add: balanced_iff)
  obtain t' a' u' b where r: "reconcile (Some u) (Some (t, a)) = ((t', a', u'), b)"
    by (metis surj_pair)
  have "(t, a) = (case Some (t, a) of None \<Rightarrow> (0, 0) | Some (t, a) \<Rightarrow> (t, min a t))"
    using \<open>a \<le> t\<close> by (simp add: min_def)
  note s = reconcile_unfold[OF r this]
  have "t' = t" and "u' = u"
    using s(1,2) u \<open>unat a + unat u < 2 ^ 64\<close> by (simp_all add: add.commute)
  then show ?thesis
    using s(3,4) u r by simp
qed

lemma reconcile_drop_crash:
  assumes "balanced t a u" "unat t + n < 2 ^ 64"
  shows "fst (reconcile (Some (u + word_of_nat n)) (Some (t, a))) = (t + word_of_nat n, a, u + word_of_nat n)"
proof -
  let ?u = "u + word_of_nat n"
  have n: "unat (word_of_nat n :: u64) = n"
    using assms(2) by (simp add: unat_of_nat take_bit_nat_eq_self)
  have u': "unat ?u = unat u + n" and t': "unat (t + word_of_nat n) = unat t + n"
    using assms n by (auto simp: balanced_def intro: unat_plus_no_overflow[THEN trans])
  have a: "a \<le> t" "t = a + u"
    using balanced_D[OF assms(1)] by simp_all
  obtain tt aa uu b where r: "reconcile (Some ?u) (Some (t, a)) = ((tt, aa, uu), b)"
    by (metis surj_pair)
  have "(t, a) = (case Some (t, a) of None \<Rightarrow> (0, 0) | Some (t, a) \<Rightarrow> (t, min a t))"
    using a by (simp add: min_def)
  note s = reconcile_unfold[OF r this]
  have "t \<le> a + ?u"
    using t' a by (simp add: word_le_nat_alt add.assoc[symmetric])
  then have "tt = t + word_of_nat n" "uu = ?u"
    using s(1,2) u' a assms by (auto simp: balanced_def add.assoc[symmetric] max_def)
  then show ?thesis
    using s(3) a r by simp
qed

lemma reconcile_ack_crash:
  assumes "balanced t a u" "r \<le> u"
  shows "reconcile (Some (u - r)) (Some (t, a)) = ((t, a + r, u - r), r \<noteq> 0)"
proof -
  have a: "a \<le> t" "t = a + u" and lim: "unat a + unat u < 2 ^ 64"
    using balanced_D[OF assms(1)] by simp_all
  have r: "unat (u - r) = unat u - unat r" "unat r \<le> unat u"
    using assms(2) by (simp_all add: unat_minus_le word_le_nat_alt)
  obtain tt aa uu b where rc: "reconcile (Some (u - r)) (Some (t, a)) = ((tt, aa, uu), b)"
    by (metis surj_pair)
  have "(t, a) = (case Some (t, a) of None \<Rightarrow> (0, 0) | Some (t, a) \<Rightarrow> (t, min a t))"
    using a by (simp add: min_def)
  note s = reconcile_unfold[OF rc this]
  have "unat a + unat (u - r) < 2 ^ 64"
    using lim r by simp
  from unat_plus_no_overflow[OF this]
  have "unat (a + (u - r)) = unat a + unat (u - r)" "unat t = unat a + unat u"
    using balanced_D[OF assms(1)] by simp_all
  then have "a + (u - r) \<le> t"
    using r by (simp add: word_le_nat_alt)
  then have "tt = t" "uu = u - r"
    using s(1,2) lim r by (auto simp: max_def)
  then show ?thesis
    using s(3,4) a rc by auto
qed

section \<open>Scanning the segments\<close>

definition scanned :: "u64 set \<Rightarrow> dir \<Rightarrow> dir \<Rightarrow> bool" where
  "scanned X d d' \<longleftrightarrow> canon d' \<and> seqs d' = seqs d
     \<and> (\<forall>q. seg_bytes d' q = (if q \<in> X then encode_all (payloads (seg_bytes d q)) else seg_bytes d q))
     \<and> (\<forall>n. \<not> has_suffix n ''.seg'' \<longrightarrow> map_of d' n = map_of d n)"

lemma scanned_trans: "scanned X a b \<Longrightarrow> scanned Y b c \<Longrightarrow> scanned (X \<union> Y) a c"
  by (auto simp: scanned_def)

lemma scanSegment_ok:
  assumes "no_faults e" "canon (sp_dir s)" "q \<in> set (seqs (sp_dir s))"
  shows "\<exists>n d' t. scanSegment e (seg_name q) s = (Inr n, s\<lparr>sp_dir := d', sp_tick := t\<rparr>) \<and> scanned {q} (sp_dir s) d'"
proof -
  let ?bs = "file_bytes (sp_dir s) (seg_name q)" and ?good = "encode_all (payloads (file_bytes (sp_dir s) (seg_name q)))"
  let ?d = "dir_put (seg_name q) \<lparr>f_data = ?good, f_mod = e_now e\<rparr> (sp_dir s)"
  have put: "scanned {q} (sp_dir s) ?d"
    using assms(2,3) seg_name_suffix
    by (auto simp: scanned_def seqs_put_mem seg_bytes_put seg_bytes_def[of "sp_dir s" q] map_of_dir_put)
  have run: "scanSegment e (seg_name q) s =
      (if length ?good < length ?bs
       then (Inr (length (payloads ?bs)), s\<lparr>sp_dir := ?d, sp_tick := Suc (Suc (sp_tick s))\<rparr>)
       else (Inr (length (payloads ?bs)), s\<lparr>sp_tick := Suc (sp_tick s)\<rparr>))"
    using assms(1) by (simp add: scanSegment_def io_try_def scan_data_payloads Let_def)
  show ?thesis
  proof (cases "length ?good < length ?bs")
    case True
    then have r: "scanSegment e (seg_name q) s =
        (Inr (length (payloads ?bs)), s\<lparr>sp_dir := ?d, sp_tick := Suc (Suc (sp_tick s))\<rparr>)"
      using run by simp
    show ?thesis
      unfolding r using put by blast
  next
    case False
    then have "?good = ?bs"
      using payloads_prefix[of ?bs]
      by (metis append.right_neutral length_append length_greater_0_conv less_add_same_cancel1)
    then have "scanned {q} (sp_dir s) (sp_dir s)"
      using assms(2) by (simp add: scanned_def seg_bytes_def)
    moreover have "s\<lparr>sp_tick := Suc (sp_tick s)\<rparr> = s\<lparr>sp_dir := sp_dir s, sp_tick := Suc (sp_tick s)\<rparr>"
      by simp
    ultimately show ?thesis
      using run False by metis
  qed
qed

lemma scan_all_ok:
  assumes "no_faults e" "canon (sp_dir s)" "set qs \<subseteq> set (seqs (sp_dir s))"
  shows "\<exists>d' t i. scan_all e (map (seg_of d0) qs) s =
      (None, s\<lparr>sp_dir := d', sp_tick := t, pending := i, nextSeq := (if qs = [] then nextSeq s else last qs + 1)\<rparr>)
    \<and> scanned (set qs) (sp_dir s) d'"
  using assms(2,3)
proof (induction qs arbitrary: s)
  case Nil
  then show ?case
    by (intro exI[of _ "sp_dir s"] exI[of _ "sp_tick s"] exI[of _ "pending s"]) (simp add: scanned_def)
next
  case (Cons q qs)
  obtain n d1 t1 where 1: "scanSegment e (seg_name q) s = (Inr n, s\<lparr>sp_dir := d1, sp_tick := t1\<rparr>)" "scanned {q} (sp_dir s) d1"
    using scanSegment_ok[OF assms(1) Cons.prems(1), of q] Cons.prems(2) by auto
  let ?s = "s\<lparr>sp_dir := d1, sp_tick := t1, pending := pending s + int n, nextSeq := q + 1\<rparr>"
  have "canon (sp_dir ?s)" "set qs \<subseteq> set (seqs (sp_dir ?s))"
    using 1(2) Cons.prems by (auto simp: scanned_def)
  from Cons.IH[OF this] obtain d' t i where 2: "scan_all e (map (seg_of d0) qs) ?s =
      (None, ?s\<lparr>sp_dir := d', sp_tick := t, pending := i, nextSeq := (if qs = [] then q + 1 else last qs + 1)\<rparr>)"
    "scanned (set qs) d1 d'"
    by (auto cong: if_cong)
  show ?case
    using 1 2 scanned_trans[OF 1(2) 2(2)]
    by (intro exI[of _ d'] exI[of _ t] exI[of _ i]) simp
qed

section \<open>Open\<close>

text \<open>What a directory holds: its readable records, and what its sidecars say.\<close>

definition dir_queue :: "dir \<Rightarrow> byte list list" where
  "dir_queue d = concat (map (\<lambda>q. payloads (seg_bytes d q)) (seqs d))"

definition sidecars :: "dir \<Rightarrow> u64 option \<times> (u64 \<times> u64) option" where
  "sidecars d = (Option.bind (map_of d droppedFile) (\<lambda>f. parseDropped (string_of_bytes (f_data f))),
     Option.bind (map_of d droppedStateFile) (\<lambda>f. parseDroppedState (string_of_bytes (f_data f))))"

definition counters :: "spool \<Rightarrow> u64 \<times> u64 \<times> u64" where
  "counters s = (droppedTotal s, droppedAcked s, droppedUnacked s)"

lemma read_sidecar_ok:
  assumes "no_faults e"
  shows "\<exists>t. read_sidecar e n s = (Inr (map_option (\<lambda>f. string_of_bytes (f_data f)) (map_of (sp_dir s) n)), s\<lparr>sp_tick := t\<rparr>)"
proof (cases "map_of (sp_dir s) n")
  case None
  then show ?thesis
    by (intro exI[of _ "sp_tick s"]) (simp add: read_sidecar_def)
next
  case (Some f)
  then show ?thesis
    using assms by (intro exI[of _ "Suc (sp_tick s)"]) (simp add: read_sidecar_def io_try_def)
qed

lemma load_counters_ok:
  assumes nf: "no_faults e" and wf: "spool_wf s"
  shows "\<exists>s'. load_counters e s = (None, s') \<and> spool_wf s' \<and> queue s' = queue s \<and> acked_on_disk s' = acked_on_disk s
    \<and> counters s' = fst (reconcile (fst (sidecars (sp_dir s))) (snd (sidecars (sp_dir s))))
    \<and> maxBytes s' = maxBytes s \<and> maxAge s' = maxAge s"
proof -
  obtain t1 where 1: "read_sidecar e droppedFile s =
      (Inr (map_option (\<lambda>f. string_of_bytes (f_data f)) (map_of (sp_dir s) droppedFile)), s\<lparr>sp_tick := t1\<rparr>)"
    using read_sidecar_ok[OF nf] by blast
  obtain t2 where 2: "read_sidecar e droppedStateFile (s\<lparr>sp_tick := t1\<rparr>) =
      (Inr (map_option (\<lambda>f. string_of_bytes (f_data f)) (map_of (sp_dir s) droppedStateFile)), s\<lparr>sp_tick := t2\<rparr>)"
    using read_sidecar_ok[OF nf, of droppedStateFile "s\<lparr>sp_tick := t1\<rparr>"] by auto
  obtain t a u b where r: "reconcile (fst (sidecars (sp_dir s))) (snd (sidecars (sp_dir s))) = ((t, a, u), b)"
    by (metis surj_pair)
  let ?s = "s\<lparr>sp_tick := t2, droppedTotal := t, droppedAcked := a, droppedUnacked := u\<rparr>"
  have bind: "Option.bind (map_option f x) g = Option.bind x (\<lambda>y. g (f y))" for f g and x :: "fdesc option"
    by (cases x) auto
  have run: "load_counters e s = (if b then persistDropCountersLocked e ?s else (None, ?s))"
    using 1 2 r by (simp add: load_counters_def sidecars_def bind)
  have s: "spool_wf ?s" "queue ?s = queue s" "acked_on_disk ?s = acked_on_disk s"
    using wf by (simp_all add: acked_on_disk_def seg_start_def cong: if_cong)
  show ?thesis
  proof (cases b)
    case True
    obtain d' t' where p: "persistDropCountersLocked e ?s = (None, ?s\<lparr>sp_dir := d', sp_tick := t'\<rparr>)"
      "same_segs (sp_dir ?s) d'"
      using persistDropCounters_ok[OF nf] by blast
    show ?thesis
      using p True run r s same_segs_queue[OF p(2)] same_segs_wf[OF p(2) s(1)] same_segs_acked[OF p(2)]
      by (simp add: counters_def)
  next
    case False
    then show ?thesis
      using run r s by (simp add: counters_def)
  qed
qed

lemma scanned_all_wf:
  assumes "canon d" "\<forall>q\<in>set (seqs d). 0 < q \<and> q \<noteq> - 1" "scanned (set (seqs d)) d d'"
    and s_def: "s = (fresh_spool d mb ma)\<lparr>sp_dir := d', nextSeq := (if seqs d = [] then 1 else last (seqs d) + 1)\<rparr>"
  shows "spool_wf s" and "queue s = dir_queue d" and "acked_on_disk s = 0"
proof -
  have d': "canon d'" "seqs d' = seqs d" and b: "\<And>q. q \<in> set (seqs d) \<Longrightarrow> seg_bytes d' q = encode_all (payloads (seg_bytes d q))"
    using assms(3) by (auto simp: scanned_def)
  have start: "seg_start s q = 0" for q
    by (simp add: s_def seg_start_def fresh_spool_def)
  have lt: "q < last (seqs d) + 1" if "q \<in> set (seqs d)" for q
  proof -
    have "q \<le> last (seqs d)"
      using sorted_le_last[OF sorted_seqs that] .
    also have "\<dots> < last (seqs d) + 1"
      using assms(2) that by (intro word_less_succ) (metis empty_iff empty_set last_in_set)
    finally show ?thesis .
  qed
  have n: "\<forall>q\<in>set (seqs d). q < nextSeq s" "0 < nextSeq s"
  proof -
    show "\<forall>q\<in>set (seqs d). q < nextSeq s"
      using lt by (auto simp: s_def)
    then show "0 < nextSeq s"
      using lt[OF last_in_set, of] by (cases "seqs d = []") (auto simp: s_def word_gt_0 intro: order.strict_trans1[OF word_zero_le])
  qed
  have f: "sp_dir s = d'" "readSeq s = 0" "activeSeq s = 0" "\<not> active s"
    by (simp_all add: s_def fresh_spool_def)
  have "0 \<notin> set (seqs d)"
    using assms(2) by auto
  then show "spool_wf s"
    unfolding spool_wf_def f d'(2) start boundary_0 using d'(1) b assms(2) n f(4) by simp
  show "queue s = dir_queue d"
    using d'(2) b by (simp add: queue_def dir_queue_def seg_queue_def start f(1) cong: map_cong)
  show "acked_on_disk s = 0"
    by (simp add: acked_on_disk_def start)
qed

lemma openSpool_ok:
  assumes nf: "no_faults e" and c: "canon d" and q: "\<forall>q\<in>set (seqs d). 0 < q \<and> q \<noteq> - 1"
  shows "\<exists>s k. openSpool e d mb ma = (None, s) \<and> spool_wf s \<and> \<not> overBounds e s \<and> k \<le> length (dir_queue d)
    \<and> queue s = drop k (dir_queue d) \<and> maxBytes s = mb \<and> maxAge s = ma
    \<and> (case fst (reconcile (fst (sidecars d)) (snd (sidecars d))) of (t, a, u) \<Rightarrow>
         counters s = (t + word_of_nat k, a, u + word_of_nat k))"
proof -
  let ?s0 = "(fresh_spool d mb ma)\<lparr>sp_tick := Suc (Suc 0)\<rparr>"
  obtain d' t i where scan: "scan_all e (map (seg_of d) (seqs d)) ?s0 =
      (None, ?s0\<lparr>sp_dir := d', sp_tick := t, pending := i, nextSeq := (if seqs d = [] then 1 else last (seqs d) + 1)\<rparr>)"
    "scanned (set (seqs d)) d d'"
    using scan_all_ok[OF nf, of ?s0 "seqs d" d] c by (auto simp: fresh_spool_def)
  let ?n = "if seqs d = [] then 1 else last (seqs d) + 1"
  let ?s1 = "(fresh_spool d mb ma)\<lparr>sp_dir := d', nextSeq := ?n, sp_tick := t, pending := i\<rparr>"
  note w = scanned_all_wf[OF c q scan(2) refl, of mb ma]
  have s1: "spool_wf ?s1" "queue ?s1 = dir_queue d" "acked_on_disk ?s1 = 0" "sp_dir ?s1 = d'"
    using w by simp_all
  have side: "sidecars d' = sidecars d"
    using scan(2) by (simp add: scanned_def sidecars_def)
  obtain s2 where s2: "load_counters e ?s1 = (None, s2)" "spool_wf s2" "queue s2 = dir_queue d" "acked_on_disk s2 = 0"
    "counters s2 = fst (reconcile (fst (sidecars d)) (snd (sidecars d)))" "maxBytes s2 = mb" "maxAge s2 = ma"
    using load_counters_ok[OF nf s1(1)] s1 side by (auto simp: fresh_spool_def)
  obtain s3 k n where s3: "enforceBoundsLocked e s2 = (None, s3)" "spool_wf s3" "\<not> overBounds e s3"
    "queue s3 = drop k (queue s2)" "k \<le> length (queue s2)" "charged n s2 s3" "k \<le> n" "n \<le> k + acked_on_disk s2"
    using enforce_ok[OF nf s2(2)] by blast
  let ?s4 = "if pending s3 > 0 then wake s3 else s3"
  have "openSpool e d mb ma = (None, ?s4)"
    using nf scan(1) s2(1) s3(1) list_segments_seqs[OF c]
    by (simp add: openSpool_def io_try_def fresh_spool_def)
  moreover have "counters ?s4 = counters s3" "spool_wf ?s4 = spool_wf s3" "queue ?s4 = queue s3"
    "overBounds e ?s4 = overBounds e s3" "maxBytes ?s4 = maxBytes s3" "maxAge ?s4 = maxAge s3"
    by (simp_all add: counters_def wake_def overBounds_def split: list.split)
  moreover have "n = k"
    using s3(7,8) s2(4) by simp
  ultimately show ?thesis
    using s2 s3 by (intro exI[of _ ?s4] exI[of _ k]) (auto simp: charged_def counters_def)
qed

end
