(* ===== verification/Pusher.thy ===== *)
theory Pusher
  imports Spool_Recovery
begin

text \<open>
  The agent side of delivery (\<open>internal/agent/uplink/pusher.go\<close>, the reconnect loop of
  \<open>uplink.go\<close> and \<open>watchdog.go\<close>) and what it relies on: an outbox that keeps order, gives up
  nothing silently and forgets a record only after it was accepted. The locale \<open>outbox\<close> states
  that contract; the spool is its interpretation.
\<close>

section \<open>The push loop\<close>

definition batchSize :: nat where "batchSize = 500"
definition backoffMin :: duration where "backoffMin = 1 * second"
definition backoffMax :: duration where "backoffMax = 60 * second"

text \<open>One message to the server: the results and the two loss counters.\<close>

record 'r push_attempt =
  pa_results :: "'r list"
  pa_total :: u64
  pa_unacked :: u64

text \<open>
  One turn of the drain loop; \<open>ok\<close> is whether the server accepted the push. \<open>None\<close> is the break
  on an empty spool. Nothing is acknowledged unless the push was accepted.
\<close>

definition push_turn ::
  "spool_env \<Rightarrow> (byte list \<Rightarrow> 'r option) \<Rightarrow> bool \<Rightarrow> spool \<Rightarrow> 'r push_attempt option \<times> spool" where
  "push_turn e unmarshal ok s =
     (let (results, tok, s) = nextOp e unmarshal batchSize s
      in if results = [] then (None, s)
         else
           (let (tot, unacked) = dropped s;
                attempt = \<lparr>pa_results = results, pa_total = tot, pa_unacked = unacked\<rparr>
            in if \<not> ok then (Some attempt, s)
               else (Some attempt, snd (ack e tok (if unacked > 0 then ackDropped e unacked s else s)))))"

text \<open>
  The drain loop of \<open>Run\<close>, for the outcomes the server will give, one per push: it stops when
  the spool is empty, when a push fails (doubling the backoff), or when the context ends (no
  outcome is left).
\<close>

fun drain ::
  "spool_env \<Rightarrow> (byte list \<Rightarrow> 'r option) \<Rightarrow> bool list \<Rightarrow> duration \<Rightarrow> spool \<Rightarrow> ('r push_attempt \<times> bool) list \<times> duration \<times> spool" where
  "drain e unmarshal [] backoff s = ([], backoff, s)"
| "drain e unmarshal (ok # oks) backoff s =
     (case push_turn e unmarshal ok s of
        (None, s) \<Rightarrow> ([], backoff, s)
      | (Some a, s) \<Rightarrow>
          if ok then (let (as, backoff, s) = drain e unmarshal oks backoffMin s in ((a, True) # as, backoff, s))
          else ([(a, False)], min (backoff * 2) backoffMax, s))"

definition accepted_results :: "('r push_attempt \<times> bool) list \<Rightarrow> 'r list" where
  "accepted_results as = concat (map (pa_results \<circ> fst) (filter snd as))"

section \<open>Next, AckDropped and ack together\<close>

lemma ackDropped_ok:
  assumes "no_faults e"
  shows "\<exists>d' t. ackDropped e r s = s\<lparr>droppedUnacked := droppedUnacked s - min r (droppedUnacked s),
      droppedAcked := min (droppedAcked s + min r (droppedUnacked s)) (droppedTotal s), sp_dir := d', sp_tick := t\<rparr>
    \<and> same_segs (sp_dir s) d'"
proof -
  let ?s = "s\<lparr>droppedUnacked := droppedUnacked s - min r (droppedUnacked s),
      droppedAcked := min (droppedAcked s + min r (droppedUnacked s)) (droppedTotal s)\<rparr>"
  obtain d' t where "persistDropCountersLocked e ?s = (None, ?s\<lparr>sp_dir := d', sp_tick := t\<rparr>)" "same_segs (sp_dir ?s) d'"
    using persistDropCounters_ok[OF assms] by blast
  then have "ackDropped e r s = ?s\<lparr>sp_dir := d', sp_tick := t\<rparr> \<and> same_segs (sp_dir s) d'"
    by (simp add: ackDropped_def Let_def)
  then show ?thesis by blast
qed

lemma push_turn_ok:
  assumes nf: "no_faults e" and wf: "spool_wf s" and um: "map unmarshal (queue s) = map Some rs"
  shows "\<exists>a s'. push_turn e unmarshal ok s = (a, s') \<and> spool_wf s' \<and> nextSeq s' = nextSeq s
    \<and> droppedTotal s' = droppedTotal s \<and> maxBytes s' = maxBytes s \<and> maxAge s' = maxAge s
    \<and> (if rs = [] then a = None \<and> queue s' = queue s
       else a = Some \<lparr>pa_results = take batchSize rs, pa_total = droppedTotal s, pa_unacked = droppedUnacked s\<rparr>
         \<and> queue s' = (if ok then drop batchSize (queue s) else queue s))"
proof -
  obtain t i where n: "nextOp e unmarshal batchSize s =
      (take batchSize rs, Some (plan s batchSize (seqs (sp_dir s)), min batchSize (length rs)), s\<lparr>sp_tick := t, pending := i\<rparr>)"
    using next_ok[OF assms] by blast
  have empty: "take batchSize rs = [] \<longleftrightarrow> rs = []"
    by (simp add: batchSize_def)
  let ?s1 = "s\<lparr>sp_tick := t, pending := i\<rparr>" and ?u = "droppedUnacked s"
  obtain s2 where s2: "(if ?u > 0 then ackDropped e ?u ?s1 else ?s1) = s2" "spool_wf s2" "queue s2 = queue s"
    "seqs (sp_dir s2) = seqs (sp_dir s)" "\<And>q. seg_queue s2 q = seg_queue s q" "seg_start s2 = seg_start s"
    "activeSeq s2 = activeSeq s" "droppedTotal s2 = droppedTotal s" "nextSeq s2 = nextSeq s"
    "maxBytes s2 = maxBytes s" "maxAge s2 = maxAge s"
  proof -
    obtain d' t' where d: "ackDropped e ?u ?s1 = ?s1\<lparr>droppedUnacked := ?u - min ?u ?u,
        droppedAcked := min (droppedAcked s + min ?u ?u) (droppedTotal s), sp_dir := d', sp_tick := t'\<rparr>" "same_segs (sp_dir s) d'"
      using ackDropped_ok[OF nf, of ?u ?s1] by auto
    let ?f = "s\<lparr>pending := i, droppedUnacked := 0, droppedAcked := min (droppedAcked s + ?u) (droppedTotal s)\<rparr>"
    have "ackDropped e ?u ?s1 = ?f\<lparr>sp_dir := d', sp_tick := t'\<rparr>"
      using d(1) by simp
    moreover have "spool_wf (?f\<lparr>sp_dir := d', sp_tick := t'\<rparr>)" "queue (?f\<lparr>sp_dir := d', sp_tick := t'\<rparr>) = queue s"
      using d(2) wf same_segs_wf[of ?f d' t'] same_segs_queue[of ?f d' t'] by simp_all
    ultimately show ?thesis
      using that d(2) wf
      by (cases "?u > 0") (auto simp: same_segs_def seg_queue_def seg_start_def fun_eq_iff)
  qed
  have plan: "plan s batchSize (seqs (sp_dir s)) = plan s2 batchSize (seqs (sp_dir s2))"
    using s2 by (metis plan_cong)
  obtain s3 where s3: "ack e (Some (plan s2 batchSize (seqs (sp_dir s2)), min batchSize (length rs))) s2 = ([], s3)"
    "spool_wf s3" "queue s3 = drop batchSize (queue s)" "same_account s2 s3" "nextSeq s3 = nextSeq s2"
    using ack_ok[OF nf s2(2)] s2(3) by metis
  show ?thesis
    using n empty s2 s3 plan wf
    by (auto simp: push_turn_def dropped_def same_account_def)
qed

lemma decodable_drop: "map f xs = map Some rs \<Longrightarrow> map f (drop k xs) = map Some (drop k rs)"
  by (simp add: drop_map flip: drop_map)

lemma drain_ok:
  assumes nf: "no_faults e" and wf: "spool_wf s" and um: "map unmarshal (queue s) = map Some rs"
  shows "\<exists>as b s'. drain e unmarshal oks backoff s = (as, b, s') \<and> spool_wf s'
    \<and> accepted_results as = take (batchSize * length (takeWhile (\<lambda>ok. ok) oks)) rs
    \<and> queue s' = drop (batchSize * length (takeWhile (\<lambda>ok. ok) oks)) (queue s) \<and> droppedTotal s' = droppedTotal s"
  using wf um
proof (induction oks arbitrary: backoff s rs)
  case Nil
  then show ?case by (simp add: accepted_results_def)
next
  case (Cons ok oks)
  obtain a s1 where t: "push_turn e unmarshal ok s = (a, s1)" "spool_wf s1" "droppedTotal s1 = droppedTotal s"
    "if rs = [] then a = None \<and> queue s1 = queue s
     else a = Some \<lparr>pa_results = take batchSize rs, pa_total = droppedTotal s, pa_unacked = droppedUnacked s\<rparr>
       \<and> queue s1 = (if ok then drop batchSize (queue s) else queue s)"
    using push_turn_ok[OF nf Cons.prems] by blast
  consider (empty) "rs = []" | (fail) "rs \<noteq> []" "\<not> ok" | (more) "rs \<noteq> []" "ok"
    by blast
  then show ?case
  proof cases
    case empty
    then have "queue s = []" using Cons.prems(2) by simp
    with empty t show ?thesis by (auto simp: accepted_results_def)
  next
    case fail
    with t show ?thesis by (auto simp: accepted_results_def)
  next
    case more
    then have q1: "queue s1 = drop batchSize (queue s)" and a: "a = Some \<lparr>pa_results = take batchSize rs,
        pa_total = droppedTotal s, pa_unacked = droppedUnacked s\<rparr>"
      using t(4) by simp_all
    have "map unmarshal (queue s1) = map Some (drop batchSize rs)"
      using Cons.prems(2) by (simp add: q1 flip: drop_map)
    from Cons.IH[OF t(2) this, of backoffMin] obtain as b s' where
      IH: "drain e unmarshal oks backoffMin s1 = (as, b, s')" "spool_wf s'"
        "accepted_results as = take (batchSize * length (takeWhile (\<lambda>ok. ok) oks)) (drop batchSize rs)"
        "queue s' = drop (batchSize * length (takeWhile (\<lambda>ok. ok) oks)) (queue s1)" "droppedTotal s' = droppedTotal s"
      using t(3) by auto
    let ?a = "\<lparr>pa_results = take batchSize rs, pa_total = droppedTotal s, pa_unacked = droppedUnacked s\<rparr>"
    have run: "drain e unmarshal (ok # oks) backoff s = ((?a, True) # as, b, s')"
      using t(1) a IH(1) more by simp
    have "accepted_results ((?a, True) # as) = take batchSize rs @ accepted_results as"
      by (simp add: accepted_results_def)
    with IH more q1 run show ?thesis
      by (simp add: take_add add.commute)
  qed
qed

lemma push_turn_fields:
  assumes "push_turn e unmarshal ok s = (Some a, s')"
  shows "pa_results a \<noteq> []"
  using assms by (auto simp: push_turn_def Let_def split: prod.splits if_splits)

lemma drain_backoff:
  assumes "drain e unmarshal oks backoff s = (as, b, s')" "backoffMin \<le> backoff" "backoff \<le> backoffMax"
  shows "backoffMin \<le> b \<and> b \<le> backoffMax"
  using assms
  by (induction oks arbitrary: backoff s as)
    (auto simp: backoffMin_def backoffMax_def split: prod.splits option.splits if_splits)

section \<open>The outbox contract\<close>

datatype 'r event = Produce 'r | Push bool

text \<open>
  A history of the agent: results produced by the scheduler and turns of the push loop, in any
  order. \<open>pipeline\<close> gives what the server accepted and the final state.
\<close>

fun pipeline :: "('r \<Rightarrow> 's \<Rightarrow> 's) \<Rightarrow> (bool \<Rightarrow> 's \<Rightarrow> 'r list \<times> 's) \<Rightarrow> 'r event list \<Rightarrow> 's \<Rightarrow> 'r list \<times> 's" where
  "pipeline put turn [] s = ([], s)"
| "pipeline put turn (Produce r # evs) s = pipeline put turn evs (put r s)"
| "pipeline put turn (Push ok # evs) s =
     (let (acc, s) = turn ok s; (acc', s) = pipeline put turn evs s in (acc @ acc', s))"

fun produced :: "'r event list \<Rightarrow> 'r list" where
  "produced [] = []"
| "produced (Produce r # evs) = r # produced evs"
| "produced (Push ok # evs) = produced evs"

locale outbox =
  fixes inv :: "'s \<Rightarrow> bool"
    and content :: "'s \<Rightarrow> 'r list"
    and lost :: "'s \<Rightarrow> u64"
    and room :: "'s \<Rightarrow> nat"
    and put :: "'r \<Rightarrow> 's \<Rightarrow> 's"
    and turn :: "bool \<Rightarrow> 's \<Rightarrow> 'r list \<times> 's"
  assumes put_law: "\<And>r s. inv s \<Longrightarrow> 0 < room s \<Longrightarrow>
      inv (put r s) \<and> room s \<le> Suc (room (put r s)) \<and> subseq (content (put r s)) (content s @ [r])
      \<and> (\<exists>n. lost (put r s) = lost s + word_of_nat n \<and> Suc (length (content s)) \<le> length (content (put r s)) + n)"
    and turn_law: "\<And>ok s acc s'. inv s \<Longrightarrow> turn ok s = (acc, s') \<Longrightarrow>
      inv s' \<and> room s' = room s \<and> lost s' = lost s \<and> acc @ content s' = content s"
begin

lemma pipeline_conserves:
  assumes "inv s" "length (produced evs) \<le> room s" "pipeline put turn evs s = (acc, s')"
  shows "inv s' \<and> subseq (acc @ content s') (content s @ produced evs)
    \<and> (\<exists>n. lost s' = lost s + word_of_nat n
         \<and> length (content s @ produced evs) \<le> length (acc @ content s') + n)"
  using assms
proof (induction evs arbitrary: s acc)
  case Nil
  then show ?case by (auto intro!: exI[of _ 0])
next
  case (Cons ev evs)
  show ?case
  proof (cases ev)
    case (Produce r)
    let ?s = "put r s"
    have p: "inv ?s" "room s \<le> Suc (room ?s)" "subseq (content ?s) (content s @ [r])"
      using put_law[of s r] Cons.prems Produce by auto
    obtain n where n: "lost ?s = lost s + word_of_nat n" "Suc (length (content s)) \<le> length (content ?s) + n"
      using put_law[of s r] Cons.prems Produce by auto
    have "length (produced evs) \<le> room ?s" "pipeline put turn evs ?s = (acc, s')"
      using Cons.prems Produce p(2) by simp_all
    from Cons.IH[OF p(1) this] obtain m where
      IH: "inv s'" "subseq (acc @ content s') (content ?s @ produced evs)" "lost s' = lost ?s + word_of_nat m"
        "length (content ?s @ produced evs) \<le> length (acc @ content s') + m"
      by blast
    have "subseq (content ?s @ produced evs) ((content s @ [r]) @ produced evs)"
      using p(3) by (simp only: list_emb_append_mono subseq_order.order_refl)
    then have "subseq (acc @ content s') (content s @ produced (ev # evs))"
      using IH(2) Produce by (simp add: subseq_order.order_trans)
    then show ?thesis
      using IH n Produce by (auto intro!: exI[of _ "n + m"])
  next
    case (Push ok)
    obtain a1 s1 where t: "turn ok s = (a1, s1)" by (metis surj_pair)
    obtain a2 where r: "pipeline put turn evs s1 = (a2, s')" "acc = a1 @ a2"
      using Cons.prems(3) Push t by (auto split: prod.splits)
    have l: "inv s1" "room s1 = room s" "lost s1 = lost s" "content s = a1 @ content s1"
      using turn_law[OF Cons.prems(1) t] by simp_all
    from Cons.IH[OF l(1) _ r(1)] Cons.prems(2) Push l(2) obtain m where
      "inv s'" "subseq (a2 @ content s') (content s1 @ produced evs)" "lost s' = lost s1 + word_of_nat m"
        "length (content s1 @ produced evs) \<le> length (a2 @ content s') + m"
      by auto
    then show ?thesis
      using l r(2) Push by (auto intro!: exI[of _ m] list_emb_append_mono)
  qed
qed

end

section \<open>The spool is an outbox\<close>

definition agent_put :: "spool_env \<Rightarrow> ('r \<Rightarrow> byte list option) \<Rightarrow> 'r \<Rightarrow> spool \<Rightarrow> spool" where
  "agent_put e marshal r s = snd (append e marshal r s)"

definition agent_turn :: "spool_env \<Rightarrow> (byte list \<Rightarrow> 'r option) \<Rightarrow> bool \<Rightarrow> spool \<Rightarrow> 'r list \<times> spool" where
  "agent_turn e unmarshal ok s =
     (case push_turn e unmarshal ok s of
        (None, s) \<Rightarrow> ([], s)
      | (Some a, s) \<Rightarrow> (if ok then pa_results a else [], s))"

text \<open>The records a spool still holds, as the reader decodes them; segment numbers left.\<close>

definition decodable :: "(byte list \<Rightarrow> 'r option) \<Rightarrow> spool \<Rightarrow> bool" where
  "decodable unmarshal s \<longleftrightarrow> spool_wf s \<and> list_all (\<lambda>p. unmarshal p \<noteq> None) (queue s)"

definition contents :: "(byte list \<Rightarrow> 'r option) \<Rightarrow> spool \<Rightarrow> 'r list" where
  "contents unmarshal s = map (\<lambda>p. the (unmarshal p)) (queue s)"

definition seqs_left :: "spool \<Rightarrow> nat" where
  "seqs_left s = 2 ^ 64 - 1 - unat (nextSeq s)"

lemma decodable_contents:
  "decodable unmarshal s \<Longrightarrow> map unmarshal (queue s) = map Some (contents unmarshal s)"
  by (auto simp: decodable_def contents_def list_all_iff)

lemma dropUnspoolable_ok:
  assumes "no_faults e"
  shows "\<exists>d' t. dropUnspoolable e s = (None, s\<lparr>droppedTotal := droppedTotal s + 1, droppedUnacked := droppedUnacked s + 1,
      sp_dir := d', sp_tick := t\<rparr>) \<and> same_segs (sp_dir s) d'"
  using persistDropCounters_ok[OF assms, of "s\<lparr>droppedTotal := droppedTotal s + 1, droppedUnacked := droppedUnacked s + 1\<rparr>"]
  by (auto simp: dropUnspoolable_def)

text \<open>\<open>Append\<close>: either the record joins the queue (whose head may be cut, and charged), or it is counted as dropped.\<close>

lemma append_ok:
  assumes nf: "no_faults e" and wf: "spool_wf s" and seq: "nextSeq s \<noteq> - 1"
  shows "\<exists>s' k n. append e marshal r s = (None, s') \<and> spool_wf s' \<and> charged n s s'
    \<and> (nextSeq s' = nextSeq s \<or> nextSeq s' = nextSeq s + 1)
    \<and> (case marshal r of
         None \<Rightarrow> queue s' = queue s \<and> n = 1
       | Some p \<Rightarrow>
           if length p > maxRecordBytes - recordOverhead then queue s' = queue s \<and> n = 1
           else queue s' = drop k (queue s @ [p]) \<and> k \<le> length (queue s) + 1 \<and> k \<le> n)"
proof -
  let ?f = "s\<lparr>droppedTotal := droppedTotal s + 1, droppedUnacked := droppedUnacked s + 1\<rparr>"
  obtain d' t where d: "dropUnspoolable e s = (None, ?f\<lparr>sp_dir := d', sp_tick := t\<rparr>)" "same_segs (sp_dir ?f) d'"
    using dropUnspoolable_ok[OF nf, of s] by auto
  let ?s = "?f\<lparr>sp_dir := d', sp_tick := t\<rparr>"
  have drop: "spool_wf ?s" "queue ?s = queue s" "charged 1 s ?s" "nextSeq ?s = nextSeq s"
    using same_segs_wf[OF d(2)] same_segs_queue[OF d(2)] wf by (simp_all add: charged_def)
  show ?thesis
  proof (cases "marshal r")
    case None
    then show ?thesis
      using d(1) drop by (auto simp: append_def)
  next
    case (Some p)
    show ?thesis
    proof (cases "length p > maxRecordBytes - recordOverhead")
      case True
      then show ?thesis
        using d(1) drop Some by (auto simp: append_def)
    next
      case False
      then have "length p \<le> maxRecordBytes" by (simp add: maxRecordBytes_def recordOverhead_def)
      from appendPayload_ok[OF nf wf seq this] Some False show ?thesis
        by (auto simp: append_def)
    qed
  qed
qed

lemma seqs_left_pos: "0 < seqs_left s \<longleftrightarrow> nextSeq s \<noteq> - 1"
proof -
  have "unat (nextSeq s) = 2 ^ 64 - 1 \<longleftrightarrow> nextSeq s = - 1"
    using unat_max64 by (metis word_unat_eq_iff)
  then show ?thesis
    using unat_lt64[of "nextSeq s"] by (auto simp: seqs_left_def)
qed

lemma seqs_left_next:
  assumes "nextSeq s' = nextSeq s \<or> nextSeq s' = nextSeq s + 1" "nextSeq s \<noteq> - 1"
  shows "seqs_left s \<le> Suc (seqs_left s')"
proof -
  have "unat (nextSeq s + 1) = unat (nextSeq s) + 1"
    using assms(2) seqs_left_pos[of s] by (intro unat_plus_no_overflow[THEN trans]) (auto simp: seqs_left_def)
  with assms(1) show ?thesis by (auto simp: seqs_left_def)
qed

lemma agent_put_law:
  assumes nf: "no_faults e" and codec: "\<And>r p. marshal r = Some p \<Longrightarrow> unmarshal p = Some r"
    and inv: "decodable unmarshal s" and room: "0 < seqs_left s"
  shows "decodable unmarshal (agent_put e marshal r s) \<and> seqs_left s \<le> Suc (seqs_left (agent_put e marshal r s))
    \<and> subseq (contents unmarshal (agent_put e marshal r s)) (contents unmarshal s @ [r])
    \<and> (\<exists>n. droppedTotal (agent_put e marshal r s) = droppedTotal s + word_of_nat n
         \<and> Suc (length (contents unmarshal s)) \<le> length (contents unmarshal (agent_put e marshal r s)) + n)"
proof -
  have wf: "spool_wf s" and dec: "list_all (\<lambda>p. unmarshal p \<noteq> None) (queue s)"
    using inv by (simp_all add: decodable_def)
  have seq: "nextSeq s \<noteq> - 1"
    using room by (simp add: seqs_left_pos)
  obtain s' k n where a: "append e marshal r s = (None, s')" "spool_wf s'" "charged n s s'"
    "nextSeq s' = nextSeq s \<or> nextSeq s' = nextSeq s + 1"
    "case marshal r of
         None \<Rightarrow> queue s' = queue s \<and> n = 1
       | Some p \<Rightarrow>
           if length p > maxRecordBytes - recordOverhead then queue s' = queue s \<and> n = 1
           else queue s' = drop k (queue s @ [p]) \<and> k \<le> length (queue s) + 1 \<and> k \<le> n"
    using append_ok[OF nf wf seq, of marshal r] by (elim exE conjE) (rule that)
  have put: "agent_put e marshal r s = s'"
    using a(1) by (simp add: agent_put_def)
  consider (lost) "queue s' = queue s" "n = 1" | (kept) p where "marshal r = Some p" "queue s' = drop k (queue s @ [p])"
    "k \<le> length (queue s) + 1" "k \<le> n"
  proof (cases "marshal r")
    case None
    with a(5) lost show ?thesis by simp
  next
    case (Some p)
    with a(5) lost kept show ?thesis by (cases "length p > maxRecordBytes - recordOverhead") simp_all
  qed
  then show ?thesis
  proof cases
    case lost
    then show ?thesis
      using put a dec seqs_left_next[OF a(4) seq]
      by (auto simp: decodable_def contents_def charged_def intro!: exI[of _ 1] list_emb_prefix)
  next
    case kept
    have c: "contents unmarshal s' = drop k (contents unmarshal s @ [r])"
      unfolding contents_def kept(2) drop_map[symmetric] using codec[OF kept(1)] by simp
    have "list_all (\<lambda>p. unmarshal p \<noteq> None) (queue s')"
      using kept(2) dec codec[OF kept(1)] by (auto simp: list_all_iff dest: in_set_dropD)
    moreover have "subseq (contents unmarshal s') (contents unmarshal s @ [r])"
      unfolding c by (metis append_take_drop_id list_emb_append2 subseq_order.order_refl)
    ultimately show ?thesis
      using put a c kept seqs_left_next[OF a(4) seq]
      by (auto simp: decodable_def charged_def contents_def intro!: exI[of _ n])
  qed
qed

lemma agent_turn_law:
  assumes nf: "no_faults e" and inv: "decodable unmarshal s" and run: "agent_turn e unmarshal ok s = (acc, s')"
  shows "decodable unmarshal s' \<and> seqs_left s' = seqs_left s \<and> droppedTotal s' = droppedTotal s
    \<and> acc @ contents unmarshal s' = contents unmarshal s"
proof -
  have wf: "spool_wf s" using inv by (simp add: decodable_def)
  obtain a s1 where t: "push_turn e unmarshal ok s = (a, s1)" "spool_wf s1" "nextSeq s1 = nextSeq s"
    "droppedTotal s1 = droppedTotal s"
    "if contents unmarshal s = [] then a = None \<and> queue s1 = queue s
     else a = Some \<lparr>pa_results = take batchSize (contents unmarshal s), pa_total = droppedTotal s, pa_unacked = droppedUnacked s\<rparr>
       \<and> queue s1 = (if ok then drop batchSize (queue s) else queue s)"
    using push_turn_ok[OF nf wf decodable_contents[OF inv]] by blast
  have "s' = s1" and "acc @ contents unmarshal s' = contents unmarshal s"
    using run t by (auto simp: agent_turn_def contents_def simp flip: drop_map take_map split: if_splits)
  moreover have "list_all (\<lambda>p. unmarshal p \<noteq> None) (queue s1)"
    using inv t(5) by (auto simp: decodable_def list_all_iff split: if_splits dest: in_set_dropD)
  ultimately show ?thesis
    using t by (auto simp: decodable_def seqs_left_def)
qed

lemma spool_outbox:
  assumes "no_faults e" "\<And>r p. marshal r = Some p \<Longrightarrow> unmarshal p = Some r"
  shows "outbox (decodable unmarshal) (contents unmarshal) droppedTotal seqs_left (agent_put e marshal) (agent_turn e unmarshal)"
  by unfold_locales (rule agent_put_law[OF assms] agent_turn_law[OF assms(1)]; assumption)+

text \<open>The spool on its wire form: a result is its marshalled bytes.\<close>

definition calm :: "gtime \<Rightarrow> spool_env" where
  "calm now = \<lparr>e_now = now, e_ok = (\<lambda>_. True), e_part = (\<lambda>_. 0)\<rparr>"

lemma calm_no_faults [simp]: "no_faults (calm now)"
  by (simp add: no_faults_def calm_def)

interpretation wire: outbox "decodable Some" "contents Some" droppedTotal seqs_left
  "agent_put (calm now) Some" "agent_turn (calm now) Some" for now
  by (rule spool_outbox) simp_all

end
