(* ===== verification/Spool_Correct.thy ===== *)
theory Spool_Correct
  imports Pusher
begin

text \<open>
  The properties of the spool and of the push loop that drains it. Those about a run without
  faults are stated over \<open>queue\<close>; those about faults and crashes hold for every environment.
\<close>

section \<open>Faults in the middle of an operation\<close>

lemma write_active_any:
  assumes "canon (sp_dir s)" "activeSeq s \<in> set (seqs (sp_dir s))"
  shows "\<exists>d' j. snd (write_active e bs s) = s\<lparr>sp_dir := d', sp_tick := Suc (sp_tick s)\<rparr>
    \<and> grown (sp_dir s) (activeSeq s) (take j bs) d'
    \<and> (fst (write_active e bs s) = None \<longrightarrow> take j bs = bs)"
proof -
  let ?j = "if e_ok e (sp_tick s) then length bs else e_part e (sp_tick s)"
  let ?d = "append_file (seg_name (activeSeq s)) (take ?j bs) (e_now e) (sp_dir s)"
  have "snd (write_active e bs s) = s\<lparr>sp_dir := ?d, sp_tick := Suc (sp_tick s)\<rparr>"
    "fst (write_active e bs s) = None \<longrightarrow> take ?j bs = bs"
    by (simp_all add: write_active_def io_try_def Let_def)
  with grown_append_file[OF assms, of "take ?j bs" "e_now e"] show ?thesis
    by (intro exI[of _ ?d] exI[of _ ?j] conjI)
qed

lemma write_record_any:
  assumes "canon (sp_dir s)" "activeSeq s \<in> set (seqs (sp_dir s))"
  shows "\<exists>d' j t. snd (write_record e p s) = s\<lparr>sp_dir := d', sp_tick := t\<rparr>
    \<and> grown (sp_dir s) (activeSeq s) (take j (encode_record p)) d'"
proof -
  let ?q = "activeSeq s" and ?h = "put_uint32 (word_of_nat (length p))" and ?c = "put_uint32 (checksum_ieee p)"
  have enc: "encode_record p = ?h @ p @ ?c" by (simp add: encode_record_def)
  obtain d1 j1 where 1: "snd (write_active e ?h s) = s\<lparr>sp_dir := d1, sp_tick := Suc (sp_tick s)\<rparr>"
    "grown (sp_dir s) ?q (take j1 ?h) d1" "fst (write_active e ?h s) = None \<longrightarrow> take j1 ?h = ?h"
    using write_active_any[OF assms] by blast
  let ?s1 = "s\<lparr>sp_dir := d1, sp_tick := Suc (sp_tick s)\<rparr>"
  obtain d2 j2 where 2: "snd (write_active e p ?s1) = ?s1\<lparr>sp_dir := d2, sp_tick := Suc (Suc (sp_tick s))\<rparr>"
    "grown d1 ?q (take j2 p) d2" "fst (write_active e p ?s1) = None \<longrightarrow> take j2 p = p"
    using write_active_any[of ?s1 e p] 1(2) assms by (auto simp: grown_def)
  let ?s2 = "?s1\<lparr>sp_dir := d2, sp_tick := Suc (Suc (sp_tick s))\<rparr>"
  obtain d3 j3 where 3: "snd (write_active e ?c ?s2) = ?s2\<lparr>sp_dir := d3, sp_tick := Suc (Suc (Suc (sp_tick s)))\<rparr>"
    "grown d2 ?q (take j3 ?c) d3"
    using write_active_any[of ?s2 e ?c] 1(2) 2(2) assms by (auto simp: grown_def)
  show ?thesis
  proof (cases "fst (write_active e ?h s)")
    case (Some err)
    then have "snd (write_record e p s) = ?s1"
      using 1(1) by (cases "write_active e ?h s") (simp add: write_record_def and_then_def)
    moreover have "take (min j1 4) (encode_record p) = take j1 ?h"
      by (simp add: enc min_def)
    ultimately show ?thesis
      using 1(2) by metis
  next
    case None
    then have r1: "write_active e ?h s = (None, ?s1)" and h: "take j1 ?h = ?h"
      using 1 by (auto simp: prod_eq_iff)
    show ?thesis
    proof (cases "fst (write_active e p ?s1)")
      case (Some err)
      then have "snd (write_record e p s) = ?s2"
        using r1 2(1) by (cases "write_active e p ?s1") (simp add: write_record_def and_then_def)
      moreover have "take (4 + min j2 (length p)) (encode_record p) = ?h @ take j2 p"
        by (simp add: enc min_def)
      ultimately show ?thesis
        using grown_trans[OF 1(2) 2(2)] h
        by (intro exI[of _ d2] exI[of _ "4 + min j2 (length p)"] exI[of _ "Suc (Suc (sp_tick s))"]) simp
    next
      case None
      then have r2: "write_active e p ?s1 = (None, ?s2)" and b: "take j2 p = p"
        using 2 by (auto simp: prod_eq_iff)
      have "snd (write_record e p s) = ?s2\<lparr>sp_dir := d3, sp_tick := Suc (Suc (Suc (sp_tick s)))\<rparr>"
        using r1 r2 3(1) by (simp add: write_record_def)
      moreover have "take (4 + length p + j3) (encode_record p) = ?h @ p @ take j3 ?c"
        by (simp add: enc)
      ultimately show ?thesis
        using grown_trans[OF grown_trans[OF 1(2) 2(2)] 3(2)] h b
        by (intro exI[of _ d3] exI[of _ "4 + length p + j3"] exI[of _ "Suc (Suc (Suc (sp_tick s)))"]) simp
    qed
  qed
qed

lemma payloads_torn:
  assumes "whole bs" "length p \<le> maxRecordBytes"
  shows "payloads (bs @ take j (encode_record p)) = payloads bs @ (if j < rec_size p then [] else [p])"
proof (cases "j < rec_size p")
  case True
  have "read_frame (take j (encode_record p)) \<noteq> Frame x r" for x r
    using read_frame_take[OF _ True assms(2)] by (cases "j = 0") auto
  then have "payloads (take j (encode_record p)) = []"
    by (rule payloads_bad)
  then show ?thesis
    using True assms(1) by (simp add: whole_append)
next
  case False
  then show ?thesis
    using assms whole_record[OF assms(2)] by (simp add: whole_append)
qed

lemma grown_dir_queue:
  assumes wf: "spool_wf s" and act: "active s" and fit: "length p \<le> maxRecordBytes"
    and g: "grown (sp_dir s) (activeSeq s) (take j (encode_record p)) d'"
  shows "dir_queue d' = dir_queue (sp_dir s) @ (if j < rec_size p then [] else [p])"
proof -
  let ?q = "activeSeq s"
  have mem: "?q \<in> set (seqs (sp_dir s))"
    using wf act by (simp add: spool_wf_def)
  obtain qs where qs: "seqs (sp_dir s) = qs @ [?q]" "?q \<notin> set qs"
    using spool_wf_active_max[OF wf mem] by blast
  have w: "whole (seg_bytes (sp_dir s) ?q)"
    using boundary_whole[OF spool_wf_D(2)[OF wf mem]] .
  have "map (\<lambda>q. payloads (seg_bytes d' q)) qs = map (\<lambda>q. payloads (seg_bytes (sp_dir s) q)) qs"
    using g qs(2) by (auto simp: grown_def)
  then show ?thesis
    using g qs payloads_torn[OF w fit, of j] by (simp add: dir_queue_def grown_def cong: map_cong)
qed

text \<open>Writing a sidecar is atomic: whatever fails, the file is the old one or the new one.\<close>

lemma persistFile_atomic:
  assumes "m \<noteq> n @ ''.tmp''"
  shows "map_of (sp_dir (snd (persistFileLocked e n c s))) m =
    (if m = n \<and> fst (persistFileLocked e n c s) = None
     then Some \<lparr>f_data = bytes_of_string c, f_mod = e_now e\<rparr> else map_of (sp_dir s) m)"
  using assms by (simp add: persistFileLocked_def io_try_def Let_def map_of_dir_put map_of_dir_del)

lemma persistFile_counters [simp]:
  "droppedTotal (snd (persistFileLocked e n c s)) = droppedTotal s"
  "droppedAcked (snd (persistFileLocked e n c s)) = droppedAcked s"
  "droppedUnacked (snd (persistFileLocked e n c s)) = droppedUnacked s"
  by (simp_all add: persistFileLocked_def io_try_def Let_def)

lemma persistDrop_counters [simp]: "counters (snd (persistDropCountersLocked e s)) = counters s"
proof -
  let ?p = "persistFileLocked e droppedFile (format_uint (unat (droppedUnacked s))) s"
  obtain r s1 where 1: "?p = (r, s1)"
    by (metis surj_pair)
  moreover have "counters (snd ?p) = counters s"
    by (simp add: counters_def)
  ultimately show ?thesis
    by (cases r) (simp_all add: persistDropCountersLocked_def persistCounterLocked_def and_then_def counters_def)
qed

lemma persist_states:
  obtains (none) "sidecars (sp_dir (snd (persistDropCountersLocked e s))) = sidecars (sp_dir s)"
  | (first) "sidecars (sp_dir (snd (persistDropCountersLocked e s))) = (Some (droppedUnacked s), snd (sidecars (sp_dir s)))"
  | (both) "sidecars (sp_dir (snd (persistDropCountersLocked e s))) =
      (Some (droppedUnacked s), Some (droppedTotal s, droppedAcked s))"
proof -
  have neq: "droppedFile \<noteq> droppedStateFile" "droppedFile \<noteq> droppedFile @ ''.tmp''" "droppedStateFile \<noteq> droppedFile @ ''.tmp''"
    "droppedFile \<noteq> droppedStateFile @ ''.tmp''" "droppedStateFile \<noteq> droppedStateFile @ ''.tmp''"
    by (simp_all add: droppedFile_def droppedStateFile_def)
  let ?r1 = "persistCounterLocked e droppedFile (droppedUnacked s) s"
  obtain r1 s1 where r1: "?r1 = (r1, s1)" by (metis surj_pair)
  have s1: "snd ?r1 = s1" "fst ?r1 = r1" "droppedTotal s1 = droppedTotal s" "droppedAcked s1 = droppedAcked s"
    using r1 by (auto simp: persistCounterLocked_def dest!: arg_cong[where f = snd])
  have f1: "map_of (sp_dir s1) droppedStateFile = map_of (sp_dir s) droppedStateFile"
    "map_of (sp_dir s1) droppedFile = (if r1 = None
       then Some \<lparr>f_data = bytes_of_string (format_uint (unat (droppedUnacked s))), f_mod = e_now e\<rparr>
       else map_of (sp_dir s) droppedFile)"
    using neq s1(1,2) persistFile_atomic[of _ droppedFile e "format_uint (unat (droppedUnacked s))" s]
    by (auto simp: persistCounterLocked_def)
  show thesis
  proof (cases r1)
    case (Some err)
    then show thesis
      using none r1 f1 by (simp add: persistDropCountersLocked_def and_then_def sidecars_def)
  next
    case None
    let ?c = "droppedState_text (droppedTotal s) (droppedAcked s)"
    let ?r2 = "persistFileLocked e droppedStateFile ?c s1"
    have run: "persistDropCountersLocked e s = ?r2"
      using r1 None s1 by (simp add: persistDropCountersLocked_def)
    have f2: "map_of (sp_dir (snd ?r2)) droppedFile = map_of (sp_dir s1) droppedFile"
      "map_of (sp_dir (snd ?r2)) droppedStateFile = (if fst ?r2 = None
         then Some \<lparr>f_data = bytes_of_string ?c, f_mod = e_now e\<rparr> else map_of (sp_dir s1) droppedStateFile)"
      using neq persistFile_atomic[of _ droppedStateFile e ?c s1] by auto
    show thesis
      using first both f1 f2 None by (cases "fst ?r2 = None") (simp_all add: run sidecars_def)
  qed
qed

section \<open>Properties\<close>

lemma fresh_wf [simp]: "spool_wf (fresh_spool [] mb ma)"
  by (simp add: spool_wf_def fresh_spool_def canon_def seqs_def list_segments_def List.map_filter_def)

lemma fresh_queue [simp]: "queue (fresh_spool [] mb ma) = []"
  by (simp add: queue_def fresh_spool_def seqs_def list_segments_def List.map_filter_def)

lemma fresh_fields [simp]:
  "nextSeq (fresh_spool d mb ma) = 1" "droppedTotal (fresh_spool d mb ma) = 0" "sp_dir (fresh_spool d mb ma) = d"
  by (simp_all add: fresh_spool_def)

text \<open>
  C2: \<open>Append\<close>. When no system call fails, appending a record to a well-formed spool succeeds and
  keeps it well formed. A record that cannot be marshalled or is too large is counted as one
  drop and the queue is untouched; any other record is added at the end of the queue. Bounds
  enforcement may cut \<open>k\<close> records from the front, and then charges at least \<open>k\<close> to the loss counters.
\<close>

theorem append_enqueues:
  assumes "no_faults e" "spool_wf s" "nextSeq s \<noteq> - 1"
  shows "\<exists>s' k n. append e marshal r s = (None, s') \<and> spool_wf s'
    \<and> droppedTotal s' = droppedTotal s + word_of_nat n \<and> droppedUnacked s' = droppedUnacked s + word_of_nat n
    \<and> droppedAcked s' = droppedAcked s
    \<and> (case marshal r of
         None \<Rightarrow> queue s' = queue s \<and> n = 1
       | Some p \<Rightarrow>
           if length p > maxRecordBytes - recordOverhead then queue s' = queue s \<and> n = 1
           else queue s' = drop k (queue s @ [p]) \<and> k \<le> length (queue s) + 1 \<and> k \<le> n)"
  using append_ok[OF assms, of marshal r] unfolding charged_def by blast

theorem append_enqueues_witness:
  "\<exists>s' k n. append (calm 0) (\<lambda>r. Some [r]) 7 (fresh_spool [] 1000000 max_duration) = (None, s') \<and> spool_wf s'
    \<and> queue s' = drop k [[7]] \<and> k \<le> n \<and> droppedTotal s' = word_of_nat n"
  using append_enqueues[of "calm 0" "fresh_spool [] 1000000 max_duration" "\<lambda>r. Some [r]" 7]
  by (auto simp: maxRecordBytes_def recordOverhead_def)

text \<open>
  C2: \<open>Next\<close> and its acknowledgement. \<open>Next k\<close> returns the \<open>k\<close> oldest records that are not yet
  acknowledged, in order, and removes nothing. Running the acknowledgement it returned removes
  exactly those records, reports no error and leaves the loss counters alone.
\<close>

theorem next_then_ack:
  assumes "no_faults e" "spool_wf s" "map unmarshal (queue s) = map Some rs"
    and "nextOp e unmarshal k s = (out, tok, s1)"
  shows "out = take k rs \<and> queue s1 = queue s \<and> spool_wf s1
    \<and> (\<exists>s2. ack e tok s1 = ([], s2) \<and> queue s2 = drop k (queue s) \<and> spool_wf s2
          \<and> counters s2 = counters s)"
proof -
  obtain t i where n: "nextOp e unmarshal k s =
      (take k rs, Some (plan s k (seqs (sp_dir s)), min k (length rs)), s\<lparr>sp_tick := t, pending := i\<rparr>)"
    using next_ok[OF assms(1-3)] by blast
  let ?s = "s\<lparr>sp_tick := t, pending := i\<rparr>"
  have s1: "s1 = ?s" "out = take k rs" "tok = Some (plan s k (seqs (sp_dir s)), min k (length rs))"
    using n assms(4) by auto
  have "plan s k (seqs (sp_dir s)) = plan ?s k (seqs (sp_dir ?s))"
    by (simp add: plan_cong[of ?s s] seg_queue_def seg_start_def)
  with ack_ok[OF assms(1), of ?s k] s1 assms(2) show ?thesis
    by (auto simp: same_account_def counters_def)
qed

theorem next_then_ack_witness:
  "\<exists>out tok s1. nextOp (calm 0) Some 3 (fresh_spool [] 10 10) = (out, tok, s1) \<and> out = []
    \<and> (\<exists>s2. ack (calm 0) tok s1 = ([], s2) \<and> queue s2 = [])"
proof -
  obtain out tok s1 where r: "nextOp (calm 0) Some 3 (fresh_spool [] 10 10) = (out, tok, s1)"
    by (metis surj_pair)
  show ?thesis
    using next_then_ack[OF calm_no_faults fresh_wf _ r, of "[]"] r by auto
qed

text \<open>
  A failed or interrupted append. Whatever write of the record fails, and however much of
  its bytes reached the disk, the readable content of the directory is what it was before the
  append, or that plus the whole record; no earlier record is lost or altered.
\<close>

theorem torn_append_recovers:
  assumes "spool_wf s" "active s" "length p \<le> maxRecordBytes"
  shows "dir_queue (sp_dir (snd (write_record e p s))) \<in> {dir_queue (sp_dir s), dir_queue (sp_dir s) @ [p]}"
proof -
  have "canon (sp_dir s)" "activeSeq s \<in> set (seqs (sp_dir s))"
    using assms by (auto simp: spool_wf_def)
  then obtain d' j t where "snd (write_record e p s) = s\<lparr>sp_dir := d', sp_tick := t\<rparr>"
    "grown (sp_dir s) (activeSeq s) (take j (encode_record p)) d'"
    using write_record_any by blast
  then show ?thesis
    using grown_dir_queue[OF assms(1,2,3)] by simp
qed

theorem torn_append_recovers_witness:
  "\<exists>s. spool_wf s \<and> active s
    \<and> dir_queue (sp_dir (snd (write_record \<lparr>e_now = 0, e_ok = (\<lambda>n. n \<noteq> 3), e_part = (\<lambda>_. 2)\<rparr> [1, 2, 3] s)))
        \<in> {dir_queue (sp_dir s), dir_queue (sp_dir s) @ [[1, 2, 3]]}"
proof -
  obtain s where "spool_wf s" "active s"
    using openActive_ok[of "calm 0" "fresh_spool [] 10 10"] by auto
  then show ?thesis
    using torn_append_recovers[of s "[1, 2, 3]"] by (auto simp: maxRecordBytes_def)
qed





text \<open>
  Crash-atomic drop accounting. While \<open>n\<close> new drops are being persisted, a failure or crash at
  any point leaves sidecars from which \<open>Open\<close> reconstructs either the counters before the drops
  or the counters after them: a drop is never half counted.
\<close>

theorem drop_persist_atomic:
  assumes "sidecars (sp_dir s) = (Some u, Some (t, a))" "balanced t a u" "unat t + n < 2 ^ 64"
    and "counters s = (t + word_of_nat n, a, u + word_of_nat n)"
  shows "let sc = sidecars (sp_dir (snd (persistDropCountersLocked e s)))
    in fst (reconcile (fst sc) (snd sc)) \<in> {(t, a, u), (t + word_of_nat n, a, u + word_of_nat n)}"
proof -
  have c: "droppedUnacked s = u + word_of_nat n" "droppedTotal s = t + word_of_nat n" "droppedAcked s = a"
    using assms(4) by (simp_all add: counters_def)
  have n: "unat (word_of_nat n :: u64) = n"
    using assms(3) by (simp add: unat_of_nat take_bit_nat_eq_self)
  have "balanced (t + word_of_nat n) a (u + word_of_nat n)"
    unfolding balanced_def
    using balanced_D[OF assms(2)] assms(3) n by (simp add: unat_plus_no_overflow)
  then show ?thesis
    using reconcile_balanced reconcile_drop_crash[OF assms(2,3)] assms(1,2) c
    by (cases e s rule: persist_states) simp_all
qed

theorem drop_persist_atomic_witness:
  "\<exists>s. counters s = (12, 3, 9)
    \<and> (let sc = sidecars (sp_dir (snd (persistDropCountersLocked \<lparr>e_now = 0, e_ok = (\<lambda>n. n \<noteq> 2), e_part = (\<lambda>_. 0)\<rparr> s)))
       in fst (reconcile (fst sc) (snd sc)) \<in> {(10, 3, 7), (12, 3, 9)})"
proof -
  let ?f = "\<lambda>c. \<lparr>f_data = bytes_of_string c, f_mod = 0\<rparr>"
  let ?d = "[(droppedFile, ?f (format_uint (unat (7 :: u64)))), (droppedStateFile, ?f (droppedState_text 10 3))]"
  let ?s = "(fresh_spool ?d 10 10)\<lparr>droppedTotal := 12, droppedAcked := 3, droppedUnacked := 9\<rparr>"
  have 1: "sidecars (sp_dir ?s) = (Some 7, Some (10, 3))"
    using parseDropped_text[of 7] by (simp add: sidecars_def droppedFile_def droppedStateFile_def)
  have 2: "counters ?s = (10 + word_of_nat 2, 3, 7 + word_of_nat 2)"
    by (simp add: counters_def)
  show ?thesis
    using drop_persist_atomic[OF 1 _ _ 2] 2
    by (intro exI[of _ ?s]) (simp add: balanced_def)
qed

text \<open>
  Acknowledging drops. \<open>AckDropped\<close> never changes the lifetime total, moves what was reported
  (at most what is outstanding) from unacknowledged to acknowledged, and keeps the books
  balanced. A failure at any point of its two sidecar writes leaves a state from which \<open>Open\<close>
  reconstructs the counters before or after it, never an inflated total.
\<close>

theorem ack_dropped_atomic:
  assumes "sidecars (sp_dir s) = (Some u, Some (t, a))" "balanced t a u" "counters s = (t, a, u)"
  shows "counters (ackDropped e r s) = (t, a + min r u, u - min r u) \<and> balanced t (a + min r u) (u - min r u)
    \<and> (let sc = sidecars (sp_dir (ackDropped e r s))
       in fst (reconcile (fst sc) (snd sc)) \<in> {(t, a, u), (t, a + min r u, u - min r u)})"
proof -
  let ?r = "min r u"
  have c: "droppedUnacked s = u" "droppedTotal s = t" "droppedAcked s = a"
    using assms(3) by (simp_all add: counters_def)
  have rec: "reconcile (Some (u - ?r)) (Some (t, a)) = ((t, a + ?r, u - ?r), ?r \<noteq> 0)"
    using reconcile_ack_crash[OF assms(2), of ?r] by simp
  then have bal: "balanced t (a + ?r) (u - ?r)"
    by (rule reconcile_spec(1)[where sf = "Some (t, a)"]) (simp split: prod.split)
  then have le: "min (a + ?r) t = a + ?r"
    using balanced_D(1) by (simp add: min_def)
  define s' where "s' = s\<lparr>droppedUnacked := u - ?r, droppedAcked := a + ?r\<rparr>"
  have run: "ackDropped e r s = snd (persistDropCountersLocked e s')"
    using c le by (simp add: ackDropped_def Let_def s'_def)
  have "sidecars (sp_dir s') = (Some u, Some (t, a))" "droppedUnacked s' = u - ?r" "droppedTotal s' = t" "droppedAcked s' = a + ?r"
    using assms(1) c by (simp_all add: s'_def)
  then show ?thesis
    using bal rec reconcile_balanced[OF assms(2)] reconcile_balanced[OF bal]
    by (cases e s' rule: persist_states) (simp_all add: run counters_def[of s'])
qed

theorem ack_dropped_atomic_witness:
  "\<exists>s. counters s = (10, 3, 7)
    \<and> (let sc = sidecars (sp_dir (ackDropped \<lparr>e_now = 0, e_ok = (\<lambda>n. n \<noteq> 2), e_part = (\<lambda>_. 0)\<rparr> 5 s))
       in fst (reconcile (fst sc) (snd sc)) \<in> {(10, 3, 7), (10, 8, 2)})"
proof -
  let ?f = "\<lambda>c. \<lparr>f_data = bytes_of_string c, f_mod = 0\<rparr>"
  let ?d = "[(droppedFile, ?f (format_uint (unat (7 :: u64)))), (droppedStateFile, ?f (droppedState_text 10 3))]"
  let ?s = "(fresh_spool ?d 10 10)\<lparr>droppedTotal := 10, droppedAcked := 3, droppedUnacked := 7\<rparr>"
  have 1: "sidecars (sp_dir ?s) = (Some 7, Some (10, 3))"
    using parseDropped_text[of 7] by (simp add: sidecars_def droppedFile_def droppedStateFile_def)
  have 2: "balanced 10 3 7" and 3: "counters ?s = (10, 3, 7)"
    by (simp_all add: balanced_def counters_def)
  show ?thesis
    using ack_dropped_atomic[OF 1 2 3, of "\<lparr>e_now = 0, e_ok = (\<lambda>n. n \<noteq> 2), e_part = (\<lambda>_. 0)\<rparr>" 5] 3
    by (intro exI[of _ ?s]) (simp add: min_def)
qed

text \<open>
  C5: the drain loop. When the server accepts the first \<open>n\<close> pushes, the results it has accepted are
  the \<open>500 * n\<close> oldest of the spool, in order, each once, and exactly those are gone from it;
  a rejected push removes nothing. So enough accepted pushes empty the spool.
\<close>

theorem drain_delivers:
  assumes "no_faults e" "spool_wf s" "map unmarshal (queue s) = map Some rs"
  shows "\<exists>as b s'. drain e unmarshal oks backoff s = (as, b, s') \<and> spool_wf s'
    \<and> accepted_results as = take (batchSize * length (takeWhile (\<lambda>ok. ok) oks)) rs
    \<and> queue s' = drop (batchSize * length (takeWhile (\<lambda>ok. ok) oks)) (queue s)
    \<and> (length (queue s) \<le> batchSize * length (takeWhile (\<lambda>ok. ok) oks) \<longrightarrow> queue s' = [])"
  using drain_ok[OF assms, of oks backoff] by auto

theorem drain_delivers_witness:
  "\<exists>as b s'. drain (calm 0) Some [True, False, True] backoffMin (fresh_spool [] 10 10) = (as, b, s') \<and> queue s' = []"
  using drain_delivers[of "calm 0" "fresh_spool [] 10 10" Some "[]" "[True, False, True]" backoffMin] by auto



end
