(* ===== verification/Watch.thy ===== *)
theory Watch
  imports Prelude
begin

text \<open>
  The engine the two change watchers share (\<open>internal/server/pathwatch\<close> and
  \<open>internal/server/mtuwatch\<close>): the same code over different run types. The parts that differ are
  the fields of \<open>watch_ops\<close>; each package's theory fills them in with its own definitions. The
  table is a map from (agent, probe) to rows; the events of a push are returned in insertion
  order. \<open>None\<close> is the error of an upsert that applied fewer rows than it should have.
\<close>

datatype action = ActionSkip | ActionInsert | ActionRefresh | ActionChange

record ('r, 'c, 'row) watch_ops =
  w_usable :: "'r \<Rightarrow> bool"
  w_time :: "'r \<Rightarrow> gtime"
  w_probe :: "'r \<Rightarrow> uuid"
  w_decide :: "'c option \<Rightarrow> 'r \<Rightarrow> action"
  w_current :: "'r \<Rightarrow> 'c"
  w_seed :: "'r \<Rightarrow> 'row"
  w_row :: "'r \<Rightarrow> 'row"
  w_row_time :: "'row \<Rightarrow> gtime"
  w_load :: "'row \<Rightarrow> 'c"

type_synonym 'row watch_table = "uuid \<times> uuid \<rightharpoonup> 'row"

section \<open>Apply\<close>

text \<open>
  The loop over one series: the current state, the run that will be written (the last one
  applied), and the pending events with the state each one replaces.
\<close>

fun watch_series ::
  "('r, 'c, 'row) watch_ops \<Rightarrow> 'c option \<Rightarrow> 'r list \<Rightarrow> 'r option \<Rightarrow> ('r \<times> 'c) list \<Rightarrow> 'r option \<times> ('r \<times> 'c) list" where
  "watch_series W cur [] fin pending = (fin, pending)"
| "watch_series W cur (r # rs) fin pending =
     (case w_decide W cur r of
        ActionSkip \<Rightarrow> watch_series W cur rs fin pending
      | ActionChange \<Rightarrow>
          watch_series W (Some (w_current W r)) rs (Some r)
            (case cur of Some c \<Rightarrow> pending @ [(r, c)] | None \<Rightarrow> pending)
      | _ \<Rightarrow> watch_series W (Some (w_current W r)) rs (Some r) pending)"

fun watch_all ::
  "('r, 'c, 'row) watch_ops \<Rightarrow> (uuid \<Rightarrow> 'c option) \<Rightarrow> (uuid \<Rightarrow> 'r list) \<Rightarrow> uuid list \<Rightarrow> 'r list \<Rightarrow> ('r \<times> 'c) list
   \<Rightarrow> 'r list \<times> ('r \<times> 'c) list" where
  "watch_all W curs batch [] finals pending = (finals, pending)"
| "watch_all W curs batch (p # ps) finals pending =
     (let (fin, pending) = watch_series W (curs p) (batch p) None pending
      in watch_all W curs batch ps (case fin of None \<Rightarrow> finals | Some r \<Rightarrow> finals @ [r]) pending)"

definition watch_good :: "('r, 'c, 'row) watch_ops \<Rightarrow> 'r list \<Rightarrow> 'r list" where
  "watch_good W runs = filter (\<lambda>r. w_usable W r \<and> w_time W r > 0) runs"

definition watch_batch :: "('r, 'c, 'row) watch_ops \<Rightarrow> 'r list \<Rightarrow> uuid \<Rightarrow> 'r list" where
  "watch_batch W runs p = sort_key (w_time W) (filter (\<lambda>r. w_probe W r = p) (watch_good W runs))"

definition watch_probes :: "('r, 'c, 'row) watch_ops \<Rightarrow> 'r list \<Rightarrow> uuid list" where
  "watch_probes W runs = sort (remdups (map (w_probe W) (watch_good W runs)))"

text \<open>\<open>ensureCurrent\<close>: seed the missing rows, report which ones were missing.\<close>

definition watch_seed ::
  "('r, 'c, 'row) watch_ops \<Rightarrow> uuid \<Rightarrow> uuid list \<Rightarrow> 'r list \<Rightarrow> 'row watch_table \<Rightarrow> uuid set \<times> 'row watch_table" where
  "watch_seed W agent ps runs tbl =
     (let seeded = filter (\<lambda>p. tbl (agent, p) = None) ps
      in (set seeded,
          foldl (\<lambda>t p. case filter (\<lambda>r. w_probe W r = p) (watch_good W runs) of
                         [] \<Rightarrow> t | r # _ \<Rightarrow> t((agent, p) \<mapsto> w_seed W r)) tbl seeded))"

text \<open>\<open>bulkUpsertCurrent\<close> with its \<open>updated_at\<close> guard: the table and the number of rows applied.\<close>

fun watch_upsert :: "('r, 'c, 'row) watch_ops \<Rightarrow> uuid \<Rightarrow> 'r list \<Rightarrow> 'row watch_table \<Rightarrow> nat \<times> 'row watch_table" where
  "watch_upsert W agent [] tbl = (0, tbl)"
| "watch_upsert W agent (r # rs) tbl =
     (let k = (agent, w_probe W r);
          ok = (case tbl k of None \<Rightarrow> True | Some row \<Rightarrow> w_row_time W row < w_time W r);
          (n, tbl) = watch_upsert W agent rs (if ok then tbl(k \<mapsto> w_row W r) else tbl)
      in (if ok then Suc n else n, tbl))"

definition watch_apply ::
  "('r, 'c, 'row) watch_ops \<Rightarrow> uuid \<Rightarrow> 'r list \<Rightarrow> 'row watch_table \<Rightarrow> (('r \<times> 'c) list \<times> 'row watch_table) option" where
  "watch_apply W agent runs tbl =
     (if watch_good W runs = [] then Some ([], tbl)
      else
        (let ps = watch_probes W runs;
             (seeded, tbl) = watch_seed W agent ps runs tbl;
             curs = (\<lambda>p. if p \<in> seeded then None else map_option (w_load W) (tbl (agent, p)));
             (finals, pending) = watch_all W curs (watch_batch W runs) ps [] [];
             (n, tbl) = watch_upsert W agent finals tbl
         in if n = length finals then Some (pending, tbl) else None))"

section \<open>The specification: one run at a time\<close>

definition watch_one ::
  "('r, 'c, 'row) watch_ops \<Rightarrow> uuid \<Rightarrow> 'r \<Rightarrow> ('r \<times> 'c) list \<times> 'row watch_table \<Rightarrow> ('r \<times> 'c) list \<times> 'row watch_table" where
  "watch_one W agent r s =
     (let (events, tbl) = s; k = (agent, w_probe W r)
      in case w_decide W (map_option (w_load W) (tbl k)) r of
           ActionSkip \<Rightarrow> (events, tbl)
         | ActionChange \<Rightarrow>
             (case tbl k of
                None \<Rightarrow> (events, tbl)
              | Some row \<Rightarrow> (events @ [(r, w_load W row)], tbl(k \<mapsto> w_row W r)))
         | _ \<Rightarrow> (events, tbl(k \<mapsto> w_row W r)))"

text \<open>A sequence of pushes; each event is kept with the agent it was recorded for.\<close>

fun watch_pushes ::
  "('r, 'c, 'row) watch_ops \<Rightarrow> (uuid \<times> 'r list) list \<Rightarrow> (uuid \<times> 'r \<times> 'c) list \<times> 'row watch_table
   \<Rightarrow> ((uuid \<times> 'r \<times> 'c) list \<times> 'row watch_table) option" where
  "watch_pushes W [] s = Some s"
| "watch_pushes W ((agent, runs) # ps) (evs, tbl) =
     (case watch_apply W agent runs tbl of
        None \<Rightarrow> None
      | Some (new, tbl) \<Rightarrow> watch_pushes W ps (evs @ map (Pair agent) new, tbl))"

definition series_events :: "('r \<Rightarrow> uuid) \<Rightarrow> uuid \<times> uuid \<Rightarrow> (uuid \<times> 'r \<times> 'c) list \<Rightarrow> ('r \<times> 'c) list" where
  "series_events probe k evs = map snd (filter (\<lambda>(a, r, c). (a, probe r) = k) evs)"

text \<open>
  Walking the events of one series from an identity: each must start where the walk stands and
  must move it. The result is the identity the walk ends at.
\<close>

fun follows :: "('r \<Rightarrow> 'i) \<Rightarrow> ('c \<Rightarrow> 'i) \<Rightarrow> 'i \<Rightarrow> ('r \<times> 'c) list \<Rightarrow> 'i option" where
  "follows new old i [] = Some i"
| "follows new old i ((r, c) # es) = (if old c = i \<and> new r \<noteq> i then follows new old (new r) es else None)"

lemma follows_append: "follows new old i (es @ es') = Option.bind (follows new old i es) (\<lambda>j. follows new old j es')"
  by (induction new old i es rule: follows.induct) auto

lemma follows_ids: "follows new old i es = follows id id i (map (\<lambda>(r, c). (new r, old c)) es)"
  by (induction new old i es rule: follows.induct) auto

text \<open>The (new, old) identities of one series, from rows of agent, probe, new and old identity.\<close>

definition row_events :: "uuid \<times> uuid \<Rightarrow> (uuid \<times> uuid \<times> 'i \<times> 'i) list \<Rightarrow> ('i \<times> 'i) list" where
  "row_events k rows = map (\<lambda>(a, p, new, old). (new, old)) (filter (\<lambda>(a, p, _). (a, p) = k) rows)"

section \<open>The contract of a watcher\<close>

locale watcher =
  fixes W :: "('r, 'c, 'row) watch_ops" and cur_time :: "'c \<Rightarrow> gtime"
    and ident :: "'r \<Rightarrow> 'i" and cur_ident :: "'c \<Rightarrow> 'i"
  assumes decide_None: "\<And>r. w_usable W r \<Longrightarrow> w_decide W None r = ActionInsert"
    and decide_Some: "\<And>c r. w_usable W r \<Longrightarrow> w_decide W (Some c) r =
      (if \<not> w_time W r > cur_time c then ActionSkip
       else if cur_ident c = ident r then ActionRefresh else ActionChange)"
    and current_time: "\<And>r. cur_time (w_current W r) = w_time W r"
    and current_ident: "\<And>r. cur_ident (w_current W r) = ident r"
    and load_row: "\<And>r. w_load W (w_row W r) = w_current W r"
    and load_time: "\<And>row. cur_time (w_load W row) = w_row_time W row"
    and seed_time: "\<And>r. w_row_time W (w_seed W r) = 0"
begin

lemma row_time: "w_row_time W (w_row W r) = w_time W r"
  using load_time[of "w_row W r"] by (simp add: load_row current_time)

text \<open>The loop over one series is the run-by-run fold on its row.\<close>

lemma series_is_fold:
  assumes "\<forall>r\<in>set rs. w_usable W r \<and> w_probe W r = p \<and> w_time W r > 0"
    and "watch_series W (map_option (w_load W) (tbl (agent, p))) rs fin pending = (fin', pending')"
  shows "\<exists>x. foldl (\<lambda>s r. watch_one W agent r s) (pending, tbl) rs =
      (pending', case x of None \<Rightarrow> tbl | Some r \<Rightarrow> tbl((agent, p) \<mapsto> w_row W r))
    \<and> fin' = (case x of None \<Rightarrow> fin | Some r \<Rightarrow> Some r)
    \<and> (\<forall>r. x = Some r \<longrightarrow> r \<in> set rs \<and> w_time W r > (case tbl (agent, p) of None \<Rightarrow> 0 | Some row \<Rightarrow> w_row_time W row))
    \<and> (tbl (agent, p) = None \<longrightarrow> rs \<noteq> [] \<longrightarrow> x \<noteq> None)"
  using assms
proof (induction rs arbitrary: tbl fin pending)
  case Nil
  then show ?case by (auto intro!: exI[of _ None])
next
  case (Cons r rs)
  let ?k = "(agent, p)" and ?cur = "map_option (w_load W) (tbl (agent, p))"
  have r: "w_usable W r" "w_probe W r = p" "w_time W r > 0" using Cons.prems(1) by auto
  have rest: "\<forall>r\<in>set rs. w_usable W r \<and> w_probe W r = p \<and> w_time W r > 0" using Cons.prems(1) by auto
  show ?case
  proof (cases "w_decide W ?cur r = ActionSkip")
    case True
    then have some: "tbl ?k \<noteq> None"
      using decide_None[OF r(1)] by (cases "tbl ?k") auto
    have "watch_one W agent r (pending, tbl) = (pending, tbl)"
      using True r(2) by (simp add: watch_one_def)
    moreover have "watch_series W ?cur rs fin pending = (fin', pending')"
      using Cons.prems(2) True by simp
    ultimately show ?thesis
      using Cons.IH[OF rest, of tbl fin pending] some by auto
  next
    case False
    define t1 where "t1 = tbl(?k \<mapsto> w_row W r)"
    have t1: "t1 ?k = Some (w_row W r)" by (simp add: t1_def)
    define pend where "pend = (if w_decide W ?cur r = ActionChange then (case ?cur of Some c \<Rightarrow> pending @ [(r, c)] | None \<Rightarrow> pending) else pending)"
    have time: "w_time W r > (case tbl ?k of None \<Rightarrow> 0 | Some row \<Rightarrow> w_row_time W row)"
      using False decide_Some[OF r(1)] r(3) by (auto simp: load_time split: option.splits if_splits)
    have chg: "w_decide W ?cur r = ActionChange \<Longrightarrow> tbl ?k \<noteq> None"
      using decide_None[OF r(1)] by (cases "tbl ?k") auto
    have "watch_one W agent r (pending, tbl) = (pend, t1)"
      using False r(2) chg by (auto simp: watch_one_def Let_def pend_def t1_def split: action.split option.split)
    moreover have "watch_series W (map_option (w_load W) (t1 ?k)) rs (Some r) pend = (fin', pending')"
      using Cons.prems(2) False by (simp add: load_row pend_def t1 split: action.splits)
    from Cons.IH[where tbl = t1, OF rest this] obtain x where IH:
      "foldl (\<lambda>s r. watch_one W agent r s) (pend, t1) rs = (pending', case x of None \<Rightarrow> t1 | Some r \<Rightarrow> t1(?k \<mapsto> w_row W r))"
      "fin' = (case x of None \<Rightarrow> Some r | Some r \<Rightarrow> Some r)"
      "\<forall>y. x = Some y \<longrightarrow> y \<in> set rs \<and> w_time W y > w_time W r"
      by (auto simp: row_time t1)
    ultimately show ?thesis
      using time by (intro exI[of _ "case x of None \<Rightarrow> Some r | Some y \<Rightarrow> Some y"]) (auto simp: t1_def split: option.splits)
  qed
qed

text \<open>The final rows of a push, written over the table.\<close>

definition put_rows :: "uuid \<Rightarrow> 'r list \<Rightarrow> 'row watch_table \<Rightarrow> 'row watch_table" where
  "put_rows agent rs tbl = foldl (\<lambda>t r. t((agent, w_probe W r) \<mapsto> w_row W r)) tbl rs"

lemma put_rows_at:
  "put_rows agent rs tbl k =
     (case find (\<lambda>r. k = (agent, w_probe W r)) (rev rs) of None \<Rightarrow> tbl k | Some r \<Rightarrow> Some (w_row W r))"
  unfolding put_rows_def by (induction rs rule: rev_induct) auto

lemma put_rows_other: "k \<notin> (\<lambda>r. (agent, w_probe W r)) ` set rs \<Longrightarrow> put_rows agent rs tbl k = tbl k"
  unfolding put_rows_def by (induction rs arbitrary: tbl) auto

text \<open>Every final run beats the row it overwrites, so the guarded upsert applies all of them.\<close>

lemma upsert_applies:
  assumes "distinct (map (w_probe W) rs)"
    and "\<forall>r\<in>set rs. \<forall>row. tbl (agent, w_probe W r) = Some row \<longrightarrow> w_row_time W row < w_time W r"
  shows "watch_upsert W agent rs tbl = (length rs, put_rows agent rs tbl)"
  using assms
proof (induction rs arbitrary: tbl)
  case (Cons r rs)
  then have ok: "case tbl (agent, w_probe W r) of None \<Rightarrow> True | Some row \<Rightarrow> w_row_time W row < w_time W r"
    by (auto split: option.split)
  have "watch_upsert W agent rs (tbl((agent, w_probe W r) \<mapsto> w_row W r))
      = (length rs, put_rows agent rs (tbl((agent, w_probe W r) \<mapsto> w_row W r)))"
    using Cons.prems by (intro Cons.IH) (auto simp: image_iff)
  then show ?case using ok by (simp add: put_rows_def)
qed (simp add: put_rows_def)

text \<open>The loop over all series is the run-by-run fold over their batches one after the other.\<close>

lemma all_is_fold:
  assumes "distinct ps" "\<forall>p\<in>set ps. \<forall>r\<in>set (batch p). w_usable W r \<and> w_probe W r = p \<and> w_time W r > 0"
    and "\<forall>p\<in>set ps. curs p = map_option (w_load W) (tbl (agent, p))"
    and "watch_all W curs batch ps finals pending = (finals', pending')"
  shows "\<exists>new. finals' = finals @ new
    \<and> foldl (\<lambda>s r. watch_one W agent r s) (pending, tbl) (concat (map batch ps)) = (pending', put_rows agent new tbl)
    \<and> distinct (map (w_probe W) new) \<and> w_probe W ` set new \<subseteq> set ps
    \<and> (\<forall>r\<in>set new. w_time W r > (case tbl (agent, w_probe W r) of None \<Rightarrow> 0 | Some row \<Rightarrow> w_row_time W row))
    \<and> (\<forall>p\<in>set ps. tbl (agent, p) = None \<longrightarrow> batch p \<noteq> [] \<longrightarrow> p \<in> w_probe W ` set new)"
  using assms
proof (induction ps arbitrary: finals pending tbl)
  case Nil
  then show ?case by (auto simp: put_rows_def)
next
  case (Cons p ps)
  obtain fin pend where ser: "watch_series W (map_option (w_load W) (tbl (agent, p))) (batch p) None pending = (fin, pend)"
    by (cases "watch_series W (map_option (w_load W) (tbl (agent, p))) (batch p) None pending") auto
  obtain x where x: "foldl (\<lambda>s r. watch_one W agent r s) (pending, tbl) (batch p) =
      (pend, case x of None \<Rightarrow> tbl | Some r \<Rightarrow> tbl((agent, p) \<mapsto> w_row W r))"
    "fin = (case x of None \<Rightarrow> None | Some r \<Rightarrow> Some r)"
    "\<forall>r. x = Some r \<longrightarrow> r \<in> set (batch p) \<and> w_time W r > (case tbl (agent, p) of None \<Rightarrow> 0 | Some row \<Rightarrow> w_row_time W row)"
    "tbl (agent, p) = None \<longrightarrow> batch p \<noteq> [] \<longrightarrow> x \<noteq> None"
    using series_is_fold[where tbl = tbl and agent = agent and p = p, OF _ ser] Cons.prems(2) by auto
  have fin: "fin = x" using x(2) by (cases x) auto
  define one where "one = (case x of None \<Rightarrow> [] | Some r \<Rightarrow> [r])"
  define tbl1 where "tbl1 = (case x of None \<Rightarrow> tbl | Some r \<Rightarrow> tbl((agent, p) \<mapsto> w_row W r))"
  have same: "q \<noteq> p \<Longrightarrow> tbl1 (agent, q) = tbl (agent, q)" for q
    by (auto simp: tbl1_def split: option.split)
  have "watch_all W curs batch ps (finals @ one) pend = (finals', pending')"
    using Cons.prems(3,4) ser fin by (cases x) (auto simp: one_def)
  moreover have "\<forall>q\<in>set ps. curs q = map_option (w_load W) (tbl1 (agent, q))"
    using Cons.prems(1,3) same by (metis distinct.simps(2) list.set_intros(2))
  ultimately obtain new where IH: "finals' = (finals @ one) @ new"
    "foldl (\<lambda>s r. watch_one W agent r s) (pend, tbl1) (concat (map batch ps)) = (pending', put_rows agent new tbl1)"
    "distinct (map (w_probe W) new)" "w_probe W ` set new \<subseteq> set ps"
    "\<forall>r\<in>set new. w_time W r > (case tbl1 (agent, w_probe W r) of None \<Rightarrow> 0 | Some row \<Rightarrow> w_row_time W row)"
    "\<forall>q\<in>set ps. tbl1 (agent, q) = None \<longrightarrow> batch q \<noteq> [] \<longrightarrow> q \<in> w_probe W ` set new"
    using Cons.IH[of tbl1 "finals @ one" pend] Cons.prems(1,2) by auto
  have one: "\<forall>r\<in>set one. w_probe W r = p \<and> w_time W r > (case tbl (agent, p) of None \<Rightarrow> 0 | Some row \<Rightarrow> w_row_time W row)"
    "distinct (map (w_probe W) one)" "tbl (agent, p) = None \<Longrightarrow> batch p \<noteq> [] \<Longrightarrow> p \<in> w_probe W ` set one"
    using x(3,4) Cons.prems(2) by (auto simp: one_def split: option.split)
  have notp: "p \<notin> w_probe W ` set new" using IH(4) Cons.prems(1) by auto
  have fold: "foldl (\<lambda>s r. watch_one W agent r s) (pending, tbl) (concat (map batch (p # ps))) = (pending', put_rows agent (one @ new) tbl)"
  proof -
    have "put_rows agent new tbl1 = put_rows agent (one @ new) tbl"
      using one(1) by (cases x) (auto simp: put_rows_def tbl1_def one_def)
    then show ?thesis using x(1) IH(2) by (simp add: tbl1_def)
  qed
  have times: "\<forall>r\<in>set (one @ new). w_time W r > (case tbl (agent, w_probe W r) of None \<Rightarrow> 0 | Some row \<Rightarrow> w_row_time W row)"
  proof
    fix r assume r: "r \<in> set (one @ new)"
    show "w_time W r > (case tbl (agent, w_probe W r) of None \<Rightarrow> 0 | Some row \<Rightarrow> w_row_time W row)"
    proof (cases "r \<in> set one")
      case True
      then show ?thesis using one(1) by simp
    next
      case False
      then have "r \<in> set new" "w_probe W r \<noteq> p" using r notp by auto
      then show ?thesis using IH(5) same by fastforce
    qed
  qed
  have covers: "\<forall>q\<in>set (p # ps). tbl (agent, q) = None \<longrightarrow> batch q \<noteq> [] \<longrightarrow> q \<in> w_probe W ` set (one @ new)"
  proof (intro ballI impI)
    fix q assume q: "q \<in> set (p # ps)" "tbl (agent, q) = None" "batch q \<noteq> []"
    show "q \<in> w_probe W ` set (one @ new)"
      using q one(3) IH(6) same[of q] by (cases "q = p") auto
  qed
  have "distinct (map (w_probe W) (one @ new))" "w_probe W ` set (one @ new) \<subseteq> set (p # ps)"
    using one(1,2) IH(3,4) notp by auto
  then show ?case
    using IH(1) fold times covers by (intro exI[of _ "one @ new"]) simp
qed

text \<open>What a push does, seen from outside: the runs of each series, in time order, one at a time.\<close>

definition run_order :: "'r list \<Rightarrow> 'r list" where
  "run_order runs = concat (map (watch_batch W runs) (watch_probes W runs))"

lemma batch_ok: "\<forall>p. \<forall>r\<in>set (watch_batch W runs p). w_usable W r \<and> w_probe W r = p \<and> w_time W r > 0"
  by (auto simp: watch_batch_def watch_good_def)

lemma sort_key_Nil_iff: "sort_key f xs = [] \<longleftrightarrow> xs = []"
  by (metis length_0_conv length_sort)

lemma batch_nonempty: "p \<in> set (watch_probes W runs) \<Longrightarrow> watch_batch W runs p \<noteq> []"
  by (auto simp: watch_batch_def watch_probes_def sort_key_Nil_iff filter_empty_conv)

text \<open>Seeding touches exactly the missing rows of the push.\<close>

lemma seed_table:
  "snd (watch_seed W agent ps runs tbl) k =
     (if tbl k = None \<and> fst k = agent \<and> snd k \<in> set ps
      then (case filter (\<lambda>r. w_probe W r = snd k) (watch_good W runs) of [] \<Rightarrow> None | r # _ \<Rightarrow> Some (w_seed W r))
      else tbl k)"
proof -
  have "foldl (\<lambda>t p. case filter (\<lambda>r. w_probe W r = p) (watch_good W runs) of
                         [] \<Rightarrow> t | r # _ \<Rightarrow> t((agent, p) \<mapsto> w_seed W r)) tbl qs k =
     (if fst k = agent \<and> snd k \<in> set qs
      then (case filter (\<lambda>r. w_probe W r = snd k) (watch_good W runs) of [] \<Rightarrow> tbl k | r # _ \<Rightarrow> Some (w_seed W r))
      else tbl k)" for qs
    by (induction qs rule: rev_induct) (auto split: list.split)
  then show ?thesis by (cases k) (auto simp: watch_seed_def Let_def split: list.split)
qed

text \<open>
  The set-based push is the fold of its runs one at a time: same events in the same order, same
  table, no error, and no placeholder left.
\<close>

theorem apply_is_fold:
  "watch_apply W agent runs tbl = Some (foldl (\<lambda>s r. watch_one W agent r s) ([], tbl) (run_order runs))"
proof (cases "watch_good W runs = []")
  case True
  then show ?thesis by (simp add: watch_apply_def run_order_def watch_probes_def)
next
  case False
  let ?ps = "watch_probes W runs"
  obtain seeded tbl1 where seed: "watch_seed W agent ?ps runs tbl = (seeded, tbl1)" by force
  define curs where "curs = (\<lambda>p. if p \<in> seeded then None else map_option (w_load W) (tbl1 (agent, p)))"
  obtain finals pending where all: "watch_all W curs (watch_batch W runs) ?ps [] [] = (finals, pending)" by force
  have seeded: "seeded = {p \<in> set ?ps. tbl (agent, p) = None}"
    using seed by (auto simp: watch_seed_def Let_def)
  have tbl1: "tbl1 k = (if tbl k = None \<and> fst k = agent \<and> snd k \<in> set ?ps
      then (case filter (\<lambda>r. w_probe W r = snd k) (watch_good W runs) of [] \<Rightarrow> None | r # _ \<Rightarrow> Some (w_seed W r))
      else tbl k)" for k
    using seed_table[of agent ?ps runs tbl k] seed by simp
  have "\<forall>p\<in>set ?ps. curs p = map_option (w_load W) (tbl (agent, p))"
    by (simp add: curs_def seeded tbl1)
  from all_is_fold[OF _ _ this all] batch_ok[of runs] obtain new where new: "finals = new"
    "foldl (\<lambda>s r. watch_one W agent r s) ([], tbl) (run_order runs) = (pending, put_rows agent new tbl)"
    "distinct (map (w_probe W) new)" "w_probe W ` set new \<subseteq> set ?ps"
    "\<forall>r\<in>set new. w_time W r > (case tbl (agent, w_probe W r) of None \<Rightarrow> 0 | Some row \<Rightarrow> w_row_time W row)"
    "\<forall>p\<in>set ?ps. tbl (agent, p) = None \<longrightarrow> watch_batch W runs p \<noteq> [] \<longrightarrow> p \<in> w_probe W ` set new"
    by (auto simp: watch_probes_def run_order_def)
  have "\<forall>r\<in>set new. \<forall>row. tbl1 (agent, w_probe W r) = Some row \<longrightarrow> w_row_time W row < w_time W r"
    using new(5) by (auto simp: tbl1 seed_time split: if_splits list.splits option.splits)
  from upsert_applies[OF new(3) this] have up: "watch_upsert W agent new tbl1 = (length new, put_rows agent new tbl1)" .
  have "put_rows agent new tbl1 = put_rows agent new tbl"
  proof
    fix k
    show "put_rows agent new tbl1 k = put_rows agent new tbl k"
    proof (cases "k \<in> (\<lambda>r. (agent, w_probe W r)) ` set new")
      case True
      then show ?thesis by (auto simp: put_rows_at find_None_iff split: option.split)
    next
      case False
      then have "\<not> (tbl k = None \<and> fst k = agent \<and> snd k \<in> set ?ps)"
        using new(6) batch_nonempty[of _ runs] by (cases k) auto
      then have "tbl1 k = tbl k" by (simp only: tbl1 if_False)
      then show ?thesis using False by (simp add: put_rows_other)
    qed
  qed
  then show ?thesis
    using False seed all new(1,2) up by (simp add: watch_apply_def curs_def Let_def)
qed

text \<open>Replays.\<close>

abbreviation seen :: "uuid \<Rightarrow> 'r \<Rightarrow> 'row watch_table \<Rightarrow> bool" where
  "seen agent r tbl \<equiv> \<exists>row. tbl (agent, w_probe W r) = Some row \<and> w_time W r \<le> w_row_time W row"

lemma one_seen: "w_usable W r \<Longrightarrow> seen agent r (snd (watch_one W agent r s))"
  by (cases "(snd s) (agent, w_probe W r)")
    (auto simp: watch_one_def Let_def decide_None decide_Some row_time load_time split: prod.split if_splits)

lemma seen_mono: "w_usable W r' \<Longrightarrow> seen agent r tbl \<Longrightarrow> seen agent r (snd (watch_one W agent r' (evs, tbl)))"
  by (auto simp: watch_one_def Let_def decide_None decide_Some row_time load_time split: option.split)

lemma fold_seen:
  "\<forall>r\<in>set rs. w_usable W r \<Longrightarrow>
     (r \<in> set rs \<or> seen agent r (snd s)) \<Longrightarrow> seen agent r (snd (foldl (\<lambda>s r. watch_one W agent r s) s rs))"
proof (induction rs arbitrary: s)
  case (Cons r' rs)
  have "r \<in> set rs \<or> seen agent r (snd (watch_one W agent r' s))"
    using Cons.prems one_seen[where r = r' and s = s and agent = agent]
      seen_mono[where r = r and r' = r' and agent = agent and tbl = "snd s" and evs = "fst s"]
    by (metis list.set_intros(1) prod.collapse set_ConsD)
  then show ?case
    using Cons.IH[of "watch_one W agent r' s"] Cons.prems(1) by simp
qed simp

lemma one_skips: "w_usable W r \<Longrightarrow> seen agent r tbl \<Longrightarrow> watch_one W agent r (evs, tbl) = (evs, tbl)"
  by (auto simp: watch_one_def Let_def decide_Some load_time)

lemma fold_skips:
  "\<forall>r\<in>set rs. w_usable W r \<and> seen agent r tbl \<Longrightarrow> foldl (\<lambda>s r. watch_one W agent r s) (evs, tbl) rs = (evs, tbl)"
  by (induction rs) (auto simp: one_skips)

lemma run_order_usable: "\<forall>r\<in>set (run_order runs). w_usable W r"
  using batch_ok by (auto simp: run_order_def)

theorem replay_quiet:
  assumes "watch_apply W agent runs tbl = Some (evs, tbl')"
  shows "watch_apply W agent runs tbl' = Some ([], tbl')"
proof -
  have "foldl (\<lambda>s r. watch_one W agent r s) ([], tbl) (run_order runs) = (evs, tbl')"
    using assms by (simp add: apply_is_fold)
  then have "\<forall>r\<in>set (run_order runs). w_usable W r \<and> seen agent r tbl'"
    using fold_seen[where s = "([], tbl)" and rs = "run_order runs" and agent = agent] run_order_usable[of runs] by simp
  then show ?thesis by (simp add: apply_is_fold fold_skips)
qed

text \<open>The events of a series are a walk from its first identity to the one in its row.\<close>

definition walked_at :: "(uuid \<times> 'r \<times> 'c) list \<Rightarrow> 'row watch_table \<Rightarrow> uuid \<times> uuid \<Rightarrow> bool" where
  "walked_at evs tbl k \<longleftrightarrow> (case tbl k of
      None \<Rightarrow> series_events (w_probe W) k evs = []
    | Some row \<Rightarrow> \<exists>i. follows ident cur_ident i (series_events (w_probe W) k evs) = Some (cur_ident (w_load W row)))"

abbreviation walked :: "(uuid \<times> 'r \<times> 'c) list \<Rightarrow> 'row watch_table \<Rightarrow> bool" where
  "walked evs tbl \<equiv> \<forall>k. walked_at evs tbl k"

lemma series_events_snoc:
  "series_events (w_probe W) k (evs @ map (Pair agent) (new @ [(r, c)])) =
   series_events (w_probe W) k (evs @ map (Pair agent) new) @ (if k = (agent, w_probe W r) then [(r, c)] else [])"
  by (auto simp: series_events_def)

lemma one_other:
  "watch_one W agent r (new, tbl) = (new', tbl') \<Longrightarrow> k \<noteq> (agent, w_probe W r) \<Longrightarrow>
   tbl' k = tbl k \<and> series_events (w_probe W) k (evs @ map (Pair agent) new') = series_events (w_probe W) k (evs @ map (Pair agent) new)"
  using series_events_snoc[of k evs agent new r]
  by (auto simp: watch_one_def Let_def split: action.splits option.splits)

lemma one_walked_at:
  assumes "w_usable W r" "watch_one W agent r (new, tbl) = (new', tbl')" "k = (agent, w_probe W r)"
    and "walked_at (evs @ map (Pair agent) new) tbl k"
  shows "walked_at (evs @ map (Pair agent) new') tbl' k"
proof (cases "tbl k")
  case None
  then have "new' = new" "tbl' = tbl(k \<mapsto> w_row W r)"
    using assms(1-3) by (simp_all add: watch_one_def Let_def decide_None)
  then show ?thesis
    using None assms(4) by (auto simp: walked_at_def load_row current_ident intro!: exI[of _ "ident r"])
next
  case (Some row)
  consider "\<not> w_time W r > w_row_time W row" | "w_time W r > w_row_time W row" "cur_ident (w_load W row) = ident r"
    | "w_time W r > w_row_time W row" "cur_ident (w_load W row) \<noteq> ident r" by blast
  then show ?thesis
  proof cases
    case 1
    then have "new' = new" "tbl' = tbl"
      using Some assms(1-3) by (simp_all add: watch_one_def Let_def decide_Some load_time)
    then show ?thesis using assms(4) by simp
  next
    case 2
    then have "new' = new" "tbl' = tbl(k \<mapsto> w_row W r)"
      using Some assms(1-3) by (simp_all add: watch_one_def Let_def decide_Some load_time)
    then show ?thesis using 2 Some assms(4) by (simp add: walked_at_def load_row current_ident)
  next
    case 3
    then have new: "new' = new @ [(r, w_load W row)]" "tbl' = tbl(k \<mapsto> w_row W r)"
      using Some assms(1-3) by (simp_all add: watch_one_def Let_def decide_Some load_time)
    obtain i where "follows ident cur_ident i (series_events (w_probe W) k (evs @ map (Pair agent) new)) = Some (cur_ident (w_load W row))"
      using assms(4) Some by (auto simp: walked_at_def)
    then have "follows ident cur_ident i (series_events (w_probe W) k (evs @ map (Pair agent) new')) = Some (ident r)"
      using 3 assms(3) unfolding new(1) series_events_snoc by (simp add: follows_append)
    then show ?thesis by (auto simp: walked_at_def new(2) load_row current_ident)
  qed
qed

lemma one_walked:
  assumes "w_usable W r" "walked (evs @ map (Pair agent) new) tbl" "watch_one W agent r (new, tbl) = (new', tbl')"
  shows "walked (evs @ map (Pair agent) new') tbl'"
proof
  fix k
  show "walked_at (evs @ map (Pair agent) new') tbl' k"
  proof (cases "k = (agent, w_probe W r)")
    case True
    then show ?thesis using one_walked_at[OF assms(1,3)] assms(2) by blast
  next
    case False
    note same = one_other[OF assms(3) False, of evs]
    have "walked_at (evs @ map (Pair agent) new) tbl k" using assms(2) by blast
    then show ?thesis unfolding walked_at_def conjunct1[OF same] conjunct2[OF same] .
  qed
qed

lemma fold_walked:
  "\<forall>r\<in>set rs. w_usable W r \<Longrightarrow> walked (evs @ map (Pair agent) new) tbl \<Longrightarrow>
   foldl (\<lambda>s r. watch_one W agent r s) (new, tbl) rs = (new', tbl') \<Longrightarrow> walked (evs @ map (Pair agent) new') tbl'"
proof (induction rs arbitrary: new tbl)
  case (Cons r rs)
  then show ?case
    using one_walked[of r evs agent new tbl]
    by (cases "watch_one W agent r (new, tbl)") (metis foldl_Cons list.set_intros)
qed simp

theorem pushes_walk:
  "walked evs tbl \<Longrightarrow> \<exists>evs' tbl'. watch_pushes W ps (evs, tbl) = Some (evs', tbl') \<and> walked evs' tbl'"
proof (induction ps arbitrary: evs tbl)
  case (Cons q ps)
  obtain agent runs where q: "q = (agent, runs)" by force
  obtain new tbl1 where f: "foldl (\<lambda>s r. watch_one W agent r s) ([], tbl) (run_order runs) = (new, tbl1)" by force
  then have "walked (evs @ map (Pair agent) new) tbl1"
    using fold_walked[OF run_order_usable, of evs agent "[]" tbl] Cons.prems by simp
  from Cons.IH[OF this] show ?case by (simp add: q apply_is_fold f)
qed simp

text \<open>What an event says: agent, probe, new and old identity.\<close>

definition event_id :: "uuid \<times> 'r \<times> 'c \<Rightarrow> uuid \<times> uuid \<times> 'i \<times> 'i" where
  "event_id e = (case e of (a, r, c) \<Rightarrow> (a, w_probe W r, ident r, cur_ident c))"

lemma series_events_ids:
  "row_events k (map event_id evs) = map (\<lambda>(r, c). (ident r, cur_ident c)) (series_events (w_probe W) k evs)"
  by (induction evs) (auto simp: row_events_def event_id_def series_events_def)

text \<open>Every row was written for a run that qualified.\<close>

definition real_rows :: "'row watch_table \<Rightarrow> bool" where
  "real_rows tbl \<longleftrightarrow> ran tbl \<subseteq> w_row W ` {r. w_usable W r}"

lemma ran_upd_subset: "ran (m(k \<mapsto> v)) \<subseteq> insert v (ran m)"
  by (auto simp: ran_def)

lemma one_table: "snd (watch_one W agent r s) \<in> {snd s, (snd s)((agent, w_probe W r) \<mapsto> w_row W r)}"
  by (cases s) (simp add: watch_one_def Let_def split: action.split option.split)

lemma one_real:
  assumes "w_usable W r" "real_rows (snd s)"
  shows "real_rows (snd (watch_one W agent r s))"
proof -
  let ?k = "(agent, w_probe W r)"
  have "real_rows ((snd s)(?k \<mapsto> w_row W r))"
    using ran_upd_subset[of "snd s" ?k "w_row W r"] assms unfolding real_rows_def by blast
  then show ?thesis
    using one_table[of agent r s] assms(2) by (metis insertE singletonD)
qed

lemma fold_real:
  "\<forall>r\<in>set rs. w_usable W r \<Longrightarrow> real_rows (snd s) \<Longrightarrow> real_rows (snd (foldl (\<lambda>s r. watch_one W agent r s) s rs))"
  by (induction rs arbitrary: s) (auto simp: one_real)

lemma pushes_real:
  "real_rows tbl \<Longrightarrow> watch_pushes W ps (evs, tbl) = Some (evs', tbl') \<Longrightarrow> real_rows tbl'"
proof (induction ps arbitrary: evs tbl)
  case (Cons q ps)
  obtain agent runs where q: "q = (agent, runs)" by force
  obtain new tbl1 where f: "foldl (\<lambda>s r. watch_one W agent r s) ([], tbl) (run_order runs) = (new, tbl1)" by force
  then have "real_rows tbl1"
    using fold_real[where s = "([], tbl)" and agent = agent and rs = "run_order runs"] run_order_usable[of runs] Cons.prems(1)
    by simp
  from Cons.IH[OF this] show ?case using Cons.prems(2) by (simp add: q apply_is_fold f)
qed simp

theorem history_walks:
  "\<exists>evs tbl. watch_pushes W ps ([], Map.empty) = Some (evs, tbl) \<and> real_rows tbl \<and>
     (\<forall>k. case tbl k of
        None \<Rightarrow> row_events k (map event_id evs) = []
      | Some row \<Rightarrow> \<exists>i. follows id id i (row_events k (map event_id evs)) = Some (cur_ident (w_load W row)))"
proof -
  have "walked [] Map.empty" by (simp add: walked_at_def series_events_def)
  from pushes_walk[OF this, of ps] obtain evs tbl
    where p: "watch_pushes W ps ([], Map.empty) = Some (evs, tbl)" and w: "walked evs tbl" by blast
  have "case tbl k of
        None \<Rightarrow> row_events k (map event_id evs) = []
      | Some row \<Rightarrow> \<exists>i. follows id id i (row_events k (map event_id evs)) = Some (cur_ident (w_load W row))" for k
    using w[THEN spec, of k] follows_ids[of ident cur_ident _ "series_events (w_probe W) k evs"]
    unfolding walked_at_def series_events_ids by (simp split: option.splits)
  moreover have "real_rows tbl" using pushes_real[OF _ p] by (simp add: real_rows_def)
  ultimately show ?thesis using p by blast
qed

end

end
