(* ===== verification/Pathwatch.thy ===== *)
theory Pathwatch
  imports Watch
begin

text \<open>
  Path changes (\<open>internal/server/pathwatch/pathwatch.go\<close>): complete traceroutes are folded into
  \<open>traceroute_current\<close>, one row per series, and every change of the path hash is recorded in
  \<open>path_events\<close>. The engine is that of theory \<open>Watch\<close>; here are the package's types, its decision,
  its rows and its event insert. Instants have the resolution of the \<open>timestamptz\<close> columns. The
  identifiers Postgres mints for events come from the parameter \<open>gen\<close>.
\<close>

record path_run =
  p_ProbeID :: uuid
  p_TargetID :: uuid
  p_Time :: gtime
  p_DestReached :: bool
  p_PathHash :: "byte list"
  p_Hops :: "byte list"

record path_current =
  pc_updatedAt :: gtime
  pc_pathHash :: "byte list"
  pc_hops :: "byte list"

definition path_valid :: "path_run \<Rightarrow> bool" where
  "path_valid r \<longleftrightarrow> p_DestReached r \<and> length (p_PathHash r) = 32"

fun path_decide :: "path_current option \<Rightarrow> path_run \<Rightarrow> action" where
  "path_decide cur r =
     (if \<not> p_DestReached r \<or> length (p_PathHash r) \<noteq> 32 then ActionSkip
      else case cur of
        None \<Rightarrow> ActionInsert
      | Some c \<Rightarrow>
          if \<not> p_Time r > pc_updatedAt c then ActionSkip
          else if pc_pathHash c = p_PathHash r then ActionRefresh
          else ActionChange)"

text \<open>A row of \<open>traceroute_current\<close>; its key is the pair (agent, probe).\<close>

record path_row =
  pr_target :: uuid
  pr_updated :: gtime
  pr_reached :: bool
  pr_hash :: "byte list"
  pr_hops :: "byte list"

text \<open>\<open>'[]'::jsonb\<close> as bytes.\<close>

definition empty_hops :: "byte list" where "empty_hops = [91, 93]"

definition path_seed :: "path_run \<Rightarrow> path_row" where
  "path_seed r = \<lparr>pr_target = p_TargetID r, pr_updated = 0, pr_reached = False, pr_hash = [], pr_hops = empty_hops\<rparr>"

definition path_final :: "path_run \<Rightarrow> path_row" where
  "path_final r = \<lparr>pr_target = p_TargetID r, pr_updated = p_Time r, pr_reached = True, pr_hash = p_PathHash r, pr_hops = p_Hops r\<rparr>"

definition path_load :: "path_row \<Rightarrow> path_current" where
  "path_load row = \<lparr>pc_updatedAt = pr_updated row, pc_pathHash = pr_hash row, pc_hops = pr_hops row\<rparr>"

definition path_cur :: "path_run \<Rightarrow> path_current" where
  "path_cur r = \<lparr>pc_updatedAt = p_Time r, pc_pathHash = p_PathHash r, pc_hops = p_Hops r\<rparr>"

definition path_ops :: "(path_run, path_current, path_row) watch_ops" where
  "path_ops = \<lparr>w_usable = path_valid, w_time = p_Time, w_probe = p_ProbeID, w_decide = path_decide, w_current = path_cur,
     w_seed = path_seed, w_row = path_final, w_row_time = pr_updated, w_load = path_load\<rparr>"

section \<open>Events\<close>

record path_event =
  pe_id :: uuid
  pe_time :: gtime
  pe_agent :: uuid
  pe_probe :: uuid
  pe_target :: uuid
  pe_old_hash :: "byte list"
  pe_new_hash :: "byte list"
  pe_old_hops :: "byte list"
  pe_new_hops :: "byte list"

fun path_event_row :: "uuid \<Rightarrow> uuid \<Rightarrow> path_run \<times> path_current \<Rightarrow> path_event" where
  "path_event_row i agent (r, c) =
     \<lparr>pe_id = i, pe_time = p_Time r, pe_agent = agent, pe_probe = p_ProbeID r, pe_target = p_TargetID r,
      pe_old_hash = pc_pathHash c, pe_new_hash = p_PathHash r, pe_old_hops = pc_hops c, pe_new_hops = p_Hops r\<rparr>"

text \<open>\<open>bulkInsertEvents\<close>: the grown event table and the changes reported for logging.\<close>

fun path_bulkInsertEvents ::
  "(uuid list \<Rightarrow> uuid) \<Rightarrow> uuid \<Rightarrow> (path_run \<times> path_current) list \<Rightarrow> path_event list \<Rightarrow> (uuid \<times> uuid) list \<times> path_event list" where
  "path_bulkInsertEvents gen agent [] evs = ([], evs)"
| "path_bulkInsertEvents gen agent (p # ps) evs =
     (let i = gen (map pe_id evs);
          (changes, evs) = path_bulkInsertEvents gen agent ps (evs @ [path_event_row i agent p])
      in ((i, p_ProbeID (fst p)) # changes, evs))"

definition path_Apply ::
  "(uuid list \<Rightarrow> uuid) \<Rightarrow> uuid \<Rightarrow> path_run list \<Rightarrow> path_event list \<times> path_row watch_table
   \<Rightarrow> ((uuid \<times> uuid) list \<times> path_event list \<times> path_row watch_table) option" where
  "path_Apply gen agent runs db =
     (let (evs, tbl) = db
      in case watch_apply path_ops agent runs tbl of
           None \<Rightarrow> None
         | Some (pending, tbl) \<Rightarrow>
             (let (changes, evs) = path_bulkInsertEvents gen agent pending evs in Some (changes, evs, tbl)))"

text \<open>A sequence of pushes, by any agents.\<close>

fun path_pushes ::
  "(uuid list \<Rightarrow> uuid) \<Rightarrow> (uuid \<times> path_run list) list \<Rightarrow> path_event list \<times> path_row watch_table
   \<Rightarrow> (path_event list \<times> path_row watch_table) option" where
  "path_pushes gen [] db = Some db"
| "path_pushes gen ((agent, runs) # ps) db =
     (case path_Apply gen agent runs db of None \<Rightarrow> None | Some (changes, db) \<Rightarrow> path_pushes gen ps db)"

section \<open>The package is a watcher\<close>

lemma path_ops_simps [simp]:
  "w_usable path_ops = path_valid" "w_time path_ops = p_Time" "w_probe path_ops = p_ProbeID"
  "w_decide path_ops = path_decide" "w_current path_ops = path_cur" "w_seed path_ops = path_seed"
  "w_row path_ops = path_final" "w_row_time path_ops = pr_updated" "w_load path_ops = path_load"
  by (simp_all add: path_ops_def)

lemma path_load_final [simp]: "path_load (path_final r) = path_cur r"
  by (simp add: path_load_def path_final_def path_cur_def)

interpretation paths: watcher path_ops pc_updatedAt p_PathHash pc_pathHash
  by unfold_locales (auto simp: path_final_def path_valid_def path_cur_def path_load_def path_seed_def)

lemma path_insert_rows:
  "path_bulkInsertEvents gen agent pending evs = (changes, evs') \<Longrightarrow>
   map snd changes = map (p_ProbeID \<circ> fst) pending
   \<and> (\<exists>new. evs' = evs @ new \<and> map pe_id new = map fst changes
          \<and> new = map2 (\<lambda>i p. path_event_row i agent p) (map fst changes) pending)"
proof (induction pending arbitrary: evs changes evs')
  case (Cons p ps)
  let ?i = "gen (map pe_id evs)"
  obtain ch evs1 where e: "path_bulkInsertEvents gen agent ps (evs @ [path_event_row ?i agent p]) = (ch, evs1)" by force
  show ?case
    using Cons.IH[OF e] Cons.prems e by (cases p) (auto simp: Let_def)
qed simp

lemma path_insert_fresh:
  assumes "\<And>ids. gen ids \<notin> set ids" "distinct (map pe_id evs)" "path_bulkInsertEvents gen agent pending evs = (changes, evs')"
  shows "distinct (map pe_id evs')"
  using assms(2,3)
proof (induction pending arbitrary: evs changes evs')
  case (Cons p ps)
  let ?i = "gen (map pe_id evs)"
  obtain ch evs1 where e: "path_bulkInsertEvents gen agent ps (evs @ [path_event_row ?i agent p]) = (ch, evs1)" by force
  have "pe_id (path_event_row ?i agent p) = ?i" by (cases p) simp
  then show ?case
    using Cons.IH[OF _ e] Cons.prems e assms(1)[of "map pe_id evs"] by (auto simp: Let_def)
qed simp

text \<open>The event table carries what the engine's events carry.\<close>

definition path_event_ids :: "path_event list \<Rightarrow> (uuid \<times> uuid \<times> byte list \<times> byte list) list" where
  "path_event_ids evs = map (\<lambda>e. (pe_agent e, pe_probe e, pe_new_hash e, pe_old_hash e)) evs"

lemma path_insert_ids:
  "path_bulkInsertEvents gen agent pending evs = (changes, evs') \<Longrightarrow>
   path_event_ids evs' = path_event_ids evs @ map (\<lambda>(r, c). (agent, p_ProbeID r, p_PathHash r, pc_pathHash c)) pending"
proof (induction pending arbitrary: evs changes evs')
  case (Cons p ps)
  let ?i = "gen (map pe_id evs)"
  obtain ch evs1 where e: "path_bulkInsertEvents gen agent ps (evs @ [path_event_row ?i agent p]) = (ch, evs1)" by force
  show ?case
    using Cons.IH[OF e] Cons.prems e by (cases p) (auto simp: Let_def path_event_ids_def)
qed simp

lemma path_pushes_engine:
  "path_event_ids evs = map paths.event_id es \<Longrightarrow> watch_pushes path_ops ps (es, tbl) = Some (es', tbl') \<Longrightarrow>
   \<exists>evs'. path_pushes gen ps (evs, tbl) = Some (evs', tbl') \<and> path_event_ids evs' = map paths.event_id es'"
proof (induction ps arbitrary: evs es tbl)
  case (Cons q ps)
  obtain agent runs where q: "q = (agent, runs)" by force
  obtain new tbl1 where a: "watch_apply path_ops agent runs tbl = Some (new, tbl1)"
    and rest: "watch_pushes path_ops ps (es @ map (Pair agent) new, tbl1) = Some (es', tbl')"
    using Cons.prems(2) by (auto simp: q split: option.splits)
  obtain ch evs1 where i: "path_bulkInsertEvents gen agent new evs = (ch, evs1)" by force
  have "path_event_ids evs1 = map paths.event_id (es @ map (Pair agent) new)"
    using path_insert_ids[OF i] Cons.prems(1) by (auto simp: paths.event_id_def)
  from Cons.IH[OF this rest] show ?case by (simp add: q path_Apply_def a i)
qed simp

end
