(* ===== verification/Mtuwatch.thy ===== *)
theory Mtuwatch
  imports Watch
begin

text \<open>
  Path MTU changes (\<open>internal/server/mtuwatch/mtuwatch.go\<close>): converged path MTU measurements are
  folded into \<open>path_mtu_current\<close>, and every change of the MTU or of the black-hole verdict is
  recorded in \<open>path_mtu_events\<close>. The engine is that of theory \<open>Watch\<close>; here are the package's
  types, its decision, its rows and its event insert. Instants have the resolution of the
  \<open>timestamptz\<close> columns. The identifiers Postgres mints come from the parameter \<open>gen\<close>.
\<close>

record mtu_run =
  m_ProbeID :: uuid
  m_TargetID :: uuid
  m_Time :: gtime
  m_LargestOK :: "32 word"
  m_SmallestFailed :: "32 word"
  m_NextHopMTU :: "32 word"
  m_IPVersion :: "16 word"
  m_BlackHole :: bool
  m_LocalConstraint :: bool
  m_RttUS :: "32 word option"
  m_Usable :: bool

record mtu_current =
  mc_updatedAt :: gtime
  mc_largestOK :: "32 word"
  mc_blackHole :: bool

fun mtu_decide :: "mtu_current option \<Rightarrow> mtu_run \<Rightarrow> action" where
  "mtu_decide cur r =
     (if \<not> m_Usable r then ActionSkip
      else case cur of
        None \<Rightarrow> ActionInsert
      | Some c \<Rightarrow>
          if \<not> m_Time r > mc_updatedAt c then ActionSkip
          else if mc_largestOK c = m_LargestOK r \<and> mc_blackHole c = m_BlackHole r then ActionRefresh
          else ActionChange)"

text \<open>A row of \<open>path_mtu_current\<close>; its key is the pair (agent, probe).\<close>

record mtu_row =
  mr_target :: uuid
  mr_updated :: gtime
  mr_largest_ok :: "32 word"
  mr_smallest_failed :: "32 word"
  mr_next_hop :: "32 word"
  mr_ip_version :: "16 word"
  mr_black_hole :: bool
  mr_local :: bool
  mr_rtt :: "32 word option"

definition mtu_seed :: "mtu_run \<Rightarrow> mtu_row" where
  "mtu_seed r = \<lparr>mr_target = m_TargetID r, mr_updated = 0, mr_largest_ok = 0, mr_smallest_failed = 0, mr_next_hop = 0,
     mr_ip_version = 0, mr_black_hole = False, mr_local = False, mr_rtt = None\<rparr>"

definition mtu_final :: "mtu_run \<Rightarrow> mtu_row" where
  "mtu_final r = \<lparr>mr_target = m_TargetID r, mr_updated = m_Time r, mr_largest_ok = m_LargestOK r,
     mr_smallest_failed = m_SmallestFailed r, mr_next_hop = m_NextHopMTU r, mr_ip_version = m_IPVersion r,
     mr_black_hole = m_BlackHole r, mr_local = m_LocalConstraint r, mr_rtt = m_RttUS r\<rparr>"

definition mtu_load :: "mtu_row \<Rightarrow> mtu_current" where
  "mtu_load row = \<lparr>mc_updatedAt = mr_updated row, mc_largestOK = mr_largest_ok row, mc_blackHole = mr_black_hole row\<rparr>"

definition mtu_cur :: "mtu_run \<Rightarrow> mtu_current" where
  "mtu_cur r = \<lparr>mc_updatedAt = m_Time r, mc_largestOK = m_LargestOK r, mc_blackHole = m_BlackHole r\<rparr>"

definition mtu_ops :: "(mtu_run, mtu_current, mtu_row) watch_ops" where
  "mtu_ops = \<lparr>w_usable = m_Usable, w_time = m_Time, w_probe = m_ProbeID, w_decide = mtu_decide, w_current = mtu_cur,
     w_seed = mtu_seed, w_row = mtu_final, w_row_time = mr_updated, w_load = mtu_load\<rparr>"

text \<open>The identity the events compare.\<close>

definition mtu_ident :: "mtu_run \<Rightarrow> 32 word \<times> bool" where
  "mtu_ident r = (m_LargestOK r, m_BlackHole r)"

definition mtu_cur_ident :: "mtu_current \<Rightarrow> 32 word \<times> bool" where
  "mtu_cur_ident c = (mc_largestOK c, mc_blackHole c)"

section \<open>Events\<close>

record mtu_event =
  me_id :: uuid
  me_time :: gtime
  me_agent :: uuid
  me_probe :: uuid
  me_target :: uuid
  me_old_mtu :: "32 word"
  me_new_mtu :: "32 word"
  me_old_black :: bool
  me_new_black :: bool

record mtu_change =
  mch_EventID :: uuid
  mch_ProbeID :: uuid
  mch_OldMTU :: "32 word"
  mch_NewMTU :: "32 word"
  mch_NewBlack :: bool

fun mtu_event_row :: "uuid \<Rightarrow> uuid \<Rightarrow> mtu_run \<times> mtu_current \<Rightarrow> mtu_event" where
  "mtu_event_row i agent (r, c) =
     \<lparr>me_id = i, me_time = m_Time r, me_agent = agent, me_probe = m_ProbeID r, me_target = m_TargetID r,
      me_old_mtu = mc_largestOK c, me_new_mtu = m_LargestOK r, me_old_black = mc_blackHole c, me_new_black = m_BlackHole r\<rparr>"

fun mtu_bulkInsertEvents ::
  "(uuid list \<Rightarrow> uuid) \<Rightarrow> uuid \<Rightarrow> (mtu_run \<times> mtu_current) list \<Rightarrow> mtu_event list \<Rightarrow> mtu_change list \<times> mtu_event list" where
  "mtu_bulkInsertEvents gen agent [] evs = ([], evs)"
| "mtu_bulkInsertEvents gen agent ((r, c) # ps) evs =
     (let i = gen (map me_id evs);
          (changes, evs) = mtu_bulkInsertEvents gen agent ps (evs @ [mtu_event_row i agent (r, c)])
      in (\<lparr>mch_EventID = i, mch_ProbeID = m_ProbeID r, mch_OldMTU = mc_largestOK c, mch_NewMTU = m_LargestOK r,
           mch_NewBlack = m_BlackHole r\<rparr> # changes, evs))"

definition mtu_Apply ::
  "(uuid list \<Rightarrow> uuid) \<Rightarrow> uuid \<Rightarrow> mtu_run list \<Rightarrow> mtu_event list \<times> mtu_row watch_table
   \<Rightarrow> (mtu_change list \<times> mtu_event list \<times> mtu_row watch_table) option" where
  "mtu_Apply gen agent runs db =
     (let (evs, tbl) = db
      in case watch_apply mtu_ops agent runs tbl of
           None \<Rightarrow> None
         | Some (pending, tbl) \<Rightarrow>
             (let (changes, evs) = mtu_bulkInsertEvents gen agent pending evs in Some (changes, evs, tbl)))"

text \<open>A sequence of pushes, by any agents.\<close>

fun mtu_pushes ::
  "(uuid list \<Rightarrow> uuid) \<Rightarrow> (uuid \<times> mtu_run list) list \<Rightarrow> mtu_event list \<times> mtu_row watch_table
   \<Rightarrow> (mtu_event list \<times> mtu_row watch_table) option" where
  "mtu_pushes gen [] db = Some db"
| "mtu_pushes gen ((agent, runs) # ps) db =
     (case mtu_Apply gen agent runs db of None \<Rightarrow> None | Some (changes, db) \<Rightarrow> mtu_pushes gen ps db)"

section \<open>The package is a watcher\<close>

lemma mtu_ops_simps [simp]:
  "w_usable mtu_ops = m_Usable" "w_time mtu_ops = m_Time" "w_probe mtu_ops = m_ProbeID"
  "w_decide mtu_ops = mtu_decide" "w_current mtu_ops = mtu_cur" "w_seed mtu_ops = mtu_seed"
  "w_row mtu_ops = mtu_final" "w_row_time mtu_ops = mr_updated" "w_load mtu_ops = mtu_load"
  by (simp_all add: mtu_ops_def)

lemma mtu_load_final [simp]: "mtu_load (mtu_final r) = mtu_cur r"
  by (simp add: mtu_load_def mtu_final_def mtu_cur_def)

interpretation mtus: watcher mtu_ops mc_updatedAt mtu_ident mtu_cur_ident
  by unfold_locales (auto simp: mtu_final_def mtu_cur_def mtu_load_def mtu_seed_def mtu_ident_def mtu_cur_ident_def)

text \<open>Every change reported to the log is the event row stored under the same identifier.\<close>

lemma mtu_insert_rows:
  "mtu_bulkInsertEvents gen agent pending evs = (changes, evs') \<Longrightarrow>
   \<exists>new. evs' = evs @ new \<and> length new = length pending \<and> length changes = length pending
     \<and> new = map2 (\<lambda>c p. mtu_event_row (mch_EventID c) agent p) changes pending
     \<and> map (\<lambda>c. (mch_ProbeID c, mch_OldMTU c, mch_NewMTU c, mch_NewBlack c)) changes
         = map (\<lambda>e. (me_probe e, me_old_mtu e, me_new_mtu e, me_new_black e)) new"
proof (induction pending arbitrary: evs changes evs')
  case (Cons p ps)
  obtain r c where p: "p = (r, c)" by force
  let ?i = "gen (map me_id evs)"
  obtain ch evs1 where e: "mtu_bulkInsertEvents gen agent ps (evs @ [mtu_event_row ?i agent p]) = (ch, evs1)" by force
  show ?case
    using Cons.IH[OF e] Cons.prems e p by (auto simp: Let_def)
qed simp

text \<open>The event table carries what the engine's events carry.\<close>

definition mtu_event_ids :: "mtu_event list \<Rightarrow> (uuid \<times> uuid \<times> (32 word \<times> bool) \<times> (32 word \<times> bool)) list" where
  "mtu_event_ids evs = map (\<lambda>e. (me_agent e, me_probe e, (me_new_mtu e, me_new_black e), (me_old_mtu e, me_old_black e))) evs"

lemma mtu_insert_ids:
  "mtu_bulkInsertEvents gen agent pending evs = (changes, evs') \<Longrightarrow>
   mtu_event_ids evs' = mtu_event_ids evs @ map (\<lambda>(r, c). (agent, m_ProbeID r, mtu_ident r, mtu_cur_ident c)) pending"
proof (induction pending arbitrary: evs changes evs')
  case (Cons p ps)
  let ?i = "gen (map me_id evs)"
  obtain ch evs1 where e: "mtu_bulkInsertEvents gen agent ps (evs @ [mtu_event_row ?i agent p]) = (ch, evs1)" by force
  show ?case
    using Cons.IH[OF e] Cons.prems e by (cases p) (auto simp: Let_def mtu_event_ids_def mtu_ident_def mtu_cur_ident_def)
qed simp

lemma mtu_pushes_engine:
  "mtu_event_ids evs = map mtus.event_id es \<Longrightarrow> watch_pushes mtu_ops ps (es, tbl) = Some (es', tbl') \<Longrightarrow>
   \<exists>evs'. mtu_pushes gen ps (evs, tbl) = Some (evs', tbl') \<and> mtu_event_ids evs' = map mtus.event_id es'"
proof (induction ps arbitrary: evs es tbl)
  case (Cons q ps)
  obtain agent runs where q: "q = (agent, runs)" by force
  obtain new tbl1 where a: "watch_apply mtu_ops agent runs tbl = Some (new, tbl1)"
    and rest: "watch_pushes mtu_ops ps (es @ map (Pair agent) new, tbl1) = Some (es', tbl')"
    using Cons.prems(2) by (auto simp: q split: option.splits)
  obtain ch evs1 where i: "mtu_bulkInsertEvents gen agent new evs = (ch, evs1)" by force
  have "mtu_event_ids evs1 = map mtus.event_id (es @ map (Pair agent) new)"
    using mtu_insert_ids[OF i] Cons.prems(1) by (auto simp: mtus.event_id_def)
  from Cons.IH[OF this rest] show ?case by (simp add: q mtu_Apply_def a i)
qed simp

end
