(* ===== verification/Watch_Correct.thy ===== *)
theory Watch_Correct
  imports Pathwatch Mtuwatch
begin

text \<open>
  The properties of the two change watchers, over their own \<open>Apply\<close> and their own tables. The
  lemmas they rest on are those of the locale \<open>watcher\<close>, through its two interpretations.
\<close>


text \<open>
  Whatever pushes arrive, by whatever agents and in whatever order, the event rows of a series
  form a walk: each event starts at the hash where the previous one ended and changes it, and the
  walk ends at the hash the current row holds. A series without a row has no events, and every row
  records a complete path with a 32-byte hash.
\<close>

theorem path_history_walks:
  "\<exists>evs tbl. path_pushes gen pushes ([], Map.empty) = Some (evs, tbl)
     \<and> (\<forall>k. case tbl k of
          None \<Rightarrow> filter (\<lambda>e. (pe_agent e, pe_probe e) = k) evs = []
        | Some row \<Rightarrow> pr_reached row \<and> length (pr_hash row) = 32
            \<and> (\<exists>h. follows pe_new_hash pe_old_hash h (map (\<lambda>e. (e, e)) (filter (\<lambda>e. (pe_agent e, pe_probe e) = k) evs))
                    = Some (pr_hash row)))"
proof -
  obtain es tbl where h: "watch_pushes path_ops pushes ([], Map.empty) = Some (es, tbl)" "paths.real_rows tbl"
    "\<forall>k. case tbl k of None \<Rightarrow> row_events k (map paths.event_id es) = []
       | Some row \<Rightarrow> \<exists>i. follows id id i (row_events k (map paths.event_id es)) = Some (pc_pathHash (path_load row))"
    using paths.history_walks[of pushes] unfolding path_ops_simps by blast
  obtain evs where evs: "path_pushes gen pushes ([], Map.empty) = Some (evs, tbl)" "path_event_ids evs = map paths.event_id es"
    using path_pushes_engine[of "[]" "[]" pushes Map.empty es tbl gen] h(1) by (auto simp: path_event_ids_def)
  have ids: "row_events k (map paths.event_id es) =
      map (\<lambda>e. (pe_new_hash e, pe_old_hash e)) (filter (\<lambda>e. (pe_agent e, pe_probe e) = k) evs)" for k
    unfolding evs(2)[symmetric] path_event_ids_def row_events_def by (induction evs) auto
  have "follows pe_new_hash pe_old_hash i (map (\<lambda>e. (e, e)) (filter (\<lambda>e. (pe_agent e, pe_probe e) = k) evs))
      = follows id id i (row_events k (map paths.event_id es))" for i k
    unfolding ids by (subst follows_ids) (simp add: comp_def)
  moreover have "pr_reached row \<and> length (pr_hash row) = 32" if "tbl k = Some row" for k row
    using h(2) ranI[of tbl, OF that] by (auto simp: paths.real_rows_def path_valid_def path_final_def)
  ultimately have "case tbl k of
          None \<Rightarrow> filter (\<lambda>e. (pe_agent e, pe_probe e) = k) evs = []
        | Some row \<Rightarrow> pr_reached row \<and> length (pr_hash row) = 32
            \<and> (\<exists>h. follows pe_new_hash pe_old_hash h (map (\<lambda>e. (e, e)) (filter (\<lambda>e. (pe_agent e, pe_probe e) = k) evs))
                    = Some (pr_hash row))" for k
    using h(3)[THEN spec, of k] ids[of k] by (auto simp: path_load_def split: option.splits)
  then show ?thesis using evs(1) by blast
qed

text \<open>
  A push that is applied a second time records no event and leaves both tables as they are.
\<close>

theorem path_replay_quiet:
  assumes "path_Apply gen agent runs db = Some (changes, db')"
  shows "path_Apply gen agent runs db' = Some ([], db')"
  using assms paths.replay_quiet[of agent runs "snd db"]
  by (auto simp: path_Apply_def split: prod.splits option.splits)

definition sample_path :: "nat \<Rightarrow> gtime \<Rightarrow> byte \<Rightarrow> path_run" where
  "sample_path p t h = \<lparr>p_ProbeID = p, p_TargetID = 9, p_Time = t, p_DestReached = True,
     p_PathHash = replicate 32 h, p_Hops = [91, 93]\<rparr>"

definition sample_path_push :: "(uuid \<times> uuid) list \<times> path_event list \<times> path_row watch_table" where
  "sample_path_push = the (path_Apply length 7 [sample_path 3 20 2, sample_path 3 10 1] ([], Map.empty))"

theorem path_replay_quiet_witness:
  "fst sample_path_push = [(0, 3)] \<and>
   path_Apply length 7 [sample_path 3 20 2, sample_path 3 10 1] (snd sample_path_push) = Some ([], snd sample_path_push)"
proof -
  have app: "path_Apply length 7 [sample_path 3 20 2, sample_path 3 10 1] ([], Map.empty) = Some sample_path_push"
    by (simp add: sample_path_push_def path_Apply_def paths.apply_is_fold split: prod.split)
  have "fst sample_path_push = [(0, 3)]"
    by (simp add: sample_path_push_def path_Apply_def paths.apply_is_fold paths.run_order_def watch_probes_def watch_good_def watch_batch_def path_valid_def sample_path_def watch_one_def
        path_final_def path_load_def)
  then show ?thesis
    using path_replay_quiet[of length 7 "[sample_path 3 20 2, sample_path 3 10 1]" "([], Map.empty)" "fst sample_path_push"
        "snd sample_path_push"] app by (simp add: prod_eq_iff)
qed

text \<open>
  Whatever pushes of path MTU measurements arrive, no push fails its row count check, and the
  event rows of a series form a walk: each starts at the MTU and black-hole verdict where the
  previous one ended and changes at least one of them, and the walk ends at the current row. A
  series without a row has no events.
\<close>

theorem mtu_history_walks:
  "\<exists>evs tbl. mtu_pushes gen pushes ([], Map.empty) = Some (evs, tbl)
     \<and> (\<forall>k. case tbl k of
          None \<Rightarrow> filter (\<lambda>e. (me_agent e, me_probe e) = k) evs = []
        | Some row \<Rightarrow>
            (\<exists>m. follows (\<lambda>e. (me_new_mtu e, me_new_black e)) (\<lambda>e. (me_old_mtu e, me_old_black e)) m
                   (map (\<lambda>e. (e, e)) (filter (\<lambda>e. (me_agent e, me_probe e) = k) evs))
                 = Some (mr_largest_ok row, mr_black_hole row)))"
proof -
  obtain es tbl where h: "watch_pushes mtu_ops pushes ([], Map.empty) = Some (es, tbl)"
    "\<forall>k. case tbl k of None \<Rightarrow> row_events k (map mtus.event_id es) = []
       | Some row \<Rightarrow> \<exists>i. follows id id i (row_events k (map mtus.event_id es)) = Some (mtu_cur_ident (mtu_load row))"
    using mtus.history_walks[of pushes] unfolding mtu_ops_simps by blast
  obtain evs where evs: "mtu_pushes gen pushes ([], Map.empty) = Some (evs, tbl)" "mtu_event_ids evs = map mtus.event_id es"
    using mtu_pushes_engine[of "[]" "[]" pushes Map.empty es tbl gen] h(1) by (auto simp: mtu_event_ids_def)
  have ids: "row_events k (map mtus.event_id es) =
      map (\<lambda>e. ((me_new_mtu e, me_new_black e), (me_old_mtu e, me_old_black e))) (filter (\<lambda>e. (me_agent e, me_probe e) = k) evs)" for k
    unfolding evs(2)[symmetric] mtu_event_ids_def row_events_def by (induction evs) auto
  have "follows (\<lambda>e. (me_new_mtu e, me_new_black e)) (\<lambda>e. (me_old_mtu e, me_old_black e)) i
          (map (\<lambda>e. (e, e)) (filter (\<lambda>e. (me_agent e, me_probe e) = k) evs))
      = follows id id i (row_events k (map mtus.event_id es))" for i k
    unfolding ids by (subst follows_ids) (simp add: comp_def)
  then have "case tbl k of
          None \<Rightarrow> filter (\<lambda>e. (me_agent e, me_probe e) = k) evs = []
        | Some row \<Rightarrow>
            (\<exists>m. follows (\<lambda>e. (me_new_mtu e, me_new_black e)) (\<lambda>e. (me_old_mtu e, me_old_black e)) m
                   (map (\<lambda>e. (e, e)) (filter (\<lambda>e. (me_agent e, me_probe e) = k) evs))
                 = Some (mr_largest_ok row, mr_black_hole row))" for k
    using h(2)[THEN spec, of k] ids[of k] by (auto simp: mtu_load_def mtu_cur_ident_def split: option.splits)
  then show ?thesis using evs(1) by blast
qed

end
