(* ===== verification/Path_Mtu.thy ===== *)
theory Path_Mtu
  imports Prelude Go_Strings
begin

text \<open>
  The path MTU prober of the agent (\<open>internal/agent/probes/pathmtu.go\<close>): the bounded search over
  packet sizes (\<open>pmtuSearch\<close>), the folding of reply events, the parameters, the classification of
  the outcome, and \<open>Run\<close> as a machine.

  \<open>Run\<close> blocks on the clock, the socket and the reply channel. Each thing it learns from them is
  an \<open>input\<close>: whether the deadline has passed, how a send went, an event from the reader, the
  expiry of the attempt's timer, the cancellation of the context. \<open>pmtu_step\<close> is what the code does
  between two of them; a run is the fold of a sequence of inputs.
\<close>

section \<open>Constants and parameters\<close>

definition defaultMTUMin :: int where "defaultMTUMin = 1280"
definition defaultMTUMax :: int where "defaultMTUMax = 1500"
definition mtuFloor :: int where "mtuFloor = 68"
definition mtuCeil :: int where "mtuCeil = 9216"
definition ipv6MinMTU :: int where "ipv6MinMTU = 1280"
definition pmtuRetriesPerSize :: nat where "pmtuRetriesPerSize = 3"
definition pmtuPerProbeWait :: duration where "pmtuPerProbeWait = second"
definition pmtuMinWait :: duration where "pmtuMinWait = 200 * millisecond"

lemmas pmtu_consts [simp] = defaultMTUMin_def defaultMTUMax_def mtuFloor_def mtuCeil_def ipv6MinMTU_def
  pmtuRetriesPerSize_def pmtuPerProbeWait_def pmtuMinWait_def

datatype pmtu_param_error = BadMin | BadMax | OutOfRange | MinNotBelowMax int int | BadFamily

definition pmtuParams :: "(string \<rightharpoonup> string) \<Rightarrow> pmtu_param_error + (int \<times> int \<times> string)" where
  "pmtuParams params =
     (case (case params ''mtu.min'' of None \<Rightarrow> Some defaultMTUMin | Some v \<Rightarrow> atoi v) of
        None \<Rightarrow> Inl BadMin
      | Some minSize \<Rightarrow>
        (case (case params ''mtu.max'' of None \<Rightarrow> Some defaultMTUMax | Some v \<Rightarrow> atoi v) of
           None \<Rightarrow> Inl BadMax
         | Some maxSize \<Rightarrow>
             if minSize < mtuFloor \<or> minSize > mtuCeil \<or> maxSize < mtuFloor \<or> maxSize > mtuCeil then Inl OutOfRange
             else if minSize \<ge> maxSize then Inl (MinNotBelowMax minSize maxSize)
             else
               (let family = (case params ''mtu.family'' of None \<Rightarrow> '''' | Some f \<Rightarrow> f)
                in if family \<noteq> '''' \<and> family \<noteq> ''4'' \<and> family \<noteq> ''6'' then Inl BadFamily
                   else Inr (minSize, maxSize, family))))"

section \<open>The search\<close>

datatype sizeVerdict = verdictOK | verdictTooBig | verdictSilent | verdictLocal

datatype hiCause = causeNone | causeTooBig | causeSilent | causeLocal

record pmtuSearch =
  ps_min :: int
  ps_max :: int
  ps_v6 :: bool
  ps_lo :: int
  ps_hi :: int
  ps_cause :: hiCause
  ps_tested :: "int set"
  ps_nextHopMTU :: int
  ps_override :: int
  ps_advConfirmed :: bool

definition newPMTUSearch :: "int \<Rightarrow> int \<Rightarrow> bool \<Rightarrow> pmtuSearch" where
  "newPMTUSearch mn mx v6 = \<lparr>ps_min = mn, ps_max = mx, ps_v6 = v6, ps_lo = 0, ps_hi = mx + 1, ps_cause = causeNone,
     ps_tested = {}, ps_nextHopMTU = 0, ps_override = 0, ps_advConfirmed = False\<rparr>"

definition pmtu_done :: "pmtuSearch \<Rightarrow> bool" where
  "pmtu_done s \<longleftrightarrow> ps_lo s \<ge> ps_max s \<or> ps_hi s \<le> ps_min s \<or> ps_hi s - ps_lo s \<le> 1 \<or> ps_advConfirmed s"

definition pmtu_next :: "pmtuSearch \<Rightarrow> int option" where
  "pmtu_next s =
     (if pmtu_done s then None
      else if ps_max s \<notin> ps_tested s then Some (ps_max s)
      else if ps_override s > ps_lo s \<and> ps_override s < ps_hi s \<and> ps_override s \<notin> ps_tested s then Some (ps_override s)
      else if ps_lo s = 0 \<and> ps_min s \<notin> ps_tested s then Some (ps_min s)
      else
        (let mid = go_div (ps_lo s + ps_hi s) 2
         in if mid \<in> ps_tested s \<or> mid \<le> ps_lo s \<or> mid \<ge> ps_hi s then None else Some mid))"

definition lower_hi :: "int \<Rightarrow> hiCause \<Rightarrow> pmtuSearch \<Rightarrow> pmtuSearch" where
  "lower_hi sz c s = (if sz < ps_hi s then s\<lparr>ps_hi := sz, ps_cause := c\<rparr> else s)"

definition note_adv :: "int \<Rightarrow> int \<Rightarrow> pmtuSearch \<Rightarrow> pmtuSearch" where
  "note_adv sz adv s =
     (let floor = (if ps_v6 s then ipv6MinMTU else mtuFloor)
      in if adv \<ge> floor \<and> adv < sz \<and> (ps_nextHopMTU s = 0 \<or> adv < ps_nextHopMTU s)
         then (let s = s\<lparr>ps_nextHopMTU := adv\<rparr> in if adv \<ge> ps_min s then s\<lparr>ps_override := adv\<rparr> else s)
         else s)"

definition pmtu_record :: "int \<Rightarrow> sizeVerdict \<Rightarrow> int \<Rightarrow> pmtuSearch \<Rightarrow> pmtuSearch" where
  "pmtu_record sz v adv s =
     (let s = s\<lparr>ps_tested := insert sz (ps_tested s)\<rparr>
      in case v of
           verdictOK \<Rightarrow>
             if sz > ps_lo s \<and> sz < ps_hi s
             then (let s = s\<lparr>ps_lo := sz\<rparr>
                   in if ps_cause s = causeTooBig \<and> sz = ps_nextHopMTU s then s\<lparr>ps_advConfirmed := True\<rparr> else s)
             else s
         | verdictTooBig \<Rightarrow> note_adv sz adv (lower_hi sz causeTooBig s)
         | verdictSilent \<Rightarrow> lower_hi sz causeSilent s
         | verdictLocal \<Rightarrow> lower_hi sz causeLocal s)"

text \<open>\<open>bits.Len\<close> of a non-negative integer; a negative one reads as a \<open>uint\<close> of 64 bits.\<close>

function bits_Len :: "nat \<Rightarrow> nat" where
  "bits_Len n = (if n = 0 then 0 else Suc (bits_Len (n div 2)))"
  by pat_completeness auto
termination by (relation "measure id") auto

declare bits_Len.simps [simp del]

definition sizesLeft :: "pmtuSearch \<Rightarrow> int" where
  "sizesLeft s = int (bits_Len (nat ((ps_hi s - ps_lo s) mod 2 ^ 64))) + 1"

record pmtuOutcome =
  o_largestOK :: int
  o_smallestFailed :: int
  o_nextHopMTU :: int
  o_cause :: hiCause
  o_blackHole :: bool
  o_localConstraint :: bool

definition pmtu_outcome :: "pmtuSearch \<Rightarrow> pmtuOutcome" where
  "pmtu_outcome s =
     \<lparr>o_largestOK = ps_lo s, o_smallestFailed = (if ps_hi s \<le> ps_max s then ps_hi s else 0),
      o_nextHopMTU = ps_nextHopMTU s, o_cause = ps_cause s,
      o_blackHole = (pmtu_done s \<and> ps_lo s > 0 \<and> ps_cause s = causeSilent),
      o_localConstraint = (ps_cause s = causeLocal)\<rparr>"

text \<open>\<open>budget\<close> of \<open>icmpsession.go\<close>: the wait of one attempt.\<close>

definition budget :: "duration \<Rightarrow> int \<Rightarrow> duration \<Rightarrow> duration \<Rightarrow> duration" where
  "budget remaining rounds nominal floor =
     (let per = go_div remaining rounds;
          wait = (if per < nominal then per else nominal)
      in if floor > 0
         then (let wait = (if wait < floor then floor else wait) in if wait > remaining then remaining else wait)
         else wait)"

definition pmtu_wait :: "duration \<Rightarrow> pmtuSearch \<Rightarrow> duration" where
  "pmtu_wait remaining s = budget remaining (int pmtuRetriesPerSize * sizesLeft s) pmtuPerProbeWait pmtuMinWait"

section \<open>Run\<close>

datatype replyKind = replyNone | replyEcho | replyTooBig

record pmtuEvent =
  e_kind :: replyKind
  e_seq :: int
  e_mtu :: int
  e_at :: gtime

record sentProbe =
  sp_size :: int
  sp_at :: gtime

text \<open>
  Where \<open>Run\<close> stands: about to check the deadline, about to send, or waiting for a reply, each with
  the sz under test and the attempts left for it; finished; or failed on a send.
\<close>

datatype pmtu_phase = AtCheck int nat | AtSend int nat | Waiting int nat | Finished | WriteFailed string

record pmtu_run =
  pr_search :: pmtuSearch
  pr_sentAt :: "int \<rightharpoonup> sentProbe"
  pr_rtt :: "int \<rightharpoonup> int"
  pr_seq :: int
  pr_phase :: pmtu_phase

definition us :: "duration \<Rightarrow> int" where "us d = go_div d 1000"

text \<open>\<open>fold\<close>: the verdict when the event resolves the sz under test.\<close>

definition pmtu_fold :: "pmtuEvent \<Rightarrow> int \<Rightarrow> pmtu_run \<Rightarrow> (sizeVerdict \<times> int) option \<times> pmtu_run" where
  "pmtu_fold ev cur st =
     (case pr_sentAt st (e_seq ev) of
        None \<Rightarrow> (None, st)
      | Some sp \<Rightarrow>
        (case e_kind ev of
           replyEcho \<Rightarrow>
             (let rtt = us (time_sub (e_at ev) (sp_at sp));
                  better = (case pr_rtt st (sp_size sp) of None \<Rightarrow> True | Some old \<Rightarrow> rtt < old);
                  st = (if better then st\<lparr>pr_rtt := (pr_rtt st)(sp_size sp \<mapsto> rtt)\<rparr> else st)
              in if sp_size sp = cur then (Some (verdictOK, 0), st)
                 else (None, st\<lparr>pr_search := pmtu_record (sp_size sp) verdictOK 0 (pr_search st)\<rparr>))
         | replyTooBig \<Rightarrow>
             (if sp_size sp = cur then (Some (verdictTooBig, e_mtu ev), st)
              else (None, st\<lparr>pr_search := pmtu_record (sp_size sp) verdictTooBig (e_mtu ev) (pr_search st)\<rparr>))
         | replyNone \<Rightarrow> (None, st)))"

datatype input = Deadline bool | Sent gtime | SendTooBig | SendError string | Reply pmtuEvent | TimerFired | CtxDone

text \<open>The head of the size loop.\<close>

definition next_size :: "pmtu_run \<Rightarrow> pmtu_run" where
  "next_size st =
     st\<lparr>pr_phase := (case pmtu_next (pr_search st) of None \<Rightarrow> Finished | Some sz \<Rightarrow> AtCheck sz pmtuRetriesPerSize)\<rparr>"

text \<open>The end of its body: the verdict on the size under test is recorded.\<close>

definition conclude :: "int \<Rightarrow> sizeVerdict \<Rightarrow> int \<Rightarrow> pmtu_run \<Rightarrow> pmtu_run" where
  "conclude sz v adv st = next_size (st\<lparr>pr_search := pmtu_record sz v adv (pr_search st)\<rparr>)"

definition pmtu_init :: "int \<Rightarrow> int \<Rightarrow> bool \<Rightarrow> pmtu_run" where
  "pmtu_init mn mx v6 =
     next_size \<lparr>pr_search = newPMTUSearch mn mx v6, pr_sentAt = Map.empty, pr_rtt = Map.empty, pr_seq = 0, pr_phase = Finished\<rparr>"

text \<open>An input that the code is not waiting for in a phase is not read there: the state stays.\<close>

fun pmtu_step :: "pmtu_run \<Rightarrow> input \<Rightarrow> pmtu_run" where
  "pmtu_step st i =
     (case (pr_phase st, i) of
        (AtCheck sz n, Deadline expired) \<Rightarrow>
          if expired then st\<lparr>pr_phase := Finished\<rparr>
          else st\<lparr>pr_seq := pr_seq st + 1, pr_phase := AtSend sz n\<rparr>
      | (AtSend sz n, Sent at) \<Rightarrow>
          st\<lparr>pr_sentAt := (pr_sentAt st)(pr_seq st \<mapsto> \<lparr>sp_size = sz, sp_at = at\<rparr>), pr_phase := Waiting sz n\<rparr>
      | (AtSend sz n, SendTooBig) \<Rightarrow> conclude sz verdictLocal 0 st
      | (AtSend sz n, SendError e) \<Rightarrow> st\<lparr>pr_phase := WriteFailed e\<rparr>
      | (Waiting sz n, Reply ev) \<Rightarrow>
          (case pmtu_fold ev sz st of
             (Some (v, adv), st) \<Rightarrow> conclude sz v adv st
           | (None, st) \<Rightarrow> st)
      | (Waiting sz n, TimerFired) \<Rightarrow>
          if n \<le> 1 then conclude sz verdictSilent 0 st else st\<lparr>pr_phase := AtCheck sz (n - 1)\<rparr>
      | (Waiting sz n, CtxDone) \<Rightarrow> st\<lparr>pr_phase := Finished\<rparr>
      | _ \<Rightarrow> st)"

declare pmtu_step.simps [simp del]

abbreviation pmtu_exec :: "pmtu_run \<Rightarrow> input list \<Rightarrow> pmtu_run" where
  "pmtu_exec \<equiv> foldl pmtu_step"

section \<open>The result\<close>

datatype probe_status = StatusOK | StatusTimeout | StatusError

datatype pmtu_error =
  NoError | NotConverged | LocalCannotSend int | SuspectedBlackHole int | PathCannotCarry int | NoReplies

record path_mtu_result =
  pm_LargestOk :: u32
  pm_SmallestFailed :: u32
  pm_NextHop :: u32
  pm_IpVersion :: u32
  pm_BlackHole :: bool
  pm_RttUs :: int
  pm_Local :: bool
  pm_Status :: probe_status
  pm_Error :: pmtu_error

definition pmtu_status :: "pmtuSearch \<Rightarrow> int \<Rightarrow> probe_status \<times> pmtu_error" where
  "pmtu_status s minSize =
     (let o1 = pmtu_outcome s
      in if \<not> pmtu_done s then (StatusTimeout, NotConverged)
         else if o_localConstraint o1 \<and> o_largestOK o1 = 0 then (StatusError, LocalCannotSend minSize)
         else if o_blackHole o1 then (StatusTimeout, SuspectedBlackHole (o_largestOK o1))
         else if o_largestOK o1 = 0 \<and> o_cause o1 = causeTooBig then (StatusError, PathCannotCarry minSize)
         else if o_largestOK o1 = 0 then (StatusTimeout, NoReplies)
         else (StatusOK, NoError))"

definition pmtuFinalize :: "pmtuSearch \<Rightarrow> (int \<rightharpoonup> int) \<Rightarrow> bool \<Rightarrow> int \<Rightarrow> path_mtu_result" where
  "pmtuFinalize s rttBySize v6 minSize =
     (let o1 = pmtu_outcome s
      in \<lparr>pm_LargestOk = word_of_int (o_largestOK o1), pm_SmallestFailed = word_of_int (o_smallestFailed o1),
          pm_NextHop = word_of_int (o_nextHopMTU o1), pm_IpVersion = (if v6 then 6 else 4), pm_BlackHole = o_blackHole o1,
          pm_RttUs = (case rttBySize (o_largestOK o1) of None \<Rightarrow> - 1 | Some r \<Rightarrow> r), pm_Local = o_localConstraint o1,
          pm_Status = fst (pmtu_status s minSize), pm_Error = snd (pmtu_status s minSize)\<rparr>)"

end
