(* ===== verification/Path_Mtu_Search.thy ===== *)
theory Path_Mtu_Search
  imports Path_Mtu
begin

text \<open>
  Lemmas on the path MTU search: the invariant of \<open>pmtuSearch\<close>, that \<open>next\<close> offers a size exactly
  while the bracket is open, and that every verdict on the size offered shrinks the bracket.
\<close>

lemma go_div_pos: "0 \<le> a \<Longrightarrow> 0 < b \<Longrightarrow> go_div a b = a div b"
  by (cases "a = 0") (simp_all add: go_div_def)

definition width :: "pmtuSearch \<Rightarrow> int" where
  "width s = ps_hi s - ps_lo s"

text \<open>
  The invariant, for a range of sizes \<open>mn\<close> to \<open>mx\<close>. Contradictory evidence can invert the bracket
  (\<open>ps_hi \<le> ps_lo\<close>), so it is not part of it that the bounds are ordered; it is that no tested size
  lies strictly between them.
\<close>

definition search_ok :: "int \<Rightarrow> int \<Rightarrow> pmtuSearch \<Rightarrow> bool" where
  "search_ok mn mx s \<longleftrightarrow>
     ps_min s = mn \<and> ps_max s = mx \<and> ps_tested s \<subseteq> {mn..mx} \<and> (\<forall>t\<in>ps_tested s. t \<le> ps_lo s \<or> ps_hi s \<le> t)
     \<and> (ps_lo s = 0 \<or> ps_lo s \<in> ps_tested s) \<and> (ps_hi s = mx + 1 \<or> ps_hi s \<in> ps_tested s)
     \<and> (ps_cause s = causeNone \<longleftrightarrow> ps_hi s = mx + 1) \<and> (ps_override s = 0 \<or> mn \<le> ps_override s \<and> ps_override s < mx)
     \<and> (mx \<notin> ps_tested s \<longrightarrow> ps_tested s = {})"

lemma search_ok_bounds:
  assumes "search_ok mn mx s" "0 < mn" "mn \<le> mx"
  shows "0 \<le> ps_lo s" "ps_lo s \<le> mx" "mn \<le> ps_hi s" "ps_hi s \<le> mx + 1" "ps_lo s = 0 \<or> mn \<le> ps_lo s"
  using assms by (auto simp: search_ok_def)

lemma search_ok_new: "search_ok mn mx (newPMTUSearch mn mx v6)"
  by (simp add: search_ok_def newPMTUSearch_def)

lemma pmtu_record_simps [simp]:
  "ps_min (pmtu_record sz v adv s) = ps_min s" "ps_max (pmtu_record sz v adv s) = ps_max s"
  "ps_v6 (pmtu_record sz v adv s) = ps_v6 s" "ps_tested (pmtu_record sz v adv s) = insert sz (ps_tested s)"
  by (simp_all add: pmtu_record_def lower_hi_def note_adv_def Let_def split: sizeVerdict.split)

lemma record_lo:
  "ps_lo (pmtu_record sz v adv s) = (if v = verdictOK \<and> ps_lo s < sz \<and> sz < ps_hi s then sz else ps_lo s)"
  by (simp add: pmtu_record_def lower_hi_def note_adv_def Let_def split: sizeVerdict.split)

lemma record_hi:
  "ps_hi (pmtu_record sz v adv s) = (if v \<noteq> verdictOK \<and> sz < ps_hi s then sz else ps_hi s)"
  by (simp add: pmtu_record_def lower_hi_def note_adv_def Let_def split: sizeVerdict.split)

lemma record_cause:
  "ps_cause (pmtu_record sz v adv s) =
     (if v \<noteq> verdictOK \<and> sz < ps_hi s
      then (case v of verdictTooBig \<Rightarrow> causeTooBig | verdictSilent \<Rightarrow> causeSilent | _ \<Rightarrow> causeLocal) else ps_cause s)"
  by (simp add: pmtu_record_def lower_hi_def note_adv_def Let_def split: sizeVerdict.split)

lemma record_override:
  "ps_override (pmtu_record sz v adv s) = ps_override s
   \<or> v = verdictTooBig \<and> ps_override (pmtu_record sz v adv s) = adv \<and> ps_min s \<le> adv \<and> adv < sz"
  by (simp add: pmtu_record_def lower_hi_def note_adv_def Let_def split: sizeVerdict.split)

lemma record_nextHop:
  "ps_nextHopMTU (pmtu_record sz v adv s) = ps_nextHopMTU s
   \<or> v = verdictTooBig \<and> ps_nextHopMTU (pmtu_record sz v adv s) = adv \<and> 0 < adv"
  by (simp add: pmtu_record_def lower_hi_def note_adv_def Let_def split: sizeVerdict.split)

lemma record_adv:
  "ps_advConfirmed (pmtu_record sz v adv s) \<longleftrightarrow>
     ps_advConfirmed s \<or> v = verdictOK \<and> ps_lo s < sz \<and> sz < ps_hi s \<and> ps_cause s = causeTooBig \<and> sz = ps_nextHopMTU s"
  by (auto simp: pmtu_record_def lower_hi_def note_adv_def Let_def split: sizeVerdict.split)

lemmas record_fields = record_lo record_hi record_cause record_adv

lemma search_ok_record:
  assumes "search_ok mn mx s" "mn \<le> sz" "sz \<le> mx" "sz = mx \<or> mx \<in> ps_tested s"
  shows "search_ok mn mx (pmtu_record sz v adv s)"
  unfolding search_ok_def pmtu_record_simps
proof (intro conjI)
  have a: "ps_min s = mn" "ps_max s = mx" "ps_tested s \<subseteq> {mn..mx}" "\<forall>t\<in>ps_tested s. t \<le> ps_lo s \<or> ps_hi s \<le> t"
    "ps_lo s = 0 \<or> ps_lo s \<in> ps_tested s" "ps_hi s = mx + 1 \<or> ps_hi s \<in> ps_tested s"
    "ps_cause s = causeNone \<longleftrightarrow> ps_hi s = mx + 1" "ps_override s = 0 \<or> mn \<le> ps_override s \<and> ps_override s < mx"
    using assms(1) by (auto simp: search_ok_def)
  show "ps_min s = mn" "ps_max s = mx" "insert sz (ps_tested s) \<subseteq> {mn..mx}"
    using a assms(2,3) by auto
  show "\<forall>t\<in>insert sz (ps_tested s). t \<le> ps_lo (pmtu_record sz v adv s) \<or> ps_hi (pmtu_record sz v adv s) \<le> t"
  proof
    fix t assume "t \<in> insert sz (ps_tested s)"
    then have "t = sz \<or> t \<le> ps_lo s \<or> ps_hi s \<le> t" using a(4) by auto
    then show "t \<le> ps_lo (pmtu_record sz v adv s) \<or> ps_hi (pmtu_record sz v adv s) \<le> t"
      by (auto simp: record_lo record_hi)
  qed
  show "ps_lo (pmtu_record sz v adv s) = 0 \<or> ps_lo (pmtu_record sz v adv s) \<in> insert sz (ps_tested s)"
    "ps_hi (pmtu_record sz v adv s) = mx + 1 \<or> ps_hi (pmtu_record sz v adv s) \<in> insert sz (ps_tested s)"
    using a(5,6) by (auto simp: record_lo record_hi)
  show "(ps_cause (pmtu_record sz v adv s) = causeNone) = (ps_hi (pmtu_record sz v adv s) = mx + 1)"
    using a(7) assms(3) by (auto simp: record_cause record_hi split: sizeVerdict.split)
  show "ps_override (pmtu_record sz v adv s) = 0 \<or> mn \<le> ps_override (pmtu_record sz v adv s) \<and> ps_override (pmtu_record sz v adv s) < mx"
    using record_override[of sz v adv s] a(1,8) assms(3) by auto
  show "mx \<notin> insert sz (ps_tested s) \<longrightarrow> insert sz (ps_tested s) = {}"
    using assms(4) by auto
qed

lemma next_in_bracket:
  assumes "search_ok mn mx s" "0 < mn" "mn < mx" "pmtu_next s = Some sz"
  shows "mn \<le> sz \<and> sz \<le> mx \<and> ps_lo s < sz \<and> sz < ps_hi s \<and> sz \<notin> ps_tested s \<and> (sz = mx \<or> mx \<in> ps_tested s)"
proof -
  have nd: "\<not> pmtu_done s" using assms(4) by (auto simp: pmtu_next_def)
  note b = search_ok_bounds[OF assms(1,2)]
  have ok: "ps_min s = mn" "ps_max s = mx" "\<forall>t\<in>ps_tested s. t \<le> ps_lo s \<or> ps_hi s \<le> t"
    "ps_hi s = mx + 1 \<or> ps_hi s \<in> ps_tested s" "ps_override s = 0 \<or> mn \<le> ps_override s \<and> ps_override s < mx"
    "mx \<notin> ps_tested s \<longrightarrow> ps_tested s = {}"
    using assms(1) by (auto simp: search_ok_def)
  have gap: "ps_lo s < mx" "mn < ps_hi s" "ps_hi s - ps_lo s \<ge> 2"
    using nd ok by (auto simp: pmtu_done_def)
  consider (max) "mx \<notin> ps_tested s" "sz = mx"
    | (ovr) "mx \<in> ps_tested s" "sz = ps_override s" "ps_lo s < sz" "sz < ps_hi s" "sz \<notin> ps_tested s"
    | (min) "mx \<in> ps_tested s" "sz = mn" "ps_lo s = 0" "mn \<notin> ps_tested s"
    | (mid) "mx \<in> ps_tested s" "sz \<notin> ps_tested s" "ps_lo s < sz" "sz < ps_hi s" "ps_lo s \<noteq> 0 \<or> mn \<in> ps_tested s"
    using assms(4) nd ok(1,2) by (auto simp: pmtu_next_def Let_def split: if_splits)
  then show ?thesis
  proof cases
    case mid
    have "ps_lo s \<noteq> 0" using mid(5) ok(3) gap(2) assms(2) by force
    then show ?thesis using mid b assms(3) by auto
  qed (use gap ok b assms in auto)
qed

lemma next_None_iff:
  assumes "search_ok mn mx s" "0 < mn" "mn < mx"
  shows "pmtu_next s = None \<longleftrightarrow> pmtu_done s"
proof
  assume none: "pmtu_next s = None"
  show "pmtu_done s"
  proof (rule ccontr)
    assume nd: "\<not> pmtu_done s"
    let ?mid = "go_div (ps_lo s + ps_hi s) 2"
    have b: "0 \<le> ps_lo s" "mn \<le> ps_hi s" using search_ok_bounds[OF assms(1,2)] assms(3) by auto
    have "?mid = (ps_lo s + ps_hi s) div 2" using b assms(2) by (simp add: go_div_pos)
    moreover have "ps_hi s - ps_lo s \<ge> 2" using nd by (auto simp: pmtu_done_def)
    ultimately have "ps_lo s < ?mid" "?mid < ps_hi s" by linarith+
    moreover from this have "?mid \<in> ps_tested s"
      using none nd by (simp add: pmtu_next_def Let_def split: if_splits)
    then have "?mid \<le> ps_lo s \<or> ps_hi s \<le> ?mid" using assms(1) unfolding search_ok_def by blast
    ultimately show False by linarith
  qed
qed (simp add: pmtu_next_def)

lemma record_width_le: "width (pmtu_record sz v adv s) \<le> width s"
  by (auto simp: width_def record_lo record_hi)

lemma record_width_less: "ps_lo s < sz \<Longrightarrow> sz < ps_hi s \<Longrightarrow> width (pmtu_record sz v adv s) < width s"
  by (auto simp: width_def record_lo record_hi)

lemma done_mono: "pmtu_done s \<Longrightarrow> pmtu_done (pmtu_record sz v adv s)"
  using record_width_le[of sz v adv s]
  by (auto simp: pmtu_done_def record_fields width_def)

text \<open>A late reply for a size already tested leaves an ordered bracket alone or inverts it.\<close>

lemma late_record:
  assumes "search_ok mn mx s" "sz \<in> ps_tested s"
  shows "ps_lo (pmtu_record sz v adv s) = ps_lo s"
    and "ps_hi (pmtu_record sz v adv s) = ps_hi s \<or> ps_hi (pmtu_record sz v adv s) = sz \<and> sz \<le> ps_lo s"
  using assms by (auto simp: search_ok_def record_lo record_hi)

section \<open>Budget\<close>

lemma bits_Len_pos: "bits_Len n \<ge> 0" by simp

lemma sizesLeft_pos: "sizesLeft s \<ge> 1"
  by (simp add: sizesLeft_def)

lemma pmtu_wait_bounds:
  assumes "0 < remaining"
  shows "0 < pmtu_wait remaining s \<and> pmtu_wait remaining s \<le> remaining \<and> pmtu_wait remaining s \<le> second
    \<and> (200 * millisecond \<le> remaining \<longrightarrow> 200 * millisecond \<le> pmtu_wait remaining s)"
  using assms by (auto simp: pmtu_wait_def budget_def Let_def)

end
