(* ===== verification/Path_Mtu_Run.thy ===== *)
theory Path_Mtu_Run
  imports Path_Mtu_Search
begin

text \<open>
  Invariants of the path MTU run, proved once per transition of the machine: the three ways a state
  changes its search (a verdict on the size under test, a late reply for another size, nothing) are
  the lemmas the invariants share.
\<close>

section \<open>Transitions\<close>

fun cur_size :: "pmtu_phase \<Rightarrow> int option" where
  "cur_size (AtCheck sz n) = Some sz"
| "cur_size (AtSend sz n) = Some sz"
| "cur_size (Waiting sz n) = Some sz"
| "cur_size Finished = None"
| "cur_size (WriteFailed e) = None"

text \<open>What an event does to a waiting run.\<close>

inductive folded :: "pmtu_run \<Rightarrow> int \<Rightarrow> pmtuEvent \<Rightarrow> (sizeVerdict \<times> int) option \<Rightarrow> pmtu_run \<Rightarrow> bool" where
  Ignored: "folded st cur ev None st"
| Resolved: "pr_sentAt st (e_seq ev) = Some sp \<Longrightarrow> sp_size sp = cur \<Longrightarrow>
    v = verdictOK \<and> e_kind ev = replyEcho \<or> v = verdictTooBig \<and> adv = e_mtu ev \<and> e_kind ev = replyTooBig \<Longrightarrow>
    folded st cur ev (Some (v, adv)) (st\<lparr>pr_rtt := m\<rparr>)"
| Late: "pr_sentAt st (e_seq ev) = Some sp \<Longrightarrow> sp_size sp \<noteq> cur \<Longrightarrow>
    v = verdictOK \<and> e_kind ev = replyEcho \<or> v = verdictTooBig \<and> adv = e_mtu ev \<and> e_kind ev = replyTooBig \<Longrightarrow>
    folded st cur ev None (st\<lparr>pr_rtt := m, pr_search := pmtu_record (sp_size sp) v adv (pr_search st)\<rparr>)"

lemma pmtu_fold_folded: "pmtu_fold ev cur st = (res, st') \<Longrightarrow> folded st cur ev res st'"
proof -
  assume f: "pmtu_fold ev cur st = (res, st')"
  have id: "st = st\<lparr>pr_rtt := pr_rtt st\<rparr>" by simp
  show ?thesis
  proof (cases "pr_sentAt st (e_seq ev)")
    case None
    then show ?thesis using f by (auto simp: pmtu_fold_def intro: folded.Ignored)
  next
    case (Some sp)
    define m where "m = (case e_kind ev of replyEcho \<Rightarrow>
       (let rtt = us (time_sub (e_at ev) (sp_at sp))
        in if (case pr_rtt st (sp_size sp) of None \<Rightarrow> True | Some old \<Rightarrow> rtt < old)
           then (pr_rtt st)(sp_size sp \<mapsto> rtt) else pr_rtt st) | _ \<Rightarrow> pr_rtt st)"
    show ?thesis
    proof (cases "e_kind ev")
      case replyNone
      then show ?thesis using f Some by (auto simp: pmtu_fold_def intro: folded.Ignored)
    next
      case replyEcho
      then have "(res, st') = (if sp_size sp = cur then (Some (verdictOK, 0), st\<lparr>pr_rtt := m\<rparr>)
          else (None, st\<lparr>pr_rtt := m, pr_search := pmtu_record (sp_size sp) verdictOK 0 (pr_search st)\<rparr>))"
        using f Some by (simp add: pmtu_fold_def m_def Let_def split: if_splits)
      then show ?thesis
        using replyEcho Some folded.Resolved[of st ev sp cur verdictOK 0 m] folded.Late[of st ev sp cur verdictOK 0 m]
        by (cases "sp_size sp = cur") simp_all
    next
      case replyTooBig
      then have "(res, st') = (if sp_size sp = cur then (Some (verdictTooBig, e_mtu ev), st\<lparr>pr_rtt := m\<rparr>)
          else (None, st\<lparr>pr_rtt := m, pr_search := pmtu_record (sp_size sp) verdictTooBig (e_mtu ev) (pr_search st)\<rparr>))"
        using f Some id by (simp add: pmtu_fold_def m_def split: if_splits)
      then show ?thesis
        using replyTooBig Some folded.Resolved[of st ev sp cur verdictTooBig "e_mtu ev" m]
          folded.Late[of st ev sp cur verdictTooBig "e_mtu ev" m]
        by (cases "sp_size sp = cur") simp_all
    qed
  qed
qed

text \<open>The transitions of the machine, with what each one has seen.\<close>

inductive moves :: "pmtu_run \<Rightarrow> input \<Rightarrow> pmtu_run \<Rightarrow> bool" where
  Stay: "moves st i st"
| Stop: "pr_phase st = AtCheck sz n \<or> pr_phase st = Waiting sz n \<Longrightarrow> i = Deadline True \<or> i = CtxDone \<Longrightarrow> moves st i (st\<lparr>pr_phase := Finished\<rparr>)"
| Fail: "pr_phase st = AtSend sz n \<Longrightarrow> moves st i (st\<lparr>pr_phase := WriteFailed e\<rparr>)"
| Try: "pr_phase st = AtCheck sz n \<Longrightarrow> moves st i (st\<lparr>pr_seq := pr_seq st + 1, pr_phase := AtSend sz n\<rparr>)"
| Send: "pr_phase st = AtSend sz n \<Longrightarrow>
    moves st i (st\<lparr>pr_sentAt := (pr_sentAt st)(pr_seq st \<mapsto> \<lparr>sp_size = sz, sp_at = t\<rparr>), pr_phase := Waiting sz n\<rparr>)"
| Retry: "pr_phase st = Waiting sz n \<Longrightarrow> 1 < n \<Longrightarrow> moves st i (st\<lparr>pr_phase := AtCheck sz (n - 1)\<rparr>)"
| Local: "pr_phase st = AtSend sz n \<Longrightarrow> moves st SendTooBig (conclude sz verdictLocal 0 st)"
| Silent: "pr_phase st = Waiting sz n \<Longrightarrow> n \<le> 1 \<Longrightarrow> moves st TimerFired (conclude sz verdictSilent 0 st)"
| Answer: "pr_phase st = Waiting sz n \<Longrightarrow> folded st sz ev (Some (v, adv)) st' \<Longrightarrow> moves st (Reply ev) (conclude sz v adv st')"
| Stray: "pr_phase st = Waiting sz n \<Longrightarrow> folded st sz ev None st' \<Longrightarrow> moves st (Reply ev) st'"

lemma pmtu_step_moves: "moves st i (pmtu_step st i)"
proof (cases "pr_phase st")
  case (AtCheck sz n)
  then show ?thesis by (cases i) (auto simp: pmtu_step.simps intro: moves.intros)
next
  case (AtSend sz n)
  then show ?thesis by (cases i) (auto simp: pmtu_step.simps intro: moves.intros)
next
  case (Waiting sz n)
  show ?thesis
  proof (cases i)
    case (Reply ev)
    obtain res st' where f: "pmtu_fold ev sz st = (res, st')" by force
    have "folded st sz ev res st'" using pmtu_fold_folded[OF f] .
    then show ?thesis using Waiting Reply f
      by (cases res) (auto simp: pmtu_step.simps intro: moves.Answer moves.Stray)
  qed (use Waiting in \<open>auto simp: pmtu_step.simps not_le intro: moves.intros moves.Retry[simplified]\<close>)
qed (cases i, auto simp: pmtu_step.simps intro: moves.Stay)+

lemma exec_induct:
  assumes "P [] st0" "\<And>is i st st'. P is st \<Longrightarrow> moves st i st' \<Longrightarrow> st' = pmtu_step st i \<Longrightarrow> P (is @ [i]) st'"
  shows "P is (pmtu_exec st0 is)"
  by (induction "is" rule: rev_induct) (use assms pmtu_step_moves in auto)

section \<open>The invariant\<close>

definition testing :: "int \<Rightarrow> int \<Rightarrow> pmtuSearch \<Rightarrow> int \<Rightarrow> bool" where
  "testing mn mx s sz \<longleftrightarrow> mn \<le> sz \<and> sz \<le> mx \<and> (sz = mx \<or> mx \<in> ps_tested s)
     \<and> (ps_lo s < sz \<and> sz < ps_hi s \<or> ps_hi s \<le> ps_lo s)"

definition attempts_upto :: "int \<Rightarrow> pmtuSearch \<Rightarrow> int" where
  "attempts_upto mx s = 3 * (mx + 1 - width s)"

definition sent_ok :: "int \<Rightarrow> int \<Rightarrow> pmtu_run \<Rightarrow> int \<Rightarrow> sentProbe \<Rightarrow> bool" where
  "sent_ok mn mx st q sp \<longleftrightarrow> 1 \<le> q \<and> q \<le> pr_seq st \<and> mn \<le> sp_size sp \<and> sp_size sp \<le> mx
     \<and> (sp_size sp \<in> ps_tested (pr_search st) \<or> (\<forall>sz. cur_size (pr_phase st) = Some sz \<longrightarrow> sz = sp_size sp))"

definition run_ok :: "int \<Rightarrow> int \<Rightarrow> pmtu_run \<Rightarrow> bool" where
  "run_ok mn mx st \<longleftrightarrow>
     search_ok mn mx (pr_search st) \<and> 0 \<le> pr_seq st
     \<and> (\<forall>q sp. pr_sentAt st q = Some sp \<longrightarrow> sent_ok mn mx st q sp)
     \<and> (case pr_phase st of
          AtCheck sz n \<Rightarrow> testing mn mx (pr_search st) sz \<and> 1 \<le> n \<and> n \<le> 3
            \<and> pr_seq st \<le> attempts_upto mx (pr_search st) + (3 - int n)
        | AtSend sz n \<Rightarrow> testing mn mx (pr_search st) sz \<and> 1 \<le> n \<and> n \<le> 3 \<and> 1 \<le> pr_seq st
            \<and> pr_sentAt st (pr_seq st) = None
            \<and> pr_seq st \<le> attempts_upto mx (pr_search st) + (4 - int n)
        | Waiting sz n \<Rightarrow> testing mn mx (pr_search st) sz \<and> 1 \<le> n \<and> n \<le> 3
            \<and> pr_seq st \<le> attempts_upto mx (pr_search st) + (4 - int n)
        | _ \<Rightarrow> pr_seq st \<le> attempts_upto mx (pr_search st) + 3)"

lemma next_size_ok:
  assumes "search_ok mn mx (pr_search st)" "0 < mn" "mn < mx" "0 \<le> pr_seq st"
    and "\<forall>q sp. pr_sentAt st q = Some sp \<longrightarrow> 1 \<le> q \<and> q \<le> pr_seq st \<and> sp_size sp \<in> ps_tested (pr_search st)"
    and "pr_seq st \<le> attempts_upto mx (pr_search st) + 3"
    and "\<not> pmtu_done (pr_search st) \<Longrightarrow> pr_seq st \<le> attempts_upto mx (pr_search st)"
  shows "run_ok mn mx (next_size st)"
proof -
  have "ps_tested (pr_search st) \<subseteq> {mn..mx}" using assms(1) by (simp add: search_ok_def)
  then have sent: "\<forall>q sp. pr_sentAt st q = Some sp \<longrightarrow> sent_ok mn mx (next_size st) q sp"
    using assms(5) by (fastforce simp: sent_ok_def next_size_def)
  show ?thesis
proof (cases "pmtu_next (pr_search st)")
  case None
  then show ?thesis using assms sent by (auto simp: run_ok_def next_size_def)
next
  case (Some sz)
  have "\<not> pmtu_done (pr_search st)" using Some by (auto simp: pmtu_next_def)
  moreover have "testing mn mx (pr_search st) sz"
    using next_in_bracket[OF assms(1-3) Some] by (auto simp: testing_def)
  ultimately show ?thesis using Some assms sent by (auto simp: run_ok_def next_size_def)
qed
qed

lemma conclude_ok:
  assumes "run_ok mn mx st" "0 < mn" "mn < mx" "pr_phase st = AtSend sz n \<or> pr_phase st = Waiting sz n"
    "st' = st\<lparr>pr_rtt := m\<rparr>"
  shows "run_ok mn mx (conclude sz v adv st')"
proof -
  let ?s = "pr_search st" and ?s' = "pmtu_record sz v adv (pr_search st)"
  have t: "testing mn mx ?s sz" "1 \<le> n" and seq: "pr_seq st \<le> attempts_upto mx ?s + (4 - int n)"
    using assms(1,4) by (auto simp: run_ok_def)
  have w: "width ?s' \<le> width ?s" by (rule record_width_le)
  have late: "pr_seq st \<le> attempts_upto mx ?s'" if "\<not> pmtu_done ?s'"
  proof -
    have "ps_hi ?s' - ps_lo ?s' \<ge> 2" using that by (auto simp: pmtu_done_def)
    then have "width ?s \<ge> 2" using w by (simp add: width_def)
    then have "width ?s' < width ?s"
      using t(1) by (intro record_width_less) (auto simp: testing_def width_def)
    then show ?thesis using seq t(2) by (simp add: attempts_upto_def)
  qed
  have "search_ok mn mx ?s'"
    using search_ok_record[of mn mx ?s sz v adv] t(1) assms(1) by (auto simp: run_ok_def testing_def)
  moreover have "cur_size (pr_phase st) = Some sz" using assms(4) by auto
  then have "\<forall>q sp. pr_sentAt st q = Some sp \<longrightarrow> 1 \<le> q \<and> q \<le> pr_seq st \<and> sp_size sp \<in> insert sz (ps_tested ?s)"
    using assms(1) by (auto simp: run_ok_def sent_ok_def)
  moreover have "0 \<le> pr_seq st" using assms(1) by (simp add: run_ok_def)
  ultimately show ?thesis
    unfolding conclude_def using assms(2,3,5) w seq t(2) late
    by (intro next_size_ok) (auto simp: attempts_upto_def)
qed

lemma stray_ok:
  assumes "run_ok mn mx st" "pr_phase st = Waiting sz n" "folded st sz ev None st'"
  shows "run_ok mn mx st'"
  using assms(3)
proof cases
  case Ignored
  then show ?thesis using assms(1) by simp
next
  case (Late sp v adv m)
  let ?s = "pr_search st" and ?s' = "pmtu_record (sp_size sp) v adv (pr_search st)"
  have in_t: "sp_size sp \<in> ps_tested ?s" using assms(1,2) Late by (auto simp: run_ok_def sent_ok_def)
  have ok: "search_ok mn mx ?s" "testing mn mx ?s sz" using assms(1,2) by (auto simp: run_ok_def)
  have "search_ok mn mx ?s'"
    using ok(1) in_t by (intro search_ok_record) (auto simp: search_ok_def)
  moreover have "testing mn mx ?s' sz"
    using late_record[OF ok(1) in_t, of v adv] ok(2) by (auto simp: testing_def)
  moreover have "attempts_upto mx ?s \<le> attempts_upto mx ?s'"
    using record_width_le[of "sp_size sp" v adv ?s] by (simp add: attempts_upto_def)
  ultimately show ?thesis using assms(1,2) Late(1) by (auto simp: run_ok_def sent_ok_def)
qed

text \<open>Leaving the loops keeps what was sent within the range.\<close>

lemma stop_ok:
  assumes "run_ok mn mx st" "cur_size (pr_phase st) = Some sz" "ph = Finished \<or> ph = WriteFailed e"
  shows "run_ok mn mx (st\<lparr>pr_phase := ph\<rparr>)"
proof -
  have t: "testing mn mx (pr_search st) sz" "pr_seq st \<le> attempts_upto mx (pr_search st) + 3"
    using assms(1,2) by (auto simp: run_ok_def split: pmtu_phase.splits)
  then show ?thesis using assms by (auto simp: run_ok_def sent_ok_def)
qed

lemma run_ok_moves:
  assumes "moves st i st'" "run_ok mn mx st" "0 < mn" "mn < mx"
  shows "run_ok mn mx st'"
  using assms(1)
proof cases
  case (Stop sz n)
  then show ?thesis using stop_ok[OF assms(2), of sz] by auto
next
  case (Fail sz n e)
  then show ?thesis using stop_ok[OF assms(2), of sz] by auto
next
  case (Answer sz n ev v adv st1)
  then obtain m where "st1 = st\<lparr>pr_rtt := m\<rparr>" by (auto elim: folded.cases)
  then show ?thesis using conclude_ok[OF assms(2-4)] Answer by blast
next
  case (Stray sz n ev)
  then show ?thesis using stray_ok assms(2) by blast
next
  case (Local sz n)
  then show ?thesis using conclude_ok[OF assms(2-4), of sz n st "pr_rtt st"] by simp
next
  case (Silent sz n)
  then show ?thesis using conclude_ok[OF assms(2-4), of sz n st "pr_rtt st"] by simp
next
  case (Try sz n)
  have "pr_sentAt st (pr_seq st + 1) = None"
    using assms(2) by (cases "pr_sentAt st (pr_seq st + 1)") (fastforce simp: run_ok_def sent_ok_def)+
  moreover have "q \<le> pr_seq st + 1" if "pr_sentAt st q = Some sp" for q sp
    using assms(2) that by (fastforce simp: run_ok_def sent_ok_def)
  ultimately show ?thesis using Try assms(2) by (auto simp: run_ok_def sent_ok_def)
next
  case (Send sz n t)
  then show ?thesis using assms(2) by (fastforce simp: run_ok_def sent_ok_def testing_def)
next
  case (Retry sz n)
  then show ?thesis using assms(2) by (auto simp: run_ok_def sent_ok_def)
next
  case Stay
  then show ?thesis using assms(2) by simp
qed

lemma run_ok_init: "0 < mn \<Longrightarrow> mn < mx \<Longrightarrow> run_ok mn mx (pmtu_init mn mx v6)"
  unfolding pmtu_init_def
  by (rule next_size_ok) (auto simp: search_ok_def attempts_upto_def width_def newPMTUSearch_def)

lemma run_ok_exec: "0 < mn \<Longrightarrow> mn < mx \<Longrightarrow> run_ok mn mx (pmtu_exec (pmtu_init mn mx v6) is)"
  by (rule exec_induct[where P = "\<lambda>_. run_ok mn mx"]) (auto intro: run_ok_init run_ok_moves)

section \<open>What the bounds rest on\<close>

definition size_at :: "pmtu_run \<Rightarrow> int \<Rightarrow> int option" where
  "size_at st q = map_option sp_size (pr_sentAt st q)"

text \<open>The inputs justify a verdict on a size.\<close>

definition just :: "input set \<Rightarrow> (int \<Rightarrow> int option) \<Rightarrow> sizeVerdict \<Rightarrow> int \<Rightarrow> bool" where
  "just seen at_seq v sz =
     (case v of
        verdictOK \<Rightarrow> \<exists>ev. Reply ev \<in> seen \<and> e_kind ev = replyEcho \<and> at_seq (e_seq ev) = Some sz
      | verdictTooBig \<Rightarrow> \<exists>ev. Reply ev \<in> seen \<and> e_kind ev = replyTooBig \<and> at_seq (e_seq ev) = Some sz
      | verdictSilent \<Rightarrow> \<exists>q. at_seq q = Some sz \<and> at_seq (q + 1) = Some sz \<and> at_seq (q + 2) = Some sz
      | verdictLocal \<Rightarrow> SendTooBig \<in> seen)"

definition backed :: "input set \<Rightarrow> (int \<Rightarrow> int option) \<Rightarrow> pmtuSearch \<Rightarrow> bool" where
  "backed seen at_seq s \<longleftrightarrow>
     (ps_lo s = 0 \<or> just seen at_seq verdictOK (ps_lo s))
     \<and> (case ps_cause s of
          causeNone \<Rightarrow> True
        | causeTooBig \<Rightarrow> just seen at_seq verdictTooBig (ps_hi s)
        | causeSilent \<Rightarrow> just seen at_seq verdictSilent (ps_hi s)
        | causeLocal \<Rightarrow> just seen at_seq verdictLocal (ps_hi s))"

lemma map_leD: "f \<subseteq>\<^sub>m f' \<Longrightarrow> f x = Some y \<Longrightarrow> f' x = Some y"
  by (metis domI map_le_def)

lemma just_mono: "just seen f v sz \<Longrightarrow> seen \<subseteq> seen' \<Longrightarrow> f \<subseteq>\<^sub>m f' \<Longrightarrow> just seen' f' v sz"
  by (cases v) (auto simp: just_def, (meson map_leD subsetD)+)

lemma backed_mono: "backed seen f s \<Longrightarrow> seen \<subseteq> seen' \<Longrightarrow> f \<subseteq>\<^sub>m f' \<Longrightarrow> backed seen' f' s"
  unfolding backed_def by (auto split: hiCause.splits intro: just_mono)

lemma backed_record: "backed seen f s \<Longrightarrow> just seen f v sz \<Longrightarrow> backed seen f (pmtu_record sz v adv s)"
  by (cases v) (auto simp: backed_def record_fields split: hiCause.splits)

text \<open>The attempts at the size under test have consecutive sequence numbers.\<close>

definition burst :: "pmtu_run \<Rightarrow> bool" where
  "burst st = (case pr_phase st of
      AtCheck sz n \<Rightarrow> \<forall>q\<in>{pr_seq st - (3 - int n) + 1..pr_seq st}. size_at st q = Some sz
    | AtSend sz n \<Rightarrow> \<forall>q\<in>{pr_seq st - (3 - int n)..pr_seq st - 1}. size_at st q = Some sz
    | Waiting sz n \<Rightarrow> \<forall>q\<in>{pr_seq st - (3 - int n)..pr_seq st}. size_at st q = Some sz
    | _ \<Rightarrow> True)"

lemma burst_next_size: "burst (next_size st)"
  by (simp add: burst_def next_size_def split: option.split)

lemma conclude_simps [simp]:
  "pr_search (conclude sz v adv st) = pmtu_record sz v adv (pr_search st)" "size_at (conclude sz v adv st) = size_at st"
  "pr_sentAt (conclude sz v adv st) = pr_sentAt st" "pr_seq (conclude sz v adv st) = pr_seq st"
  by (auto simp: conclude_def next_size_def size_at_def)

lemma burst_conclude: "burst (conclude sz v adv st)"
  unfolding conclude_def by (rule burst_next_size)

lemma burst_moves:
  assumes "moves st i st'" "burst st" "run_ok mn mx st"
  shows "burst st'"
  using assms(1)
proof cases
  case (Stray sz n ev)
  from Stray(3) show ?thesis
    by cases (use assms(2) Stray(2) in \<open>auto simp: burst_def size_at_def\<close>)
next
  case (Send sz n t)
  then show ?thesis using assms(2,3) by (auto simp: burst_def size_at_def run_ok_def)
next
  case (Retry sz n)
  then show ?thesis using assms(2) by (auto simp: burst_def size_at_def of_nat_diff)
next
  case (Try sz n)
  then show ?thesis using assms(2) by (auto simp: burst_def size_at_def)
qed (use assms(2) burst_conclude in \<open>auto simp: burst_def\<close>)

lemma size_at_moves:
  assumes "moves st i st'" "run_ok mn mx st"
  shows "size_at st \<subseteq>\<^sub>m size_at st'"
  using assms(1)
proof cases
  case (Send sz n t)
  then show ?thesis using assms(2) by (auto simp: map_le_def size_at_def run_ok_def dom_def)
next
  case (Stray sz n ev)
  from Stray(3) show ?thesis by cases (auto simp: size_at_def map_le_def)
next
  case (Answer sz n ev v adv st1)
  from Answer(4) have "size_at st1 = size_at st" by cases (auto simp: size_at_def)
  then show ?thesis using Answer by (simp add: map_le_def)
qed (auto simp: size_at_def map_le_def)

text \<open>Where a verdict comes from, for every transition that records one.\<close>

lemma moves_record:
  assumes "moves st i st'" "burst st" "run_ok mn mx st"
  shows "pr_search st' = pr_search st \<or>
    (\<exists>sz v adv. pr_search st' = pmtu_record sz v adv (pr_search st) \<and> just {i} (size_at st) v sz)"
  using assms(1)
proof cases
  case (Silent sz n)
  have n: "n = 1" and b: "\<forall>q\<in>{pr_seq st - 2..pr_seq st}. size_at st q = Some sz"
    using Silent assms(2,3) by (auto simp: burst_def run_ok_def)
  have "just {i} (size_at st) verdictSilent sz"
    using b by (auto simp: just_def intro!: exI[of _ "pr_seq st - 2"])
  then show ?thesis using Silent by auto
next
  case (Local sz n)
  then have "just {i} (size_at st) verdictLocal sz" by (simp add: just_def)
  then show ?thesis using Local by auto
next
  case (Answer sz n ev v adv st1)
  from Answer(4) show ?thesis
  proof cases
    case (Resolved sp m)
    then have "just {i} (size_at st) v sz" using Answer(1,2) by (auto simp: just_def size_at_def)
    then show ?thesis using Answer(2) Resolved(1) by auto
  qed
next
  case (Stray sz n ev)
  from Stray(3) show ?thesis
  proof cases
    case (Late sp v adv m)
    then have "just {i} (size_at st) v (sp_size sp)" using Stray(1) by (auto simp: just_def size_at_def)
    then show ?thesis using Late(1) by auto
  qed simp
qed auto

lemma backed_exec:
  assumes "0 < mn" "mn < mx" "st0 = pmtu_init mn mx v6"
  shows "run_ok mn mx (pmtu_exec st0 is) \<and> burst (pmtu_exec st0 is)
    \<and> backed (set is) (size_at (pmtu_exec st0 is)) (pr_search (pmtu_exec st0 is))"
proof (rule exec_induct[where P = "\<lambda>is st. run_ok mn mx st \<and> burst st \<and> backed (set is) (size_at st) (pr_search st)"])
  show "run_ok mn mx st0 \<and> burst st0 \<and> backed (set []) (size_at st0) (pr_search st0)"
    unfolding assms(3) using run_ok_init[OF assms(1,2)]
    by (auto simp: pmtu_init_def burst_next_size backed_def) (auto simp: next_size_def newPMTUSearch_def)
next
  fix "is" i st st'
  assume P: "run_ok mn mx st \<and> burst st \<and> backed (set is) (size_at st) (pr_search st)" and m: "moves st i st'"
  note le = size_at_moves[OF m conjunct1[OF P]]
  have b: "backed (set (is @ [i])) (size_at st) (pr_search st)" using P by (auto intro: backed_mono)
  have "backed (set (is @ [i])) (size_at st) (pr_search st')"
    using moves_record[OF m conjunct1[OF conjunct2[OF P]] conjunct1[OF P]] b backed_record[OF b]
      just_mono[of "{i}" "size_at st" _ _ "set (is @ [i])" "size_at st"] by auto
  then show "run_ok mn mx st' \<and> burst st' \<and> backed (set (is @ [i])) (size_at st') (pr_search st')"
    using run_ok_moves[OF m _ assms(1,2)] burst_moves[OF m] P backed_mono[OF _ subset_refl le] by blast
qed

end
