(* ===== verification/Path_Mtu_Correct.thy ===== *)
theory Path_Mtu_Correct
  imports Path_Mtu_Run
begin

text \<open>
  The properties of the path MTU prober: what a run can send, what its result rests on, and that on
  a path with a fixed MTU it finds exactly that MTU.
\<close>

section \<open>Honest paths\<close>

text \<open>
  An input agrees with a path that carries packets of up to \<open>m\<close> bytes: sizes that were echoed fit,
  sizes refused by a router, by the local interface or by three timeouts do not.
\<close>

fun honest :: "int \<Rightarrow> pmtu_run \<Rightarrow> input \<Rightarrow> bool" where
  "honest m st (Reply ev) =
     (case pr_sentAt st (e_seq ev) of
        None \<Rightarrow> True
      | Some sp \<Rightarrow> (e_kind ev = replyEcho \<longrightarrow> sp_size sp \<le> m) \<and> (e_kind ev = replyTooBig \<longrightarrow> m < sp_size sp))"
| "honest m st TimerFired = (case pr_phase st of Waiting sz n \<Rightarrow> n \<le> 1 \<longrightarrow> m < sz | _ \<Rightarrow> True)"
| "honest m st SendTooBig = (case pr_phase st of AtSend sz n \<Rightarrow> m < sz | _ \<Rightarrow> True)"
| "honest m st i = True"

fun honest_run :: "int \<Rightarrow> pmtu_run \<Rightarrow> input list \<Rightarrow> bool" where
  "honest_run m st [] = True"
| "honest_run m st (i # is) = (honest m st i \<and> honest_run m (pmtu_step st i) is)"

text \<open>Routers that advertise an MTU advertise that of the path.\<close>

definition truthful :: "int \<Rightarrow> input list \<Rightarrow> bool" where
  "truthful m is = list_all (\<lambda>i. case i of Reply ev \<Rightarrow> e_kind ev = replyTooBig \<longrightarrow> e_mtu ev = 0 \<or> e_mtu ev = m | _ \<Rightarrow> True) is"

lemma honest_run_snoc: "honest_run m st (is @ [i]) \<longleftrightarrow> honest_run m st is \<and> honest m (pmtu_exec st is) i"
  by (induction m st "is" rule: honest_run.induct) auto

definition sound_bracket :: "int \<Rightarrow> int \<Rightarrow> pmtuSearch \<Rightarrow> bool" where
  "sound_bracket m mx s \<longleftrightarrow> ps_lo s \<le> m \<and> (m < ps_hi s \<or> ps_hi s = mx + 1)"

lemma sound_record:
  "sound_bracket m mx s \<Longrightarrow> (v = verdictOK \<longrightarrow> sz \<le> m) \<Longrightarrow> (v \<noteq> verdictOK \<longrightarrow> m < sz) \<Longrightarrow>
   sound_bracket m mx (pmtu_record sz v adv s)"
  by (auto simp: sound_bracket_def record_lo record_hi)

text \<open>The verdicts of an honest input are right.\<close>

lemma honest_moves:
  assumes "moves st i st'" "honest m st i"
  shows "pr_search st' = pr_search st \<or>
    (\<exists>sz v adv. pr_search st' = pmtu_record sz v adv (pr_search st) \<and> (v = verdictOK \<longrightarrow> sz \<le> m) \<and> (v \<noteq> verdictOK \<longrightarrow> m < sz)
       \<and> (v = verdictTooBig \<longrightarrow> (\<exists>ev. i = Reply ev \<and> e_kind ev = replyTooBig \<and> e_mtu ev = adv))
       \<and> (cur_size (pr_phase st) = Some sz \<and> st' = next_size (st'\<lparr>pr_phase := Finished\<rparr>)
          \<or> sz \<in> sp_size ` ran (pr_sentAt st) \<and> cur_size (pr_phase st) \<notin> {None, Some sz} \<and> pr_phase st' = pr_phase st))"
  using assms(1)
proof cases
  case (Local sz n)
  then show ?thesis using assms(2)
    by (intro disjI2 exI[of _ sz] exI[of _ verdictLocal] exI[of _ 0]) (simp add: conclude_def next_size_def)
next
  case (Silent sz n)
  then show ?thesis using assms(2)
    by (intro disjI2 exI[of _ sz] exI[of _ verdictSilent] exI[of _ 0]) (simp add: conclude_def next_size_def)
next
  case (Answer sz n ev v adv st1)
  from Answer(4) show ?thesis
  proof cases
    case (Resolved sp rtt)
    then show ?thesis using Answer(1-3) assms(2)
      by (intro disjI2 exI[of _ sz] exI[of _ v] exI[of _ adv]) (auto simp: conclude_def next_size_def)
  qed
next
  case (Stray sz n ev)
  from Stray(3) show ?thesis
  proof cases
    case (Late sp v adv rtt)
    then show ?thesis using Stray(1,2) assms(2)
      by (intro disjI2 exI[of _ "sp_size sp"] exI[of _ v] exI[of _ adv]) (auto intro: ranI)
  qed simp
qed auto

text \<open>Once the advertised MTU is confirmed the run is over, with that MTU as its lower bound.\<close>

definition adv_ok :: "int \<Rightarrow> bool \<Rightarrow> pmtu_run \<Rightarrow> bool" where
  "adv_ok m trusted st \<longleftrightarrow>
     (ps_advConfirmed (pr_search st) \<longrightarrow> pr_phase st = Finished \<and> ps_lo (pr_search st) = ps_nextHopMTU (pr_search st)
        \<and> 0 < ps_lo (pr_search st))
     \<and> (trusted \<longrightarrow> ps_nextHopMTU (pr_search st) \<in> {0, m})"

lemma moves_finished: "moves st i st' \<Longrightarrow> pr_phase st = Finished \<Longrightarrow> st' = st"
  by (auto elim!: moves.cases)

lemma adv_ok_moves:
  assumes "moves st i st'" "honest m st i" "run_ok mn mx st" "0 < mn" "adv_ok m trusted st"
    and "trusted \<Longrightarrow> truthful m [i]"
  shows "adv_ok m trusted st'"
proof (cases "pr_phase st = Finished")
  case True
  then show ?thesis using moves_finished[OF assms(1)] assms(5) by simp
next
  case False
  then have na: "\<not> ps_advConfirmed (pr_search st)" using assms(5) by (simp add: adv_ok_def)
  from honest_moves[OF assms(1,2)] show ?thesis
  proof (elim disjE exE conjE)
    assume "pr_search st' = pr_search st"
    then show ?thesis using assms(5) na by (simp add: adv_ok_def)
  next
    fix sz v adv
    assume r: "pr_search st' = pmtu_record sz v adv (pr_search st)"
      and tb: "v = verdictTooBig \<longrightarrow> (\<exists>ev. i = Reply ev \<and> e_kind ev = replyTooBig \<and> e_mtu ev = adv)"
      and st': "st' = next_size (st'\<lparr>pr_phase := Finished\<rparr>)"
    have "trusted \<longrightarrow> ps_nextHopMTU (pr_search st') \<in> {0, m}"
      using record_nextHop[of sz v adv "pr_search st"] tb assms(5,6) r by (auto simp: adv_ok_def truthful_def)
    moreover have "ps_lo (pr_search st') = ps_nextHopMTU (pr_search st') \<and> 0 < ps_lo (pr_search st')"
      if "ps_advConfirmed (pr_search st')"
      using that na search_ok_bounds(1)[of mn mx "pr_search st"] assms(3,4) record_nextHop[of sz v adv "pr_search st"]
      unfolding r record_adv record_lo by (auto simp: run_ok_def search_ok_def)
    moreover have "pr_phase st' = Finished" if "ps_advConfirmed (pr_search st')"
      using that by (subst st') (simp add: next_size_def pmtu_next_def pmtu_done_def)
    ultimately show ?thesis by (auto simp: adv_ok_def)
  next
    fix sz v adv
    assume r: "pr_search st' = pmtu_record sz v adv (pr_search st)"
      and tb: "v = verdictTooBig \<longrightarrow> (\<exists>ev. i = Reply ev \<and> e_kind ev = replyTooBig \<and> e_mtu ev = adv)"
      and late: "sz \<in> sp_size ` ran (pr_sentAt st)" "cur_size (pr_phase st) \<notin> {None, Some sz}"
    have "sz \<in> ps_tested (pr_search st)"
      using assms(3) late by (auto simp: run_ok_def sent_ok_def ran_def)
    then have "\<not> (ps_lo (pr_search st) < sz \<and> sz < ps_hi (pr_search st))"
      using assms(3) by (force simp: run_ok_def search_ok_def)
    then have "\<not> ps_advConfirmed (pr_search st')" using na by (auto simp: r record_adv)
    then show ?thesis
      using record_nextHop[of sz v adv "pr_search st"] tb assms(5,6) r by (auto simp: adv_ok_def truthful_def)
  qed
qed

lemma honest_exec:
  assumes "0 < mn" "mn < mx" "0 \<le> m" "st0 = pmtu_init mn mx v6"
  shows "honest_run m st0 is \<longrightarrow> run_ok mn mx (pmtu_exec st0 is) \<and> sound_bracket m mx (pr_search (pmtu_exec st0 is))
    \<and> adv_ok m (truthful m is) (pmtu_exec st0 is)"
proof (induction "is" rule: rev_induct)
  case Nil
  then show ?case using run_ok_init[OF assms(1,2), of v6] assms(3,4)
    by (auto simp: pmtu_init_def) (auto simp: sound_bracket_def adv_ok_def next_size_def newPMTUSearch_def truthful_def)
next
  case (snoc i "is")
  let ?st = "pmtu_exec st0 is"
  show ?case
  proof
    assume "honest_run m st0 (is @ [i])"
    then have h: "honest_run m st0 is" "honest m ?st i" by (simp_all add: honest_run_snoc)
    then have IH: "run_ok mn mx ?st" "sound_bracket m mx (pr_search ?st)" "adv_ok m (truthful m is) ?st"
      using snoc.IH by auto
    have mv: "moves ?st i (pmtu_step ?st i)" by (rule pmtu_step_moves)
    have "adv_ok m (truthful m (is @ [i])) (pmtu_step ?st i)"
      using IH(3) by (intro adv_ok_moves[OF mv h(2) IH(1) assms(1)]) (auto simp: adv_ok_def truthful_def)
    moreover have "sound_bracket m mx (pr_search (pmtu_step ?st i))"
      using honest_moves[OF mv h(2)] IH(2) by (auto intro: sound_record)
    ultimately show "run_ok mn mx (pmtu_exec st0 (is @ [i])) \<and> sound_bracket m mx (pr_search (pmtu_exec st0 (is @ [i])))
      \<and> adv_ok m (truthful m (is @ [i])) (pmtu_exec st0 (is @ [i]))"
      using run_ok_moves[OF mv IH(1) assms(1,2)] by simp
  qed
qed

text \<open>A run that was not abandoned ends because its search is done.\<close>

definition ended_well :: "input list \<Rightarrow> pmtu_run \<Rightarrow> bool" where
  "ended_well is st \<longleftrightarrow> (pr_phase st = Finished \<longrightarrow> pmtu_done (pr_search st) \<or> Deadline True \<in> set is \<or> CtxDone \<in> set is)"

lemma next_size_ended:
  "search_ok mn mx (pr_search st) \<Longrightarrow> 0 < mn \<Longrightarrow> mn < mx \<Longrightarrow> ended_well is (next_size st)"
  using next_None_iff[of mn mx "pr_search st"] by (simp add: ended_well_def next_size_def split: option.splits)

lemma ended_well_moves:
  assumes "moves st i st'" "run_ok mn mx st" "run_ok mn mx st'" "ended_well is st" "0 < mn" "mn < mx"
  shows "ended_well (is @ [i]) st'"
proof -
  have con: "ended_well (is @ [i]) st'" if "st' = conclude sz v adv st1" for sz v adv st1
    using that assms(3) next_size_ended[OF _ assms(5,6), of "st1\<lparr>pr_search := pmtu_record sz v adv (pr_search st1)\<rparr>"]
    by (simp add: conclude_def run_ok_def next_size_def)
  show ?thesis
    using assms(1)
  proof cases
    case (Stray sz n ev)
    from Stray(3) have "pr_phase st' = Waiting sz n" using Stray(2) by cases auto
    then show ?thesis by (simp add: ended_well_def)
  next
    case Stay
    then show ?thesis using assms(4) by (auto simp: ended_well_def)
  qed (use con in \<open>auto simp: ended_well_def\<close>)
qed

lemma finished_done:
  assumes "0 < mn" "mn < mx"
  shows "ended_well is (pmtu_exec (pmtu_init mn mx v6) is)"
proof -
  have init: "run_ok mn mx (pmtu_init mn mx v6)" "ended_well [] (pmtu_init mn mx v6)"
    using run_ok_init[OF assms] next_size_ended[OF _ assms] search_ok_new by (auto simp: pmtu_init_def)
  have "run_ok mn mx (pmtu_exec (pmtu_init mn mx v6) is) \<and> ended_well is (pmtu_exec (pmtu_init mn mx v6) is)"
    using init run_ok_moves[OF _ _ assms] ended_well_moves[OF _ _ _ _ assms]
    by (intro exec_induct[where P = "\<lambda>is st. run_ok mn mx st \<and> ended_well is st"]) blast+
  then show ?thesis by blast
qed

section \<open>Properties\<close>

text \<open>
  Whatever the network, the clock and the kernel answer, a run with accepted parameters makes
  at most 65535 send attempts, so no two of its probes ever share an ICMP sequence number; every
  probe has a size between \<open>mtu.min\<close> and \<open>mtu.max\<close>, and at that size the payload has room for the
  eight-byte token under either IP version.
\<close>

theorem pmtu_run_bounded:
  assumes "pmtuParams params = Inr (mn, mx, family)"
  shows "let st = pmtu_exec (pmtu_init mn mx v6) is
    in 0 \<le> pr_seq st \<and> pr_seq st \<le> 65535
       \<and> (\<forall>q sp. pr_sentAt st q = Some sp \<longrightarrow> 1 \<le> q \<and> q \<le> pr_seq st \<and> mn \<le> sp_size sp \<and> sp_size sp \<le> mx
            \<and> 8 \<le> sp_size sp - 40 - 8)"
proof -
  let ?st = "pmtu_exec (pmtu_init mn mx v6) is"
  have p: "68 \<le> mn" "mn < mx" "mx \<le> 9216"
    using assms by (auto simp: pmtuParams_def Let_def split: option.splits if_splits)
  have ok: "run_ok mn mx ?st" using run_ok_exec[of mn mx v6 "is"] p by simp
  have "width (pr_search ?st) \<ge> mn - mx"
    using search_ok_bounds[of mn mx "pr_search ?st"] ok p by (auto simp: run_ok_def width_def)
  then have "attempts_upto mx (pr_search ?st) + 3 \<le> 65535" using p by (simp add: attempts_upto_def)
  moreover have "pr_seq ?st \<le> attempts_upto mx (pr_search ?st) + 3"
    using ok by (auto simp: run_ok_def split: pmtu_phase.splits)
  moreover have "0 \<le> pr_seq ?st" "\<forall>q sp. pr_sentAt ?st q = Some sp \<longrightarrow> sent_ok mn mx ?st q sp"
    using ok by (auto simp: run_ok_def)
  ultimately show ?thesis using p unfolding sent_ok_def Let_def by fastforce
qed

theorem pmtu_run_bounded_witness:
  "pmtuParams Map.empty = Inr (1280, 1500, '''') \<and>
   pr_seq (pmtu_exec (pmtu_init 1280 1500 False) [Deadline False, Sent 7, TimerFired]) \<le> 65535"
  using pmtu_run_bounded[of Map.empty 1280 1500 "''''" False "[Deadline False, Sent 7, TimerFired]"]
  by (simp add: pmtuParams_def Let_def)


lemmas demo_eval = pmtu_init_def next_size_def newPMTUSearch_def pmtu_next_def pmtu_done_def pmtu_step.simps pmtu_fold_def
  conclude_def pmtu_record_def lower_hi_def note_adv_def pmtu_outcome_def

definition demo_echo :: "input list" where
  "demo_echo = [Deadline False, Sent 0, Reply \<lparr>e_kind = replyEcho, e_seq = 1, e_mtu = 0, e_at = 5\<rparr>]"


text \<open>
  C11: On a path that carries packets of up to \<open>m\<close> bytes and no larger, the bracket of a run always
  contains the truth. A run that ends without meeting its deadline, its cancellation or a send
  error has converged; and if the routers that advertise an MTU advertise that of the path, the
  largest size it then reports is exactly \<open>m\<close> (at most \<open>mtu.max\<close>), or nothing when even \<open>mtu.min\<close>
  does not fit.
\<close>

theorem pmtu_finds_path_mtu:
  assumes "0 < mn" "mn < mx" "0 \<le> m" "honest_run m (pmtu_init mn mx v6) is"
  shows "let st = pmtu_exec (pmtu_init mn mx v6) is; s = pr_search st
    in ps_lo s \<le> m \<and> (m < ps_hi s \<or> ps_hi s = mx + 1)
     \<and> (pr_phase st = Finished \<and> Deadline True \<notin> set is \<and> CtxDone \<notin> set is \<longrightarrow> pmtu_done s)
     \<and> (pmtu_done s \<and> truthful m is \<longrightarrow> o_largestOK (pmtu_outcome s) = (if m < mn then 0 else min m mx))"
proof -
  let ?st = "pmtu_exec (pmtu_init mn mx v6) is" and ?s = "pr_search (pmtu_exec (pmtu_init mn mx v6) is)"
  have h: "run_ok mn mx ?st" "sound_bracket m mx ?s" "adv_ok m (truthful m is) ?st"
    using honest_exec[OF assms(1-3) refl, of v6 "is"] assms(4) by auto
  have b: "0 \<le> ps_lo ?s" "ps_lo ?s \<le> mx" "mn \<le> ps_hi ?s" "ps_hi ?s \<le> mx + 1" "ps_lo ?s = 0 \<or> mn \<le> ps_lo ?s"
    "ps_min ?s = mn" "ps_max ?s = mx"
    using search_ok_bounds[of mn mx ?s] h(1) assms(1,2) by (auto simp: run_ok_def search_ok_def)
  have "ps_lo ?s = (if m < mn then 0 else min m mx)" if d: "pmtu_done ?s" and t: "truthful m is"
  proof (cases "ps_advConfirmed ?s")
    case True
    then have "ps_lo ?s = m \<and> 0 < ps_lo ?s" using h(3) t by (auto simp: adv_ok_def)
    then show ?thesis using b by (auto simp: min_def)
  next
    case False
    then have "ps_lo ?s \<ge> mx \<or> ps_hi ?s \<le> mn \<or> ps_hi ?s - ps_lo ?s \<le> 1" using d b by (auto simp: pmtu_done_def)
    then show ?thesis using h(2) b assms(2) unfolding sound_bracket_def by (auto simp: min_def)
  qed
  then show ?thesis
    using h(2) finished_done[OF assms(1,2), of "is" v6] by (auto simp: Let_def sound_bracket_def pmtu_outcome_def ended_well_def)
qed

definition demo_replies :: "input list" where
  "demo_replies =
     [Deadline False, Sent 0, Reply \<lparr>e_kind = replyTooBig, e_seq = 1, e_mtu = 90, e_at = 5\<rparr>,
      Deadline False, Sent 6, Reply \<lparr>e_kind = replyEcho, e_seq = 2, e_mtu = 0, e_at = 9\<rparr>]"

theorem pmtu_finds_path_mtu_witness:
  "honest_run 90 (pmtu_init 68 100 False) demo_replies \<and> truthful 90 demo_replies
   \<and> pr_phase (pmtu_exec (pmtu_init 68 100 False) demo_replies) = Finished
   \<and> o_largestOK (pmtu_outcome (pr_search (pmtu_exec (pmtu_init 68 100 False) demo_replies))) = 90"
proof -
  have "honest_run 90 (pmtu_init 68 100 False) demo_replies" "truthful 90 demo_replies"
    "pr_phase (pmtu_exec (pmtu_init 68 100 False) demo_replies) = Finished"
    "Deadline True \<notin> set demo_replies" "CtxDone \<notin> set demo_replies"
    by (simp_all add: demo_replies_def demo_eval truthful_def)
  then show ?thesis
    using pmtu_finds_path_mtu[of 68 100 90 False demo_replies] by (simp add: Let_def)
qed

section \<open>Two corners of the search\<close>

text \<open>
  A router that refuses every size and advertises one byte less each time makes the search walk
  down size by size: on the range 68 to 76 its first eight probes test 76 down to 69.
\<close>

definition stingy :: "nat \<Rightarrow> input list" where
  "stingy q = [Deadline False, Sent 0, Reply \<lparr>e_kind = replyTooBig, e_seq = int q, e_mtu = 76 - int q, e_at = 0\<rparr>]"

lemma advertised_scan:
  "ps_tested (pr_search (pmtu_exec (pmtu_init 68 76 False) (concat (map stingy [1..<9])))) = {69..76}"
proof -
  have "ps_tested (pr_search (pmtu_exec (pmtu_init 68 76 False) (concat (map stingy [1..<9])))) = {69, 70, 71, 72, 73, 74, 75, 76}"
    by (simp add: upt_rec[of _ 9] stingy_def demo_eval insert_commute)
  also have "\<dots> = {69..76}" by auto
  finally show ?thesis .
qed

text \<open>
  Contradictory replies for one size invert the bracket: the search is done, and the same size is
  reported both as the largest that passes and as the smallest that fails, with status OK.
\<close>

lemma inverted_bracket:
  defines "s \<equiv> pmtu_record 1280 verdictTooBig 0 (pmtu_record 1280 verdictOK 0 (pmtu_record 1500 verdictSilent 0 (newPMTUSearch 1280 1500 False)))"
  shows "o_largestOK (pmtu_outcome s) = 1280 \<and> o_smallestFailed (pmtu_outcome s) = 1280 \<and> pmtu_status s 1280 = (StatusOK, NoError)"
  by (simp add: s_def demo_eval pmtu_status_def)

end
