(* ===== verification/Probe_Admin.thy ===== *)
theory Probe_Admin
  imports Prelude Go_Strings "HOL-Library.Char_ord" "HOL-Library.List_Lexorder"
begin

text \<open>
  Validation of probe configurations on the server (\<open>internal/server/probeadmin/probeadmin.go\<close>):
  type names, cadence and train rules, the registry of type-specific parameters. A problem is a
  value of \<open>problem\<close> that carries what its message names; the wording of the messages is left out.
  A parameter map is an association list; \<open>params[k]\<close> of an absent key is the empty string.
\<close>

section \<open>Types\<close>

type_synonym probe_type = int

definition ICMP :: probe_type where "ICMP = 1"
definition TCP :: probe_type where "TCP = 2"
definition TLS :: probe_type where "TLS = 3"
definition HTTP :: probe_type where "HTTP = 4"
definition DNS :: probe_type where "DNS = 5"
definition TRACEROUTE :: probe_type where "TRACEROUTE = 6"
definition NTP :: probe_type where "NTP = 7"
definition PATH_MTU :: probe_type where "PATH_MTU = 8"

lemmas probe_types [simp] = ICMP_def TCP_def TLS_def HTTP_def DNS_def TRACEROUTE_def NTP_def PATH_MTU_def

definition TypeNames :: "(string \<times> probe_type) list" where
  "TypeNames = [(''icmp'', ICMP), (''tcp'', TCP), (''tls'', TLS), (''http'', HTTP), (''dns'', DNS), (''ntp'', NTP),
     (''traceroute'', TRACEROUTE), (''path_mtu'', PATH_MTU)]"

definition Names :: "string list" where
  "Names = sort (map fst TypeNames)"

definition ParseType :: "string \<Rightarrow> probe_type option" where
  "ParseType name = map_of TypeNames name"

definition TypeName :: "int \<Rightarrow> string" where
  "TypeName t = (case find (\<lambda>(name, v). v = t) TypeNames of Some (name, v) \<Rightarrow> name | None \<Rightarrow> ''type-'' @ itoa t)"

section \<open>Cadence and trains\<close>

definition DefaultTrainCount :: int where "DefaultTrainCount = 10"
definition DefaultTrainSpacing :: duration where "DefaultTrainSpacing = 200 * millisecond"

datatype problem =
  NotPositive
| TimeoutNotShorter duration duration
| TrainNegative
| SpacingWithoutCount
| TrainTooLong int duration duration duration
| DefaultTrainTooLong string duration
| MeshTooSmall string int
| RemovalStrands string int int
| NotForMesh string
| UnknownKey string string "string list"
| MeshOnlyKey string
| BadPort string string
| BadBool string string
| BadEnum string string "string list"
| BadStatus string string
| BadInt string int int string
| EmptyValue string
| BadMethod string string
| Required string bool string
| MinAboveMax int int

definition trainType :: "probe_type \<Rightarrow> bool" where
  "trainType t \<longleftrightarrow> t = ICMP"

text \<open>The product of a \<open>time.Duration\<close> wraps at 64 bits.\<close>

definition wrap64 :: "int \<Rightarrow> int" where
  "wrap64 x = (x + 2 ^ 63) mod 2 ^ 64 - 2 ^ 63"

lemma wrap64_id: "- (2 ^ 63) \<le> x \<Longrightarrow> x < 2 ^ 63 \<Longrightarrow> wrap64 x = x"
  by (simp add: wrap64_def)

definition ValidateSettings :: "probe_type \<Rightarrow> duration \<Rightarrow> duration \<Rightarrow> int \<Rightarrow> duration \<Rightarrow> problem list" where
  "ValidateSettings t interval timeout trainCount trainSpacing =
     (if interval \<le> 0 \<or> timeout \<le> 0 then [NotPositive]
      else if timeout \<ge> interval then [TimeoutNotShorter timeout interval]
      else [])
     @ (if trainCount < 0 \<or> trainSpacing < 0 then [TrainNegative]
        else if trainCount = 0 \<and> trainSpacing > 0 then [SpacingWithoutCount]
        else if timeout \<le> 0 then []
        else if trainCount > 0 then
          (let effSpacing = (if trainSpacing = 0 then DefaultTrainSpacing else trainSpacing);
               trainLen = wrap64 (trainCount * effSpacing)
           in if trainLen \<ge> timeout then [TrainTooLong trainCount effSpacing trainLen timeout] else [])
        else if trainType t then
          (if DefaultTrainCount * DefaultTrainSpacing \<ge> timeout then [DefaultTrainTooLong (TypeName t) timeout] else [])
        else [])"

section \<open>The parameter registry\<close>

datatype ParamKind = KindString | KindPort | KindBool | KindEnum | KindStatus | KindInt

record ParamSpec =
  spec_Key :: string
  spec_Kind :: ParamKind
  spec_Enum :: "string list"
  spec_Min :: int
  spec_Max :: int
  spec_RequiredMesh :: bool
  spec_RequiredDirect :: bool
  spec_MeshOnly :: bool

definition plain_spec :: "string \<Rightarrow> ParamKind \<Rightarrow> ParamSpec" where
  "plain_spec k kd = \<lparr>spec_Key = k, spec_Kind = kd, spec_Enum = [], spec_Min = 0, spec_Max = 0,
     spec_RequiredMesh = False, spec_RequiredDirect = False, spec_MeshOnly = False\<rparr>"

definition meshPortSpec :: ParamSpec where
  "meshPortSpec = (plain_spec ''port'' KindPort)\<lparr>spec_RequiredMesh := True, spec_MeshOnly := True\<rparr>"

definition MTUFloor :: int where "MTUFloor = 68"
definition MTUCeil :: int where "MTUCeil = 9216"
definition DefaultMTUMin :: int where "DefaultMTUMin = 1280"
definition DefaultMTUMax :: int where "DefaultMTUMax = 1500"

definition registry :: "probe_type \<Rightarrow> ParamSpec list" where
  "registry t =
     (if t = TCP then [meshPortSpec]
      else if t = TLS then
        [meshPortSpec, plain_spec ''tls.sni'' KindString, plain_spec ''tls.insecure_skip_verify'' KindBool]
      else if t = HTTP then
        [plain_spec ''http.method'' KindString, plain_spec ''http.expect_status'' KindStatus,
         plain_spec ''http.insecure_skip_verify'' KindBool]
      else if t = DNS then
        [(plain_spec ''dns.qname'' KindString)\<lparr>spec_RequiredMesh := True, spec_RequiredDirect := True\<rparr>,
         (plain_spec ''dns.qtype'' KindEnum)\<lparr>spec_Enum := [''A'', ''AAAA'', ''CNAME'', ''MX'', ''NS'', ''PTR'', ''SOA'', ''SRV'', ''TXT'']\<rparr>,
         (plain_spec ''dns.expect_rcode'' KindEnum)\<lparr>spec_Enum := [''NOERROR'', ''FORMERR'', ''SERVFAIL'', ''NXDOMAIN'', ''NOTIMPL'', ''REFUSED'']\<rparr>,
         plain_spec ''dns.resolver'' KindString]
      else if t = PATH_MTU then
        [(plain_spec ''mtu.min'' KindInt)\<lparr>spec_Min := MTUFloor, spec_Max := MTUCeil\<rparr>,
         (plain_spec ''mtu.max'' KindInt)\<lparr>spec_Min := MTUFloor, spec_Max := MTUCeil\<rparr>,
         (plain_spec ''mtu.family'' KindEnum)\<lparr>spec_Enum := [''4'', ''6'']\<rparr>]
      else [])"

definition DirectOnly :: "probe_type \<Rightarrow> bool" where
  "DirectOnly t \<longleftrightarrow> t = HTTP \<or> t = NTP"

definition MinMeshMembers :: int where "MinMeshMembers = 2"

definition ValidateMeshMembers :: "string \<Rightarrow> int \<Rightarrow> problem list" where
  "ValidateMeshMembers meshName members = (if members \<ge> MinMeshMembers then [] else [MeshTooSmall meshName members])"

definition ValidateMeshMemberRemoval :: "string \<Rightarrow> int \<Rightarrow> int \<Rightarrow> problem list" where
  "ValidateMeshMemberRemoval meshName membersAfter templates =
     (if templates = 0 \<or> membersAfter \<ge> MinMeshMembers then [] else [RemovalStrands meshName membersAfter templates])"

section \<open>Warnings\<close>

datatype warning = MeshResolver | NtpTooEager | MtuTimeoutShort | MtuJumbo int

definition NTPRecommendedMinInterval :: duration where "NTPRecommendedMinInterval = 60 * second"
definition PathMTURecommendedMinTimeout :: duration where "PathMTURecommendedMinTimeout = 10 * second"

type_synonym params = "(string \<times> string) list"

definition param :: "params \<Rightarrow> string \<Rightarrow> string" where
  "param ps k = (case map_of ps k of None \<Rightarrow> '''' | Some v \<Rightarrow> v)"

definition Warnings :: "probe_type \<Rightarrow> bool \<Rightarrow> duration \<Rightarrow> duration \<Rightarrow> params \<Rightarrow> warning list" where
  "Warnings t mesh interval timeout ps =
     (if mesh \<and> t = DNS \<and> param ps ''dns.resolver'' = '''' then [MeshResolver] else [])
     @ (if t = NTP \<and> interval > 0 \<and> interval < NTPRecommendedMinInterval then [NtpTooEager] else [])
     @ (if t = PATH_MTU then
          (if timeout > 0 \<and> timeout < PathMTURecommendedMinTimeout then [MtuTimeoutShort] else [])
          @ (if param ps ''mtu.max'' \<noteq> '''' then
               (case atoi (param ps ''mtu.max'') of Some n \<Rightarrow> if n > DefaultMTUMax then [MtuJumbo n] else [] | None \<Rightarrow> [])
             else [])
        else [])"

section \<open>Values\<close>

text \<open>
  \<open>strings.ToUpper\<close>, as far as comparing its result with upper-case ASCII words can tell: ASCII
  letters are mapped, and of all other runes only the dotless i (U+0131) and the long s (U+017F)
  have an ASCII upper case.
\<close>

fun to_upper :: "string \<Rightarrow> string" where
  "to_upper [] = []"
| "to_upper (c # cs) =
     (if (of_char c :: nat) = 0xC4 \<and> cs \<noteq> [] \<and> (of_char (hd cs) :: nat) = 0xB1 then CHR ''I'' # to_upper (tl cs)
      else if (of_char c :: nat) = 0xC5 \<and> cs \<noteq> [] \<and> (of_char (hd cs) :: nat) = 0xBF then CHR ''S'' # to_upper (tl cs)
      else (if (of_char c :: nat) \<in> {97..122} then char_of ((of_char c :: nat) - 32) else c) # to_upper cs)"

definition is_digit :: "char \<Rightarrow> bool" where
  "is_digit c \<longleftrightarrow> (of_char c :: nat) \<in> {48..57}"

definition status_ok :: "string \<Rightarrow> bool" where
  "status_ok v \<longleftrightarrow> length v = 3 \<and> (of_char (v ! 0) :: nat) \<in> {49..53}
     \<and> (v ! 1 = CHR ''x'' \<and> v ! 2 = CHR ''x'' \<or> is_digit (v ! 1) \<and> is_digit (v ! 2))"

definition validateValue :: "ParamSpec \<Rightarrow> string \<Rightarrow> problem option" where
  "validateValue spec v =
     (case spec_Kind spec of
        KindPort \<Rightarrow>
          (case atoi v of
             None \<Rightarrow> Some (BadPort (spec_Key spec) v)
           | Some n \<Rightarrow> if n < 1 \<or> n > 65535 then Some (BadPort (spec_Key spec) v) else None)
      | KindBool \<Rightarrow> if v \<noteq> ''true'' \<and> v \<noteq> ''false'' then Some (BadBool (spec_Key spec) v) else None
      | KindEnum \<Rightarrow> if to_upper v \<notin> set (spec_Enum spec) then Some (BadEnum (spec_Key spec) v (spec_Enum spec)) else None
      | KindStatus \<Rightarrow> if \<not> status_ok v then Some (BadStatus (spec_Key spec) v) else None
      | KindInt \<Rightarrow>
          (case atoi v of
             None \<Rightarrow> Some (BadInt (spec_Key spec) (spec_Min spec) (spec_Max spec) v)
           | Some n \<Rightarrow> if n < spec_Min spec \<or> n > spec_Max spec
                       then Some (BadInt (spec_Key spec) (spec_Min spec) (spec_Max spec) v) else None)
      | KindString \<Rightarrow>
          if trim_space v = '''' then Some (EmptyValue (spec_Key spec))
          else if spec_Key spec = ''http.method'' \<and> contains_any v [CHR '' '', CHR 0x09] then Some (BadMethod (spec_Key spec) v)
          else None)"

definition check_key :: "probe_type \<Rightarrow> bool \<Rightarrow> params \<Rightarrow> string \<Rightarrow> problem list" where
  "check_key t mesh ps k =
     (case find (\<lambda>s. spec_Key s = k) (rev (registry t)) of
        None \<Rightarrow> [UnknownKey k (TypeName t) (map spec_Key (registry t))]
      | Some spec \<Rightarrow>
          if spec_MeshOnly spec \<and> \<not> mesh then [MeshOnlyKey k]
          else (case validateValue spec (param ps k) of None \<Rightarrow> [] | Some p \<Rightarrow> [p]))"

definition check_required :: "probe_type \<Rightarrow> bool \<Rightarrow> params \<Rightarrow> ParamSpec \<Rightarrow> problem list" where
  "check_required t mesh ps s =
     (if (mesh \<and> spec_RequiredMesh s \<or> \<not> mesh \<and> spec_RequiredDirect s) \<and> param ps (spec_Key s) = ''''
      then [Required (spec_Key s) (spec_MeshOnly s) (TypeName t)] else [])"

text \<open>An effective bound: the default when the value is empty, nothing when it does not parse.\<close>

definition eff_bound :: "int \<Rightarrow> string \<Rightarrow> int option" where
  "eff_bound dflt v = (if v = '''' then Some dflt else atoi v)"

definition check_mtu :: "params \<Rightarrow> problem list" where
  "check_mtu ps =
     (case (eff_bound DefaultMTUMin (param ps ''mtu.min''), eff_bound DefaultMTUMax (param ps ''mtu.max'')) of
        (Some effMin, Some effMax) \<Rightarrow> if effMin \<ge> effMax then [MinAboveMax effMin effMax] else []
      | _ \<Rightarrow> [])"

definition ValidateParams :: "probe_type \<Rightarrow> bool \<Rightarrow> params \<Rightarrow> problem list" where
  "ValidateParams t mesh ps =
     (if mesh \<and> DirectOnly t then [NotForMesh (TypeName t)] else [])
     @ concat (map (check_key t mesh ps) (sort (remdups (map fst ps))))
     @ concat (map (check_required t mesh ps) (registry t))
     @ (if t = PATH_MTU then check_mtu ps else [])"

section \<open>Lemmas\<close>

lemma ValidateParams_Nil_key:
  assumes "ValidateParams t mesh ps = []" "map_of ps k = Some v"
  shows "\<exists>spec\<in>set (registry t). spec_Key spec = k \<and> (spec_MeshOnly spec \<longrightarrow> mesh) \<and> validateValue spec v = None"
proof -
  have "k \<in> set (map fst ps)" using assms(2) by (force dest: map_of_SomeD)
  then have "check_key t mesh ps k = []" using assms(1) by (auto simp: ValidateParams_def)
  then show ?thesis
    using assms(2) by (auto simp: check_key_def param_def find_Some_iff split: option.splits if_splits)
      (metis length_rev nth_mem set_rev)+
qed

lemma ValidateParams_Nil_required:
  assumes "ValidateParams t mesh ps = []" "s \<in> set (registry t)" "mesh \<and> spec_RequiredMesh s \<or> \<not> mesh \<and> spec_RequiredDirect s"
  shows "param ps (spec_Key s) \<noteq> ''''"
  using assms by (auto simp: ValidateParams_def check_required_def)

text \<open>A round trip: every admin-facing name parses, and its type prints back as that name.\<close>

lemma type_names_distinct: "distinct (map fst TypeNames)" "distinct (map snd TypeNames)"
  by (simp_all add: TypeNames_def)

lemma TypeName_ParseType: "ParseType name = Some t \<Longrightarrow> TypeName t = name"
  by (auto simp: ParseType_def TypeName_def TypeNames_def split: if_splits)

end
