(* ===== verification/Meshexpand.thy ===== *)
theory Meshexpand
  imports Probe_Admin
begin

text \<open>
  Expansion of an agent's assignments into its configuration snapshot
  (\<open>internal/server/meshexpand/meshexpand.go\<close>, \<open>internal/server/probeid/probeid.go\<close>). The code calls
  three libraries whose sources are not here; they are parameters: \<open>new_sha1\<close> and \<open>uuid_str\<close>
  (\<open>uuid.NewSHA1\<close>, \<open>UUID.String\<close>), \<open>marshal\<close> (the deterministic protobuf encoding) and \<open>sha256\<close>.
  Probe and target ids are kept as UUIDs rather than in their text form; the two order alike.
\<close>

section \<open>Rows and specs\<close>

record probe_settings =
  ps_ProbeType :: int
  ps_Interval :: duration
  ps_Timeout :: duration
  ps_TrainCount :: int
  ps_TrainSpacing :: duration
  ps_Params :: params

record direct_row =
  d_ID :: uuid
  d_Settings :: probe_settings
  d_TargetID :: uuid
  d_Kind :: string
  d_Address :: string
  d_Port :: int
  d_URL :: string
  d_DstSiteID :: "uuid option"

record mesh_row =
  m_ConfigID :: uuid
  m_MeshID :: uuid
  m_Settings :: probe_settings

record peer_row =
  p_MeshID :: uuid
  p_AgentID :: uuid
  p_SiteID :: uuid
  p_TargetID :: uuid
  p_ProbeAddress :: string

record agent_inputs =
  in_AgentID :: uuid
  in_SiteID :: uuid
  in_NetworkID :: uuid
  in_Direct :: "direct_row list"
  in_Mesh :: "mesh_row list"
  in_Peers :: "peer_row list"

datatype target_kind = External | AgentPeer

record target =
  t_Kind :: target_kind
  t_TargetId :: uuid
  t_Address :: string
  t_Port :: u32
  t_Url :: string

record probe_spec =
  s_ProbeId :: uuid
  s_Type :: int
  s_Target :: target
  s_Interval :: duration
  s_Timeout :: duration
  s_TrainCount :: u32
  s_TrainSpacing :: "duration option"
  s_Params :: params

section \<open>The pieces\<close>

definition MeshProbeID :: "(uuid \<Rightarrow> string \<Rightarrow> uuid) \<Rightarrow> (uuid \<Rightarrow> string) \<Rightarrow> uuid \<Rightarrow> uuid \<Rightarrow> uuid \<Rightarrow> uuid" where
  "MeshProbeID new_sha1 uuid_str templateID srcSiteID targetID =
     new_sha1 templateID (uuid_str srcSiteID @ ''|'' @ uuid_str targetID)"

text \<open>
  \<open>fmt.Sscanf(s, "%d", &port)\<close> into a \<open>uint32\<close>: leading blanks are skipped (a newline is an error),
  then at least one decimal digit must follow, without a sign; a value past 32 bits is an error. On
  an error the variable keeps its value.
\<close>

function skip_space :: "string \<Rightarrow> string option" where
  "skip_space s =
     (if s \<noteq> [] \<and> (of_char (hd s) :: nat) = 10 then None
      else if 0 < space_len s \<and> space_len s \<le> length s then skip_space (drop (space_len s) s)
      else Some s)"
  by pat_completeness auto
termination by (relation "measure length") auto

declare skip_space.simps [simp del]

definition sscanf_u32 :: "string \<Rightarrow> u32 option" where
  "sscanf_u32 s =
     (case skip_space s of
        None \<Rightarrow> None
      | Some s \<Rightarrow>
          (case parse_uint64 (takeWhile is_digit s) of
             None \<Rightarrow> None
           | Some w \<Rightarrow> if unat w < 2 ^ 32 then Some (ucast w) else None))"

definition meshPort :: "params \<Rightarrow> u32" where
  "meshPort ps = (case sscanf_u32 (param ps ''port'') of None \<Rightarrow> 0 | Some port \<Rightarrow> port)"

definition mk_spec :: "uuid \<Rightarrow> probe_settings \<Rightarrow> target \<Rightarrow> probe_spec" where
  "mk_spec i ps tgt =
     \<lparr>s_ProbeId = i, s_Type = ps_ProbeType ps, s_Target = tgt, s_Interval = ps_Interval ps, s_Timeout = ps_Timeout ps,
      s_TrainCount = (if ps_TrainCount ps > 0 then word_of_int (ps_TrainCount ps) else 0),
      s_TrainSpacing = (if ps_TrainCount ps > 0 then Some (ps_TrainSpacing ps) else None),
      s_Params = (if ps_Params ps \<noteq> [] then ps_Params ps else [])\<rparr>"

definition direct_spec :: "direct_row \<Rightarrow> probe_spec" where
  "direct_spec d =
     mk_spec (d_ID d) (d_Settings d)
       \<lparr>t_Kind = (if d_Kind d = ''agent'' then AgentPeer else External), t_TargetId = d_TargetID d, t_Address = d_Address d,
        t_Port = word_of_int (d_Port d), t_Url = d_URL d\<rparr>"

definition mesh_spec :: "(uuid \<Rightarrow> string \<Rightarrow> uuid) \<Rightarrow> (uuid \<Rightarrow> string) \<Rightarrow> uuid \<Rightarrow> mesh_row \<Rightarrow> peer_row \<Rightarrow> probe_spec" where
  "mesh_spec new_sha1 uuid_str site m p =
     mk_spec (MeshProbeID new_sha1 uuid_str (m_ConfigID m) site (p_TargetID p)) (m_Settings m)
       \<lparr>t_Kind = AgentPeer, t_TargetId = p_TargetID p, t_Address = p_ProbeAddress p, t_Port = meshPort (ps_Params (m_Settings m)),
        t_Url = ''''\<rparr>"

section \<open>The snapshot\<close>

definition put_uint64 :: "u64 \<Rightarrow> byte list" where
  "put_uint64 w = map (\<lambda>i. ucast (drop_bit (8 * i) w)) [0..<8]"

text \<open>What \<open>hashSpecs\<close> feeds to the hash.\<close>

definition framed :: "byte list \<Rightarrow> byte list" where
  "framed b = put_uint64 (word_of_nat (length b)) @ b"

definition hash_chunk :: "(probe_spec \<Rightarrow> byte list option) \<Rightarrow> probe_spec \<Rightarrow> byte list" where
  "hash_chunk marshal s =
     (case marshal s of
        None \<Rightarrow> map (\<lambda>c. word_of_nat (of_char c)) ''marshal-error''
      | Some b \<Rightarrow> framed b)"

definition hashSpecs :: "(probe_spec \<Rightarrow> byte list option) \<Rightarrow> (byte list \<Rightarrow> string) \<Rightarrow> probe_spec list \<Rightarrow> string" where
  "hashSpecs marshal sha256 specs = sha256 (concat (map (hash_chunk marshal) specs))"

record config_snapshot =
  c_ConfigHash :: string
  c_Probes :: "probe_spec list"

text \<open>The first probe id that equals its predecessor.\<close>

fun adjacent_dup :: "uuid list \<Rightarrow> uuid option" where
  "adjacent_dup (a # b # xs) = (if a = b then Some b else adjacent_dup (b # xs))"
| "adjacent_dup _ = None"

definition mesh_pairs :: "agent_inputs \<Rightarrow> (mesh_row \<times> peer_row) list" where
  "mesh_pairs inp =
     concat (map (\<lambda>m. map (Pair m) (filter (\<lambda>p. \<not> (p_MeshID p \<noteq> m_MeshID m \<or> p_SiteID p = in_SiteID inp)) (in_Peers inp))) (in_Mesh inp))"

definition expand :: "(uuid \<Rightarrow> string \<Rightarrow> uuid) \<Rightarrow> (uuid \<Rightarrow> string) \<Rightarrow> agent_inputs \<Rightarrow> probe_spec list" where
  "expand new_sha1 uuid_str inp =
     map direct_spec (in_Direct inp) @ map (\<lambda>(m, p). mesh_spec new_sha1 uuid_str (in_SiteID inp) m p) (mesh_pairs inp)"

text \<open>The error is the duplicated id.\<close>

definition BuildSnapshot ::
  "(uuid \<Rightarrow> string \<Rightarrow> uuid) \<Rightarrow> (uuid \<Rightarrow> string) \<Rightarrow> (probe_spec \<Rightarrow> byte list option) \<Rightarrow> (byte list \<Rightarrow> string) \<Rightarrow> agent_inputs
   \<Rightarrow> uuid + config_snapshot" where
  "BuildSnapshot new_sha1 uuid_str marshal sha256 inp =
     (let specs = sort_key s_ProbeId (expand new_sha1 uuid_str inp)
      in case adjacent_dup (map s_ProbeId specs) of
           Some i \<Rightarrow> Inl i
         | None \<Rightarrow> Inr \<lparr>c_ConfigHash = hashSpecs marshal sha256 specs, c_Probes = specs\<rparr>)"

section \<open>Lemmas\<close>

lemma adjacent_dup_None: "sorted xs \<Longrightarrow> adjacent_dup xs = None \<longleftrightarrow> distinct xs"
proof (induction xs rule: adjacent_dup.induct)
  case (1 a b xs)
  then show ?case by (auto intro: antisym)
qed simp_all

lemma mset_concat_map: "mset (concat (map f xs)) = sum_mset (image_mset (\<lambda>x. mset (f x)) (mset xs))"
  by (induction xs) simp_all

lemma mset_mesh_pairs:
  assumes "mset (in_Mesh inp) = mset (in_Mesh inp')" "mset (in_Peers inp) = mset (in_Peers inp')" "in_SiteID inp = in_SiteID inp'"
  shows "mset (mesh_pairs inp) = mset (mesh_pairs inp')"
  by (simp only: mesh_pairs_def mset_concat_map mset_map mset_filter assms)

lemma distinct_pairs: "distinct ms \<Longrightarrow> distinct ps \<Longrightarrow> distinct (concat (map (\<lambda>m. map (Pair m) (filter (P m) ps)) ms))"
  by (induction ms) (auto simp: distinct_map inj_on_def)

text \<open>The frames of the hash input can be read back.\<close>

lemma length_put_uint64 [simp]: "length (put_uint64 w) = 8"
  by (simp add: put_uint64_def)

lemma put_uint64_inject: "put_uint64 a = put_uint64 b \<longleftrightarrow> a = b"
proof
  assume e: "put_uint64 a = put_uint64 b"
  show "a = b"
  proof (rule bit_word_eqI)
    fix n assume "n < LENGTH(64)"
    then have i: "n div 8 < 8" by simp
    have "(ucast (drop_bit (8 * (n div 8)) a) :: byte) = ucast (drop_bit (8 * (n div 8)) b)"
      using arg_cong[OF e, of "\<lambda>xs. xs ! (n div 8)"] i by (simp add: put_uint64_def)
    then have "bit (ucast (drop_bit (8 * (n div 8)) a) :: byte) (n mod 8) = bit (ucast (drop_bit (8 * (n div 8)) b) :: byte) (n mod 8)"
      by simp
    then show "bit a n = bit b n" by (simp add: bit_ucast_iff bit_drop_bit_eq)
  qed
qed simp

lemma unat_of_nat64: "n < 2 ^ 64 \<Longrightarrow> unat (word_of_nat n :: u64) = n"
  using unsigned_of_nat[of n, where 'a = nat and 'b = 64] take_bit_nat_eq_self[of n 64] by simp

lemma framed_append_inject:
  assumes "framed x @ a = framed y @ b" "length x < 2 ^ 64" "length y < 2 ^ 64"
  shows "x = y \<and> a = b"
proof -
  have e: "put_uint64 (word_of_nat (length x)) = put_uint64 (word_of_nat (length y)) \<and> x @ a = y @ b"
    using assms(1) unfolding framed_def append_assoc by (subst (asm) append_eq_append_conv) auto
  then have "(word_of_nat (length x) :: u64) = word_of_nat (length y)" by (simp only: put_uint64_inject)
  then have "length x = length y"
    using unat_of_nat64[OF assms(2)] unat_of_nat64[OF assms(3)] by metis
  then show ?thesis using e by simp
qed

lemma framed_not_Nil: "framed b \<noteq> []"
  by (metis append_is_Nil_conv framed_def length_put_uint64 list.size(3) zero_neq_numeral)

lemma frames_inject:
  "\<forall>b\<in>set xs \<union> set ys. length b < 2 ^ 64 \<Longrightarrow> concat (map framed xs) = concat (map framed ys) \<Longrightarrow> xs = ys"
proof (induction xs arbitrary: ys)
  case Nil
  then show ?case by (cases ys) (simp_all add: framed_not_Nil)
next
  case (Cons x xs)
  obtain y ys' where ys: "ys = y # ys'" using Cons.prems(2) by (cases ys) (simp_all add: framed_not_Nil)
  then have "x = y \<and> concat (map framed xs) = concat (map framed ys')"
    using Cons.prems by (intro framed_append_inject) simp_all
  then show ?case using Cons.IH[of ys'] Cons.prems(1) by (simp add: ys)
qed

lemma expansion_complete:
  assumes "distinct (map d_ID (in_Direct inp))" "distinct (map m_ConfigID (in_Mesh inp))"
    and "distinct (map (\<lambda>p. (p_MeshID p, p_TargetID p)) (in_Peers inp))"
    and printing: "inj_on uuid_str (p_TargetID ` set (in_Peers inp))"
    and hashing: "inj_on (\<lambda>(t, n). new_sha1 t n)
        ((\<lambda>(m, p). (m_ConfigID m, uuid_str (in_SiteID inp) @ ''|'' @ uuid_str (p_TargetID p))) ` set (mesh_pairs inp))"
      "\<forall>(m, p)\<in>set (mesh_pairs inp). \<forall>d\<in>set (in_Direct inp).
         new_sha1 (m_ConfigID m) (uuid_str (in_SiteID inp) @ ''|'' @ uuid_str (p_TargetID p)) \<noteq> d_ID d"
  shows "\<exists>snap. BuildSnapshot new_sha1 uuid_str marshal sha256 inp = Inr snap
    \<and> sorted_wrt (<) (map s_ProbeId (c_Probes snap))
    \<and> set (c_Probes snap) = direct_spec ` set (in_Direct inp)
        \<union> {mesh_spec new_sha1 uuid_str (in_SiteID inp) m p | m p. m \<in> set (in_Mesh inp) \<and> p \<in> set (in_Peers inp)
             \<and> p_MeshID p = m_MeshID m \<and> p_SiteID p \<noteq> in_SiteID inp}
    \<and> length (c_Probes snap) = length (in_Direct inp) + length (mesh_pairs inp)"
proof -
  let ?e = "expand new_sha1 uuid_str inp" and ?id = "\<lambda>(m :: mesh_row, p :: peer_row). MeshProbeID new_sha1 uuid_str (m_ConfigID m) (in_SiteID inp) (p_TargetID p)"
  have pairs: "set (mesh_pairs inp) = {(m, p). m \<in> set (in_Mesh inp) \<and> p \<in> set (in_Peers inp)
      \<and> p_MeshID p = m_MeshID m \<and> p_SiteID p \<noteq> in_SiteID inp}"
    by (auto simp: mesh_pairs_def)
  have dp: "distinct (mesh_pairs inp)"
    unfolding mesh_pairs_def using assms(2,3) by (intro distinct_pairs) (simp_all add: distinct_map)
  let ?name = "\<lambda>(m :: mesh_row, p :: peer_row). (m_ConfigID m, uuid_str (in_SiteID inp) @ ''|'' @ uuid_str (p_TargetID p))"
  have "inj_on ?name (set (mesh_pairs inp))"
  proof (rule inj_onI, clarsimp simp: pairs)
    fix m p m' p'
    assume in1: "m \<in> set (in_Mesh inp)" "p \<in> set (in_Peers inp)" "p_MeshID p = m_MeshID m"
      and in2: "m' \<in> set (in_Mesh inp)" "p' \<in> set (in_Peers inp)" "p_MeshID p' = m_MeshID m'"
      and eq: "m_ConfigID m = m_ConfigID m'" "uuid_str (p_TargetID p) = uuid_str (p_TargetID p')"
    have "m = m'" using assms(2) in1(1) in2(1) eq(1) by (auto simp: distinct_map inj_on_def)
    moreover have "p_TargetID p = p_TargetID p'" using inj_onD[OF printing eq(2)] in1(2) in2(2) by blast
    ultimately show "m = m' \<and> p = p'" using assms(3) in1 in2 by (auto simp: distinct_map inj_on_def)
  qed
  then have "inj_on ((\<lambda>(t, n). new_sha1 t n) \<circ> ?name) (set (mesh_pairs inp))" using hashing(1) by (rule comp_inj_on)
  moreover have "?id = (\<lambda>(t, n). new_sha1 t n) \<circ> ?name" by (auto simp: MeshProbeID_def)
  ultimately have inj: "inj_on ?id (set (mesh_pairs inp))" by (simp only:)
  have ids: "map s_ProbeId ?e = map d_ID (in_Direct inp) @ map ?id (mesh_pairs inp)"
    by (auto simp: expand_def direct_spec_def mesh_spec_def mk_spec_def)
  have "distinct (map s_ProbeId ?e)"
    unfolding ids using assms(1) dp inj hashing(2) by (fastforce simp: distinct_map MeshProbeID_def)
  then have d: "distinct (map s_ProbeId (sort_key s_ProbeId ?e))" by simp
  then have "adjacent_dup (map s_ProbeId (sort_key s_ProbeId ?e)) = None" by (simp add: adjacent_dup_None)
  then have b: "BuildSnapshot new_sha1 uuid_str marshal sha256 inp =
      Inr \<lparr>c_ConfigHash = hashSpecs marshal sha256 (sort_key s_ProbeId ?e), c_Probes = sort_key s_ProbeId ?e\<rparr>"
    by (simp add: BuildSnapshot_def Let_def)
  have "set ?e = direct_spec ` set (in_Direct inp)
        \<union> {mesh_spec new_sha1 uuid_str (in_SiteID inp) m p | m p. m \<in> set (in_Mesh inp) \<and> p \<in> set (in_Peers inp)
             \<and> p_MeshID p = m_MeshID m \<and> p_SiteID p \<noteq> in_SiteID inp}"
    unfolding expand_def set_append set_map pairs by auto
  moreover have "length ?e = length (in_Direct inp) + length (mesh_pairs inp)" by (simp add: expand_def)
  moreover have "sorted_wrt (<) (map s_ProbeId (sort_key s_ProbeId ?e))"
    using d sorted_sort_key[of s_ProbeId ?e] by (simp add: strict_sorted_iff)
  ultimately show ?thesis using b by simp
qed

end
