(* ===== verification/Agent_Config.thy ===== *)
theory Agent_Config
  imports Meshexpand
begin

text \<open>
  The rows an agent's configuration is expanded from
  (\<open>internal/server/store/agentconfig.go\<close>): the four queries of \<open>LoadAgentConfigInputs\<close> over the
  tables \<open>agents\<close>, \<open>targets\<close>, \<open>mesh_groups\<close>, \<open>mesh_members\<close> and \<open>probe_configs\<close>. A join is a
  list comprehension in the order the query names its tables, a nullable column an option, and
  \<open>ORDER BY\<close> a stable sort (rows that tie keep the order of the table, where Postgres is free).
\<close>

section \<open>Tables\<close>

record agent_entry =
  ag_id :: uuid
  ag_site :: uuid
  ag_network :: uuid
  ag_probe_address :: string

record target_entry =
  tg_id :: uuid
  tg_kind :: string
  tg_agent :: "uuid option"
  tg_address :: string
  tg_port :: int
  tg_url :: string

record mesh_entry =
  mg_id :: uuid
  mg_network :: uuid

record member_entry =
  mm_mesh :: uuid
  mm_site :: uuid

record config_entry =
  pc_id :: uuid
  pc_site :: "uuid option"
  pc_target :: "uuid option"
  pc_mesh :: "uuid option"
  pc_network :: "uuid option"
  pc_type :: int
  pc_interval_ms :: int
  pc_timeout_ms :: int
  pc_train_count :: int
  pc_train_spacing_ms :: int
  pc_params :: params
  pc_enabled :: bool
  pc_created :: gtime

record config_tables =
  ct_agents :: "agent_entry list"
  ct_targets :: "target_entry list"
  ct_meshes :: "mesh_entry list"
  ct_members :: "member_entry list"
  ct_configs :: "config_entry list"

section \<open>LoadAgentConfigInputs\<close>

definition settings_of :: "config_entry \<Rightarrow> probe_settings" where
  "settings_of pc = \<lparr>ps_ProbeType = pc_type pc, ps_Interval = pc_interval_ms pc * millisecond,
     ps_Timeout = pc_timeout_ms pc * millisecond, ps_TrainCount = pc_train_count pc,
     ps_TrainSpacing = pc_train_spacing_ms pc * millisecond, ps_Params = pc_params pc\<rparr>"

text \<open>The left join: the sites of the agents a target belongs to, or one null.\<close>

definition target_sites :: "config_tables \<Rightarrow> target_entry \<Rightarrow> uuid option list" where
  "target_sites T t =
     (case filter (\<lambda>dta. tg_agent t = Some (ag_id dta)) (ct_agents T) of
        [] \<Rightarrow> [None]
      | dtas \<Rightarrow> map (Some \<circ> ag_site) dtas)"

definition direct_entry :: "config_entry \<Rightarrow> target_entry \<Rightarrow> uuid option \<Rightarrow> direct_row" where
  "direct_entry pc t dst = \<lparr>d_ID = pc_id pc, d_Settings = settings_of pc, d_TargetID = tg_id t, d_Kind = tg_kind t,
     d_Address = tg_address t, d_Port = tg_port t, d_URL = tg_url t, d_DstSiteID = dst\<rparr>"

definition direct_query :: "config_tables \<Rightarrow> uuid \<Rightarrow> direct_row list" where
  "direct_query T agent =
     [direct_entry pc t dst. pc \<leftarrow> sort_key pc_created (ct_configs T),
        t \<leftarrow> ct_targets T, pc_target pc = Some (tg_id t),
        dst \<leftarrow> target_sites T t,
        a \<leftarrow> ct_agents T, pc_site pc = Some (ag_site a) \<and> pc_network pc = Some (ag_network a),
        ag_id a = agent \<and> pc_enabled pc]"

definition mesh_entry_row :: "config_entry \<Rightarrow> mesh_entry \<Rightarrow> mesh_row" where
  "mesh_entry_row pc mg = \<lparr>m_ConfigID = pc_id pc, m_MeshID = mg_id mg, m_Settings = settings_of pc\<rparr>"

definition mesh_query :: "config_tables \<Rightarrow> uuid \<Rightarrow> mesh_row list" where
  "mesh_query T agent =
     [mesh_entry_row pc mg. pc \<leftarrow> sort_key pc_created (ct_configs T),
        mg \<leftarrow> ct_meshes T, pc_mesh pc = Some (mg_id mg),
        mm \<leftarrow> ct_members T, pc_mesh pc = Some (mm_mesh mm),
        a \<leftarrow> ct_agents T, ag_site a = mm_site mm \<and> ag_network a = mg_network mg,
        ag_id a = agent \<and> pc_enabled pc]"

definition peer_entry :: "member_entry \<Rightarrow> agent_entry \<Rightarrow> target_entry \<Rightarrow> peer_row" where
  "peer_entry mine peer t = \<lparr>p_MeshID = mm_mesh mine, p_AgentID = ag_id peer, p_SiteID = ag_site peer,
     p_TargetID = tg_id t, p_ProbeAddress = ag_probe_address peer\<rparr>"

definition peer_query :: "config_tables \<Rightarrow> uuid \<Rightarrow> peer_row list" where
  "peer_query T agent =
     sort_key p_MeshID (sort_key p_AgentID (sort_key p_TargetID (remdups
       [peer_entry mine peer t. me \<leftarrow> ct_agents T,
          mine \<leftarrow> ct_members T, mm_site mine = ag_site me,
          mg \<leftarrow> ct_meshes T, mg_id mg = mm_mesh mine \<and> mg_network mg = ag_network me,
          theirs \<leftarrow> ct_members T, mm_mesh theirs = mm_mesh mine \<and> mm_site theirs \<noteq> mm_site mine,
          peer \<leftarrow> ct_agents T, ag_site peer = mm_site theirs \<and> ag_network peer = mg_network mg,
          t \<leftarrow> ct_targets T, tg_agent t = Some (ag_id peer),
          ag_id me = agent])))"

text \<open>\<open>None\<close> is the error of the first query finding no row for the agent.\<close>

definition LoadAgentConfigInputs :: "config_tables \<Rightarrow> uuid \<Rightarrow> agent_inputs option" where
  "LoadAgentConfigInputs T agent =
     (case filter (\<lambda>a. ag_id a = agent) (ct_agents T) of
        [] \<Rightarrow> None
      | a # _ \<Rightarrow> Some \<lparr>in_AgentID = agent, in_SiteID = ag_site a, in_NetworkID = ag_network a,
          in_Direct = direct_query T agent, in_Mesh = mesh_query T agent, in_Peers = peer_query T agent\<rparr>)"

section \<open>The schema\<close>

text \<open>The primary keys, the unique index \<open>targets_agent_uidx\<close>, and the references that are joined on.\<close>

definition schema_ok :: "config_tables \<Rightarrow> bool" where
  "schema_ok T \<longleftrightarrow> distinct (map ag_id (ct_agents T)) \<and> distinct (map tg_id (ct_targets T)) \<and> distinct (map mg_id (ct_meshes T))
     \<and> distinct (ct_members T) \<and> distinct (map pc_id (ct_configs T))
     \<and> distinct (map tg_agent (filter (\<lambda>t. tg_agent t \<noteq> None) (ct_targets T)))"

lemma schema_unique:
  assumes "schema_ok T"
  shows "\<lbrakk>a \<in> set (ct_agents T); b \<in> set (ct_agents T); ag_id a = ag_id b\<rbrakk> \<Longrightarrow> a = b"
    and "\<lbrakk>t \<in> set (ct_targets T); u \<in> set (ct_targets T); tg_id t = tg_id u\<rbrakk> \<Longrightarrow> t = u"
    and "\<lbrakk>t \<in> set (ct_targets T); u \<in> set (ct_targets T); tg_agent t = Some i; tg_agent u = Some i\<rbrakk> \<Longrightarrow> t = u"
    and "\<lbrakk>m \<in> set (ct_meshes T); n \<in> set (ct_meshes T); mg_id m = mg_id n\<rbrakk> \<Longrightarrow> m = n"
    and "\<lbrakk>p \<in> set (ct_configs T); q \<in> set (ct_configs T); pc_id p = pc_id q\<rbrakk> \<Longrightarrow> p = q"
  using assms by (auto simp: schema_ok_def distinct_map inj_on_def)

text \<open>A comprehension over a list in which each element contributes at most one row, named after it.\<close>

lemma distinct_keys_concat:
  assumes "distinct (map f xs)" "\<And>x. x \<in> set xs \<Longrightarrow> length (g x) \<le> 1" "\<And>x y. x \<in> set xs \<Longrightarrow> y \<in> set (g x) \<Longrightarrow> h y = f x"
  shows "distinct (map h (concat (map g xs)))"
  using assms
proof (induction xs)
  case (Cons x xs)
  have IH: "distinct (map h (concat (map g xs)))" using Cons by simp
  have "f x \<notin> h ` set (concat (map g xs))" using Cons.prems(1,3) by fastforce
  moreover have "g x = [] \<or> (\<exists>y. g x = [y] \<and> h y = f x)" using Cons.prems(2,3)[of x] by (cases "g x") auto
  ultimately show ?case using IH by auto
qed simp

lemma length_concat_le:
  assumes "distinct (map k xs)" "\<And>x. x \<in> set xs \<Longrightarrow> g x \<noteq> [] \<Longrightarrow> k x = c" "\<And>x. x \<in> set xs \<Longrightarrow> length (g x) \<le> 1"
  shows "length (concat (map g xs)) \<le> 1"
  using assms
proof (induction xs)
  case (Cons x xs)
  have "concat (map g xs) = []" if "g x \<noteq> []"
  proof -
    have "k x = c" using Cons.prems(2)[of x] that by simp
    then have "g y = []" if "y \<in> set xs" for y
      using Cons.prems(1) Cons.prems(2)[of y] that by (metis distinct.simps(2) image_eqI image_set list.set_intros(2) list.simps(9))
    then show ?thesis by simp
  qed
  moreover have "length (concat (map g xs)) \<le> 1" using Cons by simp
  ultimately show ?case using Cons.prems(3)[of x] by (cases "g x = []") (simp_all del: concat_eq_Nil_conv)
qed simp

text \<open>Each of the three row lists names its rows once.\<close>

lemma target_sites_one: "schema_ok T \<Longrightarrow> \<exists>dst. target_sites T t = [dst]"
proof -
  assume S: "schema_ok T"
  let ?f = "filter (\<lambda>dta. tg_agent t = Some (ag_id dta)) (ct_agents T)"
  have "distinct (map ag_id ?f)" using S by (auto simp: schema_ok_def distinct_map_filter)
  moreover have "tg_agent t = Some (ag_id dta)" if "dta \<in> set ?f" for dta using that by simp
  ultimately have "length ?f \<le> 1"
    by (cases ?f rule: remdups_adj.cases) (auto, metis list.set_intros option.inject)
  then show ?thesis by (cases ?f) (auto simp: target_sites_def)
qed

lemma direct_query_distinct:
  assumes S: "schema_ok T"
  shows "distinct (map d_ID (direct_query T agent))"
  unfolding direct_query_def
proof (rule distinct_keys_concat[where f = pc_id], goal_cases)
  case 1
  show ?case using S by (simp add: schema_ok_def distinct_map)
next
  case (2 pc)
  show ?case
  proof (rule length_concat_le[where k = tg_id and c = "the (pc_target pc)"], goal_cases)
    case (3 t)
    obtain dst where "target_sites T t = [dst]" using target_sites_one[OF S] by blast
    moreover have "length (concat (map (\<lambda>a. if pc_site pc = Some (ag_site a) \<and> pc_network pc = Some (ag_network a)
        then if ag_id a = agent \<and> pc_enabled pc then [direct_entry pc t dst] else [] else []) (ct_agents T))) \<le> 1"
      using S by (intro length_concat_le[where k = ag_id and c = agent]) (auto simp: schema_ok_def split: if_splits)
    ultimately show ?case by simp
  qed (use S in \<open>auto simp: schema_ok_def split: if_splits\<close>)
qed (auto simp: direct_entry_def split: if_splits)

lemma mesh_query_distinct:
  assumes S: "schema_ok T"
  shows "distinct (map m_ConfigID (mesh_query T agent))"
  unfolding mesh_query_def
proof (rule distinct_keys_concat[where f = pc_id], goal_cases)
  case 1
  show ?case using S by (simp add: schema_ok_def distinct_map)
next
  case (2 pc)
  show ?case
  proof (rule length_concat_le[where k = mg_id and c = "the (pc_mesh pc)"], goal_cases)
    case (3 mg)
    have "length (concat (map (\<lambda>mm. if pc_mesh pc = Some (mm_mesh mm) then concat (map (\<lambda>a. if ag_site a = mm_site mm \<and> ag_network a = mg_network mg
        then if ag_id a = agent \<and> pc_enabled pc then [mesh_entry_row pc mg] else [] else []) (ct_agents T)) else []) (ct_members T))) \<le> 1"
    proof (rule length_concat_le[where k = id and c = "\<lparr>mm_mesh = the (pc_mesh pc), mm_site = ag_site (hd (filter (\<lambda>a. ag_id a = agent) (ct_agents T)))\<rparr>"], goal_cases)
      case (2 mm)
      then obtain a where a: "a \<in> set (ct_agents T)" "ag_id a = agent" "ag_site a = mm_site mm" "pc_mesh pc = Some (mm_mesh mm)"
        by (auto split: if_splits)
      then have "hd (filter (\<lambda>a. ag_id a = agent) (ct_agents T)) \<in> set (filter (\<lambda>a. ag_id a = agent) (ct_agents T))"
        by (intro hd_in_set) (auto simp: filter_empty_conv)
      then have "hd (filter (\<lambda>a. ag_id a = agent) (ct_agents T)) = a" using schema_unique(1)[OF S] a by auto
      then show ?case using a by simp
    next
      case (3 mm)
      have "length (concat (map (\<lambda>a. if ag_site a = mm_site mm \<and> ag_network a = mg_network mg
          then if ag_id a = agent \<and> pc_enabled pc then [mesh_entry_row pc mg] else [] else []) (ct_agents T))) \<le> 1"
        using S by (intro length_concat_le[where k = ag_id and c = agent]) (auto simp: schema_ok_def split: if_splits)
      then show ?case by simp
    qed (use S in \<open>auto simp: schema_ok_def\<close>)
    then show ?case by (cases "pc_mesh pc = Some (mg_id mg)") simp_all
  qed (use S in \<open>auto simp: schema_ok_def split: if_splits\<close>)
qed (auto simp: mesh_entry_row_def split: if_splits)

text \<open>Which rows the queries return.\<close>

lemma set_comprehension:
  "x \<in> set (concat (map f xs)) \<longleftrightarrow> (\<exists>y\<in>set xs. x \<in> set (f y))"
  "x \<in> set (if b then ys else []) \<longleftrightarrow> b \<and> x \<in> set ys"
  "x \<in> set [y] \<longleftrightarrow> x = y"
  by auto

lemma direct_query_rows:
  "d \<in> set (direct_query T agent) \<longleftrightarrow>
     (\<exists>pc\<in>set (ct_configs T). \<exists>t\<in>set (ct_targets T). \<exists>dst\<in>set (target_sites T t). \<exists>a\<in>set (ct_agents T).
        ag_id a = agent \<and> pc_enabled pc \<and> pc_target pc = Some (tg_id t) \<and> pc_site pc = Some (ag_site a)
        \<and> pc_network pc = Some (ag_network a) \<and> d = direct_entry pc t dst)"
  by (simp only: direct_query_def set_comprehension set_sort) blast

lemma mesh_query_rows:
  "m \<in> set (mesh_query T agent) \<longleftrightarrow>
     (\<exists>pc\<in>set (ct_configs T). \<exists>mg\<in>set (ct_meshes T). \<exists>mm\<in>set (ct_members T). \<exists>a\<in>set (ct_agents T).
        ag_id a = agent \<and> pc_enabled pc \<and> pc_mesh pc = Some (mg_id mg) \<and> pc_mesh pc = Some (mm_mesh mm) \<and> ag_site a = mm_site mm
        \<and> ag_network a = mg_network mg \<and> m = mesh_entry_row pc mg)"
  by (simp only: mesh_query_def set_comprehension set_sort) blast

lemma peer_query_rows:
  "p \<in> set (peer_query T agent) \<longleftrightarrow>
     (\<exists>me\<in>set (ct_agents T). \<exists>mine\<in>set (ct_members T). \<exists>mg\<in>set (ct_meshes T). \<exists>theirs\<in>set (ct_members T).
        \<exists>peer\<in>set (ct_agents T). \<exists>t\<in>set (ct_targets T).
          ag_id me = agent \<and> mm_site mine = ag_site me \<and> mg_id mg = mm_mesh mine \<and> mg_network mg = ag_network me
          \<and> mm_mesh theirs = mm_mesh mine \<and> mm_site theirs \<noteq> mm_site mine \<and> ag_site peer = mm_site theirs
          \<and> ag_network peer = mg_network mg \<and> tg_agent t = Some (ag_id peer) \<and> p = peer_entry mine peer t)"
  unfolding peer_query_def set_sort set_remdups by (simp only: set_comprehension) blast

lemma peer_query_distinct:
  assumes S: "schema_ok T"
  shows "distinct (map (\<lambda>p. (p_MeshID p, p_TargetID p)) (peer_query T agent))"
proof -
  have "distinct (peer_query T agent)" by (simp add: peer_query_def)
  moreover have "inj_on (\<lambda>p. (p_MeshID p, p_TargetID p)) (set (peer_query T agent))"
  proof (rule inj_onI)
    fix p q assume "p \<in> set (peer_query T agent)" "q \<in> set (peer_query T agent)" and eq: "(p_MeshID p, p_TargetID p) = (p_MeshID q, p_TargetID q)"
    then obtain mp pp tp mq pq tq where
      P: "pp \<in> set (ct_agents T)" "tp \<in> set (ct_targets T)" "tg_agent tp = Some (ag_id pp)" "p = peer_entry mp pp tp" and
      Q: "pq \<in> set (ct_agents T)" "tq \<in> set (ct_targets T)" "tg_agent tq = Some (ag_id pq)" "q = peer_entry mq pq tq"
      unfolding peer_query_rows by metis
    have "tp = tq" using eq P Q by (intro schema_unique(2)[OF S]) (auto simp: peer_entry_def)
    then have "pp = pq" using P Q by (intro schema_unique(1)[OF S]) auto
    with \<open>tp = tq\<close> show "p = q" using eq P Q by (simp add: peer_entry_def)
  qed
  ultimately show ?thesis by (simp add: distinct_map)
qed

section \<open>The assignments of an agent\<close>

definition site_in_mesh :: "config_tables \<Rightarrow> uuid \<Rightarrow> uuid \<Rightarrow> bool" where
  "site_in_mesh T mesh site \<longleftrightarrow> \<lparr>mm_mesh = mesh, mm_site = site\<rparr> \<in> set (ct_members T)"

text \<open>A direct probe runs at every agent of its site and network.\<close>

definition runs_direct :: "config_tables \<Rightarrow> agent_entry \<Rightarrow> config_entry \<Rightarrow> target_entry \<Rightarrow> bool" where
  "runs_direct T me pc t \<longleftrightarrow> pc \<in> set (ct_configs T) \<and> t \<in> set (ct_targets T) \<and> pc_enabled pc \<and> pc_target pc = Some (tg_id t)
     \<and> pc_site pc = Some (ag_site me) \<and> pc_network pc = Some (ag_network me)"

text \<open>
  A template runs from one agent to another when both are on the network of its mesh and at
  different sites that are members of it.
\<close>

definition runs_mesh :: "config_tables \<Rightarrow> agent_entry \<Rightarrow> config_entry \<Rightarrow> mesh_entry \<Rightarrow> agent_entry \<Rightarrow> target_entry \<Rightarrow> bool" where
  "runs_mesh T me pc mg peer t \<longleftrightarrow> pc \<in> set (ct_configs T) \<and> mg \<in> set (ct_meshes T) \<and> peer \<in> set (ct_agents T) \<and> t \<in> set (ct_targets T)
     \<and> pc_enabled pc \<and> pc_mesh pc = Some (mg_id mg) \<and> mg_network mg = ag_network me \<and> ag_network peer = ag_network me
     \<and> ag_site peer \<noteq> ag_site me \<and> site_in_mesh T (mg_id mg) (ag_site me) \<and> site_in_mesh T (mg_id mg) (ag_site peer)
     \<and> tg_agent t = Some (ag_id peer)"

definition direct_probe :: "config_entry \<Rightarrow> target_entry \<Rightarrow> probe_spec" where
  "direct_probe pc t = direct_spec (direct_entry pc t None)"

definition mesh_probe :: "(uuid \<Rightarrow> string \<Rightarrow> uuid) \<Rightarrow> (uuid \<Rightarrow> string) \<Rightarrow> agent_entry \<Rightarrow> config_entry \<Rightarrow> mesh_entry \<Rightarrow> agent_entry \<Rightarrow> target_entry \<Rightarrow> probe_spec" where
  "mesh_probe new_sha1 uuid_str me pc mg peer t =
     mesh_spec new_sha1 uuid_str (ag_site me) (mesh_entry_row pc mg)
       (peer_entry \<lparr>mm_mesh = mg_id mg, mm_site = ag_site me\<rparr> peer t)"

lemma direct_spec_dst: "direct_spec (direct_entry pc t dst) = direct_probe pc t"
  by (simp add: direct_probe_def direct_spec_def direct_entry_def)

lemma member_eta: "mm \<in> set (ct_members T) \<longleftrightarrow> site_in_mesh T (mm_mesh mm) (mm_site mm)"
  by (cases mm) (simp add: site_in_mesh_def)

lemma load_inputs:
  assumes S: "schema_ok T" and me: "me \<in> set (ct_agents T)"
  shows "LoadAgentConfigInputs T (ag_id me) = Some \<lparr>in_AgentID = ag_id me, in_SiteID = ag_site me, in_NetworkID = ag_network me,
     in_Direct = direct_query T (ag_id me), in_Mesh = mesh_query T (ag_id me), in_Peers = peer_query T (ag_id me)\<rparr>"
proof (cases "filter (\<lambda>a. ag_id a = ag_id me) (ct_agents T)")
  case Nil
  then show ?thesis using me by (auto simp: filter_empty_conv)
next
  case (Cons a as)
  then have "a \<in> set (ct_agents T)" "ag_id a = ag_id me" by (auto dest!: filter_eq_ConsD)
  then have "a = me" using schema_unique(1)[OF S] me by blast
  then show ?thesis using Cons by (simp add: LoadAgentConfigInputs_def)
qed

lemma direct_rows_of:
  assumes S: "schema_ok T" and me: "me \<in> set (ct_agents T)"
  shows "direct_spec ` set (direct_query T (ag_id me)) = {direct_probe pc t | pc t. runs_direct T me pc t}"
proof -
  have "s \<in> direct_spec ` set (direct_query T (ag_id me)) \<longleftrightarrow> s \<in> {direct_probe pc t | pc t. runs_direct T me pc t}" for s
  proof
    assume "s \<in> direct_spec ` set (direct_query T (ag_id me))"
    then show "s \<in> {direct_probe pc t | pc t. runs_direct T me pc t}"
      unfolding runs_direct_def using schema_unique(1)[OF S _ me] by (fastforce simp: direct_query_rows direct_spec_dst)
  next
    assume "s \<in> {direct_probe pc t | pc t. runs_direct T me pc t}"
    then obtain pc t where r: "runs_direct T me pc t" "s = direct_probe pc t" by blast
    obtain dst where "target_sites T t = [dst]" using target_sites_one[OF S] by blast
    then have "direct_entry pc t dst \<in> set (direct_query T (ag_id me))"
      unfolding direct_query_rows using r(1) me by (auto simp: runs_direct_def intro!: bexI)
    then show "s \<in> direct_spec ` set (direct_query T (ag_id me))"
      using r(2) direct_spec_dst by (metis image_eqI)
  qed
  then show ?thesis by blast
qed

lemma mesh_rows_of:
  assumes S: "schema_ok T" and me: "me \<in> set (ct_agents T)"
  shows "m \<in> set (mesh_query T (ag_id me)) \<and> p \<in> set (peer_query T (ag_id me)) \<and> p_MeshID p = m_MeshID m \<and> p_SiteID p \<noteq> ag_site me \<longleftrightarrow>
    (\<exists>pc mg peer t. runs_mesh T me pc mg peer t \<and> m = mesh_entry_row pc mg
       \<and> p = peer_entry \<lparr>mm_mesh = mg_id mg, mm_site = ag_site me\<rparr> peer t)"
proof
  assume "m \<in> set (mesh_query T (ag_id me)) \<and> p \<in> set (peer_query T (ag_id me)) \<and> p_MeshID p = m_MeshID m \<and> p_SiteID p \<noteq> ag_site me"
  then have q: "m \<in> set (mesh_query T (ag_id me))" "p \<in> set (peer_query T (ag_id me))" "p_MeshID p = m_MeshID m" by auto
  obtain pc mg mm where m: "pc \<in> set (ct_configs T)" "mg \<in> set (ct_meshes T)" "mm \<in> set (ct_members T)" "pc_enabled pc"
    "pc_mesh pc = Some (mg_id mg)" "mm_mesh mm = mg_id mg" "mm_site mm = ag_site me" "ag_network me = mg_network mg" "m = mesh_entry_row pc mg"
    using q(1) schema_unique(1)[OF S _ me] unfolding mesh_query_rows by (metis option.inject)
  obtain mine theirs peer t where p: "mine \<in> set (ct_members T)" "theirs \<in> set (ct_members T)" "peer \<in> set (ct_agents T)" "t \<in> set (ct_targets T)"
    "mm_site mine = ag_site me" "mm_mesh theirs = mm_mesh mine" "mm_site theirs \<noteq> mm_site mine" "ag_site peer = mm_site theirs"
    "ag_network peer = ag_network me" "tg_agent t = Some (ag_id peer)" "p = peer_entry mine peer t"
    using q(2) schema_unique(1)[OF S _ me] unfolding peer_query_rows by metis
  have "mm_mesh mine = mg_id mg" using q(3) m(9) p(11) by (simp add: mesh_entry_row_def peer_entry_def)
  then have "runs_mesh T me pc mg peer t" "p = peer_entry \<lparr>mm_mesh = mg_id mg, mm_site = ag_site me\<rparr> peer t"
    using m p member_eta[of mm T] member_eta[of theirs T] by (simp_all add: runs_mesh_def peer_entry_def)
  then show "\<exists>pc mg peer t. runs_mesh T me pc mg peer t \<and> m = mesh_entry_row pc mg \<and> p = peer_entry \<lparr>mm_mesh = mg_id mg, mm_site = ag_site me\<rparr> peer t"
    using m(9) by blast
next
  assume "\<exists>pc mg peer t. runs_mesh T me pc mg peer t \<and> m = mesh_entry_row pc mg \<and> p = peer_entry \<lparr>mm_mesh = mg_id mg, mm_site = ag_site me\<rparr> peer t"
  then obtain pc mg peer t where r: "runs_mesh T me pc mg peer t" "m = mesh_entry_row pc mg"
    "p = peer_entry \<lparr>mm_mesh = mg_id mg, mm_site = ag_site me\<rparr> peer t" by blast
  let ?mine = "\<lparr>mm_mesh = mg_id mg, mm_site = ag_site me\<rparr>" and ?theirs = "\<lparr>mm_mesh = mg_id mg, mm_site = ag_site peer\<rparr>"
  have "?mine \<in> set (ct_members T)" "?theirs \<in> set (ct_members T)" using r(1) by (simp_all add: runs_mesh_def site_in_mesh_def)
  moreover have "m \<in> set (mesh_query T (ag_id me))"
    unfolding mesh_query_rows r(2) using r(1) me calculation(1)
    by (intro bexI[of _ pc] bexI[of _ mg] bexI[of _ ?mine] bexI[of _ me]) (simp_all add: runs_mesh_def)
  moreover have "p \<in> set (peer_query T (ag_id me))"
    unfolding peer_query_rows r(3) using r(1) me calculation(1,2)
    by (intro bexI[of _ me] bexI[of _ ?mine] bexI[of _ mg] bexI[of _ ?theirs] bexI[of _ peer] bexI[of _ t]) (simp_all add: runs_mesh_def)
  ultimately show "m \<in> set (mesh_query T (ag_id me)) \<and> p \<in> set (peer_query T (ag_id me)) \<and> p_MeshID p = m_MeshID m \<and> p_SiteID p \<noteq> ag_site me"
    using r by (simp add: mesh_entry_row_def peer_entry_def runs_mesh_def)
qed

end
