(* ===== verification/Probe_Params.thy ===== *)
theory Probe_Params
  imports Probe_Admin Path_Mtu
begin

text \<open>
  What the probers of the agent make of the parameters the server has accepted:
  \<open>internal/agent/probes/dns.go\<close> (the reading of its parameters) and the status assertion of
  \<open>internal/agent/probes/http.go\<close>. The code points of the \<open>miekg/dns\<close> package are those of the DNS
  standards.
\<close>

definition dnsQTypes :: "(string \<times> nat) list" where
  "dnsQTypes = [(''A'', 1), (''AAAA'', 28), (''CNAME'', 5), (''MX'', 15), (''NS'', 2), (''PTR'', 12), (''SOA'', 6), (''SRV'', 33), (''TXT'', 16)]"

definition dnsRcodes :: "(string \<times> nat) list" where
  "dnsRcodes = [(''NOERROR'', 0), (''FORMERR'', 1), (''SERVFAIL'', 2), (''NXDOMAIN'', 3), (''NOTIMPL'', 4), (''REFUSED'', 5)]"

datatype dns_error = MissingQname | UnsupportedQtype string | UnsupportedRcode string

record dns_query =
  q_name :: string
  q_type :: nat
  q_want :: nat
  q_resolver :: "string option"

text \<open>The head of \<open>DNS.Run\<close>; a missing resolver stands for the target's own address.\<close>

definition dns_params :: "params \<Rightarrow> dns_error + dns_query" where
  "dns_params ps =
     (if param ps ''dns.qname'' = '''' then Inl MissingQname
      else
        (let qtypeName = to_upper (param ps ''dns.qtype''); qtypeName = (if qtypeName = '''' then ''A'' else qtypeName)
         in case map_of dnsQTypes qtypeName of
              None \<Rightarrow> Inl (UnsupportedQtype (param ps ''dns.qtype''))
            | Some qtype \<Rightarrow>
                (let wantName = to_upper (param ps ''dns.expect_rcode''); wantName = (if wantName = '''' then ''NOERROR'' else wantName)
                 in case map_of dnsRcodes wantName of
                      None \<Rightarrow> Inl (UnsupportedRcode (param ps ''dns.expect_rcode''))
                    | Some want \<Rightarrow>
                        Inr \<lparr>q_name = param ps ''dns.qname'', q_type = qtype, q_want = want,
                             q_resolver = (if param ps ''dns.resolver'' = '''' then None else Some (param ps ''dns.resolver''))\<rparr>)))"

definition statusMatches :: "string \<Rightarrow> int \<Rightarrow> bool" where
  "statusMatches expect code =
     (if length expect = 3 \<and> expect ! 1 = CHR ''x'' \<and> expect ! 2 = CHR ''x''
      then (of_char (expect ! 0) :: int) = (48 + go_div code 100) mod 256
      else expect = itoa code)"

section \<open>Lemmas\<close>

lemma to_upper_Nil_iff [simp]: "to_upper s = [] \<longleftrightarrow> s = []"
  by (cases s) auto

lemma to_upper_digit: "to_upper v = [c] \<Longrightarrow> is_digit c \<Longrightarrow> v = [c]"
proof (cases v)
  case (Cons d ds)
  assume u: "to_upper v = [c]" and c: "is_digit c"
  have "c \<noteq> CHR ''I''" "c \<noteq> CHR ''S''" using c by (auto simp: is_digit_def)
  then have "c = (if (of_char d :: nat) \<in> {97..122} then char_of ((of_char d :: nat) - 32) else d)" "to_upper ds = []"
    using u unfolding Cons by (auto split: if_splits)
  moreover have "of_char (char_of (n - 32 :: nat) :: char) = n - 32" if "n \<in> {97..122}" for n :: nat
    using that by (simp, intro mod_less, arith)
  ultimately show ?thesis using c Cons by (auto simp: is_digit_def split: if_splits)
qed simp

lemma digits_val_all: "digits_val a s = Some n \<Longrightarrow> \<forall>c\<in>set s. is_digit c"
  by (induction s arbitrary: a) (auto simp: digit_val_def is_digit_def Let_def split: option.splits if_splits)

lemma atoi_unsigned:
  assumes "atoi v = Some n" "1 \<le> n" "hd v \<noteq> CHR ''+''"
  shows "v \<noteq> [] \<and> digits_val 0 v = Some (nat n)"
proof (cases "v \<noteq> [] \<and> hd v = CHR ''-''")
  case True
  then have "n \<le> 0" using assms(1) by (auto simp: atoi_def atoi_range_def Let_def split: option.splits if_splits)
  then show ?thesis using assms(2) by simp
next
  case False
  then show ?thesis using assms by (auto simp: atoi_def atoi_range_def Let_def split: option.splits if_splits)
qed

end
