(* ===== verification/Thresholds.thy ===== *)
theory Thresholds
  imports Complex_Main Prelude
begin

text \<open>
  Performance thresholds (\<open>internal/server/thresholds/thresholds.go\<close>): the merge of override layers
  and the grading of a measurement. Loss percentages are rationals; the code only compares them. The
  text \<open>GradeCrit\<close> returns is represented by what it names: which metrics breached and at which
  thresholds.
\<close>

record thresholds =
  LatencyWarnUS :: int
  LatencyCritUS :: int
  LossWarnPct :: rat
  LossCritPct :: rat

record override =
  o_LatencyWarnUS :: "int option"
  o_LatencyCritUS :: "int option"
  o_LossWarnPct :: "rat option"
  o_LossCritPct :: "rat option"

text \<open>The four \<open>have\<close> flags of the loop.\<close>

type_synonym have_flags = "bool \<times> bool \<times> bool \<times> bool"

fun effective_loop :: "thresholds \<Rightarrow> have_flags \<Rightarrow> override list \<Rightarrow> thresholds" where
  "effective_loop out have_flags [] = out"
| "effective_loop out (lw, lc, sw, sc) (o1 # layers) =
     (let (out, lw) = (case o_LatencyWarnUS o1 of Some v \<Rightarrow> if \<not> lw then (out\<lparr>LatencyWarnUS := v\<rparr>, True) else (out, lw) | None \<Rightarrow> (out, lw));
          (out, lc) = (case o_LatencyCritUS o1 of Some v \<Rightarrow> if \<not> lc then (out\<lparr>LatencyCritUS := v\<rparr>, True) else (out, lc) | None \<Rightarrow> (out, lc));
          (out, sw) = (case o_LossWarnPct o1 of Some v \<Rightarrow> if \<not> sw then (out\<lparr>LossWarnPct := v\<rparr>, True) else (out, sw) | None \<Rightarrow> (out, sw));
          (out, sc) = (case o_LossCritPct o1 of Some v \<Rightarrow> if \<not> sc then (out\<lparr>LossCritPct := v\<rparr>, True) else (out, sc) | None \<Rightarrow> (out, sc))
      in effective_loop out (lw, lc, sw, sc) layers)"

definition Effective :: "thresholds \<Rightarrow> override list \<Rightarrow> thresholds" where
  "Effective g layers = effective_loop g (False, False, False, False) layers"

definition breaches :: "int option \<Rightarrow> rat option \<Rightarrow> int \<Rightarrow> rat \<Rightarrow> bool \<times> bool" where
  "breaches latencyUS lossPct latencyThreshold lossThreshold =
     ((case latencyUS of None \<Rightarrow> False | Some l \<Rightarrow> l \<ge> latencyThreshold),
      (case lossPct of None \<Rightarrow> False | Some p \<Rightarrow> p > 0 \<and> p \<ge> lossThreshold))"

definition GradeWarn :: "thresholds \<Rightarrow> int option \<Rightarrow> rat option \<Rightarrow> bool" where
  "GradeWarn t latencyUS lossPct =
     (let (latency, loss) = breaches latencyUS lossPct (LatencyWarnUS t) (LossWarnPct t) in latency \<or> loss)"

datatype crit_detail = BothCrit int rat | LatencyCrit int | LossCrit rat

definition GradeCrit :: "thresholds \<Rightarrow> int option \<Rightarrow> rat option \<Rightarrow> crit_detail option" where
  "GradeCrit t latencyUS lossPct =
     (let (latencyBreach, lossBreach) = breaches latencyUS lossPct (LatencyCritUS t) (LossCritPct t)
      in if latencyBreach \<and> lossBreach then Some (BothCrit (LatencyCritUS t) (LossCritPct t))
         else if latencyBreach then Some (LatencyCrit (LatencyCritUS t))
         else if lossBreach then Some (LossCrit (LossCritPct t))
         else None)"

section \<open>The merge, field by field\<close>

text \<open>The first layer that sets a field.\<close>

fun first_set :: "('o \<Rightarrow> 'v option) \<Rightarrow> 'v \<Rightarrow> 'o list \<Rightarrow> 'v" where
  "first_set f d [] = d"
| "first_set f d (o1 # os) = (case f o1 of Some v \<Rightarrow> v | None \<Rightarrow> first_set f d os)"

lemma first_set_append: "first_set f d (xs @ ys) = first_set f (first_set f d ys) xs"
  by (induction xs) (auto split: option.split)

lemma effective_loop_fields:
  "LatencyWarnUS (effective_loop out (lw, lc, sw, sc) layers) =
     (if lw then LatencyWarnUS out else first_set o_LatencyWarnUS (LatencyWarnUS out) layers)
   \<and> LatencyCritUS (effective_loop out (lw, lc, sw, sc) layers) =
     (if lc then LatencyCritUS out else first_set o_LatencyCritUS (LatencyCritUS out) layers)
   \<and> LossWarnPct (effective_loop out (lw, lc, sw, sc) layers) =
     (if sw then LossWarnPct out else first_set o_LossWarnPct (LossWarnPct out) layers)
   \<and> LossCritPct (effective_loop out (lw, lc, sw, sc) layers) =
     (if sc then LossCritPct out else first_set o_LossCritPct (LossCritPct out) layers)"
proof (induction layers arbitrary: out lw lc sw sc)
  case (Cons o1 layers)
  show ?case
    by (cases "o_LatencyWarnUS o1"; cases "o_LatencyCritUS o1"; cases "o_LossWarnPct o1"; cases "o_LossCritPct o1")
      (simp_all add: Cons.IH)
qed simp

lemma Effective_eq:
  "Effective g layers =
     \<lparr>LatencyWarnUS = first_set o_LatencyWarnUS (LatencyWarnUS g) layers, LatencyCritUS = first_set o_LatencyCritUS (LatencyCritUS g) layers,
      LossWarnPct = first_set o_LossWarnPct (LossWarnPct g) layers, LossCritPct = first_set o_LossCritPct (LossCritPct g) layers\<rparr>"
  by (rule thresholds.equality) (simp_all add: Effective_def effective_loop_fields)

lemma Effective_append: "Effective g (xs @ ys) = Effective (Effective g ys) xs"
  by (simp add: Effective_eq first_set_append)

lemma crit_implies_warn:
  "LatencyWarnUS t \<le> LatencyCritUS t \<Longrightarrow> LossWarnPct t \<le> LossCritPct t \<Longrightarrow> GradeCrit t l p \<noteq> None \<Longrightarrow> GradeWarn t l p"
  by (auto simp: GradeCrit_def GradeWarn_def breaches_def split: option.splits if_splits)

end
