(* ===== verification/Config_Correct.thy ===== *)
theory Config_Correct
  imports Agent_Config Probe_Params Thresholds
begin

text \<open>
  The properties of the configuration path: what the server accepts the agent can run, snapshots
  depend on the assignments and not on their order, their hash tells them apart, and threshold
  layers compose.
\<close>

section \<open>Accepted parameters\<close>

text \<open>
  C13: Server and agent agree on path MTU parameters. Parameters that pass \<open>ValidateParams\<close> for a
  path MTU probe, direct or mesh, are accepted by the agent's own \<open>pmtuParams\<close>, with bounds within
  the limits both sides declare.
\<close>

theorem validated_path_mtu_runs:
  assumes "ValidateParams PATH_MTU mesh ps = []"
  shows "\<exists>mn mx family. pmtuParams (map_of ps) = Inr (mn, mx, family) \<and> 68 \<le> mn \<and> mn < mx \<and> mx \<le> 9216"
proof -
  have int: "\<exists>n. atoi v = Some n \<and> 68 \<le> n \<and> n \<le> 9216 \<and> v \<noteq> ''''" if "map_of ps k = Some v" "k = ''mtu.min'' \<or> k = ''mtu.max''" for k v
    using ValidateParams_Nil_key[OF assms that(1)] that(2)
    by (auto simp: registry_def plain_spec_def validateValue_def MTUFloor_def MTUCeil_def atoi_def split: option.splits if_splits)
  have family: "v = ''4'' \<or> v = ''6''" if "map_of ps ''mtu.family'' = Some v" for v
    using ValidateParams_Nil_key[OF assms that] to_upper_digit[of v]
    by (auto simp: registry_def plain_spec_def validateValue_def is_digit_def split: if_splits)
  have bound: "\<exists>n. (case map_of ps k of None \<Rightarrow> Some d | Some v \<Rightarrow> atoi v) = Some n \<and> eff_bound d (param ps k) = Some n
      \<and> 68 \<le> n \<and> n \<le> 9216" if "k = ''mtu.min'' \<or> k = ''mtu.max''" "68 \<le> d" "d \<le> 9216" for k d
    using int[OF _ that(1)] that(2,3) by (cases "map_of ps k") (auto simp: param_def eff_bound_def)
  obtain mn where mn: "(case map_of ps ''mtu.min'' of None \<Rightarrow> Some 1280 | Some v \<Rightarrow> atoi v) = Some mn"
    "eff_bound 1280 (param ps ''mtu.min'') = Some mn" "68 \<le> mn" "mn \<le> 9216"
    using bound[of "''mtu.min''" 1280] by auto
  obtain mx where mx: "(case map_of ps ''mtu.max'' of None \<Rightarrow> Some 1500 | Some v \<Rightarrow> atoi v) = Some mx"
    "eff_bound 1500 (param ps ''mtu.max'') = Some mx" "68 \<le> mx" "mx \<le> 9216"
    using bound[of "''mtu.max''" 1500] by auto
  have "check_mtu ps = []" using assms by (simp add: ValidateParams_def)
  then have lt: "mn < mx" using mn(2) mx(2) by (simp add: check_mtu_def DefaultMTUMin_def DefaultMTUMax_def split: if_splits)
  have fam: "(case map_of ps ''mtu.family'' of None \<Rightarrow> '''' | Some f \<Rightarrow> f) \<in> {'''', ''4'', ''6''}"
    using family by (cases "map_of ps ''mtu.family''") auto
  have "pmtuParams (map_of ps) = Inr (mn, mx, (case map_of ps ''mtu.family'' of None \<Rightarrow> '''' | Some f \<Rightarrow> f))"
    unfolding pmtuParams_def pmtu_consts mn(1) mx(1) using mn(3,4) mx(3,4) lt fam by auto
  then show ?thesis using mn(3) lt mx(4) by blast
qed

theorem validated_path_mtu_runs_witness:
  "ValidateParams PATH_MTU False [(''mtu.max'', ''9000'')] = [] \<and>
   (\<exists>mn mx family. pmtuParams (map_of [(''mtu.max'', ''9000'')]) = Inr (mn, mx, family) \<and> mn < mx)"
proof -
  have v: "ValidateParams PATH_MTU False [(''mtu.max'', ''9000'')] = []" by code_simp
  from validated_path_mtu_runs[OF v] show ?thesis using v by blast
qed

text \<open>
  Server and agent agree on DNS parameters. Parameters that pass \<open>ValidateParams\<close> for a DNS
  probe never fail the prober's own checks: it finds a query name, a supported query type and a
  supported expected code.
\<close>

theorem validated_dns_runs:
  assumes "ValidateParams DNS mesh ps = []"
  shows "\<exists>q. dns_params ps = Inr q \<and> q_name q \<noteq> '''' \<and> q_type q \<in> snd ` set dnsQTypes \<and> q_want q \<in> snd ` set dnsRcodes"
proof -
  have name: "param ps ''dns.qname'' \<noteq> ''''"
    using ValidateParams_Nil_required[OF assms, of "(plain_spec ''dns.qname'' KindString)\<lparr>spec_RequiredMesh := True, spec_RequiredDirect := True\<rparr>"]
    by (simp add: registry_def plain_spec_def)
  have qtype: "to_upper v \<in> fst ` set dnsQTypes" if "map_of ps ''dns.qtype'' = Some v" for v
    using ValidateParams_Nil_key[OF assms that]
    by (auto simp: registry_def plain_spec_def validateValue_def dnsQTypes_def split: if_splits)
  have rcode: "to_upper v \<in> fst ` set dnsRcodes" if "map_of ps ''dns.expect_rcode'' = Some v" for v
    using ValidateParams_Nil_key[OF assms that]
    by (auto simp: registry_def plain_spec_def validateValue_def dnsRcodes_def split: if_splits)
  have found: "\<exists>n. map_of tbl (if to_upper (param ps k) = '''' then d else to_upper (param ps k)) = Some n \<and> n \<in> snd ` set tbl"
    if "\<forall>v. map_of ps k = Some v \<longrightarrow> to_upper v \<in> fst ` set tbl" "d \<in> fst ` set tbl" for k d and tbl :: "(string \<times> nat) list"
  proof -
    have "(if to_upper (param ps k) = '''' then d else to_upper (param ps k)) \<in> fst ` set tbl"
      using that by (cases "map_of ps k") (auto simp: param_def)
    then obtain n where "map_of tbl (if to_upper (param ps k) = '''' then d else to_upper (param ps k)) = Some n"
      by (cases "map_of tbl (if to_upper (param ps k) = '''' then d else to_upper (param ps k))") (auto simp: map_of_eq_None_iff)
    then show ?thesis using map_of_SomeD by (metis image_eqI snd_conv)
  qed
  obtain qt where "map_of dnsQTypes (if to_upper (param ps ''dns.qtype'') = '''' then ''A'' else to_upper (param ps ''dns.qtype'')) = Some qt"
    "qt \<in> snd ` set dnsQTypes"
    using found[of "''dns.qtype''" dnsQTypes "''A''"] qtype by (auto simp: dnsQTypes_def)
  moreover obtain rc where "map_of dnsRcodes (if to_upper (param ps ''dns.expect_rcode'') = '''' then ''NOERROR'' else to_upper (param ps ''dns.expect_rcode'')) = Some rc"
    "rc \<in> snd ` set dnsRcodes"
    using found[of "''dns.expect_rcode''" dnsRcodes "''NOERROR''"] rcode by (auto simp: dnsRcodes_def)
  ultimately show ?thesis using name by (simp add: dns_params_def Let_def)
qed

theorem validated_dns_runs_witness:
  "ValidateParams DNS True [(''dns.qname'', ''example.com''), (''dns.qtype'', ''aaaa'')] = [] \<and>
   (\<exists>q. dns_params [(''dns.qname'', ''example.com''), (''dns.qtype'', ''aaaa'')] = Inr q \<and> q_name q \<noteq> '''')"
proof -
  have v: "ValidateParams DNS True [(''dns.qname'', ''example.com''), (''dns.qtype'', ''aaaa'')] = []" by code_simp
  from validated_dns_runs[OF v] show ?thesis using v by blast
qed

text \<open>
  The port of a mesh probe. For a TCP or TLS template that passed validation with a port
  written without a sign, expansion hands the agent exactly the port that was validated, between 1
  and 65535.
\<close>

theorem validated_mesh_port:
  assumes "ValidateParams t True ps = []" "t = TCP \<or> t = TLS" "hd (param ps ''port'') \<noteq> CHR ''+''"
  shows "\<exists>n. atoi (param ps ''port'') = Some n \<and> 1 \<le> n \<and> n \<le> 65535 \<and> uint (meshPort ps) = n"
proof -
  let ?v = "param ps ''port''"
  have spec: "meshPortSpec \<in> set (registry t)" using assms(2) by (auto simp: registry_def)
  have "?v \<noteq> ''''" using ValidateParams_Nil_required[OF assms(1) spec] by (simp add: meshPortSpec_def plain_spec_def)
  then have "map_of ps ''port'' = Some ?v" by (cases "map_of ps ''port''") (simp_all add: param_def)
  from ValidateParams_Nil_key[OF assms(1) this] obtain s
    where s: "s \<in> set (registry t)" "spec_Key s = ''port''" "validateValue s ?v = None" by blast
  have "s = meshPortSpec" using s(1,2) assms(2) by (auto simp: registry_def plain_spec_def)
  then obtain n where n: "atoi ?v = Some n" "1 \<le> n" "n \<le> 65535"
    using s(3) by (cases "atoi ?v") (auto simp: validateValue_def meshPortSpec_def plain_spec_def split: if_splits)
  have d: "?v \<noteq> []" "digits_val 0 ?v = Some (nat n)" using atoi_unsigned[OF n(1,2) assms(3)] by auto
  have dig: "\<forall>c\<in>set ?v. is_digit c" using digits_val_all[OF d(2)] .
  then have tw: "takeWhile is_digit ?v = ?v" by (simp add: takeWhile_eq_all_conv)
  obtain c cs where v: "?v = c # cs" using d(1) by (cases ?v) auto
  have "is_digit c" using dig v by simp
  then have "space_len (c # cs) = 0" "(of_char c :: nat) \<noteq> 10"
    using space_len_no_space[of c cs] by (auto simp: is_digit_def no_space_def)
  then have sk: "skip_space ?v = Some ?v" unfolding v by (subst skip_space.simps) simp
  have "parse_uint64 ?v = Some (word_of_nat (nat n))" using d n(3) by (simp add: parse_uint64_def)
  moreover have "unat (word_of_nat (nat n) :: u64) < 2 ^ 32"
    using unat_of_nat64[of "nat n"] n(3) by simp
  ultimately have port: "meshPort ps = ucast (word_of_nat (nat n) :: u64)"
    unfolding meshPort_def sscanf_u32_def sk option.case tw by simp
  have "uint (word_of_nat (nat n) :: u64) = int (unat (word_of_nat (nat n) :: u64))" by simp
  also have "\<dots> = n" using unat_of_nat64[of "nat n"] n(2,3) by simp
  finally have "uint (ucast (word_of_nat (nat n) :: u64) :: u32) = take_bit 32 n" by (simp only: unsigned_ucast_eq) simp
  also have "\<dots> = n" using n(2,3) by (intro take_bit_int_eq_self) simp_all
  finally have "uint (ucast (word_of_nat (nat n) :: u64) :: u32) = n" .
  then show ?thesis using n port by simp
qed

theorem validated_mesh_port_witness:
  "ValidateParams TCP True [(''port'', ''443'')] = [] \<and> (\<exists>n. atoi (param [(''port'', ''443'')] ''port'') = Some n \<and> uint (meshPort [(''port'', ''443'')]) = n)"
proof -
  have v: "ValidateParams TCP True [(''port'', ''443'')] = []" by code_simp
  have "hd (param [(''port'', ''443'')] ''port'') \<noteq> CHR ''+''" by (simp add: param_def)
  from validated_mesh_port[OF v _ this] show ?thesis using v by auto
qed

text \<open>
  With a sign the two sides part: validation reads the port with \<open>Atoi\<close>, which takes a plus sign,
  expansion with \<open>Sscanf\<close> into an unsigned integer, which does not. The agent is given port 0.
\<close>

lemma signed_port_lost: "ValidateParams TCP True [(''port'', ''+443'')] = [] \<and> meshPort [(''port'', ''+443'')] = 0"
proof -
  have "space_len ''+443'' = 0" by (rule space_len_no_space) (simp add: no_space_def)
  then have "skip_space ''+443'' = Some ''+443''" by (subst skip_space.simps) simp
  then have "meshPort [(''port'', ''+443'')] = 0"
    by (simp add: meshPort_def sscanf_u32_def param_def parse_uint64_def is_digit_def)
  moreover have "ValidateParams TCP True [(''port'', ''+443'')] = []" by code_simp
  ultimately show ?thesis by blast
qed

section \<open>Snapshots\<close>

text \<open>
  A snapshot depends only on which assignments an agent has. Rows delivered in any other order
  give the same result, error included: the same probes in the same order under the same hash.
\<close>

theorem snapshot_order_independent:
  assumes "mset (in_Direct inp) = mset (in_Direct inp')" "mset (in_Mesh inp) = mset (in_Mesh inp')"
    "mset (in_Peers inp) = mset (in_Peers inp')" "in_SiteID inp = in_SiteID inp'"
  shows "BuildSnapshot new_sha1 uuid_str marshal sha256 inp = BuildSnapshot new_sha1 uuid_str marshal sha256 inp'"
proof -
  let ?e = "expand new_sha1 uuid_str inp" and ?e' = "expand new_sha1 uuid_str inp'"
  have m: "mset ?e = mset ?e'"
    using mset_mesh_pairs[OF assms(2-4)] assms(1,4) by (simp add: expand_def)
  have ids: "map s_ProbeId (sort_key s_ProbeId xs) = sort (map s_ProbeId xs)" for xs
    by (rule properties_for_sort[symmetric]) simp_all
  have same: "map s_ProbeId (sort_key s_ProbeId ?e) = map s_ProbeId (sort_key s_ProbeId ?e')"
    unfolding ids by (rule properties_for_sort) (simp_all add: m)
  show ?thesis
  proof (cases "adjacent_dup (map s_ProbeId (sort_key s_ProbeId ?e))")
    case None
    then have "distinct (map s_ProbeId (sort_key s_ProbeId ?e))" by (simp add: adjacent_dup_None)
    then have "sort_key s_ProbeId ?e = sort_key s_ProbeId ?e'"
      by (intro sorted_perm_unique[where f = s_ProbeId]) (simp_all add: m)
    then show ?thesis by (simp add: BuildSnapshot_def)
  next
    case (Some i)
    then show ?thesis using same by (simp add: BuildSnapshot_def)
  qed
qed

definition demo_settings :: probe_settings where
  "demo_settings = \<lparr>ps_ProbeType = 1, ps_Interval = 10, ps_Timeout = 5, ps_TrainCount = 0, ps_TrainSpacing = 0, ps_Params = []\<rparr>"

definition demo_direct :: "uuid \<Rightarrow> direct_row" where
  "demo_direct i = \<lparr>d_ID = i, d_Settings = demo_settings, d_TargetID = 3, d_Kind = ''external'', d_Address = ''h'', d_Port = 0, d_URL = '''', d_DstSiteID = None\<rparr>"

definition demo_inputs :: "direct_row list \<Rightarrow> agent_inputs" where
  "demo_inputs ds = \<lparr>in_AgentID = 1, in_SiteID = 2, in_NetworkID = 4, in_Direct = ds,
     in_Mesh = [\<lparr>m_ConfigID = 5, m_MeshID = 6, m_Settings = demo_settings\<rparr>],
     in_Peers = [\<lparr>p_MeshID = 6, p_AgentID = 7, p_SiteID = 8, p_TargetID = 9, p_ProbeAddress = ''p''\<rparr>]\<rparr>"

theorem snapshot_order_independent_witness:
  "BuildSnapshot (\<lambda>t n. 100 + t) (\<lambda>u. ''x'') (\<lambda>s. Some []) (\<lambda>b. ''h'') (demo_inputs [demo_direct 30, demo_direct 20]) =
   BuildSnapshot (\<lambda>t n. 100 + t) (\<lambda>u. ''x'') (\<lambda>s. Some []) (\<lambda>b. ''h'') (demo_inputs [demo_direct 20, demo_direct 30])"
  by (rule snapshot_order_independent) (simp_all add: demo_inputs_def)

text \<open>
  Expansion is complete and collision-free. When direct rows, templates and the peers of each
  mesh are unique (as the database keeps them), the UUIDs of the peers print distinctly, and the
  derivation of the mesh ids has no collisions among the names it is given, the snapshot is built:
  it holds exactly one probe for every direct row and for every pair of a template and a peer of
  its mesh at another site, in strictly increasing id order.
\<close>

theorem snapshot_complete:
  assumes "distinct (map d_ID (in_Direct inp))" "distinct (map m_ConfigID (in_Mesh inp))"
    and "distinct (map (\<lambda>p. (p_MeshID p, p_TargetID p)) (in_Peers inp))"
    and printing: "inj_on uuid_str (p_TargetID ` set (in_Peers inp))"
    and hashing: "inj_on (\<lambda>(t, n). new_sha1 t n)
        ((\<lambda>(m, p). (m_ConfigID m, uuid_str (in_SiteID inp) @ ''|'' @ uuid_str (p_TargetID p))) ` set (mesh_pairs inp))"
      "\<forall>(m, p)\<in>set (mesh_pairs inp). \<forall>d\<in>set (in_Direct inp).
         new_sha1 (m_ConfigID m) (uuid_str (in_SiteID inp) @ ''|'' @ uuid_str (p_TargetID p)) \<noteq> d_ID d"
  shows "\<exists>snap. BuildSnapshot new_sha1 uuid_str marshal sha256 inp = Inr snap
    \<and> sorted_wrt (<) (map s_ProbeId (c_Probes snap))
    \<and> set (c_Probes snap) = direct_spec ` set (in_Direct inp)
        \<union> {mesh_spec new_sha1 uuid_str (in_SiteID inp) m p | m p. m \<in> set (in_Mesh inp) \<and> p \<in> set (in_Peers inp)
             \<and> p_MeshID p = m_MeshID m \<and> p_SiteID p \<noteq> in_SiteID inp}
    \<and> length (c_Probes snap) = length (in_Direct inp) + length (mesh_pairs inp)"
  using assms by (rule expansion_complete)

theorem snapshot_complete_witness:
  "\<exists>snap. BuildSnapshot (\<lambda>t n. 100 + t) (\<lambda>u. [char_of u]) (\<lambda>s. Some []) (\<lambda>b. ''h'') (demo_inputs [demo_direct 30, demo_direct 20]) = Inr snap
     \<and> sorted_wrt (<) (map s_ProbeId (c_Probes snap)) \<and> length (c_Probes snap) = 3"
proof -
  let ?inp = "demo_inputs [demo_direct 30, demo_direct 20]"
  have "distinct (map d_ID (in_Direct ?inp))" "distinct (map m_ConfigID (in_Mesh ?inp))"
    "distinct (map (\<lambda>p. (p_MeshID p, p_TargetID p)) (in_Peers ?inp))" "length (mesh_pairs ?inp) = 1" "length (in_Direct ?inp) = 2"
    by (simp_all add: demo_inputs_def demo_direct_def mesh_pairs_def)
  moreover have "inj_on (\<lambda>u. [char_of u] :: string) (p_TargetID ` set (in_Peers ?inp))" by (simp add: demo_inputs_def)
  ultimately show ?thesis
    using snapshot_complete[of ?inp "\<lambda>u. [char_of u]" "\<lambda>t n. 100 + t" "\<lambda>s. Some []" "\<lambda>b. ''h''"]
    by (auto simp: demo_inputs_def mesh_pairs_def demo_direct_def)
qed

text \<open>
  C18: An agent is assigned exactly the probes of its own site and network. On tables that keep
  their keys unique, with UUIDs that print distinctly and a derivation of mesh ids without
  collisions, the configuration of an enrolled agent is loaded and expanded without an error, no
  probe id occurs twice, and its probes are the enabled direct probes of its site on its network
  together with every enabled template of a mesh of its network towards each agent of that network
  at another member site; nothing of another network is ever in it.
\<close>

theorem config_network_exact:
  assumes S: "schema_ok T" and me: "me \<in> set (ct_agents T)"
    and printing: "inj_on uuid_str (tg_id ` set (ct_targets T))"
    and hashing: "inj_on (\<lambda>(c, n). new_sha1 c n)
        (pc_id ` set (ct_configs T) \<times> (\<lambda>t. uuid_str (ag_site me) @ ''|'' @ uuid_str (tg_id t)) ` set (ct_targets T))"
      "\<forall>c\<in>pc_id ` set (ct_configs T). \<forall>t\<in>set (ct_targets T).
         new_sha1 c (uuid_str (ag_site me) @ ''|'' @ uuid_str (tg_id t)) \<notin> pc_id ` set (ct_configs T)"
  shows "\<exists>inp snap. LoadAgentConfigInputs T (ag_id me) = Some inp
    \<and> BuildSnapshot new_sha1 uuid_str marshal sha256 inp = Inr snap
    \<and> sorted_wrt (<) (map s_ProbeId (c_Probes snap))
    \<and> set (c_Probes snap) = {direct_probe pc t | pc t. runs_direct T me pc t}
        \<union> {mesh_probe new_sha1 uuid_str me pc mg peer t | pc mg peer t. runs_mesh T me pc mg peer t}"
proof -
  obtain inp where inp: "LoadAgentConfigInputs T (ag_id me) = Some inp" "in_SiteID inp = ag_site me"
    "in_Direct inp = direct_query T (ag_id me)" "in_Mesh inp = mesh_query T (ag_id me)" "in_Peers inp = peer_query T (ag_id me)"
    using load_inputs[OF S me] by simp
  have rows: "p_TargetID p \<in> tg_id ` set (ct_targets T)" if "p \<in> set (in_Peers inp)" for p
    using that unfolding inp peer_query_rows by (auto simp: peer_entry_def)
  have cfg: "m_ConfigID m \<in> pc_id ` set (ct_configs T)" if "m \<in> set (in_Mesh inp)" for m
    using that unfolding inp mesh_query_rows by (auto simp: mesh_entry_row_def)
  have dir: "d_ID d \<in> pc_id ` set (ct_configs T)" if "d \<in> set (in_Direct inp)" for d
    using that unfolding inp direct_query_rows by (auto simp: direct_entry_def)
  have pairs: "m \<in> set (in_Mesh inp) \<and> p \<in> set (in_Peers inp)" if "(m, p) \<in> set (mesh_pairs inp)" for m p
    using that by (auto simp: mesh_pairs_def)
  obtain snap where snap: "BuildSnapshot new_sha1 uuid_str marshal sha256 inp = Inr snap" "sorted_wrt (<) (map s_ProbeId (c_Probes snap))"
    "set (c_Probes snap) = direct_spec ` set (in_Direct inp)
        \<union> {mesh_spec new_sha1 uuid_str (in_SiteID inp) m p | m p. m \<in> set (in_Mesh inp) \<and> p \<in> set (in_Peers inp)
             \<and> p_MeshID p = m_MeshID m \<and> p_SiteID p \<noteq> in_SiteID inp}"
  proof (atomize_elim, goal_cases)
    case 1
    have "inj_on uuid_str (p_TargetID ` set (in_Peers inp))"
      using rows by (intro inj_on_subset[OF printing]) blast
    moreover have "inj_on (\<lambda>(t, n). new_sha1 t n)
        ((\<lambda>(m, p). (m_ConfigID m, uuid_str (in_SiteID inp) @ ''|'' @ uuid_str (p_TargetID p))) ` set (mesh_pairs inp))"
      using pairs cfg rows unfolding inp(2) by (intro inj_on_subset[OF hashing(1)]) fastforce
    moreover have "\<forall>(m, p)\<in>set (mesh_pairs inp). \<forall>d\<in>set (in_Direct inp).
        new_sha1 (m_ConfigID m) (uuid_str (in_SiteID inp) @ ''|'' @ uuid_str (p_TargetID p)) \<noteq> d_ID d"
      using pairs cfg rows dir hashing(2) unfolding inp(2) by fastforce
    ultimately show ?case
      using expansion_complete[of inp uuid_str new_sha1 marshal sha256] direct_query_distinct[OF S] mesh_query_distinct[OF S]
        peer_query_distinct[OF S] by (auto simp: inp)
  qed
  have "{mesh_spec new_sha1 uuid_str (in_SiteID inp) m p | m p. m \<in> set (in_Mesh inp) \<and> p \<in> set (in_Peers inp)
      \<and> p_MeshID p = m_MeshID m \<and> p_SiteID p \<noteq> in_SiteID inp}
    = {mesh_probe new_sha1 uuid_str me pc mg peer t | pc mg peer t. runs_mesh T me pc mg peer t}"
    unfolding inp mesh_probe_def mesh_rows_of[OF S me] by blast
  then show ?thesis using inp(1,3) snap direct_rows_of[OF S me] by auto
qed

definition demo_config :: "uuid \<Rightarrow> uuid option \<Rightarrow> uuid option \<Rightarrow> uuid option \<Rightarrow> uuid option \<Rightarrow> config_entry" where
  "demo_config i site target mesh network = \<lparr>pc_id = i, pc_site = site, pc_target = target, pc_mesh = mesh, pc_network = network,
     pc_type = 1, pc_interval_ms = 10000, pc_timeout_ms = 5000, pc_train_count = 0, pc_train_spacing_ms = 0, pc_params = [],
     pc_enabled = True, pc_created = int i\<rparr>"

definition demo_agent :: "uuid \<Rightarrow> uuid \<Rightarrow> uuid \<Rightarrow> agent_entry" where
  "demo_agent i site network = \<lparr>ag_id = i, ag_site = site, ag_network = network, ag_probe_address = ''p''\<rparr>"

definition demo_target :: "uuid \<Rightarrow> uuid option \<Rightarrow> target_entry" where
  "demo_target i agent = \<lparr>tg_id = i, tg_kind = (if agent = None then ''external'' else ''agent''), tg_agent = agent,
     tg_address = ''h'', tg_port = 0, tg_url = ''''\<rparr>"

text \<open>Three agents at two sites on two networks, one mesh over both sites and one direct probe.\<close>

definition demo_tables :: config_tables where
  "demo_tables = \<lparr>ct_agents = [demo_agent 1 10 20, demo_agent 2 11 20, demo_agent 3 11 21],
     ct_targets = [demo_target 30 None, demo_target 31 (Some 2), demo_target 32 (Some 3)],
     ct_meshes = [\<lparr>mg_id = 40, mg_network = 20\<rparr>],
     ct_members = [\<lparr>mm_mesh = 40, mm_site = 10\<rparr>, \<lparr>mm_mesh = 40, mm_site = 11\<rparr>],
     ct_configs = [demo_config 50 (Some 10) (Some 30) None (Some 20), demo_config 51 None None (Some 40) None]\<rparr>"

theorem config_network_exact_witness:
  "\<exists>inp snap. LoadAgentConfigInputs demo_tables 1 = Some inp
     \<and> BuildSnapshot (\<lambda>c n. 100 * c + of_char (last n)) (\<lambda>u. [char_of u]) (\<lambda>s. Some []) (\<lambda>b. ''h'') inp = Inr snap
     \<and> set (c_Probes snap) = {direct_probe pc t | pc t. runs_direct demo_tables (demo_agent 1 10 20) pc t}
         \<union> {mesh_probe (\<lambda>c n. 100 * c + of_char (last n)) (\<lambda>u. [char_of u]) (demo_agent 1 10 20) pc mg peer t | pc mg peer t.
              runs_mesh demo_tables (demo_agent 1 10 20) pc mg peer t}"
proof -
  have "schema_ok demo_tables" "demo_agent 1 10 20 \<in> set (ct_agents demo_tables)" "ag_id (demo_agent 1 10 20) = 1"
    by (simp_all add: schema_ok_def demo_tables_def demo_agent_def demo_target_def demo_config_def)
  moreover have "inj_on (\<lambda>u. [char_of u] :: string) (tg_id ` set (ct_targets demo_tables))"
    by (simp add: demo_tables_def demo_target_def)
  ultimately show ?thesis
    using config_network_exact[of demo_tables "demo_agent 1 10 20" "\<lambda>u. [char_of u]" "\<lambda>c n. 100 * c + of_char (last n)" "\<lambda>s. Some []" "\<lambda>b. ''h''"]
    by (auto simp: demo_tables_def demo_target_def demo_config_def inj_on_def)
qed

text \<open>
  The hash tells snapshots apart. When every probe encodes, no two probes encode alike, no
  encoding reaches \<open>2^64\<close> bytes and the two inputs do not collide under the hash, two lists of
  probes have the same configuration hash exactly when they are the same list: the length prefixes
  leave no other reading of the hashed bytes.
\<close>

theorem config_hash_faithful:
  assumes "\<forall>s\<in>set xs \<union> set ys. \<exists>b. marshal s = Some b \<and> length b < 2 ^ 64"
    and "inj_on marshal (set xs \<union> set ys)"
    and "sha256 (concat (map (hash_chunk marshal) xs)) = sha256 (concat (map (hash_chunk marshal) ys)) \<Longrightarrow>
      concat (map (hash_chunk marshal) xs) = concat (map (hash_chunk marshal) ys)"
  shows "hashSpecs marshal sha256 xs = hashSpecs marshal sha256 ys \<longleftrightarrow> xs = ys"
proof
  assume "hashSpecs marshal sha256 xs = hashSpecs marshal sha256 ys"
  then have c: "concat (map (hash_chunk marshal) xs) = concat (map (hash_chunk marshal) ys)"
    using assms(3) by (simp add: hashSpecs_def)
  define enc where "enc = (\<lambda>s. the (marshal s))"
  have chunk: "map (hash_chunk marshal) zs = map framed (map enc zs)" if "set zs \<subseteq> set xs \<union> set ys" for zs
  proof -
    have "hash_chunk marshal s = framed (enc s)" if "s \<in> set xs \<union> set ys" for s
      using assms(1)[THEN bspec, OF that] by (auto simp: hash_chunk_def enc_def)
    then show ?thesis using that by (auto simp: subset_iff)
  qed
  have "map enc xs = map enc ys"
  proof (rule frames_inject)
    have "length (enc s) < 2 ^ 64" if "s \<in> set xs \<union> set ys" for s
      using assms(1)[THEN bspec, OF that] by (auto simp: enc_def)
    then show "\<forall>b\<in>set (map enc xs) \<union> set (map enc ys). length b < 2 ^ 64" by auto
    show "concat (map framed (map enc xs)) = concat (map framed (map enc ys))"
      using c chunk[of xs] chunk[of ys] by simp
  qed
  moreover have "inj_on enc (set xs \<union> set ys)"
  proof (rule inj_onI)
    fix s t assume st: "s \<in> set xs \<union> set ys" "t \<in> set xs \<union> set ys" "enc s = enc t"
    then have "marshal s = marshal t"
      using assms(1)[THEN bspec, OF st(1)] assms(1)[THEN bspec, OF st(2)] by (auto simp: enc_def)
    then show "s = t" using inj_onD[OF assms(2)] st(1,2) by blast
  qed
  ultimately show "xs = ys" by (metis inj_on_map_eq_map)
qed simp

theorem config_hash_faithful_witness:
  "hashSpecs (\<lambda>s. Some [word_of_nat (s_ProbeId s)]) (\<lambda>b. replicate (length b) CHR ''a'') [direct_spec (demo_direct 1), direct_spec (demo_direct 2)]
     = hashSpecs (\<lambda>s. Some [word_of_nat (s_ProbeId s)]) (\<lambda>b. replicate (length b) CHR ''a'') [direct_spec (demo_direct 1)]
   \<longleftrightarrow> [direct_spec (demo_direct 1), direct_spec (demo_direct 2)] = [direct_spec (demo_direct 1)]"
  by (rule config_hash_faithful)
    (auto simp: inj_on_def direct_spec_def demo_direct_def mk_spec_def hash_chunk_def framed_def replicate_eq_replicate)

section \<open>Thresholds\<close>

text \<open>
  Threshold layers compose. Each metric takes the value of the first layer that sets it and the
  global value otherwise; merging less specific layers first and more specific ones over the result
  is the same as merging all at once; a layer that sets nothing changes nothing.
\<close>

theorem threshold_layers_compose:
  "Effective g (xs @ ys) = Effective (Effective g ys) xs
   \<and> Effective g layers =
       \<lparr>LatencyWarnUS = first_set o_LatencyWarnUS (LatencyWarnUS g) layers, LatencyCritUS = first_set o_LatencyCritUS (LatencyCritUS g) layers,
        LossWarnPct = first_set o_LossWarnPct (LossWarnPct g) layers, LossCritPct = first_set o_LossCritPct (LossCritPct g) layers\<rparr>
   \<and> Effective g (xs @ \<lparr>o_LatencyWarnUS = None, o_LatencyCritUS = None, o_LossWarnPct = None, o_LossCritPct = None\<rparr> # ys) = Effective g (xs @ ys)"
  using Effective_append by (simp add: Effective_eq first_set_append)

end
