(* ===== verification/Audit_Log.thy ===== *)
theory Audit_Log
  imports Go_Strings
begin

text \<open>
  The security-event vocabulary of the server (\<open>internal/audit\<close>): the event ids and the catalog of
  attributes each may carry (\<open>catalog.go\<close>), the record \<open>Emit\<close> writes, the fence that keeps secrets
  out of it and the classification of records (\<open>audit.go\<close>), and the per-request scratchpad handlers
  add to (\<open>context.go\<close>). An attribute is its key and the text of its value; the descriptions of the
  catalog are documentation and left out. The branch taken only under \<open>go test\<close> (a panic) is not
  modelled: \<open>Emit\<close> here is the production one.
\<close>

section \<open>The catalog\<close>

definition EventLogin :: string where "EventLogin = ''auth.login''"
definition EventSSOStart :: string where "EventSSOStart = ''auth.sso.start''"
definition EventSSOLogin :: string where "EventSSOLogin = ''auth.sso.login''"
definition EventSessionRejected :: string where "EventSessionRejected = ''auth.session.rejected''"
definition EventSessionEnded :: string where "EventSessionEnded = ''auth.session.ended''"
definition EventSessionRestored :: string where "EventSessionRestored = ''auth.session.restored''"
definition EventSSOAccountCreated :: string where "EventSSOAccountCreated = ''account.sso.created''"
definition EventSSOAccountUpdated :: string where "EventSSOAccountUpdated = ''account.sso.updated''"
definition EventAPIWrite :: string where "EventAPIWrite = ''api.write''"
definition EventAuthzDenied :: string where "EventAuthzDenied = ''authz.denied''"
definition EventAgentAuth :: string where "EventAgentAuth = ''agent.auth''"
definition EventAgentEnroll :: string where "EventAgentEnroll = ''agent.enroll''"
definition EventAgentSessionStart :: string where "EventAgentSessionStart = ''agent.session.start''"
definition EventAgentSessionEnd :: string where "EventAgentSessionEnd = ''agent.session.end''"
definition EventAgentCertRenew :: string where "EventAgentCertRenew = ''agent.cert.renew''"
definition EventServerStart :: string where "EventServerStart = ''server.start''"
definition EventServerStop :: string where "EventServerStop = ''server.stop''"
definition EventForwardStart :: string where "EventForwardStart = ''audit.forward.start''"
definition EventForwardStop :: string where "EventForwardStop = ''audit.forward.stop''"
definition EventForwardDisconnected :: string where "EventForwardDisconnected = ''audit.forward.disconnected''"
definition EventForwardRecovered :: string where "EventForwardRecovered = ''audit.forward.recovered''"
definition EventForwardTest :: string where "EventForwardTest = ''audit.forward.test''"
definition EventSyslogSettingsUpdate :: string where "EventSyslogSettingsUpdate = ''settings.syslog.update''"
definition EventCLIUserAdd :: string where "EventCLIUserAdd = ''cli.user.add''"
definition EventCLITokenCreate :: string where "EventCLITokenCreate = ''cli.token.create''"
definition EventCLICAInit :: string where "EventCLICAInit = ''cli.ca.init''"
definition EventCLICARetire :: string where "EventCLICARetire = ''cli.ca.retire''"
definition EventCLITLSInstall :: string where "EventCLITLSInstall = ''cli.tls.install''"
definition EventCLISiteSet :: string where "EventCLISiteSet = ''cli.site.set''"
definition EventCLINetworkCreate :: string where "EventCLINetworkCreate = ''cli.network.create''"
definition EventCLINetworkSet :: string where "EventCLINetworkSet = ''cli.network.set''"
definition EventCLINetworkDelete :: string where "EventCLINetworkDelete = ''cli.network.delete''"
definition EventCLITargetAdd :: string where "EventCLITargetAdd = ''cli.target.add''"
definition EventCLITargetRemove :: string where "EventCLITargetRemove = ''cli.target.rm''"
definition EventCLIProbeAdd :: string where "EventCLIProbeAdd = ''cli.probe.add''"
definition EventCLIProbeRemove :: string where "EventCLIProbeRemove = ''cli.probe.rm''"
definition EventCLIMeshCreate :: string where "EventCLIMeshCreate = ''cli.mesh.create''"
definition EventCLIMeshAdd :: string where "EventCLIMeshAdd = ''cli.mesh.add''"
definition EventCLIMeshRemove :: string where "EventCLIMeshRemove = ''cli.mesh.rm''"
definition EventCLIMeshDelete :: string where "EventCLIMeshDelete = ''cli.mesh.delete''"
definition EventCLIMigrate :: string where "EventCLIMigrate = ''cli.migrate''"
definition EventCLIAgentRevoke :: string where "EventCLIAgentRevoke = ''cli.agent.revoke''"

lemmas event_ids =
  EventLogin_def EventSSOStart_def EventSSOLogin_def EventSessionRejected_def
  EventSessionEnded_def EventSessionRestored_def EventSSOAccountCreated_def EventSSOAccountUpdated_def
  EventAPIWrite_def EventAuthzDenied_def EventAgentAuth_def EventAgentEnroll_def
  EventAgentSessionStart_def EventAgentSessionEnd_def EventAgentCertRenew_def EventServerStart_def
  EventServerStop_def EventForwardStart_def EventForwardStop_def EventForwardDisconnected_def
  EventForwardRecovered_def EventForwardTest_def EventSyslogSettingsUpdate_def EventCLIUserAdd_def
  EventCLITokenCreate_def EventCLICAInit_def EventCLICARetire_def EventCLITLSInstall_def
  EventCLISiteSet_def EventCLINetworkCreate_def EventCLINetworkSet_def EventCLINetworkDelete_def
  EventCLITargetAdd_def EventCLITargetRemove_def EventCLIProbeAdd_def EventCLIProbeRemove_def
  EventCLIMeshCreate_def EventCLIMeshAdd_def EventCLIMeshRemove_def EventCLIMeshDelete_def
  EventCLIMigrate_def EventCLIAgentRevoke_def

text \<open>Every event the server can emit, with the event-specific keys it may carry.\<close>

definition Catalog :: "(string \<times> string list) list" where
  "Catalog =
     [(EventLogin, [''reason'']),
      (EventSSOStart, [''reason'']),
      (EventSSOLogin, [''reason'', ''issuer'']),
      (EventSessionRejected, [''reason'', ''route'', ''path'']),
      (EventSessionEnded, [''reason'', ''observed_at'']),
      (EventSessionRestored, [''reason'']),
      (EventSSOAccountCreated, [''user_id'', ''user_target'', ''role'', ''networks'', ''issuer'']),
      (EventSSOAccountUpdated, [''user_id'', ''user_target'', ''prev_username'', ''role'', ''prev_role'', ''networks'', ''prev_networks'', ''issuer'']),
      (EventAPIWrite, [''route'', ''path'', ''status'', ''reason'', ''target'', ''mesh'', ''probe'', ''probe_type'', ''network'', ''site'', ''user_target'', ''user_id'', ''role'', ''networks'', ''disabled'', ''sessions_revoked'', ''ttl'', ''provider_changed'', ''policy_changed'']),
      (EventAuthzDenied, [''route'', ''path'', ''status'', ''reason'']),
      (EventAgentAuth, [''reason'']),
      (EventAgentEnroll, [''agent'', ''site'', ''network'', ''hostname'', ''probe_address'', ''reason'']),
      (EventAgentSessionStart, [''agent'', ''version'']),
      (EventAgentSessionEnd, [''agent'', ''reason'']),
      (EventAgentCertRenew, [''agent'', ''not_after'', ''reason'']),
      (EventServerStart, [''version'', ''grpc_addr'', ''http_addr'', ''proxy_protocol'', ''reason'']),
      (EventServerStop, [''reason'']),
      (EventForwardStart, [''transport'', ''host'', ''port'', ''content'', ''on_failure'']),
      (EventForwardStop, []),
      (EventForwardDisconnected, [''host'', ''reason'']),
      (EventForwardRecovered, [''outage'', ''dropped'']),
      (EventForwardTest, []),
      (EventSyslogSettingsUpdate, [''enabled'', ''transport'', ''host'', ''port'', ''content'', ''on_failure'', ''previous_enabled'', ''previous_host'', ''previous_port'']),
      (EventCLIUserAdd, [''user_target'', ''user_id'', ''role'', ''networks'']),
      (EventCLITokenCreate, [''site'', ''network'', ''ttl'']),
      (EventCLICAInit, [''algorithm'', ''fingerprint'', ''dir'']),
      (EventCLICARetire, [''dir'', ''retired_to'']),
      (EventCLITLSInstall, [''cert_file'', ''key_file'']),
      (EventCLISiteSet, [''site'']),
      (EventCLINetworkCreate, [''network'']),
      (EventCLINetworkSet, [''network'']),
      (EventCLINetworkDelete, [''network'', ''tokens_deleted'']),
      (EventCLITargetAdd, [''target'', ''network'']),
      (EventCLITargetRemove, [''target'']),
      (EventCLIProbeAdd, [''probe'', ''probe_type'', ''mesh'', ''site'', ''target'', ''network'']),
      (EventCLIProbeRemove, [''probe'']),
      (EventCLIMeshCreate, [''mesh'', ''network'']),
      (EventCLIMeshAdd, [''mesh'', ''site'']),
      (EventCLIMeshRemove, [''mesh'', ''site'']),
      (EventCLIMeshDelete, [''mesh'', ''probes_deleted'']),
      (EventCLIMigrate, [''reason'']),
      (EventCLIAgentRevoke, [''agent'', ''serials'', ''serial''])]"

section \<open>Records\<close>

type_synonym attr = "string \<times> string"

definition LevelDebug :: int where "LevelDebug = - 4"
definition LevelInfo :: int where "LevelInfo = 0"
definition LevelWarn :: int where "LevelWarn = 4"
definition LevelError :: int where "LevelError = 8"

lemmas levels = LevelDebug_def LevelInfo_def LevelWarn_def LevelError_def

record slog_record =
  lr_Time :: gtime
  lr_Level :: int
  lr_Msg :: string
  lr_Attrs :: "attr list"

definition KeyEvent :: string where "KeyEvent = ''event''"
definition KeyOutcome :: string where "KeyOutcome = ''outcome''"
definition KeyUser :: string where "KeyUser = ''user''"
definition KeyUserSource :: string where "KeyUserSource = ''user_source''"
definition KeySession :: string where "KeySession = ''session''"
definition KeyRemote :: string where "KeyRemote = ''remote''"

lemmas fixed_keys = KeyEvent_def KeyOutcome_def KeyUser_def KeyUserSource_def KeySession_def KeyRemote_def

datatype Outcome = Success | Failure | Denied

primrec outcome_text :: "Outcome \<Rightarrow> string" where
  "outcome_text Success = ''success''"
| "outcome_text Failure = ''failure''"
| "outcome_text Denied = ''denied''"

record Actor =
  a_User :: string
  a_Source :: string
  a_Session :: string

text \<open>\<open>At\<close> is zero when the record is to carry the current time.\<close>

record audit_event =
  ev_ID :: string
  ev_Msg :: string
  ev_Outcome :: Outcome
  ev_Actor :: Actor
  ev_Remote :: string
  ev_At :: gtime
  ev_Attrs :: "attr list"

section \<open>The fence\<close>

definition forbiddenKeys :: "string list" where
  "forbiddenKeys = [''password'', ''token'', ''secret'', ''cookie'', ''pem'', ''authorization'', ''csrf'']"

text \<open>
  \<open>strings.ToLower\<close>, as far as splitting its result at underscores and comparing the parts with
  lower-case ASCII words can tell: ASCII letters are mapped, and of all other runes only the Kelvin
  sign (U+212A) and the dotted capital I (U+0130) have an ASCII lower case.
\<close>

fun to_lower :: "string \<Rightarrow> string" where
  "to_lower [] = []"
| "to_lower (c # cs) =
     (if c = CHR 0xE2 \<and> is_prefix [CHR 0x84, CHR 0xAA] cs then CHR ''k'' # to_lower (drop 2 cs)
      else if c = CHR 0xC4 \<and> is_prefix [CHR 0xB0] cs then CHR ''i'' # to_lower (drop 1 cs)
      else (if c \<in> set ''ABCDEFGHIJKLMNOPQRSTUVWXYZ'' then char_of ((of_char c :: nat) + 32) else c) # to_lower cs)"

text \<open>\<open>strings.Split\<close> at a one-byte separator.\<close>

fun split_at :: "char \<Rightarrow> string \<Rightarrow> string list" where
  "split_at sep [] = [[]]"
| "split_at sep (c # cs) =
     (if c = sep then [] # split_at sep cs
      else case split_at sep cs of p # ps \<Rightarrow> (c # p) # ps | [] \<Rightarrow> [[c]])"

definition forbidden :: "string \<Rightarrow> bool" where
  "forbidden key \<longleftrightarrow> list_ex (\<lambda>part. part \<in> set forbiddenKeys) (split_at CHR ''_'' (to_lower key))"

section \<open>Emit\<close>

definition error_record :: "gtime \<Rightarrow> string \<Rightarrow> attr list \<Rightarrow> slog_record" where
  "error_record now msg attrs = \<lparr>lr_Time = now, lr_Level = LevelError, lr_Msg = msg, lr_Attrs = attrs\<rparr>"

definition audit_level :: "Outcome \<Rightarrow> int" where
  "audit_level o1 = (if o1 \<noteq> Success then LevelWarn else LevelInfo)"

definition fixed_attrs :: "audit_event \<Rightarrow> attr list" where
  "fixed_attrs ev =
     [(KeyEvent, ev_ID ev), (KeyOutcome, outcome_text (ev_Outcome ev))]
     @ (if a_User (ev_Actor ev) \<noteq> '''' then [(KeyUser, a_User (ev_Actor ev))] else [])
     @ (if a_Source (ev_Actor ev) \<noteq> '''' then [(KeyUserSource, a_Source (ev_Actor ev))] else [])
     @ (if a_Session (ev_Actor ev) \<noteq> '''' then [(KeySession, a_Session (ev_Actor ev))] else [])
     @ (if ev_Remote ev \<noteq> '''' then [(KeyRemote, ev_Remote ev)] else [])"

text \<open>
  The records \<open>Emit\<close> hands to the handler, in order: its own complaints, each subject to the
  handler's level gate, and the audit record. \<open>enabled\<close> is the gate, \<open>now\<close> the clock.
\<close>

definition Emit :: "(int \<Rightarrow> bool) \<Rightarrow> gtime \<Rightarrow> audit_event \<Rightarrow> slog_record list" where
  "Emit enabled now ev =
     (if map_of Catalog (ev_ID ev) = None \<and> enabled LevelError
      then [error_record now ''audit: event id not in catalog'' [(''id'', ev_ID ev)]] else [])
     @ (if \<not> enabled (audit_level (ev_Outcome ev)) then []
        else map (\<lambda>a. error_record now ''audit: dropped attribute that names a secret'' [(''id'', ev_ID ev), (''key'', fst a)])
               (filter (\<lambda>a. forbidden (fst a) \<and> enabled LevelError) (ev_Attrs ev))
             @ [\<lparr>lr_Time = (if ev_At ev = 0 then now else ev_At ev), lr_Level = audit_level (ev_Outcome ev), lr_Msg = ev_Msg ev,
                 lr_Attrs = fixed_attrs ev @ filter (\<lambda>a. \<not> forbidden (fst a)) (ev_Attrs ev)\<rparr>])"

definition IsAudit :: "slog_record \<Rightarrow> bool" where
  "IsAudit r = (case lr_Attrs r of [] \<Rightarrow> False | a # _ \<Rightarrow> fst a = KeyEvent)"

definition EventID :: "slog_record \<Rightarrow> string" where
  "EventID r = (case lr_Attrs r of [] \<Rightarrow> '''' | a # _ \<Rightarrow> if fst a = KeyEvent then snd a else '''')"

section \<open>The per-request scratchpad\<close>

record Extras =
  x_attrs :: "attr list"
  x_denied :: bool
  x_failed :: bool
  x_suppressed :: bool

definition WithExtras :: Extras where
  "WithExtras = \<lparr>x_attrs = [], x_denied = False, x_failed = False, x_suppressed = False\<rparr>"

text \<open>A context without a scratchpad is \<open>None\<close>, on which every operation does nothing.\<close>

definition Add :: "attr list \<Rightarrow> Extras option \<Rightarrow> Extras option" where
  "Add attrs = map_option (\<lambda>ex. ex\<lparr>x_attrs := x_attrs ex @ attrs\<rparr>)"

definition Deny :: "string \<Rightarrow> Extras option \<Rightarrow> Extras option" where
  "Deny reason = map_option (\<lambda>ex. ex\<lparr>x_attrs := x_attrs ex @ [(''reason'', reason)], x_denied := True\<rparr>)"

definition Fail :: "string \<Rightarrow> Extras option \<Rightarrow> Extras option" where
  "Fail reason = map_option (\<lambda>ex. ex\<lparr>x_attrs := x_attrs ex @ [(''reason'', reason)], x_failed := True\<rparr>)"

definition Suppress :: "Extras option \<Rightarrow> Extras option" where
  "Suppress = map_option (\<lambda>ex. ex\<lparr>x_suppressed := True\<rparr>)"

definition Take :: "Extras option \<Rightarrow> attr list \<times> bool \<times> bool \<times> bool" where
  "Take m = (case m of None \<Rightarrow> ([], False, False, False) | Some ex \<Rightarrow> (x_attrs ex, x_denied ex, x_failed ex, x_suppressed ex))"

section \<open>Lemmas\<close>

lemma Emit_audit_record:
  assumes "enabled (audit_level (ev_Outcome ev))"
  shows "\<exists>es r. Emit enabled now ev = es @ [r] \<and> lr_Attrs r = fixed_attrs ev @ filter (\<lambda>a. \<not> forbidden (fst a)) (ev_Attrs ev)
    \<and> IsAudit r \<and> EventID r = ev_ID ev \<and> lr_Level r = audit_level (ev_Outcome ev)
    \<and> (\<forall>e\<in>set es. \<not> IsAudit e \<and> lr_Level e = LevelError)"
  using assms unfolding Emit_def
  by (auto simp: IsAudit_def EventID_def fixed_attrs_def error_record_def fixed_keys)

text \<open>Every id of the catalog is a legal MSGID and every key it documents passes the fence.\<close>

definition printable :: "string \<Rightarrow> bool" where
  "printable s = list_all (\<lambda>c. (of_char c :: nat) \<in> {33..126}) s"

definition fixed_keys_list :: "string list" where
  "fixed_keys_list = [KeyEvent, KeyOutcome, KeyUser, KeyUserSource, KeySession, KeyRemote]"

lemma catalog_ids: "list_all (\<lambda>(i, ks). printable i \<and> i \<noteq> [] \<and> length i \<le> 32) Catalog"
  by (simp add: Catalog_def event_ids printable_def)

lemma catalog_keys: "list_all (\<lambda>(i, ks). list_all (\<lambda>k. \<not> forbidden k \<and> k \<notin> set fixed_keys_list) ks) Catalog"
  by (simp add: Catalog_def forbidden_def forbiddenKeys_def fixed_keys_list_def fixed_keys)

end
