(* ===== verification/Syslog_Config.thy ===== *)
theory Syslog_Config
  imports Audit_Log
begin

text \<open>
  The configuration of the syslog forwarder (\<open>internal/server/syslogfwd/config.go\<close> and
  \<open>settings.go\<close>): the destination, the check that names every problem at once, the advisory
  warnings, and the TLS client configuration. A problem is a constructor. Certificates belong to
  the standard library's \<open>pem\<close>, \<open>x509\<close> and \<open>tls\<close> packages and are parameters: \<open>blocks\<close> gives the
  blocks repeated calls of \<open>pem.Decode\<close> find in a text, \<open>parses\<close> tells which contents
  \<open>x509.ParseCertificate\<close> accepts, \<open>pair_ok\<close> tells which pairs \<open>tls.X509KeyPair\<close> accepts.
\<close>

section \<open>Configuration\<close>

definition TransportUDP :: string where "TransportUDP = ''udp''"
definition TransportTCP :: string where "TransportTCP = ''tcp''"
definition TransportTLS :: string where "TransportTLS = ''tls''"
definition FramingOctetCounted :: string where "FramingOctetCounted = ''octet-counted''"
definition FramingNonTransparent :: string where "FramingNonTransparent = ''non-transparent''"
definition ContentAll :: string where "ContentAll = ''all''"
definition ContentAudit :: string where "ContentAudit = ''audit''"
definition OnFailureWarn :: string where "OnFailureWarn = ''warn''"
definition OnFailureHalt :: string where "OnFailureHalt = ''halt''"

lemmas syslog_enums = TransportUDP_def TransportTCP_def TransportTLS_def FramingOctetCounted_def
  FramingNonTransparent_def ContentAll_def ContentAudit_def OnFailureWarn_def OnFailureHalt_def

definition DefaultPort :: int where "DefaultPort = 6514"
definition DefaultFacility :: int where "DefaultFacility = 16"
definition DefaultFailureTimeout :: duration where "DefaultFailureTimeout = 5 * minute"
definition MinFailureTimeout :: duration where "MinFailureTimeout = minute"
definition QueueSize :: nat where "QueueSize = 10000"
definition MaxMessageBytes :: nat where "MaxMessageBytes = 8192"
definition AppName :: string where "AppName = ''polarbeam-server''"

definition facilities :: "(string \<times> int) list" where
  "facilities =
     [(''kern'', 0), (''user'', 1), (''mail'', 2), (''daemon'', 3), (''auth'', 4), (''syslog'', 5), (''lpr'', 6), (''news'', 7),
      (''uucp'', 8), (''cron'', 9), (''authpriv'', 10), (''ftp'', 11), (''ntp'', 12), (''audit'', 13), (''alert'', 14), (''clock'', 15),
      (''local0'', 16), (''local1'', 17), (''local2'', 18), (''local3'', 19), (''local4'', 20), (''local5'', 21), (''local6'', 22), (''local7'', 23)]"

definition FacilityCode :: "string \<Rightarrow> int option" where
  "FacilityCode name = map_of facilities (to_lower name)"

definition FacilityName :: "int \<Rightarrow> string" where
  "FacilityName code = (case find (\<lambda>p. snd p = code) facilities of Some p \<Rightarrow> fst p | None \<Rightarrow> '''')"

record Config =
  Enabled :: bool
  Transport :: string
  Host :: string
  Port :: int
  Framing :: string
  Facility :: int
  Hostname :: string
  Content :: string
  MinLevel :: string
  OnFailure :: string
  FailureTimeout :: duration
  CAPEM :: string
  ClientCertPEM :: string
  ClientKeyPEM :: string
  ServerName :: string

definition parseLevel :: "string \<Rightarrow> int option" where
  "parseLevel s =
     (if s = ''debug'' then Some LevelDebug else if s = ''info'' then Some LevelInfo
      else if s = ''warn'' then Some LevelWarn else if s = ''error'' then Some LevelError else None)"

definition cfg_level :: "Config \<Rightarrow> int" where
  "cfg_level c = (case parseLevel (MinLevel c) of Some l \<Rightarrow> l | None \<Rightarrow> 0)"

section \<open>Certificates\<close>

record pem_block =
  b_Type :: string
  b_Headers :: nat
  b_Bytes :: "byte list"

datatype cert_error = NonCertificate string | NotParsed | NoCertificates

fun validate_blocks :: "(byte list \<Rightarrow> bool) \<Rightarrow> nat \<Rightarrow> pem_block list \<Rightarrow> cert_error option" where
  "validate_blocks parses certs [] = (if certs = 0 then Some NoCertificates else None)"
| "validate_blocks parses certs (b # bs) =
     (if b_Type b \<noteq> ''CERTIFICATE'' then Some (NonCertificate (b_Type b))
      else if \<not> parses (b_Bytes b) then Some NotParsed
      else validate_blocks parses (certs + 1) bs)"

definition validateCertPEM :: "(string \<Rightarrow> pem_block list) \<Rightarrow> (byte list \<Rightarrow> bool) \<Rightarrow> string \<Rightarrow> cert_error option" where
  "validateCertPEM blocks parses pemText = validate_blocks parses 0 (blocks pemText)"

text \<open>
  \<open>x509.CertPool.AppendCertsFromPEM\<close>: blocks of another type or with headers are skipped, and so
  are certificates that do not parse; the call succeeds when a certificate was added.
\<close>

definition pool_certs :: "(byte list \<Rightarrow> bool) \<Rightarrow> pem_block list \<Rightarrow> byte list list" where
  "pool_certs parses bs = filter parses (map b_Bytes (filter (\<lambda>b. b_Type b = ''CERTIFICATE'' \<and> b_Headers b = 0) bs))"

datatype tls_error = NoUsableCA | ClientPair

record tls_config =
  tc_MinVersion :: nat
  tc_ServerName :: string
  tc_RootCAs :: "byte list list option"
  tc_Certificates :: "(string \<times> string) list"

definition VersionTLS12 :: nat where "VersionTLS12 = 0x0303"

definition tlsConfig ::
  "(string \<Rightarrow> pem_block list) \<Rightarrow> (byte list \<Rightarrow> bool) \<Rightarrow> (string \<Rightarrow> string \<Rightarrow> bool) \<Rightarrow> Config \<Rightarrow> tls_error + tls_config" where
  "tlsConfig blocks parses pair_ok c =
     (let tc = \<lparr>tc_MinVersion = VersionTLS12, tc_ServerName = (if ServerName c = '''' then Host c else ServerName c),
                tc_RootCAs = None, tc_Certificates = []\<rparr>
      in if CAPEM c \<noteq> '''' \<and> pool_certs parses (blocks (CAPEM c)) = [] then Inl NoUsableCA
         else let tc = (if CAPEM c \<noteq> '''' then tc\<lparr>tc_RootCAs := Some (pool_certs parses (blocks (CAPEM c)))\<rparr> else tc)
              in if ClientCertPEM c = '''' then Inr tc
                 else if \<not> pair_ok (ClientCertPEM c) (ClientKeyPEM c) then Inl ClientPair
                 else Inr (tc\<lparr>tc_Certificates := [(ClientCertPEM c, ClientKeyPEM c)]\<rparr>))"

section \<open>Problems and warnings\<close>

datatype cfg_problem =
  BadTransport | HostRequired | BadHost | BadCfgPort | TlsFraming | BadFraming | BadFacility | BadHostname
| BadContent | BadMinLevel | BadOnFailure | BadTimeout | BadCA cert_error | KeyRequired | BadPair | KeyWithoutCert | BadServerName

definition host_chars :: string where
  "host_chars = [CHR '' '', CHR 0x09, CHR 0x0D, CHR 0x0A, CHR ''/'']"

definition Problems ::
  "(string \<Rightarrow> pem_block list) \<Rightarrow> (byte list \<Rightarrow> bool) \<Rightarrow> (string \<Rightarrow> string \<Rightarrow> bool) \<Rightarrow> Config \<Rightarrow> cfg_problem list" where
  "Problems blocks parses pair_ok c =
     (if Transport c \<notin> {TransportUDP, TransportTCP, TransportTLS} then [BadTransport] else [])
     @ (if Enabled c \<and> trim_space (Host c) = '''' then [HostRequired] else [])
     @ (if contains_any (Host c) host_chars then [BadHost] else [])
     @ (if Port c < 1 \<or> Port c > 65535 then [BadCfgPort] else [])
     @ (if Framing c = FramingOctetCounted then []
        else if Framing c = FramingNonTransparent then (if Transport c = TransportTLS then [TlsFraming] else [])
        else [BadFraming])
     @ (if Facility c < 0 \<or> Facility c > 23 then [BadFacility] else [])
     @ (if length (Hostname c) > 255 \<or> \<not> printable (Hostname c) then [BadHostname] else [])
     @ (if Content c \<noteq> ContentAll \<and> Content c \<noteq> ContentAudit then [BadContent] else [])
     @ (if parseLevel (MinLevel c) = None then [BadMinLevel] else [])
     @ (if OnFailure c \<noteq> OnFailureWarn \<and> OnFailure c \<noteq> OnFailureHalt then [BadOnFailure] else [])
     @ (if FailureTimeout c < MinFailureTimeout then [BadTimeout] else [])
     @ (if CAPEM c = '''' then []
        else case validateCertPEM blocks parses (CAPEM c) of Some e \<Rightarrow> [BadCA e] | None \<Rightarrow> [])
     @ (if ClientCertPEM c \<noteq> '''' then
          (if ClientKeyPEM c = '''' then [KeyRequired]
           else if \<not> pair_ok (ClientCertPEM c) (ClientKeyPEM c) then [BadPair] else [])
        else if ClientKeyPEM c \<noteq> '''' then [KeyWithoutCert] else [])
     @ (if ServerName c \<noteq> '''' \<and> contains_any (ServerName c) host_chars then [BadServerName] else [])"

datatype cfg_warning = UdpLossy | TcpClear | HaltPolicy duration

definition cfg_Warnings :: "Config \<Rightarrow> cfg_warning list" where
  "cfg_Warnings c =
     (if \<not> Enabled c then []
      else (if Transport c = TransportUDP then [UdpLossy] else if Transport c = TransportTCP then [TcpClear] else [])
           @ (if OnFailure c = OnFailureHalt then [HaltPolicy (FailureTimeout c)] else []))"

definition Defaults :: Config where
  "Defaults =
     \<lparr>Enabled = False, Transport = TransportTLS, Host = '''', Port = DefaultPort, Framing = FramingOctetCounted,
      Facility = DefaultFacility, Hostname = '''', Content = ContentAll, MinLevel = ''info'', OnFailure = OnFailureWarn,
      FailureTimeout = DefaultFailureTimeout, CAPEM = '''', ClientCertPEM = '''', ClientKeyPEM = '''', ServerName = ''''\<rparr>"

section \<open>Lemmas\<close>

lemma FacilityName_Code:
  "0 \<le> n \<Longrightarrow> n \<le> 23 \<Longrightarrow> FacilityCode (FacilityName n) = Some n"
proof -
  assume "0 \<le> n" "n \<le> 23"
  then have "n \<in> set [0..23]" by simp
  moreover have "list_all (\<lambda>n. FacilityCode (FacilityName n) = Some n) [0..23]" by code_simp
  ultimately show ?thesis by (simp add: list_all_iff)
qed

lemma Defaults_ok: "Problems blocks parses pair_ok Defaults = []"
  by (simp add: Problems_def Defaults_def syslog_enums DefaultPort_def DefaultFacility_def printable_def contains_any_def
      parseLevel_def MinFailureTimeout_def DefaultFailureTimeout_def)

text \<open>What a configuration without problems guarantees.\<close>

lemma Problems_Nil:
  assumes "Problems blocks parses pair_ok c = []"
  shows "Transport c \<in> {TransportUDP, TransportTCP, TransportTLS}"
    and "1 \<le> Port c \<and> Port c \<le> 65535" and "0 \<le> Facility c \<and> Facility c \<le> 23"
    and "length (Hostname c) \<le> 255 \<and> printable (Hostname c)"
    and "Framing c = FramingOctetCounted \<or> Framing c = FramingNonTransparent \<and> Transport c \<noteq> TransportTLS"
    and "MinFailureTimeout \<le> FailureTimeout c" and "Enabled c \<longrightarrow> trim_space (Host c) \<noteq> ''''"
    and "CAPEM c \<noteq> '''' \<longrightarrow> validateCertPEM blocks parses (CAPEM c) = None"
    and "ClientCertPEM c \<noteq> '''' \<longrightarrow> pair_ok (ClientCertPEM c) (ClientKeyPEM c)"
  using assms unfolding Problems_def by (auto split: if_splits option.splits)

lemma validate_blocks_None:
  "validate_blocks parses k bs = None \<Longrightarrow> (\<forall>b\<in>set bs. b_Type b = ''CERTIFICATE'' \<and> parses (b_Bytes b)) \<and> (k = 0 \<longrightarrow> bs \<noteq> [])"
  by (induction parses k bs rule: validate_blocks.induct) (auto split: if_splits)

end
