(* ===== verification/Syslog_Receive.thy ===== *)
theory Syslog_Receive
  imports Syslog_Format "HOL-Library.Sublist"
begin

text \<open>
  The collector's side of the syslog wire format, and the lemmas that tie it to the formatter:
  reading a parameter value up to its closing quote and decoding it, reading the frames of a stream,
  the length of a header and the absence of control characters in it.
\<close>

section \<open>Reading structured data\<close>

text \<open>RFC 5424, section 6.3.3: a backslash takes the next byte literally, a bare quote ends the value.\<close>

fun read_value :: "string \<Rightarrow> (string \<times> string) option" where
  "read_value [] = None"
| "read_value (c # cs) =
     (if c = CHR 0x22 then Some ([], cs)
      else if c = CHR 0x5C then
        (case cs of [] \<Rightarrow> None | d # ds \<Rightarrow> map_option (\<lambda>(v, r). (d # v, r)) (read_value ds))
      else map_option (\<lambda>(v, r). (c # v, r)) (read_value cs))"

definition hex_val :: "char \<Rightarrow> nat option" where
  "hex_val c = map_of (zip ''0123456789ABCDEF'' [0..<16]) c"

fun percent_decode :: "string \<Rightarrow> string" where
  "percent_decode (c # h # l # cs) =
     (if c = CHR ''%'' then
        (case (hex_val h, hex_val l) of
           (Some a, Some b) \<Rightarrow> char_of (16 * a + b) # percent_decode cs
         | _ \<Rightarrow> c # percent_decode (h # l # cs))
      else c # percent_decode (h # l # cs))"
| "percent_decode s = s"

text \<open>What the decoding of the RFC leaves: only the percent layer.\<close>

definition percent_byte :: "char \<Rightarrow> string" where
  "percent_byte c =
     (if is_control c \<or> c = CHR ''%''
      then [CHR ''%'', hex_digit ((of_char c :: nat) div 16), hex_digit ((of_char c :: nat) mod 16)] else [c])"

lemma concat_singletons: "(\<And>c. c \<in> set s \<Longrightarrow> f c = [c]) \<Longrightarrow> concat (map f s) = s"
  by (induction s) auto

lemma sdEscape_bytes: "sdEscape s = concat (map sd_escape_byte s)"
proof -
  have "concat (map sd_escape_byte s) = s"
    if "\<not> contains_any s [CHR 0x22, CHR 0x5C, CHR '']'', CHR ''%'']" "\<not> hasControl s"
    using that by (intro concat_singletons) (auto simp: sd_escape_byte_def contains_any_def hasControl_def list_ex_iff)
  then show ?thesis by (simp add: sdEscape_def)
qed

lemma of_char_less: "(of_char c :: nat) < 256"
  by (metis char_of_nat of_char_of of_char_mod_256 mod_less_divisor zero_less_numeral)

lemma hex_val_digit: "n < 16 \<Longrightarrow> hex_val (hex_digit n) = Some n"
proof -
  have "list_all (\<lambda>n. hex_val (hex_digit n) = Some n) [0..<16]" by code_simp
  then show "n < 16 \<Longrightarrow> hex_val (hex_digit n) = Some n" by (simp add: list_all_iff)
qed

lemma hex_digit_range: "n < 16 \<Longrightarrow> hex_digit n \<notin> {CHR 0x22, CHR 0x5C, CHR '']'', CHR ''%''} \<and> \<not> is_control (hex_digit n)"
proof -
  have "list_all (\<lambda>n. hex_digit n \<notin> {CHR 0x22, CHR 0x5C, CHR '']'', CHR ''%''} \<and> \<not> is_control (hex_digit n)) [0..<16]" by code_simp
  then show "n < 16 \<Longrightarrow> ?thesis" by (simp add: list_all_iff)
qed

lemma hex_parts: "(of_char c :: nat) div 16 < 16" "(of_char c :: nat) mod 16 < 16"
  using of_char_less[of c] less_mult_imp_div_less[of "of_char c" 16 16] by simp_all

lemma percent_byte_decode: "percent_decode (percent_byte c @ s) = c # percent_decode s"
proof (cases "is_control c \<or> c = CHR ''%''")
  case True
  then show ?thesis
    by (simp add: percent_byte_def hex_val_digit hex_parts)
next
  case False
  then show ?thesis
    by (cases s; cases "tl s") (simp_all add: percent_byte_def)
qed

lemma percent_decode_bytes: "percent_decode (concat (map percent_byte s)) = s"
  by (induction s) (simp_all add: percent_byte_decode)

lemma read_value_escape:
  "read_value (concat (map sd_escape_byte s) @ CHR 0x22 # rest) = Some (concat (map percent_byte s), rest)"
proof (induction s)
  case (Cons c s)
  have h: "hex_digit ((of_char c :: nat) div 16) \<notin> {CHR 0x22, CHR 0x5C}" "hex_digit ((of_char c :: nat) mod 16) \<notin> {CHR 0x22, CHR 0x5C}"
    using hex_digit_range hex_parts by blast+
  show ?case
    using Cons.IH h by (auto simp: sd_escape_byte_def percent_byte_def is_control_def)
qed simp

lemma sd_escape_no_control: "c \<in> set (sdEscape s) \<Longrightarrow> \<not> is_control c"
proof -
  have "\<not> is_control c" if "c \<in> set (sd_escape_byte b)" for b c
    using that hex_digit_range hex_parts by (auto simp: sd_escape_byte_def is_control_def split: if_splits)
  then show "c \<in> set (sdEscape s) \<Longrightarrow> ?thesis" by (auto simp: sdEscape_bytes)
qed

lemma sdEscape_length: "length (sdEscape s) \<le> 3 * length s"
proof -
  have "length (sd_escape_byte b) \<le> 3" for b by (simp add: sd_escape_byte_def)
  then have "length (concat (map sd_escape_byte s)) \<le> 3 * length s"
    by (induction s) (auto intro: order_trans[OF add_mono])
  then show ?thesis by (simp add: sdEscape_bytes)
qed

section \<open>Reading frames\<close>

text \<open>Octet counting: the digits up to a blank, then that many bytes.\<close>

definition read_frame_octets :: "string \<Rightarrow> (string \<times> string) option" where
  "read_frame_octets s =
     (let ds = takeWhile (\<lambda>c. c \<noteq> CHR '' '') s; rest = dropWhile (\<lambda>c. c \<noteq> CHR '' '') s
      in if rest = [] \<or> ds = [] then None
         else case digits_val 0 ds of
           None \<Rightarrow> None
         | Some n \<Rightarrow> if n \<le> length (tl rest) then Some (take n (tl rest), drop n (tl rest)) else None)"

function read_stream :: "string \<Rightarrow> string list option" where
  "read_stream s =
     (if s = [] then Some []
      else case read_frame_octets s of
        None \<Rightarrow> None
      | Some (m, rest) \<Rightarrow> if length rest < length s then map_option (Cons m) (read_stream rest) else None)"
  by pat_completeness auto
termination
  by (relation "measure length") auto

declare read_stream.simps [simp del]

lemma format_uint_no_blank: "CHR '' '' \<notin> set (format_uint n)"
proof
  assume "CHR '' '' \<in> set (format_uint n)"
  from format_uint_no_space[OF this] show False by (simp add: no_space_def)
qed

lemma span_digits:
  "takeWhile (\<lambda>c. c \<noteq> CHR '' '') (format_uint n @ CHR '' '' # s) = format_uint n"
  "dropWhile (\<lambda>c. c \<noteq> CHR '' '') (format_uint n @ CHR '' '' # s) = CHR '' '' # s"
proof -
  have "\<forall>c\<in>set (format_uint n). c \<noteq> CHR '' ''" using format_uint_no_blank[of n] by blast
  then show "takeWhile (\<lambda>c. c \<noteq> CHR '' '') (format_uint n @ CHR '' '' # s) = format_uint n"
    "dropWhile (\<lambda>c. c \<noteq> CHR '' '') (format_uint n @ CHR '' '' # s) = CHR '' '' # s"
    by (simp_all add: takeWhile_append2 dropWhile_append2)
qed

lemma read_frame_octets: "read_frame_octets (format_uint (length m) @ '' '' @ m @ s) = Some (m, s)"
  by (simp add: read_frame_octets_def span_digits)

lemma read_stream_frames: "read_stream (concat (map (\<lambda>m. format_uint (length m) @ '' '' @ m) ms)) = Some ms"
proof (induction ms)
  case Nil
  then show ?case by (simp add: read_stream.simps)
next
  case (Cons m ms)
  let ?r = "concat (map (\<lambda>m. format_uint (length m) @ '' '' @ m) ms)"
  have "read_frame_octets (format_uint (length m) @ '' '' @ m @ ?r) = Some (m, ?r)"
    by (rule read_frame_octets)
  then show ?case
    using Cons.IH by (subst read_stream.simps) simp
qed

text \<open>Non-transparent framing: a line feed ends a message; what follows the last one is incomplete.\<close>

definition read_lines :: "string \<Rightarrow> string list" where
  "read_lines s = butlast (split_at CHR 0x0A s)"

lemma split_at_not_Nil: "split_at sep s \<noteq> []"
  by (induction s) (auto split: list.split)

lemma split_at_line: "sep \<notin> set m \<Longrightarrow> split_at sep (m @ sep # s) = m # split_at sep s"
  by (induction m) auto

lemma read_lines_frames:
  "\<forall>m\<in>set ms. CHR 0x0A \<notin> set m \<Longrightarrow> read_lines (concat (map (\<lambda>m. m @ [CHR 0x0A]) ms)) = ms"
  unfolding read_lines_def by (induction ms) (simp_all add: split_at_line split_at_not_Nil)

section \<open>The header: its length and its bytes\<close>

definition no_ctl :: "string \<Rightarrow> bool" where
  "no_ctl s \<longleftrightarrow> (\<forall>c\<in>set s. \<not> is_control c)"

lemma no_ctl_simps [simp]:
  "no_ctl []" "no_ctl (c # s) \<longleftrightarrow> \<not> is_control c \<and> no_ctl s" "no_ctl (s @ t) \<longleftrightarrow> no_ctl s \<and> no_ctl t"
  by (auto simp: no_ctl_def)

lemma no_ctl_LF: "no_ctl s \<Longrightarrow> CHR 0x0A \<notin> set s"
  by (auto simp: no_ctl_def is_control_def)

lemma no_ctl_printable: "printable s \<Longrightarrow> no_ctl s"
  by (fastforce simp: no_ctl_def printable_def list_all_iff is_control_def)

lemma no_ctl_take: "no_ctl s \<Longrightarrow> no_ctl (take k s)"
  by (auto simp: no_ctl_def dest: in_set_takeD)

lemma no_ctl_fields [simp]:
  "no_ctl (format_uint n)" "no_ctl (sdEscape v)" "no_ctl (quoted v) = no_ctl v" "no_ctl (nilIfEmpty s) = no_ctl s"
  "no_ctl s \<Longrightarrow> no_ctl (clip s k)" "no_ctl (pad_int w i)" "no_ctl (itoa i)"
proof -
  show u: "no_ctl (format_uint n)" for n
    using format_uint_no_space[of _ n] by (fastforce simp: no_ctl_def no_space_def is_control_def)
  show "no_ctl (sdEscape v)" using sd_escape_no_control by (auto simp: no_ctl_def)
  show "no_ctl (quoted v) = no_ctl v" by (simp add: quoted_def is_control_def)
  show "no_ctl (nilIfEmpty s) = no_ctl s" by (simp add: nilIfEmpty_def is_control_def)
  show "no_ctl s \<Longrightarrow> no_ctl (clip s k)" by (simp add: clip_def no_ctl_take)
  show "no_ctl (pad_int w i)"
    using u by (auto simp: pad_int_def Let_def no_ctl_def is_control_def)
  show "no_ctl (itoa i)" using u by (simp add: itoa_def is_control_def)
qed

lemma no_ctl_format_time [simp]: "no_ctl (format_time t)"
  by (simp add: format_time_def Let_def is_control_def split: prod.split)

lemma no_ctl_sd_params: "\<forall>p\<in>set ps. no_ctl (fst p) \<Longrightarrow> no_ctl (concat (map sd_param ps))"
  by (induction ps) (simp_all add: sd_param_def is_control_def)

lemma no_ctl_header:
  assumes "no_ctl (fm_hostname f)" "no_ctl (fm_procID f)" "no_ctl msgID" "\<forall>p\<in>set ps. no_ctl (fst p)"
  shows "no_ctl (header f fac lvl t msgID seq ip ps)"
proof -
  have "no_ctl (clip AppName 48)" "no_ctl EnterpriseSDID"
    by (simp_all add: AppName_def EnterpriseSDID_def is_control_def)
  then show ?thesis
    using assms no_ctl_sd_params[OF assms(4)] by (simp add: header_def is_control_def)
qed

lemma length_format_uint: "n < 10 ^ k \<Longrightarrow> 0 < k \<Longrightarrow> length (format_uint n) \<le> k"
proof (induction k arbitrary: n)
  case (Suc k)
  show ?case
  proof (cases "n < 10")
    case False
    then have "0 < k" using Suc.prems by (cases k) auto
    moreover have "n div 10 < 10 ^ k" using Suc.prems(1) less_mult_imp_div_less[of n "10 ^ k" 10] by (simp add: mult.commute)
    ultimately have "length (format_uint (n div 10)) \<le> k" using Suc.IH by blast
    then show ?thesis using False by (subst format_uint.simps) simp
  qed (subst format_uint.simps, simp)
qed simp

lemma length_pad_int: "0 \<le> n \<Longrightarrow> n < 10 ^ k \<Longrightarrow> 0 < k \<Longrightarrow> length (pad_int w n) \<le> max w k"
  using length_format_uint[of "nat n" k] by (simp add: pad_int_def Let_def nat_less_iff)

lemma civil_year_bounds:
  assumes "0 \<le> d" "civil_year d = (y, doy)"
  shows "1 \<le> y \<and> y \<le> d + 1 \<and> 0 \<le> doy \<and> doy \<le> 365"
proof -
  define r0 where "r0 = d mod 146097"
  define n100 where "n100 = min 3 (r0 div 36524)"
  define r1 where "r1 = r0 - n100 * 36524"
  define r2 where "r2 = r1 mod 1461"
  define n1 where "n1 = min 3 (r2 div 365)"
  have "civil_year d = (400 * (d div 146097) + 100 * n100 + 4 * (r1 div 1461) + n1 + 1, r2 - n1 * 365)"
    unfolding civil_year_def Let_def n1_def r2_def r1_def n100_def r0_def by (rule refl)
  then have y: "y = 400 * (d div 146097) + 100 * n100 + 4 * (r1 div 1461) + n1 + 1" "doy = r2 - n1 * 365"
    unfolding assms(2) by simp_all
  have r0: "0 \<le> r0" "d = 146097 * (d div 146097) + r0" by (simp_all add: r0_def)
  have n100: "0 \<le> n100" "n100 * 36524 \<le> r0" using r0(1) by (auto simp: n100_def min_def)
  have r1: "0 \<le> r1" "r1 = 1461 * (r1 div 1461) + r2" "0 \<le> r2" "r2 < 1461" "0 \<le> r1 div 1461"
    using n100 by (simp_all add: r1_def r2_def pos_imp_zdiv_nonneg_iff)
  have n1: "0 \<le> n1" "n1 * 365 \<le> r2" "r2 - n1 * 365 \<le> 365"
    using r1(3,4) by (auto simp: n1_def min_def)
  have "0 \<le> d div 146097" using assms(1) by (simp add: pos_imp_zdiv_nonneg_iff)
  then show ?thesis using y r0 n100 r1 n1 by (auto simp: r1_def)
qed

lemma month_day_bounds:
  "0 \<le> d \<Longrightarrow> \<forall>l\<in>set ls. 0 < l \<Longrightarrow> month_day m ls d = (mo, dd) \<Longrightarrow> m \<le> mo \<and> mo \<le> m + int (length ls) \<and> 1 \<le> dd \<and> dd \<le> d + 1"
  by (induction m ls d rule: month_day.induct) (fastforce split: if_splits)+

text \<open>Times up to the end of year 9999, when the timestamp still has four digits for the year.\<close>

definition in_years :: "gtime \<Rightarrow> bool" where
  "in_years t \<longleftrightarrow> 0 \<le> t \<and> t < 3652059 * day_ns"

lemma length_format_time:
  assumes "in_years t"
  shows "length (format_time t) \<le> 34"
proof -
  obtain y doy where yd: "civil_year (t div day_ns) = (y, doy)" by fastforce
  obtain mo d where md: "month_day 1 (month_lengths (leap_year y)) doy = (mo, d)" by fastforce
  have "0 \<le> t div day_ns" "t div day_ns < 3652059"
    using assms by (simp_all add: in_years_def day_ns_def pos_imp_zdiv_nonneg_iff) linarith
  then have y: "0 \<le> y" "y < 10 ^ 7" "0 \<le> doy" "doy \<le> 365" using civil_year_bounds[OF _ yd] by auto
  have "\<forall>l\<in>set (month_lengths (leap_year y)). 0 < l" "length (month_lengths (leap_year y)) = 12"
    by (simp_all add: month_lengths_def)
  then have m: "0 \<le> mo" "mo < 10 ^ 2" "0 \<le> d" "d < 10 ^ 3"
    using month_day_bounds[OF y(3) _ md] y(4) by auto
  define s where "s = (t mod day_ns) div 1000000000"
  have s: "0 \<le> s" "s < 86400"
    by (simp_all add: s_def day_ns_def pos_imp_zdiv_nonneg_iff)
  then have hms: "0 \<le> s div 3600" "s div 3600 < 10 ^ 2" "0 \<le> s mod 3600 div 60" "s mod 3600 div 60 < 10 ^ 2" "0 \<le> s mod 60" "s mod 60 < 10 ^ 2"
    by (auto simp: pos_imp_zdiv_nonneg_iff)
  have u: "0 \<le> (t mod 1000000000) div 1000" "(t mod 1000000000) div 1000 < 10 ^ 6"
    by (simp_all add: pos_imp_zdiv_nonneg_iff)
  note lens = length_pad_int[OF y(1,2), of 4] length_pad_int[OF m(1,2), of 2] length_pad_int[OF m(3,4), of 2]
    length_pad_int[OF hms(1,2), of 2] length_pad_int[OF hms(3,4), of 2] length_pad_int[OF hms(5,6), of 2] length_pad_int[OF u, of 6]
  have f: "length (format_time t) = length (pad_int 4 y) + length (pad_int 2 mo) + length (pad_int 2 d)
      + length (pad_int 2 (s div 3600)) + length (pad_int 2 (s mod 3600 div 60)) + length (pad_int 2 (s mod 60))
      + length (pad_int 6 ((t mod 1000000000) div 1000)) + 7"
    by (simp add: format_time_def Let_def yd md s_def)
  show ?thesis using lens unfolding f by simp
qed

lemma length_nilIfEmpty: "length (nilIfEmpty (clip s k)) \<le> max 1 k"
  by (auto simp: nilIfEmpty_def clip_def)

lemma length_clip: "length (clip s k) \<le> k"
  by (simp add: clip_def)

lemma length_clipRunes: "length (clipRunes s k) \<le> k"
  using rune_cut_le[of s k] by (simp add: clipRunes_def)

lemma length_sd_param: "length (fst p) \<le> 11 \<Longrightarrow> length (sd_param p) \<le> 780"
  using sdEscape_length[of "clipRunes (snd p) maxSDParamValue"] length_clipRunes[of "snd p" maxSDParamValue]
  by (simp add: sd_param_def quoted_def maxSDParamValue_def)

lemma length_sd_params: "\<forall>p\<in>set ps. length (fst p) \<le> 11 \<Longrightarrow> length (concat (map sd_param ps)) \<le> 780 * length ps"
  using length_sd_param by (induction ps) fastforce+

lemma length_itoa_pri: "0 \<le> fac \<Longrightarrow> fac \<le> 23 \<Longrightarrow> length (itoa (fac * 8 + severity lvl)) \<le> 3"
proof -
  assume "0 \<le> fac" "fac \<le> 23"
  then have "0 \<le> fac * 8 + severity lvl" "nat (fac * 8 + severity lvl) < 10 ^ 3" by (auto simp: severity_def)
  then show ?thesis using length_format_uint[of "nat (fac * 8 + severity lvl)" 3] by (simp add: itoa_def)
qed

lemma length_seq: "length (format_uint (unat (w :: u32))) \<le> 10"
proof -
  have "unat w < 2 ^ 32" using unsigned_less[where w = w] by simp
  then show ?thesis by (intro length_format_uint) simp_all
qed

lemma length_header:
  assumes "0 \<le> fac" "fac \<le> 23" "in_years t" "length ip \<le> 255" "\<forall>p\<in>set ps. length (fst p) \<le> 11" "length ps \<le> 6"
  shows "length (header f fac lvl t msgID seq ip ps) \<le> 6300"
proof -
  have ps: "length (concat (map sd_param ps)) \<le> 4680"
    using length_sd_params[OF assms(5)] assms(6) by linarith
  have s: "length (clip AppName 48) = 16" "length EnterpriseSDID = 15" "length (sdEscape AppName) \<le> 48"
    using sdEscape_length[of AppName] by (simp_all add: AppName_def clip_def EnterpriseSDID_def)
  have v: "length (sdEscape (clip (fm_version f) 32)) \<le> 96"
    using sdEscape_length[of "clip (fm_version f) 32"] length_clip[of "fm_version f" 32] by linarith
  have i: "length (sdEscape ip) \<le> 765" using sdEscape_length[of ip] assms(4) by linarith
  show ?thesis
    using length_itoa_pri[OF assms(1,2), of lvl] length_format_time[OF assms(3)] length_nilIfEmpty[of "fm_hostname f" 255]
      length_nilIfEmpty[of "fm_procID f" 128] length_nilIfEmpty[of msgID 32] s ps v i length_seq[of seq]
    by (simp add: header_def quoted_def)
qed

section \<open>Truncation\<close>

lemma rune_cut_ge: "rune_start (s ! j) \<Longrightarrow> j \<le> k \<Longrightarrow> j \<le> rune_cut s k"
  using rune_cut_max[of s k j] by (cases "j \<le> rune_cut s k") auto

lemma truncate_length: "length (truncate_msg m) \<le> MaxMessageBytes"
  using rune_cut_le[of m "MaxMessageBytes - length truncatedMark"]
  by (auto simp: truncate_msg_def MaxMessageBytes_def truncatedMark_def min_def)

text \<open>The byte order mark is where a cut at the latest stops, so the header survives.\<close>

lemma truncate_keeps_header:
  assumes "length h \<le> 6300"
  shows "truncate_msg (h @ bom @ body) = h @ bom @ body
    \<or> (\<exists>k. truncate_msg (h @ bom @ body) = h @ take k (bom @ body) @ truncatedMark \<and> k < length (bom @ body)
        \<and> rune_start ((bom @ body) ! k) \<and> 8192 < length (h @ bom @ body))"
proof (cases "length (h @ bom @ body) \<le> MaxMessageBytes")
  case False
  let ?m = "h @ bom @ body"
  define cut where "cut = rune_cut ?m (MaxMessageBytes - length truncatedMark)"
  have le: "cut \<le> 8180" using rune_cut_le[of ?m 8180] by (simp add: cut_def MaxMessageBytes_def truncatedMark_def)
  have "rune_start (?m ! length h)" by (simp add: nth_append bom_def rune_start_def)
  then have ge: "length h \<le> cut"
    using rune_cut_ge[of ?m "length h" 8180] assms by (simp add: cut_def MaxMessageBytes_def truncatedMark_def)
  have "rune_start (?m ! cut)"
  proof (cases "0 < cut")
    case True
    then show ?thesis unfolding cut_def by (rule rune_cut_start)
  next
    case zero: False
    then show ?thesis using ge \<open>rune_start (?m ! length h)\<close> by simp
  qed
  then have "rune_start ((bom @ body) ! (cut - length h))" using ge by (simp add: nth_append)
  moreover have "truncate_msg ?m = h @ take (cut - length h) (bom @ body) @ truncatedMark"
    using False ge by (simp add: truncate_msg_def cut_def)
  moreover have "cut - length h < length (bom @ body)" using False le assms by (simp add: MaxMessageBytes_def)
  moreover have "8192 < length ?m" using False by (simp add: MaxMessageBytes_def)
  ultimately show ?thesis by blast
qed (simp add: truncate_msg_def)

end
