(* ===== verification/Syslog_Ring.thy ===== *)
theory Syslog_Ring
  imports Syslog_Config "HOL-Library.Sublist"
begin

text \<open>
  The buffer of a syslog sink (\<open>internal/server/syslogfwd/forwarder.go\<close>): a ring of
  \<open>QueueSize + 2\<close> slots with the record in flight beside it. \<open>appendLocked\<close>, \<open>takeLocked\<close>, \<open>ack\<close> and
  \<open>requeue\<close> are the code's; the locale \<open>outbox\<close> states what a client may rely on (a bounded queue
  that loses only what it counts) and proves the conservation law once; the ring is shown to be
  such a queue. The drop counter is a \<open>uint64\<close> in the code; a process does not drop \<open>2^64\<close>
  records, so it is a natural number here.
\<close>

section \<open>The ring\<close>

record sink_buf =
  sk_ring :: "string option list"
  sk_head :: nat
  sk_n :: nat
  sk_inflight :: "string option"
  sk_dropped :: nat
  sk_warned75 :: bool
  sk_stopping :: bool

definition appendLocked :: "string \<Rightarrow> bool \<Rightarrow> 'a sink_buf_scheme \<Rightarrow> 'a sink_buf_scheme" where
  "appendLocked msg reserved s =
     (let s = (if sk_n s \<ge> QueueSize \<and> \<not> (reserved \<and> sk_n s = QueueSize)
               then s\<lparr>sk_head := (sk_head s + 1) mod length (sk_ring s), sk_n := sk_n s - 1, sk_dropped := sk_dropped s + 1\<rparr>
               else s)
      in s\<lparr>sk_ring := (sk_ring s)[(sk_head s + sk_n s) mod length (sk_ring s) := Some msg], sk_n := sk_n s + 1\<rparr>)"

definition takeLocked :: "'a sink_buf_scheme \<Rightarrow> 'a sink_buf_scheme" where
  "takeLocked s =
     (let msg = sk_ring s ! sk_head s;
          s = s\<lparr>sk_ring := (sk_ring s)[sk_head s := None], sk_head := (sk_head s + 1) mod length (sk_ring s), sk_n := sk_n s - 1\<rparr>;
          s = (if sk_n s * 2 < QueueSize then s\<lparr>sk_warned75 := False\<rparr> else s)
      in s\<lparr>sk_inflight := msg\<rparr>)"

definition ack_inflight :: "'a sink_buf_scheme \<Rightarrow> 'a sink_buf_scheme" where
  "ack_inflight s = s\<lparr>sk_inflight := None\<rparr>"

definition requeue :: "'a sink_buf_scheme \<Rightarrow> 'a sink_buf_scheme" where
  "requeue s =
     (let msg = sk_inflight s; s = s\<lparr>sk_inflight := None\<rparr>
      in if sk_n s \<ge> QueueSize \<and> \<not> sk_stopping s then s\<lparr>sk_dropped := sk_dropped s + 1\<rparr>
         else let h = (sk_head s + length (sk_ring s) - 1) mod length (sk_ring s)
              in s\<lparr>sk_head := h, sk_ring := (sk_ring s)[h := msg], sk_n := sk_n s + 1\<rparr>)"

section \<open>Its content\<close>

definition slot :: "'a sink_buf_scheme \<Rightarrow> nat \<Rightarrow> nat" where
  "slot s i = (sk_head s + i) mod length (sk_ring s)"

definition queue :: "'a sink_buf_scheme \<Rightarrow> string list" where
  "queue s = map (\<lambda>i. the (sk_ring s ! slot s i)) [0..<sk_n s]"

text \<open>
  The bounds the two spare slots give: a live sink holds at most one record beyond the budget,
  and with the record in flight it never exceeds the ring.
\<close>

definition ring_ok :: "'a sink_buf_scheme \<Rightarrow> bool" where
  "ring_ok s \<longleftrightarrow> length (sk_ring s) = QueueSize + 2 \<and> sk_head s < QueueSize + 2
     \<and> sk_n s + (if sk_inflight s = None then 0 else 1) \<le> QueueSize + 2
     \<and> (\<not> sk_stopping s \<longrightarrow> sk_n s \<le> QueueSize + 1)
     \<and> list_all (\<lambda>i. sk_ring s ! slot s i \<noteq> None) [0..<sk_n s]"

lemma length_queue [simp]: "length (queue s) = sk_n s"
  by (simp add: queue_def)

lemma mod_add_left_inj:
  fixes i j k m :: nat
  assumes "i < m" "j < m" "(k + i) mod m = (k + j) mod m"
  shows "i = j"
proof -
  have "i = j" if "i \<le> j" "i < m" "j < m" "(k + i) mod m = (k + j) mod m" for i j
  proof -
    have "m dvd (k + j) - (k + i)" using that(1,4) by (subst mod_eq_dvd_iff_nat[symmetric]) auto
    then have "m dvd j - i" by simp
    then show ?thesis using that(1,3) by (cases "j - i = 0") (auto dest: dvd_imp_le)
  qed
  then show ?thesis using assms by (metis nat_le_linear)
qed

lemma slot_less: "sk_ring s \<noteq> [] \<Longrightarrow> slot s i < length (sk_ring s)"
  by (simp add: slot_def)

lemma queue_nth: "i < sk_n s \<Longrightarrow> queue s ! i = the (sk_ring s ! slot s i)"
  by (simp add: queue_def)

lemma queue_eqI:
  "length xs = sk_n s \<Longrightarrow> (\<And>i. i < sk_n s \<Longrightarrow> the (sk_ring s ! slot s i) = xs ! i) \<Longrightarrow> queue s = xs"
  by (rule nth_equalityI) (simp_all add: queue_nth)

text \<open>The three elementary moves of the ring.\<close>

definition evict :: "'a sink_buf_scheme \<Rightarrow> 'a sink_buf_scheme" where
  "evict s = s\<lparr>sk_head := (sk_head s + 1) mod length (sk_ring s), sk_n := sk_n s - 1\<rparr>"

definition put_back :: "string \<Rightarrow> 'a sink_buf_scheme \<Rightarrow> 'a sink_buf_scheme" where
  "put_back msg s = s\<lparr>sk_ring := (sk_ring s)[slot s (sk_n s) := Some msg], sk_n := sk_n s + 1\<rparr>"

definition put_front :: "string option \<Rightarrow> 'a sink_buf_scheme \<Rightarrow> 'a sink_buf_scheme" where
  "put_front msg s =
     (let h = (sk_head s + length (sk_ring s) - 1) mod length (sk_ring s)
      in s\<lparr>sk_head := h, sk_ring := (sk_ring s)[h := msg], sk_n := sk_n s + 1\<rparr>)"

lemma slot_evict: "slot (evict s) i = slot s (i + 1)"
  by (simp add: slot_def evict_def mod_add_left_eq)

lemma slot_put_front:
  assumes "sk_ring s \<noteq> []"
  shows "slot (put_front msg s) (Suc i) = slot s i" "slot (put_front msg s) 0 = slot s (length (sk_ring s) - 1)"
proof -
  let ?l = "length (sk_ring s)"
  have "((sk_head s + ?l - 1) mod ?l + Suc i) mod ?l = (sk_head s + ?l - 1 + Suc i) mod ?l" by (rule mod_add_left_eq)
  also have "sk_head s + ?l - 1 + Suc i = (sk_head s + i) + ?l" using assms by (cases "sk_ring s") auto
  finally show "slot (put_front msg s) (Suc i) = slot s i" by (simp add: slot_def put_front_def Let_def)
  show "slot (put_front msg s) 0 = slot s (?l - 1)"
    using assms by (simp add: slot_def put_front_def Let_def) (metis Nat.add_diff_assoc One_nat_def Suc_leI length_greater_0_conv)
qed

lemma slot_put_back: "slot (put_back msg s) i = slot s i"
  by (simp add: slot_def put_back_def)

definition ring_fits :: "'a sink_buf_scheme \<Rightarrow> bool" where
  "ring_fits s \<longleftrightarrow> sk_head s < length (sk_ring s) \<and> sk_n s \<le> length (sk_ring s) \<and> list_all (\<lambda>i. sk_ring s ! slot s i \<noteq> None) [0..<sk_n s]"

lemma ring_fits_slot: "ring_fits s \<Longrightarrow> i < sk_n s \<Longrightarrow> sk_ring s ! slot s i \<noteq> None"
  by (simp add: ring_fits_def list_all_iff)

lemma slot_inj: "ring_fits s \<Longrightarrow> i < length (sk_ring s) \<Longrightarrow> j < length (sk_ring s) \<Longrightarrow> slot s i = slot s j \<longleftrightarrow> i = j"
  unfolding slot_def using mod_add_left_inj by blast

lemma evict_queue:
  assumes "ring_fits s" "0 < sk_n s"
  shows "queue (evict s) = tl (queue s)" "ring_fits (evict s)"
proof -
  have r: "sk_ring (evict s) = sk_ring s" "sk_n (evict s) = sk_n s - 1" by (simp_all add: evict_def)
  show "queue (evict s) = tl (queue s)"
    by (rule queue_eqI) (simp_all add: r slot_evict nth_tl queue_nth)
  have "sk_head (evict s) < length (sk_ring s)"
    using assms(1) by (auto simp: evict_def ring_fits_def intro: mod_less_divisor)
  then show "ring_fits (evict s)"
    using assms ring_fits_slot[OF assms(1)] by (auto simp: ring_fits_def r slot_evict list_all_iff)
qed

lemma put_back_queue:
  assumes "ring_fits s" "sk_n s < length (sk_ring s)"
  shows "queue (put_back msg s) = queue s @ [msg]" "ring_fits (put_back msg s)"
proof -
  have r: "sk_ring (put_back msg s) = (sk_ring s)[slot s (sk_n s) := Some msg]" "sk_n (put_back msg s) = sk_n s + 1"
    by (simp_all add: put_back_def)
  have at: "sk_ring (put_back msg s) ! slot s i = (if i = sk_n s then Some msg else sk_ring s ! slot s i)" if "i \<le> sk_n s" for i
    using that assms(2) slot_inj[OF assms(1), of i "sk_n s"] slot_less[of s "sk_n s"] by (cases "sk_ring s = []") (auto simp: r)
  show "queue (put_back msg s) = queue s @ [msg]"
    by (rule queue_eqI) (auto simp: r(2) slot_put_back at nth_append queue_nth)
  show "ring_fits (put_back msg s)"
    using assms ring_fits_slot[OF assms(1)] at
    by (auto simp: ring_fits_def r(2) slot_put_back list_all_iff) (simp add: put_back_def)+
qed

lemma put_front_queue:
  assumes "ring_fits s" "sk_n s < length (sk_ring s)"
  shows "queue (put_front (Some msg) s) = msg # queue s" "ring_fits (put_front (Some msg) s)"
proof -
  let ?p = "put_front (Some msg) s" and ?l = "length (sk_ring s)"
  have ne: "sk_ring s \<noteq> []" using assms(2) by auto
  have "(sk_head s + ?l - 1) mod ?l = slot ?p 0" using ne by (simp add: slot_def put_front_def Let_def)
  also have "\<dots> = slot s (?l - 1)" by (rule slot_put_front(2)[OF ne])
  finally have r: "sk_ring ?p = (sk_ring s)[slot s (?l - 1) := Some msg]" "sk_n ?p = sk_n s + 1"
    by (simp_all add: put_front_def Let_def)
  have at0: "sk_ring ?p ! slot ?p 0 = Some msg"
    unfolding r slot_put_front(2)[OF ne] by (rule nth_list_update_eq[OF slot_less[OF ne]])
  have at: "sk_ring ?p ! slot ?p (Suc i) = sk_ring s ! slot s i" if "i < sk_n s" for i
    using that assms slot_inj[OF assms(1), of i "?l - 1"] ne by (auto simp: r slot_put_front(1))
  have ats: "sk_ring ?p ! slot ?p i = (case i of 0 \<Rightarrow> Some msg | Suc j \<Rightarrow> sk_ring s ! slot s j)" if "i \<le> sk_n s" for i
    using that at0 at by (cases i) auto
  show "queue ?p = msg # queue s"
    by (rule queue_eqI) (auto simp: r(2) ats nth_Cons queue_nth split: nat.split)
  show "ring_fits ?p"
    using assms ring_fits_slot[OF assms(1)] ne
    by (auto simp: ring_fits_def r(2) ats list_all_iff split: nat.split) (simp add: put_front_def Let_def)+
qed

section \<open>The operations on the content\<close>

text \<open>Whether an append must drop the oldest record first.\<close>

definition over_budget :: "bool \<Rightarrow> 'a sink_buf_scheme \<Rightarrow> bool" where
  "over_budget reserved s \<longleftrightarrow> sk_n s \<ge> QueueSize \<and> \<not> (reserved \<and> sk_n s = QueueSize)"

lemma appendLocked_moves:
  "appendLocked msg reserved s =
     put_back msg (if over_budget reserved s then (evict s)\<lparr>sk_dropped := sk_dropped s + 1\<rparr> else s)"
  by (auto simp: appendLocked_def put_back_def evict_def over_budget_def slot_def Let_def)

lemma ring_ok_fits: "ring_ok s \<Longrightarrow> ring_fits s"
  by (simp add: ring_ok_def ring_fits_def split: if_splits)

lemma queue_upd [simp]:
  "queue (s\<lparr>sk_dropped := d\<rparr>) = queue s" "queue (s\<lparr>sk_inflight := m\<rparr>) = queue s" "queue (s\<lparr>sk_warned75 := w\<rparr>) = queue s"
  "queue (s\<lparr>sk_stopping := b\<rparr>) = queue s"
  "ring_fits (s\<lparr>sk_dropped := d\<rparr>) = ring_fits s" "ring_fits (s\<lparr>sk_inflight := m\<rparr>) = ring_fits s"
  "ring_fits (s\<lparr>sk_warned75 := w\<rparr>) = ring_fits s" "ring_fits (s\<lparr>sk_stopping := b\<rparr>) = ring_fits s"
  by (simp_all add: queue_def ring_fits_def slot_def)

lemma QueueSize_pos: "0 < QueueSize"
  by (simp add: QueueSize_def)

lemma append_refines:
  assumes "ring_ok s" "\<not> sk_stopping s"
  shows "queue (appendLocked msg reserved s) = (if over_budget reserved s then tl (queue s) else queue s) @ [msg]
    \<and> sk_dropped (appendLocked msg reserved s) = sk_dropped s + (if over_budget reserved s then 1 else 0)
    \<and> sk_inflight (appendLocked msg reserved s) = sk_inflight s
    \<and> ring_ok (appendLocked msg reserved s)"
proof -
  let ?e = "if over_budget reserved s then (evict s)\<lparr>sk_dropped := sk_dropped s + 1\<rparr> else s"
  have fits: "ring_fits s" by (rule ring_ok_fits[OF assms(1)])
  have pos: "0 < sk_n s" if "over_budget reserved s" using that QueueSize_pos by (auto simp: over_budget_def)
  have e: "queue ?e = (if over_budget reserved s then tl (queue s) else queue s)" "ring_fits ?e"
    using evict_queue[OF fits] pos fits by simp_all
  have n: "sk_n ?e \<le> QueueSize" and r: "sk_ring ?e = sk_ring s"
    using assms by (auto simp: ring_ok_def over_budget_def evict_def)
  then have lt: "sk_n ?e < length (sk_ring ?e)" using assms(1) by (simp add: ring_ok_def)
  note b = put_back_queue[OF e(2) lt, of msg]
  have "ring_ok (put_back msg ?e)"
    using b(2) n r assms by (simp add: ring_ok_def ring_fits_def put_back_def evict_def)
  then show ?thesis
    using b(1) e(1) by (simp add: appendLocked_moves put_back_def evict_def)
qed

lemma takeLocked_moves:
  "takeLocked s = (let s' = (evict s)\<lparr>sk_ring := (sk_ring s)[sk_head s := None]\<rparr>
     in s'\<lparr>sk_warned75 := sk_warned75 s \<and> \<not> sk_n s' * 2 < QueueSize, sk_inflight := sk_ring s ! sk_head s\<rparr>)"
  by (simp add: takeLocked_def evict_def Let_def)

lemma take_refines:
  assumes "ring_ok s" "0 < sk_n s" "sk_inflight s = None"
  shows "\<exists>m. sk_inflight (takeLocked s) = Some m \<and> queue s = m # queue (takeLocked s)
    \<and> sk_dropped (takeLocked s) = sk_dropped s \<and> sk_stopping (takeLocked s) = sk_stopping s \<and> ring_ok (takeLocked s)"
proof -
  have fits: "ring_fits s" by (rule ring_ok_fits[OF assms(1)])
  have len: "length (sk_ring s) = QueueSize + 2" "sk_head s < QueueSize + 2" "sk_n s \<le> QueueSize + 2"
    using assms(1,3) by (simp_all add: ring_ok_def)
  have h: "slot s 0 = sk_head s" using len by (simp add: slot_def)
  obtain m where m: "sk_ring s ! sk_head s = Some m" using ring_fits_slot[OF fits assms(2)] h by auto
  let ?t = "(evict s)\<lparr>sk_ring := (sk_ring s)[sk_head s := None]\<rparr>"
  have r: "sk_ring ?t = (sk_ring s)[sk_head s := None]" "sk_n ?t = sk_n s - 1" "slot ?t i = slot s (i + 1)" for i
    by (simp_all add: evict_def slot_def mod_Suc_eq mod_add_left_eq)
  have at: "sk_ring ?t ! slot ?t i = sk_ring s ! slot s (i + 1)" if "i < sk_n s - 1" for i
  proof -
    have "slot s (i + 1) \<noteq> slot s 0" using slot_inj[OF fits, of "i + 1" 0] that len by simp
    then show ?thesis by (simp add: r h del: slot_def)
  qed
  have "queue ?t = tl (queue s)"
  proof (rule queue_eqI)
    fix i assume "i < sk_n ?t"
    then have i: "i < sk_n s - 1" by (simp add: r(2))
    show "the (sk_ring ?t ! slot ?t i) = tl (queue s) ! i"
      unfolding at[OF i] using i by (simp add: nth_tl queue_nth)
  qed (simp add: r(2))
  moreover have "queue s = m # tl (queue s)"
    using assms(2) m h queue_nth[of 0 s] by (cases "queue s") (auto dest: arg_cong[where f = length])
  moreover have "ring_ok (takeLocked s)"
  proof -
    have "\<forall>i. i < sk_n ?t \<longrightarrow> sk_ring ?t ! slot ?t i \<noteq> None" using at ring_fits_slot[OF fits] by (simp add: r(2))
    moreover have "slot (takeLocked s) i = slot ?t i" for i by (simp add: takeLocked_moves Let_def slot_def)
    moreover have "sk_ring (takeLocked s) = sk_ring ?t" "sk_n (takeLocked s) = sk_n ?t" "sk_head (takeLocked s) = sk_head ?t"
      "sk_stopping (takeLocked s) = sk_stopping s" "sk_head ?t < QueueSize + 2"
      using len by (simp_all add: takeLocked_moves evict_def Let_def)
    ultimately show ?thesis
      using assms len by (auto simp: ring_ok_def list_all_iff r(1,2))
  qed
  moreover have "queue (takeLocked s) = queue ?t" by (simp add: takeLocked_moves Let_def)
  ultimately show ?thesis
    using m by (simp add: takeLocked_moves Let_def evict_def)
qed

lemma requeue_moves:
  "requeue s = (if sk_n s \<ge> QueueSize \<and> \<not> sk_stopping s then s\<lparr>sk_inflight := None, sk_dropped := sk_dropped s + 1\<rparr>
     else put_front (sk_inflight s) (s\<lparr>sk_inflight := None\<rparr>))"
  by (simp add: requeue_def put_front_def Let_def)

lemma requeue_refines:
  assumes "ring_ok s" "sk_inflight s = Some m"
  shows "sk_inflight (requeue s) = None \<and> sk_stopping (requeue s) = sk_stopping s \<and> ring_ok (requeue s)
    \<and> (if sk_n s \<ge> QueueSize \<and> \<not> sk_stopping s
       then queue (requeue s) = queue s \<and> sk_dropped (requeue s) = sk_dropped s + 1
       else queue (requeue s) = m # queue s \<and> sk_dropped (requeue s) = sk_dropped s)"
proof (cases "sk_n s \<ge> QueueSize \<and> \<not> sk_stopping s")
  case True
  have "slot (s\<lparr>sk_inflight := None, sk_dropped := d\<rparr>) i = slot s i" for d i by (simp add: slot_def)
  then have "ring_ok (s\<lparr>sk_inflight := None, sk_dropped := sk_dropped s + 1\<rparr>)"
    using assms by (simp add: ring_ok_def)
  then show ?thesis using True by (simp add: requeue_moves)
next
  case False
  let ?i = "s\<lparr>sk_inflight := None\<rparr>"
  have fits: "ring_fits ?i" using ring_ok_fits[OF assms(1)] by simp
  have n: "sk_n s < QueueSize + 2" "length (sk_ring s) = QueueSize + 2" using assms by (simp_all add: ring_ok_def)
  note f = put_front_queue[OF fits, of m]
  have "ring_ok (put_front (Some m) ?i)"
    using f(2) n assms False by (auto simp: ring_ok_def ring_fits_def put_front_def Let_def)
  moreover have "sk_inflight (put_front (Some m) ?i) = None" "sk_stopping (put_front (Some m) ?i) = sk_stopping s"
    "sk_dropped (put_front (Some m) ?i) = sk_dropped s" by (simp_all add: put_front_def Let_def)
  ultimately show ?thesis
    using False f(1) n assms(2) by (auto simp: requeue_moves)
qed

section \<open>What the sink's client may rely on\<close>

text \<open>
  An outbox holds records in order, one of them possibly in flight. Every operation either keeps
  all records or drops the oldest one and counts it. \<open>ok\<close> is its invariant, \<open>live\<close> says that it still
  accepts records. The law proved here is over sequences of operations: what was written, what is in
  flight and what is queued is a subsequence of what was accepted, and the missing records are
  exactly those counted as dropped.
\<close>

datatype outbox_op = Accept string bool | TakeOne | Written | GiveBack

locale outbox =
  fixes ok :: "'s \<Rightarrow> bool" and live :: "'s \<Rightarrow> bool" and content :: "'s \<Rightarrow> string list" and flying :: "'s \<Rightarrow> string option"
    and lost :: "'s \<Rightarrow> nat" and accept :: "string \<Rightarrow> bool \<Rightarrow> 's \<Rightarrow> 's" and pick :: "'s \<Rightarrow> 's" and settle :: "'s \<Rightarrow> 's" and give_back :: "'s \<Rightarrow> 's"
  assumes accept_law: "ok s \<Longrightarrow> live s \<Longrightarrow> ok (accept m r s) \<and> flying (accept m r s) = flying s
      \<and> (content (accept m r s) = content s @ [m] \<and> lost (accept m r s) = lost s
         \<or> content s \<noteq> [] \<and> content (accept m r s) = tl (content s) @ [m] \<and> lost (accept m r s) = lost s + 1)"
    and pick_law: "ok s \<Longrightarrow> content s \<noteq> [] \<Longrightarrow> flying s = None \<Longrightarrow>
      ok (pick s) \<and> flying (pick s) = Some (hd (content s)) \<and> content (pick s) = tl (content s) \<and> lost (pick s) = lost s"
    and settle_law: "ok s \<Longrightarrow> ok (settle s) \<and> flying (settle s) = None \<and> content (settle s) = content s \<and> lost (settle s) = lost s"
    and give_back_law: "ok s \<Longrightarrow> flying s = Some m \<Longrightarrow> ok (give_back s) \<and> flying (give_back s) = None
      \<and> (content (give_back s) = m # content s \<and> lost (give_back s) = lost s
         \<or> content (give_back s) = content s \<and> lost (give_back s) = lost s + 1)"
begin

fun enabled :: "outbox_op \<Rightarrow> 's \<Rightarrow> bool" where
  "enabled (Accept m r) s = live s"
| "enabled TakeOne s = (content s \<noteq> [] \<and> flying s = None)"
| "enabled Written s = (flying s \<noteq> None)"
| "enabled GiveBack s = (flying s \<noteq> None)"

text \<open>An operation on the outbox with the history of accepted and of written records.\<close>

fun perform :: "outbox_op \<Rightarrow> 's \<times> string list \<times> string list \<Rightarrow> 's \<times> string list \<times> string list" where
  "perform (Accept m r) (s, acc, wr) = (accept m r s, acc @ [m], wr)"
| "perform TakeOne (s, acc, wr) = (pick s, acc, wr)"
| "perform Written (s, acc, wr) = (settle s, acc, wr @ (case flying s of Some m \<Rightarrow> [m] | None \<Rightarrow> []))"
| "perform GiveBack (s, acc, wr) = (give_back s, acc, wr)"

definition pending_records :: "'s \<Rightarrow> string list" where
  "pending_records s = (case flying s of Some m \<Rightarrow> [m] | None \<Rightarrow> []) @ content s"

definition conserved :: "nat \<Rightarrow> 's \<times> string list \<times> string list \<Rightarrow> bool" where
  "conserved base c = (case c of (s, acc, wr) \<Rightarrow>
     ok s \<and> subseq (wr @ pending_records s) acc \<and> base \<le> lost s
     \<and> length acc + base = length wr + length (pending_records s) + lost s)"

lemma subseq_drop_mid: "subseq (xs @ y # ys) zs \<Longrightarrow> subseq (xs @ ys) zs"
proof -
  assume "subseq (xs @ y # ys) zs"
  moreover have "subseq (xs @ ys) (xs @ y # ys)" by (simp add: list_emb_append_mono list_emb_Cons)
  ultimately show ?thesis by (rule subseq_order.order_trans[rotated])
qed

lemma perform_conserved:
  assumes "conserved base (s, acc, wr)" "enabled a s"
  shows "conserved base (perform a (s, acc, wr))"
proof (cases a)
  case (Accept m r)
  let ?f = "case flying s of Some m \<Rightarrow> [m] | None \<Rightarrow> []"
  have sub: "subseq (wr @ ?f @ content s @ [m]) (acc @ [m])"
    using assms(1) list_emb_append_mono[of "(=)" "wr @ ?f @ content s" acc "[m]" "[m]"]
    by (simp add: conserved_def pending_records_def)
  moreover have "subseq (wr @ ?f @ tl (content s) @ [m]) (acc @ [m])" if "content s \<noteq> []"
    using sub subseq_drop_mid[of "wr @ ?f" "hd (content s)" "tl (content s) @ [m]" "acc @ [m]"] that by (cases "content s") simp_all
  ultimately show ?thesis
    using assms accept_law[of s m r] Accept
    by (auto simp: conserved_def pending_records_def)
next
  case TakeOne
  then show ?thesis
    using assms pick_law[of s] by (cases "content s") (auto simp: conserved_def pending_records_def)
next
  case Written
  then show ?thesis
    using assms settle_law[of s] by (auto simp: conserved_def pending_records_def)
next
  case GiveBack
  then obtain m where m: "flying s = Some m" using assms(2) by auto
  then have "subseq (wr @ content s) acc"
    using assms(1) subseq_drop_mid[of wr m "content s" acc] by (simp add: conserved_def pending_records_def)
  then show ?thesis
    using assms give_back_law[of s m] m GiveBack by (auto simp: conserved_def pending_records_def)
qed

end

interpretation ring: outbox ring_ok "\<lambda>s. \<not> sk_stopping s" queue sk_inflight sk_dropped appendLocked takeLocked ack_inflight requeue
proof
  fix s :: "'a sink_buf_scheme" and m r
  show "ring_ok s \<Longrightarrow> \<not> sk_stopping s \<Longrightarrow> ring_ok (appendLocked m r s) \<and> sk_inflight (appendLocked m r s) = sk_inflight s
      \<and> (queue (appendLocked m r s) = queue s @ [m] \<and> sk_dropped (appendLocked m r s) = sk_dropped s
         \<or> queue s \<noteq> [] \<and> queue (appendLocked m r s) = tl (queue s) @ [m] \<and> sk_dropped (appendLocked m r s) = sk_dropped s + 1)"
    using append_refines[of s m r] QueueSize_pos by (auto simp: over_budget_def simp flip: length_greater_0_conv)
next
  fix s :: "'a sink_buf_scheme"
  show "ring_ok s \<Longrightarrow> queue s \<noteq> [] \<Longrightarrow> sk_inflight s = None \<Longrightarrow> ring_ok (takeLocked s) \<and> sk_inflight (takeLocked s) = Some (hd (queue s))
      \<and> queue (takeLocked s) = tl (queue s) \<and> sk_dropped (takeLocked s) = sk_dropped s"
    using take_refines[of s] by (auto simp flip: length_greater_0_conv)
next
  fix s :: "'a sink_buf_scheme"
  show "ring_ok s \<Longrightarrow> ring_ok (ack_inflight s) \<and> sk_inflight (ack_inflight s) = None \<and> queue (ack_inflight s) = queue s
      \<and> sk_dropped (ack_inflight s) = sk_dropped s"
    by (auto simp: ack_inflight_def ring_ok_def slot_def split: if_splits)
next
  fix s :: "'a sink_buf_scheme" and m
  show "ring_ok s \<Longrightarrow> sk_inflight s = Some m \<Longrightarrow> ring_ok (requeue s) \<and> sk_inflight (requeue s) = None
      \<and> (queue (requeue s) = m # queue s \<and> sk_dropped (requeue s) = sk_dropped s
         \<or> queue (requeue s) = queue s \<and> sk_dropped (requeue s) = sk_dropped s + 1)"
    using requeue_refines[of s m] by (auto split: if_splits)
qed

end
