(* ===== verification/Syslog_Sink.thy ===== *)
theory Syslog_Sink
  imports Syslog_Ring Syslog_Format
begin

text \<open>
  The syslog forwarder's sink and its writer (\<open>internal/server/syslogfwd/forwarder.go\<close>). Every
  section the code runs under the sink's lock is one function on the sink's state; the goroutines
  that run them (the producers, the writer, the readers that notice a lost connection, \<open>stop\<close>) are
  the steps of a transition relation in which they interleave freely. Connections are numbers.
  What the network and the clock do is part of a step. \<open>strconv.Quote\<close> is a parameter (\<open>quote\<close>): it
  only shapes the text of the forwarder's own disconnected record.
\<close>

section \<open>State\<close>

definition backoffMin_sl :: duration where "backoffMin_sl = second"
definition backoffMax_sl :: duration where "backoffMax_sl = 30 * second"
definition alertInterval :: duration where "alertInterval = 5 * minute"
definition stableAfter :: duration where "stableAfter = 10 * second"

datatype sink_state = StateDisabled | StateConnecting | StateConnected | StateDisconnected

record sink = sink_buf +
  sk_cfg :: Config
  sk_fmt :: formatter
  sk_conn :: "nat option"
  sk_connectedAt :: gtime
  sk_localIP :: string
  sk_state :: sink_state
  sk_since :: gtime
  sk_lastErr :: string
  sk_droppedAtOutage :: nat
  sk_firstFailure :: gtime
  sk_lastAlert :: gtime
  sk_attempted :: bool
  sk_pendingDisconnect :: "string option"
  sk_resetBackoff :: bool

text \<open>The error that trips the halt policy: the address, how long it was down, the last error.\<close>

datatype halt_error = CollectorUnreachable string duration string

datatype alert =
  BufferWarn nat nat
| Unreachable string
| StillUnreachable duration nat nat string
| ReachableAgain duration nat
| Halting halt_error

record core =
  co_seq :: u32
  co_halted :: bool
  co_failed :: "halt_error list"

definition formatterFor :: "formatter \<Rightarrow> Config \<Rightarrow> formatter" where
  "formatterFor f cfg = (if Hostname cfg \<noteq> '''' then f\<lparr>fm_hostname := Hostname cfg\<rparr> else f)"

definition newSink :: "formatter \<Rightarrow> gtime \<Rightarrow> Config \<Rightarrow> sink" where
  "newSink f now cfg =
     \<lparr>sk_ring = replicate (QueueSize + 2) None, sk_head = 0, sk_n = 0, sk_inflight = None, sk_dropped = 0,
      sk_warned75 = False, sk_stopping = False, sk_cfg = cfg, sk_fmt = formatterFor f cfg, sk_conn = None,
      sk_connectedAt = 0, sk_localIP = '''', sk_state = StateConnecting, sk_since = now, sk_lastErr = '''',
      sk_droppedAtOutage = 0, sk_firstFailure = 0, sk_lastAlert = 0, sk_attempted = False,
      sk_pendingDisconnect = None, sk_resetBackoff = False\<rparr>"

section \<open>Sequence numbers and the halt policy\<close>

definition seqNextLocked :: "core \<Rightarrow> u32 \<times> core" where
  "seqNextLocked c =
     (let q = co_seq c + 1; q = (if q > 2147483647 then 1 else q) in (q, c\<lparr>co_seq := q\<rparr>))"

definition halt :: "halt_error \<Rightarrow> core \<Rightarrow> alert list \<times> core" where
  "halt err c =
     (if co_halted c then ([], c)
      else ([Halting err], c\<lparr>co_halted := True, co_failed := co_failed c @ [err]\<rparr>))"

section \<open>Producers\<close>

definition quoteValue :: "(string \<Rightarrow> string) \<Rightarrow> string \<Rightarrow> string" where
  "quoteValue quote v =
     (if v = '''' \<or> contains_any v [CHR '' '', CHR 0x09, CHR 0x0A, CHR 0x22, CHR ''=''] then quote v else v)"

definition disconnect_message :: "(string \<Rightarrow> string) \<Rightarrow> gtime \<Rightarrow> string \<Rightarrow> u32 \<Rightarrow> sink \<Rightarrow> string" where
  "disconnect_message quote now err q s =
     message (sk_fmt s) (Facility (sk_cfg s)) LevelWarn now EventForwardDisconnected q (sk_localIP s)
       (eventParams EventForwardDisconnected Failure)
       (''msg='' @ quoted ''syslog forwarding disconnected'' @ '' event='' @ EventForwardDisconnected
        @ '' outcome=failure host='' @ quoteValue quote (Host (sk_cfg s)) @ '' reason='' @ quoteValue quote err)"

text \<open>One record onto the ring: its sequence number, the new core and the new sink.\<close>

definition append_next :: "(u32 \<Rightarrow> sink \<Rightarrow> string) \<Rightarrow> bool \<Rightarrow> core \<times> sink \<Rightarrow> string \<times> core \<times> sink" where
  "append_next build reserved cs =
     (let (q, c) = seqNextLocked (fst cs); m = build q (snd cs) in (m, c, appendLocked m reserved (snd cs)))"

text \<open>The disconnected record an outage left pending, and the record to push, if any.\<close>

definition push_pending :: "(string \<Rightarrow> string) \<Rightarrow> gtime \<Rightarrow> core \<times> sink \<Rightarrow> string list \<times> core \<times> sink" where
  "push_pending quote now cs =
     (case sk_pendingDisconnect (snd cs) of
        None \<Rightarrow> ([], cs)
      | Some err \<Rightarrow>
          (let (m, c, s) = append_next (disconnect_message quote now err) False (fst cs, (snd cs)\<lparr>sk_pendingDisconnect := None\<rparr>)
           in ([m], c, s)))"

definition push_build :: "bool \<Rightarrow> (u32 \<Rightarrow> string \<Rightarrow> string) option \<Rightarrow> core \<times> sink \<Rightarrow> string list \<times> core \<times> sink" where
  "push_build reserved build cs =
     (case build of
        None \<Rightarrow> ([], cs)
      | Some b \<Rightarrow> (let (m, c, s) = append_next (\<lambda>q s. b q (sk_localIP s)) reserved cs in ([m], c, s)))"

text \<open>The result: whether the sink took it, the records appended, the alert, core and sink.\<close>

definition push ::
  "(string \<Rightarrow> string) \<Rightarrow> gtime \<Rightarrow> bool \<Rightarrow> (u32 \<Rightarrow> string \<Rightarrow> string) option \<Rightarrow> core \<times> sink
   \<Rightarrow> bool \<times> string list \<times> alert list \<times> core \<times> sink" where
  "push quote now reserved build cs =
     (if sk_stopping (snd cs) then (False, [], [], cs)
      else
        let (ms1, cs) = push_pending quote now cs;
            (ms2, c, s) = push_build reserved build cs;
            warn = (\<not> sk_warned75 s \<and> sk_n s * 4 \<ge> QueueSize * 3);
            s = (if warn then s\<lparr>sk_warned75 := True\<rparr> else s)
        in (True, ms1 @ ms2, if warn then [BufferWarn (sk_n s) (sk_dropped s)] else [], c, s))"

text \<open>What a handler forwards: audit records always, others by level and content policy.\<close>

definition handler_Enabled :: "sink option \<Rightarrow> int \<Rightarrow> bool" where
  "handler_Enabled m l = (case m of None \<Rightarrow> False | Some s \<Rightarrow> l \<ge> min (cfg_level (sk_cfg s)) LevelInfo)"

definition handle_wants :: "Config \<Rightarrow> slog_record \<Rightarrow> bool" where
  "handle_wants cfg r \<longleftrightarrow> \<not> (\<not> IsAudit r \<and> (lr_Level r < cfg_level cfg \<or> Content cfg = ContentAudit))"

definition handle_build :: "sink \<Rightarrow> slog_record \<Rightarrow> string \<Rightarrow> u32 \<Rightarrow> string \<Rightarrow> string" where
  "handle_build s r body q originIP =
     message (sk_fmt s) (Facility (sk_cfg s)) (lr_Level r) (lr_Time r) (EventID r) q originIP (auditParams r) body"

definition Handle_on :: "(string \<Rightarrow> string) \<Rightarrow> gtime \<Rightarrow> slog_record \<Rightarrow> string \<Rightarrow> core \<times> sink \<Rightarrow> bool \<times> string list \<times> alert list \<times> core \<times> sink" where
  "Handle_on quote now r body cs =
     (if \<not> handle_wants (sk_cfg (snd cs)) r then (True, [], [], cs)
      else push quote now (EventID r = EventForwardRecovered) (Some (handle_build (snd cs) r body)) cs)"

section \<open>Connections\<close>

definition connected :: "gtime \<Rightarrow> nat \<Rightarrow> string option \<Rightarrow> sink \<Rightarrow> sink" where
  "connected now conn local s =
     (let s = s\<lparr>sk_conn := Some conn, sk_connectedAt := now\<rparr>;
          s = (case local of Some host \<Rightarrow> s\<lparr>sk_localIP := host\<rparr> | None \<Rightarrow> s)
      in s\<lparr>sk_state := StateConnected, sk_since := now, sk_lastErr := ''''\<rparr>)"

text \<open>The end of an outage: its length and how many records it cost.\<close>

definition delivered :: "gtime \<Rightarrow> nat \<Rightarrow> sink \<Rightarrow> (duration \<times> nat) option \<times> sink" where
  "delivered now conn s =
     (if sk_conn s \<noteq> Some conn \<or> sk_firstFailure s = 0 then (None, s)
      else (Some (time_sub now (sk_firstFailure s), sk_dropped s - sk_droppedAtOutage s), s\<lparr>sk_firstFailure := 0\<rparr>))"

definition cfg_addr :: "Config \<Rightarrow> string" where
  "cfg_addr c = (if contains_any (Host c) '':'' then ''['' @ Host c @ '']'' else Host c) @ '':'' @ itoa (Port c)"

text \<open>What \<open>fail\<close> does after it has released the lock.\<close>

datatype sink_task = QueueDisconnect | TripHalt halt_error

definition close_lost :: "gtime \<Rightarrow> nat option \<Rightarrow> sink \<Rightarrow> sink" where
  "close_lost now conn s =
     (if conn = None then s
      else s\<lparr>sk_conn := None, sk_resetBackoff := time_sub now (sk_connectedAt s) \<ge> stableAfter, sk_connectedAt := 0\<rparr>)"

definition begin_outage :: "gtime \<Rightarrow> string \<Rightarrow> sink \<Rightarrow> sink" where
  "begin_outage now err s =
     (if sk_firstFailure s = 0
      then s\<lparr>sk_firstFailure := now, sk_droppedAtOutage := sk_dropped s, sk_lastAlert := now, sk_pendingDisconnect := Some err\<rparr>
      else s)"

definition show_disconnected :: "string \<Rightarrow> sink \<Rightarrow> sink" where
  "show_disconnected err s = s\<lparr>sk_state := StateDisconnected, sk_since := sk_firstFailure s, sk_lastErr := err\<rparr>"

definition fail_alerts :: "bool \<Rightarrow> bool \<Rightarrow> gtime \<Rightarrow> string \<Rightarrow> sink \<Rightarrow> alert list" where
  "fail_alerts first periodic now err s =
     (if first then [Unreachable err]
      else if periodic then [StillUnreachable (time_sub now (sk_firstFailure s)) (sk_n s) (sk_dropped s - sk_droppedAtOutage s) err]
      else [])"

definition fail_tasks :: "bool \<Rightarrow> gtime \<Rightarrow> string \<Rightarrow> sink \<Rightarrow> sink_task list" where
  "fail_tasks first now err s =
     (let down = time_sub now (sk_firstFailure s)
      in (if first then [QueueDisconnect] else [])
         @ (if OnFailure (sk_cfg s) = OnFailureHalt \<and> down \<ge> FailureTimeout (sk_cfg s)
            then [TripHalt (CollectorUnreachable (cfg_addr (sk_cfg s)) down err)] else []))"

definition fail :: "gtime \<Rightarrow> nat option \<Rightarrow> string \<Rightarrow> sink \<Rightarrow> alert list \<times> sink_task list \<times> sink" where
  "fail now conn err s =
     (if sk_stopping s \<or> (conn \<noteq> None \<and> sk_conn s \<noteq> conn) then ([], [], s)
      else
        let s = close_lost now conn s;
            first = (sk_firstFailure s = 0);
            s = show_disconnected err (begin_outage now err s);
            periodic = (\<not> first \<and> time_sub now (sk_lastAlert s) \<ge> alertInterval);
            s = (if periodic then s\<lparr>sk_lastAlert := now\<rparr> else s)
        in (fail_alerts first periodic now err s, fail_tasks first now err s, s))"

definition stop_begin :: "sink \<Rightarrow> sink" where
  "stop_begin s = s\<lparr>sk_stopping := True\<rparr>"

definition stop_timeout :: "sink \<Rightarrow> sink" where
  "stop_timeout s = s\<lparr>sk_conn := None\<rparr>"

section \<open>The writer\<close>

datatype writer_pc = WLoop | WSleep | WDial | WWrite nat | WAcked nat | WRequeue | WExit

datatype writer_event =
  Look | TimerFires | StopSeen | Dialed nat "string option" | DialFailed string | WriteOk | WriteFailed string | Continue

record writer =
  wr_pc :: writer_pc
  wr_backoff :: duration
  wr_sink :: sink

definition writer_start :: "sink \<Rightarrow> writer" where
  "writer_start s = \<lparr>wr_pc = WLoop, wr_backoff = backoffMin_sl, wr_sink = s\<rparr>"

text \<open>The head of the loop. \<open>None\<close>: the writer waits for records.\<close>

definition writer_look :: "writer \<Rightarrow> writer option" where
  "writer_look w =
     (let s = wr_sink w
      in if \<not> sk_stopping s \<and> sk_conn s \<noteq> None \<and> sk_n s = 0 then None
         else if sk_stopping s \<and> (sk_n s = 0 \<or> sk_conn s = None) then Some (w\<lparr>wr_sink := s\<lparr>sk_conn := None\<rparr>, wr_pc := WExit\<rparr>)
         else case sk_conn s of
           None \<Rightarrow>
             (let w = w\<lparr>wr_sink := s\<lparr>sk_resetBackoff := False, sk_attempted := True\<rparr>\<rparr>
              in if sk_resetBackoff s then Some (w\<lparr>wr_backoff := backoffMin_sl, wr_pc := WDial\<rparr>)
                 else if sk_attempted s then Some (w\<lparr>wr_pc := WSleep\<rparr>)
                 else Some (w\<lparr>wr_pc := WDial\<rparr>))
         | Some c \<Rightarrow> Some (w\<lparr>wr_sink := takeLocked s, wr_pc := WWrite c\<rparr>))"

text \<open>
  One step of the writer: the alerts, the tasks \<open>fail\<close> leaves, whether a record was written, and the
  writer after it; \<open>None\<close> when the event cannot happen at this point of the loop.
\<close>

definition writer_step :: "gtime \<Rightarrow> writer_event \<Rightarrow> writer \<Rightarrow> (alert list \<times> sink_task list \<times> writer) option" where
  "writer_step now ev w =
     (let s = wr_sink w
      in case (wr_pc w, ev) of
           (WLoop, Look) \<Rightarrow> map_option (\<lambda>w. ([], [], w)) (writer_look w)
         | (WSleep, TimerFires) \<Rightarrow> Some ([], [], w\<lparr>wr_backoff := min (wr_backoff w * 2) backoffMax_sl, wr_pc := WDial\<rparr>)
         | (WSleep, StopSeen) \<Rightarrow> if sk_stopping s then Some ([], [], w\<lparr>wr_pc := WExit\<rparr>) else None
         | (WDial, Dialed c local) \<Rightarrow> Some ([], [], w\<lparr>wr_sink := connected now c local s, wr_pc := WLoop\<rparr>)
         | (WDial, DialFailed err) \<Rightarrow> (let (as, ts, s) = fail now None err s in Some (as, ts, w\<lparr>wr_sink := s, wr_pc := WLoop\<rparr>))
         | (WWrite c, WriteOk) \<Rightarrow> Some ([], [], w\<lparr>wr_sink := ack_inflight s, wr_pc := WAcked c\<rparr>)
         | (WWrite c, WriteFailed err) \<Rightarrow> (let (as, ts, s) = fail now (Some c) err s in Some (as, ts, w\<lparr>wr_sink := s, wr_pc := WRequeue\<rparr>))
         | (WAcked c, Continue) \<Rightarrow>
             (let (m, s) = delivered now c s
              in Some (case m of Some (outage, n) \<Rightarrow> [ReachableAgain outage n] | None \<Rightarrow> [], [], w\<lparr>wr_sink := s, wr_pc := WLoop\<rparr>))
         | (WRequeue, Continue) \<Rightarrow> Some ([], [], w\<lparr>wr_sink := requeue s, wr_pc := WLoop\<rparr>)
         | _ \<Rightarrow> None)"

end
