(* ===== verification/Syslog_System.thy ===== *)
theory Syslog_System
  imports Syslog_Sink
begin

text \<open>
  The syslog sink as a concurrent system: one sink with its writer, any number of producers, the
  readers that notice a lost connection, \<open>stop\<close>, and the rest of the server that shares the sequence
  numbers and the halt policy. Steps interleave freely (the work \<open>fail\<close> does after releasing the
  lock is a pool of tasks), which allows every order the goroutines can produce. Two histories are
  recorded: the messages appended and the messages written. The invariant at the end combines the
  conservation law of the ring with the coherence of the writer's position, the connection and the
  reported state.
\<close>

section \<open>Steps\<close>

record system =
  sy_core :: core
  sy_writer :: writer
  sy_tasks :: "sink_task list"
  sy_alerts :: "alert list"
  sy_accepted :: "string list"
  sy_written :: "string list"
  sy_carried :: nat

abbreviation sy_sink :: "system \<Rightarrow> sink" where
  "sy_sink y \<equiv> wr_sink (sy_writer y)"

definition set_sink :: "sink \<Rightarrow> system \<Rightarrow> system" where
  "set_sink s y = y\<lparr>sy_writer := (sy_writer y)\<lparr>wr_sink := s\<rparr>\<rparr>"

definition after_push :: "bool \<times> string list \<times> alert list \<times> core \<times> sink \<Rightarrow> system \<Rightarrow> system" where
  "after_push r y =
     (case r of (_, ms, as, c, s) \<Rightarrow>
        set_sink s (y\<lparr>sy_core := c, sy_alerts := sy_alerts y @ as, sy_accepted := sy_accepted y @ ms\<rparr>))"

definition inflight_list :: "sink \<Rightarrow> string list" where
  "inflight_list s = (case sk_inflight s of Some m \<Rightarrow> [m] | None \<Rightarrow> [])"

inductive sys_step :: "(string \<Rightarrow> string) \<Rightarrow> system \<Rightarrow> system \<Rightarrow> bool" for quote where
  produce: "sys_step quote y (after_push (push quote now reserved build (sy_core y, sy_sink y)) y)"
| writer_moves: "writer_step now ev (sy_writer y) = Some (as, ts, w) \<Longrightarrow>
    sys_step quote y (y\<lparr>sy_writer := w, sy_tasks := sy_tasks y @ ts, sy_alerts := sy_alerts y @ as,
      sy_written := sy_written y @ (if ev = WriteOk then inflight_list (sy_sink y) else [])\<rparr>)"
| peer_gone: "fail now (Some c) err (sy_sink y) = (as, ts, s) \<Longrightarrow>
    sys_step quote y (set_sink s (y\<lparr>sy_tasks := sy_tasks y @ ts, sy_alerts := sy_alerts y @ as\<rparr>))"
| queue_disconnect: "QueueDisconnect \<in> set (sy_tasks y) \<Longrightarrow>
    sys_step quote y (after_push (push quote now True None (sy_core y, sy_sink y)) (y\<lparr>sy_tasks := remove1 QueueDisconnect (sy_tasks y)\<rparr>))"
| trip_halt: "TripHalt err \<in> set (sy_tasks y) \<Longrightarrow> halt err (sy_core y) = (as, c) \<Longrightarrow>
    sys_step quote y (y\<lparr>sy_core := c, sy_tasks := remove1 (TripHalt err) (sy_tasks y), sy_alerts := sy_alerts y @ as\<rparr>)"
| stop: "sys_step quote y (set_sink (stop_begin (sy_sink y)) y)"
| stop_gives_up: "sk_stopping (sy_sink y) \<Longrightarrow> sys_step quote y (set_sink (stop_timeout (sy_sink y)) y)"
| carry: "sys_step quote y (set_sink ((sy_sink y)\<lparr>sk_dropped := sk_dropped (sy_sink y) + k\<rparr>) (y\<lparr>sy_carried := sy_carried y + k\<rparr>))"
| other_number: "sys_step quote y (y\<lparr>sy_core := snd (seqNextLocked (sy_core y))\<rparr>)"
| other_halt: "sys_step quote y (y\<lparr>sy_core := snd (halt err (sy_core y))\<rparr>)"

definition sys_start :: "core \<Rightarrow> formatter \<Rightarrow> gtime \<Rightarrow> Config \<Rightarrow> system" where
  "sys_start c f now cfg =
     \<lparr>sy_core = c, sy_writer = writer_start (newSink f now cfg), sy_tasks = [], sy_alerts = [],
      sy_accepted = [], sy_written = [], sy_carried = 0\<rparr>"

abbreviation sys_reach :: "(string \<Rightarrow> string) \<Rightarrow> system \<Rightarrow> system \<Rightarrow> bool" where
  "sys_reach quote \<equiv> (sys_step quote)\<^sup>*\<^sup>*"

section \<open>The buffer part of the state\<close>

text \<open>Conservation only reads the buffer, so updates of the other fields keep it.\<close>

abbreviation "same_buf s s' \<equiv> sink_buf.truncate s = sink_buf.truncate s'"

lemma buf_fields:
  "same_buf s s' \<Longrightarrow> sk_ring s = sk_ring s' \<and> sk_head s = sk_head s' \<and> sk_n s = sk_n s' \<and> sk_inflight s = sk_inflight s'
     \<and> sk_dropped s = sk_dropped s' \<and> sk_stopping s = sk_stopping s'"
  by (simp add: sink_buf.truncate_def)

lemma conserved_same_buf:
  assumes "same_buf s s'" "ring.conserved b (s, acc, wr)"
  shows "ring.conserved b (s', acc, wr)"
proof -
  note f = buf_fields[OF assms(1)]
  have "slot s i = slot s' i" for i using f by (simp add: slot_def)
  then have "queue s = queue s'" "ring_ok s = ring_ok s'" using f by (simp_all add: queue_def ring_ok_def)
  then show ?thesis using assms(2) f by (simp add: ring.conserved_def ring.pending_records_def)
qed

section \<open>The operations one by one\<close>

lemma buf_op_fields [simp]:
  "sk_conn (appendLocked m r s) = sk_conn s" "sk_state (appendLocked m r s) = sk_state s"
  "sk_droppedAtOutage (appendLocked m r s) = sk_droppedAtOutage s" "sk_cfg (appendLocked m r s) = sk_cfg s"
  "sk_stopping (appendLocked m r s') = sk_stopping s'" "sk_inflight (appendLocked m r s') = sk_inflight s'"
  "sk_dropped s' \<le> sk_dropped (appendLocked m r s')"
  "sk_conn (takeLocked s) = sk_conn s" "sk_state (takeLocked s) = sk_state s"
  "sk_droppedAtOutage (takeLocked s) = sk_droppedAtOutage s" "sk_dropped (takeLocked s) = sk_dropped s"
  "sk_conn (requeue s) = sk_conn s" "sk_state (requeue s) = sk_state s" "sk_stopping (requeue s) = sk_stopping s"
  "sk_droppedAtOutage (requeue s) = sk_droppedAtOutage s" "sk_dropped s \<le> sk_dropped (requeue s)"
  "sk_conn (ack_inflight s) = sk_conn s" "sk_state (ack_inflight s) = sk_state s" "sk_stopping (ack_inflight s) = sk_stopping s"
  "sk_droppedAtOutage (ack_inflight s) = sk_droppedAtOutage s" "sk_dropped (ack_inflight s) = sk_dropped s"
  by (simp_all add: appendLocked_def takeLocked_def requeue_def ack_inflight_def Let_def)

lemma append_conserved:
  assumes "ring.conserved b (s, acc, wr)" "\<not> sk_stopping s" "append_next f r (c, s) = (m, c', s')"
  shows "ring.conserved b (s', acc @ [m], wr)"
  using ring.perform_conserved[OF assms(1), of "Accept m r"] assms(2,3)
  by (auto simp: append_next_def Let_def split: prod.splits)

text \<open>What a push leaves alone.\<close>

definition push_frame :: "sink \<Rightarrow> sink \<Rightarrow> bool" where
  "push_frame s s' \<longleftrightarrow> sk_conn s' = sk_conn s \<and> sk_state s' = sk_state s \<and> sk_droppedAtOutage s' = sk_droppedAtOutage s
     \<and> sk_stopping s' = sk_stopping s \<and> sk_inflight s' = sk_inflight s \<and> sk_dropped s \<le> sk_dropped s'"

text \<open>Appending records one after another: conservation and the frame.\<close>

definition appends :: "core \<times> sink \<Rightarrow> string list \<Rightarrow> core \<times> sink \<Rightarrow> bool" where
  "appends cs ms cs' \<longleftrightarrow> push_frame (snd cs) (snd cs') \<and> co_halted (fst cs') = co_halted (fst cs) \<and> co_failed (fst cs') = co_failed (fst cs)
     \<and> (\<forall>b acc wr. ring.conserved b (snd cs, acc, wr) \<longrightarrow> ring.conserved b (snd cs', acc @ ms, wr))"

lemma appends_trans:
  assumes "appends cs ms cs1" "appends cs1 ms' cs2"
  shows "appends cs (ms @ ms') cs2"
proof -
  have "ring.conserved b (snd cs2, acc @ ms @ ms', wr)" if "ring.conserved b (snd cs, acc, wr)" for b acc wr
  proof -
    have "ring.conserved b (snd cs1, acc @ ms, wr)" using assms(1) that by (simp add: appends_def)
    then have "ring.conserved b (snd cs2, (acc @ ms) @ ms', wr)" using assms(2) unfolding appends_def by blast
    then show ?thesis by simp
  qed
  then show ?thesis using assms by (auto simp: appends_def push_frame_def)
qed

lemma append_next_appends:
  assumes "append_next f r (c, s) = (m, c', s')" "\<not> sk_stopping s"
  shows "appends (c, s) [m] (c', s')"
  using assms append_conserved[OF _ assms(2,1)]
  by (auto simp: appends_def append_next_def push_frame_def seqNextLocked_def Let_def)

lemma push_pending_appends:
  assumes "push_pending quote now (c, s) = (ms, c', s')" "\<not> sk_stopping s"
  shows "appends (c, s) ms (c', s')"
proof (cases "sk_pendingDisconnect s")
  case None
  then show ?thesis using assms by (simp add: push_pending_def appends_def push_frame_def)
next
  case (Some err)
  let ?s0 = "s\<lparr>sk_pendingDisconnect := None\<rparr>"
  have same: "same_buf s ?s0" by (simp add: sink_buf.truncate_def)
  obtain m where m: "append_next (disconnect_message quote now err) False (c, ?s0) = (m, c', s')" "ms = [m]"
    using assms Some by (auto simp: push_pending_def split: prod.splits)
  show ?thesis
    using append_next_appends[OF m(1)] assms(2) m(2) conserved_same_buf[OF same]
    by (auto simp: appends_def push_frame_def)
qed

lemma push_build_appends:
  assumes "push_build r build (c, s) = (ms, c', s')" "\<not> sk_stopping s"
  shows "appends (c, s) ms (c', s')"
proof (cases build)
  case None
  then show ?thesis using assms by (simp add: push_build_def appends_def push_frame_def)
next
  case (Some bd)
  then show ?thesis
    using assms append_next_appends[of "\<lambda>q s. bd q (sk_localIP s)" r c s] by (auto simp: push_build_def split: prod.splits)
qed

lemma push_appends:
  assumes "push quote now r build (c, s) = (taken, ms, as, c', s')"
  shows "appends (c, s) ms (c', s')"
proof (cases "sk_stopping s")
  case True
  then show ?thesis using assms by (auto simp: push_def appends_def push_frame_def)
next
  case False
  obtain ms1 c1 s1 where 1: "push_pending quote now (c, s) = (ms1, c1, s1)" by (metis prod_cases3)
  obtain ms2 c2 s2 where 2: "push_build r build (c1, s1) = (ms2, c2, s2)" by (metis prod_cases3)
  have a1: "appends (c, s) ms1 (c1, s1)" by (rule push_pending_appends[OF 1 False])
  then have "\<not> sk_stopping s1" using False by (simp add: appends_def push_frame_def)
  then have a2: "appends (c1, s1) ms2 (c2, s2)" by (rule push_build_appends[OF 2])
  have res: "ms = ms1 @ ms2" "c' = c2" "s' = s2 \<or> s' = s2\<lparr>sk_warned75 := True\<rparr>"
    using assms False 1 2 by (auto simp: push_def Let_def split: if_splits)
  have w: "ring.conserved b (s2\<lparr>sk_warned75 := True\<rparr>, acc, wr) = ring.conserved b (s2, acc, wr)" for b acc wr
    by (simp add: ring.conserved_def ring.pending_records_def ring_ok_def slot_def)
  show ?thesis
    using appends_trans[OF a1 a2] res(3) unfolding res(1,2) by (auto simp: appends_def push_frame_def w)
qed

lemma truncate_upd [simp]:
  "sink_buf.truncate (s\<lparr>sk_conn := x\<rparr>) = sink_buf.truncate s" "sink_buf.truncate (s\<lparr>sk_connectedAt := t\<rparr>) = sink_buf.truncate s"
  "sink_buf.truncate (s\<lparr>sk_resetBackoff := b\<rparr>) = sink_buf.truncate s" "sink_buf.truncate (s\<lparr>sk_attempted := b\<rparr>) = sink_buf.truncate s"
  "sink_buf.truncate (s\<lparr>sk_firstFailure := t\<rparr>) = sink_buf.truncate s" "sink_buf.truncate (s\<lparr>sk_droppedAtOutage := n\<rparr>) = sink_buf.truncate s"
  "sink_buf.truncate (s\<lparr>sk_lastAlert := t\<rparr>) = sink_buf.truncate s" "sink_buf.truncate (s\<lparr>sk_pendingDisconnect := p\<rparr>) = sink_buf.truncate s"
  "sink_buf.truncate (s\<lparr>sk_state := st\<rparr>) = sink_buf.truncate s" "sink_buf.truncate (s\<lparr>sk_since := t\<rparr>) = sink_buf.truncate s"
  "sink_buf.truncate (s\<lparr>sk_lastErr := e\<rparr>) = sink_buf.truncate s" "sink_buf.truncate (s\<lparr>sk_localIP := e\<rparr>) = sink_buf.truncate s"
  by (simp_all add: sink_buf.truncate_def)

lemma close_lost_fields [simp]:
  "sink_buf.truncate (close_lost now conn s) = sink_buf.truncate s" "sk_stopping (close_lost now conn s) = sk_stopping s"
  "sk_conn (close_lost now conn s) = (if conn = None then sk_conn s else None)" "sk_dropped (close_lost now conn s) = sk_dropped s"
  "sk_droppedAtOutage (close_lost now conn s) = sk_droppedAtOutage s"
  by (simp_all add: close_lost_def)

lemma begin_outage_fields [simp]:
  "sink_buf.truncate (begin_outage now err s) = sink_buf.truncate s" "sk_stopping (begin_outage now err s) = sk_stopping s"
  "sk_conn (begin_outage now err s) = sk_conn s"
  "sk_droppedAtOutage (begin_outage now err s) = (if sk_firstFailure s = 0 then sk_dropped s else sk_droppedAtOutage s)"
  by (simp_all add: begin_outage_def)

text \<open>A failure either is ignored or leaves the buffer alone and the sink disconnected.\<close>

definition fail_frame :: "nat option \<Rightarrow> sink \<Rightarrow> sink \<Rightarrow> bool" where
  "fail_frame conn s s' \<longleftrightarrow> same_buf s s' \<and> sk_state s' = StateDisconnected \<and> sk_conn s' = (if conn = None then sk_conn s else None)
     \<and> sk_droppedAtOutage s' \<in> {sk_droppedAtOutage s, sk_dropped s} \<and> \<not> sk_stopping s"

lemma fail_cases:
  assumes "fail now conn err s = (as, ts, s')"
  shows "s' = s \<or> fail_frame conn s s'"
proof (cases "sk_stopping s \<or> (conn \<noteq> None \<and> sk_conn s \<noteq> conn)")
  case False
  let ?o = "show_disconnected err (begin_outage now err (close_lost now conn s))"
  have "fail_frame conn s ?o" "fail_frame conn s (?o\<lparr>sk_lastAlert := now\<rparr>)"
    using False by (simp_all add: fail_frame_def show_disconnected_def)
  moreover have "s' = ?o \<or> s' = ?o\<lparr>sk_lastAlert := now\<rparr>"
    using assms False by (auto simp: fail_def Let_def)
  ultimately show ?thesis by blast
qed (use assms in \<open>simp add: fail_def\<close>)

section \<open>The invariant\<close>

definition coherent :: "writer_pc \<Rightarrow> sink \<Rightarrow> bool" where
  "coherent pc s \<longleftrightarrow>
     (sk_inflight s \<noteq> None \<longleftrightarrow> (\<exists>c. pc = WWrite c) \<or> pc = WRequeue)
     \<and> (pc \<in> {WDial, WSleep, WExit} \<longrightarrow> sk_conn s = None)
     \<and> (pc = WExit \<longrightarrow> sk_stopping s)
     \<and> (\<not> sk_stopping s \<longrightarrow> (sk_state s = StateConnected \<longleftrightarrow> sk_conn s \<noteq> None))
     \<and> sk_droppedAtOutage s \<le> sk_dropped s"

definition core_ok :: "core \<Rightarrow> bool" where
  "core_ok c \<longleftrightarrow> length (co_failed c) \<le> 1 \<and> (co_halted c \<longleftrightarrow> co_failed c \<noteq> [])"

definition sys_inv :: "system \<Rightarrow> bool" where
  "sys_inv y \<longleftrightarrow>
     ring.conserved (sy_carried y) (sy_sink y, sy_accepted y, sy_written y)
     \<and> coherent (wr_pc (sy_writer y)) (sy_sink y)
     \<and> backoffMin_sl \<le> wr_backoff (sy_writer y) \<and> wr_backoff (sy_writer y) \<le> backoffMax_sl
     \<and> core_ok (sy_core y)"

lemma core_ok_halt: "core_ok c \<Longrightarrow> core_ok (snd (halt err c))"
  by (auto simp: core_ok_def halt_def)

lemma coherent_frame: "coherent pc s \<Longrightarrow> push_frame s s' \<Longrightarrow> coherent pc s'"
  by (auto simp: coherent_def push_frame_def)

lemma coherent_fail:
  assumes "coherent pc s" "fail now conn err s = (as, ts, s')" "conn \<noteq> None \<or> sk_conn s = None"
  shows "coherent pc s'"
proof -
  consider "s' = s" | "fail_frame conn s s'" using fail_cases[OF assms(2)] by blast
  then show ?thesis
  proof cases
    case 2
    then have f: "sk_inflight s' = sk_inflight s" "sk_stopping s' = sk_stopping s" "sk_dropped s' = sk_dropped s" "sk_conn s' = None"
      "sk_state s' = StateDisconnected" "sk_droppedAtOutage s' \<in> {sk_droppedAtOutage s, sk_dropped s}"
      using buf_fields[of s s'] assms(3) by (auto simp: fail_frame_def)
    then show ?thesis using assms(1) by (auto simp: coherent_def)
  qed (use assms(1) in simp)
qed

lemma after_push_inv:
  assumes "sys_inv y" "push quote now r build (sy_core y, sy_sink y) = p"
  shows "sys_inv (after_push p y)"
proof -
  obtain taken ms as c' s' where p: "p = (taken, ms, as, c', s')" by (metis prod_cases5)
  have "appends (sy_core y, sy_sink y) ms (c', s')" using push_appends assms(2) p by blast
  then show ?thesis
    using assms(1) coherent_frame[of "wr_pc (sy_writer y)" "sy_sink y" s']
    by (auto simp: sys_inv_def appends_def after_push_def set_sink_def p core_ok_def)
qed

text \<open>The writer's steps, on its program counter and its sink.\<close>

lemma writer_look_coherent:
  assumes "writer_look w = Some w'" "coherent WLoop (wr_sink w)" "ring.conserved b (wr_sink w, acc, wr)"
  shows "coherent (wr_pc w') (wr_sink w') \<and> ring.conserved b (wr_sink w', acc, wr)
    \<and> (wr_backoff w' = wr_backoff w \<or> wr_backoff w' = backoffMin_sl)"
proof (cases "sk_conn (wr_sink w) \<noteq> None \<and> 0 < sk_n (wr_sink w)")
  case True
  then obtain c where c: "sk_conn (wr_sink w) = Some c" "w' = w\<lparr>wr_sink := takeLocked (wr_sink w), wr_pc := WWrite c\<rparr>"
    using assms(1) by (auto simp: writer_look_def Let_def split: if_splits)
  have f: "sk_inflight (wr_sink w) = None" using assms(2) by (simp add: coherent_def)
  have ok: "ring_ok (wr_sink w)" using assms(3) by (simp add: ring.conserved_def)
  have "queue (wr_sink w) \<noteq> []" using True by (metis length_0_conv length_queue less_nat_zero_code)
  then have "ring.conserved b (takeLocked (wr_sink w), acc, wr)"
    using ring.perform_conserved[OF assms(3), of TakeOne] f by simp
  then show ?thesis
    using c assms(2) take_refines[OF ok _ f] True by (auto simp: coherent_def)
next
  case False
  have same: "same_buf (wr_sink w) ((wr_sink w)\<lparr>sk_conn := x, sk_resetBackoff := r, sk_attempted := a\<rparr>)"
    "same_buf (wr_sink w) ((wr_sink w)\<lparr>sk_conn := x\<rparr>)" "same_buf (wr_sink w) ((wr_sink w)\<lparr>sk_resetBackoff := r, sk_attempted := a\<rparr>)" for x r a
    by (simp_all add: sink_buf.truncate_def)
  show ?thesis
    using assms False conserved_same_buf[OF same(2) assms(3)] conserved_same_buf[OF same(3) assms(3)]
    by (auto simp: writer_look_def coherent_def Let_def split: if_splits option.splits)
qed

lemma connected_fields [simp]:
  "sink_buf.truncate (connected now c local s) = sink_buf.truncate s" "sk_conn (connected now c local s) = Some c"
  "sk_state (connected now c local s) = StateConnected" "sk_droppedAtOutage (connected now c local s) = sk_droppedAtOutage s"
  by (simp_all add: connected_def Let_def split: option.split)

lemma delivered_fields:
  "delivered now c s = (m, s') \<Longrightarrow> same_buf s s' \<and> sk_conn s' = sk_conn s \<and> sk_state s' = sk_state s \<and> sk_droppedAtOutage s' = sk_droppedAtOutage s"
  by (auto simp: delivered_def split: if_splits)

definition writer_inv :: "nat \<Rightarrow> writer \<Rightarrow> string list \<Rightarrow> string list \<Rightarrow> bool" where
  "writer_inv b w acc wr \<longleftrightarrow> ring.conserved b (wr_sink w, acc, wr) \<and> coherent (wr_pc w) (wr_sink w)
     \<and> backoffMin_sl \<le> wr_backoff w \<and> wr_backoff w \<le> backoffMax_sl"

lemma backoff_bounds [simp]: "backoffMin_sl = 1000000000" "backoffMax_sl = 30000000000"
  by (simp_all add: backoffMin_sl_def backoffMax_sl_def)

lemma coherent_same:
  assumes "coherent pc s" "same_buf s s'" "sk_conn s' = sk_conn s" "sk_state s' = sk_state s" "sk_droppedAtOutage s' = sk_droppedAtOutage s"
    and "(\<exists>c. pc = WWrite c) \<or> pc = WRequeue \<longleftrightarrow> (\<exists>c. pc' = WWrite c) \<or> pc' = WRequeue"
    and "pc' \<in> {WDial, WSleep, WExit} \<Longrightarrow> sk_conn s = None" "pc' = WExit \<Longrightarrow> sk_stopping s"
  shows "coherent pc' s'"
  using assms(1,3-) buf_fields[OF assms(2)] by (simp add: coherent_def)

lemma fail_conserved:
  "fail now conn err s = (as, ts, s') \<Longrightarrow> ring.conserved b (s, acc, wr) \<Longrightarrow> ring.conserved b (s', acc, wr)"
  using fail_cases[of now conn err s as ts s'] conserved_same_buf[of s s'] by (auto simp: fail_frame_def)

text \<open>One lemma per position of the writer.\<close>

lemma step_WSleep:
  assumes "writer_step now ev w = Some (as, ts, w')" "wr_pc w = WSleep" "writer_inv b w acc wr"
  shows "writer_inv b w' acc wr \<and> ev \<noteq> WriteOk"
proof -
  have c: "coherent WSleep (wr_sink w)" and b: "ring.conserved b (wr_sink w, acc, wr)" using assms(2,3) by (simp_all add: writer_inv_def)
  consider "ev = TimerFires" | "ev = StopSeen" "sk_stopping (wr_sink w)"
    using assms(1,2) by (cases ev) (auto simp: writer_step_def split: if_splits)
  then show ?thesis
    using assms c b by cases (auto simp: writer_step_def writer_inv_def coherent_def)
qed

lemma step_WDial:
  assumes "writer_step now ev w = Some (as, ts, w')" "wr_pc w = WDial" "writer_inv b w acc wr"
  shows "writer_inv b w' acc wr \<and> ev \<noteq> WriteOk"
proof -
  have c: "coherent WDial (wr_sink w)" and b: "ring.conserved b (wr_sink w, acc, wr)" using assms(2,3) by (simp_all add: writer_inv_def)
  consider (ok) cn local where "ev = Dialed cn local" | (bad) err where "ev = DialFailed err"
    using assms(1,2) by (cases ev) (auto simp: writer_step_def)
  then show ?thesis
  proof cases
    case ok
    have same: "same_buf (wr_sink w) (connected now cn local (wr_sink w))" by simp
    have "coherent WLoop (connected now cn local (wr_sink w))"
      using c buf_fields[OF same] by (simp add: coherent_def)
    then show ?thesis
      using assms ok conserved_same_buf[OF same b] by (auto simp: writer_step_def writer_inv_def)
  next
    case bad
    obtain s' where f: "fail now None err (wr_sink w) = (as, ts, s')" "w' = w\<lparr>wr_sink := s', wr_pc := WLoop\<rparr>"
      using assms(1,2) bad by (auto simp: writer_step_def Let_def split: prod.splits)
    have "coherent WLoop (wr_sink w)" using c by (simp add: coherent_def)
    from coherent_fail[OF this f(1)] c have "coherent WLoop s'" by (simp add: coherent_def)
    then show ?thesis using f assms(3) bad fail_conserved[OF f(1) b] by (simp add: writer_inv_def)
  qed
qed

lemma step_WWrite:
  assumes "writer_step now ev w = Some (as, ts, w')" "wr_pc w = WWrite cn" "writer_inv b w acc wr"
  shows "writer_inv b w' acc (wr @ (if ev = WriteOk then inflight_list (wr_sink w) else []))"
proof -
  have c: "coherent (WWrite cn) (wr_sink w)" and b: "ring.conserved b (wr_sink w, acc, wr)" using assms(2,3) by (simp_all add: writer_inv_def)
  consider (ok) "ev = WriteOk" | (bad) err where "ev = WriteFailed err"
    using assms(1,2) by (cases ev) (auto simp: writer_step_def)
  then show ?thesis
  proof cases
    case ok
    have "ring.conserved b (ack_inflight (wr_sink w), acc, wr @ inflight_list (wr_sink w))"
      using ring.perform_conserved[OF b, of Written] c by (auto simp: coherent_def inflight_list_def)
    moreover have "coherent (WAcked cn) (ack_inflight (wr_sink w))"
      using c by (auto simp: coherent_def ack_inflight_def)
    ultimately show ?thesis using assms ok by (auto simp: writer_step_def writer_inv_def)
  next
    case bad
    obtain s' where f: "fail now (Some cn) err (wr_sink w) = (as, ts, s')" "w' = w\<lparr>wr_sink := s', wr_pc := WRequeue\<rparr>"
      using assms(1,2) bad by (auto simp: writer_step_def Let_def split: prod.splits)
    have "coherent WRequeue (wr_sink w)" using c by (auto simp: coherent_def)
    from coherent_fail[OF this f(1)] have "coherent WRequeue s'" by simp
    then show ?thesis using f assms(3) bad fail_conserved[OF f(1) b] by (simp add: writer_inv_def)
  qed
qed

lemma step_WAcked:
  assumes "writer_step now ev w = Some (as, ts, w')" "wr_pc w = WAcked cn" "writer_inv b w acc wr"
  shows "writer_inv b w' acc wr \<and> ev \<noteq> WriteOk"
proof -
  have c: "coherent (WAcked cn) (wr_sink w)" and b: "ring.conserved b (wr_sink w, acc, wr)" using assms(2,3) by (simp_all add: writer_inv_def)
  have ev: "ev = Continue" using assms(1,2) by (cases ev) (auto simp: writer_step_def)
  obtain m s' where d: "delivered now cn (wr_sink w) = (m, s')" by fastforce
  have "coherent WLoop s'" using delivered_fields[OF d] by (intro coherent_same[OF c]) auto
  moreover have "ring.conserved b (s', acc, wr)" using conserved_same_buf[OF _ b] delivered_fields[OF d] by blast
  ultimately show ?thesis using assms ev d by (auto simp: writer_step_def writer_inv_def)
qed

lemma step_WRequeue:
  assumes "writer_step now ev w = Some (as, ts, w')" "wr_pc w = WRequeue" "writer_inv b w acc wr"
  shows "writer_inv b w' acc wr \<and> ev \<noteq> WriteOk"
proof -
  have c: "coherent WRequeue (wr_sink w)" and b: "ring.conserved b (wr_sink w, acc, wr)" using assms(2,3) by (simp_all add: writer_inv_def)
  have ev: "ev = Continue" using assms(1,2) by (cases ev) (auto simp: writer_step_def)
  obtain m where m: "sk_inflight (wr_sink w) = Some m" using c by (auto simp: coherent_def)
  have ok: "ring_ok (wr_sink w)" using b by (simp add: ring.conserved_def)
  have "ring.conserved b (requeue (wr_sink w), acc, wr)"
    using ring.perform_conserved[OF b, of GiveBack] m by simp
  moreover have "coherent WLoop (requeue (wr_sink w))"
    using c requeue_refines[OF ok m] by (auto simp: coherent_def intro: order_trans)
  ultimately show ?thesis using assms ev by (auto simp: writer_step_def writer_inv_def)
qed

lemma writer_step_inv:
  assumes "writer_step now ev w = Some (as, ts, w')" "writer_inv b w acc wr"
  shows "writer_inv b w' acc (wr @ (if ev = WriteOk then inflight_list (wr_sink w) else []))"
proof (cases "wr_pc w")
  case WLoop
  then have "ev = Look" "writer_look w = Some w'"
    using assms(1) by (cases ev; auto simp: writer_step_def)+
  then show ?thesis
    using writer_look_coherent[of w w' b acc wr] assms(2) WLoop by (auto simp: writer_inv_def)
next
  case WExit
  then show ?thesis using assms(1) by (cases ev) (auto simp: writer_step_def)
qed (use step_WSleep[OF assms(1) _ assms(2)] step_WDial[OF assms(1) _ assms(2)] step_WWrite[OF assms(1) _ assms(2)]
     step_WAcked[OF assms(1) _ assms(2)] step_WRequeue[OF assms(1) _ assms(2)] in auto)

lemma sys_inv_writer: "sys_inv y \<longleftrightarrow> writer_inv (sy_carried y) (sy_writer y) (sy_accepted y) (sy_written y) \<and> core_ok (sy_core y)"
  by (auto simp: sys_inv_def writer_inv_def)

lemma sys_step_inv:
  assumes "sys_step quote y y'" "sys_inv y"
  shows "sys_inv y'"
  using assms
proof (cases rule: sys_step.cases)
  case (produce now reserved build)
  then show ?thesis using after_push_inv[OF assms(2)] by simp
next
  case (writer_moves now ev as ts w)
  then show ?thesis
    using writer_step_inv[OF writer_moves(2), of "sy_carried y" "sy_accepted y" "sy_written y"] assms(2)
    by (auto simp: sys_inv_writer)
next
  case (peer_gone now c err as ts s)
  then show ?thesis
    using coherent_fail[OF _ peer_gone(2)] fail_conserved[OF peer_gone(2)] assms(2) by (auto simp: sys_inv_def set_sink_def)
next
  case (queue_disconnect now)
  have "sys_inv (y\<lparr>sy_tasks := remove1 QueueDisconnect (sy_tasks y)\<rparr>)" using assms(2) by (simp add: sys_inv_def)
  then show ?thesis
    using after_push_inv[of "y\<lparr>sy_tasks := remove1 QueueDisconnect (sy_tasks y)\<rparr>" quote now True None] queue_disconnect by simp
next
  case (trip_halt err as c)
  then show ?thesis using core_ok_halt[of "sy_core y" err] assms(2) by (simp add: sys_inv_def)
next
  case stop
  have "coherent pc (stop_begin s)" if "coherent pc s" for pc s using that by (auto simp: coherent_def stop_begin_def)
  moreover have "ring.conserved b (stop_begin s, acc, wr)" if "ring.conserved b (s, acc, wr)" for b acc wr and s :: sink
    using that by (auto simp: ring.conserved_def ring.pending_records_def stop_begin_def ring_ok_def slot_def)
  ultimately show ?thesis using stop assms(2) by (simp add: sys_inv_def set_sink_def)
next
  case stop_gives_up
  have same: "same_buf (sy_sink y) (stop_timeout (sy_sink y))" by (simp add: stop_timeout_def)
  have "coherent (wr_pc (sy_writer y)) (stop_timeout (sy_sink y))"
    using stop_gives_up assms(2) by (auto simp: sys_inv_def coherent_def stop_timeout_def)
  then show ?thesis
    using stop_gives_up(1) assms(2) conserved_same_buf[OF same] by (auto simp: sys_inv_def set_sink_def)
next
  case (carry k)
  have "ring.conserved (b + k) (s\<lparr>sk_dropped := sk_dropped s + k\<rparr>, acc, wr)" if "ring.conserved b (s, acc, wr)" for b acc wr and s :: sink
    using that by (auto simp: ring.conserved_def ring.pending_records_def ring_ok_def slot_def)
  moreover have "coherent pc (s\<lparr>sk_dropped := sk_dropped s + k\<rparr>)" if "coherent pc s" for pc s
    using that by (simp add: coherent_def)
  ultimately show ?thesis using carry assms(2) by (simp add: sys_inv_def set_sink_def)
next
  case other_number
  then show ?thesis using assms(2) by (simp add: sys_inv_def core_ok_def seqNextLocked_def Let_def)
next
  case (other_halt err)
  then show ?thesis using assms(2) core_ok_halt by (simp add: sys_inv_def)
qed

lemma sys_start_inv: "core_ok c \<Longrightarrow> sys_inv (sys_start c f now cfg)"
  by (simp add: sys_inv_def sys_start_def writer_start_def newSink_def ring.conserved_def ring.pending_records_def ring_ok_def
      slot_def queue_def coherent_def)

lemma sys_reach_inv: "sys_reach quote y y' \<Longrightarrow> sys_inv y \<Longrightarrow> sys_inv y'"
  by (induction rule: rtranclp_induct) (auto intro: sys_step_inv)

end
