(* ===== verification/Syslog_Correct.thy ===== *)
theory Syslog_Correct
  imports Syslog_Receive Syslog_System
begin

text \<open>
  The properties of the syslog forwarder: no record is lost without being counted, the reported
  state is the true one, messages and frames can be read back, structured data keeps caller-supplied
  text from reaching the header, audit records are always forwarded with their fixed fields, and a
  sink that is retired drains.
\<close>

section \<open>The sink as a system\<close>

definition fresh_core :: core where
  "fresh_core = \<lparr>co_seq = 0, co_halted = False, co_failed = []\<rparr>"

lemma fresh_core_ok: "core_ok fresh_core"
  by (simp add: fresh_core_def core_ok_def)

text \<open>
  C14: No record is lost uncounted. However producers, the writer, lost connections, retries and
  \<open>stop\<close> interleave, the records written, followed by the one in flight and those in the ring, are a
  subsequence of the records accepted, in order; what is missing is exactly what the drop counter
  counts (beyond drops carried over from a previous sink). The ring never overflows its two spare
  slots.
\<close>

theorem syslog_conserves:
  assumes "sys_reach quote (sys_start fresh_core f now cfg) y"
  shows "let s = sy_sink y
    in subseq (sy_written y @ inflight_list s @ queue s) (sy_accepted y)
     \<and> length (sy_accepted y) + sy_carried y = length (sy_written y) + length (inflight_list s) + sk_n s + sk_dropped s
     \<and> sk_n s + length (inflight_list s) \<le> QueueSize + 2
     \<and> (\<not> sk_stopping s \<longrightarrow> sk_n s \<le> QueueSize + 1)"
proof -
  have "sys_inv y" using sys_reach_inv[OF assms sys_start_inv[OF fresh_core_ok]] .
  then have "ring.conserved (sy_carried y) (sy_sink y, sy_accepted y, sy_written y)" by (simp add: sys_inv_def)
  then show ?thesis
    by (auto simp: ring.conserved_def ring.pending_records_def inflight_list_def ring_ok_def Let_def split: option.splits)
qed

definition demo_fmt :: formatter where
  "demo_fmt = \<lparr>fm_hostname = ''h'', fm_procID = ''1'', fm_version = ''v''\<rparr>"

definition demo_system :: system where
  "demo_system = after_push (push id 5 False (Some (\<lambda>q ip. ''m'')) (fresh_core, newSink demo_fmt 1 Defaults)) (sys_start fresh_core demo_fmt 1 Defaults)"

lemma demo_reach: "sys_reach id (sys_start fresh_core demo_fmt 1 Defaults) demo_system"
proof -
  have "sys_step id (sys_start fresh_core demo_fmt 1 Defaults)
      (after_push (push id 5 False (Some (\<lambda>q ip. ''m'')) (sy_core (sys_start fresh_core demo_fmt 1 Defaults), sy_sink (sys_start fresh_core demo_fmt 1 Defaults)))
        (sys_start fresh_core demo_fmt 1 Defaults))" by (rule sys_step.produce)
  then show ?thesis by (auto simp: demo_system_def sys_start_def writer_start_def)
qed

lemma demo_fields: "sy_accepted demo_system = [''m'']" "sy_written demo_system = []" "sk_n (sy_sink demo_system) = 1" "sk_inflight (sy_sink demo_system) = None"
  by (simp_all add: demo_system_def after_push_def push_def push_pending_def push_build_def append_next_def set_sink_def newSink_def
      appendLocked_def sys_start_def writer_start_def QueueSize_def Let_def seqNextLocked_def fresh_core_def)

theorem syslog_conserves_witness:
  "sys_reach id (sys_start fresh_core demo_fmt 1 Defaults) demo_system \<and> subseq (queue (sy_sink demo_system)) [''m'']
   \<and> sk_n (sy_sink demo_system) = 1"
  using syslog_conserves[OF demo_reach] demo_reach demo_fields by (auto simp: Let_def inflight_list_def)

text \<open>
  What the settings page shows is true. In every reachable state of a live sink the state is
  \<open>connected\<close> exactly when a connection is held; a record is in flight exactly while the writer
  writes or gives it back; the drops charged to the current outage never exceed the drop counter;
  the reconnect backoff stays between its two bounds; and the halt policy has signalled at most one
  error, exactly when the halted flag is set.
\<close>

theorem syslog_state_coherent:
  assumes "sys_reach quote (sys_start fresh_core f now cfg) y"
  shows "let s = sy_sink y; w = sy_writer y
    in (\<not> sk_stopping s \<longrightarrow> (sk_state s = StateConnected \<longleftrightarrow> sk_conn s \<noteq> None))
     \<and> (sk_inflight s \<noteq> None \<longleftrightarrow> (\<exists>c. wr_pc w = WWrite c) \<or> wr_pc w = WRequeue)
     \<and> (wr_pc w = WExit \<longrightarrow> sk_stopping s \<and> sk_conn s = None)
     \<and> sk_droppedAtOutage s \<le> sk_dropped s
     \<and> second \<le> wr_backoff w \<and> wr_backoff w \<le> 30 * second
     \<and> length (co_failed (sy_core y)) \<le> 1 \<and> (co_halted (sy_core y) \<longleftrightarrow> co_failed (sy_core y) \<noteq> [])"
proof -
  have "sys_inv y" using sys_reach_inv[OF assms sys_start_inv[OF fresh_core_ok]] .
  then show ?thesis by (auto simp: sys_inv_def coherent_def core_ok_def Let_def)
qed

theorem syslog_state_coherent_witness:
  "sys_reach id (sys_start fresh_core demo_fmt 1 Defaults) demo_system \<and> sk_droppedAtOutage (sy_sink demo_system) \<le> sk_dropped (sy_sink demo_system)"
  using syslog_state_coherent[OF demo_reach] demo_reach by (auto simp: Let_def)

section \<open>Sequence numbers\<close>

lemma seqNext_val:
  assumes "unat (co_seq c) \<le> 2147483647"
  shows "unat (fst (seqNextLocked c)) = unat (co_seq c) mod 2147483647 + 1" "co_seq (snd (seqNextLocked c)) = fst (seqNextLocked c)"
    "unat (co_seq (snd (seqNextLocked c))) \<le> 2147483647"
proof -
  have u: "unat (co_seq c + 1) = unat (co_seq c) + 1"
    using assms by (subst unat_word_ariths(1)) simp
  have "co_seq c + 1 > 2147483647 \<longleftrightarrow> unat (co_seq c) = 2147483647"
    using assms u by (auto simp: word_less_nat_alt)
  then show "unat (fst (seqNextLocked c)) = unat (co_seq c) mod 2147483647 + 1" "co_seq (snd (seqNextLocked c)) = fst (seqNextLocked c)"
    "unat (co_seq (snd (seqNextLocked c))) \<le> 2147483647"
    using assms u by (auto simp: seqNextLocked_def Let_def)
qed

text \<open>
  Sequence numbers cycle through \<open>1..2147483647\<close> without repeats or gaps. The \<open>k\<close>-th number handed
  out after the counter stood at \<open>q\<close> is the successor of \<open>q + k\<close> in the cycle, so two numbers are
  equal only when a whole cycle lies between them; a fresh forwarder starts with 1.
\<close>

theorem seq_numbers_cycle:
  assumes "unat (co_seq c) \<le> 2147483647"
  shows "unat (fst (seqNextLocked (((\<lambda>c. snd (seqNextLocked c)) ^^ k) c))) = (unat (co_seq c) + k) mod 2147483647 + 1"
proof -
  have "unat (co_seq (((\<lambda>c. snd (seqNextLocked c)) ^^ k) c)) \<le> 2147483647
    \<and> unat (co_seq (((\<lambda>c. snd (seqNextLocked c)) ^^ k) c)) mod 2147483647 = (unat (co_seq c) + k) mod 2147483647"
  proof (induction k)
    case (Suc k)
    let ?c = "((\<lambda>c. snd (seqNextLocked c)) ^^ k) c"
    have le: "unat (co_seq ?c) \<le> 2147483647" using Suc by blast
    have "unat (co_seq (snd (seqNextLocked ?c))) mod 2147483647 = (unat (co_seq ?c) mod 2147483647 + 1) mod 2147483647"
      using seqNext_val[OF le] by simp
    also have "\<dots> = ((unat (co_seq c) + k) mod 2147483647 + 1) mod 2147483647" using Suc by (simp only: conjunct2)
    also have "\<dots> = (unat (co_seq c) + Suc k) mod 2147483647" by (simp add: mod_Suc_eq)
    finally show ?case using seqNext_val(3)[OF le] by simp
  qed (use assms in simp)
  then show ?thesis using seqNext_val(1) by simp
qed

theorem seq_numbers_cycle_witness:
  "unat (co_seq fresh_core) \<le> 2147483647 \<and> unat (fst (seqNextLocked (((\<lambda>c. snd (seqNextLocked c)) ^^ 3) fresh_core))) = 4"
  using seq_numbers_cycle[of fresh_core 3] by (simp add: fresh_core_def)

section \<open>Messages\<close>

text \<open>
  A message keeps its header whole and stays within \<open>MaxMessageBytes\<close>. For a facility in range, a
  time up to year 9999, a connection address of at most 255 bytes and at most six parameters with
  short names, whatever the values and the body hold, the message is the header, the byte order mark
  and the body, or a cut of them on a rune boundary after the header, closed by the truncation mark.
  When host name, process id, message id and parameter names are free of control characters, so is
  the whole header.
\<close>

theorem message_intact:
  assumes "0 \<le> fac" "fac \<le> 23" "in_years t" "length ip \<le> 255" "\<forall>p\<in>set ps. length (fst p) \<le> 11" "length ps \<le> 6"
  shows "let h = header f fac lvl t msgID q ip ps; m = message f fac lvl t msgID q ip ps body
    in length m \<le> 8192
     \<and> (m = h @ bom @ body \<or> (\<exists>k. m = h @ take k (bom @ body) @ truncatedMark \<and> k < length (bom @ body) \<and> rune_start ((bom @ body) ! k)
          \<and> 8192 < length (h @ bom @ body)))
     \<and> (no_ctl (fm_hostname f) \<and> no_ctl (fm_procID f) \<and> no_ctl msgID \<and> (\<forall>p\<in>set ps. no_ctl (fst p)) \<longrightarrow> no_ctl h)"
  using truncate_keeps_header[OF length_header[OF assms]] truncate_length no_ctl_header[of f msgID ps]
  unfolding message_def Let_def MaxMessageBytes_def by blast

theorem message_intact_witness:
  "in_years 63871200000000000000 \<and> length (message demo_fmt 16 0 63871200000000000000 ''auth.login'' 1 ''192.0.2.1'' [(''event'', ''auth.login'')] (replicate 9000 CHR ''x'')) \<le> 8192"
proof -
  have y: "in_years 63871200000000000000" by (simp add: in_years_def day_ns_def)
  show ?thesis
    using message_intact[OF _ _ y, of 16 "''192.0.2.1''" "[(''event'', ''auth.login'')]" demo_fmt 0 "''auth.login''" 1 "replicate 9000 CHR ''x''"] y
    by (simp add: Let_def)
qed

text \<open>
  C15: Caller-supplied text cannot leave its parameter value. A collector that reads the value up to
  the closing quote by the rules of RFC 5424 finds exactly the text's end, whatever follows, and
  decoding the percent layer gives back the original bytes; the escaped text has no control
  character, so no line feed that would end a record; different texts are escaped differently.
\<close>

theorem sd_value_roundtrip:
  "(\<exists>v. read_value (sdEscape s @ CHR 0x22 # rest) = Some (v, rest) \<and> percent_decode v = s)
   \<and> no_ctl (sdEscape s) \<and> (sdEscape s = sdEscape s' \<longleftrightarrow> s = s')"
proof -
  have r: "read_value (sdEscape s @ CHR 0x22 # rest) = Some (concat (map percent_byte s), rest)" for s rest
    by (simp add: sdEscape_bytes read_value_escape)
  have "s = s'" if "sdEscape s = sdEscape s'"
  proof -
    have "concat (map percent_byte s) = concat (map percent_byte s')" using r[of s "[]"] r[of s' "[]"] that by simp
    then show ?thesis by (metis percent_decode_bytes)
  qed
  moreover have "no_ctl (sdEscape s)" by simp
  ultimately show ?thesis using r[of s rest] percent_decode_bytes[of s] by blast
qed



section \<open>Audit records\<close>


lemma auditParams_fixed:
  assumes "\<forall>a\<in>set as. fst a \<notin> set sdParamKeys" "lr_Attrs r = fixed_attrs ev @ as"
  shows "auditParams r = fixed_attrs ev"
proof -
  have audit: "IsAudit r" using assms(2) by (simp add: IsAudit_def fixed_attrs_def)
  have none: "map_of as k = None" if "k \<in> set sdParamKeys" for k
    using assms(1) that by (force simp: map_of_eq_None_iff)
  have "map_of (lr_Attrs r) k = map_of (fixed_attrs ev) k" if "k \<in> set sdParamKeys" for k
    using none[OF that] assms(2) by (simp add: map_add_def split: option.split)
  then have "auditParams r = concat (map (\<lambda>k. case map_of (fixed_attrs ev) k of Some v \<Rightarrow> [(k, v)] | None \<Rightarrow> []) sdParamKeys)"
    using audit by (simp add: auditParams_def cong: map_cong)
  also have "\<dots> = fixed_attrs ev"
    by (simp add: fixed_attrs_def sdParamKeys_def fixed_keys)
  finally show ?thesis .
qed

text \<open>
  C17: Every catalogued audit event reaches the syslog stream complete. Whatever level and content
  policy the destination has, emitting an event of the catalog with attributes it documents passes
  the level gate and hands the forwarder exactly one record; nothing is stripped from it, it is
  wanted, its message id is the event id unclipped, and its structured data carries exactly the
  outcome, actor and address of the event.
\<close>

theorem audit_event_forwarded:
  assumes "map_of Catalog (ev_ID ev) = Some ks" "fst ` set (ev_Attrs ev) \<subseteq> set ks"
  shows "\<exists>r. Emit (handler_Enabled (Some s)) now ev = [r] \<and> handle_wants (sk_cfg s) r
    \<and> lr_Attrs r = fixed_attrs ev @ ev_Attrs ev \<and> auditParams r = fixed_attrs ev
    \<and> EventID r = ev_ID ev \<and> nilIfEmpty (clip (EventID r) 32) = ev_ID ev"
proof -
  have cat: "(ev_ID ev, ks) \<in> set Catalog" by (rule map_of_SomeD[OF assms(1)])
  then have keys: "\<forall>k\<in>set ks. \<not> forbidden k \<and> k \<notin> set sdParamKeys"
    using catalog_keys by (auto simp: list_all_iff fixed_keys_list_def sdParamKeys_def)
  have id: "ev_ID ev \<noteq> []" "length (ev_ID ev) \<le> 32" using cat catalog_ids by (auto simp: list_all_iff)
  have gate: "handler_Enabled (Some s) (audit_level (ev_Outcome ev))"
    by (simp add: handler_Enabled_def audit_level_def levels min_def)
  have attrs: "\<forall>a\<in>set (ev_Attrs ev). \<not> forbidden (fst a) \<and> fst a \<notin> set sdParamKeys" using assms(2) keys by blast
  then have "filter (\<lambda>a. \<not> forbidden (fst a)) (ev_Attrs ev) = ev_Attrs ev" "filter (\<lambda>a. forbidden (fst a) \<and> P) (ev_Attrs ev) = []" for P
    by (auto simp: filter_id_conv filter_empty_conv)
  then have "Emit (handler_Enabled (Some s)) now ev = [\<lparr>lr_Time = (if ev_At ev = 0 then now else ev_At ev), lr_Level = audit_level (ev_Outcome ev),
      lr_Msg = ev_Msg ev, lr_Attrs = fixed_attrs ev @ ev_Attrs ev\<rparr>]" (is "_ = [?r]")
    using assms(1) gate by (simp add: Emit_def)
  moreover have "IsAudit ?r" "EventID ?r = ev_ID ev" by (simp_all add: IsAudit_def EventID_def fixed_attrs_def)
  moreover have "auditParams ?r = fixed_attrs ev" by (rule auditParams_fixed[of "ev_Attrs ev"]) (use attrs in auto)
  ultimately show ?thesis using id by (auto simp: handle_wants_def nilIfEmpty_def clip_def)
qed

definition demo_event :: audit_event where
  "demo_event = \<lparr>ev_ID = EventLogin, ev_Msg = ''login'', ev_Outcome = Denied,
     ev_Actor = \<lparr>a_User = ''eve'', a_Source = ''local'', a_Session = ''''\<rparr>, ev_Remote = ''192.0.2.7'', ev_At = 0, ev_Attrs = [(''reason'', ''bad password'')]\<rparr>"

theorem audit_event_forwarded_witness:
  "\<exists>r. Emit (handler_Enabled (Some (newSink demo_fmt 1 (Defaults\<lparr>Content := ContentAudit, MinLevel := ''error''\<rparr>)))) 9 demo_event = [r]
     \<and> auditParams r = [(''event'', ''auth.login''), (''outcome'', ''denied''), (''user'', ''eve''), (''user_source'', ''local''), (''remote'', ''192.0.2.7'')]"
proof -
  have "map_of Catalog (ev_ID demo_event) = Some [''reason'']" by (simp add: Catalog_def demo_event_def)
  moreover have "fst ` set (ev_Attrs demo_event) \<subseteq> set [''reason'']" by (simp add: demo_event_def)
  ultimately obtain r where "Emit (handler_Enabled (Some (newSink demo_fmt 1 (Defaults\<lparr>Content := ContentAudit, MinLevel := ''error''\<rparr>)))) 9 demo_event = [r]"
    "auditParams r = fixed_attrs demo_event"
    using audit_event_forwarded by blast
  then show ?thesis by (auto simp: fixed_attrs_def demo_event_def fixed_keys event_ids)
qed

section \<open>Draining\<close>

text \<open>A schedule of the writer's events, with the records it writes; \<open>None\<close> when an event cannot happen.\<close>

fun writer_run :: "gtime \<Rightarrow> writer_event list \<Rightarrow> writer \<times> string list \<Rightarrow> (writer \<times> string list) option" where
  "writer_run now [] c = Some c"
| "writer_run now (ev # evs) (w, wr) =
     (case writer_step now ev w of
        None \<Rightarrow> None
      | Some (as, ts, w') \<Rightarrow> writer_run now evs (w', wr @ (if ev = WriteOk then inflight_list (wr_sink w) else [])))"

definition ready :: "nat \<Rightarrow> writer \<Rightarrow> bool" where
  "ready c w \<longleftrightarrow> wr_pc w = WLoop \<and> sk_conn (wr_sink w) = Some c \<and> ring_ok (wr_sink w) \<and> sk_inflight (wr_sink w) = None"

lemma round_delivers:
  assumes "ready c w" "queue (wr_sink w) = m # q"
  shows "\<exists>w'. (\<forall>evs wr. writer_run now (Look # WriteOk # Continue # evs) (w, wr) = writer_run now evs (w', wr @ [m]))
    \<and> ready c w' \<and> queue (wr_sink w') = q \<and> sk_stopping (wr_sink w') = sk_stopping (wr_sink w)"
proof -
  let ?s = "wr_sink w"
  have n: "0 < sk_n ?s" using assms(2) length_queue[of ?s] by simp
  have r: "ring_ok ?s" "sk_inflight ?s = None" "sk_conn ?s = Some c" "wr_pc w = WLoop" using assms(1) by (simp_all add: ready_def)
  let ?t = "takeLocked ?s"
  have t: "sk_inflight ?t = Some m" "queue ?t = q" "ring_ok ?t" "sk_stopping ?t = sk_stopping ?s"
    using take_refines[OF r(1) n r(2)] assms(2) by auto
  let ?a = "ack_inflight ?t"
  have a: "queue ?a = q" "ring_ok ?a" "sk_inflight ?a = None" "sk_conn ?a = Some c"
    using ring.settle_law[OF t(3)] t(2) r(3) by simp_all
  obtain x d where d: "delivered now c ?a = (x, d)" by fastforce
  have df: "same_buf ?a d" "sk_conn d = Some c" using delivered_fields[OF d] a(4) by auto
  have dq: "queue d = q" "ring_ok d" "sk_inflight d = None" "sk_stopping d = sk_stopping ?s"
    using a t(4) buf_fields[OF df(1)] by (auto simp: queue_def ring_ok_def slot_def)
  have "writer_look w = Some (w\<lparr>wr_sink := ?t, wr_pc := WWrite c\<rparr>)" using n r(3) by (simp add: writer_look_def Let_def)
  then have "\<forall>evs wr. writer_run now (Look # WriteOk # Continue # evs) (w, wr) = writer_run now evs (w\<lparr>wr_sink := d, wr_pc := WLoop\<rparr>, wr @ [m])"
    using r(4) t(1) d by (simp add: writer_step_def inflight_list_def)
  then show ?thesis
    using df(2) dq by (intro exI[of _ "w\<lparr>wr_sink := d, wr_pc := WLoop\<rparr>"]) (simp add: ready_def)
qed

text \<open>
  A connected writer drains the ring. When the collector takes what is written, as many rounds of
  the loop as there are records write them all, oldest first and each once, and leave the ring empty;
  a sink that is being retired then ends its writer with nothing undelivered.
\<close>

theorem connected_writer_drains:
  assumes "ready c w"
  shows "\<exists>w'. writer_run now (concat (replicate (sk_n (wr_sink w)) [Look, WriteOk, Continue])) (w, wr) = Some (w', wr @ queue (wr_sink w))
    \<and> sk_n (wr_sink w') = 0
    \<and> (sk_stopping (wr_sink w) \<longrightarrow> (\<exists>v. writer_run now [Look] (w', []) = Some (v, []) \<and> wr_pc v = WExit \<and> sk_n (wr_sink v) = 0))"
  using assms
proof (induction "queue (wr_sink w)" arbitrary: w wr)
  case Nil
  then have n: "sk_n (wr_sink w) = 0" using length_queue[of "wr_sink w"] by simp
  have "\<exists>v. writer_run now [Look] (w, []) = Some (v, []) \<and> wr_pc v = WExit \<and> sk_n (wr_sink v) = 0" if "sk_stopping (wr_sink w)"
    using that n Nil.prems by (auto simp: ready_def writer_step_def writer_look_def Let_def)
  then show ?case using n Nil.hyps[symmetric] by simp
next
  case (Cons m q)
  obtain w1 where w1: "\<forall>evs wr. writer_run now (Look # WriteOk # Continue # evs) (w, wr) = writer_run now evs (w1, wr @ [m])"
    "ready c w1" "queue (wr_sink w1) = q" "sk_stopping (wr_sink w1) = sk_stopping (wr_sink w)"
    using round_delivers[OF Cons.prems Cons.hyps(2)[symmetric]] by blast
  have "sk_n (wr_sink w) = Suc (sk_n (wr_sink w1))"
    using w1(3) Cons.hyps(2) length_queue[of "wr_sink w"] length_queue[of "wr_sink w1"] by (metis length_Cons)
  then show ?case
    using Cons.hyps(1)[OF w1(3)[symmetric] w1(2), of "wr @ [m]"] w1(1,3,4) Cons.hyps(2)[symmetric] by simp
qed

definition demo_writer :: writer where
  "demo_writer = writer_start (appendLocked ''b'' False (appendLocked ''a'' False (connected 1 7 None (newSink demo_fmt 1 Defaults))))"

theorem connected_writer_drains_witness:
  "\<exists>w'. writer_run 5 (concat (replicate (sk_n (wr_sink demo_writer)) [Look, WriteOk, Continue])) (demo_writer, []) = Some (w', [''a'', ''b''])"
proof -
  let ?s = "connected 1 7 None (newSink demo_fmt 1 Defaults)"
  have s0: "ring_ok ?s" "queue ?s = []" "\<not> sk_stopping ?s" "sk_inflight ?s = None"
    by (simp_all add: connected_def newSink_def ring_ok_def queue_def slot_def)
  have nb: "\<not> over_budget False s" if "sk_n s \<le> 1" for s :: sink using that by (simp add: over_budget_def QueueSize_def)
  let ?a = "appendLocked ''a'' False ?s"
  have a: "queue ?a = [''a'']" "ring_ok ?a" "\<not> sk_stopping ?a" "sk_inflight ?a = None"
    using append_refines[OF s0(1,3), of "''a''" False] nb[of ?s] s0 length_queue[of ?s] by auto
  let ?b = "appendLocked ''b'' False ?a"
  have b: "queue ?b = [''a'', ''b'']" "ring_ok ?b" "sk_inflight ?b = None"
    using append_refines[OF a(2,3), of "''b''" False] nb[of ?a] a length_queue[of ?a] by auto
  have "ready 7 demo_writer" using b by (simp add: ready_def demo_writer_def writer_start_def)
  from connected_writer_drains[OF this, of 5 "[]"] show ?thesis using b by (auto simp: demo_writer_def writer_start_def)
qed

section \<open>Two observations\<close>

text \<open>
  A failed write during the drain: \<open>fail\<close> returns at once because the sink is stopping, so the broken
  connection is kept, the record goes back and the writer is where it was; it retries without
  pause until \<open>stop\<close> gives up.
\<close>

lemma stopping_write_failure_spins:
  assumes "ready c w" "sk_stopping (wr_sink w)" "queue (wr_sink w) \<noteq> []"
  shows "\<exists>w'. writer_run now [Look, WriteFailed err, Continue] (w, wr) = Some (w', wr) \<and> ready c w' \<and> queue (wr_sink w') = queue (wr_sink w)
    \<and> sk_stopping (wr_sink w') \<and> wr_backoff w' = wr_backoff w"
proof -
  let ?s = "wr_sink w" and ?t = "takeLocked (wr_sink w)"
  have n: "0 < sk_n ?s" using assms(3) length_queue[of ?s] by (metis length_greater_0_conv)
  have r: "ring_ok ?s" "sk_inflight ?s = None" "sk_conn ?s = Some c" "wr_pc w = WLoop" using assms(1) by (simp_all add: ready_def)
  obtain m where t: "sk_inflight ?t = Some m" "queue ?s = m # queue ?t" "ring_ok ?t" "sk_stopping ?t"
    using take_refines[OF r(1) n r(2)] assms(2) by auto
  have q: "queue (requeue ?t) = m # queue ?t" "ring_ok (requeue ?t)" "sk_inflight (requeue ?t) = None"
    using requeue_refines[OF t(3,1)] t(4) by auto
  have "writer_look w = Some (w\<lparr>wr_sink := ?t, wr_pc := WWrite c\<rparr>)" using n r(3) by (simp add: writer_look_def Let_def)
  then have "writer_run now [Look, WriteFailed err, Continue] (w, wr) = Some (w\<lparr>wr_sink := requeue ?t, wr_pc := WLoop\<rparr>, wr)"
    using r(4) t(4) by (simp add: writer_step_def fail_def)
  then show ?thesis using q r(3) t(2,4) by (auto simp: ready_def)
qed

text \<open>
  A certificate block with PEM headers passes validation, but the pool skips it, so a configuration
  that validates can still have no usable certificate.
\<close>

lemma validated_ca_unusable:
  "let blocks = (\<lambda>_. [\<lparr>b_Type = ''CERTIFICATE'', b_Headers = 1, b_Bytes = []\<rparr>]); cfg = Defaults\<lparr>CAPEM := ''pem''\<rparr>
   in Problems blocks (\<lambda>_. True) (\<lambda>_ _. True) cfg = [] \<and> tlsConfig blocks (\<lambda>_. True) (\<lambda>_ _. True) cfg = Inl NoUsableCA"
  by (simp add: Problems_def Defaults_def syslog_enums DefaultPort_def DefaultFacility_def printable_def contains_any_def
      parseLevel_def MinFailureTimeout_def DefaultFailureTimeout_def validateCertPEM_def tlsConfig_def pool_certs_def)

text \<open>Without headers, what validates can be dialled with: TLS 1.2 or later and the collector's name checked.\<close>

lemma validated_tls:
  assumes "Problems blocks parses pair_ok cfg = []" "\<forall>b\<in>set (blocks (CAPEM cfg)). b_Headers b = 0"
  shows "\<exists>tc. tlsConfig blocks parses pair_ok cfg = Inr tc \<and> tc_MinVersion tc = VersionTLS12
    \<and> tc_ServerName tc = (if ServerName cfg = '''' then Host cfg else ServerName cfg)"
proof -
  have "pool_certs parses (blocks (CAPEM cfg)) \<noteq> []" if "CAPEM cfg \<noteq> ''''"
  proof -
    have "validate_blocks parses 0 (blocks (CAPEM cfg)) = None"
      using Problems_Nil(8)[OF assms(1)] that by (simp add: validateCertPEM_def)
    from validate_blocks_None[OF this] obtain b where "b \<in> set (blocks (CAPEM cfg))" "b_Type b = ''CERTIFICATE''" "parses (b_Bytes b)"
      using list.set_intros(1) by (metis list.exhaust)
    then show ?thesis using assms(2) by (force simp: pool_certs_def filter_empty_conv)
  qed
  then show ?thesis
    using Problems_Nil(9)[OF assms(1)] by (auto simp: tlsConfig_def Let_def)
qed

end
