(* ===== verification/Go_Utf8.thy ===== *)
theory Go_Utf8
  imports Go_Strings
begin

text \<open>
  UTF-8 as Go's \<open>unicode/utf8\<close> reads it, on byte strings: the width of the rune at the head of a
  string, validity, \<open>strings.ToValidUTF8\<close>, and the string encoder of \<open>encoding/json\<close>.
\<close>

abbreviation byte_of :: "char \<Rightarrow> nat" where
  "byte_of c \<equiv> of_char c"

text \<open>A byte of a multi-byte rune after the first.\<close>

definition cont_byte :: "char \<Rightarrow> bool" where
  "cont_byte c \<longleftrightarrow> \<not> rune_start c"

text \<open>The second byte is restricted for four lead bytes (no overlong forms, surrogates or values past U+10FFFF).\<close>

definition second_ok :: "nat \<Rightarrow> char \<Rightarrow> bool" where
  "second_ok b c \<longleftrightarrow> cont_byte c \<and> (b = 224 \<longrightarrow> byte_of c \<ge> 160) \<and> (b = 237 \<longrightarrow> byte_of c < 160)
     \<and> (b = 240 \<longrightarrow> byte_of c \<ge> 144) \<and> (b = 244 \<longrightarrow> byte_of c < 144)"

text \<open>\<open>utf8.DecodeRuneInString\<close>: the width of the first rune, 0 where Go reports the error rune of width one.\<close>

fun rune_len :: "string \<Rightarrow> nat" where
  "rune_len [] = 0"
| "rune_len (c # s) =
     (let b = byte_of c
      in if b < 128 then 1
         else if 194 \<le> b \<and> b < 224 then (case s of c1 # _ \<Rightarrow> if second_ok b c1 then 2 else 0 | _ \<Rightarrow> 0)
         else if 224 \<le> b \<and> b < 240 then
           (case s of c1 # c2 # _ \<Rightarrow> if second_ok b c1 \<and> cont_byte c2 then 3 else 0 | _ \<Rightarrow> 0)
         else if 240 \<le> b \<and> b < 245 then
           (case s of c1 # c2 # c3 # _ \<Rightarrow> if second_ok b c1 \<and> cont_byte c2 \<and> cont_byte c3 then 4 else 0 | _ \<Rightarrow> 0)
         else 0)"

definition rune_bytes :: "string \<Rightarrow> bool" where
  "rune_bytes r \<longleftrightarrow> r \<noteq> [] \<and> length r \<le> 4 \<and> rune_start (hd r) \<and> list_all cont_byte (tl r)
     \<and> (length r \<noteq> 1 \<longrightarrow> list_all (\<lambda>c. byte_of c \<ge> 128) r) \<and> (length r = 1 \<longrightarrow> byte_of (hd r) < 128)"

lemma cont_high: "cont_byte c \<Longrightarrow> byte_of c \<ge> 128"
  by (simp add: cont_byte_def rune_start_def)

lemma rune_len_split:
  assumes "rune_len s > 0"
  obtains r t where "s = r @ t" "rune_len s = length r" "rune_bytes r" "\<And>u. rune_len (r @ u) = length r"
proof -
  obtain c u where s: "s = c # u" using assms by (cases s) auto
  let ?r = "take (rune_len s) s"
  have "rune_len s \<le> length s \<and> rune_bytes ?r \<and> (\<forall>v. rune_len (?r @ v) = length ?r)"
    using assms unfolding s
    by (auto simp: Let_def rune_bytes_def second_ok_def cont_high rune_start_def split: list.splits if_splits)
  then show thesis
    using that[of ?r "drop (rune_len s) s"] by (simp add: min_absorb2)
qed

lemma rune_len_le: "rune_len s \<le> length s"
  by (cases "rune_len s = 0") (auto elim: rune_len_split[of s])

section \<open>Validity\<close>

function valid_utf8 :: "string \<Rightarrow> bool" where
  "valid_utf8 s = (if s = [] then True else if rune_len s = 0 then False else valid_utf8 (drop (rune_len s) s))"
  by pat_completeness auto
termination by (relation "measure length") auto

declare valid_utf8.simps [simp del]

lemma valid_nil [simp]: "valid_utf8 []"
  by (simp add: valid_utf8.simps)

lemma valid_rune_append: "rune_len (r @ s) = length r \<Longrightarrow> r \<noteq> [] \<Longrightarrow> valid_utf8 (r @ s) = valid_utf8 s"
  by (subst valid_utf8.simps) simp

lemma valid_ascii: "byte_of c < 128 \<Longrightarrow> valid_utf8 (c # s) = valid_utf8 s"
  using valid_rune_append[of "[c]" s] by simp

text \<open>Induction over the runes of a valid string.\<close>

lemma valid_utf8_runes [consumes 1, case_names Nil Rune]:
  assumes "valid_utf8 s" "P []"
    and rune: "\<And>r s. rune_bytes r \<Longrightarrow> (\<And>u. rune_len (r @ u) = length r) \<Longrightarrow> valid_utf8 s \<Longrightarrow> P s \<Longrightarrow> P (r @ s)"
  shows "P s"
  using assms(1)
proof (induction s rule: length_induct)
  case (1 s)
  show ?case
  proof (cases "s = []")
    case False
    then have "rune_len s > 0" "valid_utf8 (drop (rune_len s) s)"
      using "1.prems" by (auto simp: valid_utf8.simps[of s] split: if_splits)
    then show ?thesis
      using 1 False by (elim rune_len_split) (auto intro!: rune simp: rune_bytes_def)
  qed (simp add: assms(2))
qed

text \<open>A cut at the start of a rune leaves a valid string.\<close>

lemma valid_take:
  assumes "valid_utf8 s" "k = length s \<or> k < length s \<and> rune_start (s ! k)"
  shows "valid_utf8 (take k s)"
  using assms
proof (induction s arbitrary: k rule: valid_utf8_runes)
  case (Rune r s)
  have "k = 0 \<or> length r \<le> k"
  proof (rule ccontr)
    assume n: "\<not> (k = 0 \<or> length r \<le> k)"
    then have "tl r ! (k - 1) \<in> set (tl r)" by (intro nth_mem) auto
    then have "\<not> rune_start (r ! k)"
      using n Rune(1) by (auto simp: rune_bytes_def list_all_iff cont_byte_def nth_tl)
    then show False using n Rune.prems by (auto simp: nth_append)
  qed
  moreover have "valid_utf8 (take (k - length r) s)" if "length r \<le> k"
    by (rule Rune.IH) (use Rune.prems that in \<open>auto simp: nth_append\<close>)
  moreover have "r \<noteq> []" using Rune(1) by (simp add: rune_bytes_def)
  ultimately show ?case
    using valid_rune_append[OF Rune(2), of "take (k - length r) s"] by (cases "k = 0") simp_all
qed simp

section \<open>ToValidUTF8\<close>

definition rune_error :: string where
  "rune_error = [CHR 0xEF, CHR 0xBF, CHR 0xBD]"

lemma rune_error_len [simp]: "rune_len (rune_error @ s) = 3"
  by (simp add: rune_error_def Let_def second_ok_def cont_byte_def rune_start_def)

lemma valid_rune_error: "valid_utf8 (rune_error @ s) = valid_utf8 s"
  by (rule valid_rune_append) (simp_all add: rune_error_def Let_def second_ok_def cont_byte_def rune_start_def)

text \<open>The loop, with its flag \<open>invalid\<close>: a run of invalid bytes is replaced once.\<close>

function to_valid_loop :: "string \<Rightarrow> bool \<Rightarrow> string \<Rightarrow> string" where
  "to_valid_loop rep invalid s =
     (if s = [] then []
      else if rune_len s = 0 then (if invalid then [] else rep) @ to_valid_loop rep True (tl s)
      else take (rune_len s) s @ to_valid_loop rep False (drop (rune_len s) s))"
  by pat_completeness auto
termination by (relation "measure (length \<circ> snd \<circ> snd)") auto

declare to_valid_loop.simps [simp del]

definition to_valid_utf8 :: "string \<Rightarrow> string \<Rightarrow> string" where
  "to_valid_utf8 s rep = to_valid_loop rep False s"

lemma to_valid_loop_valid: "valid_utf8 (to_valid_loop rune_error b s)"
proof (induction rune_error b s rule: to_valid_loop.induct)
  case (1 b s)
  show ?case
  proof (cases "s = [] \<or> rune_len s = 0")
    case True
    then show ?thesis using 1 by (auto simp: to_valid_loop.simps[of _ b s] valid_rune_error)
  next
    case False
    then have pos: "rune_len s > 0" by simp
    obtain r t where s: "s = r @ t" "\<And>u. rune_len (r @ u) = length r" "rune_bytes r"
      using rune_len_split[OF pos] by metis
    have "to_valid_loop rune_error b s = r @ to_valid_loop rune_error False t"
      using False by (subst to_valid_loop.simps) (auto simp: s)
    then show ?thesis
      using 1 False s valid_rune_append[OF s(2)] by (auto simp: rune_bytes_def)
  qed
qed

lemma to_valid_utf8_valid: "valid_utf8 (to_valid_utf8 s rune_error)"
  by (simp add: to_valid_utf8_def to_valid_loop_valid)

lemma to_valid_utf8_id: "valid_utf8 s \<Longrightarrow> to_valid_utf8 s rep = s"
  unfolding to_valid_utf8_def
proof (induction s rule: valid_utf8_runes)
  case (Rune r s)
  then show ?case by (subst to_valid_loop.simps) (auto simp: rune_bytes_def)
qed (simp add: to_valid_loop.simps)

end
