(* ===== verification/Outage.thy ===== *)
theory Outage
  imports Complex_Main Prelude
begin

text \<open>
  Outage detection on the server (\<open>internal/server/outage/outage.go\<close>): the hysteresis that
  turns probe results into outage events, and \<open>Apply\<close>, which folds a batch of results into the
  tables inside the ingest transaction.

  The tables are values: \<open>outage_events\<close> is a list of \<open>event\<close> rows, \<open>series_state\<close> a map from
  (agent, probe) to \<open>series_row\<close>. The SQL statements are functions on them; a statement that
  fails aborts the transaction, so it changes nothing and has no branch here. The identifiers
  Postgres mints (\<open>gen_random_uuid\<close>) come from the parameter \<open>gen\<close>. A nil dereference is the
  value \<open>None\<close>. Measured values (\<open>float32\<close> percentages) are carried as rationals.
\<close>

section \<open>Results, states, operations\<close>

datatype kind = ProbeFailing | ProbeDegraded | AgentOffline

definition Threshold :: int where "Threshold = 3"

record result =
  r_ProbeID :: uuid
  r_TargetID :: uuid
  r_ProbeType :: int
  r_Time :: gtime
  r_OK :: bool
  r_StatusCode :: int
  r_Error :: string
  r_Degraded :: bool
  r_DegradedDetail :: string
  r_LossPct :: "rat option"
  r_LatencyUS :: "int option"
  r_LatencySource :: "string option"

record state =
  ConsecFails :: int
  ConsecOKs :: int
  ConsecDegraded :: int
  ConsecClean :: int
  FirstFailAt :: gtime
  FirstOKAt :: gtime
  FirstDegradedAt :: gtime
  FirstCleanAt :: gtime
  LastStatus :: int
  LastTime :: gtime
  LastLossPct :: "rat option"
  LastLatencyUS :: "int option"
  LastLatencySource :: "string option"
  OpenEventID :: "uuid option"
  OpenKind :: "kind option"

definition zero_state :: state where
  "zero_state = \<lparr>ConsecFails = 0, ConsecOKs = 0, ConsecDegraded = 0, ConsecClean = 0, FirstFailAt = 0, FirstOKAt = 0,
     FirstDegradedAt = 0, FirstCleanAt = 0, LastStatus = 0, LastTime = 0, LastLossPct = None, LastLatencyUS = None,
     LastLatencySource = None, OpenEventID = None, OpenKind = None\<rparr>"

text \<open>\<open>type op\<close>: an open carries its kind, instant and detail, a close its instant.\<close>

datatype op = Open kind gtime string | Close gtime

record transition =
  t_EventID :: uuid
  t_ProbeID :: uuid
  t_Kind :: "kind option"
  t_Opened :: bool
  t_At :: gtime

section \<open>step\<close>

definition note_latest :: "result \<Rightarrow> state \<Rightarrow> state" where
  "note_latest r st = st\<lparr>LastTime := r_Time r, LastStatus := r_StatusCode r, LastLossPct := r_LossPct r,
     LastLatencyUS := r_LatencyUS r, LastLatencySource := r_LatencySource r\<rparr>"

definition note_fail :: "result \<Rightarrow> state \<Rightarrow> state" where
  "note_fail r st =
     st\<lparr>ConsecOKs := 0, FirstOKAt := 0, ConsecDegraded := 0, FirstDegradedAt := 0, ConsecClean := 0, FirstCleanAt := 0,
        ConsecFails := ConsecFails st + 1,
        FirstFailAt := (if ConsecFails st + 1 = 1 then r_Time r else FirstFailAt st)\<rparr>"

definition note_ok :: "result \<Rightarrow> state \<Rightarrow> state" where
  "note_ok r st =
     (let st = st\<lparr>ConsecFails := 0, FirstFailAt := 0, ConsecOKs := ConsecOKs st + 1,
                  FirstOKAt := (if ConsecOKs st + 1 = 1 then r_Time r else FirstOKAt st)\<rparr>
      in if r_Degraded r
         then st\<lparr>ConsecClean := 0, FirstCleanAt := 0, ConsecDegraded := ConsecDegraded st + 1,
                 FirstDegradedAt := (if ConsecDegraded st + 1 = 1 then r_Time r else FirstDegradedAt st)\<rparr>
         else st\<lparr>ConsecDegraded := 0, FirstDegradedAt := 0, ConsecClean := ConsecClean st + 1,
                 FirstCleanAt := (if ConsecClean st + 1 = 1 then r_Time r else FirstCleanAt st)\<rparr>)"

definition fail_ops :: "result \<Rightarrow> state \<Rightarrow> op list" where
  "fail_ops r st =
     (if ConsecFails st \<ge> Threshold then
        (case OpenKind st of
           Some ProbeDegraded \<Rightarrow> [Close (FirstFailAt st), Open ProbeFailing (FirstFailAt st) (r_Error r)]
         | None \<Rightarrow> [Open ProbeFailing (FirstFailAt st) (r_Error r)]
         | _ \<Rightarrow> [])
      else [])"

definition ok_ops :: "result \<Rightarrow> state \<Rightarrow> op list" where
  "ok_ops r st =
     (if OpenKind st = Some ProbeFailing \<and> ConsecOKs st \<ge> Threshold then
        Close (FirstOKAt st)
        # (if ConsecDegraded st \<ge> Threshold
           then [Open ProbeDegraded (FirstDegradedAt st) (r_DegradedDetail r)] else [])
      else if OpenKind st = Some ProbeDegraded \<and> ConsecClean st \<ge> Threshold then [Close (FirstCleanAt st)]
      else if OpenKind st = None \<and> ConsecDegraded st \<ge> Threshold
      then [Open ProbeDegraded (FirstDegradedAt st) (r_DegradedDetail r)]
      else [])"

definition step :: "state \<Rightarrow> result \<Rightarrow> state \<times> op list" where
  "step st r =
     (if \<not> r_Time r > LastTime st then (st, [])
      else
        (let st = note_latest r st
         in if \<not> r_OK r then (let st = note_fail r st in (st, fail_ops r st))
            else (let st = note_ok r st in (st, ok_ops r st))))"

lemmas step_defs = step_def note_latest_def note_fail_def note_ok_def Let_def

section \<open>Events\<close>

record event =
  ev_id :: uuid
  ev_kind :: kind
  ev_agent :: uuid
  ev_probe :: "uuid option"
  ev_target :: "uuid option"
  ev_type :: "int option"
  ev_opened :: gtime
  ev_closed :: "gtime option"
  ev_error :: "string option"

definition is_open :: "event \<Rightarrow> bool" where
  "is_open ev \<longleftrightarrow> ev_closed ev = None"

definition nullif_empty :: "string \<Rightarrow> string option" where
  "nullif_empty s = (if s = '''' then None else Some s)"

text \<open>
  \<open>openEvent\<close>: \<open>INSERT \<dots> ON CONFLICT DO NOTHING\<close> against the partial unique index of the kind, or
  adoption of the open event that conflicts.
\<close>

definition openEvent ::
  "(uuid list \<Rightarrow> uuid) \<Rightarrow> uuid \<Rightarrow> result \<Rightarrow> kind \<Rightarrow> gtime \<Rightarrow> string \<Rightarrow> event list \<Rightarrow> uuid \<times> event list" where
  "openEvent gen agent r knd ts detail evs =
     (case find (\<lambda>ev. ev_agent ev = agent \<and> ev_probe ev = Some (r_ProbeID r) \<and> ev_kind ev = knd \<and> is_open ev) evs of
        Some ev \<Rightarrow> (ev_id ev, evs)
      | None \<Rightarrow>
          (let i = gen (map ev_id evs)
           in (i, evs @ [\<lparr>ev_id = i, ev_kind = knd, ev_agent = agent, ev_probe = Some (r_ProbeID r),
                          ev_target = Some (r_TargetID r), ev_type = Some (r_ProbeType r), ev_opened = ts,
                          ev_closed = None, ev_error = nullif_empty detail\<rparr>])))"

definition closeEvent :: "uuid \<Rightarrow> gtime \<Rightarrow> event list \<Rightarrow> event list" where
  "closeEvent i ts evs = map (\<lambda>ev. if ev_id ev = i \<and> is_open ev then ev\<lparr>ev_closed := Some ts\<rparr> else ev) evs"

type_synonym fold_state = "state \<times> event list \<times> transition list"

fun exec_op :: "(uuid list \<Rightarrow> uuid) \<Rightarrow> uuid \<Rightarrow> result \<Rightarrow> op \<Rightarrow> fold_state \<Rightarrow> fold_state option" where
  "exec_op gen agent r (Open knd ts detail) (st, evs, trs) =
     (let (i, evs) = openEvent gen agent r knd ts detail evs
      in Some (st\<lparr>OpenEventID := Some i, OpenKind := Some knd\<rparr>, evs,
               trs @ [\<lparr>t_EventID = i, t_ProbeID = r_ProbeID r, t_Kind = Some knd, t_Opened = True, t_At = ts\<rparr>]))"
| "exec_op gen agent r (Close ts) (st, evs, trs) =
     (case OpenEventID st of
        None \<Rightarrow> None
      | Some i \<Rightarrow>
          Some (st\<lparr>OpenEventID := None, OpenKind := None\<rparr>, closeEvent i ts evs,
                trs @ [\<lparr>t_EventID = i, t_ProbeID = r_ProbeID r, t_Kind = OpenKind st, t_Opened = False, t_At = ts\<rparr>]))"

fun exec_ops :: "(uuid list \<Rightarrow> uuid) \<Rightarrow> uuid \<Rightarrow> result \<Rightarrow> op list \<Rightarrow> fold_state \<Rightarrow> fold_state option" where
  "exec_ops gen agent r [] s = Some s"
| "exec_ops gen agent r (o1 # ops) s = Option.bind (exec_op gen agent r o1 s) (exec_ops gen agent r ops)"

fun fold_batch :: "(uuid list \<Rightarrow> uuid) \<Rightarrow> uuid \<Rightarrow> result list \<Rightarrow> fold_state \<Rightarrow> fold_state option" where
  "fold_batch gen agent [] s = Some s"
| "fold_batch gen agent (r # rs) (st, evs, trs) =
     (let (st, ops) = step st r
      in Option.bind (exec_ops gen agent r ops (st, evs, trs)) (fold_batch gen agent rs))"

section \<open>The series table\<close>

definition epoch :: gtime where "epoch = 62135596800 * second"

definition zeroToEpoch :: "gtime \<Rightarrow> gtime" where
  "zeroToEpoch t = (if t = 0 then epoch else t)"

text \<open>A nullable timestamp column: the sentinel becomes \<open>NULL\<close>, and \<open>NULL\<close> reads as the zero time.\<close>

definition time_column :: "gtime \<Rightarrow> gtime option" where
  "time_column t = (if zeroToEpoch t = epoch then None else Some (zeroToEpoch t))"

definition column_time :: "gtime option \<Rightarrow> gtime" where
  "column_time c = (case c of None \<Rightarrow> 0 | Some t \<Rightarrow> t)"

definition int32 :: "int \<Rightarrow> int" where
  "int32 x = (x + 2 ^ 31) mod 2 ^ 32 - 2 ^ 31"

record series_row =
  s_target :: uuid
  s_type :: int
  s_fails :: int
  s_oks :: int
  s_degraded :: int
  s_clean :: int
  s_first_fail :: "gtime option"
  s_first_ok :: "gtime option"
  s_first_degraded :: "gtime option"
  s_first_clean :: "gtime option"
  s_status :: int
  s_time :: gtime
  s_loss :: "rat option"
  s_latency :: "int option"
  s_source :: "string option"
  s_open :: "uuid option"

type_synonym series_key = "uuid \<times> uuid"

record outage_db =
  od_events :: "event list"
  od_series :: "series_key \<rightharpoonup> series_row"

definition seed_row :: "result \<Rightarrow> series_row" where
  "seed_row r = \<lparr>s_target = r_TargetID r, s_type = r_ProbeType r, s_fails = 0, s_oks = 0, s_degraded = 0, s_clean = 0,
     s_first_fail = None, s_first_ok = None, s_first_degraded = None, s_first_clean = None, s_status = 0, s_time = 0,
     s_loss = None, s_latency = None, s_source = None, s_open = None\<rparr>"

definition ensureStates :: "uuid \<Rightarrow> uuid list \<Rightarrow> result list \<Rightarrow> outage_db \<Rightarrow> outage_db" where
  "ensureStates agent probeIDs results db =
     foldl (\<lambda>db p. case od_series db (agent, p) of
                     Some _ \<Rightarrow> db
                   | None \<Rightarrow> (case filter (\<lambda>r. r_ProbeID r = p) results of
                                [] \<Rightarrow> db
                              | r # _ \<Rightarrow> db\<lparr>od_series := (od_series db)((agent, p) \<mapsto> seed_row r)\<rparr>)) db probeIDs"

text \<open>\<open>lockStates\<close>: the row and, through the join, the kind of the event it points to.\<close>

definition load_state :: "event list \<Rightarrow> series_row \<Rightarrow> state" where
  "load_state evs row =
     \<lparr>ConsecFails = s_fails row, ConsecOKs = s_oks row, ConsecDegraded = s_degraded row, ConsecClean = s_clean row,
      FirstFailAt = column_time (s_first_fail row), FirstOKAt = column_time (s_first_ok row),
      FirstDegradedAt = column_time (s_first_degraded row), FirstCleanAt = column_time (s_first_clean row),
      LastStatus = s_status row, LastTime = s_time row, LastLossPct = s_loss row, LastLatencyUS = s_latency row,
      LastLatencySource = s_source row, OpenEventID = s_open row,
      OpenKind = Option.bind (s_open row) (\<lambda>i. map_option ev_kind (find (\<lambda>ev. ev_id ev = i) evs))\<rparr>"

definition lockState :: "outage_db \<Rightarrow> uuid \<Rightarrow> uuid \<Rightarrow> state" where
  "lockState db agent p =
     (case od_series db (agent, p) of None \<Rightarrow> zero_state | Some row \<Rightarrow> load_state (od_events db) row)"

definition store_state :: "result \<Rightarrow> state \<Rightarrow> series_row" where
  "store_state lst st =
     \<lparr>s_target = r_TargetID lst, s_type = r_ProbeType lst, s_fails = int32 (ConsecFails st), s_oks = int32 (ConsecOKs st),
      s_degraded = int32 (ConsecDegraded st), s_clean = int32 (ConsecClean st),
      s_first_fail = time_column (FirstFailAt st), s_first_ok = time_column (FirstOKAt st),
      s_first_degraded = time_column (FirstDegradedAt st), s_first_clean = time_column (FirstCleanAt st),
      s_status = LastStatus st, s_time = LastTime st, s_loss = LastLossPct st, s_latency = LastLatencyUS st,
      s_source = LastLatencySource st,
      s_open = (case OpenEventID st of None \<Rightarrow> None | Some i \<Rightarrow> if i = 0 then None else Some i)\<rparr>"

definition bulkUpsertStates :: "uuid \<Rightarrow> (result \<times> state) list \<Rightarrow> outage_db \<Rightarrow> outage_db" where
  "bulkUpsertStates agent finals db =
     foldl (\<lambda>db (lst, st). db\<lparr>od_series := (od_series db)((agent, r_ProbeID lst) \<mapsto> store_state lst st)\<rparr>) db finals"

section \<open>Apply\<close>

definition batch_of :: "uuid \<Rightarrow> result list \<Rightarrow> result list" where
  "batch_of p results = sort_key r_Time (filter (\<lambda>r. r_ProbeID r = p) results)"

text \<open>The loop over the series of a push: events and transitions are threaded, final states collected.\<close>

fun fold_all ::
  "(uuid list \<Rightarrow> uuid) \<Rightarrow> uuid \<Rightarrow> (uuid \<Rightarrow> state) \<Rightarrow> result list \<Rightarrow> uuid list \<Rightarrow> event list \<times> transition list
   \<Rightarrow> ((result \<times> state) list \<times> event list \<times> transition list) option" where
  "fold_all gen agent states results [] (evs, trs) = Some ([], evs, trs)"
| "fold_all gen agent states results (p # ps) (evs, trs) =
     Option.bind (fold_batch gen agent (batch_of p results) (states p, evs, trs))
       (\<lambda>(st, evs, trs). Option.bind (fold_all gen agent states results ps (evs, trs))
          (\<lambda>(finals, evs, trs). Some ((last (batch_of p results), st) # finals, evs, trs)))"

definition probe_ids :: "result list \<Rightarrow> uuid list" where
  "probe_ids results = sort (remdups (map r_ProbeID results))"

definition Apply :: "(uuid list \<Rightarrow> uuid) \<Rightarrow> uuid \<Rightarrow> result list \<Rightarrow> outage_db \<Rightarrow> (transition list \<times> outage_db) option" where
  "Apply gen agent results db =
     (if results = [] then Some ([], db)
      else
        (let probeIDs = probe_ids results;
             db = ensureStates agent probeIDs results db
         in Option.bind (fold_all gen agent (lockState db agent) results probeIDs (od_events db, []))
              (\<lambda>(finals, evs, trs). Some (trs, bulkUpsertStates agent finals (db\<lparr>od_events := evs\<rparr>)))))"

end
