(* ===== verification/Ingest_Row.thy ===== *)
theory Ingest_Row
  imports Complex_Main "HOL-Library.Log_Nat" Go_Utf8 Outage Pathwatch Mtuwatch Thresholds
begin

text \<open>
  From the wire to a row (\<open>internal/server/grpcapi/ingest.go\<close>): \<open>resultToRow\<close> and the routines it
  calls, and the conversions of inserted rows into what the outage, path and MTU bookkeeping reads.
  Wire integers keep their widths, \<open>int16\<close> and \<open>int32\<close> conversions truncate. The percentage is
  computed in single precision: \<open>f32\<close> rounds a rational to the nearest \<open>float32\<close> (ties to even);
  the values here are far from the ends of its range. \<open>parse_uuid\<close> stands for \<open>uuid.Parse\<close>, and
  \<open>detail_text\<close> for the sentence \<open>GradeCrit\<close> formats from what it found.
\<close>

section \<open>Wire messages\<close>

record rtt_stats =
  rs_MinUs :: "64 word"
  rs_AvgUs :: "64 word"
  rs_MaxUs :: "64 word"
  rs_StddevUs :: "64 word"

record timings =
  ti_DnsUs :: "64 word"
  ti_TcpConnectUs :: "64 word"
  ti_TlsHandshakeUs :: "64 word"
  ti_TtfbUs :: "64 word"
  ti_TotalUs :: "64 word"

record hop =
  hp_Ttl :: u32
  hp_Addrs :: "string list"
  hp_RttUs :: "64 word list"

record traceroute_result =
  tr_Hops :: "hop list"
  tr_DestReached :: bool
  tr_PathHash :: "byte list"

record wire_path_mtu =
  pm_LargestOkBytes :: u32
  pm_SmallestFailedBytes :: u32
  pm_NextHopMtuBytes :: u32
  pm_IpVersion :: u32
  pm_BlackHoleSuspected :: bool
  pm_RttUs :: "64 word"
  pm_LocalConstraint :: bool

record probe_result =
  pr_ProbeId :: string
  pr_Type :: "32 word"
  pr_TargetId :: string
  pr_StartedAt :: "gtime option"
  pr_Status :: "32 word"
  pr_Error :: string
  pr_Sent :: u32
  pr_Received :: u32
  pr_Rtt :: "rtt_stats option"
  pr_JitterUs :: "64 word"
  pr_Timings :: "timings option"
  pr_Traceroute :: "traceroute_result option"
  pr_PathMtu :: "wire_path_mtu option"

definition PROBE_STATUS_OK :: "32 word" where "PROBE_STATUS_OK = 1"
definition PROBE_STATUS_TIMEOUT :: "32 word" where "PROBE_STATUS_TIMEOUT = 2"

section \<open>Rows\<close>

record traceroute_payload =
  tp_DestReached :: bool
  tp_PathHash :: "byte list"
  tp_Hops :: "byte list"

record path_mtu_payload =
  mp_LargestOK :: "32 word"
  mp_SmallestFailed :: "32 word"
  mp_NextHopMTU :: "32 word"
  mp_IPVersion :: "16 word"
  mp_BlackHole :: bool
  mp_LocalConstraint :: bool
  mp_RttUS :: "32 word option"
  mp_Usable :: bool

record result_row =
  rw_Time :: gtime
  rw_TargetID :: uuid
  rw_ProbeID :: uuid
  rw_ProbeType :: "16 word"
  rw_Status :: "16 word"
  rw_Sent :: "32 word"
  rw_Received :: "32 word"
  rw_LossPct :: "rat option"
  rw_RttMinUS :: "32 word option"
  rw_RttAvgUS :: "32 word option"
  rw_RttMaxUS :: "32 word option"
  rw_RttStddevUS :: "32 word option"
  rw_JitterUS :: "32 word option"
  rw_DNSUS :: "32 word option"
  rw_TCPConnectUS :: "32 word option"
  rw_TLSHandshakeUS :: "32 word option"
  rw_TTFBUS :: "32 word option"
  rw_TotalUS :: "32 word option"
  rw_Error :: "string option"
  rw_Traceroute :: "traceroute_payload option"
  rw_PathMtu :: "path_mtu_payload option"

datatype row_error =
  BadProbeId string
| BadTargetId string
| MissingStartedAt
| FutureStartedAt gtime
| StatusUnspecified
| TooManyHops nat
| BadPathHash nat
| PathMtuTooLarge
| BadIpVersion u32

definition maxBatchSize :: nat where "maxBatchSize = 5000"
definition maxFutureSkew :: duration where "maxFutureSkew = 5 * minute"
definition maxErrorLen :: nat where "maxErrorLen = 128"
definition maxTracerouteHops :: nat where "maxTracerouteHops = 64"
definition maxPathMtuBytes :: nat where "maxPathMtuBytes = 65536"

section \<open>The pieces\<close>

definition usColumn :: "64 word \<Rightarrow> 32 word option" where
  "usColumn us = (if sint us < 0 then None else Some (word_of_int (min (sint us) (2 ^ 31 - 1))))"

text \<open>\<open>strings.ReplaceAll(e, "\x00", "\uFFFD")\<close>.\<close>

definition replace_nul :: "string \<Rightarrow> string" where
  "replace_nul e = concat (map (\<lambda>c. if c = CHR 0x00 then rune_error else [c]) e)"

definition storableError :: "string \<Rightarrow> string" where
  "storableError e =
     (let e = replace_nul (to_valid_utf8 e rune_error)
      in if length e \<le> maxErrorLen then e else take (rune_cut e maxErrorLen) e)"

text \<open>The text \<open>json.Marshal\<close> writes for the hops.\<close>

definition json_hex :: "nat \<Rightarrow> char" where
  "json_hex n = ''0123456789abcdef'' ! n"

definition json_unicode :: "nat \<Rightarrow> string" where
  "json_unicode n = [CHR 0x5C, CHR ''u'', json_hex (n div 4096 mod 16), json_hex (n div 256 mod 16), json_hex (n div 16 mod 16), json_hex (n mod 16)]"

definition json_ascii :: "char \<Rightarrow> string" where
  "json_ascii c =
     (if c = CHR ''\"'' \<or> c = CHR 0x5C then [CHR 0x5C, c]
      else if c = CHR 0x08 then [CHR 0x5C, CHR ''b'']
      else if c = CHR 0x0C then [CHR 0x5C, CHR ''f'']
      else if c = CHR 0x0A then [CHR 0x5C, CHR ''n'']
      else if c = CHR 0x0D then [CHR 0x5C, CHR ''r'']
      else if c = CHR 0x09 then [CHR 0x5C, CHR ''t'']
      else if byte_of c < 32 \<or> c = CHR ''<'' \<or> c = CHR ''>'' \<or> c = CHR ''&'' then json_unicode (byte_of c)
      else [c])"

function json_chars :: "string \<Rightarrow> string" where
  "json_chars s =
     (if s = [] then []
      else if rune_len s = 0 then json_unicode 65533 @ json_chars (tl s)
      else if rune_len s = 1 then json_ascii (hd s) @ json_chars (tl s)
      else (if take 3 s = [CHR 0xE2, CHR 0x80, CHR 0xA8] then json_unicode 8232
            else if take 3 s = [CHR 0xE2, CHR 0x80, CHR 0xA9] then json_unicode 8233
            else take (rune_len s) s) @ json_chars (drop (rune_len s) s))"
  by pat_completeness auto
termination by (relation "measure length") auto

declare json_chars.simps [simp del]

definition json_string :: "string \<Rightarrow> string" where
  "json_string s = ''\"'' @ json_chars s @ ''\"''"

fun json_join :: "string list \<Rightarrow> string" where
  "json_join [] = ''''"
| "json_join [x] = x"
| "json_join (x # y # xs) = x @ '','' @ json_join (y # xs)"

definition json_array :: "string list \<Rightarrow> string" where
  "json_array xs = ''['' @ json_join xs @ '']''"

definition hop_json :: "hop \<Rightarrow> string" where
  "hop_json h =
     ''{\"ttl\":'' @ itoa (uint (hp_Ttl h)) @ '',\"addrs\":'' @ json_array (map json_string (hp_Addrs h))
       @ '',\"rtt_us\":'' @ json_array (map (\<lambda>w. itoa (sint w)) (hp_RttUs h)) @ ''}''"

definition hops_json :: "hop list \<Rightarrow> byte list" where
  "hops_json hs = map (\<lambda>c. word_of_nat (byte_of c)) (json_array (map hop_json hs))"

definition tracePayload :: "traceroute_result \<Rightarrow> row_error + traceroute_payload" where
  "tracePayload tr =
     (if length (tr_Hops tr) > maxTracerouteHops then Inl (TooManyHops (length (tr_Hops tr)))
      else if tr_DestReached tr \<and> length (tr_PathHash tr) \<noteq> 32 then Inl (BadPathHash (length (tr_PathHash tr)))
      else Inr \<lparr>tp_DestReached = tr_DestReached tr, tp_PathHash = tr_PathHash tr, tp_Hops = hops_json (tr_Hops tr)\<rparr>)"

definition pathMtuPayload :: "wire_path_mtu \<Rightarrow> 32 word \<Rightarrow> row_error + path_mtu_payload" where
  "pathMtuPayload m st =
     (if unat (pm_LargestOkBytes m) > maxPathMtuBytes \<or> unat (pm_SmallestFailedBytes m) > maxPathMtuBytes
         \<or> unat (pm_NextHopMtuBytes m) > maxPathMtuBytes then Inl PathMtuTooLarge
      else if pm_IpVersion m \<noteq> 4 \<and> pm_IpVersion m \<noteq> 6 then Inl (BadIpVersion (pm_IpVersion m))
      else Inr \<lparr>mp_LargestOK = pm_LargestOkBytes m, mp_SmallestFailed = pm_SmallestFailedBytes m, mp_NextHopMTU = pm_NextHopMtuBytes m,
        mp_IPVersion = ucast (pm_IpVersion m), mp_BlackHole = pm_BlackHoleSuspected m, mp_LocalConstraint = pm_LocalConstraint m,
        mp_RttUS = usColumn (pm_RttUs m),
        mp_Usable = (pm_LargestOkBytes m > 0 \<and> (st = PROBE_STATUS_OK \<or> st = PROBE_STATUS_TIMEOUT \<and> pm_BlackHoleSuspected m))\<rparr>)"

section \<open>Single precision\<close>

definition round_even :: "rat \<Rightarrow> int" where
  "round_even y =
     (let n = \<lfloor>y\<rfloor>; r = y - of_int n
      in if r > 1 / 2 \<or> r = 1 / 2 \<and> odd n then n + 1 else n)"

definition pow2 :: "int \<Rightarrow> rat" where
  "pow2 e = (if e \<ge> 0 then 2 ^ nat e else 1 / 2 ^ nat (- e))"

text \<open>The binary exponent of a positive rational: the \<open>k\<close> with \<open>2\<^sup>k \<le> x < 2\<^sup>k\<^sup>+\<^sup>1\<close>.\<close>

definition log2_floor :: "rat \<Rightarrow> int" where
  "log2_floor x =
     (let (n, d) = quotient_of x; k = bitlen n - bitlen d
      in if pow2 k \<le> x then k else k - 1)"

definition f32 :: "rat \<Rightarrow> rat" where
  "f32 x =
     (if x = 0 then 0
      else let e = log2_floor \<bar>x\<bar> - 23 in sgn x * of_int (round_even (\<bar>x\<bar> / pow2 e)) * pow2 e)"

section \<open>resultToRow\<close>

text \<open>\<open>int32(min(n, 1<<30))\<close>.\<close>

definition train_count :: "u32 \<Rightarrow> 32 word" where
  "train_count n = min n (2 ^ 30)"

definition loss_pct :: "32 word \<Rightarrow> 32 word \<Rightarrow> rat option" where
  "loss_pct sent received =
     (if sint sent > 0
      then Some (f32 (f32 (f32 (of_int (sint (sent - received))) / f32 (of_int (sint sent))) * 100))
      else None)"

definition base_row :: "gtime \<Rightarrow> uuid \<Rightarrow> uuid \<Rightarrow> probe_result \<Rightarrow> result_row" where
  "base_row t targetID probeID r =
     \<lparr>rw_Time = t, rw_TargetID = targetID, rw_ProbeID = probeID, rw_ProbeType = ucast (pr_Type r), rw_Status = ucast (pr_Status r),
      rw_Sent = train_count (pr_Sent r), rw_Received = train_count (pr_Received r),
      rw_LossPct = loss_pct (train_count (pr_Sent r)) (train_count (pr_Received r)),
      rw_RttMinUS = Option.bind (pr_Rtt r) (usColumn \<circ> rs_MinUs), rw_RttAvgUS = Option.bind (pr_Rtt r) (usColumn \<circ> rs_AvgUs),
      rw_RttMaxUS = Option.bind (pr_Rtt r) (usColumn \<circ> rs_MaxUs), rw_RttStddevUS = Option.bind (pr_Rtt r) (usColumn \<circ> rs_StddevUs),
      rw_JitterUS = usColumn (pr_JitterUs r),
      rw_DNSUS = Option.bind (pr_Timings r) (usColumn \<circ> ti_DnsUs), rw_TCPConnectUS = Option.bind (pr_Timings r) (usColumn \<circ> ti_TcpConnectUs),
      rw_TLSHandshakeUS = Option.bind (pr_Timings r) (usColumn \<circ> ti_TlsHandshakeUs), rw_TTFBUS = Option.bind (pr_Timings r) (usColumn \<circ> ti_TtfbUs),
      rw_TotalUS = Option.bind (pr_Timings r) (usColumn \<circ> ti_TotalUs),
      rw_Error = (if pr_Error r \<noteq> '''' then Some (storableError (pr_Error r)) else None),
      rw_Traceroute = None, rw_PathMtu = None\<rparr>"

definition with_traceroute :: "probe_result \<Rightarrow> result_row \<Rightarrow> row_error + result_row" where
  "with_traceroute r row =
     (case pr_Traceroute r of
        None \<Rightarrow> Inr row
      | Some tr \<Rightarrow> (case tracePayload tr of Inl e \<Rightarrow> Inl e | Inr p \<Rightarrow> Inr (row\<lparr>rw_Traceroute := Some p\<rparr>)))"

definition with_path_mtu :: "probe_result \<Rightarrow> result_row \<Rightarrow> row_error + result_row" where
  "with_path_mtu r row =
     (case pr_PathMtu r of
        None \<Rightarrow> Inr row
      | Some m \<Rightarrow> (case pathMtuPayload m (pr_Status r) of Inl e \<Rightarrow> Inl e | Inr p \<Rightarrow> Inr (row\<lparr>rw_PathMtu := Some p\<rparr>)))"

definition resultToRow :: "(string \<Rightarrow> uuid option) \<Rightarrow> gtime \<Rightarrow> probe_result \<Rightarrow> row_error + result_row" where
  "resultToRow parse_uuid now r =
     (case parse_uuid (pr_ProbeId r) of
        None \<Rightarrow> Inl (BadProbeId (pr_ProbeId r))
      | Some probeID \<Rightarrow>
          (case parse_uuid (pr_TargetId r) of
             None \<Rightarrow> Inl (BadTargetId (pr_TargetId r))
           | Some targetID \<Rightarrow>
               (case pr_StartedAt r of
                  None \<Rightarrow> Inl MissingStartedAt
                | Some t \<Rightarrow>
                    if t > now + maxFutureSkew then Inl (FutureStartedAt t)
                    else if pr_Status r = 0 then Inl StatusUnspecified
                    else (case with_traceroute r (base_row t targetID probeID r) of
                            Inl e \<Rightarrow> Inl e
                          | Inr row \<Rightarrow> with_path_mtu r row))))"

section \<open>What the bookkeeping reads\<close>

text \<open>The first measured value in purity order, with its family.\<close>

fun first_measured :: "('a option \<times> string) list \<Rightarrow> ('a \<times> string) option" where
  "first_measured [] = None"
| "first_measured ((Some v, source) # fs) = Some (v, source)"
| "first_measured ((None, source) # fs) = first_measured fs"

definition rowLatency :: "result_row \<Rightarrow> (int \<times> string) option" where
  "rowLatency r =
     map_option (\<lambda>(v, source). (sint v, source))
       (first_measured [(rw_RttAvgUS r, ''rtt''), (rw_TCPConnectUS r, ''tcp_connect''), (rw_TLSHandshakeUS r, ''tls_handshake''),
          (rw_TTFBUS r, ''ttfb''), (rw_TotalUS r, ''total'')])"

record probe_assignment =
  as_TargetID :: uuid
  as_Crit :: thresholds

definition outage_of_row :: "(crit_detail \<Rightarrow> string) \<Rightarrow> (uuid \<rightharpoonup> probe_assignment) \<Rightarrow> result_row \<Rightarrow> result" where
  "outage_of_row detail_text assigned r =
     (let ok = (rw_Status r = ucast PROBE_STATUS_OK);
          crit = (if ok then Option.bind (assigned (rw_ProbeID r)) (\<lambda>a. GradeCrit (as_Crit a) (map_option fst (rowLatency r)) (rw_LossPct r)) else None)
      in \<lparr>r_ProbeID = rw_ProbeID r, r_TargetID = rw_TargetID r, r_ProbeType = sint (rw_ProbeType r), r_Time = rw_Time r, r_OK = ok,
          r_StatusCode = sint (rw_Status r), r_Error = (case rw_Error r of None \<Rightarrow> '''' | Some e \<Rightarrow> e),
          r_Degraded = (crit \<noteq> None), r_DegradedDetail = (case crit of None \<Rightarrow> '''' | Some d \<Rightarrow> detail_text d),
          r_LossPct = rw_LossPct r, r_LatencyUS = map_option fst (rowLatency r), r_LatencySource = map_option snd (rowLatency r)\<rparr>)"

definition toOutageResults :: "(crit_detail \<Rightarrow> string) \<Rightarrow> (uuid \<rightharpoonup> probe_assignment) \<Rightarrow> result_row list \<Rightarrow> result list" where
  "toOutageResults detail_text assigned rows = map (outage_of_row detail_text assigned) rows"

definition toPathRuns :: "result_row list \<Rightarrow> path_run list" where
  "toPathRuns rows =
     [\<lparr>p_ProbeID = rw_ProbeID r, p_TargetID = rw_TargetID r, p_Time = rw_Time r, p_DestReached = tp_DestReached t,
       p_PathHash = tp_PathHash t, p_Hops = tp_Hops t\<rparr>. r \<leftarrow> rows, t \<leftarrow> (case rw_Traceroute r of None \<Rightarrow> [] | Some t \<Rightarrow> [t])]"

definition toMTURuns :: "result_row list \<Rightarrow> mtu_run list" where
  "toMTURuns rows =
     [\<lparr>m_ProbeID = rw_ProbeID r, m_TargetID = rw_TargetID r, m_Time = rw_Time r, m_LargestOK = mp_LargestOK m,
       m_SmallestFailed = mp_SmallestFailed m, m_NextHopMTU = mp_NextHopMTU m, m_IPVersion = mp_IPVersion m,
       m_BlackHole = mp_BlackHole m, m_LocalConstraint = mp_LocalConstraint m, m_RttUS = mp_RttUS m, m_Usable = mp_Usable m\<rparr>.
       r \<leftarrow> rows, m \<leftarrow> (case rw_PathMtu r of None \<Rightarrow> [] | Some m \<Rightarrow> [m])]"

section \<open>Stored error text\<close>

lemma valid_replace_nul: "valid_utf8 s \<Longrightarrow> valid_utf8 (replace_nul s)"
proof (induction s rule: valid_utf8_runes)
  case (Rune r s)
  show ?case
  proof (cases "r = [CHR 0x00]")
    case True
    then show ?thesis using Rune by (simp add: replace_nul_def valid_rune_error)
  next
    case False
    have "CHR 0x00 \<notin> set r"
    proof
      assume z: "CHR 0x00 \<in> set r"
      then have "length r = 1" using Rune(1) by (auto simp: rune_bytes_def list_all_iff)
      then show False using z False by (cases r) auto
    qed
    then have "concat (map (\<lambda>c. if c = CHR 0x00 then rune_error else [c]) r) = r" by (induction r) auto
    then have "replace_nul (r @ s) = r @ replace_nul s" by (simp add: replace_nul_def)
    then show ?thesis using Rune valid_rune_append[OF Rune(2)] by (auto simp: rune_bytes_def)
  qed
qed (simp add: replace_nul_def)

lemma replace_nul_free: "CHR 0x00 \<notin> set (replace_nul s)"
  by (auto simp: replace_nul_def rune_error_def split: if_splits)

lemma replace_nul_id: "CHR 0x00 \<notin> set s \<Longrightarrow> replace_nul s = s"
  unfolding replace_nul_def by (induction s) auto

text \<open>In a valid string four bytes in a row cannot all continue a rune.\<close>

lemma valid_rune_gap:
  assumes "valid_utf8 s" "i < length s" "\<And>j. j \<le> i \<Longrightarrow> i \<le> j + 3 \<Longrightarrow> \<not> rune_start (s ! j)"
  shows False
  using assms
proof (induction s arbitrary: i rule: valid_utf8_runes)
  case (Rune r s)
  show ?case
  proof (cases "i < length r")
    case True
    then have "\<not> rune_start ((r @ s) ! 0)" using Rune.prems(2)[of 0] Rune(1) by (auto simp: rune_bytes_def)
    then show False using Rune(1) by (auto simp: rune_bytes_def nth_append hd_conv_nth)
  next
    case False
    show False
    proof (rule Rune.IH)
      show "i - length r < length s" using Rune.prems(1) False by auto
      show "\<not> rune_start (s ! j)" if "j \<le> i - length r" "i - length r \<le> j + 3" for j
        using Rune.prems(2)[of "j + length r"] that False by (auto simp: nth_append)
    qed
  qed
qed simp

end
