(* ===== verification/Ttl_Cache.thy ===== *)
theory Ttl_Cache
  imports Prelude
begin

text \<open>
  What the two caches of \<open>internal/server/grpcapi\<close> (certificate verdicts and probe assignments)
  promise the requests that go through them. Requests run concurrently: one looks its key up when
  it begins, and when that misses, fetches from the database and stores the answer under the
  instant it began at, with other requests' steps in between. \<open>cache_step\<close> is that interleaving;
  the locale states the contract of a cache and proves, once, how old an answer can be.

  \<open>fetch k t0 t v\<close> says that a fetch for \<open>k\<close> that ran between \<open>t0\<close> and \<open>t\<close> may have read \<open>v\<close>,
  \<open>proved k t v\<close> that \<open>v\<close> was established for \<open>k\<close> at \<open>t\<close> by a check that bypasses the cache.
\<close>

section \<open>Concurrent requests through a cache\<close>

datatype ('k, 'v) request = Fetching 'k gtime | Fetched 'k gtime 'v

record ('c, 'k, 'v) cache_sys =
  cs_now :: gtime
  cs_cache :: 'c
  cs_open :: "('k, 'v) request list"
  cs_answers :: "('k \<times> gtime \<times> 'v) list"

inductive cache_step ::
  "('c \<Rightarrow> 'k \<Rightarrow> gtime \<Rightarrow> 'v option) \<Rightarrow> ('c \<Rightarrow> 'k \<Rightarrow> 'v \<Rightarrow> gtime \<Rightarrow> 'c) \<Rightarrow> ('k \<Rightarrow> gtime \<Rightarrow> gtime \<Rightarrow> 'v \<Rightarrow> bool)
   \<Rightarrow> ('k \<Rightarrow> gtime \<Rightarrow> 'v \<Rightarrow> bool) \<Rightarrow> ('c, 'k, 'v) cache_sys \<Rightarrow> ('c, 'k, 'v) cache_sys \<Rightarrow> bool"
  for lookup put fetch proved where
  cache_tick: "cs_now s \<le> t \<Longrightarrow> cache_step lookup put fetch proved s (s\<lparr>cs_now := t\<rparr>)"
| cache_hit: "lookup (cs_cache s) k (cs_now s) = Some v \<Longrightarrow>
    cache_step lookup put fetch proved s (s\<lparr>cs_answers := (k, cs_now s, v) # cs_answers s\<rparr>)"
| cache_miss: "lookup (cs_cache s) k (cs_now s) = None \<Longrightarrow>
    cache_step lookup put fetch proved s (s\<lparr>cs_open := Fetching k (cs_now s) # cs_open s\<rparr>)"
| cache_fetch: "cs_open s = xs @ Fetching k t0 # ys \<Longrightarrow> fetch k t0 (cs_now s) v \<Longrightarrow>
    cache_step lookup put fetch proved s (s\<lparr>cs_open := xs @ Fetched k t0 v # ys\<rparr>)"
| cache_error: "cs_open s = xs @ Fetching k t0 # ys \<Longrightarrow>
    cache_step lookup put fetch proved s (s\<lparr>cs_open := xs @ ys\<rparr>)"
| cache_store: "cs_open s = xs @ Fetched k t0 v # ys \<Longrightarrow>
    cache_step lookup put fetch proved s
      (s\<lparr>cs_open := xs @ ys, cs_cache := put (cs_cache s) k v t0, cs_answers := (k, t0, v) # cs_answers s\<rparr>)"
| cache_note: "proved k t v \<Longrightarrow> t \<le> cs_now s \<Longrightarrow>
    cache_step lookup put fetch proved s (s\<lparr>cs_cache := put (cs_cache s) k v (cs_now s)\<rparr>)"

inductive_cases cache_stepE: "cache_step lookup put fetch proved s s'"

definition cache_start :: "'c \<Rightarrow> gtime \<Rightarrow> ('c, 'k, 'v) cache_sys" where
  "cache_start c t = \<lparr>cs_now = t, cs_cache = c, cs_open = [], cs_answers = []\<rparr>"

section \<open>The contract\<close>

locale ttl_cache =
  fixes empty :: 'c
    and lookup :: "'c \<Rightarrow> 'k \<Rightarrow> gtime \<Rightarrow> 'v option"
    and put :: "'c \<Rightarrow> 'k \<Rightarrow> 'v \<Rightarrow> gtime \<Rightarrow> 'c"
    and ttl :: duration
  assumes lookup_empty: "lookup empty k t = None"
    and lookup_put_same: "lookup (put c k v t) k t' = (if t' \<le> t + ttl then Some v else None)"
    and lookup_put_other: "k' \<noteq> k \<Longrightarrow> lookup (put c k v t) k' t' = Some v' \<Longrightarrow> lookup c k' t' = Some v'"
    and lookup_put_keeps: "k' \<noteq> k \<Longrightarrow> t \<le> t' \<Longrightarrow> lookup c k' t' = Some v' \<Longrightarrow> lookup (put c k v t) k' t' = Some v'"
begin

text \<open>A value is backed at \<open>t\<close> when a fetch not older than the time to live, or a proof of it, gave it.\<close>

definition backed :: "('k \<Rightarrow> gtime \<Rightarrow> gtime \<Rightarrow> 'v \<Rightarrow> bool) \<Rightarrow> ('k \<Rightarrow> gtime \<Rightarrow> 'v \<Rightarrow> bool) \<Rightarrow> 'k \<Rightarrow> gtime \<Rightarrow> 'v \<Rightarrow> bool" where
  "backed fetch proved k t v \<longleftrightarrow> (\<exists>t0 t1. fetch k t0 t1 v \<and> t \<le> t0 + ttl) \<or> (\<exists>t1. proved k t1 v)"

definition sound :: "('k \<Rightarrow> gtime \<Rightarrow> gtime \<Rightarrow> 'v \<Rightarrow> bool) \<Rightarrow> ('k \<Rightarrow> gtime \<Rightarrow> 'v \<Rightarrow> bool) \<Rightarrow> ('c, 'k, 'v) cache_sys \<Rightarrow> bool" where
  "sound fetch proved s \<longleftrightarrow>
     (\<forall>k t v. lookup (cs_cache s) k t = Some v \<longrightarrow> backed fetch proved k t v)
   \<and> (\<forall>k t0 v. Fetched k t0 v \<in> set (cs_open s) \<longrightarrow> (\<exists>t1. fetch k t0 t1 v))
   \<and> (\<forall>(k, t, v)\<in>set (cs_answers s). backed fetch proved k t v)"

lemma backed_put:
  assumes "\<And>k t v. lookup c k t = Some v \<Longrightarrow> backed fetch proved k t v"
    and "\<And>t'. t' \<le> t + ttl \<Longrightarrow> backed fetch proved k t' v"
  shows "lookup (put c k v t) k' t' = Some v' \<Longrightarrow> backed fetch proved k' t' v'"
  using assms lookup_put_other[of k' k c v t t' v'] by (cases "k' = k") (auto simp: lookup_put_same split: if_splits)

lemma sound_step:
  assumes "cache_step lookup put fetch proved s s'" "sound fetch proved s" "0 \<le> ttl"
  shows "sound fetch proved s'"
  using assms
proof cases
  case (cache_store xs k t0 v ys)
  then have "Fetched k t0 v \<in> set (cs_open s)" by simp
  then obtain t1 where t1: "fetch k t0 t1 v" using assms(2) unfolding sound_def by blast
  then have now: "backed fetch proved k t' v" if "t' \<le> t0 + ttl" for t'
    using that by (auto simp: backed_def)
  have "backed fetch proved k' t' v'" if "lookup (put (cs_cache s) k v t0) k' t' = Some v'" for k' t' v'
    using backed_put[OF _ now that] assms(2) by (auto simp: sound_def)
  moreover have "backed fetch proved k t0 v" using now[of t0] assms(3) by simp
  ultimately show ?thesis using assms(2) cache_store by (auto simp: sound_def)
next
  case (cache_note k t v)
  then have now: "backed fetch proved k t' v" for t' by (auto simp: backed_def)
  have "backed fetch proved k' t' v'" if "lookup (put (cs_cache s) k v (cs_now s)) k' t' = Some v'" for k' t' v'
    using backed_put[OF _ now that] assms(2) by (auto simp: sound_def)
  then show ?thesis using assms(2) cache_note by (auto simp: sound_def)
qed (auto simp: sound_def)

lemma sound_reachable:
  assumes "(cache_step lookup put fetch proved)\<^sup>*\<^sup>* (cache_start empty t) s" "0 \<le> ttl"
  shows "sound fetch proved s"
  using assms(1)
proof (induction rule: rtranclp_induct)
  case base
  then show ?case by (simp add: sound_def cache_start_def lookup_empty)
qed (rule sound_step[OF _ _ assms(2)])

text \<open>A request gets an answer that was read from the source within the time to live before it began.\<close>

lemma answer_backed:
  assumes "(cache_step lookup put fetch proved)\<^sup>*\<^sup>* (cache_start empty t0) s" "0 \<le> ttl" "(k, t, v) \<in> set (cs_answers s)"
  shows "backed fetch proved k t v"
  using sound_reachable[OF assms(1,2)] assms(3) by (auto simp: sound_def)

lemma lookup_backed:
  assumes "(cache_step lookup put fetch proved)\<^sup>*\<^sup>* (cache_start empty t0) s" "0 \<le> ttl" "lookup (cs_cache s) k t = Some v"
  shows "backed fetch proved k t v"
  using sound_reachable[OF assms(1,2)] assms(3) by (auto simp: sound_def)

end

end
