(* ===== verification/Enrollment.thy ===== *)
theory Enrollment
  imports Go_Strings
begin

text \<open>
  Enrolment, renewal and revocation of agents in the store
  (\<open>internal/server/store/enrollment.go\<close>, \<open>tokens.go\<close>), each operation as it acts on the committed
  tables when it runs alone; theory \<open>Enrollment_Tx\<close> interleaves their statements.

  A table is a map from its primary key (\<open>certificates\<close> an association list, as it is searched). Random identifiers (\<open>uuid.New\<close>), the signed certificate
  (the \<open>issue\<close> callback) and the clock are arguments. \<open>parse_uuid\<close> and \<open>sha256\<close> stand for
  \<open>uuid.Parse\<close> and \<open>sha256.Sum256\<close>. A failing statement aborts its transaction and changes nothing:
  that is a step of the interleaved system, not a branch here.
\<close>

section \<open>Tables\<close>

record token_row =
  tk_secret_hash :: "byte list"
  tk_site :: uuid
  tk_network :: uuid
  tk_expires :: gtime
  tk_used_at :: "gtime option"
  tk_used_by :: "uuid option"
  tk_used_csr :: "byte list"

record agent_row =
  ar_site :: uuid
  ar_network :: uuid
  ar_hostname :: string
  ar_probe_address :: string
  ar_version :: string

record cert_row =
  cr_agent :: uuid
  cr_not_before :: gtime
  cr_not_after :: gtime
  cr_revoked_at :: "gtime option"

text \<open>Serials are the keys of \<open>certificates\<close>; an agent's target row is named after its agent.\<close>

record enroll_db =
  ed_tokens :: "uuid \<rightharpoonup> token_row"
  ed_agents :: "uuid \<rightharpoonup> agent_row"
  ed_targets :: "uuid list"
  ed_certs :: "(nat \<times> cert_row) list"

record issued_cert =
  ic_serial :: nat
  ic_not_before :: gtime
  ic_not_after :: gtime

datatype enroll_error = TokenInvalid | EnrollRevoked | CertRevoked | NotFound | Conflict | StatementFailed

section \<open>Tokens\<close>

text \<open>\<open>strings.Cut\<close> at the first dot.\<close>

definition splitToken :: "(string \<Rightarrow> uuid option) \<Rightarrow> string \<Rightarrow> (uuid \<times> string) option" where
  "splitToken parse_uuid token =
     (let idStr = takeWhile (\<lambda>c. c \<noteq> CHR ''.'') token; rest = dropWhile (\<lambda>c. c \<noteq> CHR ''.'') token
      in case rest of
           [] \<Rightarrow> None
         | _ # secret \<Rightarrow>
             if secret = '''' then None
             else case parse_uuid idStr of None \<Rightarrow> None | Some i \<Rightarrow> Some (i, secret))"

text \<open>The cleartext form of a token, shown once.\<close>

definition token_text :: "(uuid \<Rightarrow> string) \<Rightarrow> uuid \<Rightarrow> string \<Rightarrow> string" where
  "token_text uuid_str i secret = uuid_str i @ ''.'' @ secret"

definition CreateJoinToken ::
  "(string \<Rightarrow> byte list) \<Rightarrow> (uuid \<Rightarrow> string) \<Rightarrow> uuid \<Rightarrow> string \<Rightarrow> gtime \<Rightarrow> uuid \<Rightarrow> uuid \<Rightarrow> duration \<Rightarrow> enroll_db
   \<Rightarrow> enroll_error + (string \<times> enroll_db)" where
  "CreateJoinToken sha256 uuid_str i secret now siteID networkID ttl db =
     (if ed_tokens db i \<noteq> None then Inl StatementFailed
      else Inr (token_text uuid_str i secret,
        db\<lparr>ed_tokens := (ed_tokens db)(i \<mapsto>
          \<lparr>tk_secret_hash = sha256 secret, tk_site = siteID, tk_network = networkID, tk_expires = now + ttl,
           tk_used_at = None, tk_used_by = None, tk_used_csr = []\<rparr>)\<rparr>))"

definition DeleteJoinToken :: "uuid \<Rightarrow> uuid list option \<Rightarrow> enroll_db \<Rightarrow> enroll_error + enroll_db" where
  "DeleteJoinToken i scope db =
     (case ed_tokens db i of
        None \<Rightarrow> Inl NotFound
      | Some tk \<Rightarrow>
          if (case scope of None \<Rightarrow> False | Some ns \<Rightarrow> tk_network tk \<notin> set ns) then Inl NotFound
          else if tk_used_at tk \<noteq> None then Inl Conflict
          else Inr (db\<lparr>ed_tokens := (ed_tokens db)(i := None)\<rparr>))"

section \<open>Certificates\<close>

definition certValid :: "enroll_db \<Rightarrow> gtime \<Rightarrow> nat \<Rightarrow> uuid \<Rightarrow> bool" where
  "certValid db now serial agentID \<longleftrightarrow>
     (case map_of (ed_certs db) serial of
        None \<Rightarrow> False
      | Some c \<Rightarrow> cr_agent c = agentID \<and> cr_revoked_at c = None \<and> cr_not_before c \<le> now \<and> now \<le> cr_not_after c)"

text \<open>\<open>INSERT INTO certificates\<close>; the serial is the primary key.\<close>

definition add_cert :: "uuid \<Rightarrow> issued_cert \<Rightarrow> enroll_db \<Rightarrow> enroll_db" where
  "add_cert agentID c db = db\<lparr>ed_certs := ed_certs db @ [(ic_serial c,
     \<lparr>cr_agent = agentID, cr_not_before = ic_not_before c, cr_not_after = ic_not_after c, cr_revoked_at = None\<rparr>)]\<rparr>"

definition record_cert :: "uuid \<Rightarrow> issued_cert \<Rightarrow> enroll_db \<Rightarrow> enroll_error + enroll_db" where
  "record_cert agentID c db =
     (if map_of (ed_certs db) (ic_serial c) \<noteq> None then Inl StatementFailed else Inr (add_cert agentID c db))"

definition agent_has_revoked :: "enroll_db \<Rightarrow> uuid \<Rightarrow> bool" where
  "agent_has_revoked db agentID = list_ex (\<lambda>(serial, c). cr_agent c = agentID \<and> cr_revoked_at c \<noteq> None) (ed_certs db)"

definition RenewCertificate :: "gtime \<Rightarrow> uuid \<Rightarrow> nat \<Rightarrow> issued_cert option \<Rightarrow> enroll_db \<Rightarrow> enroll_error + enroll_db" where
  "RenewCertificate now agentID oldSerial issue db =
     (if ed_agents db agentID = None then Inl CertRevoked
      else if \<not> certValid db now oldSerial agentID then Inl CertRevoked
      else case issue of
        None \<Rightarrow> Inl StatementFailed
      | Some cert \<Rightarrow> record_cert agentID cert db)"

text \<open>
  The two \<open>UPDATE\<close> statements of revocation: \<open>live_serials\<close> are the rows the condition of the
  agent-wide one selects.
\<close>

definition revoke_serials :: "gtime \<Rightarrow> nat list \<Rightarrow> enroll_db \<Rightarrow> enroll_db" where
  "revoke_serials now ss db =
     db\<lparr>ed_certs := map (\<lambda>(serial, c). (serial, if serial \<in> set ss then c\<lparr>cr_revoked_at := Some now\<rparr> else c)) (ed_certs db)\<rparr>"

definition live_serials :: "enroll_db \<Rightarrow> uuid \<Rightarrow> nat list" where
  "live_serials db agentID = map fst (filter (\<lambda>(serial, c). cr_agent c = agentID \<and> cr_revoked_at c = None) (ed_certs db))"

text \<open>The result is the agent; how many live certificates it has left is only reported.\<close>

definition RevokeCertificate :: "gtime \<Rightarrow> nat \<Rightarrow> enroll_db \<Rightarrow> enroll_error + (uuid \<times> enroll_db)" where
  "RevokeCertificate now serial db =
     (case map_of (ed_certs db) serial of
        None \<Rightarrow> Inl NotFound
      | Some c \<Rightarrow>
          if ed_agents db (cr_agent c) = None then Inl NotFound
          else if cr_revoked_at c \<noteq> None then Inl NotFound
          else Inr (cr_agent c, revoke_serials now [serial] db))"

text \<open>The result is the list of serials revoked.\<close>

definition RevokeAgentCertificates :: "gtime \<Rightarrow> uuid \<Rightarrow> enroll_db \<Rightarrow> enroll_error + (nat list \<times> enroll_db)" where
  "RevokeAgentCertificates now agentID db =
     (if ed_agents db agentID = None then Inl NotFound
      else Inr (live_serials db agentID, revoke_serials now (live_serials db agentID) db))"

section \<open>EnrollAgent\<close>

record enroll_req =
  eq_token :: string
  eq_hostname :: string
  eq_probe_address :: string
  eq_version :: string
  eq_csr_hash :: "byte list"

text \<open>The checks on the token row; \<open>Inr None\<close> is a first use, \<open>Inr (Some a)\<close> a replay for agent \<open>a\<close>.\<close>

definition token_use :: "(string \<Rightarrow> byte list) \<Rightarrow> gtime \<Rightarrow> string \<Rightarrow> byte list \<Rightarrow> token_row \<Rightarrow> enroll_error + uuid option" where
  "token_use sha256 now secret csrHash tk =
     (if tk_secret_hash tk \<noteq> sha256 secret \<or> now > tk_expires tk then Inl TokenInvalid
      else case tk_used_at tk of
        None \<Rightarrow> Inr None
      | Some t \<Rightarrow>
          (case tk_used_by tk of
             None \<Rightarrow> Inl TokenInvalid
           | Some a \<Rightarrow> if tk_used_csr tk = [] \<or> tk_used_csr tk \<noteq> csrHash then Inl TokenInvalid else Inr (Some a)))"

text \<open>The three writes of a first enrolment: the agent, its target, the token.\<close>

definition add_agent :: "gtime \<Rightarrow> uuid \<Rightarrow> token_row \<Rightarrow> uuid \<Rightarrow> enroll_req \<Rightarrow> enroll_db \<Rightarrow> enroll_db" where
  "add_agent dbnow tokenID tk agentID req db =
     db\<lparr>ed_agents := (ed_agents db)(agentID \<mapsto>
          \<lparr>ar_site = tk_site tk, ar_network = tk_network tk, ar_hostname = eq_hostname req,
           ar_probe_address = eq_probe_address req, ar_version = eq_version req\<rparr>),
        ed_targets := agentID # ed_targets db,
        ed_tokens := (ed_tokens db)(tokenID \<mapsto>
          tk\<lparr>tk_used_at := Some dbnow, tk_used_by := Some agentID, tk_used_csr := eq_csr_hash req\<rparr>)\<rparr>"

definition create_agent :: "gtime \<Rightarrow> uuid \<Rightarrow> token_row \<Rightarrow> uuid \<Rightarrow> enroll_req \<Rightarrow> enroll_db \<Rightarrow> enroll_error + enroll_db" where
  "create_agent dbnow tokenID tk agentID req db =
     (if ed_agents db agentID \<noteq> None \<or> agentID \<in> set (ed_targets db) then Inl StatementFailed
      else Inr (add_agent dbnow tokenID tk agentID req db))"

text \<open>\<open>now\<close> is the server's clock, \<open>dbnow\<close> the transaction's; \<open>fresh\<close> is the UUID a first use takes.\<close>

definition EnrollAgent ::
  "(string \<Rightarrow> uuid option) \<Rightarrow> (string \<Rightarrow> byte list) \<Rightarrow> gtime \<Rightarrow> gtime \<Rightarrow> uuid \<Rightarrow> (uuid \<Rightarrow> issued_cert option) \<Rightarrow> enroll_req \<Rightarrow> enroll_db
   \<Rightarrow> enroll_error + (uuid \<times> uuid \<times> enroll_db)" where
  "EnrollAgent parse_uuid sha256 now dbnow fresh issue req db =
     (case splitToken parse_uuid (eq_token req) of
        None \<Rightarrow> Inl TokenInvalid
      | Some (tokenID, secret) \<Rightarrow>
          (case ed_tokens db tokenID of
             None \<Rightarrow> Inl TokenInvalid
           | Some tk \<Rightarrow>
               (case token_use sha256 now secret (eq_csr_hash req) tk of
                  Inl e \<Rightarrow> Inl e
                | Inr use1 \<Rightarrow>
                    (case (case use1 of
                             Some agentID \<Rightarrow>
                               if ed_agents db agentID = None then Inl StatementFailed
                               else if agent_has_revoked db agentID then Inl EnrollRevoked
                               else Inr (agentID, db)
                           | None \<Rightarrow>
                               (case create_agent dbnow tokenID tk fresh req db of
                                  Inl e \<Rightarrow> Inl e
                                | Inr db \<Rightarrow> Inr (fresh, db))) of
                       Inl e \<Rightarrow> Inl e
                     | Inr (agentID, db) \<Rightarrow>
                         (case issue agentID of
                            None \<Rightarrow> Inl StatementFailed
                          | Some cert \<Rightarrow>
                              (case record_cert agentID cert db of
                                 Inl e \<Rightarrow> Inl e
                               | Inr db \<Rightarrow> Inr (agentID, tk_site tk, db)))))))"

end
