(* ===== verification/Grpc_Auth.thy ===== *)
theory Grpc_Auth
  imports Ttl_Cache Enrollment Audit_Log "HOL-Library.Finite_Map"
begin

text \<open>
  Agent authentication and the credential calls of the agent-facing service
  (\<open>internal/server/grpcapi/auth.go\<close>, \<open>Enroll\<close> and \<open>RenewCert\<close> of \<open>server.go\<close>, the identity in a
  certificate of \<open>internal/server/ca/ca.go\<close>). A handler is a function of the connection, the clock,
  the cache and what the database answers; it returns its status or response, the cache and the
  audit events it emitted, in order. \<open>parse_uuid\<close> and \<open>uuid_str\<close> stand for \<open>uuid.Parse\<close> and
  \<open>UUID.String\<close>; signing (\<open>SignAgentCSR\<close>) and CSR validation are X.509 and are parameters. Log lines
  that are not audit records are left out.
\<close>

section \<open>Connections and certificates\<close>

record url =
  u_Scheme :: string
  u_Host :: string
  u_Path :: string

record certificate =
  x_SerialNumber :: nat
  x_URIs :: "url list"
  x_CommonName :: string

text \<open>
  What \<open>peer.FromContext\<close> yields: no peer, or an address (absent or its text) and the verified chains
  of a TLS connection (\<open>None\<close> when the connection is not TLS).
\<close>

record peer =
  pe_Addr :: "string option"
  pe_Chains :: "certificate list list option"

type_synonym grpc_ctx = "peer option"

datatype code = Unauthenticated | PermissionDenied | InternalError | InvalidArgument | Unavailable

definition AgentURISAN :: "(uuid \<Rightarrow> string) \<Rightarrow> uuid \<Rightarrow> url" where
  "AgentURISAN uuid_str agentID = \<lparr>u_Scheme = ''polarbeam'', u_Host = ''agent'', u_Path = ''/'' @ uuid_str agentID\<rparr>"

fun agent_id_of :: "(string \<Rightarrow> uuid option) \<Rightarrow> url list \<Rightarrow> uuid option" where
  "agent_id_of parse_uuid [] = None"
| "agent_id_of parse_uuid (u # us) =
     (if u_Scheme u = ''polarbeam'' \<and> u_Host u = ''agent'' \<and> length (u_Path u) > 1 then parse_uuid (tl (u_Path u))
      else agent_id_of parse_uuid us)"

definition AgentIDFromCert :: "(string \<Rightarrow> uuid option) \<Rightarrow> certificate \<Rightarrow> uuid option" where
  "AgentIDFromCert parse_uuid cert = agent_id_of parse_uuid (x_URIs cert)"

text \<open>\<open>net.SplitHostPort\<close>; \<open>None\<close> is its error.\<close>

definition SplitHostPort :: "string \<Rightarrow> (string \<times> string) option" where
  "SplitHostPort s =
     (let port = rev (takeWhile (\<lambda>c. c \<noteq> CHR '':'') (rev s)); i = length s - length port - 1
      in if CHR '':'' \<notin> set s then None
         else if hd s = CHR ''['' then
           (let host = takeWhile (\<lambda>c. c \<noteq> CHR '']'') (tl s)
            in if CHR '']'' \<notin> set s \<or> length host + 2 \<noteq> i then None
               else if CHR ''['' \<in> set (drop 1 s) \<or> CHR '']'' \<in> set (drop (length host + 2) s) then None
               else Some (host, port))
         else if CHR '':'' \<in> set (take i s) \<or> CHR ''['' \<in> set s \<or> CHR '']'' \<in> set s then None
         else Some (take i s, port))"

definition peerHost :: "grpc_ctx \<Rightarrow> string" where
  "peerHost ctx =
     (case ctx of
        None \<Rightarrow> ''''
      | Some p \<Rightarrow>
          (case pe_Addr p of
             None \<Rightarrow> ''''
           | Some a \<Rightarrow> (case SplitHostPort a of Some (host, port) \<Rightarrow> host | None \<Rightarrow> a)))"

definition agentActor :: "(uuid \<Rightarrow> string) \<Rightarrow> uuid \<Rightarrow> Actor" where
  "agentActor uuid_str i = \<lparr>a_User = uuid_str i, a_Source = ''agent'', a_Session = ''''\<rparr>"

definition no_actor :: Actor where
  "no_actor = \<lparr>a_User = '''', a_Source = '''', a_Session = ''''\<rparr>"

section \<open>The certificate cache\<close>

definition certCacheTTL :: duration where "certCacheTTL = 30 * second"

type_synonym cert_key = "uuid \<times> nat"

record cert_entry =
  ce_valid :: bool
  ce_expires :: gtime

type_synonym cert_cache = "(cert_key, cert_entry) fmap"

definition cert_lookup :: "cert_cache \<Rightarrow> cert_key \<Rightarrow> gtime \<Rightarrow> bool option" where
  "cert_lookup c k now =
     (case fmlookup c k of
        None \<Rightarrow> None
      | Some e \<Rightarrow> if now > ce_expires e then None else Some (ce_valid e))"

definition cert_sweep :: "cert_cache \<Rightarrow> gtime \<Rightarrow> cert_cache" where
  "cert_sweep c now =
     (if fcard (fmdom c) > 4096
      then fmfilter (\<lambda>k. case fmlookup c k of None \<Rightarrow> False | Some e \<Rightarrow> \<not> now > ce_expires e) c else c)"

definition cert_put :: "cert_cache \<Rightarrow> cert_key \<Rightarrow> bool \<Rightarrow> gtime \<Rightarrow> cert_cache" where
  "cert_put c k valid now = fmupd k \<lparr>ce_valid = valid, ce_expires = now + certCacheTTL\<rparr> (cert_sweep c now)"

text \<open>
  \<open>certValidCached\<close>; \<open>fetch\<close> is what the database answers if it is asked, \<open>None\<close> its error. Both
  outcomes are cached, an error is not.
\<close>

definition certValidCached :: "cert_cache \<Rightarrow> gtime \<Rightarrow> bool option \<Rightarrow> nat \<Rightarrow> uuid \<Rightarrow> bool option \<times> cert_cache" where
  "certValidCached c now fetch serial agentID =
     (case cert_lookup c (agentID, serial) now of
        Some valid \<Rightarrow> (Some valid, c)
      | None \<Rightarrow>
          (case fetch of
             None \<Rightarrow> (None, c)
           | Some valid \<Rightarrow> (Some valid, cert_put c (agentID, serial) valid now)))"

record agent_identity =
  id_AgentID :: uuid
  id_Cert :: certificate

definition cacheRevoked :: "agent_identity \<Rightarrow> gtime \<Rightarrow> cert_cache \<Rightarrow> cert_cache" where
  "cacheRevoked i now c = cert_put c (id_AgentID i, x_SerialNumber (id_Cert i)) False now"

section \<open>authenticateAgent\<close>

definition auth_refused :: "(uuid \<Rightarrow> string) \<Rightarrow> grpc_ctx \<Rightarrow> uuid \<Rightarrow> string \<Rightarrow> audit_event" where
  "auth_refused uuid_str ctx agentID reason =
     \<lparr>ev_ID = EventAgentAuth, ev_Msg = ''agent authentication refused'', ev_Outcome = Denied,
      ev_Actor = (if agentID \<noteq> 0 then agentActor uuid_str agentID else no_actor), ev_Remote = peerHost ctx, ev_At = 0,
      ev_Attrs = (''reason'', reason) # (if agentID \<noteq> 0 then [(''agent'', uuid_str agentID)] else [])\<rparr>"

definition authenticateAgent ::
  "(string \<Rightarrow> uuid option) \<Rightarrow> (uuid \<Rightarrow> string) \<Rightarrow> grpc_ctx \<Rightarrow> gtime \<Rightarrow> (nat \<Rightarrow> uuid \<Rightarrow> bool option) \<Rightarrow> cert_cache
   \<Rightarrow> (code + agent_identity) \<times> cert_cache \<times> audit_event list" where
  "authenticateAgent parse_uuid uuid_str ctx now fetch c =
     (case ctx of
        None \<Rightarrow> (Inl Unauthenticated, c, [auth_refused uuid_str ctx 0 ''no_peer''])
      | Some p \<Rightarrow>
          (case pe_Chains p of
             Some ((leaf # _) # _) \<Rightarrow>
               (case AgentIDFromCert parse_uuid leaf of
                  None \<Rightarrow> (Inl PermissionDenied, c, [auth_refused uuid_str ctx 0 ''not_agent_certificate''])
                | Some agentID \<Rightarrow>
                    (case certValidCached c now (fetch (x_SerialNumber leaf) agentID) (x_SerialNumber leaf) agentID of
                       (None, c) \<Rightarrow> (Inl InternalError, c, [])
                     | (Some False, c) \<Rightarrow> (Inl PermissionDenied, c, [auth_refused uuid_str ctx agentID ''revoked_or_unknown''])
                     | (Some True, c) \<Rightarrow> (Inr \<lparr>id_AgentID = agentID, id_Cert = leaf\<rparr>, c, [])))
           | _ \<Rightarrow> (Inl Unauthenticated, c, [auth_refused uuid_str ctx 0 ''no_client_certificate''])))"

section \<open>Enroll\<close>

record enroll_call =
  ec_JoinToken :: string
  ec_CsrDer :: "byte list"
  ec_Hostname :: string
  ec_ProbeAddress :: string
  ec_AgentVersion :: string

record enroll_response =
  er_AgentId :: string
  er_CertDer :: "byte list"
  er_NotAfter :: gtime

text \<open>What signing yields: the encoded certificate, its serial and the end of its validity.\<close>

type_synonym signing = "byte list \<times> nat \<times> gtime"

definition enroll_event :: "Outcome \<Rightarrow> string \<Rightarrow> Actor \<Rightarrow> string \<Rightarrow> attr list \<Rightarrow> audit_event" where
  "enroll_event outcome msg actor remote attrs =
     \<lparr>ev_ID = EventAgentEnroll, ev_Msg = msg, ev_Outcome = outcome, ev_Actor = actor, ev_Remote = remote, ev_At = 0, ev_Attrs = attrs\<rparr>"

definition enroll_refused :: "enroll_call \<Rightarrow> string \<Rightarrow> Outcome \<Rightarrow> string \<Rightarrow> audit_event" where
  "enroll_refused req remote outcome reason =
     enroll_event outcome ''enrollment refused'' no_actor remote [(''hostname'', ec_Hostname req), (''reason'', reason)]"

text \<open>The address peers probe: the one given, else the observed source (which gRPC always has).\<close>

definition enroll_address :: "grpc_ctx \<Rightarrow> enroll_call \<Rightarrow> string" where
  "enroll_address ctx req =
     (if ec_ProbeAddress req \<noteq> '''' then ec_ProbeAddress req
      else case ctx of
        None \<Rightarrow> ''''
      | Some p \<Rightarrow>
          (case pe_Addr p of
             None \<Rightarrow> ''''
           | Some a \<Rightarrow> (case SplitHostPort a of Some (host, port) \<Rightarrow> host | None \<Rightarrow> '''')))"

definition cert_of_signing :: "gtime \<Rightarrow> signing \<Rightarrow> issued_cert" where
  "cert_of_signing now sg = \<lparr>ic_serial = fst (snd sg), ic_not_before = now - 5 * minute, ic_not_after = snd (snd sg)\<rparr>"

text \<open>The store call of the handler: its error, or the agent and site with the new tables.\<close>

definition enroll_store ::
  "(string \<Rightarrow> uuid option) \<Rightarrow> (string \<Rightarrow> byte list) \<Rightarrow> (byte list \<Rightarrow> byte list) \<Rightarrow> gtime \<Rightarrow> gtime \<Rightarrow> uuid
   \<Rightarrow> (byte list \<Rightarrow> uuid \<Rightarrow> string \<Rightarrow> signing option) \<Rightarrow> grpc_ctx \<Rightarrow> enroll_call \<Rightarrow> enroll_db
   \<Rightarrow> enroll_error + (uuid \<times> uuid \<times> enroll_db)" where
  "enroll_store parse_uuid sha256 csr_sum now dbnow fresh sign ctx req db =
     EnrollAgent parse_uuid sha256 now dbnow fresh
       (\<lambda>agentID. map_option (cert_of_signing now) (sign (ec_CsrDer req) agentID (ec_Hostname req)))
       \<lparr>eq_token = ec_JoinToken req, eq_hostname = ec_Hostname req, eq_probe_address = enroll_address ctx req,
        eq_version = ec_AgentVersion req, eq_csr_hash = csr_sum (ec_CsrDer req)\<rparr> db"

definition enrolled_attrs :: "(uuid \<Rightarrow> string) \<Rightarrow> grpc_ctx \<Rightarrow> enroll_call \<Rightarrow> uuid \<Rightarrow> uuid \<Rightarrow> attr list" where
  "enrolled_attrs uuid_str ctx req agentID siteID =
     [(''agent'', uuid_str agentID), (''site'', uuid_str siteID), (''hostname'', ec_Hostname req), (''probe_address'', enroll_address ctx req)]"

definition Enroll ::
  "(string \<Rightarrow> uuid option) \<Rightarrow> (uuid \<Rightarrow> string) \<Rightarrow> (string \<Rightarrow> byte list) \<Rightarrow> (byte list \<Rightarrow> byte list) \<Rightarrow> (byte list \<Rightarrow> bool)
   \<Rightarrow> gtime \<Rightarrow> gtime \<Rightarrow> uuid \<Rightarrow> (byte list \<Rightarrow> uuid \<Rightarrow> string \<Rightarrow> signing option) \<Rightarrow> grpc_ctx \<Rightarrow> enroll_call \<Rightarrow> enroll_db
   \<Rightarrow> (code + enroll_response) \<times> enroll_db \<times> audit_event list" where
  "Enroll parse_uuid uuid_str sha256 csr_sum ValidateCSR now dbnow fresh sign ctx req db =
     (let refused = enroll_refused req (peerHost ctx)
      in if ec_JoinToken req = '''' \<or> ec_CsrDer req = [] then (Inl InvalidArgument, db, [refused Failure ''missing_token_or_csr''])
         else if \<not> ValidateCSR (ec_CsrDer req) then (Inl InvalidArgument, db, [refused Failure ''csr_rejected''])
         else case enroll_store parse_uuid sha256 csr_sum now dbnow fresh sign ctx req db of
           Inl EnrollRevoked \<Rightarrow> (Inl PermissionDenied, db, [refused Denied ''revoked_agent''])
         | Inl TokenInvalid \<Rightarrow> (Inl PermissionDenied, db, [refused Denied ''invalid_or_used_token''])
         | Inl _ \<Rightarrow> (Inl InternalError, db, [refused Failure ''internal''])
         | Inr (agentID, siteID, db') \<Rightarrow>
             (case sign (ec_CsrDer req) agentID (ec_Hostname req) of
                None \<Rightarrow> (Inl InternalError, db, [])
              | Some (der, serial, notAfter) \<Rightarrow>
                  (Inr \<lparr>er_AgentId = uuid_str agentID, er_CertDer = der, er_NotAfter = notAfter\<rparr>, db',
                   [enroll_event Success ''agent enrolled'' (agentActor uuid_str agentID) (peerHost ctx)
                      (enrolled_attrs uuid_str ctx req agentID siteID)])))"

section \<open>RenewCert\<close>

definition renew_event :: "(uuid \<Rightarrow> string) \<Rightarrow> grpc_ctx \<Rightarrow> uuid \<Rightarrow> Outcome \<Rightarrow> string \<Rightarrow> attr list \<Rightarrow> audit_event" where
  "renew_event uuid_str ctx agentID outcome msg attrs =
     \<lparr>ev_ID = EventAgentCertRenew, ev_Msg = msg, ev_Outcome = outcome, ev_Actor = agentActor uuid_str agentID,
      ev_Remote = peerHost ctx, ev_At = 0, ev_Attrs = (''agent'', uuid_str agentID) # attrs\<rparr>"

text \<open>
  The uncached check, the signing and the insert are the store's; \<open>now\<close> is when it checks. A refusal by
  the signer and a failed statement are told apart as in the code: by whether signing failed.
\<close>

definition RenewCert ::
  "(string \<Rightarrow> uuid option) \<Rightarrow> (uuid \<Rightarrow> string) \<Rightarrow> (gtime \<Rightarrow> string) \<Rightarrow> gtime \<Rightarrow> (nat \<Rightarrow> uuid \<Rightarrow> bool option)
   \<Rightarrow> (byte list \<Rightarrow> uuid \<Rightarrow> string \<Rightarrow> signing option) \<Rightarrow> grpc_ctx \<Rightarrow> byte list \<Rightarrow> cert_cache \<Rightarrow> enroll_db
   \<Rightarrow> (code + (byte list \<times> gtime)) \<times> cert_cache \<times> enroll_db \<times> audit_event list" where
  "RenewCert parse_uuid uuid_str time_text now fetch sign ctx csr c db =
     (case authenticateAgent parse_uuid uuid_str ctx now fetch c of
        (Inl e, c, evs) \<Rightarrow> (Inl e, c, db, evs)
      | (Inr i, c, evs) \<Rightarrow>
          (let signed = sign csr (id_AgentID i) (x_CommonName (id_Cert i));
               event = renew_event uuid_str ctx (id_AgentID i)
           in case RenewCertificate now (id_AgentID i) (x_SerialNumber (id_Cert i)) (map_option (cert_of_signing now) signed) db of
                Inl CertRevoked \<Rightarrow>
                  (Inl PermissionDenied, cacheRevoked i now c, db,
                   evs @ [event Denied ''certificate renewal refused'' [(''reason'', ''revoked_or_unknown'')]])
              | Inl _ \<Rightarrow>
                  (case signed of
                     None \<Rightarrow> (Inl InvalidArgument, c, db, evs @ [event Failure ''certificate renewal refused'' [(''reason'', ''csr_rejected'')]])
                   | Some _ \<Rightarrow> (Inl InternalError, c, db, evs @ [event Failure ''certificate renewal refused'' [(''reason'', ''internal'')]]))
              | Inr db' \<Rightarrow>
                  (case signed of
                     None \<Rightarrow> (Inl InternalError, c, db, evs)
                   | Some (der, serial, notAfter) \<Rightarrow>
                       (Inr (der, notAfter), c, db',
                        evs @ [event Success ''certificate renewed'' [(''not_after'', time_text notAfter)]]))))"

section \<open>The cache keeps the contract of a cache\<close>

interpretation certs: ttl_cache fmempty cert_lookup cert_put certCacheTTL
proof
  show "cert_lookup fmempty k t = None" for k t by (simp add: cert_lookup_def)
  show "cert_lookup (cert_put c k v t) k t' = (if t' \<le> t + certCacheTTL then Some v else None)" for c k v t t'
    by (simp add: cert_lookup_def cert_put_def)
  show "k' \<noteq> k \<Longrightarrow> cert_lookup (cert_put c k v t) k' t' = Some v' \<Longrightarrow> cert_lookup c k' t' = Some v'" for k' k c v t t' v'
    by (auto simp: cert_lookup_def cert_put_def cert_sweep_def split: option.splits if_splits)
  show "k' \<noteq> k \<Longrightarrow> t \<le> t' \<Longrightarrow> cert_lookup c k' t' = Some v' \<Longrightarrow> cert_lookup (cert_put c k v t) k' t' = Some v'" for k' k c v t t' v'
    by (auto simp: cert_lookup_def cert_put_def cert_sweep_def split: option.splits if_splits)
qed

end
