(* ===== verification/Ingest.thy ===== *)
theory Ingest
  imports Ingest_Row Agent_Config Grpc_Auth
begin

text \<open>
  Ingestion of result batches (\<open>PushResults\<close> of \<open>internal/server/grpcapi/server.go\<close>): the assignment
  cache and \<open>agentProbeMap\<close> of \<open>ingest.go\<close>, the insert of \<open>internal/server/store/results.go\<close>, the drop
  counters of \<open>enrollment.go\<close>, and the transaction around them and the outage, path and MTU
  bookkeeping.

  The tables one transaction touches are the fields of \<open>ingest_db\<close>; a stage that fails
  (\<open>ie_fault\<close>, or a bookkeeping routine that reports an error) rolls all of them back. The
  bookkeeping keeps instants as the result states them, without the truncation to microseconds the
  \<open>timestamptz\<close> columns apply on storing; the key results are deduplicated by has it.
\<close>

section \<open>Assignments\<close>

definition assignmentCacheTTL :: duration where "assignmentCacheTTL = 30 * second"

type_synonym probe_map = "uuid \<rightharpoonup> probe_assignment"

record assignment_entry =
  ae_probes :: probe_map
  ae_expires :: gtime

type_synonym assignment_cache = "(uuid, assignment_entry) fmap"

definition assignment_lookup :: "assignment_cache \<Rightarrow> uuid \<Rightarrow> gtime \<Rightarrow> probe_map option" where
  "assignment_lookup c agentID now =
     (case fmlookup c agentID of
        None \<Rightarrow> None
      | Some e \<Rightarrow> if now > ae_expires e then None else Some (ae_probes e))"

definition assignment_sweep :: "assignment_cache \<Rightarrow> gtime \<Rightarrow> assignment_cache" where
  "assignment_sweep c now =
     (if fcard (fmdom c) > 4096
      then fmfilter (\<lambda>k. case fmlookup c k of None \<Rightarrow> False | Some e \<Rightarrow> \<not> now > ae_expires e) c else c)"

definition assignment_put :: "assignment_cache \<Rightarrow> uuid \<Rightarrow> probe_map \<Rightarrow> gtime \<Rightarrow> assignment_cache" where
  "assignment_put c agentID probes now = fmupd agentID \<lparr>ae_probes = probes, ae_expires = now + assignmentCacheTTL\<rparr> (assignment_sweep c now)"

definition canonicalPair :: "uuid \<Rightarrow> uuid \<Rightarrow> uuid \<times> uuid" where
  "canonicalPair a b = (if a > b then (b, a) else (a, b))"

text \<open>A row of \<open>path_thresholds\<close>; without a network it applies to every plane.\<close>

record path_threshold =
  pt_SiteAID :: uuid
  pt_SiteBID :: uuid
  pt_NetworkID :: "uuid option"
  pt_Override :: override

text \<open>What the four loads return; \<open>None\<close> is an error. A network without thresholds of its own loads none.\<close>

record assignment_inputs =
  ai_Config :: "agent_inputs option"
  ai_Settings :: "thresholds option"
  ai_Overrides :: "path_threshold list option"
  ai_Network :: "override option option"

definition no_override :: override where
  "no_override = \<lparr>o_LatencyWarnUS = None, o_LatencyCritUS = None, o_LossWarnPct = None, o_LossCritPct = None\<rparr>"

definition pair_layers :: "uuid option \<Rightarrow> path_threshold list \<Rightarrow> uuid \<times> uuid \<rightharpoonup> override" where
  "pair_layers network os =
     foldl (\<lambda>m row. if pt_NetworkID row = network then m((pt_SiteAID row, pt_SiteBID row) \<mapsto> pt_Override row) else m) Map.empty os"

definition target_site :: "agent_inputs \<Rightarrow> uuid \<rightharpoonup> uuid" where
  "target_site inp =
     foldl (\<lambda>m d. case d_DstSiteID d of None \<Rightarrow> m | Some site \<Rightarrow> m(d_TargetID d \<mapsto> site))
       (foldl (\<lambda>m p. m(Meshexpand.p_TargetID p \<mapsto> p_SiteID p)) Map.empty (in_Peers inp)) (in_Direct inp)"

definition probe_layers :: "agent_inputs \<Rightarrow> path_threshold list \<Rightarrow> override option \<Rightarrow> uuid \<Rightarrow> override list" where
  "probe_layers inp os network targetID =
     (case target_site inp targetID of
        None \<Rightarrow> []
      | Some site \<Rightarrow>
          (let key = canonicalPair (in_SiteID inp) site
           in (case pair_layers (Some (in_NetworkID inp)) os key of None \<Rightarrow> [] | Some l \<Rightarrow> [l])
              @ (case pair_layers None os key of None \<Rightarrow> [] | Some l \<Rightarrow> [l])))
     @ [case network of None \<Rightarrow> no_override | Some l \<Rightarrow> l]"

definition assignment_map ::
  "agent_inputs \<Rightarrow> thresholds \<Rightarrow> path_threshold list \<Rightarrow> override option \<Rightarrow> probe_spec list \<Rightarrow> probe_map" where
  "assignment_map inp global os network specs =
     foldl (\<lambda>m spec. m(s_ProbeId spec \<mapsto>
       \<lparr>as_TargetID = t_TargetId (s_Target spec),
        as_Crit = Effective global (probe_layers inp os network (t_TargetId (s_Target spec)))\<rparr>)) Map.empty specs"

definition build_assignments :: "(agent_inputs \<Rightarrow> probe_spec list option) \<Rightarrow> assignment_inputs \<Rightarrow> probe_map option" where
  "build_assignments snapshot_of ai =
     Option.bind (ai_Config ai) (\<lambda>inp.
     Option.bind (snapshot_of inp) (\<lambda>specs.
     Option.bind (ai_Settings ai) (\<lambda>global.
     Option.bind (ai_Overrides ai) (\<lambda>os.
     Option.bind (ai_Network ai) (\<lambda>network. Some (assignment_map inp global os network specs))))))"

text \<open>The probes of a snapshot; \<open>None\<close> when the expansion fails.\<close>

definition snapshot_probes ::
  "(uuid \<Rightarrow> string \<Rightarrow> uuid) \<Rightarrow> (uuid \<Rightarrow> string) \<Rightarrow> (probe_spec \<Rightarrow> byte list option) \<Rightarrow> (byte list \<Rightarrow> string) \<Rightarrow> agent_inputs
   \<Rightarrow> probe_spec list option" where
  "snapshot_probes new_sha1 uuid_str marshal sha256 inp =
     (case BuildSnapshot new_sha1 uuid_str marshal sha256 inp of Inl e \<Rightarrow> None | Inr snap \<Rightarrow> Some (c_Probes snap))"

definition agentProbeMap ::
  "(agent_inputs \<Rightarrow> probe_spec list option) \<Rightarrow> assignment_inputs \<Rightarrow> gtime \<Rightarrow> uuid \<Rightarrow> assignment_cache \<Rightarrow> probe_map option \<times> assignment_cache" where
  "agentProbeMap snapshot_of ai now agentID c =
     (case assignment_lookup c agentID now of
        Some m \<Rightarrow> (Some m, c)
      | None \<Rightarrow>
          (case build_assignments snapshot_of ai of
             None \<Rightarrow> (None, c)
           | Some m \<Rightarrow> (Some m, assignment_put c agentID m now)))"

section \<open>The insert\<close>

type_synonym result_table = "uuid \<times> uuid \<times> int \<rightharpoonup> result_row"

text \<open>\<open>UnixMicro\<close>; also the resolution of the column.\<close>

definition unix_micro :: "gtime \<Rightarrow> int" where
  "unix_micro t = (t - epoch) div 1000"

definition row_key :: "uuid \<Rightarrow> result_row \<Rightarrow> uuid \<times> uuid \<times> int" where
  "row_key agent r = (agent, rw_ProbeID r, unix_micro (rw_Time r))"

text \<open>
  \<open>INSERT \<dots> ON CONFLICT DO NOTHING RETURNING\<close>: a row whose key is taken, in the table or earlier in the
  batch, is skipped. The keys of the rows that went in are returned.
\<close>

fun insert_rows :: "uuid \<Rightarrow> result_row list \<Rightarrow> result_table \<Rightarrow> (uuid \<times> uuid \<times> int) list \<times> result_table" where
  "insert_rows agent [] tbl = ([], tbl)"
| "insert_rows agent (r # rs) tbl =
     (if tbl (row_key agent r) \<noteq> None then insert_rows agent rs tbl
      else (let (ks, tbl) = insert_rows agent rs (tbl(row_key agent r \<mapsto> r)) in (row_key agent r # ks, tbl)))"

text \<open>The returned keys mapped back to input rows; a key is used up by the first row that has it.\<close>

fun rows_of_keys :: "uuid \<Rightarrow> result_row list \<Rightarrow> (uuid \<times> uuid \<times> int) list \<Rightarrow> result_row list" where
  "rows_of_keys agent [] ks = []"
| "rows_of_keys agent (r # rs) ks =
     (if row_key agent r \<in> set ks then r # rows_of_keys agent rs (removeAll (row_key agent r) ks) else rows_of_keys agent rs ks)"

definition InsertResultsTx :: "uuid \<Rightarrow> result_row list \<Rightarrow> result_table \<Rightarrow> result_row list \<times> result_table" where
  "InsertResultsTx agent rows tbl =
     (if rows = [] then ([], tbl)
      else (let (ks, tbl) = insert_rows agent rows tbl in (rows_of_keys agent rows ks, tbl)))"

section \<open>Drop accounting\<close>

definition max_int64 :: int where "max_int64 = 9223372036854775807"

record drop_row =
  dr_results :: int
  dr_last_total :: "int option"
  dr_last_at :: "gtime option"

definition clampInt64 :: "u64 \<Rightarrow> int" where
  "clampInt64 n = (if uint n > max_int64 then max_int64 else uint n)"

definition droppedDelta :: "int option \<Rightarrow> int \<Rightarrow> int \<Rightarrow> int \<times> bool" where
  "droppedDelta lst total1 unacked =
     (case lst of
        None \<Rightarrow> (unacked, False)
      | Some l \<Rightarrow> if total1 \<ge> l then (total1 - l, False) else (total1, True))"

text \<open>\<open>dropped_results + LEAST(n, 9223372036854775807 - dropped_results)\<close>.\<close>

definition add_dropped :: "int \<Rightarrow> int \<Rightarrow> int" where
  "add_dropped cur n = cur + min n (max_int64 - cur)"

definition RecordDroppedResultsTx :: "gtime \<Rightarrow> uuid \<Rightarrow> u64 \<Rightarrow> (uuid \<rightharpoonup> drop_row) \<Rightarrow> uuid \<rightharpoonup> drop_row" where
  "RecordDroppedResultsTx now agent n tbl =
     (case tbl agent of
        None \<Rightarrow> tbl
      | Some row \<Rightarrow> tbl(agent \<mapsto> row\<lparr>dr_results := add_dropped (dr_results row) (clampInt64 n), dr_last_at := Some now\<rparr>))"

text \<open>\<open>None\<close> is the error of a missing agent row.\<close>

definition RecordDroppedTotalTx :: "gtime \<Rightarrow> uuid \<Rightarrow> u64 \<Rightarrow> u64 \<Rightarrow> (uuid \<rightharpoonup> drop_row) \<Rightarrow> (int \<times> bool \<times> (uuid \<rightharpoonup> drop_row)) option" where
  "RecordDroppedTotalTx now agent total1 unacked tbl =
     (case tbl agent of
        None \<Rightarrow> None
      | Some row \<Rightarrow>
          (let t = clampInt64 total1;
               (delta, reset) = droppedDelta (dr_last_total row) t (clampInt64 (min unacked total1))
           in if dr_last_total row \<noteq> None \<and> delta = 0 \<and> \<not> reset then Some (0, False, tbl)
              else Some (delta, reset, tbl(agent \<mapsto>
                row\<lparr>dr_results := add_dropped (dr_results row) delta, dr_last_total := Some t,
                    dr_last_at := (if delta > 0 then Some now else dr_last_at row)\<rparr>))))"

section \<open>PushResults\<close>

record push_request =
  pq_Results :: "probe_result list"
  pq_DroppedSinceLastPush :: u64
  pq_DroppedTotal :: "u64 option"

record ingest_db =
  ib_results :: result_table
  ib_drops :: "uuid \<rightharpoonup> drop_row"
  ib_outage :: outage_db
  ib_paths :: "path_event list \<times> path_row watch_table"
  ib_mtus :: "mtu_event list \<times> mtu_row watch_table"

datatype push_stage = StBegin | StDrops | StInsert | StOutage | StPaths | StMtus | StCommit

record ingest_env =
  ie_parse_uuid :: "string \<Rightarrow> uuid option"
  ie_detail_text :: "crit_detail \<Rightarrow> string"
  ie_gen :: "uuid list \<Rightarrow> uuid"
  ie_now :: gtime
  ie_fault :: "push_stage \<Rightarrow> bool"

text \<open>The rows a push is allowed to insert, in order: well-formed and for an assigned (probe, target) pair.\<close>

definition accept_row :: "ingest_env \<Rightarrow> probe_map \<Rightarrow> probe_result \<Rightarrow> result_row option" where
  "accept_row e assigned r =
     (case resultToRow (ie_parse_uuid e) (ie_now e) r of
        Inl err \<Rightarrow> None
      | Inr row \<Rightarrow>
          (case assigned (rw_ProbeID row) of
             None \<Rightarrow> None
           | Some a \<Rightarrow> if as_TargetID a \<noteq> rw_TargetID row then None else Some row))"

definition accept_rows :: "ingest_env \<Rightarrow> probe_map \<Rightarrow> probe_result list \<Rightarrow> result_row list" where
  "accept_rows e assigned rs = List.map_filter (accept_row e assigned) rs"

definition account_drops :: "ingest_env \<Rightarrow> uuid \<Rightarrow> push_request \<Rightarrow> (uuid \<rightharpoonup> drop_row) \<Rightarrow> (uuid \<rightharpoonup> drop_row) option" where
  "account_drops e agent req tbl =
     (case pq_DroppedTotal req of
        Some total1 \<Rightarrow>
          if total1 > 0
          then map_option (snd \<circ> snd) (RecordDroppedTotalTx (ie_now e) agent total1 (pq_DroppedSinceLastPush req) tbl)
          else Some tbl
      | None \<Rightarrow>
          if pq_DroppedSinceLastPush req > 0
          then Some (RecordDroppedResultsTx (ie_now e) agent (pq_DroppedSinceLastPush req) tbl)
          else Some tbl)"

definition stage :: "ingest_env \<Rightarrow> push_stage \<Rightarrow> 'a option \<Rightarrow> 'a option" where
  "stage e st x = (if ie_fault e st then None else x)"

text \<open>The transaction; \<open>None\<close> when a stage fails, and then nothing of it is kept.\<close>

definition push_tx :: "ingest_env \<Rightarrow> uuid \<Rightarrow> probe_map \<Rightarrow> push_request \<Rightarrow> result_row list \<Rightarrow> ingest_db \<Rightarrow> ingest_db option" where
  "push_tx e agent assigned req rows db =
     Option.bind (stage e StBegin (Some ())) (\<lambda>_.
     Option.bind (stage e StDrops (account_drops e agent req (ib_drops db))) (\<lambda>drops.
     Option.bind (stage e StInsert (Some (InsertResultsTx agent rows (ib_results db)))) (\<lambda>(inserted, results).
     Option.bind (stage e StOutage (Apply (ie_gen e) agent (toOutageResults (ie_detail_text e) assigned inserted) (ib_outage db))) (\<lambda>(trs, od).
     Option.bind (stage e StPaths (path_Apply (ie_gen e) agent (toPathRuns inserted) (ib_paths db))) (\<lambda>(pchanges, paths).
     Option.bind (stage e StMtus (mtu_Apply (ie_gen e) agent (toMTURuns inserted) (ib_mtus db))) (\<lambda>(mchanges, mtus).
     stage e StCommit (Some \<lparr>ib_results = results, ib_drops = drops, ib_outage = od, ib_paths = paths, ib_mtus = mtus\<rparr>)))))))"

text \<open>\<open>PushResults\<close> for an authenticated agent whose assignment check has answered; the result is the number accepted.\<close>

definition push_batch :: "ingest_env \<Rightarrow> uuid \<Rightarrow> probe_map option \<Rightarrow> push_request \<Rightarrow> ingest_db \<Rightarrow> (code + nat) \<times> ingest_db" where
  "push_batch e agent assigned req db =
     (if length (pq_Results req) > maxBatchSize then (Inl InvalidArgument, db)
      else case assigned of
        None \<Rightarrow> (Inl Unavailable, db)
      | Some assigned \<Rightarrow>
          (let rows = accept_rows e assigned (pq_Results req)
           in case push_tx e agent assigned req rows db of
                None \<Rightarrow> (Inl Unavailable, db)
              | Some db' \<Rightarrow> (Inr (length rows), db')))"

text \<open>The two caches of the server and the call as a whole.\<close>

record grpc_server =
  gs_certs :: cert_cache
  gs_assignments :: assignment_cache

definition PushResults ::
  "ingest_env \<Rightarrow> (uuid \<Rightarrow> string) \<Rightarrow> (nat \<Rightarrow> uuid \<Rightarrow> bool option) \<Rightarrow> (agent_inputs \<Rightarrow> probe_spec list option) \<Rightarrow> (uuid \<Rightarrow> assignment_inputs)
   \<Rightarrow> grpc_ctx \<Rightarrow> push_request \<Rightarrow> grpc_server \<Rightarrow> ingest_db \<Rightarrow> (code + nat) \<times> grpc_server \<times> ingest_db \<times> audit_event list" where
  "PushResults e uuid_str fetch snapshot_of load ctx req s db =
     (case authenticateAgent (ie_parse_uuid e) uuid_str ctx (ie_now e) fetch (gs_certs s) of
        (Inl c, certs, evs) \<Rightarrow> (Inl c, s\<lparr>gs_certs := certs\<rparr>, db, evs)
      | (Inr i, certs, evs) \<Rightarrow>
          (let agent = id_AgentID i;
               (assigned, cache) =
                 (if length (pq_Results req) > maxBatchSize then (None, gs_assignments s)
                  else agentProbeMap snapshot_of (load agent) (ie_now e) agent (gs_assignments s));
               (res, db) = push_batch e agent assigned req db
           in (res, \<lparr>gs_certs = certs, gs_assignments = cache\<rparr>, db, evs)))"

section \<open>The assignment cache keeps the contract of a cache\<close>

interpretation assignments: ttl_cache fmempty assignment_lookup assignment_put assignmentCacheTTL
proof
  show "assignment_lookup fmempty k t = None" for k t by (simp add: assignment_lookup_def)
  show "assignment_lookup (assignment_put c k v t) k t' = (if t' \<le> t + assignmentCacheTTL then Some v else None)" for c k v t t'
    by (simp add: assignment_lookup_def assignment_put_def)
  show "k' \<noteq> k \<Longrightarrow> assignment_lookup (assignment_put c k v t) k' t' = Some v' \<Longrightarrow> assignment_lookup c k' t' = Some v'" for k' k c v t t' v'
    by (auto simp: assignment_lookup_def assignment_put_def assignment_sweep_def split: option.splits if_splits)
  show "k' \<noteq> k \<Longrightarrow> t \<le> t' \<Longrightarrow> assignment_lookup c k' t' = Some v' \<Longrightarrow> assignment_lookup (assignment_put c k v t) k' t' = Some v'" for k' k c v t t' v'
    by (auto simp: assignment_lookup_def assignment_put_def assignment_sweep_def split: option.splits if_splits)
qed

end
