(* ===== verification/Outage_Streaks.thy ===== *)
theory Outage_Streaks
  imports Outage
begin

text \<open>
  The hysteresis against its specification. \<open>verdict\<close> says what should be open after a history of
  graded results, looking only at the last three grades; \<open>step\<close> keeps counters and first-seen
  times instead. The two agree on every history, and the times \<open>step\<close> reports are those of the
  first result of the streak.
\<close>

section \<open>The specification\<close>

datatype grade = Down | Breach | Clean

definition classify :: "result \<Rightarrow> grade" where
  "classify r = (if \<not> r_OK r then Down else if r_Degraded r then Breach else Clean)"

text \<open>The last three grades all satisfy \<open>P\<close>; histories are newest first.\<close>

definition last3 :: "(grade \<Rightarrow> bool) \<Rightarrow> grade list \<Rightarrow> bool" where
  "last3 P gs \<longleftrightarrow> length gs \<ge> 3 \<and> list_all P (take 3 gs)"

fun verdict :: "grade list \<Rightarrow> kind option" where
  "verdict [] = None"
| "verdict (g # gs) =
     (let h = g # gs
      in if last3 (\<lambda>g. g = Down) h then Some ProbeFailing
         else case verdict gs of
           Some ProbeFailing \<Rightarrow>
             if last3 (\<lambda>g. g = Breach) h then Some ProbeDegraded
             else if last3 (\<lambda>g. g \<noteq> Down) h then None else Some ProbeFailing
         | Some ProbeDegraded \<Rightarrow> if last3 (\<lambda>g. g = Clean) h then None else Some ProbeDegraded
         | _ \<Rightarrow> if last3 (\<lambda>g. g = Breach) h then Some ProbeDegraded else None)"

lemma verdict_kinds: "verdict gs \<noteq> Some AgentOffline"
  by (induction gs) (auto simp: Let_def split: option.splits kind.splits if_splits)

section \<open>Streaks\<close>

definition streak :: "(grade \<Rightarrow> bool) \<Rightarrow> result list \<Rightarrow> result list" where
  "streak P hs = takeWhile (\<lambda>r. P (classify r)) hs"

lemma streak_Nil [simp]: "streak P [] = []"
  by (simp add: streak_def)

lemma streak_Cons: "streak P (r # hs) = (if P (classify r) then r # streak P hs else [])"
  by (simp add: streak_def)

lemma takeWhile_ge3: "length (takeWhile P xs) \<ge> 3 \<longleftrightarrow> length xs \<ge> 3 \<and> list_all P (take 3 xs)"
proof (cases "length xs \<ge> 3")
  case True
  then obtain a b c ys where "xs = a # b # c # ys"
    by (metis (no_types, opaque_lifting) One_nat_def Suc_le_length_iff numeral_3_eq_3)
  then show ?thesis by (simp add: numeral_3_eq_3)
next
  case False
  then show ?thesis
    by (meson le_trans length_takeWhile_le)
qed

lemma streak_ge3: "length (streak P hs) \<ge> 3 \<longleftrightarrow> last3 P (map classify hs)"
  by (simp add: streak_def takeWhile_ge3 last3_def list_all_iff take_map)

abbreviation "downs \<equiv> streak (\<lambda>g. g = Down)"
abbreviation "oks \<equiv> streak (\<lambda>g. g \<noteq> Down)"
abbreviation "breaches \<equiv> streak (\<lambda>g. g = Breach)"
abbreviation "cleans \<equiv> streak (\<lambda>g. g = Clean)"

text \<open>A counter and the time of the first result of its streak.\<close>

definition counts :: "int \<Rightarrow> gtime \<Rightarrow> result list \<Rightarrow> bool" where
  "counts n t rs \<longleftrightarrow> n = int (length rs) \<and> t = (if rs = [] then 0 else r_Time (last rs))"

lemma counts_Nil [simp]: "counts n t [] \<longleftrightarrow> n = 0 \<and> t = 0"
  by (simp add: counts_def)

lemma counts_Cons: "counts n t rs \<Longrightarrow> counts (n + 1) (if n + 1 = 1 then r_Time r else t) (r # rs)"
  by (auto simp: counts_def)

definition tracks :: "result list \<Rightarrow> state \<Rightarrow> bool" where
  "tracks hs st \<longleftrightarrow>
     counts (ConsecFails st) (FirstFailAt st) (downs hs) \<and> counts (ConsecOKs st) (FirstOKAt st) (oks hs)
     \<and> counts (ConsecDegraded st) (FirstDegradedAt st) (breaches hs)
     \<and> counts (ConsecClean st) (FirstCleanAt st) (cleans hs)
     \<and> LastTime st = (case hs of [] \<Rightarrow> 0 | r # _ \<Rightarrow> r_Time r)
     \<and> OpenKind st = verdict (map classify hs) \<and> (OpenEventID st = None \<longleftrightarrow> OpenKind st = None)"

lemma tracks_zero: "tracks [] zero_state"
  by (simp add: tracks_def zero_state_def)

text \<open>The counters after one accepted result.\<close>

lemma step_counts:
  assumes "tracks hs st" "r_Time r > LastTime st" "step st r = (st', ops)"
  shows "counts (ConsecFails st') (FirstFailAt st') (downs (r # hs))"
    and "counts (ConsecOKs st') (FirstOKAt st') (oks (r # hs))"
    and "counts (ConsecDegraded st') (FirstDegradedAt st') (breaches (r # hs))"
    and "counts (ConsecClean st') (FirstCleanAt st') (cleans (r # hs))"
    and "LastTime st' = r_Time r" and "OpenKind st' = OpenKind st" and "OpenEventID st' = OpenEventID st"
proof -
  consider "classify r = Down" "\<not> r_OK r" | "classify r = Breach" "r_OK r" "r_Degraded r"
    | "classify r = Clean" "r_OK r" "\<not> r_Degraded r"
    by (auto simp: classify_def)
  note c = this
  show "counts (ConsecFails st') (FirstFailAt st') (downs (r # hs))"
    and "counts (ConsecOKs st') (FirstOKAt st') (oks (r # hs))"
    and "counts (ConsecDegraded st') (FirstDegradedAt st') (breaches (r # hs))"
    and "counts (ConsecClean st') (FirstCleanAt st') (cleans (r # hs))"
    using assms counts_Cons[where r = r]
    by (cases rule: c; force simp: tracks_def step_defs streak_Cons)+
  show "LastTime st' = r_Time r" and "OpenKind st' = OpenKind st" and "OpenEventID st' = OpenEventID st"
    using assms by (auto simp: step_defs split: if_splits)
qed

lemma counts_threshold: "counts n t (streak P hs) \<Longrightarrow> n \<ge> Threshold \<longleftrightarrow> last3 P (map classify hs)"
  by (simp add: counts_def Threshold_def flip: streak_ge3)

section \<open>Operations and what is open\<close>

fun kind_after :: "kind option \<Rightarrow> op list \<Rightarrow> kind option" where
  "kind_after k [] = k"
| "kind_after k (Open x t d # ops) = kind_after (Some x) ops"
| "kind_after k (Close t # ops) = kind_after None ops"

text \<open>Opens happen only when nothing is open, closes only when something is.\<close>

fun ops_fit :: "kind option \<Rightarrow> op list \<Rightarrow> bool" where
  "ops_fit k [] \<longleftrightarrow> True"
| "ops_fit k (Open x t d # ops) \<longleftrightarrow> k = None \<and> x \<noteq> AgentOffline \<and> ops_fit (Some x) ops"
| "ops_fit k (Close t # ops) \<longleftrightarrow> k \<noteq> None \<and> ops_fit None ops"

lemma step_fit: "step st r = (st', ops) \<Longrightarrow> ops_fit (OpenKind st') ops \<and> OpenKind st' = OpenKind st"
  by (auto simp: step_defs fail_ops_def ok_ops_def split: if_splits option.splits kind.splits)

lemma verdict_Cons:
  "verdict (g # gs) =
     (if last3 (\<lambda>g. g = Down) (g # gs) then Some ProbeFailing
      else if verdict gs = Some ProbeFailing then
        (if last3 (\<lambda>g. g = Breach) (g # gs) then Some ProbeDegraded
         else if last3 (\<lambda>g. g \<noteq> Down) (g # gs) then None else Some ProbeFailing)
      else if verdict gs = Some ProbeDegraded then
        (if last3 (\<lambda>g. g = Clean) (g # gs) then None else Some ProbeDegraded)
      else if last3 (\<lambda>g. g = Breach) (g # gs) then Some ProbeDegraded else None)"
  using verdict_kinds[of gs] by (auto simp: Let_def split: option.splits kind.splits)

lemma last3_hd: "last3 P (g # gs) \<Longrightarrow> P g"
  by (simp add: last3_def numeral_3_eq_3)

lemma last3_mono: "last3 P gs \<Longrightarrow> (\<And>g. P g \<Longrightarrow> Q g) \<Longrightarrow> last3 Q gs"
  by (auto simp: last3_def list_all_iff)

lemma step_kind:
  assumes "tracks hs st" "r_Time r > LastTime st" "step st r = (st', ops)"
  shows "kind_after (OpenKind st') ops = verdict (map classify (r # hs))"
proof -
  note c = step_counts[OF assms]
  have th: "ConsecFails st' \<ge> Threshold \<longleftrightarrow> last3 (\<lambda>g. g = Down) (map classify (r # hs))"
    "ConsecOKs st' \<ge> Threshold \<longleftrightarrow> last3 (\<lambda>g. g \<noteq> Down) (map classify (r # hs))"
    "ConsecDegraded st' \<ge> Threshold \<longleftrightarrow> last3 (\<lambda>g. g = Breach) (map classify (r # hs))"
    "ConsecClean st' \<ge> Threshold \<longleftrightarrow> last3 (\<lambda>g. g = Clean) (map classify (r # hs))"
    using c(1-4)[THEN counts_threshold] by blast+
  have k: "OpenKind st' = verdict (map classify hs)" 
    using assms(1) c(6) by (auto simp: tracks_def)
  have nk: "verdict (map classify hs) = None \<or> verdict (map classify hs) = Some ProbeFailing
      \<or> verdict (map classify hs) = Some ProbeDegraded"
    using verdict_kinds[of "map classify hs"] by (metis kind.exhaust option.exhaust)
  have hd: "last3 P (map classify (r # hs)) \<Longrightarrow> P (classify r)" for P
    by (simp add: last3_hd)
  have br: "last3 (\<lambda>g. g = Breach) (map classify (r # hs)) \<Longrightarrow> last3 (\<lambda>g. g \<noteq> Down) (map classify (r # hs))"
    by (erule last3_mono) simp
  show ?thesis
  proof (cases "r_OK r")
    case True
    then have "classify r \<noteq> Down" by (simp add: classify_def)
    then have nd: "\<not> last3 (\<lambda>g. g = Down) (map classify (r # hs))"
      using hd by blast
    have "ops = ok_ops r st'"
      using assms(2,3) True by (auto simp: step_defs)
    with nk nd br show ?thesis
      unfolding list.map(2) verdict_Cons
      by (elim disjE) (auto simp: ok_ops_def th[simplified] k)
  next
    case False
    then have "classify r = Down" by (simp add: classify_def)
    then have nd: "\<not> last3 (\<lambda>g. g \<noteq> Down) (map classify (r # hs))" "\<not> last3 (\<lambda>g. g = Breach) (map classify (r # hs))"
      "\<not> last3 (\<lambda>g. g = Clean) (map classify (r # hs))"
      using hd by fastforce+
    have "ops = fail_ops r st'"
      using assms(2,3) False by (auto simp: step_defs)
    with nk nd show ?thesis
      unfolding list.map(2) verdict_Cons
      by (elim disjE) (auto simp: fail_ops_def th[simplified] k)
  qed
qed

lemma exec_ops_state:
  assumes "ops_fit (OpenKind st) ops" "OpenEventID st = None \<longleftrightarrow> OpenKind st = None"
  shows "\<exists>st' evs' trs'. exec_ops gen agent r ops (st, evs, trs) = Some (st', evs', trs')
    \<and> OpenKind st' = kind_after (OpenKind st) ops \<and> (OpenEventID st' = None \<longleftrightarrow> OpenKind st' = None)
    \<and> st'\<lparr>OpenKind := None, OpenEventID := None\<rparr> = st\<lparr>OpenKind := None, OpenEventID := None\<rparr>"
  using assms
proof (induction ops arbitrary: st evs trs)
  case Nil
  then show ?case by simp
next
  case (Cons o1 ops)
  show ?case
  proof (cases o1)
    case (Open k t d)
    obtain i evs1 where o1: "openEvent gen agent r k t d evs = (i, evs1)" by (metis surj_pair)
    show ?thesis
      using Cons.prems Open o1 Cons.IH[of "st\<lparr>OpenEventID := Some i, OpenKind := Some k\<rparr>"] by auto
  next
    case (Close t)
    show ?thesis
      using Cons.prems Close Cons.IH[of "st\<lparr>OpenEventID := None, OpenKind := None\<rparr>"] by auto
  qed
qed

lemma tracks_same:
  assumes "st'\<lparr>OpenKind := None, OpenEventID := None\<rparr> = st\<lparr>OpenKind := None, OpenEventID := None\<rparr>"
  shows "ConsecFails st' = ConsecFails st" "ConsecOKs st' = ConsecOKs st" "ConsecDegraded st' = ConsecDegraded st"
    "ConsecClean st' = ConsecClean st" "FirstFailAt st' = FirstFailAt st" "FirstOKAt st' = FirstOKAt st"
    "FirstDegradedAt st' = FirstDegradedAt st" "FirstCleanAt st' = FirstCleanAt st" "LastTime st' = LastTime st"
  using arg_cong[OF assms, of ConsecFails] arg_cong[OF assms, of ConsecOKs] arg_cong[OF assms, of ConsecDegraded]
    arg_cong[OF assms, of ConsecClean] arg_cong[OF assms, of FirstFailAt] arg_cong[OF assms, of FirstOKAt]
    arg_cong[OF assms, of FirstDegradedAt] arg_cong[OF assms, of FirstCleanAt] arg_cong[OF assms, of LastTime]
  by simp_all

lemma fold_one_tracks:
  assumes "tracks hs st" "r_Time r > LastTime st" "step st r = (st1, ops)"
  shows "\<exists>st' evs' trs'. exec_ops gen agent r ops (st1, evs, trs) = Some (st', evs', trs') \<and> tracks (r # hs) st'"
proof -
  note c = step_counts[OF assms]
  have "ops_fit (OpenKind st1) ops" "OpenEventID st1 = None \<longleftrightarrow> OpenKind st1 = None"
    using step_fit[OF assms(3)] assms(1) c by (auto simp: tracks_def)
  from exec_ops_state[OF this] obtain st' evs' trs' where e:
    "exec_ops gen agent r ops (st1, evs, trs) = Some (st', evs', trs')" "OpenKind st' = kind_after (OpenKind st1) ops"
    "OpenEventID st' = None \<longleftrightarrow> OpenKind st' = None"
    "st'\<lparr>OpenKind := None, OpenEventID := None\<rparr> = st1\<lparr>OpenKind := None, OpenEventID := None\<rparr>"
    by metis
  have "tracks (r # hs) st'"
    unfolding tracks_def using c(1-5) e(2,3) step_kind[OF assms] by (simp add: tracks_same[OF e(4)])
  with e(1) show ?thesis by blast
qed

lemma fold_batch_tracks:
  assumes "tracks hs st" "sorted_wrt (<) (LastTime st # map r_Time rs)"
  shows "\<exists>st' evs' trs'. fold_batch gen agent rs (st, evs, trs) = Some (st', evs', trs') \<and> tracks (rev rs @ hs) st'"
  using assms
proof (induction rs arbitrary: hs st evs trs)
  case Nil
  then show ?case by simp
next
  case (Cons r rs)
  obtain st1 ops where s: "step st r = (st1, ops)" by (metis surj_pair)
  obtain st2 evs2 trs2 where e: "exec_ops gen agent r ops (st1, evs, trs) = Some (st2, evs2, trs2)" "tracks (r # hs) st2"
    using fold_one_tracks[OF Cons.prems(1) _ s, of gen agent evs trs] Cons.prems(2) by auto
  have "sorted_wrt (<) (LastTime st2 # map r_Time rs)"
    using e(2) Cons.prems(2) by (simp add: tracks_def)
  from Cons.IH[OF e(2) this, of evs2 trs2] e(1) s show ?case by auto
qed

end
