(* ===== verification/Outage_Apply.thy ===== *)
theory Outage_Apply
  imports Outage_Streaks
begin

text \<open>
  \<open>Apply\<close> and the tables. The pointer invariant \<open>db_inv\<close>: event ids are unique, a series points to
  an event exactly when it has an open probe event, and that event is the only one it has open.
\<close>

section \<open>The invariant\<close>

definition probe_event :: "series_key \<Rightarrow> event \<Rightarrow> bool" where
  "probe_event k ev \<longleftrightarrow> ev_kind ev \<noteq> AgentOffline \<and> ev_agent ev = fst k \<and> ev_probe ev = Some (snd k)"

definition ids_ok :: "event list \<Rightarrow> bool" where
  "ids_ok evs \<longleftrightarrow> distinct (map ev_id evs) \<and> 0 \<notin> ev_id ` set evs"

definition owns :: "event list \<Rightarrow> series_key \<Rightarrow> state \<Rightarrow> bool" where
  "owns evs k st \<longleftrightarrow> (OpenEventID st = None \<longleftrightarrow> OpenKind st = None)
     \<and> (\<forall>ev\<in>set evs. probe_event k ev \<and> is_open ev \<longrightarrow> OpenEventID st = Some (ev_id ev))
     \<and> (\<forall>i. OpenEventID st = Some i \<longrightarrow>
          (\<exists>ev\<in>set evs. ev_id ev = i \<and> probe_event k ev \<and> is_open ev \<and> OpenKind st = Some (ev_kind ev)))"

definition db_inv :: "outage_db \<Rightarrow> bool" where
  "db_inv db \<longleftrightarrow> ids_ok (od_events db) \<and> (\<forall>k. owns (od_events db) k (lockState db (fst k) (snd k)))"

definition fresh_gen :: "(uuid list \<Rightarrow> uuid) \<Rightarrow> bool" where
  "fresh_gen gen \<longleftrightarrow> (\<forall>xs. gen xs \<notin> set xs \<and> gen xs \<noteq> 0)"

definition frame :: "series_key \<Rightarrow> event list \<Rightarrow> event list \<Rightarrow> bool" where
  "frame k evs evs' \<longleftrightarrow> (\<forall>ev. \<not> probe_event k ev \<longrightarrow> (ev \<in> set evs' \<longleftrightarrow> ev \<in> set evs))"

lemma frame_refl [simp]: "frame k evs evs"
  by (simp add: frame_def)

lemma frame_trans: "frame k a b \<Longrightarrow> frame k b c \<Longrightarrow> frame k a c"
  by (simp add: frame_def)

lemma probe_event_unique: "probe_event k ev \<Longrightarrow> probe_event k' ev \<Longrightarrow> k = k'"
  by (auto simp: probe_event_def prod_eq_iff)

lemma owns_cong:
  "(\<And>ev. probe_event k ev \<Longrightarrow> ev \<in> set evs' \<longleftrightarrow> ev \<in> set evs) \<Longrightarrow> owns evs k st \<Longrightarrow> owns evs' k st"
  unfolding owns_def by meson

lemma owns_frame: "frame k evs evs' \<Longrightarrow> k' \<noteq> k \<Longrightarrow> owns evs k' st \<Longrightarrow> owns evs' k' st"
  unfolding owns_def frame_def using probe_event_unique by meson

section \<open>Opening and closing\<close>

lemma open_owns:
  assumes "ids_ok evs" "owns evs (agent, r_ProbeID r) st" "OpenKind st = None" "x \<noteq> AgentOffline" "fresh_gen gen"
    and "openEvent gen agent r x t d evs = (i, evs')"
  shows "ids_ok evs'" and "owns evs' (agent, r_ProbeID r) (st\<lparr>OpenEventID := Some i, OpenKind := Some x\<rparr>)"
    and "frame (agent, r_ProbeID r) evs evs'"
proof -
  let ?k = "(agent, r_ProbeID r)"
  have none: "\<forall>ev\<in>set evs. \<not> (probe_event ?k ev \<and> is_open ev)"
    using assms(2,3) by (auto simp: owns_def)
  then have "find (\<lambda>ev. ev_agent ev = agent \<and> ev_probe ev = Some (r_ProbeID r) \<and> ev_kind ev = x \<and> is_open ev) evs = None"
    using assms(4) by (auto simp: find_None_iff probe_event_def)
  then obtain new where e: "evs' = evs @ [new]" "i = gen (map ev_id evs)" "ev_id new = i" "probe_event ?k new" "is_open new" "ev_kind new = x"
    using assms(4,6) by (auto simp: openEvent_def Let_def probe_event_def is_open_def)
  have i: "i \<notin> ev_id ` set evs" "i \<noteq> 0"
    using assms(5) e(2) by (auto simp: fresh_gen_def) (metis image_eqI image_set)
  show "ids_ok evs'"
    using assms(1) e(1,3) i by (auto simp: ids_ok_def)
  show "owns evs' ?k (st\<lparr>OpenEventID := Some i, OpenKind := Some x\<rparr>)"
    using none e by (auto simp: owns_def)
  show "frame ?k evs evs'"
    using e by (auto simp: frame_def)
qed

lemma close_owns:
  assumes "ids_ok evs" "owns evs k st" "OpenEventID st = Some i"
  shows "ids_ok (closeEvent i t evs)" and "owns (closeEvent i t evs) k (st\<lparr>OpenEventID := None, OpenKind := None\<rparr>)"
    and "frame k evs (closeEvent i t evs)"
proof -
  let ?c = "\<lambda>ev. if ev_id ev = i \<and> is_open ev then ev\<lparr>ev_closed := Some t\<rparr> else ev"
  have ids: "map ev_id (map ?c evs) = map ev_id evs"
    by (induction evs) auto
  then show "ids_ok (closeEvent i t evs)"
    using assms(1) unfolding ids_ok_def closeEvent_def by (metis image_set)
  obtain ev0 where ev0: "ev0 \<in> set evs" "ev_id ev0 = i" "probe_event k ev0" "is_open ev0"
    using assms(2,3) by (auto simp: owns_def)
  have uniq: "ev = ev0" if "ev \<in> set evs" "ev_id ev = i" for ev
    using assms(1) that ev0(1,2) by (metis ids_ok_def distinct_map inj_onD)
  show "owns (closeEvent i t evs) k (st\<lparr>OpenEventID := None, OpenKind := None\<rparr>)"
    using assms(2,3) by (auto simp: owns_def closeEvent_def probe_event_def is_open_def)
  have pe: "probe_event k (ev\<lparr>ev_closed := x\<rparr>) = probe_event k ev" for ev x
    by (simp add: probe_event_def)
  show "frame k evs (closeEvent i t evs)"
    unfolding frame_def
  proof (intro allI impI)
    fix ev assume np: "\<not> probe_event k ev"
    show "ev \<in> set (closeEvent i t evs) \<longleftrightarrow> ev \<in> set evs"
    proof
      assume "ev \<in> set (closeEvent i t evs)"
      then obtain ev1 where "ev1 \<in> set evs" "ev = ?c ev1" by (auto simp: closeEvent_def)
      then show "ev \<in> set evs"
        using np uniq ev0(3) pe by (auto split: if_splits)
    next
      assume m: "ev \<in> set evs"
      then have "?c ev = ev"
        using np uniq ev0(3) by auto
      then show "ev \<in> set (closeEvent i t evs)"
        using m by (force simp: closeEvent_def)
    qed
  qed
qed

lemma exec_ops_owns:
  assumes "ids_ok evs" "owns evs (agent, r_ProbeID r) st" "ops_fit (OpenKind st) ops" "fresh_gen gen"
  shows "\<exists>st' evs' trs'. exec_ops gen agent r ops (st, evs, trs) = Some (st', evs', trs') \<and> ids_ok evs'
    \<and> owns evs' (agent, r_ProbeID r) st' \<and> frame (agent, r_ProbeID r) evs evs'"
  using assms(1-3)
proof (induction ops arbitrary: st evs trs)
  case Nil
  then show ?case by simp
next
  case (Cons o1 ops)
  show ?case
  proof (cases o1)
    case (Open x t d)
    obtain i evs1 where o: "openEvent gen agent r x t d evs = (i, evs1)" by (metis surj_pair)
    have "OpenKind st = None" "x \<noteq> AgentOffline"
      using Cons.prems(3) Open by auto
    note s = open_owns[OF Cons.prems(1,2) this assms(4) o]
    have "ops_fit (OpenKind (st\<lparr>OpenEventID := Some i, OpenKind := Some x\<rparr>)) ops"
      using Cons.prems(3) Open by simp
    from Cons.IH[OF s(1,2) this] s(3) frame_trans show ?thesis
      using Open o by fastforce
  next
    case (Close t)
    obtain i where i: "OpenEventID st = Some i"
      using Cons.prems(2,3) Close by (auto simp: owns_def)
    note s = close_owns[OF Cons.prems(1,2) i, of t]
    have "ops_fit (OpenKind (st\<lparr>OpenEventID := None, OpenKind := None\<rparr>)) ops"
      using Cons.prems(3) Close by simp
    from Cons.IH[OF s(1,2) this] s(3) frame_trans show ?thesis
      using Close i by fastforce
  qed
qed

lemma owns_step:
  assumes "owns evs k st" "step st r = (st', ops)"
  shows "owns evs k st'" and "ops_fit (OpenKind st') ops"
proof -
  have "OpenEventID st' = OpenEventID st" "OpenKind st' = OpenKind st"
    using assms(2) by (auto simp: step_defs split: if_splits)
  then show "owns evs k st'"
    using assms(1) by (simp add: owns_def)
  show "ops_fit (OpenKind st') ops"
    using step_fit[OF assms(2)] by (rule conjunct1)
qed

lemma fold_batch_owns:
  assumes "ids_ok evs" "owns evs (agent, p) st" "\<forall>r\<in>set rs. r_ProbeID r = p" "fresh_gen gen"
  shows "\<exists>st' evs' trs'. fold_batch gen agent rs (st, evs, trs) = Some (st', evs', trs') \<and> ids_ok evs'
    \<and> owns evs' (agent, p) st' \<and> frame (agent, p) evs evs'"
  using assms(1-3)
proof (induction rs arbitrary: st evs trs)
  case Nil
  then show ?case by simp
next
  case (Cons r rs)
  obtain st1 ops where s: "step st r = (st1, ops)" by (metis surj_pair)
  have p: "r_ProbeID r = p" using Cons.prems(3) by simp
  note w = owns_step[OF Cons.prems(2) s]
  obtain st2 evs2 trs2 where e: "exec_ops gen agent r ops (st1, evs, trs) = Some (st2, evs2, trs2)" "ids_ok evs2"
    "owns evs2 (agent, p) st2" "frame (agent, p) evs evs2"
    using exec_ops_owns[OF Cons.prems(1) _ w(2) assms(4), of agent r trs] w(1) p by auto
  obtain st3 evs3 trs3 where "fold_batch gen agent rs (st2, evs2, trs2) = Some (st3, evs3, trs3)" "ids_ok evs3"
    "owns evs3 (agent, p) st3" "frame (agent, p) evs2 evs3"
    using Cons.IH[OF e(2,3), of trs2] Cons.prems(3) by auto
  then show ?case
    using s e frame_trans by fastforce
qed

lemma batch_of_probe: "r \<in> set (batch_of p results) \<Longrightarrow> r_ProbeID r = p"
  by (simp add: batch_of_def)

lemma fold_all_owns:
  assumes "ids_ok evs" "\<forall>p\<in>set ps. owns evs (agent, p) (states p)" "distinct ps" "fresh_gen gen"
  shows "\<exists>finals evs' trs'. fold_all gen agent states results ps (evs, trs) = Some (finals, evs', trs') \<and> ids_ok evs'
    \<and> map fst finals = map (\<lambda>p. last (batch_of p results)) ps
    \<and> (\<forall>(p, st)\<in>set (zip ps (map snd finals)). owns evs' (agent, p) st)
    \<and> (\<forall>k. \<not> (fst k = agent \<and> snd k \<in> set ps) \<longrightarrow> (\<forall>ev. probe_event k ev \<longrightarrow> (ev \<in> set evs' \<longleftrightarrow> ev \<in> set evs)))"
  using assms(1-3)
proof (induction ps arbitrary: evs trs)
  case Nil
  then show ?case by simp
next
  case (Cons p ps)
  obtain st1 evs1 trs1 where b: "fold_batch gen agent (batch_of p results) (states p, evs, trs) = Some (st1, evs1, trs1)"
    "ids_ok evs1" "owns evs1 (agent, p) st1" "frame (agent, p) evs evs1"
    using fold_batch_owns[OF Cons.prems(1) _ _ assms(4), of agent p "states p" "batch_of p results" trs]
      Cons.prems(2) batch_of_probe by auto
  have "\<forall>p'\<in>set ps. owns evs1 (agent, p') (states p')"
    using Cons.prems(2,3) by (auto intro!: owns_frame[OF b(4)])
  from Cons.IH[OF b(2) this, of trs1] Cons.prems(3) obtain finals evs2 trs2 where
    IH: "fold_all gen agent states results ps (evs1, trs1) = Some (finals, evs2, trs2)" "ids_ok evs2"
      "map fst finals = map (\<lambda>p. last (batch_of p results)) ps"
      "\<forall>(p, st)\<in>set (zip ps (map snd finals)). owns evs2 (agent, p) st"
      "\<And>k ev. \<not> (fst k = agent \<and> snd k \<in> set ps) \<Longrightarrow> probe_event k ev \<Longrightarrow> ev \<in> set evs2 \<longleftrightarrow> ev \<in> set evs1"
    by auto
  have own: "owns evs2 (agent, p) st1"
    using owns_cong[OF IH(5)[of "(agent, p)"] b(3)] Cons.prems(3) by simp
  have fr: "ev \<in> set evs2 \<longleftrightarrow> ev \<in> set evs" if "\<not> (fst k = agent \<and> snd k \<in> set (p # ps))" "probe_event k ev" for k ev
  proof -
    have "k \<noteq> (agent, p)" using that(1) by auto
    then have "\<not> probe_event (agent, p) ev" using probe_event_unique that(2) by blast
    then have "ev \<in> set evs1 \<longleftrightarrow> ev \<in> set evs" using b(4) by (simp add: frame_def)
    then show ?thesis using IH(5)[of k ev] that by auto
  qed
  then have "\<forall>k. \<not> (fst k = agent \<and> snd k \<in> set (p # ps)) \<longrightarrow> (\<forall>ev. probe_event k ev \<longrightarrow> (ev \<in> set evs2 \<longleftrightarrow> ev \<in> set evs))"
    by blast
  with b(1) IH(1-4) own show ?case
    by (intro exI[of _ "(last (batch_of p results), st1) # finals"] exI[of _ evs2] exI[of _ trs2] conjI) simp_all
qed

section \<open>Loading and storing rows\<close>

lemma load_seed [simp]: "load_state evs (seed_row r) = zero_state"
  by (simp add: load_state_def seed_row_def zero_state_def column_time_def)

lemma ensure_keeps:
  "od_events (ensureStates agent ps results db) = od_events db
   \<and> lockState (ensureStates agent ps results db) a p = lockState db a p"
proof (induction ps arbitrary: db)
  case Nil
  then show ?case by (simp add: ensureStates_def)
next
  case (Cons q ps)
  let ?db = "case od_series db (agent, q) of
                     Some _ \<Rightarrow> db
                   | None \<Rightarrow> (case filter (\<lambda>r. r_ProbeID r = q) results of
                                [] \<Rightarrow> db
                              | r # _ \<Rightarrow> db\<lparr>od_series := (od_series db)((agent, q) \<mapsto> seed_row r)\<rparr>)"
  have "ensureStates agent (q # ps) results db = ensureStates agent ps results ?db"
    by (simp add: ensureStates_def)
  moreover have "od_events ?db = od_events db" "lockState ?db a p = lockState db a p"
    by (auto simp: lockState_def split: option.splits list.splits)
  ultimately show ?case
    using Cons.IH[of ?db] by simp
qed

lemma find_id:
  assumes "ids_ok evs" "ev \<in> set evs"
  shows "find (\<lambda>e. ev_id e = ev_id ev) evs = Some ev"
  using assms
proof (induction evs)
  case (Cons e es)
  then show ?case by (auto simp: ids_ok_def)
qed simp

lemma owns_load:
  assumes "ids_ok evs" "owns evs k st" "s_open row = OpenEventID st"
  shows "owns evs k (load_state evs row)"
proof (cases "OpenEventID st")
  case None
  then show ?thesis
    using assms(2,3) by (auto simp: owns_def load_state_def)
next
  case (Some i)
  then obtain ev where ev: "ev \<in> set evs" "ev_id ev = i" "probe_event k ev" "is_open ev"
    using assms(2) by (auto simp: owns_def)
  then have "find (\<lambda>e. ev_id e = i) evs = Some ev"
    using find_id[OF assms(1)] by metis
  then have "OpenKind (load_state evs row) = Some (ev_kind ev)" "OpenEventID (load_state evs row) = Some i"
    using Some assms(3) by (simp_all add: load_state_def)
  moreover have "OpenEventID st = Some (ev_id e)" if "e \<in> set evs" "probe_event k e" "is_open e" for e
    using assms(2) that by (auto simp: owns_def)
  ultimately show ?thesis
    unfolding owns_def using ev Some by auto
qed

lemma owns_nonzero: "ids_ok evs \<Longrightarrow> owns evs k st \<Longrightarrow> OpenEventID st \<noteq> Some 0"
  by (auto simp: ids_ok_def owns_def)

lemma store_open: "OpenEventID st \<noteq> Some 0 \<Longrightarrow> s_open (store_state r st) = OpenEventID st"
  by (auto simp: store_state_def split: option.split)

lemma upsert_events [simp]: "od_events (bulkUpsertStates agent finals db) = od_events db"
  by (induction finals arbitrary: db) (auto simp: bulkUpsertStates_def)

lemma upsert_series:
  "od_series (bulkUpsertStates agent finals db) k =
     (case map_of (rev (map (\<lambda>(r, st). ((agent, r_ProbeID r), store_state r st)) finals)) k of
        Some row \<Rightarrow> Some row | None \<Rightarrow> od_series db k)"
proof (induction finals arbitrary: db)
  case Nil
  then show ?case by (simp add: bulkUpsertStates_def)
next
  case (Cons f finals)
  obtain r st where f: "f = (r, st)" by (cases f)
  have "bulkUpsertStates agent (f # finals) db =
      bulkUpsertStates agent finals (db\<lparr>od_series := (od_series db)((agent, r_ProbeID r) \<mapsto> store_state r st)\<rparr>)"
    by (simp add: bulkUpsertStates_def f)
  then show ?case
    using Cons.IH by (auto simp: f map_add_def split: option.splits)
qed

section \<open>Apply keeps the invariant\<close>

lemma probe_ids_mem: "p \<in> set (probe_ids results) \<Longrightarrow> batch_of p results \<noteq> []"
  by (force simp: probe_ids_def batch_of_def filter_empty_conv simp flip: set_empty)

lemma last_batch: "p \<in> set (probe_ids results) \<Longrightarrow> r_ProbeID (last (batch_of p results)) = p"
  using batch_of_probe[OF last_in_set[OF probe_ids_mem]] .

lemma distinct_probe_ids: "distinct (probe_ids results)"
  by (simp add: probe_ids_def)

lemma Apply_keeps:
  assumes "fresh_gen gen" "db_inv db"
  shows "\<exists>trs db'. Apply gen agent results db = Some (trs, db') \<and> db_inv db'"
proof (cases "results = []")
  case True
  then show ?thesis using assms by (simp add: Apply_def)
next
  case False
  let ?ps = "probe_ids results"
  define db1 where "db1 = ensureStates agent ?ps results db"
  have e1: "od_events db1 = od_events db" "\<And>a p. lockState db1 a p = lockState db a p"
    using ensure_keeps by (auto simp: db1_def)
  have ids: "ids_ok (od_events db1)" and own: "\<And>k. owns (od_events db1) k (lockState db1 (fst k) (snd k))"
    using assms(2) e1 by (auto simp: db_inv_def)
  obtain finals evs trs where fa: "fold_all gen agent (lockState db1 agent) results ?ps (od_events db1, []) = Some (finals, evs, trs)"
    "ids_ok evs" "map fst finals = map (\<lambda>p. last (batch_of p results)) ?ps"
    "\<forall>(p, st)\<in>set (zip ?ps (map snd finals)). owns evs (agent, p) st"
    "\<And>k ev. \<not> (fst k = agent \<and> snd k \<in> set ?ps) \<Longrightarrow> probe_event k ev \<Longrightarrow> ev \<in> set evs \<longleftrightarrow> ev \<in> set (od_events db1)"
    using fold_all_owns[OF ids _ distinct_probe_ids assms(1), of results agent "lockState db1 agent" results "[]"]
      own[of "(agent, _)"] by auto
  define db2 where "db2 = bulkUpsertStates agent finals (db1\<lparr>od_events := evs\<rparr>)"
  have run: "Apply gen agent results db = Some (trs, db2)"
    using False fa(1) by (simp add: Apply_def db2_def db1_def)
  have probes: "map (\<lambda>f. r_ProbeID (fst f)) finals = ?ps"
  proof -
    have "map (\<lambda>f. r_ProbeID (fst f)) finals = map r_ProbeID (map fst finals)" by simp
    also have "\<dots> = map (\<lambda>p. r_ProbeID (last (batch_of p results))) ?ps" unfolding fa(3) by simp
    also have "\<dots> = ?ps" using last_batch by (simp add: map_idI)
    finally show ?thesis .
  qed
  let ?m = "rev (map (\<lambda>(r, st). ((agent, r_ProbeID r), store_state r st)) finals)"
  have stored: "\<exists>r st. (r, st) \<in> set finals \<and> r_ProbeID r = snd k \<and> fst k = agent \<and> row = store_state r st"
    if "map_of ?m k = Some row" for k row
    using map_of_SomeD[OF that] by force
  have owned: "owns evs (agent, r_ProbeID r) st" if "(r, st) \<in> set finals" for r st
  proof -
    have "zip ?ps (map snd finals) = map (\<lambda>f. (r_ProbeID (fst f), snd f)) finals"
      by (simp add: zip_map_map zip_same_conv_map flip: probes)
    then show ?thesis using fa(4) that by force
  qed
  have miss: "map_of ?m k = None \<Longrightarrow> \<not> (fst k = agent \<and> snd k \<in> set ?ps)" for k
  proof
    assume n: "map_of ?m k = None" and k: "fst k = agent \<and> snd k \<in> set ?ps"
    from k have "snd k \<in> set (map (\<lambda>f. r_ProbeID (fst f)) finals)" unfolding probes by simp
    then obtain f where "f \<in> set finals" "r_ProbeID (fst f) = snd k" by auto
    then have "(k, store_state (fst f) (snd f)) \<in> set ?m"
      using k by (auto simp: image_iff case_prod_beta intro!: bexI[of _ f] prod_eqI)
    then show False using n by (simp add: map_of_eq_None_iff rev_image_eqI)
  qed
  have "owns evs k (lockState db2 (fst k) (snd k))" for k
  proof (cases "map_of ?m k")
    case (Some row)
    with stored obtain r st where s: "(r, st) \<in> set finals" "r_ProbeID r = snd k" "fst k = agent" "row = store_state r st"
      by blast
    then have o: "owns evs k st" using owned by (metis prod.collapse)
    have "lockState db2 (fst k) (snd k) = load_state evs row"
      using Some by (simp add: lockState_def db2_def upsert_series)
    then show ?thesis
      using owns_load[OF fa(2) o] store_open[OF owns_nonzero[OF fa(2) o]] s(4) by simp
  next
    case None
    then have series: "od_series db2 k = od_series db1 k"
      by (simp add: db2_def upsert_series)
    have o: "owns evs k (lockState db1 (fst k) (snd k))"
      using owns_cong[OF fa(5)[OF miss[OF None]] own] .
    show ?thesis
    proof (cases "od_series db1 k")
      case None
      then show ?thesis
        using o series by (simp add: lockState_def)
    next
      case (Some row)
      then have "s_open row = OpenEventID (lockState db1 (fst k) (snd k))"
        by (simp add: lockState_def load_state_def)
      then show ?thesis
        using owns_load[OF fa(2) o] Some series by (simp add: lockState_def db2_def)
    qed
  qed
  then have "db_inv db2"
    using fa(2) by (simp add: db_inv_def db2_def)
  with run show ?thesis by blast
qed

section \<open>Arrival order and replay do not matter\<close>

lemma fold_all_fst:
  "fold_all gen agent states results ps (evs, trs) = Some (finals, evs', trs') \<Longrightarrow>
     map fst finals = map (\<lambda>p. last (batch_of p results)) ps"
  by (induction ps arbitrary: evs trs finals) (auto simp: bind_eq_Some_conv)

lemma finals_probes:
  assumes "map fst finals = map (\<lambda>p. last (batch_of p results)) (probe_ids results)"
  shows "map (\<lambda>f. r_ProbeID (fst f)) finals = probe_ids results"
proof -
  have "map (\<lambda>f. r_ProbeID (fst f)) finals = map r_ProbeID (map fst finals)" by simp
  also have "\<dots> = map (\<lambda>p. r_ProbeID (last (batch_of p results))) (probe_ids results)" unfolding assms by simp
  also have "\<dots> = probe_ids results" using last_batch by (simp add: map_idI)
  finally show ?thesis .
qed

lemma fold_all_cong:
  "(\<And>p. p \<in> set ps \<Longrightarrow> states p = states' p \<and> batch_of p results = batch_of p results') \<Longrightarrow>
     fold_all gen agent states results ps s = fold_all gen agent states' results' ps s"
  by (induction ps arbitrary: s) (auto intro!: Option.bind_cong)

lemma ensure_other:
  "\<not> (fst k = agent \<and> snd k \<in> set ps) \<Longrightarrow> od_series (ensureStates agent ps results db) k = od_series db k"
proof (induction ps arbitrary: db)
  case (Cons p ps)
  let ?db = "case od_series db (agent, p) of
                     Some _ \<Rightarrow> db
                   | None \<Rightarrow> (case filter (\<lambda>r. r_ProbeID r = p) results of
                                [] \<Rightarrow> db
                              | r # _ \<Rightarrow> db\<lparr>od_series := (od_series db)((agent, p) \<mapsto> seed_row r)\<rparr>)"
  have "ensureStates agent (p # ps) results db = ensureStates agent ps results ?db"
    by (simp add: ensureStates_def)
  then show ?case
    using Cons by (auto split: option.splits list.splits)
qed (simp add: ensureStates_def)

lemma upsert_hit:
  assumes "fst k = agent" "snd k \<in> set (map (\<lambda>f. r_ProbeID (fst f)) finals)"
  shows "od_series (bulkUpsertStates agent finals db) k = od_series (bulkUpsertStates agent finals db') k"
    and "od_series (bulkUpsertStates agent finals db) k \<noteq> None"
proof -
  let ?m = "rev (map (\<lambda>(r, st). ((agent, r_ProbeID r), store_state r st)) finals)"
  obtain f where f: "f \<in> set finals" "r_ProbeID (fst f) = snd k"
    using assms(2) by auto
  then have "(k, store_state (fst f) (snd f)) \<in> set ?m"
    using assms(1) by (auto simp: image_iff case_prod_beta intro!: bexI[of _ f] prod_eqI)
  then have "map_of ?m k \<noteq> None"
    by (simp add: map_of_eq_None_iff rev_image_eqI)
  then show "od_series (bulkUpsertStates agent finals db) k = od_series (bulkUpsertStates agent finals db') k"
    and "od_series (bulkUpsertStates agent finals db) k \<noteq> None"
    by (auto simp: upsert_series split: option.split)
qed

lemma upsert_miss:
  "\<not> (fst k = agent \<and> snd k \<in> set (map (\<lambda>f. r_ProbeID (fst f)) finals)) \<Longrightarrow>
     od_series (bulkUpsertStates agent finals db) k = od_series db k"
proof -
  assume a: "\<not> (fst k = agent \<and> snd k \<in> set (map (\<lambda>f. r_ProbeID (fst f)) finals))"
  have "map_of (rev (map (\<lambda>(r, st). ((agent, r_ProbeID r), store_state r st)) finals)) k = None"
    using a by (force simp: map_of_eq_None_iff)
  then show ?thesis by (simp add: upsert_series)
qed

lemma upsert_seed_irrelevant:
  assumes "map (\<lambda>f. r_ProbeID (fst f)) finals = ps"
  shows "bulkUpsertStates agent finals ((ensureStates agent ps res db)\<lparr>od_events := evs\<rparr>) =
    bulkUpsertStates agent finals ((ensureStates agent ps res' db)\<lparr>od_events := evs\<rparr>)"
proof -
  have "od_series (bulkUpsertStates agent finals ((ensureStates agent ps res db)\<lparr>od_events := evs\<rparr>)) k =
    od_series (bulkUpsertStates agent finals ((ensureStates agent ps res' db)\<lparr>od_events := evs\<rparr>)) k" for k
    using upsert_hit(1)[of k agent finals] upsert_miss[of k agent finals] ensure_other[of k agent ps] assms
    by (cases "fst k = agent \<and> snd k \<in> set ps") auto
  then show ?thesis
    by (intro outage_db.equality) (auto simp: fun_eq_iff)
qed

lemma Apply_permute:
  assumes "mset results' = mset results" "distinct (map (\<lambda>r. (r_ProbeID r, r_Time r)) results)"
  shows "Apply gen agent results' db = Apply gen agent results db"
proof -
  have set: "set results' = set results"
    using assms(1) by (metis set_mset_mset)
  then have ps: "probe_ids results' = probe_ids results"
    by (simp add: probe_ids_def flip: sorted_list_of_set_sort_remdups)
  have b: "batch_of p results' = batch_of p results" for p
  proof -
    have "distinct (map r_Time (filter (\<lambda>r. r_ProbeID r = p) results))"
      using assms(2) by (auto simp: distinct_map inj_on_def)
    moreover have "mset (batch_of p results') = mset (filter (\<lambda>r. r_ProbeID r = p) results)"
      using assms(1) by (simp add: batch_of_def)
    moreover have "sorted (map r_Time (batch_of p results'))"
      by (simp add: batch_of_def)
    ultimately show ?thesis
      by (metis batch_of_def sort_key_unique)
  qed
  have ens: "od_events (ensureStates agent ps res db) = od_events db" "lockState (ensureStates agent ps res db) a p = lockState db a p"
    for ps res a p
    using ensure_keeps by auto
  have "fold_all gen agent (lockState (ensureStates agent (probe_ids results) results' db) agent) results' (probe_ids results) s
      = fold_all gen agent (lockState (ensureStates agent (probe_ids results) results db) agent) results (probe_ids results) s" for s
    by (rule fold_all_cong) (simp add: ens b)
  moreover have "bulkUpsertStates agent finals ((ensureStates agent (probe_ids results) results' db)\<lparr>od_events := evs\<rparr>) =
      bulkUpsertStates agent finals ((ensureStates agent (probe_ids results) results db)\<lparr>od_events := evs\<rparr>)"
    if "fold_all gen agent (lockState (ensureStates agent (probe_ids results) results db) agent) results (probe_ids results) s
      = Some (finals, evs, trs)" for finals evs trs s
    using upsert_seed_irrelevant finals_probes fold_all_fst that by (metis surj_pair)
  ultimately show ?thesis
    using set by (auto simp: Apply_def ps ens Let_def intro!: Option.bind_cong)
qed

lemma step_last: "step st r = (st', ops) \<Longrightarrow> LastTime st \<le> LastTime st' \<and> r_Time r \<le> LastTime st'"
  by (auto simp: step_defs split: if_splits)

lemma exec_ops_last: "exec_ops gen agent r ops (st, evs, trs) = Some (st', evs', trs') \<Longrightarrow> LastTime st' = LastTime st"
proof (induction ops arbitrary: st evs trs)
  case (Cons o1 ops)
  then show ?case
    by (cases o1) (fastforce simp: bind_eq_Some_conv Let_def split: prod.splits option.splits)+
qed simp

lemma fold_batch_last:
  "fold_batch gen agent rs (st, evs, trs) = Some (st', evs', trs') \<Longrightarrow>
     LastTime st \<le> LastTime st' \<and> (\<forall>r\<in>set rs. r_Time r \<le> LastTime st')"
proof (induction rs arbitrary: st evs trs)
  case (Cons r rs)
  obtain st1 ops where s: "step st r = (st1, ops)" by (metis surj_pair)
  obtain st2 evs2 trs2 where e: "exec_ops gen agent r ops (st1, evs, trs) = Some (st2, evs2, trs2)"
    "fold_batch gen agent rs (st2, evs2, trs2) = Some (st', evs', trs')"
    using Cons.prems s by (auto simp: bind_eq_Some_conv)
  show ?case
    using Cons.IH[OF e(2)] exec_ops_last[OF e(1)] step_last[OF s] by fastforce
qed simp

lemma fold_batch_stale:
  "\<forall>r\<in>set rs. r_Time r \<le> LastTime st \<Longrightarrow> fold_batch gen agent rs (st, evs, trs) = Some (st, evs, trs)"
  by (induction rs) (auto simp: step_def)

lemma int32_idem [simp]: "int32 (int32 x) = int32 x"
  by (simp add: int32_def)

lemma time_column_idem [simp]: "time_column (column_time (time_column t)) = time_column t"
  by (simp add: time_column_def column_time_def zeroToEpoch_def epoch_def)

lemma store_load: "store_state r (load_state evs (store_state r st)) = store_state r st"
  by (auto simp: store_state_def load_state_def split: option.split)

lemma load_store_last: "LastTime (load_state evs (store_state r st)) = LastTime st"
  by (simp add: store_state_def load_state_def)

lemma fold_all_finals:
  "fold_all gen agent states results ps (evs, trs) = Some (finals, evs', trs') \<Longrightarrow>
     \<forall>(r, st)\<in>set finals. \<exists>p\<in>set ps. r = last (batch_of p results) \<and> (\<forall>x\<in>set (batch_of p results). r_Time x \<le> LastTime st)"
  by (induction ps arbitrary: evs trs finals) (fastforce simp: bind_eq_Some_conv dest: fold_batch_last)+

lemma fold_all_stale:
  "\<forall>p\<in>set ps. \<forall>r\<in>set (batch_of p results). r_Time r \<le> LastTime (states p) \<Longrightarrow>
     fold_all gen agent states results ps (evs, trs) =
       Some (map (\<lambda>p. (last (batch_of p results), states p)) ps, evs, trs)"
  by (induction ps) (auto simp: fold_batch_stale)

lemma ensure_present:
  "\<forall>p\<in>set ps. od_series db (agent, p) \<noteq> None \<Longrightarrow> ensureStates agent ps results db = db"
  by (induction ps) (auto simp: ensureStates_def)

lemma upsert_same:
  "\<forall>(r, st)\<in>set finals. od_series db (agent, r_ProbeID r) = Some (store_state r st) \<Longrightarrow> bulkUpsertStates agent finals db = db"
  by (induction finals) (auto simp: bulkUpsertStates_def map_upd_triv)

text \<open>What one \<open>Apply\<close> leaves in the rows of the series it touched.\<close>

lemma Apply_rows:
  assumes "Apply gen agent results db = Some (trs, db')" "p \<in> set (probe_ids results)"
  shows "\<exists>st. od_series db' (agent, p) = Some (store_state (last (batch_of p results)) st)
    \<and> (\<forall>x\<in>set (batch_of p results). r_Time x \<le> LastTime st)"
proof -
  have "results \<noteq> []" using assms(2) by (auto simp: probe_ids_def)
  then obtain finals evs s where f: "fold_all gen agent s results (probe_ids results) (od_events db, []) = Some (finals, evs, trs)"
    and db': "db' = bulkUpsertStates agent finals ((ensureStates agent (probe_ids results) results db)\<lparr>od_events := evs\<rparr>)"
    using assms(1) ensure_keeps by (auto simp: Apply_def Let_def bind_eq_Some_conv)
  let ?m = "rev (map (\<lambda>(r, st). ((agent, r_ProbeID r), store_state r st)) finals)"
  have pr: "map (\<lambda>f. r_ProbeID (fst f)) finals = probe_ids results"
    using finals_probes[OF fold_all_fst[OF f]] .
  have "od_series db' (agent, p) \<noteq> None" and "od_series db' (agent, p) = od_series (bulkUpsertStates agent finals (db\<lparr>od_series := Map.empty\<rparr>)) (agent, p)"
    using upsert_hit[of "(agent, p)" agent finals] assms(2) pr by (auto simp: db')
  then obtain row where row: "od_series db' (agent, p) = Some row" "map_of ?m (agent, p) = Some row"
    by (auto simp: upsert_series split: option.splits)
  then obtain r st where r: "(r, st) \<in> set finals" "r_ProbeID r = p" "row = store_state r st"
    using map_of_SomeD[OF row(2)] by auto
  with fold_all_finals[OF f] obtain q where q: "q \<in> set (probe_ids results)" "r = last (batch_of q results)"
    "\<forall>x\<in>set (batch_of q results). r_Time x \<le> LastTime st"
    by blast
  then have "q = p" using r(2) last_batch[OF q(1)] by simp
  with row(1) r(3) q show ?thesis by blast
qed

lemma Apply_replay:
  assumes "Apply gen agent results db = Some (trs, db')"
  shows "Apply gen agent results db' = Some ([], db')"
proof (cases "results = []")
  case True
  then show ?thesis by (simp add: Apply_def)
next
  case False
  let ?ps = "probe_ids results"
  have rows: "\<exists>st. od_series db' (agent, p) = Some (store_state (last (batch_of p results)) st)
    \<and> (\<forall>x\<in>set (batch_of p results). r_Time x \<le> LastTime st)" if "p \<in> set ?ps" for p
    using Apply_rows[OF assms that] .
  then have ens: "ensureStates agent ?ps results db' = db'"
    by (intro ensure_present) fastforce
  have stale: "\<forall>p\<in>set ?ps. \<forall>r\<in>set (batch_of p results). r_Time r \<le> LastTime (lockState db' agent p)"
    using rows by (fastforce simp: lockState_def load_store_last)
  let ?f = "map (\<lambda>p. (last (batch_of p results), lockState db' agent p)) ?ps"
  have "od_series db' (agent, p) = Some (store_state (last (batch_of p results)) (lockState db' agent p))" if "p \<in> set ?ps" for p
    using rows[OF that] by (auto simp: lockState_def store_load)
  then have "bulkUpsertStates agent ?f db' = db'"
    using last_batch by (intro upsert_same) auto
  then show ?thesis
    using False ens fold_all_stale[OF stale] by (simp add: Apply_def)
qed

end
