(* ===== verification/Outage_Timeline.thy ===== *)
theory Outage_Timeline
  imports Outage_Apply
begin

text \<open>
  The history of one series: its events follow each other without overlap. \<open>timeline\<close> looks at
  the events of a series newest first: each closed event ends after it began, and each event
  begins no earlier than its predecessor, which is closed, ended.
\<close>

section \<open>Counters and times are consistent\<close>

definition sane :: "state \<Rightarrow> bool" where
  "sane st \<longleftrightarrow> ConsecFails st \<ge> 0 \<and> ConsecOKs st \<ge> 0 \<and> ConsecDegraded st \<ge> 0 \<and> ConsecClean st \<ge> 0
     \<and> (ConsecFails st > 0 \<longrightarrow> FirstFailAt st \<le> LastTime st \<and> ConsecOKs st = 0)
     \<and> (ConsecOKs st > 0 \<longrightarrow> FirstOKAt st \<le> LastTime st)
     \<and> (ConsecDegraded st > 0 \<longrightarrow> ConsecOKs st > 0 \<and> ConsecClean st = 0 \<and> FirstOKAt st \<le> FirstDegradedAt st
          \<and> FirstDegradedAt st \<le> LastTime st)
     \<and> (ConsecClean st > 0 \<longrightarrow> ConsecOKs st > 0 \<and> FirstOKAt st \<le> FirstCleanAt st \<and> FirstCleanAt st \<le> LastTime st)"

lemma sane_zero: "sane zero_state"
  by (simp add: sane_def zero_state_def)

lemma step_sane: "sane st \<Longrightarrow> step st r = (st', ops) \<Longrightarrow> sane st'"
  unfolding sane_def by (auto simp: step_defs split: if_splits)

lemma sane_kind [simp]: "sane (st\<lparr>OpenEventID := i, OpenKind := k\<rparr>) = sane st"
  by (simp add: sane_def)

text \<open>The instants the operations carry.\<close>

fun timed :: "state \<Rightarrow> kind option \<Rightarrow> op list \<Rightarrow> bool" where
  "timed st k [] \<longleftrightarrow> True"
| "timed st k (Open x t d # ops) \<longleftrightarrow> k = None
     \<and> (x = ProbeFailing \<and> ConsecFails st > 0 \<and> t = FirstFailAt st
        \<or> x = ProbeDegraded \<and> ConsecDegraded st > 0 \<and> t = FirstDegradedAt st) \<and> timed st (Some x) ops"
| "timed st k (Close t # ops) \<longleftrightarrow>
     (k = Some ProbeFailing \<and> ConsecOKs st > 0 \<and> t = FirstOKAt st
      \<or> k = Some ProbeDegraded \<and> (ConsecFails st > 0 \<and> t = FirstFailAt st \<or> ConsecClean st > 0 \<and> t = FirstCleanAt st))
     \<and> timed st None ops"

lemma step_timed: "step st r = (st', ops) \<Longrightarrow> timed st' (OpenKind st') ops"
  by (auto simp: step_def Let_def fail_ops_def ok_ops_def Threshold_def split: if_splits option.splits kind.splits)

lemma timed_kind [simp]: "timed (st\<lparr>OpenEventID := i, OpenKind := k'\<rparr>) k ops = timed st k ops"
  by (induction st k ops rule: timed.induct) auto

section \<open>The timeline invariant\<close>

definition span_ok :: "event \<Rightarrow> bool" where
  "span_ok ev \<longleftrightarrow> (case ev_closed ev of None \<Rightarrow> True | Some c \<Rightarrow> ev_opened ev < c)"

fun timeline :: "event list \<Rightarrow> bool" where
  "timeline [] \<longleftrightarrow> True"
| "timeline (e # es) \<longleftrightarrow> span_ok e
     \<and> (case es of [] \<Rightarrow> True | f # _ \<Rightarrow> (case ev_closed f of None \<Rightarrow> False | Some c \<Rightarrow> c \<le> ev_opened e))
     \<and> timeline es"

definition mark :: "event \<Rightarrow> gtime" where
  "mark ev = (case ev_closed ev of None \<Rightarrow> ev_opened ev | Some c \<Rightarrow> c)"

definition in_time :: "state \<Rightarrow> event list \<Rightarrow> bool" where
  "in_time st es \<longleftrightarrow> timeline es \<and>
     (case es of
        [] \<Rightarrow> OpenKind st = None
      | ev # _ \<Rightarrow> mark ev \<le> LastTime st \<and>
          (case OpenKind st of
             None \<Rightarrow> \<not> is_open ev \<and> (ConsecFails st > 0 \<longrightarrow> mark ev \<le> FirstFailAt st)
               \<and> (ConsecDegraded st > 0 \<longrightarrow> mark ev \<le> FirstDegradedAt st)
           | Some ProbeFailing \<Rightarrow> is_open ev \<and> OpenEventID st = Some (ev_id ev) \<and> (ConsecOKs st > 0 \<longrightarrow> mark ev < FirstOKAt st)
           | Some ProbeDegraded \<Rightarrow> is_open ev \<and> OpenEventID st = Some (ev_id ev)
               \<and> (ConsecFails st > 0 \<longrightarrow> mark ev < FirstFailAt st) \<and> (ConsecClean st > 0 \<longrightarrow> mark ev < FirstCleanAt st)
           | Some AgentOffline \<Rightarrow> False))"

lemma step_in_time:
  assumes "sane st" "in_time st es" "step st r = (st', ops)"
  shows "in_time st' es"
proof (cases es)
  case Nil
  then show ?thesis
    using assms step_fit[OF assms(3)] by (simp add: in_time_def)
next
  case (Cons ev rest)
  show ?thesis
  proof (cases "r_Time r > LastTime st")
    case False
    then show ?thesis using assms by (simp add: step_def)
  next
    case True
    then show ?thesis
      using assms Cons unfolding in_time_def sane_def
      by (cases "OpenKind st"; cases "the (OpenKind st)"; auto simp: step_defs split: if_splits)
  qed
qed

lemma open_in_time:
  assumes "sane st" "in_time st es" "OpenKind st = None" "is_open new" "ev_opened new = t"
    and "x = ProbeFailing \<and> ConsecFails st > 0 \<and> t = FirstFailAt st
        \<or> x = ProbeDegraded \<and> ConsecDegraded st > 0 \<and> t = FirstDegradedAt st"
  shows "in_time (st\<lparr>OpenEventID := Some (ev_id new), OpenKind := Some x\<rparr>) (new # es)"
proof -
  have "timeline (new # es)"
    using assms(2-6) by (cases es) (auto simp: in_time_def span_ok_def is_open_def mark_def split: option.splits)
  then show ?thesis
    using assms(1,4,5,6) unfolding in_time_def sane_def by (auto simp: mark_def is_open_def)
qed

lemma close_in_time:
  assumes "sane st" "in_time st (ev # es)"
    and "OpenKind st = Some ProbeFailing \<and> ConsecOKs st > 0 \<and> t = FirstOKAt st
      \<or> OpenKind st = Some ProbeDegraded \<and> (ConsecFails st > 0 \<and> t = FirstFailAt st \<or> ConsecClean st > 0 \<and> t = FirstCleanAt st)"
  shows "in_time (st\<lparr>OpenEventID := None, OpenKind := None\<rparr>) (ev\<lparr>ev_closed := Some t\<rparr> # es)"
proof -
  have o: "is_open ev" and tl: "timeline (ev # es)"
    using assms(2,3) by (auto simp: in_time_def)
  then have m: "mark ev = ev_opened ev"
    by (simp add: mark_def is_open_def)
  have lt: "ev_opened ev < t"
    using assms(2,3) m by (elim disjE conjE) (simp_all add: in_time_def)
  then have "timeline (ev\<lparr>ev_closed := Some t\<rparr> # es)"
    using tl by (cases es) (auto simp: span_ok_def split: option.splits)
  moreover have "t \<le> LastTime st" "ConsecFails st > 0 \<longrightarrow> t \<le> FirstFailAt st" "ConsecDegraded st > 0 \<longrightarrow> t \<le> FirstDegradedAt st"
  proof -
    consider "ConsecOKs st > 0" "t = FirstOKAt st" | "ConsecFails st > 0" "t = FirstFailAt st" | "ConsecClean st > 0" "t = FirstCleanAt st"
      using assms(3) by blast
    then have "t \<le> LastTime st \<and> (ConsecFails st > 0 \<longrightarrow> t \<le> FirstFailAt st) \<and> (ConsecDegraded st > 0 \<longrightarrow> t \<le> FirstDegradedAt st)"
      using assms(1) unfolding sane_def by cases auto
    then show "t \<le> LastTime st" "ConsecFails st > 0 \<longrightarrow> t \<le> FirstFailAt st" "ConsecDegraded st > 0 \<longrightarrow> t \<le> FirstDegradedAt st"
      by simp_all
  qed
  ultimately show ?thesis
    by (simp add: in_time_def mark_def is_open_def)
qed

lemma openEvent_new:
  assumes "owns evs (agent, r_ProbeID r) st" "OpenKind st = None" "x \<noteq> AgentOffline"
  shows "\<exists>new. openEvent gen agent r x t d evs = (ev_id new, evs @ [new]) \<and> is_open new \<and> ev_opened new = t"
proof -
  have "find (\<lambda>ev. ev_agent ev = agent \<and> ev_probe ev = Some (r_ProbeID r) \<and> ev_kind ev = x \<and> is_open ev) evs = None"
    using assms by (auto simp: find_None_iff owns_def probe_event_def)
  then show ?thesis
    by (auto simp: openEvent_def Let_def is_open_def)
qed

lemma close_last:
  assumes "ids_ok (evs0 @ rev (ev # es))" "is_open ev"
  shows "closeEvent (ev_id ev) t (evs0 @ rev (ev # es)) = evs0 @ rev (ev\<lparr>ev_closed := Some t\<rparr> # es)"
proof -
  have "ev_id e \<noteq> ev_id ev" if "e \<in> set evs0 \<or> e \<in> set es" for e
    using assms(1) that by (auto simp: ids_ok_def) (metis image_eqI)+
  then have "map (\<lambda>e. if ev_id e = ev_id ev \<and> is_open e then e\<lparr>ev_closed := Some t\<rparr> else e) xs = xs"
    if "set xs \<subseteq> set evs0 \<union> set es" for xs
    using that by (induction xs) auto
  then show ?thesis
    using assms(2) by (simp add: closeEvent_def)
qed

lemma exec_in_time:
  assumes "sane st" "in_time st es" "timed st (OpenKind st) ops" "ids_ok evs" "owns evs (agent, r_ProbeID r) st" "fresh_gen gen"
    and "evs = evs0 @ rev es" "exec_ops gen agent r ops (st, evs, trs) = Some (st', evs', trs')"
  shows "\<exists>es'. evs' = evs0 @ rev es' \<and> in_time st' es' \<and> sane st'"
  using assms
proof (induction ops arbitrary: st es evs trs)
  case Nil
  then show ?case by auto
next
  case (Cons o1 ops)
  show ?case
  proof (cases o1)
    case (Open x t d)
    have k: "OpenKind st = None" "x \<noteq> AgentOffline" and tm: "x = ProbeFailing \<and> ConsecFails st > 0 \<and> t = FirstFailAt st
        \<or> x = ProbeDegraded \<and> ConsecDegraded st > 0 \<and> t = FirstDegradedAt st"
      using Cons.prems(3) Open by auto
    obtain new where new: "openEvent gen agent r x t d evs = (ev_id new, evs @ [new])" "is_open new" "ev_opened new = t"
      using openEvent_new[OF Cons.prems(5) k] by blast
    note w = open_owns[OF Cons.prems(4,5) k Cons.prems(6) new(1)]
    let ?st = "st\<lparr>OpenEventID := Some (ev_id new), OpenKind := Some x\<rparr>"
    have "in_time ?st (new # es)"
      using open_in_time[OF Cons.prems(1,2) k(1) new(2,3) tm] .
    moreover have "sane ?st" "timed ?st (OpenKind ?st) ops" "evs @ [new] = evs0 @ rev (new # es)"
      using Cons.prems(1,3,7) Open by simp_all
    ultimately show ?thesis
      using Cons.IH[of ?st "new # es" "evs @ [new]"] w Cons.prems(6,8) Open new(1) by simp
  next
    case (Close t)
    have tm: "OpenKind st = Some ProbeFailing \<and> ConsecOKs st > 0 \<and> t = FirstOKAt st
      \<or> OpenKind st = Some ProbeDegraded \<and> (ConsecFails st > 0 \<and> t = FirstFailAt st \<or> ConsecClean st > 0 \<and> t = FirstCleanAt st)"
      using Cons.prems(3) Close by simp
    then obtain ev rest where es: "es = ev # rest" and i: "OpenEventID st = Some (ev_id ev)" "is_open ev"
      using Cons.prems(2) by (cases es) (auto simp: in_time_def)
    note w = close_owns[OF Cons.prems(4,5) i(1), of t]
    have cl: "closeEvent (ev_id ev) t evs = evs0 @ rev (ev\<lparr>ev_closed := Some t\<rparr> # rest)"
      using close_last[of evs0 ev rest t] i(2) Cons.prems(4,7) es by simp
    let ?st = "st\<lparr>OpenEventID := None, OpenKind := None\<rparr>"
    have "in_time ?st (ev\<lparr>ev_closed := Some t\<rparr> # rest)"
      using close_in_time[OF Cons.prems(1) _ tm] Cons.prems(2) es by simp
    moreover have "sane ?st" "timed ?st (OpenKind ?st) ops"
      using Cons.prems(1,3) Close by simp_all
    ultimately show ?thesis
      using Cons.IH[of ?st "ev\<lparr>ev_closed := Some t\<rparr> # rest" "closeEvent (ev_id ev) t evs"] w Cons.prems(6,8) Close i(1) cl by simp
  qed
qed

lemma fold_in_time:
  assumes "sane st" "in_time st es" "ids_ok evs" "owns evs (agent, p) st" "fresh_gen gen" "evs = evs0 @ rev es"
    and "\<forall>r\<in>set rs. r_ProbeID r = p" "fold_batch gen agent rs (st, evs, trs) = Some (st', evs', trs')"
  shows "\<exists>es'. evs' = evs0 @ rev es' \<and> in_time st' es'"
  using assms
proof (induction rs arbitrary: st es evs trs)
  case Nil
  then show ?case by auto
next
  case (Cons r rs)
  obtain st1 ops where s: "step st r = (st1, ops)" by (metis surj_pair)
  have p: "r_ProbeID r = p" using Cons.prems(7) by simp
  note w = owns_step[OF Cons.prems(4) s]
  obtain st2 evs2 trs2 where e: "exec_ops gen agent r ops (st1, evs, trs) = Some (st2, evs2, trs2)"
    "fold_batch gen agent rs (st2, evs2, trs2) = Some (st', evs', trs')"
    using Cons.prems(8) s by (auto simp: bind_eq_Some_conv)
  have own1: "owns evs (agent, r_ProbeID r) st1" using w(1) p by simp
  obtain es2 where es2: "evs2 = evs0 @ rev es2" "in_time st2 es2" "sane st2"
    using exec_in_time[OF step_sane[OF Cons.prems(1) s] step_in_time[OF Cons.prems(1,2) s] step_timed[OF s] Cons.prems(3) own1
        Cons.prems(5,6) e(1)] by blast
  have "ids_ok evs2" "owns evs2 (agent, p) st2"
    using exec_ops_owns[OF Cons.prems(3) own1 w(2) Cons.prems(5), of trs] e(1) p by auto
  then show ?case
    using Cons.IH[OF es2(3,2) _ _ Cons.prems(5) es2(1) _ e(2)] Cons.prems(7) by simp
qed

end
