(* ===== verification/Outage_Sweep.thy ===== *)
theory Outage_Sweep
  imports Outage_Apply
begin

text \<open>
  The silence sweep (\<open>internal/server/outage/sweep.go\<close>): \<open>closeOrphanEvents\<close> closes events of
  probes nobody runs any more and repairs dangling pointers, \<open>sweepOnce\<close> opens and closes
  \<open>agent_offline\<close> events. The rows of the sweep's query are its input; the column with the open
  event is read from the event table.
\<close>

section \<open>Orphans\<close>

definition orphan :: "uuid list \<Rightarrow> event \<Rightarrow> bool" where
  "orphan ids ev \<longleftrightarrow> (ev_kind ev = ProbeFailing \<or> ev_kind ev = ProbeDegraded) \<and> is_open ev
     \<and> (case ev_probe ev of None \<Rightarrow> False | Some p \<Rightarrow> p \<notin> set ids)"

definition dangling :: "event list \<Rightarrow> series_row \<Rightarrow> bool" where
  "dangling evs row =
     (case s_open row of None \<Rightarrow> False | Some i \<Rightarrow> list_ex (\<lambda>ev. ev_id ev = i \<and> \<not> is_open ev) evs)"

definition reset_row :: "series_row \<Rightarrow> series_row" where
  "reset_row row = row\<lparr>s_open := None, s_fails := 0, s_oks := 0, s_degraded := 0, s_clean := 0,
     s_first_fail := None, s_first_ok := None, s_first_degraded := None, s_first_clean := None\<rparr>"

text \<open>The assigned set as the callback returns it; a nil slice (\<open>None\<close>) counts as the empty set.\<close>

definition closeOrphanEvents :: "uuid list option \<Rightarrow> gtime \<Rightarrow> outage_db \<Rightarrow> outage_db" where
  "closeOrphanEvents assigned now db =
     (let ids = (case assigned of None \<Rightarrow> [] | Some ids \<Rightarrow> ids);
          orphans = map ev_id (filter (orphan ids) (od_events db));
          evs = foldl (\<lambda>evs i. closeEvent i now evs) (od_events db) orphans
      in db\<lparr>od_events := evs,
            od_series := (\<lambda>k. map_option (\<lambda>row. if dangling evs row then reset_row row else row) (od_series db k))\<rparr>)"

lemma close_many:
  "foldl (\<lambda>evs i. closeEvent i now evs) evs is =
     map (\<lambda>ev. if ev_id ev \<in> set is \<and> is_open ev then ev\<lparr>ev_closed := Some now\<rparr> else ev) evs"
proof (induction "is" arbitrary: evs)
  case (Cons i "is")
  then show ?case
    by (auto simp: closeEvent_def is_open_def)
qed simp

text \<open>With unique ids, exactly the orphans are closed.\<close>

lemma closed_orphans:
  assumes "ids_ok evs"
  shows "foldl (\<lambda>evs i. closeEvent i now evs) evs (map ev_id (filter (orphan ids) evs)) =
    map (\<lambda>ev. if orphan ids ev then ev\<lparr>ev_closed := Some now\<rparr> else ev) evs"
proof -
  have "ev_id ev \<in> set (map ev_id (filter (orphan ids) evs)) \<and> is_open ev \<longleftrightarrow> orphan ids ev" if "ev \<in> set evs" for ev
  proof
    assume a: "ev_id ev \<in> set (map ev_id (filter (orphan ids) evs)) \<and> is_open ev"
    then obtain ev' where "ev' \<in> set evs" "orphan ids ev'" "ev_id ev' = ev_id ev" by auto
    then show "orphan ids ev"
      using assms that by (metis distinct_map ids_ok_def inj_onD)
  qed (use that in \<open>auto simp: orphan_def\<close>)
  then show ?thesis by (simp add: close_many cong: if_cong)
qed

lemma orphan_sweep_clears:
  assumes "ids_ok (od_events db)"
  shows "\<forall>ev\<in>set (od_events (closeOrphanEvents assigned now db)).
      \<not> orphan (case assigned of None \<Rightarrow> [] | Some ids \<Rightarrow> ids) ev"
  using assms by (auto simp: closeOrphanEvents_def Let_def closed_orphans orphan_def is_open_def)

lemma reset_not_dangling [simp]: "\<not> dangling evs (reset_row row)"
  by (simp add: dangling_def reset_row_def)

lemma sweep_no_dangling:
  assumes "od_series (closeOrphanEvents assigned now db) k = Some row"
  shows "\<not> dangling (od_events (closeOrphanEvents assigned now db)) row"
  using assms by (auto simp: closeOrphanEvents_def Let_def split: if_splits) (metis reset_not_dangling)

lemma owns_fewer_open:
  assumes "owns evs k st" "\<And>e. e \<in> set evs' \<Longrightarrow> is_open e \<Longrightarrow> e \<in> set evs"
    "\<And>ev. ev \<in> set evs \<Longrightarrow> OpenEventID st = Some (ev_id ev) \<Longrightarrow> probe_event k ev \<Longrightarrow> is_open ev \<Longrightarrow> ev \<in> set evs'"
  shows "owns evs' k st"
  using assms unfolding owns_def by meson

lemma load_open [simp]: "OpenEventID (load_state evs row) = s_open row"
  by (simp add: load_state_def)

lemma sweep_keeps_inv:
  assumes "db_inv db"
  shows "db_inv (closeOrphanEvents assigned now db)"
proof -
  let ?ids = "case assigned of None \<Rightarrow> [] | Some ids \<Rightarrow> ids"
  let ?c = "\<lambda>ev. if orphan ?ids ev then ev\<lparr>ev_closed := Some now\<rparr> else ev"
  define E where "E = map ?c (od_events db)"
  let ?db = "closeOrphanEvents assigned now db"
  have ids: "ids_ok (od_events db)" and own: "\<And>k. owns (od_events db) k (lockState db (fst k) (snd k))"
    using assms by (auto simp: db_inv_def)
  have "map ev_id E = map ev_id (od_events db)"
    by (simp add: E_def)
  then have ids': "ids_ok E"
    using ids unfolding ids_ok_def by (metis image_set)
  have still: "e \<in> set (od_events db)" if "e \<in> set E" "is_open e" for e
    using that by (auto simp: E_def is_open_def split: if_splits)
  have gone: "\<not> orphan ?ids e" if "e \<in> set E" for e
    using that by (auto simp: E_def orphan_def is_open_def split: if_splits)
  have evs: "od_events ?db = E"
    by (simp add: closeOrphanEvents_def Let_def closed_orphans[OF ids] E_def)
  have "owns E k (lockState ?db (fst k) (snd k))" for k
  proof (cases "od_series db k")
    case None
    then have "lockState ?db (fst k) (snd k) = zero_state" "lockState db (fst k) (snd k) = zero_state"
      by (simp_all add: lockState_def closeOrphanEvents_def Let_def)
    then show ?thesis
      using owns_fewer_open[OF own[of k] still] by (simp add: zero_state_def)
  next
    case (Some row)
    let ?row = "if dangling E row then reset_row row else row"
    have l: "lockState ?db (fst k) (snd k) = load_state E ?row"
      using Some by (simp add: lockState_def closeOrphanEvents_def Let_def closed_orphans[OF ids] E_def)
    have st: "lockState db (fst k) (snd k) = load_state (od_events db) row"
      using Some by (simp add: lockState_def)
    show ?thesis
    proof (cases "s_open row")
      case None
      then have "owns E k (load_state (od_events db) row)"
        using owns_fewer_open[OF own[of k] still] st by (simp add: load_state_def)
      with None show ?thesis
        unfolding l by (intro owns_load[OF ids']) (auto simp: dangling_def load_state_def)
    next
      case (Some i)
      then obtain ev where ev: "ev \<in> set (od_events db)" "ev_id ev = i" "probe_event k ev" "is_open ev"
        using own[of k] st by (auto simp: owns_def load_state_def)
      have only: "e = ev" if "e \<in> set (od_events db)" "probe_event k e \<and> is_open e \<or> ev_id e = i" for e
      proof -
        have "ev_id e = i"
          using own[of k] st that Some by (auto simp: owns_def load_state_def)
        then show ?thesis
          using ids ev(1,2) that(1) by (metis distinct_map ids_ok_def inj_onD)
      qed
      show ?thesis
      proof (cases "orphan ?ids ev")
        case True
        then have "?c ev \<in> set E" "ev_id (?c ev) = i" "\<not> is_open (?c ev)"
          using ev by (auto simp: is_open_def E_def)
        then have "dangling E row"
          using Some unfolding dangling_def list_ex_iff by (simp del: set_map) metis
        moreover have "\<not> (probe_event k e \<and> is_open e)" if "e \<in> set E" for e
          using still[OF that] only[of e] gone[OF that] True by auto
        ultimately show ?thesis
          unfolding l by (auto simp: owns_def load_state_def reset_row_def)
      next
        case False
        have keep: "ev \<in> set E" using ev(1) False by (force simp: E_def)
        have "\<not> dangling E row"
          using Some only ev(4) False by (auto simp: dangling_def list_ex_iff E_def split: if_splits)
        moreover have o: "owns E k (load_state (od_events db) row)"
          using own[of k] unfolding st by (rule owns_fewer_open) (use still only keep in auto)
        ultimately show ?thesis
          unfolding l using owns_load[OF ids' o, of row] by simp
      qed
    qed
  qed
  then show ?thesis
    using ids' evs by (simp add: db_inv_def)
qed

section \<open>Silent agents\<close>

definition offlineSeenGrace :: duration where "offlineSeenGrace = 2 * minute"

record agentSignals =
  sg_AgentID :: uuid
  sg_LastSeen :: gtime
  sg_MinInterval :: duration
  sg_LastResult :: gtime
  sg_OpenEventID :: "uuid option"

definition silent :: "gtime \<Rightarrow> agentSignals \<Rightarrow> bool" where
  "silent now s \<longleftrightarrow>
     (sg_LastResult s = 0 \<or> sg_MinInterval s \<le> 0 \<or> time_sub now (sg_LastResult s) > 3 * sg_MinInterval s)
     \<and> time_sub now (sg_LastSeen s) > offlineSeenGrace"

definition decideOffline :: "gtime \<Rightarrow> agentSignals \<Rightarrow> bool \<times> bool" where
  "decideOffline now s =
     (let resultSilent = (sg_LastResult s = 0 \<or> sg_MinInterval s \<le> 0
                          \<or> time_sub now (sg_LastResult s) > 3 * sg_MinInterval s);
          seenSilent = time_sub now (sg_LastSeen s) > offlineSeenGrace;
          slnt = (resultSilent \<and> seenSilent)
      in if sg_OpenEventID s = None then (slnt, False) else (False, \<not> slnt))"

lemma decideOffline_silent:
  "decideOffline now s = (if sg_OpenEventID s = None then (silent now s, False) else (False, \<not> silent now s))"
  by (simp add: decideOffline_def silent_def Let_def)

text \<open>One row of the sweep's query, without the event column.\<close>

record agent_row =
  ar_id :: uuid
  ar_last_seen :: gtime
  ar_interval_ms :: "int option"
  ar_last_result :: "gtime option"

definition offline_open :: "uuid \<Rightarrow> event \<Rightarrow> bool" where
  "offline_open a ev \<longleftrightarrow> ev_agent ev = a \<and> ev_kind ev = AgentOffline \<and> is_open ev"

definition scan_signals :: "event list \<Rightarrow> agent_row \<Rightarrow> agentSignals" where
  "scan_signals evs a =
     \<lparr>sg_AgentID = ar_id a, sg_LastSeen = ar_last_seen a,
      sg_MinInterval = (case ar_interval_ms a of None \<Rightarrow> 0 | Some ms \<Rightarrow> ms * millisecond),
      sg_LastResult = (case ar_last_result a of None \<Rightarrow> 0 | Some t \<Rightarrow> t),
      sg_OpenEventID = map_option ev_id (find (offline_open (ar_id a)) evs)\<rparr>"

definition openOffline :: "(uuid list \<Rightarrow> uuid) \<Rightarrow> uuid \<Rightarrow> gtime \<Rightarrow> event list \<Rightarrow> event list" where
  "openOffline gen a ts evs =
     (if list_ex (offline_open a) evs then evs
      else evs @ [\<lparr>ev_id = gen (map ev_id evs), ev_kind = AgentOffline, ev_agent = a, ev_probe = None, ev_target = None,
                   ev_type = None, ev_opened = ts, ev_closed = None, ev_error = None\<rparr>])"

definition sweep_agent :: "(uuid list \<Rightarrow> uuid) \<Rightarrow> gtime \<Rightarrow> agentSignals \<Rightarrow> event list \<Rightarrow> event list" where
  "sweep_agent gen now s evs =
     (let (opn, cls) = decideOffline now s
      in if opn
         then openOffline gen (sg_AgentID s) (if sg_LastResult s > sg_LastSeen s then sg_LastResult s else sg_LastSeen s) evs
         else if cls then (case sg_OpenEventID s of None \<Rightarrow> evs | Some i \<Rightarrow> closeEvent i now evs)
         else evs)"

definition sweepOnce :: "(uuid list \<Rightarrow> uuid) \<Rightarrow> gtime \<Rightarrow> agent_row list \<Rightarrow> outage_db \<Rightarrow> outage_db" where
  "sweepOnce gen now rows db =
     (let agents = map (scan_signals (od_events db)) rows
      in db\<lparr>od_events := foldl (\<lambda>evs s. sweep_agent gen now s evs) (od_events db) agents\<rparr>)"

definition one_offline :: "event list \<Rightarrow> bool" where
  "one_offline evs \<longleftrightarrow> (\<forall>a. length (filter (offline_open a) evs) \<le> 1)"

lemma filter_le1_find:
  "length (filter P xs) \<le> 1 \<Longrightarrow> find P xs = Some x \<Longrightarrow> filter P xs = [x]"
proof (induction xs)
  case (Cons y ys)
  then show ?case by (auto split: if_splits)
qed simp

lemma find_filter_None: "find P xs = None \<longleftrightarrow> filter P xs = []"
  by (auto simp: find_None_iff filter_empty_conv)

lemma filter_map_same:
  "(\<And>x. x \<in> set xs \<Longrightarrow> f x = x \<or> (\<not> Q x \<and> \<not> Q (f x))) \<Longrightarrow> filter Q (map f xs) = filter Q xs"
  by (induction xs) fastforce+

lemma close_one:
  assumes "ids_ok evs" "ev \<in> set evs" "is_open ev"
  shows "closeEvent (ev_id ev) t evs = map (\<lambda>e. if e = ev then ev\<lparr>ev_closed := Some t\<rparr> else e) evs"
  unfolding closeEvent_def using assms by (auto simp: ids_ok_def distinct_map dest: inj_onD)

lemma close_ids: "ids_ok (closeEvent i t evs) = ids_ok evs"
proof -
  have "map ev_id (closeEvent i t evs) = map ev_id evs"
    by (auto simp: closeEvent_def)
  then show ?thesis unfolding ids_ok_def by (metis image_set)
qed

text \<open>What one agent's turn does to the open offline events of each agent.\<close>

lemma sweep_agent_offline:
  assumes "ids_ok evs" "one_offline evs" "fresh_gen gen"
    and sig: "sg_OpenEventID s = map_option ev_id (find (offline_open (sg_AgentID s)) evs)"
  shows "ids_ok (sweep_agent gen now s evs)" and "one_offline (sweep_agent gen now s evs)"
    and "find (offline_open (sg_AgentID s)) (sweep_agent gen now s evs) \<noteq> None \<longleftrightarrow> silent now s"
    and "\<And>a. a \<noteq> sg_AgentID s \<Longrightarrow> filter (offline_open a) (sweep_agent gen now s evs) = filter (offline_open a) evs"
    and "filter (\<lambda>ev. ev_kind ev \<noteq> AgentOffline) (sweep_agent gen now s evs) = filter (\<lambda>ev. ev_kind ev \<noteq> AgentOffline) evs"
proof -
  let ?a = "sg_AgentID s" and ?r = "sweep_agent gen now s evs"
  have one: "length (filter (offline_open a) evs) \<le> 1" for a
    using assms(2) by (simp add: one_offline_def)
  have "ids_ok ?r \<and> one_offline ?r \<and> (find (offline_open ?a) ?r \<noteq> None \<longleftrightarrow> silent now s)
    \<and> (\<forall>a. a \<noteq> ?a \<longrightarrow> filter (offline_open a) ?r = filter (offline_open a) evs)
    \<and> filter (\<lambda>ev. ev_kind ev \<noteq> AgentOffline) ?r = filter (\<lambda>ev. ev_kind ev \<noteq> AgentOffline) evs"
  proof (cases "find (offline_open ?a) evs")
    case None
    then have no: "filter (offline_open ?a) evs = []" "\<not> list_ex (offline_open ?a) evs"
      by (auto simp: find_None_iff list_ex_iff filter_empty_conv)
    show ?thesis
    proof (cases "silent now s")
      case True
      define new where "new = \<lparr>ev_id = gen (map ev_id evs), ev_kind = AgentOffline, ev_agent = ?a, ev_probe = None, ev_target = None,
         ev_type = None, ev_opened = (if sg_LastResult s > sg_LastSeen s then sg_LastResult s else sg_LastSeen s),
         ev_closed = None, ev_error = None\<rparr>"
      have r: "?r = evs @ [new]"
        using True None no(2) sig by (simp add: sweep_agent_def decideOffline_silent openOffline_def new_def)
      have n: "offline_open ?a new" "\<And>a. a \<noteq> ?a \<Longrightarrow> \<not> offline_open a new" "ev_kind new = AgentOffline"
        by (auto simp: new_def offline_open_def is_open_def)
      have "ev_id new \<notin> ev_id ` set evs" "ev_id new \<noteq> 0"
        using assms(3) by (auto simp: fresh_gen_def new_def) (metis image_eqI image_set)
      moreover have "one_offline ?r"
        unfolding one_offline_def
      proof
        fix a
        show "length (filter (offline_open a) ?r) \<le> 1"
          using one[of a] n no by (cases "a = ?a") (simp_all add: r)
      qed
      ultimately show ?thesis
        using assms(1) n no True by (auto simp: r ids_ok_def find_None_iff)
    next
      case False
      then have "?r = evs"
        using None sig by (simp add: sweep_agent_def decideOffline_silent)
      then show ?thesis
        using assms(1,2) None False by simp
    qed
  next
    case (Some ev)
    then have ev: "ev \<in> set evs" "offline_open ?a ev" "is_open ev"
      by (auto simp: find_Some_iff offline_open_def)
    have only: "filter (offline_open ?a) evs = [ev]"
      using filter_le1_find[OF one Some] .
    show ?thesis
    proof (cases "silent now s")
      case True
      then have "?r = evs"
        using Some sig by (simp add: sweep_agent_def decideOffline_silent)
      then show ?thesis
        using assms(1,2) Some True by simp
    next
      case False
      then have r0: "?r = closeEvent (ev_id ev) now evs"
        using Some sig by (simp add: sweep_agent_def decideOffline_silent)
      then have r: "?r = map (\<lambda>e. if e = ev then ev\<lparr>ev_closed := Some now\<rparr> else e) evs"
        using close_one[OF assms(1) ev(1,3)] by simp
      have c: "\<not> offline_open a (ev\<lparr>ev_closed := Some now\<rparr>)" for a
        by (simp add: offline_open_def is_open_def)
      have other: "filter (offline_open a) ?r = filter (offline_open a) evs" if "a \<noteq> ?a" for a
        unfolding r using c that ev(2) by (intro filter_map_same) (auto simp: offline_open_def)
      have kinds: "filter (\<lambda>ev. ev_kind ev \<noteq> AgentOffline) ?r = filter (\<lambda>ev. ev_kind ev \<noteq> AgentOffline) evs"
        unfolding r using ev(2) by (intro filter_map_same) (auto simp: offline_open_def)
      have "x = ev" if "x \<in> set evs" "offline_open ?a x" for x
      proof -
        have "x \<in> set (filter (offline_open ?a) evs)" using that by simp
        then show ?thesis unfolding only by simp
      qed
      then have none: "filter (offline_open ?a) ?r = []"
        unfolding r using c by (auto simp: filter_empty_conv)
      have "one_offline ?r"
        unfolding one_offline_def
      proof
        fix a
        show "length (filter (offline_open a) ?r) \<le> 1"
          using one[of a] other none by (cases "a = ?a") simp_all
      qed
      then show ?thesis
        using False assms(1) other none kinds close_ids r0 by (simp add: find_filter_None)
    qed
  qed
  then show "ids_ok ?r" "one_offline ?r" "find (offline_open ?a) ?r \<noteq> None \<longleftrightarrow> silent now s"
    "\<And>a. a \<noteq> ?a \<Longrightarrow> filter (offline_open a) ?r = filter (offline_open a) evs"
    "filter (\<lambda>ev. ev_kind ev \<noteq> AgentOffline) ?r = filter (\<lambda>ev. ev_kind ev \<noteq> AgentOffline) evs"
    by auto
qed

lemma sweep_all_offline:
  assumes "ids_ok evs" "one_offline evs" "fresh_gen gen" "distinct (map sg_AgentID ss)"
    and "\<forall>s\<in>set ss. sg_OpenEventID s = map_option ev_id (find (offline_open (sg_AgentID s)) evs)"
  shows "let r = foldl (\<lambda>evs s. sweep_agent gen now s evs) evs ss in
    ids_ok r \<and> one_offline r \<and> (\<forall>s\<in>set ss. find (offline_open (sg_AgentID s)) r \<noteq> None \<longleftrightarrow> silent now s)
    \<and> (\<forall>a. a \<notin> sg_AgentID ` set ss \<longrightarrow> filter (offline_open a) r = filter (offline_open a) evs)
    \<and> filter (\<lambda>ev. ev_kind ev \<noteq> AgentOffline) r = filter (\<lambda>ev. ev_kind ev \<noteq> AgentOffline) evs"
  using assms(1,2,4,5)
proof (induction ss arbitrary: evs)
  case Nil
  then show ?case by simp
next
  case (Cons s ss)
  let ?e = "sweep_agent gen now s evs"
  let ?r = "foldl (\<lambda>evs s. sweep_agent gen now s evs) ?e ss"
  have "sg_OpenEventID s = map_option ev_id (find (offline_open (sg_AgentID s)) evs)"
    using Cons.prems(4) by simp
  note st = sweep_agent_offline[OF Cons.prems(1,2) assms(3) this, where now = now]
  have ff: "find P xs = (case filter P xs of [] \<Rightarrow> None | x # _ \<Rightarrow> Some x)" for P and xs :: "event list"
    by (induction xs) auto
  have sig: "\<forall>x\<in>set ss. sg_OpenEventID x = map_option ev_id (find (offline_open (sg_AgentID x)) ?e)"
  proof
    fix x assume "x \<in> set ss"
    then have "filter (offline_open (sg_AgentID x)) ?e = filter (offline_open (sg_AgentID x)) evs"
      using Cons.prems(3) by (intro st(4)) (simp, metis image_eqI)
    then show "sg_OpenEventID x = map_option ev_id (find (offline_open (sg_AgentID x)) ?e)"
      using Cons.prems(4) \<open>x \<in> set ss\<close> by (simp add: ff)
  qed
  have "distinct (map sg_AgentID ss)" using Cons.prems(3) by simp
  note IH = Cons.IH[OF st(1,2) this sig, unfolded Let_def]
  have "filter (offline_open (sg_AgentID s)) ?r = filter (offline_open (sg_AgentID s)) ?e"
    using IH Cons.prems(3) by auto
  then have "find (offline_open (sg_AgentID s)) ?r \<noteq> None \<longleftrightarrow> silent now s"
    using st(3) by (simp add: ff)
  moreover have "filter (offline_open a) ?r = filter (offline_open a) evs" if "a \<notin> sg_AgentID ` set (s # ss)" for a
    using IH st(4)[of a] that by auto
  ultimately show ?case
    using IH st(5) by (simp add: Let_def)
qed

end
