(* ===== verification/Outage_Correct.thy ===== *)
theory Outage_Correct
  imports Outage_Timeline Outage_Sweep
begin

text \<open>The properties of outage detection.\<close>

section \<open>Concrete inputs for the witnesses\<close>

definition demo_gen :: "uuid list \<Rightarrow> uuid" where
  "demo_gen xs = Suc (sum_list xs)"

lemma demo_gen_fresh: "fresh_gen demo_gen"
proof -
  have "x \<in> set xs \<Longrightarrow> x \<le> sum_list xs" for x :: nat and xs
    by (simp add: member_le_sum_list)
  then show ?thesis
    by (fastforce simp: fresh_gen_def demo_gen_def)
qed

definition demo_result :: "uuid \<Rightarrow> gtime \<Rightarrow> bool \<Rightarrow> result" where
  "demo_result p t ok = \<lparr>r_ProbeID = p, r_TargetID = 9, r_ProbeType = 1, r_Time = t, r_OK = ok, r_StatusCode = 1, r_Error = ''x'',
     r_Degraded = False, r_DegradedDetail = '''', r_LossPct = None, r_LatencyUS = None, r_LatencySource = None\<rparr>"

definition empty_db :: outage_db where
  "empty_db = \<lparr>od_events = [], od_series = Map.empty\<rparr>"

lemma empty_db_inv: "db_inv empty_db"
  by (simp add: db_inv_def empty_db_def ids_ok_def owns_def lockState_def zero_state_def)

section \<open>Properties\<close>

text \<open>
  C6: the hysteresis implements its specification. Folding a history of results in time order
  from a fresh state never dereferences a missing event, and the kind of event then open is what
  \<open>verdict\<close> says by looking at the last three grades only: three failures in a row open
  \<open>probe_failing\<close> (also from degraded), three successes close it (to degraded when all three
  breach), three breaching successes open \<open>probe_degraded\<close>, three clean ones close it.
\<close>

theorem hysteresis_refines_verdict:
  assumes "sorted_wrt (<) (0 # map r_Time rs)"
  shows "\<exists>st evs' trs'. fold_batch gen agent rs (zero_state, evs, trs) = Some (st, evs', trs')
    \<and> OpenKind st = verdict (map classify (rev rs)) \<and> (OpenEventID st = None \<longleftrightarrow> OpenKind st = None)
    \<and> ConsecFails st = int (length (takeWhile (\<lambda>r. \<not> r_OK r) (rev rs)))"
proof -
  obtain st evs' trs' where f: "fold_batch gen agent rs (zero_state, evs, trs) = Some (st, evs', trs')" "tracks (rev rs) st"
    using fold_batch_tracks[OF tracks_zero, of rs gen agent evs trs] assms by (auto simp: zero_state_def)
  have "classify r = Down \<longleftrightarrow> \<not> r_OK r" for r
    by (simp add: classify_def)
  then have "downs (rev rs) = takeWhile (\<lambda>r. \<not> r_OK r) (rev rs)"
    by (simp add: streak_def)
  with f show ?thesis
    by (simp add: tracks_def counts_def)
qed

theorem hysteresis_refines_verdict_witness:
  "\<exists>st evs' trs'. fold_batch demo_gen 1 (map (\<lambda>t. demo_result 2 t False) [1, 2, 3]) (zero_state, [], []) = Some (st, evs', trs')
    \<and> OpenKind st = Some ProbeFailing"
proof -
  let ?rs = "map (\<lambda>t. demo_result 2 t False) [1, 2, 3]"
  have 1: "sorted_wrt (<) (0 # map r_Time ?rs)"
    by (simp add: demo_result_def)
  have 2: "verdict (map classify (rev ?rs)) = Some ProbeFailing"
    by (simp add: demo_result_def classify_def last3_def numeral_3_eq_3)
  show ?thesis
    using hysteresis_refines_verdict[OF 1, of demo_gen 1 "[]" "[]"] unfolding 2 by blast
qed



text \<open>
  C7: the pointer invariant. \<open>Apply\<close> on consistent tables always completes and leaves them
  consistent: ids stay unique, a series row points to an event exactly when the series has an
  open probe event, and no series ever has two probe events open.
\<close>

theorem apply_keeps_pointers:
  assumes "fresh_gen gen" "db_inv db"
  shows "\<exists>trs db'. Apply gen agent results db = Some (trs, db') \<and> db_inv db'
    \<and> (\<forall>k. length (filter (\<lambda>ev. probe_event k ev \<and> is_open ev) (od_events db')) \<le> 1)"
proof -
  obtain trs db' where a: "Apply gen agent results db = Some (trs, db')" "db_inv db'"
    using Apply_keeps[OF assms] by blast
  have "length (filter (\<lambda>ev. probe_event k ev \<and> is_open ev) (od_events db')) \<le> 1" for k
  proof -
    let ?f = "filter (\<lambda>ev. probe_event k ev \<and> is_open ev) (od_events db')"
    have ids: "distinct (map ev_id (od_events db'))"
      using a(2) by (simp add: db_inv_def ids_ok_def)
    have "distinct (map ev_id ?f)"
      using ids by (rule distinct_map_filter)
    moreover have "set (map ev_id ?f) \<subseteq> set_option (OpenEventID (lockState db' (fst k) (snd k)))"
      using a(2) by (auto simp: db_inv_def owns_def)
    moreover have "finite (set_option x)" "card (set_option x) \<le> 1" for x :: "uuid option"
      by (cases x; simp)+
    ultimately show ?thesis
      by (metis card_mono distinct_card le_trans length_map)
  qed
  with a show ?thesis by blast
qed

theorem apply_keeps_pointers_witness:
  "\<exists>trs db'. Apply demo_gen 1 [demo_result 2 5 False] empty_db = Some (trs, db') \<and> db_inv db'"
  using apply_keeps_pointers[OF demo_gen_fresh empty_db_inv, of 1 "[demo_result 2 5 False]"] by blast

text \<open>
  C8: arrival order does not matter. For results with distinct (probe, time), as the inserted
  rows of the hypertable are, any permutation of a push gives the same transitions and tables.
\<close>

theorem apply_order_independent:
  assumes "mset results' = mset results" "distinct (map (\<lambda>r. (r_ProbeID r, r_Time r)) results)"
  shows "Apply gen agent results' db = Apply gen agent results db"
  using assms by (rule Apply_permute)

theorem apply_order_independent_witness:
  "Apply demo_gen 1 [demo_result 2 7 True, demo_result 2 5 False] empty_db =
   Apply demo_gen 1 [demo_result 2 5 False, demo_result 2 7 True] empty_db"
  by (rule apply_order_independent) (simp_all add: demo_result_def)

text \<open>
  Replay is harmless. Applying a push a second time changes nothing: no transition is
  reported and both tables are exactly what the first application left.
\<close>

theorem apply_replay_idempotent:
  assumes "Apply gen agent results db = Some (trs, db')"
  shows "Apply gen agent results db' = Some ([], db')"
  using assms by (rule Apply_replay)

theorem apply_replay_idempotent_witness:
  "\<exists>trs db'. Apply demo_gen 1 [demo_result 2 5 False] empty_db = Some (trs, db')
    \<and> Apply demo_gen 1 [demo_result 2 5 False] db' = Some ([], db')"
  using Apply_keeps[OF demo_gen_fresh empty_db_inv, of 1 "[demo_result 2 5 False]"] apply_replay_idempotent by blast

text \<open>
  The orphan sweep. On consistent tables \<open>closeOrphanEvents\<close> leaves them consistent with no
  open event of an unassigned probe. On any tables at all it leaves no row pointing to a closed
  event.
\<close>

theorem orphan_sweep_repairs:
  "(db_inv db \<longrightarrow> db_inv (closeOrphanEvents assigned now db)
      \<and> (\<forall>ev\<in>set (od_events (closeOrphanEvents assigned now db)).
           \<not> orphan (case assigned of None \<Rightarrow> [] | Some ids \<Rightarrow> ids) ev))
   \<and> (\<forall>k row. od_series (closeOrphanEvents assigned now db) k = Some row \<longrightarrow>
        \<not> dangling (od_events (closeOrphanEvents assigned now db)) row)"
  using sweep_keeps_inv orphan_sweep_clears sweep_no_dangling by (auto simp: db_inv_def)

theorem orphan_sweep_repairs_witness:
  "db_inv (closeOrphanEvents None 5 empty_db)"
  using orphan_sweep_repairs[of empty_db None 5] empty_db_inv by blast

text \<open>
  The silence sweep. After \<open>sweepOnce\<close> each listed agent has an \<open>agent_offline\<close> event open
  exactly when both its signals are silent (no result within three of its fastest intervals, or
  none expected, and no heartbeat for two minutes); no agent has two, probe events and the events
  of agents not listed are untouched.
\<close>

theorem offline_sweep_exact:
  assumes "fresh_gen gen" "ids_ok (od_events db)" "one_offline (od_events db)" "distinct (map ar_id rows)"
    and evs': "od_events (sweepOnce gen now rows db) = evs'"
  shows "ids_ok evs' \<and> one_offline evs'
    \<and> (\<forall>a\<in>set rows. (\<exists>ev\<in>set evs'. offline_open (ar_id a) ev) \<longleftrightarrow> silent now (scan_signals (od_events db) a))
    \<and> (\<forall>i. i \<notin> ar_id ` set rows \<longrightarrow> filter (offline_open i) evs' = filter (offline_open i) (od_events db))
    \<and> filter (\<lambda>ev. ev_kind ev \<noteq> AgentOffline) evs' = filter (\<lambda>ev. ev_kind ev \<noteq> AgentOffline) (od_events db)"
proof -
  let ?ss = "map (scan_signals (od_events db)) rows"
  have id: "sg_AgentID (scan_signals (od_events db) a) = ar_id a" for a
    by (simp add: scan_signals_def)
  have "distinct (map sg_AgentID ?ss)"
    using assms(4) by (simp add: id comp_def)
  moreover have "\<forall>s\<in>set ?ss. sg_OpenEventID s = map_option ev_id (find (offline_open (sg_AgentID s)) (od_events db))"
    by (auto simp: scan_signals_def)
  moreover have "evs' = foldl (\<lambda>evs s. sweep_agent gen now s evs) (od_events db) ?ss"
    by (simp add: evs'[symmetric] sweepOnce_def Let_def)
  ultimately show ?thesis
    using sweep_all_offline[OF assms(2,3,1), of ?ss now] by (auto simp: Let_def id image_image find_None_iff)
qed

theorem offline_sweep_exact_witness:
  "\<exists>ev\<in>set (od_events (sweepOnce demo_gen (10 * minute)
      [\<lparr>ar_id = 4, ar_last_seen = 0, ar_interval_ms = None, ar_last_result = None\<rparr>] empty_db)). offline_open 4 ev"
proof -
  let ?rows = "[\<lparr>ar_id = 4, ar_last_seen = 0, ar_interval_ms = None, ar_last_result = None\<rparr>]"
  have "one_offline (od_events empty_db)" "ids_ok (od_events empty_db)"
    by (simp_all add: one_offline_def empty_db_def ids_ok_def)
  then show ?thesis
    using offline_sweep_exact[OF demo_gen_fresh _ _ _ refl, of empty_db ?rows "10 * minute"]
    by (simp add: silent_def scan_signals_def offlineSeenGrace_def time_sub_def max_duration_def min_duration_def)
qed

end
