(* ===== verification/Enrollment_Tx.thy ===== *)
theory Enrollment_Tx
  imports Enrollment
begin

text \<open>
  The transactions of enrolment, renewal, revocation and token deletion, interleaved statement by
  statement over committed tables (\<open>READ COMMITTED\<close>: a statement sees what is committed when it
  runs). A transaction holds the row locks its statements took until it commits or is rolled back:
  the token row (\<open>FOR UPDATE\<close>), the agent row shared (\<open>lockAgentForIssue\<close>, \<open>FOR KEY SHARE\<close>) or
  exclusive (\<open>lockAgentForRevoke\<close>, \<open>FOR UPDATE\<close>), and the unique keys of rows it has inserted. A
  statement that would conflict waits, so its step is not enabled. Any transaction can be rolled
  back at any point, which is what a failing statement, a refusing check or a lost connection does.
\<close>

section \<open>Locks and transactions\<close>

datatype resource = TokenLock uuid | ShareLock uuid | ExclLock uuid | NewAgent uuid | NewSerial nat

fun conflict :: "resource \<Rightarrow> resource \<Rightarrow> bool" where
  "conflict (TokenLock a) (TokenLock b) = (a = b)"
| "conflict (ShareLock a) (ExclLock b) = (a = b)"
| "conflict (ExclLock a) (ShareLock b) = (a = b)"
| "conflict (ExclLock a) (ExclLock b) = (a = b)"
| "conflict (NewAgent a) (NewAgent b) = (a = b)"
| "conflict (NewSerial a) (NewSerial b) = (a = b)"
| "conflict _ _ = False"

text \<open>What is known of an enrolment once its token is read: the request, the two clocks, the token and how it is used.\<close>

record enrolling =
  en_req :: enroll_req
  en_dbnow :: gtime
  en_now :: gtime
  en_token :: uuid
  en_row :: token_row
  en_use :: "uuid option"

datatype txn =
  EnrollBegun enroll_req gtime
| EnrollToken enrolling
| EnrollLocked enrolling uuid
| EnrollReady enrolling uuid
| EnrollWritten enrolling uuid issued_cert
| RenewBegun uuid nat
| RenewLocked uuid nat
| RenewChecked uuid nat gtime
| RenewWritten uuid nat gtime issued_cert
| RevokeBegun nat
| RevokeRead nat uuid
| RevokeLocked nat uuid
| RevokeWritten nat uuid gtime
| RevokeAllBegun uuid
| RevokeAllLocked uuid
| RevokeAllWritten uuid gtime "nat list"
| DeleteBegun uuid "uuid list option"
| DeleteHeld uuid "uuid list option"

fun resources :: "txn \<Rightarrow> resource list" where
  "resources (EnrollToken e) = [TokenLock (en_token e)]"
| "resources (EnrollLocked e a) = [TokenLock (en_token e), ShareLock a]"
| "resources (EnrollReady e a) = [TokenLock (en_token e), if en_use e = None then NewAgent a else ShareLock a]"
| "resources (EnrollWritten e a c) =
     [TokenLock (en_token e), if en_use e = None then NewAgent a else ShareLock a, NewSerial (ic_serial c)]"
| "resources (RenewLocked a n) = [ShareLock a]"
| "resources (RenewChecked a n t) = [ShareLock a]"
| "resources (RenewWritten a n t c) = [ShareLock a, NewSerial (ic_serial c)]"
| "resources (RevokeLocked n a) = [ExclLock a]"
| "resources (RevokeWritten n a t) = [ExclLock a]"
| "resources (RevokeAllLocked a) = [ExclLock a]"
| "resources (RevokeAllWritten a t ss) = [ExclLock a]"
| "resources (DeleteHeld i sc) = [TokenLock i]"
| "resources _ = []"

section \<open>The operations that have committed\<close>

datatype enroll_op =
  OpEnroll gtime gtime uuid issued_cert enroll_req
| OpRenew gtime uuid nat issued_cert
| OpRevoke gtime nat
| OpRevokeAll gtime uuid
| OpCreateToken uuid string gtime uuid uuid duration
| OpDeleteToken uuid "uuid list option"

text \<open>
  What such an operation does when it runs alone; \<open>None\<close> when it refuses. An enrolment is logged
  with the agent it was for, new or replayed.
\<close>

definition commits :: "'e + 'a \<Rightarrow> 'a option" where
  "commits r = (case r of Inl e \<Rightarrow> None | Inr x \<Rightarrow> Some x)"

fun run_op :: "(string \<Rightarrow> uuid option) \<Rightarrow> (string \<Rightarrow> byte list) \<Rightarrow> enroll_op \<Rightarrow> enroll_db \<Rightarrow> enroll_db option" where
  "run_op parse_uuid sha256 (OpEnroll now dbnow a c req) db =
     Option.bind (commits (EnrollAgent parse_uuid sha256 now dbnow a (\<lambda>_. Some c) req db))
       (\<lambda>(agentID, siteID, db). if agentID = a then Some db else None)"
| "run_op parse_uuid sha256 (OpRenew now a n c) db = commits (RenewCertificate now a n (Some c) db)"
| "run_op parse_uuid sha256 (OpRevoke now n) db = map_option snd (commits (RevokeCertificate now n db))"
| "run_op parse_uuid sha256 (OpRevokeAll now a) db = map_option snd (commits (RevokeAgentCertificates now a db))"
| "run_op parse_uuid sha256 (OpCreateToken i secret now site network ttl) db =
     map_option snd (commits (CreateJoinToken sha256 (\<lambda>_. '''') i secret now site network ttl db))"
| "run_op parse_uuid sha256 (OpDeleteToken i sc) db = commits (DeleteJoinToken i sc db)"

lemma run_enroll:
  "run_op parse_uuid sha256 (OpEnroll now dbnow a c req) db = Some db' \<longleftrightarrow>
     (\<exists>site. EnrollAgent parse_uuid sha256 now dbnow a (\<lambda>_. Some c) req db = Inr (a, site, db'))"
  by (auto simp: commits_def split: sum.splits if_splits)

fun run_ops :: "(string \<Rightarrow> uuid option) \<Rightarrow> (string \<Rightarrow> byte list) \<Rightarrow> enroll_op list \<Rightarrow> enroll_db \<Rightarrow> enroll_db option" where
  "run_ops parse_uuid sha256 [] db = Some db"
| "run_ops parse_uuid sha256 (op # ops) db =
     Option.bind (run_op parse_uuid sha256 op db) (run_ops parse_uuid sha256 ops)"

lemma run_ops_snoc:
  "run_ops parse_uuid sha256 (ops @ [op]) db = Option.bind (run_ops parse_uuid sha256 ops db) (run_op parse_uuid sha256 op)"
  by (induction ops arbitrary: db) (auto split: bind_splits)

section \<open>The interleaved system\<close>

record tx_sys =
  ts_db :: enroll_db
  ts_txns :: "nat \<rightharpoonup> txn"
  ts_log :: "enroll_op list"

definition free_for :: "tx_sys \<Rightarrow> nat \<Rightarrow> resource \<Rightarrow> bool" where
  "free_for s p r \<longleftrightarrow> (\<forall>q x. q \<noteq> p \<longrightarrow> ts_txns s q = Some x \<longrightarrow> (\<forall>r'\<in>set (resources x). \<not> conflict r r'))"

definition goto :: "nat \<Rightarrow> txn \<Rightarrow> tx_sys \<Rightarrow> tx_sys" where
  "goto p x s = s\<lparr>ts_txns := (ts_txns s)(p \<mapsto> x)\<rparr>"

definition commit :: "nat \<Rightarrow> enroll_op \<Rightarrow> enroll_db \<Rightarrow> tx_sys \<Rightarrow> tx_sys" where
  "commit p op db s = s\<lparr>ts_db := db, ts_txns := (ts_txns s)(p := None), ts_log := ts_log s @ [op]\<rparr>"

text \<open>The rows an enrolment has written when it commits.\<close>

definition enroll_writes :: "enrolling \<Rightarrow> uuid \<Rightarrow> issued_cert \<Rightarrow> enroll_db \<Rightarrow> enroll_db" where
  "enroll_writes e a c db =
     add_cert a c (if en_use e = None then add_agent (en_dbnow e) (en_token e) (en_row e) a (en_req e) db else db)"

inductive tx_step :: "(string \<Rightarrow> uuid option) \<Rightarrow> (string \<Rightarrow> byte list) \<Rightarrow> tx_sys \<Rightarrow> tx_sys \<Rightarrow> bool"
  for parse_uuid sha256 where
  enroll_begin: "ts_txns s p = None \<Longrightarrow> tx_step parse_uuid sha256 s (goto p (EnrollBegun req dbnow) s)"
| enroll_token: "ts_txns s p = Some (EnrollBegun req dbnow) \<Longrightarrow> splitToken parse_uuid (eq_token req) = Some (i, secret) \<Longrightarrow>
    ed_tokens (ts_db s) i = Some tk \<Longrightarrow> free_for s p (TokenLock i) \<Longrightarrow> token_use sha256 now secret (eq_csr_hash req) tk = Inr use1 \<Longrightarrow>
    tx_step parse_uuid sha256 s
      (goto p (EnrollToken \<lparr>en_req = req, en_dbnow = dbnow, en_now = now, en_token = i, en_row = tk, en_use = use1\<rparr>) s)"
| enroll_create: "ts_txns s p = Some (EnrollToken e) \<Longrightarrow> en_use e = None \<Longrightarrow> ed_agents (ts_db s) a = None \<Longrightarrow>
    a \<notin> set (ed_targets (ts_db s)) \<Longrightarrow> free_for s p (NewAgent a) \<Longrightarrow> tx_step parse_uuid sha256 s (goto p (EnrollReady e a) s)"
| enroll_lock: "ts_txns s p = Some (EnrollToken e) \<Longrightarrow> en_use e = Some a \<Longrightarrow> ed_agents (ts_db s) a \<noteq> None \<Longrightarrow>
    free_for s p (ShareLock a) \<Longrightarrow> tx_step parse_uuid sha256 s (goto p (EnrollLocked e a) s)"
| enroll_check: "ts_txns s p = Some (EnrollLocked e a) \<Longrightarrow> \<not> agent_has_revoked (ts_db s) a \<Longrightarrow>
    tx_step parse_uuid sha256 s (goto p (EnrollReady e a) s)"
| enroll_write: "ts_txns s p = Some (EnrollReady e a) \<Longrightarrow> map_of (ed_certs (ts_db s)) (ic_serial c) = None \<Longrightarrow>
    free_for s p (NewSerial (ic_serial c)) \<Longrightarrow> tx_step parse_uuid sha256 s (goto p (EnrollWritten e a c) s)"
| enroll_commit: "ts_txns s p = Some (EnrollWritten e a c) \<Longrightarrow>
    tx_step parse_uuid sha256 s (commit p (OpEnroll (en_now e) (en_dbnow e) a c (en_req e)) (enroll_writes e a c (ts_db s)) s)"
| renew_begin: "ts_txns s p = None \<Longrightarrow> tx_step parse_uuid sha256 s (goto p (RenewBegun a n) s)"
| renew_lock: "ts_txns s p = Some (RenewBegun a n) \<Longrightarrow> ed_agents (ts_db s) a \<noteq> None \<Longrightarrow> free_for s p (ShareLock a) \<Longrightarrow>
    tx_step parse_uuid sha256 s (goto p (RenewLocked a n) s)"
| renew_check: "ts_txns s p = Some (RenewLocked a n) \<Longrightarrow> certValid (ts_db s) t n a \<Longrightarrow>
    tx_step parse_uuid sha256 s (goto p (RenewChecked a n t) s)"
| renew_write: "ts_txns s p = Some (RenewChecked a n t) \<Longrightarrow> map_of (ed_certs (ts_db s)) (ic_serial c) = None \<Longrightarrow>
    free_for s p (NewSerial (ic_serial c)) \<Longrightarrow> tx_step parse_uuid sha256 s (goto p (RenewWritten a n t c) s)"
| renew_commit: "ts_txns s p = Some (RenewWritten a n t c) \<Longrightarrow>
    tx_step parse_uuid sha256 s (commit p (OpRenew t a n c) (add_cert a c (ts_db s)) s)"
| revoke_begin: "ts_txns s p = None \<Longrightarrow> tx_step parse_uuid sha256 s (goto p (RevokeBegun n) s)"
| revoke_read: "ts_txns s p = Some (RevokeBegun n) \<Longrightarrow> map_of (ed_certs (ts_db s)) n = Some r \<Longrightarrow>
    tx_step parse_uuid sha256 s (goto p (RevokeRead n (cr_agent r)) s)"
| revoke_lock: "ts_txns s p = Some (RevokeRead n a) \<Longrightarrow> ed_agents (ts_db s) a \<noteq> None \<Longrightarrow> free_for s p (ExclLock a) \<Longrightarrow>
    tx_step parse_uuid sha256 s (goto p (RevokeLocked n a) s)"
| revoke_write: "ts_txns s p = Some (RevokeLocked n a) \<Longrightarrow> map_of (ed_certs (ts_db s)) n = Some r \<Longrightarrow> cr_agent r = a \<Longrightarrow>
    cr_revoked_at r = None \<Longrightarrow> tx_step parse_uuid sha256 s (goto p (RevokeWritten n a t) s)"
| revoke_commit: "ts_txns s p = Some (RevokeWritten n a t) \<Longrightarrow>
    tx_step parse_uuid sha256 s (commit p (OpRevoke t n) (revoke_serials t [n] (ts_db s)) s)"
| revoke_all_begin: "ts_txns s p = None \<Longrightarrow> tx_step parse_uuid sha256 s (goto p (RevokeAllBegun a) s)"
| revoke_all_lock: "ts_txns s p = Some (RevokeAllBegun a) \<Longrightarrow> ed_agents (ts_db s) a \<noteq> None \<Longrightarrow> free_for s p (ExclLock a) \<Longrightarrow>
    tx_step parse_uuid sha256 s (goto p (RevokeAllLocked a) s)"
| revoke_all_write: "ts_txns s p = Some (RevokeAllLocked a) \<Longrightarrow>
    tx_step parse_uuid sha256 s (goto p (RevokeAllWritten a t (live_serials (ts_db s) a)) s)"
| revoke_all_commit: "ts_txns s p = Some (RevokeAllWritten a t ss) \<Longrightarrow>
    tx_step parse_uuid sha256 s (commit p (OpRevokeAll t a) (revoke_serials t ss (ts_db s)) s)"
| create_token: "ts_txns s p = None \<Longrightarrow> CreateJoinToken sha256 uuid_str i secret now site network ttl (ts_db s) = Inr (text1, db) \<Longrightarrow>
    free_for s p (TokenLock i) \<Longrightarrow> tx_step parse_uuid sha256 s (commit p (OpCreateToken i secret now site network ttl) db s)"
| delete_begin: "ts_txns s p = None \<Longrightarrow> tx_step parse_uuid sha256 s (goto p (DeleteBegun i sc) s)"
| delete_lock: "ts_txns s p = Some (DeleteBegun i sc) \<Longrightarrow> DeleteJoinToken i sc (ts_db s) = Inr db \<Longrightarrow> free_for s p (TokenLock i) \<Longrightarrow>
    tx_step parse_uuid sha256 s (goto p (DeleteHeld i sc) s)"
| delete_commit: "ts_txns s p = Some (DeleteHeld i sc) \<Longrightarrow>
    tx_step parse_uuid sha256 s (commit p (OpDeleteToken i sc) ((ts_db s)\<lparr>ed_tokens := (ed_tokens (ts_db s))(i := None)\<rparr>) s)"
| rollback: "tx_step parse_uuid sha256 s (s\<lparr>ts_txns := (ts_txns s)(p := None)\<rparr>)"

definition tx_start :: "enroll_db \<Rightarrow> tx_sys" where
  "tx_start db = \<lparr>ts_db = db, ts_txns = Map.empty, ts_log = []\<rparr>"

end
