(* ===== verification/Enrollment_Serial.thy ===== *)
theory Enrollment_Serial
  imports Enrollment_Tx
begin

text \<open>
  Every interleaving of the enrolment transactions is equivalent to running the committed
  operations alone, in the order they committed. A transaction relies on facts it has read; each
  such fact is guarded by a lock the transaction holds, and what another transaction writes
  conflicts with the guard or leaves the fact as it is.
\<close>

section \<open>Facts and their guards\<close>

datatype fact =
  TokenIs uuid token_row
| TokenOpen uuid "uuid list option"
| AgentIn uuid
| FreshAgent uuid
| NotRevoked uuid
| Valid gtime nat uuid
| LiveCert nat uuid
| LiveAre uuid "nat list"
| SerialFree nat

fun holds :: "enroll_db \<Rightarrow> fact \<Rightarrow> bool" where
  "holds db (TokenIs i tk) = (ed_tokens db i = Some tk)"
| "holds db (TokenOpen i sc) =
     (\<exists>tk. ed_tokens db i = Some tk \<and> tk_used_at tk = None \<and> (case sc of None \<Rightarrow> True | Some ns \<Rightarrow> tk_network tk \<in> set ns))"
| "holds db (AgentIn a) = (ed_agents db a \<noteq> None)"
| "holds db (FreshAgent a) = (ed_agents db a = None \<and> a \<notin> set (ed_targets db))"
| "holds db (NotRevoked a) = (\<not> agent_has_revoked db a)"
| "holds db (Valid t n a) = certValid db t n a"
| "holds db (LiveCert n a) = (\<exists>r. map_of (ed_certs db) n = Some r \<and> cr_agent r = a \<and> cr_revoked_at r = None)"
| "holds db (LiveAre a ss) = (ed_agents db a \<noteq> None \<and> live_serials db a = ss)"
| "holds db (SerialFree n) = (map_of (ed_certs db) n = None)"

fun guard_of :: "fact \<Rightarrow> resource option" where
  "guard_of (TokenIs i tk) = Some (TokenLock i)"
| "guard_of (TokenOpen i sc) = Some (TokenLock i)"
| "guard_of (AgentIn a) = None"
| "guard_of (FreshAgent a) = Some (NewAgent a)"
| "guard_of (NotRevoked a) = Some (ShareLock a)"
| "guard_of (Valid t n a) = Some (ShareLock a)"
| "guard_of (LiveCert n a) = Some (ExclLock a)"
| "guard_of (LiveAre a ss) = Some (ExclLock a)"
| "guard_of (SerialFree n) = Some (NewSerial n)"

definition enroll_facts :: "enrolling \<Rightarrow> uuid \<Rightarrow> fact list" where
  "enroll_facts e a = TokenIs (en_token e) (en_row e) # (if en_use e = None then [FreshAgent a] else [AgentIn a, NotRevoked a])"

fun facts :: "txn \<Rightarrow> fact list" where
  "facts (EnrollToken e) = [TokenIs (en_token e) (en_row e)]"
| "facts (EnrollLocked e a) = [TokenIs (en_token e) (en_row e), AgentIn a]"
| "facts (EnrollReady e a) = enroll_facts e a"
| "facts (EnrollWritten e a c) = SerialFree (ic_serial c) # enroll_facts e a"
| "facts (RenewLocked a n) = [AgentIn a]"
| "facts (RenewChecked a n t) = [AgentIn a, Valid t n a]"
| "facts (RenewWritten a n t c) = [AgentIn a, Valid t n a, SerialFree (ic_serial c)]"
| "facts (RevokeLocked n a) = [AgentIn a]"
| "facts (RevokeWritten n a t) = [AgentIn a, LiveCert n a]"
| "facts (RevokeAllLocked a) = [AgentIn a]"
| "facts (RevokeAllWritten a t ss) = [LiveAre a ss]"
| "facts (DeleteHeld i sc) = [TokenOpen i sc]"
| "facts _ = []"

text \<open>What was decided from the token row alone.\<close>

definition token_checked :: "(string \<Rightarrow> uuid option) \<Rightarrow> (string \<Rightarrow> byte list) \<Rightarrow> enrolling \<Rightarrow> bool" where
  "token_checked parse_uuid sha256 e \<longleftrightarrow>
     (\<exists>secret. splitToken parse_uuid (eq_token (en_req e)) = Some (en_token e, secret)
        \<and> token_use sha256 (en_now e) secret (eq_csr_hash (en_req e)) (en_row e) = Inr (en_use e))"

fun decided :: "(string \<Rightarrow> uuid option) \<Rightarrow> (string \<Rightarrow> byte list) \<Rightarrow> txn \<Rightarrow> bool" where
  "decided parse_uuid sha256 (EnrollToken e) = token_checked parse_uuid sha256 e"
| "decided parse_uuid sha256 (EnrollLocked e a) = (token_checked parse_uuid sha256 e \<and> en_use e = Some a)"
| "decided parse_uuid sha256 (EnrollReady e a) = (token_checked parse_uuid sha256 e \<and> en_use e \<in> {None, Some a})"
| "decided parse_uuid sha256 (EnrollWritten e a c) = (token_checked parse_uuid sha256 e \<and> en_use e \<in> {None, Some a})"
| "decided parse_uuid sha256 _ = True"

lemma delete_open:
  "DeleteJoinToken i sc db = Inr db' \<longleftrightarrow> holds db (TokenOpen i sc) \<and> db' = db\<lparr>ed_tokens := (ed_tokens db)(i := None)\<rparr>"
  by (cases "ed_tokens db i"; cases sc) (auto simp: DeleteJoinToken_def split: if_splits option.splits)

lemma conflict_sym: "conflict r r' = conflict r' r"
  by (cases r; cases r') auto

lemma facts_guarded: "f \<in> set (facts x) \<Longrightarrow> guard_of f = Some r \<Longrightarrow> r \<in> set (resources x)"
  by (cases x) (auto simp: enroll_facts_def split: if_splits)

section \<open>What writes leave alone\<close>

lemma add_cert_fields [simp]:
  "ed_tokens (add_cert a c db) = ed_tokens db" "ed_agents (add_cert a c db) = ed_agents db" "ed_targets (add_cert a c db) = ed_targets db"
  by (simp_all add: add_cert_def)

lemma revoke_fields [simp]:
  "ed_tokens (revoke_serials t ss db) = ed_tokens db" "ed_agents (revoke_serials t ss db) = ed_agents db"
  "ed_targets (revoke_serials t ss db) = ed_targets db" "map fst (ed_certs (revoke_serials t ss db)) = map fst (ed_certs db)"
  by (simp_all add: revoke_serials_def comp_def case_prod_unfold)

lemma revoke_certs:
  "ed_certs (revoke_serials t ss db) = map (\<lambda>(serial, c). (serial, if serial \<in> set ss then c\<lparr>cr_revoked_at := Some t\<rparr> else c)) (ed_certs db)"
  by (simp add: revoke_serials_def)

lemma add_agent_certs [simp]: "ed_certs (add_agent dbnow i tk a req db) = ed_certs db"
  by (simp add: add_agent_def)

lemma map_of_add_cert:
  "map_of (ed_certs (add_cert a c db)) n =
     (case map_of (ed_certs db) n of
        Some r \<Rightarrow> Some r
      | None \<Rightarrow> if n = ic_serial c then Some \<lparr>cr_agent = a, cr_not_before = ic_not_before c, cr_not_after = ic_not_after c, cr_revoked_at = None\<rparr> else None)"
  by (auto simp: add_cert_def map_add_def split: option.splits)

lemma map_of_revoke:
  "map_of (ed_certs (revoke_serials t ss db)) n =
     map_option (\<lambda>r. if n \<in> set ss then r\<lparr>cr_revoked_at := Some t\<rparr> else r) (map_of (ed_certs db) n)"
proof -
  have "map_of (map (\<lambda>(serial, c). (serial, if serial \<in> set ss then c\<lparr>cr_revoked_at := Some t\<rparr> else c)) xs) n
     = map_option (\<lambda>r. if n \<in> set ss then r\<lparr>cr_revoked_at := Some t\<rparr> else r) (map_of xs n)" for xs
    by (induction xs) auto
  then show ?thesis by (simp add: revoke_serials_def)
qed

lemma has_revoked_add_cert [simp]: "agent_has_revoked (add_cert a c db) b = agent_has_revoked db b"
  by (simp add: agent_has_revoked_def add_cert_def)

lemma live_serials_add_cert:
  "live_serials (add_cert a c db) b = live_serials db b @ (if b = a then [ic_serial c] else [])"
  by (simp add: live_serials_def add_cert_def)

text \<open>A revocation of certificates of one agent does not touch those of another.\<close>

lemma revoke_other:
  assumes "distinct (map fst (ed_certs db))" "\<And>n. n \<in> set ss \<Longrightarrow> \<exists>r. map_of (ed_certs db) n = Some r \<and> cr_agent r = a" "b \<noteq> a"
  shows "agent_has_revoked (revoke_serials t ss db) b = agent_has_revoked db b"
    and "live_serials (revoke_serials t ss db) b = live_serials db b"
proof -
  let ?f = "\<lambda>(serial :: nat, c :: cert_row). (serial, if serial \<in> set ss then c\<lparr>cr_revoked_at := Some t\<rparr> else c)"
  have other: "n \<notin> set ss" if "(n, r) \<in> set (ed_certs db)" "cr_agent r = b" for n r
    using assms that by (metis map_of_is_SomeI option.inject)
  have eq: "map fst (filter P (map ?f xs)) = map fst (filter P xs)" if "\<And>x. x \<in> set xs \<Longrightarrow> P (?f x) = P x" for P xs
  proof -
    have "fst \<circ> ?f = fst" by auto
    moreover have "filter (P \<circ> ?f) xs = filter P xs" using that by (intro filter_cong) (simp_all only: comp_apply)
    ultimately show ?thesis by (simp only: filter_map map_map)
  qed
  have "map fst (filter (\<lambda>(s, c). cr_agent c = b \<and> cr_revoked_at c = None) (map ?f (ed_certs db)))
      = map fst (filter (\<lambda>(s, c). cr_agent c = b \<and> cr_revoked_at c = None) (ed_certs db))"
    using other by (intro eq) (auto split: prod.splits)
  then show "live_serials (revoke_serials t ss db) b = live_serials db b"
    by (simp only: live_serials_def revoke_certs)
  have ex: "list_ex P xs \<longleftrightarrow> map fst (filter P xs) \<noteq> []" for P and xs :: "(nat \<times> cert_row) list"
    by (induction xs) auto
  have "map fst (filter (\<lambda>(s, c). cr_agent c = b \<and> cr_revoked_at c \<noteq> None) (map ?f (ed_certs db)))
      = map fst (filter (\<lambda>(s, c). cr_agent c = b \<and> cr_revoked_at c \<noteq> None) (ed_certs db))"
    using other by (intro eq) (auto split: prod.splits)
  then show "agent_has_revoked (revoke_serials t ss db) b = agent_has_revoked db b"
    by (simp only: agent_has_revoked_def revoke_certs ex)
qed

text \<open>The four kinds of write and the facts they keep.\<close>

lemma add_cert_keeps:
  assumes "holds db f" "guard_of f \<noteq> Some (NewSerial (ic_serial c))" "\<And>ss. f \<noteq> LiveAre a ss"
  shows "holds (add_cert a c db) f"
  using assms
  by (cases f) (auto simp: certValid_def map_of_add_cert live_serials_add_cert split: option.splits)

lemma add_agent_keeps:
  assumes "holds db f" "guard_of f \<noteq> Some (NewAgent a)" "guard_of f \<noteq> Some (TokenLock i)"
  shows "holds (add_agent dbnow i tk a req db) f"
  using assms
  by (cases f) (auto simp: certValid_def add_agent_def agent_has_revoked_def live_serials_def split: option.splits)

lemma tokens_keep:
  assumes "holds db f" "guard_of f \<noteq> Some (TokenLock i)"
  shows "holds (db\<lparr>ed_tokens := (ed_tokens db)(i := x)\<rparr>) f"
  using assms
  by (cases f) (auto simp: certValid_def agent_has_revoked_def live_serials_def split: option.splits)

lemma revoke_keeps:
  assumes "holds db f" "distinct (map fst (ed_certs db))" "\<And>n. n \<in> set ss \<Longrightarrow> \<exists>r. map_of (ed_certs db) n = Some r \<and> cr_agent r = a"
    and "\<And>r. guard_of f = Some r \<Longrightarrow> \<not> conflict (ExclLock a) r"
  shows "holds (revoke_serials t ss db) f"
proof (cases f)
  case (NotRevoked b)
  then show ?thesis using assms(1,4) revoke_other(1)[OF assms(2,3)] by auto
next
  case (LiveAre b xs)
  then show ?thesis using assms(1,4) revoke_other(2)[OF assms(2,3)] by auto
next
  case (Valid u n b)
  then have "b \<noteq> a" using assms(4) by auto
  then show ?thesis using Valid assms(1,3) by (fastforce simp: certValid_def map_of_revoke split: option.splits)
next
  case (LiveCert n b)
  then have "b \<noteq> a" using assms(4) by auto
  then show ?thesis using LiveCert assms(1,3) by (fastforce simp: map_of_revoke)
qed (use assms(1) in \<open>auto simp: map_of_revoke split: option.splits\<close>)

section \<open>The invariant\<close>

definition tx_inv :: "(string \<Rightarrow> uuid option) \<Rightarrow> (string \<Rightarrow> byte list) \<Rightarrow> enroll_db \<Rightarrow> tx_sys \<Rightarrow> bool" where
  "tx_inv parse_uuid sha256 db0 s \<longleftrightarrow>
     run_ops parse_uuid sha256 (ts_log s) db0 = Some (ts_db s)
   \<and> distinct (map fst (ed_certs (ts_db s)))
   \<and> (\<forall>p x. ts_txns s p = Some x \<longrightarrow> decided parse_uuid sha256 x \<and> (\<forall>f\<in>set (facts x). holds (ts_db s) f)
        \<and> (\<forall>r\<in>set (resources x). free_for s p r))"

lemma tx_inv_txn:
  assumes "tx_inv parse_uuid sha256 db0 s" "ts_txns s p = Some x"
  shows "decided parse_uuid sha256 x" "f \<in> set (facts x) \<Longrightarrow> holds (ts_db s) f" "r \<in> set (resources x) \<Longrightarrow> free_for s p r"
  using assms by (auto simp: tx_inv_def)

lemma free_for_goto:
  "free_for (goto p x s) q r \<longleftrightarrow> (\<forall>q' y. q' \<noteq> q \<longrightarrow> q' \<noteq> p \<longrightarrow> ts_txns s q' = Some y \<longrightarrow> (\<forall>r'\<in>set (resources y). \<not> conflict r r'))
     \<and> (q \<noteq> p \<longrightarrow> (\<forall>r'\<in>set (resources x). \<not> conflict r r'))"
  by (auto simp: free_for_def goto_def)

text \<open>A statement that takes no lock another transaction conflicts with keeps the invariant.\<close>

lemma inv_goto:
  assumes "tx_inv parse_uuid sha256 db0 s" "decided parse_uuid sha256 x" "\<And>f. f \<in> set (facts x) \<Longrightarrow> holds (ts_db s) f"
    and free: "\<And>r. r \<in> set (resources x) \<Longrightarrow> free_for s p r"
  shows "tx_inv parse_uuid sha256 db0 (goto p x s)"
proof -
  have "decided parse_uuid sha256 y \<and> (\<forall>f\<in>set (facts y). holds (ts_db s) f) \<and> (\<forall>r\<in>set (resources y). free_for (goto p x s) q r)"
    if "ts_txns (goto p x s) q = Some y" for q y
  proof (cases "q = p")
    case True
    then have "y = x" using that by (simp add: goto_def)
    moreover have "free_for (goto p x s) p r" if "r \<in> set (resources x)" for r
      using free[OF that] by (auto simp: free_for_def goto_def)
    ultimately show ?thesis using assms(2,3) True by blast
  next
    case False
    then have y: "ts_txns s q = Some y" using that by (simp add: goto_def)
    then have "\<not> conflict r r'" if "r \<in> set (resources y)" "r' \<in> set (resources x)" for r r'
      using free[OF that(2)] False that(1) unfolding free_for_def by (metis conflict_sym)
    moreover have "\<not> conflict r r'" if "r \<in> set (resources y)" "q' \<noteq> q" "ts_txns s q' = Some z" "r' \<in> set (resources z)" for r r' q' z
      using tx_inv_txn(3)[OF assms(1) y that(1)] that by (auto simp: free_for_def)
    ultimately show ?thesis using tx_inv_txn(1,2)[OF assms(1) y] unfolding free_for_goto by blast
  qed
  then show ?thesis using assms(1) by (auto simp: tx_inv_def goto_def)
qed

text \<open>A commit keeps it when the operation alone has the same effect and no other transaction's facts change.\<close>

lemma inv_commit:
  assumes "tx_inv parse_uuid sha256 db0 s" "run_op parse_uuid sha256 op (ts_db s) = Some db" "distinct (map fst (ed_certs db))"
    and "\<And>q y f. q \<noteq> p \<Longrightarrow> ts_txns s q = Some y \<Longrightarrow> f \<in> set (facts y) \<Longrightarrow> holds db f"
  shows "tx_inv parse_uuid sha256 db0 (commit p op db s)"
  using assms unfolding tx_inv_def
  by (auto simp: commit_def run_ops_snoc free_for_def)

text \<open>No guard of another transaction's fact conflicts with a lock held here.\<close>

lemma guards_apart:
  assumes "tx_inv parse_uuid sha256 db0 s" "free_for s p r" "q \<noteq> p" "ts_txns s q = Some y" "f \<in> set (facts y)" "guard_of f = Some r'"
  shows "\<not> conflict r r'"
  using assms facts_guarded[OF assms(5,6)] by (auto simp: free_for_def)

section \<open>Commits\<close>

lemma enroll_alone:
  assumes "token_checked parse_uuid sha256 e" "en_use e \<in> {None, Some a}" "\<And>f. f \<in> set (SerialFree (ic_serial c) # enroll_facts e a) \<Longrightarrow> holds db f"
  shows "run_op parse_uuid sha256 (OpEnroll (en_now e) (en_dbnow e) a c (en_req e)) db = Some (enroll_writes e a c db)"
proof -
  obtain secret where t: "splitToken parse_uuid (eq_token (en_req e)) = Some (en_token e, secret)"
    "token_use sha256 (en_now e) secret (eq_csr_hash (en_req e)) (en_row e) = Inr (en_use e)"
    using assms(1) by (auto simp: token_checked_def)
  have tk: "ed_tokens db (en_token e) = Some (en_row e)" and n: "map_of (ed_certs db) (ic_serial c) = None"
    using assms(3)[of "TokenIs (en_token e) (en_row e)"] assms(3)[of "SerialFree (ic_serial c)"] by (simp_all add: enroll_facts_def)
  show ?thesis
  proof (cases "en_use e")
    case None
    then have "ed_agents db a = None" "a \<notin> set (ed_targets db)" using assms(3)[of "FreshAgent a"] by (simp_all add: enroll_facts_def)
    then show ?thesis
      using None t tk n by (simp add: EnrollAgent_def create_agent_def record_cert_def enroll_writes_def commits_def)
  next
    case (Some b)
    then have "b = a" "ed_agents db a \<noteq> None" "\<not> agent_has_revoked db a"
      using assms(2) assms(3)[of "AgentIn a"] assms(3)[of "NotRevoked a"] by (simp_all add: enroll_facts_def)
    then show ?thesis
      using Some t tk n by (simp add: EnrollAgent_def record_cert_def enroll_writes_def commits_def)
  qed
qed

lemma enroll_keeps:
  assumes inv: "tx_inv parse_uuid sha256 db0 s" "ts_txns s p = Some (EnrollWritten e a c)"
    and q: "q \<noteq> p" "ts_txns s q = Some y" "f \<in> set (facts y)"
  shows "holds (enroll_writes e a c (ts_db s)) f"
proof -
  have f: "holds (ts_db s) f" using tx_inv_txn(2)[OF inv(1) q(2,3)] .
  note mine = tx_inv_txn(2,3)[OF inv]
  have apart: "\<not> conflict r r'" if "r \<in> set (resources (EnrollWritten e a c))" "guard_of f = Some r'" for r r'
    using guards_apart[OF inv(1) mine(2)[OF that(1)] q that(2)] .
  have serial: "guard_of f \<noteq> Some (NewSerial (ic_serial c))" and token: "guard_of f \<noteq> Some (TokenLock (en_token e))"
    using apart[of "NewSerial (ic_serial c)"] apart[of "TokenLock (en_token e)"] by auto
  show ?thesis
  proof (cases "en_use e")
    case None
    have new: "guard_of f \<noteq> Some (NewAgent a)" using apart[of "NewAgent a"] None by auto
    have "f \<noteq> LiveAre a ss" for ss using f mine(1)[of "FreshAgent a"] None by (auto simp: enroll_facts_def)
    then show ?thesis
      using add_cert_keeps[OF add_agent_keeps[OF f new token] serial] None by (simp add: enroll_writes_def)
  next
    case (Some b)
    have "f \<noteq> LiveAre a ss" for ss using apart[of "ShareLock a"] Some by auto
    then show ?thesis using add_cert_keeps[OF f serial] Some by (simp add: enroll_writes_def)
  qed
qed

lemma renew_keeps:
  assumes inv: "tx_inv parse_uuid sha256 db0 s" "ts_txns s p = Some (RenewWritten a n t c)"
    and q: "q \<noteq> p" "ts_txns s q = Some y" "f \<in> set (facts y)"
  shows "holds (add_cert a c (ts_db s)) f"
proof (rule add_cert_keeps[OF tx_inv_txn(2)[OF inv(1) q(2,3)]])
  have apart: "\<not> conflict r r'" if "r \<in> set (resources (RenewWritten a n t c))" "guard_of f = Some r'" for r r'
    using guards_apart[OF inv(1) tx_inv_txn(3)[OF inv that(1)] q that(2)] .
  show "guard_of f \<noteq> Some (NewSerial (ic_serial c))" using apart[of "NewSerial (ic_serial c)"] by auto
  show "f \<noteq> LiveAre a ss" for ss using apart[of "ShareLock a"] by auto
qed

lemma revoke_keeps_others:
  assumes inv: "tx_inv parse_uuid sha256 db0 s" "ts_txns s p = Some x" "ExclLock a \<in> set (resources x)"
    and q: "q \<noteq> p" "ts_txns s q = Some y" "f \<in> set (facts y)"
    and own: "\<And>n. n \<in> set ss \<Longrightarrow> \<exists>r. map_of (ed_certs (ts_db s)) n = Some r \<and> cr_agent r = a"
  shows "holds (revoke_serials t ss (ts_db s)) f"
proof (rule revoke_keeps[OF tx_inv_txn(2)[OF inv(1) q(2,3)] _ own])
  show "distinct (map fst (ed_certs (ts_db s)))" using inv(1) by (simp add: tx_inv_def)
  show "\<not> conflict (ExclLock a) r" if "guard_of f = Some r" for r
    using guards_apart[OF inv(1) tx_inv_txn(3)[OF inv] q that] .
qed auto

lemma tokens_keep_others:
  assumes inv: "tx_inv parse_uuid sha256 db0 s" "free_for s p (TokenLock i)" and q: "q \<noteq> p" "ts_txns s q = Some y" "f \<in> set (facts y)"
  shows "holds ((ts_db s)\<lparr>ed_tokens := (ed_tokens (ts_db s))(i := x)\<rparr>) f"
proof (rule tokens_keep[OF tx_inv_txn(2)[OF inv(1) q(2,3)]])
  show "guard_of f \<noteq> Some (TokenLock i)" using guards_apart[OF inv q, of "TokenLock i"] by auto
qed

lemma live_serials_own:
  "distinct (map fst (ed_certs db)) \<Longrightarrow> n \<in> set (live_serials db a) \<Longrightarrow>
     \<exists>r. map_of (ed_certs db) n = Some r \<and> cr_agent r = a \<and> cr_revoked_at r = None"
  by (auto simp: live_serials_def)

text \<open>Every step keeps the invariant.\<close>

lemma tx_inv_step:
  assumes "tx_step parse_uuid sha256 s s'" "tx_inv parse_uuid sha256 db0 s"
  shows "tx_inv parse_uuid sha256 db0 s'"
  using assms(1)
proof cases
  case (enroll_commit p e a c)
  note txn = tx_inv_txn[OF assms(2) enroll_commit(2)]
  show ?thesis unfolding enroll_commit(1)
  proof (rule inv_commit[OF assms(2)])
    show "run_op parse_uuid sha256 (OpEnroll (en_now e) (en_dbnow e) a c (en_req e)) (ts_db s) = Some (enroll_writes e a c (ts_db s))"
      using txn by (intro enroll_alone) auto
    show "distinct (map fst (ed_certs (enroll_writes e a c (ts_db s))))"
      using assms(2) txn(2)[of "SerialFree (ic_serial c)"] by (auto simp: tx_inv_def enroll_writes_def add_cert_def map_of_eq_None_iff)
  qed (rule enroll_keeps[OF assms(2) enroll_commit(2)])
next
  case (renew_commit p a n t c)
  note txn = tx_inv_txn(2)[OF assms(2) renew_commit(2)]
  show ?thesis unfolding renew_commit(1)
  proof (rule inv_commit[OF assms(2)])
    show "run_op parse_uuid sha256 (OpRenew t a n c) (ts_db s) = Some (add_cert a c (ts_db s))"
      using txn[of "AgentIn a"] txn[of "Valid t n a"] txn[of "SerialFree (ic_serial c)"]
      by (simp add: RenewCertificate_def record_cert_def commits_def)
    show "distinct (map fst (ed_certs (add_cert a c (ts_db s))))"
      using assms(2) txn[of "SerialFree (ic_serial c)"] by (auto simp: tx_inv_def add_cert_def map_of_eq_None_iff)
  qed (rule renew_keeps[OF assms(2) renew_commit(2)])
next
  case (revoke_commit p n a t)
  obtain r where r: "map_of (ed_certs (ts_db s)) n = Some r" "cr_agent r = a" "cr_revoked_at r = None" "ed_agents (ts_db s) a \<noteq> None"
    using tx_inv_txn(2)[OF assms(2) revoke_commit(2), of "LiveCert n a"] tx_inv_txn(2)[OF assms(2) revoke_commit(2), of "AgentIn a"] by auto
  show ?thesis unfolding revoke_commit(1)
  proof (rule inv_commit[OF assms(2)])
    show "run_op parse_uuid sha256 (OpRevoke t n) (ts_db s) = Some (revoke_serials t [n] (ts_db s))"
      using r by (auto simp: RevokeCertificate_def commits_def)
    show "distinct (map fst (ed_certs (revoke_serials t [n] (ts_db s))))" using assms(2) by (simp add: tx_inv_def)
  qed (rule revoke_keeps_others[OF assms(2) revoke_commit(2), of a], use r in auto)
next
  case (revoke_all_commit p a t ss)
  have l: "ed_agents (ts_db s) a \<noteq> None" "live_serials (ts_db s) a = ss" and d: "distinct (map fst (ed_certs (ts_db s)))"
    using tx_inv_txn(2)[OF assms(2) revoke_all_commit(2), of "LiveAre a ss"] assms(2) by (simp_all add: tx_inv_def)
  show ?thesis unfolding revoke_all_commit(1)
  proof (rule inv_commit[OF assms(2)])
    show "run_op parse_uuid sha256 (OpRevokeAll t a) (ts_db s) = Some (revoke_serials t ss (ts_db s))"
      using l by (auto simp: RevokeAgentCertificates_def commits_def)
    show "distinct (map fst (ed_certs (revoke_serials t ss (ts_db s))))" using d by simp
  qed (rule revoke_keeps_others[OF assms(2) revoke_all_commit(2), of a], use live_serials_own[OF d, of _ a] l in auto)
next
  case (create_token p uuid_str i secret now site network ttl text1 db)
  then obtain tk where db: "db = (ts_db s)\<lparr>ed_tokens := (ed_tokens (ts_db s))(i := Some tk)\<rparr>"
    by (auto simp: CreateJoinToken_def split: if_splits)
  show ?thesis unfolding create_token(1)
  proof (rule inv_commit[OF assms(2)])
    show "run_op parse_uuid sha256 (OpCreateToken i secret now site network ttl) (ts_db s) = Some db"
      using create_token(3) by (auto simp: CreateJoinToken_def commits_def split: if_splits)
    show "distinct (map fst (ed_certs db))" using assms(2) db by (simp add: tx_inv_def)
  qed (use tokens_keep_others[OF assms(2) create_token(4)] in \<open>simp add: db\<close>)
next
  case (delete_commit p i sc)
  show ?thesis unfolding delete_commit(1)
  proof (rule inv_commit[OF assms(2)])
    have "DeleteJoinToken i sc (ts_db s) = Inr ((ts_db s)\<lparr>ed_tokens := (ed_tokens (ts_db s))(i := None)\<rparr>)"
      unfolding delete_open using tx_inv_txn(2)[OF assms(2) delete_commit(2), of "TokenOpen i sc"] by simp
    then show "run_op parse_uuid sha256 (OpDeleteToken i sc) (ts_db s) = Some ((ts_db s)\<lparr>ed_tokens := (ed_tokens (ts_db s))(i := None)\<rparr>)"
      by (simp add: commits_def)
    show "distinct (map fst (ed_certs ((ts_db s)\<lparr>ed_tokens := (ed_tokens (ts_db s))(i := None)\<rparr>)))" using assms(2) by (simp add: tx_inv_def)
    show "holds ((ts_db s)\<lparr>ed_tokens := (ed_tokens (ts_db s))(i := None)\<rparr>) f"
      if "q \<noteq> p" "ts_txns s q = Some y" "f \<in> set (facts y)" for q y f
      using tokens_keep_others[OF assms(2) tx_inv_txn(3)[OF assms(2) delete_commit(2)] that] by simp
  qed
next
  case (rollback p)
  then show ?thesis using assms(2) by (auto simp: tx_inv_def free_for_def)
qed (use assms(2) tx_inv_txn[OF assms(2)] in \<open>fastforce intro!: inv_goto simp: enroll_facts_def token_checked_def delete_open\<close>)+

lemma tx_inv_reachable:
  assumes "(tx_step parse_uuid sha256)\<^sup>*\<^sup>* (tx_start db0) s" "distinct (map fst (ed_certs db0))"
  shows "tx_inv parse_uuid sha256 db0 s"
  using assms(1)
proof (induction rule: rtranclp_induct)
  case base
  show ?case using assms(2) by (simp add: tx_inv_def tx_start_def)
qed (rule tx_inv_step)

section \<open>What the operations never undo\<close>

text \<open>The effect of an operation on one certificate: rows are never removed, and what is revoked stays revoked.\<close>

definition cert_kept :: "enroll_db \<Rightarrow> enroll_db \<Rightarrow> bool" where
  "cert_kept db db' \<longleftrightarrow> (\<forall>n r. map_of (ed_certs db) n = Some r \<longrightarrow>
     (\<exists>r'. map_of (ed_certs db') n = Some r' \<and> cr_agent r' = cr_agent r \<and> (cr_revoked_at r \<noteq> None \<longrightarrow> cr_revoked_at r' \<noteq> None)))"

lemma cert_kept_refl [simp]: "cert_kept db db"
  by (simp add: cert_kept_def)

lemma cert_kept_trans: "cert_kept a b \<Longrightarrow> cert_kept b c \<Longrightarrow> cert_kept a c"
  unfolding cert_kept_def by metis

lemma cert_kept_same: "ed_certs db' = ed_certs db \<Longrightarrow> cert_kept db db'"
  by (simp add: cert_kept_def)

lemma cert_kept_add [simp]: "cert_kept db (add_cert a c db)"
  by (simp add: cert_kept_def map_of_add_cert)

lemma cert_kept_revoke [simp]: "cert_kept db (revoke_serials t ss db)"
  by (auto simp: cert_kept_def map_of_revoke)

text \<open>What an enrolment that commits has done.\<close>

lemma EnrollAgent_cases:
  assumes "EnrollAgent parse_uuid sha256 now dbnow fresh issue req db = Inr (a, site, db')"
  obtains i secret tk c where "splitToken parse_uuid (eq_token req) = Some (i, secret)" "ed_tokens db i = Some tk" "issue a = Some c"
    "map_of (ed_certs db) (ic_serial c) = None" "site = tk_site tk" "tk_secret_hash tk = sha256 secret" "now \<le> tk_expires tk"
    "token_use sha256 now secret (eq_csr_hash req) tk = Inr None \<and> tk_used_at tk = None \<and> a = fresh \<and> ed_agents db a = None \<and> a \<notin> set (ed_targets db)
        \<and> db' = add_cert a c (add_agent dbnow i tk a req db)
     \<or> token_use sha256 now secret (eq_csr_hash req) tk = Inr (Some a) \<and> tk_used_at tk \<noteq> None \<and> tk_used_by tk = Some a \<and> tk_used_csr tk = eq_csr_hash req
        \<and> ed_agents db a \<noteq> None \<and> \<not> agent_has_revoked db a \<and> db' = add_cert a c db"
proof -
  obtain i secret where s: "splitToken parse_uuid (eq_token req) = Some (i, secret)"
    using assms by (auto simp: EnrollAgent_def split: option.splits)
  obtain tk where tk: "ed_tokens db i = Some tk"
    using assms s by (auto simp: EnrollAgent_def split: option.splits)
  obtain use1 where u: "token_use sha256 now secret (eq_csr_hash req) tk = Inr use1"
    using assms s tk by (auto simp: EnrollAgent_def split: sum.splits)
  have k: "tk_secret_hash tk = sha256 secret" "now \<le> tk_expires tk" "(tk_used_at tk = None) = (use1 = None)"
    "use1 \<noteq> None \<Longrightarrow> tk_used_by tk = use1 \<and> tk_used_csr tk = eq_csr_hash req"
    using u by (auto simp: token_use_def split: if_splits option.splits) metis
  show thesis
  proof (cases use1)
    case None
    then show thesis
      using assms s tk u k that[of i secret tk] by (auto simp: EnrollAgent_def create_agent_def record_cert_def split: if_splits option.splits)
  next
    case (Some b)
    then show thesis
      using assms s tk u k that[of i secret tk] by (auto simp: EnrollAgent_def record_cert_def split: if_splits option.splits)
  qed
qed

lemma run_op_cert_kept: "run_op parse_uuid sha256 op db = Some db' \<Longrightarrow> cert_kept db db'"
proof (cases op)
  case (OpEnroll now dbnow a c req)
  assume "run_op parse_uuid sha256 op db = Some db'"
  then obtain site where "EnrollAgent parse_uuid sha256 now dbnow a (\<lambda>_. Some c) req db = Inr (a, site, db')"
    unfolding OpEnroll run_enroll by blast
  then show ?thesis
  proof (cases rule: EnrollAgent_cases)
    case (1 i secret tk c)
    have "cert_kept db (add_agent dbnow i tk a req db)" by (rule cert_kept_same) simp
    then show ?thesis using 1(8) cert_kept_trans[OF _ cert_kept_add] by auto
  qed
qed (auto simp: commits_def RenewCertificate_def record_cert_def RevokeCertificate_def RevokeAgentCertificates_def CreateJoinToken_def
      DeleteJoinToken_def intro: cert_kept_same split: if_splits option.splits)

end
