(* ===== verification/Enroll_Correct.thy ===== *)
theory Enroll_Correct
  imports Enrollment_Serial
begin

text \<open>
  The properties of enrolment, renewal and revocation: interleaved transactions behave as if each
  ran alone, revocation is final, and a token binds one agent.
\<close>

section \<open>Well-formed tables\<close>

text \<open>Serials are unique, and the agents are those certificates have been issued to.\<close>

definition cert_agents :: "enroll_db \<Rightarrow> uuid set" where
  "cert_agents db = {a. \<exists>n r. map_of (ed_certs db) n = Some r \<and> cr_agent r = a}"

definition enroll_wf :: "enroll_db \<Rightarrow> bool" where
  "enroll_wf db \<longleftrightarrow> distinct (map fst (ed_certs db)) \<and> dom (ed_agents db) = cert_agents db"

text \<open>Nothing an agent holds will ever be accepted again.\<close>

definition dead :: "enroll_db \<Rightarrow> uuid \<Rightarrow> bool" where
  "dead db a \<longleftrightarrow> ed_agents db a \<noteq> None \<and> agent_has_revoked db a
     \<and> (\<forall>n r. map_of (ed_certs db) n = Some r \<longrightarrow> cr_agent r = a \<longrightarrow> cr_revoked_at r \<noteq> None)"

lemma dead_invalid: "dead db a \<Longrightarrow> \<not> certValid db t n a"
  by (auto simp: dead_def certValid_def split: option.splits)

lemma has_revoked_iff:
  "distinct (map fst (ed_certs db)) \<Longrightarrow>
     agent_has_revoked db a \<longleftrightarrow> (\<exists>n r. map_of (ed_certs db) n = Some r \<and> cr_agent r = a \<and> cr_revoked_at r \<noteq> None)"
  by (force simp: agent_has_revoked_def list_ex_iff)

lemma distinct_add_cert: "distinct (map fst (ed_certs db)) \<Longrightarrow> map_of (ed_certs db) (ic_serial c) = None \<Longrightarrow> distinct (map fst (ed_certs (add_cert a c db)))"
  by (auto simp: add_cert_def map_of_eq_None_iff)

lemma revoked_row:
  assumes "map_of (ed_certs (revoke_serials t ss db)) n = Some r"
  obtains r0 where "map_of (ed_certs db) n = Some r0" "cr_agent r = cr_agent r0"
    "cr_revoked_at r = (if n \<in> set ss then Some t else cr_revoked_at r0)"
  using assms by (cases "map_of (ed_certs db) n") (auto simp: map_of_revoke)

lemma row_revoked:
  assumes "map_of (ed_certs db) n = Some r0"
  shows "\<exists>r. map_of (ed_certs (revoke_serials t ss db)) n = Some r \<and> cr_agent r = cr_agent r0"
  using assms by (simp add: map_of_revoke)

lemma cert_agents_add: "map_of (ed_certs db) (ic_serial c) = None \<Longrightarrow> cert_agents (add_cert a c db) = insert a (cert_agents db)"
proof (intro equalityI subsetI)
  fix x assume n: "map_of (ed_certs db) (ic_serial c) = None" and "x \<in> insert a (cert_agents db)"
  then consider "x = a" | n' r where "map_of (ed_certs db) n' = Some r" "cr_agent r = x" by (auto simp: cert_agents_def)
  then show "x \<in> cert_agents (add_cert a c db)"
  proof cases
    case 1
    then show ?thesis using n by (auto simp: cert_agents_def map_of_add_cert intro!: exI[of _ "ic_serial c"])
  next
    case 2
    then have "map_of (ed_certs (add_cert a c db)) n' = Some r" by (simp add: map_of_add_cert)
    then show ?thesis using 2(2) unfolding cert_agents_def by blast
  qed
qed (auto simp: cert_agents_def map_of_add_cert split: option.splits if_splits)

lemma cert_agents_revoke [simp]: "cert_agents (revoke_serials t ss db) = cert_agents db"
proof (intro equalityI subsetI)
  fix a assume "a \<in> cert_agents db"
  then obtain n r0 where r0: "map_of (ed_certs db) n = Some r0" "cr_agent r0 = a" unfolding cert_agents_def by blast
  then show "a \<in> cert_agents (revoke_serials t ss db)"
    using row_revoked[OF r0(1), of t ss] unfolding cert_agents_def by auto
next
  fix a assume "a \<in> cert_agents (revoke_serials t ss db)"
  then obtain n r where "map_of (ed_certs (revoke_serials t ss db)) n = Some r" "cr_agent r = a" unfolding cert_agents_def by blast
  then show "a \<in> cert_agents db" unfolding cert_agents_def by (metis (mono_tags, lifting) mem_Collect_eq revoked_row)
qed

lemma has_revoked_kept:
  assumes "cert_kept db db'" "distinct (map fst (ed_certs db))" "distinct (map fst (ed_certs db'))" "agent_has_revoked db a"
  shows "agent_has_revoked db' a"
  using assms(1,4) unfolding has_revoked_iff[OF assms(2)] has_revoked_iff[OF assms(3)] cert_kept_def by metis

lemma wf_add_cert:
  "enroll_wf db \<Longrightarrow> map_of (ed_certs db) (ic_serial c) = None \<Longrightarrow> ed_agents db a \<noteq> None \<Longrightarrow> enroll_wf (add_cert a c db)"
  using distinct_add_cert by (auto simp: enroll_wf_def cert_agents_add)

lemma wf_new_agent:
  assumes "enroll_wf db" "map_of (ed_certs db) (ic_serial c) = None"
  shows "enroll_wf (add_cert a c (add_agent dbnow i tk a req db))"
proof -
  have "cert_agents (add_agent dbnow i tk a req db) = cert_agents db" by (simp add: cert_agents_def)
  then show ?thesis using assms distinct_add_cert[of "add_agent dbnow i tk a req db" c]
    by (simp add: enroll_wf_def cert_agents_add) (simp add: add_agent_def)
qed

lemma wf_revoke: "enroll_wf db \<Longrightarrow> enroll_wf (revoke_serials t ss db)"
  by (simp add: enroll_wf_def)

lemma wf_tokens: "enroll_wf db \<Longrightarrow> enroll_wf (db\<lparr>ed_tokens := f\<rparr>)"
  by (simp add: enroll_wf_def cert_agents_def)

section \<open>What each operation keeps\<close>

lemma run_op_wf:
  assumes "run_op parse_uuid sha256 op db = Some db'" "enroll_wf db"
  shows "enroll_wf db'"
proof (cases op)
  case (OpEnroll now dbnow a c req)
  then obtain site where "EnrollAgent parse_uuid sha256 now dbnow a (\<lambda>_. Some c) req db = Inr (a, site, db')"
    using assms(1) unfolding OpEnroll run_enroll by blast
  then show ?thesis
    by (cases rule: EnrollAgent_cases) (use assms(2) in \<open>auto intro: wf_add_cert wf_new_agent\<close>)
qed (use assms in \<open>auto simp: commits_def RenewCertificate_def record_cert_def RevokeCertificate_def RevokeAgentCertificates_def CreateJoinToken_def
      DeleteJoinToken_def intro: wf_add_cert wf_revoke wf_tokens split: if_splits option.splits\<close>)

text \<open>A live agent comes back to life through no operation.\<close>

lemma dead_revoke:
  assumes "dead db a" "distinct (map fst (ed_certs db))"
  shows "dead (revoke_serials t ss db) a"
proof -
  have "agent_has_revoked (revoke_serials t ss db) a"
    using assms by (intro has_revoked_kept[OF cert_kept_revoke assms(2)]) (simp_all add: dead_def)
  moreover have "cr_revoked_at r \<noteq> None" if r: "map_of (ed_certs (revoke_serials t ss db)) n = Some r" "cr_agent r = a" for n r
  proof -
    obtain r0 where "map_of (ed_certs db) n = Some r0" "cr_agent r = cr_agent r0" "cr_revoked_at r = (if n \<in> set ss then Some t else cr_revoked_at r0)"
      using r(1) by (rule revoked_row)
    then show ?thesis using assms(1) r(2) unfolding dead_def by (cases "n \<in> set ss") auto
  qed
  ultimately show ?thesis using assms(1) by (auto simp: dead_def)
qed

lemma dead_add_cert: "dead db a \<Longrightarrow> b \<noteq> a \<Longrightarrow> dead (add_cert b c db) a"
  by (auto simp: dead_def map_of_add_cert split: option.splits if_splits)

lemma dead_add_agent: "dead db a \<Longrightarrow> dead (add_agent dbnow i tk b req db) a"
  by (auto simp: dead_def agent_has_revoked_def) (simp_all add: add_agent_def)

lemma dead_tokens: "dead db a \<Longrightarrow> dead (db\<lparr>ed_tokens := f\<rparr>) a"
  by (simp add: dead_def agent_has_revoked_def)

lemma run_op_dead:
  assumes "run_op parse_uuid sha256 op db = Some db'" "dead db a" "distinct (map fst (ed_certs db))"
  shows "dead db' a"
proof (cases op)
  case (OpEnroll now dbnow b c req)
  then obtain site where "EnrollAgent parse_uuid sha256 now dbnow b (\<lambda>_. Some c) req db = Inr (b, site, db')"
    using assms(1) unfolding OpEnroll run_enroll by blast
  then show ?thesis
  proof (cases rule: EnrollAgent_cases)
    case (1 i secret tk c)
    then have "b \<noteq> a" using assms(2) by (auto simp: dead_def)
    then show ?thesis using 1(8) assms(2) by (auto intro: dead_add_cert dead_add_agent)
  qed
next
  case (OpRenew now b n c)
  then have "certValid db now n b" "db' = add_cert b c db"
    using assms(1) by (auto simp: commits_def RenewCertificate_def record_cert_def split: if_splits)
  then show ?thesis using assms(2) dead_invalid[OF assms(2)] by (auto intro: dead_add_cert)
qed (use assms in \<open>auto simp: commits_def RevokeCertificate_def RevokeAgentCertificates_def CreateJoinToken_def
      DeleteJoinToken_def intro: dead_revoke dead_tokens split: if_splits option.splits\<close>)

lemma run_ops_induct [consumes 2, case_names Step]:
  assumes "run_ops parse_uuid sha256 ops db = Some db'" "P db" "\<And>op db db'. run_op parse_uuid sha256 op db = Some db' \<Longrightarrow> P db \<Longrightarrow> P db'"
  shows "P db'"
  using assms(1,2) by (induction ops arbitrary: db) (auto split: bind_splits intro: assms(3))

lemma run_ops_append:
  "run_ops parse_uuid sha256 (xs @ ys) db = Option.bind (run_ops parse_uuid sha256 xs db) (run_ops parse_uuid sha256 ys)"
  by (induction xs arbitrary: db) (auto split: bind_splits)

lemma revoke_all_dead:
  assumes "run_op parse_uuid sha256 (OpRevokeAll t a) db = Some db'" "enroll_wf db"
  shows "dead db' a"
proof -
  have db': "ed_agents db a \<noteq> None" "db' = revoke_serials t (live_serials db a) db"
    using assms(1) by (auto simp: commits_def RevokeAgentCertificates_def split: if_splits)
  have d: "distinct (map fst (ed_certs db))" and "a \<in> cert_agents db" using assms(2) db'(1) by (auto simp: enroll_wf_def)
  then obtain n r where n: "map_of (ed_certs db) n = Some r" "cr_agent r = a" by (auto simp: cert_agents_def)
  have gone: "cr_revoked_at r' \<noteq> None" if r': "map_of (ed_certs db') n' = Some r'" "cr_agent r' = a" for n' r'
  proof -
    obtain r0 where r0: "map_of (ed_certs db) n' = Some r0" "cr_agent r' = cr_agent r0"
      "cr_revoked_at r' = (if n' \<in> set (live_serials db a) then Some t else cr_revoked_at r0)"
      using r'(1) unfolding db'(2) by (rule revoked_row)
    moreover have "n' \<in> set (live_serials db a)" if "cr_revoked_at r0 = None"
      using that r0(2) r'(2) map_of_SomeD[OF r0(1)] by (force simp: live_serials_def)
    ultimately show ?thesis by (metis option.distinct(1))
  qed
  have "distinct (map fst (ed_certs db'))" using d by (simp add: db')
  moreover obtain r' where "map_of (ed_certs db') n = Some r'" "cr_agent r' = a" using row_revoked[OF n(1)] n(2) unfolding db'(2) by metis
  ultimately have "agent_has_revoked db' a" using gone has_revoked_iff by blast
  then show ?thesis using gone db' by (simp add: dead_def)
qed

section \<open>Tokens\<close>

text \<open>
  A used token names its agent, which sits at the token's site and network, and no other token
  names that agent.
\<close>

definition token_wf :: "enroll_db \<Rightarrow> bool" where
  "token_wf db \<longleftrightarrow>
     (\<forall>i tk. ed_tokens db i = Some tk \<longrightarrow> (tk_used_at tk = None \<longleftrightarrow> tk_used_by tk = None))
   \<and> (\<forall>i tk a. ed_tokens db i = Some tk \<longrightarrow> tk_used_by tk = Some a \<longrightarrow>
        (\<exists>ag. ed_agents db a = Some ag \<and> ar_network ag = tk_network tk \<and> ar_site ag = tk_site tk))
   \<and> (\<forall>i j tk tk' a. ed_tokens db i = Some tk \<longrightarrow> ed_tokens db j = Some tk' \<longrightarrow> tk_used_by tk = Some a \<longrightarrow> tk_used_by tk' = Some a \<longrightarrow> i = j)"

text \<open>What an operation leaves of used tokens and of agents.\<close>

definition rows_kept :: "enroll_db \<Rightarrow> enroll_db \<Rightarrow> bool" where
  "rows_kept db db' \<longleftrightarrow> (\<forall>i tk. ed_tokens db i = Some tk \<longrightarrow> tk_used_at tk \<noteq> None \<longrightarrow> ed_tokens db' i = Some tk)
     \<and> (\<forall>a ag. ed_agents db a = Some ag \<longrightarrow> ed_agents db' a = Some ag)"

lemma run_op_rows:
  assumes "run_op parse_uuid sha256 op db = Some db'"
  shows "rows_kept db db'"
proof (cases op)
  case (OpEnroll now dbnow a c req)
  then obtain site where "EnrollAgent parse_uuid sha256 now dbnow a (\<lambda>_. Some c) req db = Inr (a, site, db')"
    using assms(1) unfolding OpEnroll run_enroll by blast
  then show ?thesis
    by (cases rule: EnrollAgent_cases) (auto simp: rows_kept_def add_agent_def)
qed (use assms in \<open>auto simp: rows_kept_def commits_def RenewCertificate_def record_cert_def RevokeCertificate_def RevokeAgentCertificates_def
      CreateJoinToken_def DeleteJoinToken_def split: if_splits option.splits\<close>)

lemma token_wf_new:
  assumes "token_wf db" "ed_tokens db i = Some tk" "tk_used_at tk = None" "ed_agents db a = None"
  shows "token_wf (add_agent dbnow i tk a req db)"
proof -
  have "tk_used_by tk' \<noteq> Some a" if "ed_tokens db j = Some tk'" for j tk'
    using assms(1,4) that unfolding token_wf_def by fastforce
  then show ?thesis
    using assms unfolding token_wf_def add_agent_def by (auto split: if_splits)
qed

lemma token_wf_cong: "token_wf db \<Longrightarrow> ed_tokens db' = ed_tokens db \<Longrightarrow> ed_agents db' = ed_agents db \<Longrightarrow> token_wf db'"
  by (simp add: token_wf_def)

lemma run_op_token_wf:
  assumes "run_op parse_uuid sha256 op db = Some db'" "token_wf db"
  shows "token_wf db'"
proof (cases op)
  case (OpEnroll now dbnow a c req)
  then obtain site where "EnrollAgent parse_uuid sha256 now dbnow a (\<lambda>_. Some c) req db = Inr (a, site, db')"
    using assms(1) unfolding OpEnroll run_enroll by blast
  then show ?thesis
  proof (cases rule: EnrollAgent_cases)
    case (1 i secret tk c)
    then show ?thesis
      using assms(2) by (auto intro: token_wf_cong[OF token_wf_new[OF assms(2) 1(2)]] token_wf_cong[OF assms(2)])
  qed
next
  case (OpCreateToken i secret now site network ttl)
  then obtain tk where "db' = db\<lparr>ed_tokens := (ed_tokens db)(i \<mapsto> tk)\<rparr>" "tk_used_at tk = None" "tk_used_by tk = None"
    using assms(1) by (auto simp: commits_def CreateJoinToken_def split: if_splits)
  then show ?thesis using assms(2) by (auto simp: token_wf_def split: if_splits)
next
  case (OpDeleteToken i sc)
  then have "db' = db\<lparr>ed_tokens := (ed_tokens db)(i := None)\<rparr>"
    using assms(1) by (auto simp: commits_def delete_open split: sum.splits)
  then show ?thesis using assms(2) by (auto simp: token_wf_def split: if_splits)
qed (use assms in \<open>auto simp: commits_def RenewCertificate_def record_cert_def RevokeCertificate_def RevokeAgentCertificates_def
      intro: token_wf_cong split: if_splits option.splits\<close>)

section \<open>Properties\<close>

text \<open>
  C19: Concurrent enrolments, renewals, revocations and token deletions are serializable. However
  their statements interleave, whatever is rolled back on the way, the committed tables are exactly
  what the committed operations produce when they run alone, one after the other, in the order they
  committed.
\<close>

theorem enrolment_serializable:
  assumes "(tx_step parse_uuid sha256)\<^sup>*\<^sup>* (tx_start db0) s" "distinct (map fst (ed_certs db0))"
  shows "run_ops parse_uuid sha256 (ts_log s) db0 = Some (ts_db s)"
  using tx_inv_reachable[OF assms] by (simp add: tx_inv_def)

lemma reachable_run:
  assumes "(tx_step parse_uuid sha256)\<^sup>*\<^sup>* (tx_start db0) s" "distinct (map fst (ed_certs db0))"
  shows "run_ops parse_uuid sha256 (ts_log s) db0 = Some (ts_db s)"
  using tx_inv_reachable[OF assms] by (simp add: tx_inv_def)

lemma wf_distinct: "enroll_wf db \<Longrightarrow> distinct (map fst (ed_certs db))"
  by (simp add: enroll_wf_def)

lemma run_ops_keeps_wf: "run_ops parse_uuid sha256 ops db = Some db' \<Longrightarrow> enroll_wf db \<Longrightarrow> enroll_wf db'"
  by (erule run_ops_induct) (auto intro: run_op_wf)

lemma run_ops_keeps_dead: "run_ops parse_uuid sha256 ops db = Some db' \<Longrightarrow> enroll_wf db \<and> dead db a \<Longrightarrow> enroll_wf db' \<and> dead db' a"
  by (erule run_ops_induct) (blast intro: run_op_wf run_op_dead wf_distinct)+

lemma run_ops_kept: "run_ops parse_uuid sha256 ops db = Some db' \<Longrightarrow> cert_kept db db'"
  by (induction ops arbitrary: db) (auto split: bind_splits dest!: run_op_cert_kept intro: cert_kept_trans)

text \<open>An operation in the log splits the run into what came before it, its own step and the rest.\<close>

lemma run_ops_member:
  assumes "run_ops parse_uuid sha256 ops db = Some db'" "op \<in> set ops"
  obtains xs ys d d' where "ops = xs @ op # ys" "run_ops parse_uuid sha256 xs db = Some d" "run_op parse_uuid sha256 op d = Some d'"
    "run_ops parse_uuid sha256 ys d' = Some db'"
proof -
  obtain xs ys where "ops = xs @ op # ys" using assms(2) by (meson split_list)
  then show thesis using assms(1) that by (auto simp: run_ops_append split: bind_splits)
qed

lemma system_log_grows:
  assumes "(tx_step parse_uuid sha256)\<^sup>*\<^sup>* s s'"
  shows "\<exists>ops. ts_log s' = ts_log s @ ops"
  using assms
proof (induction rule: rtranclp_induct)
  case (step y z)
  have "\<exists>ops. ts_log z = ts_log y @ ops" using step(2) by cases (auto simp: goto_def commit_def)
  then show ?case using step.IH by auto
qed simp

lemma revoked_all_invalid:
  assumes reach: "(tx_step parse_uuid sha256)\<^sup>*\<^sup>* (tx_start db0) s" "(tx_step parse_uuid sha256)\<^sup>*\<^sup>* s s'" and wf: "enroll_wf db0"
    and op: "OpRevokeAll t a \<in> set (ts_log s)"
  shows "\<not> certValid (ts_db s') now n a"
proof -
  have run: "run_ops parse_uuid sha256 (ts_log s') db0 = Some (ts_db s')"
    using reachable_run[OF _ wf_distinct[OF wf]] reach by (metis rtranclp_trans)
  have "OpRevokeAll t a \<in> set (ts_log s')" using op system_log_grows[OF reach(2)] by auto
  then obtain xs ys e e' where r: "run_ops parse_uuid sha256 xs db0 = Some e" "run_op parse_uuid sha256 (OpRevokeAll t a) e = Some e'"
    "run_ops parse_uuid sha256 ys e' = Some (ts_db s')" by (rule run_ops_member[OF run])
  have "enroll_wf e" using run_ops_keeps_wf[OF r(1) wf] .
  then have "enroll_wf e' \<and> dead e' a" using run_op_wf[OF r(2)] revoke_all_dead[OF r(2)] by blast
  then show ?thesis using run_ops_keeps_dead[OF r(3)] dead_invalid by blast
qed

text \<open>
  C20: Revocation is final. Once an agent-wide revocation has committed, no certificate of that agent
  is ever valid again, at any time, whatever renewals and replayed enrolments were under way or come
  later; once one serial has been revoked, that serial is never valid again for anyone and no
  enrolment is ever completed again for the agent that held it.
\<close>

theorem revocation_final:
  assumes reach: "(tx_step parse_uuid sha256)\<^sup>*\<^sup>* (tx_start db0) s" "(tx_step parse_uuid sha256)\<^sup>*\<^sup>* s s'" and wf: "enroll_wf db0"
  shows "(OpRevokeAll t a \<in> set (ts_log s) \<longrightarrow> \<not> certValid (ts_db s') now n a)
    \<and> (OpRevoke t m \<in> set (ts_log s) \<longrightarrow> \<not> certValid (ts_db s') now m b
        \<and> (\<exists>r. map_of (ed_certs (ts_db s')) m = Some r \<and>
             (\<forall>site db. EnrollAgent parse_uuid sha256 time dbnow fresh issue req (ts_db s') \<noteq> Inr (cr_agent r, site, db))))"
proof -
  have d: "distinct (map fst (ed_certs db0))" using wf by (rule wf_distinct)
  have run: "run_ops parse_uuid sha256 (ts_log s') db0 = Some (ts_db s')" using reachable_run[OF _ d] reach by (metis rtranclp_trans)
  have split: "\<exists>xs ys e e'. run_ops parse_uuid sha256 xs db0 = Some e \<and> run_op parse_uuid sha256 op e = Some e'
      \<and> run_ops parse_uuid sha256 ys e' = Some (ts_db s')" if op: "op \<in> set (ts_log s)" for op
  proof -
    have "op \<in> set (ts_log s')" using op system_log_grows[OF reach(2)] by auto
    then show ?thesis by (rule run_ops_member[OF run]) blast
  qed
  have one: "\<exists>r. map_of (ed_certs (ts_db s')) m = Some r \<and> cr_revoked_at r \<noteq> None \<and> ed_agents (ts_db s') (cr_agent r) \<noteq> None
    \<and> agent_has_revoked (ts_db s') (cr_agent r)"
    if op: "OpRevoke t m \<in> set (ts_log s)"
  proof -
    obtain xs ys e e' where r: "run_op parse_uuid sha256 (OpRevoke t m) e = Some e'" "run_ops parse_uuid sha256 ys e' = Some (ts_db s')"
      using split[OF op] by blast
    have "e' = revoke_serials t [m] e" and "map_of (ed_certs e) m \<noteq> None"
      using r(1) by (auto simp: commits_def RevokeCertificate_def split: option.splits if_splits)
    then obtain r0 where "map_of (ed_certs e') m = Some r0" "cr_revoked_at r0 \<noteq> None" by (auto simp: map_of_revoke)
    then obtain r1 where r1: "map_of (ed_certs (ts_db s')) m = Some r1" "cr_revoked_at r1 \<noteq> None"
      using run_ops_kept[OF r(2)] unfolding cert_kept_def by metis
    have wf': "enroll_wf (ts_db s')" using run_ops_keeps_wf[OF run wf] .
    then have "cr_agent r1 \<in> dom (ed_agents (ts_db s'))" using r1(1) unfolding enroll_wf_def cert_agents_def by blast
    then show ?thesis using r1 has_revoked_iff[OF wf_distinct[OF wf']] by blast
  qed
  have "\<exists>r. map_of (ed_certs (ts_db s')) m = Some r \<and>
      (\<forall>site db. EnrollAgent parse_uuid sha256 time dbnow fresh issue req (ts_db s') \<noteq> Inr (cr_agent r, site, db))"
    if op: "OpRevoke t m \<in> set (ts_log s)"
    using one[OF op] by (auto elim!: EnrollAgent_cases)
  moreover have "\<not> certValid (ts_db s') now m b" if op: "OpRevoke t m \<in> set (ts_log s)"
    using one[OF op] by (auto simp: certValid_def)
  ultimately show ?thesis using revoked_all_invalid[OF reach wf] by blast
qed

definition demo_cert :: cert_row where
  "demo_cert = \<lparr>cr_agent = 1, cr_not_before = 0, cr_not_after = 100, cr_revoked_at = None\<rparr>"

definition demo_enroll_db :: enroll_db where
  "demo_enroll_db = \<lparr>ed_tokens = Map.empty,
     ed_agents = [1 \<mapsto> \<lparr>ar_site = 2, ar_network = 3, ar_hostname = ''h'', ar_probe_address = ''p'', ar_version = ''v''\<rparr>],
     ed_targets = [1], ed_certs = [(7, demo_cert)]\<rparr>"

text \<open>A run in which agent 1 is revoked.\<close>

lemma demo_run:
  "\<exists>s. (tx_step parse_uuid sha256)\<^sup>*\<^sup>* (tx_start demo_enroll_db) s \<and> OpRevokeAll 5 1 \<in> set (ts_log s)
     \<and> certValid demo_enroll_db 5 7 1"
proof -
  let ?S = "tx_step parse_uuid sha256" and ?s0 = "tx_start demo_enroll_db"
  have free: "free_for (goto p x ?s0) p r" for p x r by (simp add: free_for_def goto_def tx_start_def)
  have 1: "?S ?s0 (goto 0 (RevokeAllBegun 1) ?s0)"
    by (rule tx_step.revoke_all_begin) (simp add: tx_start_def)
  have 2: "?S (goto 0 (RevokeAllBegun 1) ?s0) (goto 0 (RevokeAllLocked 1) (goto 0 (RevokeAllBegun 1) ?s0))"
    by (rule tx_step.revoke_all_lock) (simp_all add: free, simp_all add: goto_def tx_start_def demo_enroll_db_def)
  let ?s2 = "goto 0 (RevokeAllLocked 1) (goto 0 (RevokeAllBegun 1) ?s0)"
  have 3: "?S ?s2 (goto 0 (RevokeAllWritten 1 5 (live_serials (ts_db ?s2) 1)) ?s2)"
    by (rule tx_step.revoke_all_write) (simp add: goto_def)
  let ?s3 = "goto 0 (RevokeAllWritten 1 5 (live_serials (ts_db ?s2) 1)) ?s2"
  have 4: "?S ?s3 (commit 0 (OpRevokeAll 5 1) (revoke_serials 5 (live_serials (ts_db ?s2) 1) (ts_db ?s3)) ?s3)"
    by (rule tx_step.revoke_all_commit) (simp add: goto_def)
  have "?S\<^sup>*\<^sup>* ?s0 (commit 0 (OpRevokeAll 5 1) (revoke_serials 5 (live_serials (ts_db ?s2) 1) (ts_db ?s3)) ?s3)"
    using 1 2 3 4 by (meson converse_rtranclp_into_rtranclp r_into_rtranclp)
  moreover have "OpRevokeAll 5 1 \<in> set (ts_log (commit 0 (OpRevokeAll 5 1) (revoke_serials 5 (live_serials (ts_db ?s2) 1) (ts_db ?s3)) ?s3))"
    by (simp add: commit_def)
  moreover have "certValid demo_enroll_db 5 7 1" by (simp add: certValid_def demo_enroll_db_def demo_cert_def)
  ultimately show ?thesis by blast
qed

theorem enrolment_serializable_witness:
  "\<exists>s. (tx_step (\<lambda>_. None) (\<lambda>_. []))\<^sup>*\<^sup>* (tx_start demo_enroll_db) s \<and> ts_log s \<noteq> []
     \<and> run_ops (\<lambda>_. None) (\<lambda>_. []) (ts_log s) demo_enroll_db = Some (ts_db s)"
proof -
  obtain s where s: "(tx_step (\<lambda>_. None) (\<lambda>_. []))\<^sup>*\<^sup>* (tx_start demo_enroll_db) s" "OpRevokeAll 5 1 \<in> set (ts_log s)"
    using demo_run by blast
  moreover have "distinct (map fst (ed_certs demo_enroll_db))" by (simp add: demo_enroll_db_def)
  ultimately show ?thesis using enrolment_serializable[OF s(1)] by (intro exI[of _ s]) auto
qed

theorem revocation_final_witness:
  "certValid demo_enroll_db 5 7 1 \<and> (\<exists>s. (tx_step (\<lambda>_. None) (\<lambda>_. []))\<^sup>*\<^sup>* (tx_start demo_enroll_db) s \<and> \<not> certValid (ts_db s) 5 7 1)"
proof -
  obtain s where s: "(tx_step (\<lambda>_. None) (\<lambda>_. []))\<^sup>*\<^sup>* (tx_start demo_enroll_db) s" "OpRevokeAll 5 1 \<in> set (ts_log s)" "certValid demo_enroll_db 5 7 1"
    using demo_run by blast
  have wf: "enroll_wf demo_enroll_db" by (auto simp: enroll_wf_def demo_enroll_db_def cert_agents_def demo_cert_def split: if_splits)
  show ?thesis using revocation_final[OF s(1) rtranclp.rtrancl_refl wf] s by blast
qed

lemma run_ops_rows: "run_ops parse_uuid sha256 ops db = Some db' \<Longrightarrow> rows_kept db db'"
proof (induction ops arbitrary: db)
  case (Cons op ops)
  then obtain e where "run_op parse_uuid sha256 op db = Some e" "rows_kept e db'" by (auto split: bind_splits)
  then show ?case using run_op_rows[of parse_uuid sha256 op db e] by (auto simp: rows_kept_def)
qed (simp add: rows_kept_def)

text \<open>
  C21: A join token enrols one agent. Whatever interleaves, an enrolment that has committed presented
  the secret of a token that had not expired; that token is recorded as used by exactly this agent
  and by this signing request, the agent is registered at the token's site and on the token's
  network, and no other token names the agent. So two enrolments with the same token are for the
  same agent and the same request.
\<close>

theorem token_binds_one_agent:
  assumes reach: "(tx_step parse_uuid sha256)\<^sup>*\<^sup>* (tx_start db0) s" and wf: "distinct (map fst (ed_certs db0))" "token_wf db0"
    and op: "OpEnroll now dbnow a c req \<in> set (ts_log s)"
  shows "\<exists>i secret tk ag. splitToken parse_uuid (eq_token req) = Some (i, secret) \<and> ed_tokens (ts_db s) i = Some tk
    \<and> tk_secret_hash tk = sha256 secret \<and> now \<le> tk_expires tk \<and> tk_used_by tk = Some a \<and> tk_used_csr tk = eq_csr_hash req
    \<and> ed_agents (ts_db s) a = Some ag \<and> ar_network ag = tk_network tk \<and> ar_site ag = tk_site tk
    \<and> (\<forall>j tk'. ed_tokens (ts_db s) j = Some tk' \<longrightarrow> tk_used_by tk' = Some a \<longrightarrow> j = i)"
proof -
  have run: "run_ops parse_uuid sha256 (ts_log s) db0 = Some (ts_db s)" using reachable_run[OF reach wf(1)] .
  obtain e e' ys where r: "run_op parse_uuid sha256 (OpEnroll now dbnow a c req) e = Some e'" "run_ops parse_uuid sha256 ys e' = Some (ts_db s)"
    by (rule run_ops_member[OF run op])
  obtain site where "EnrollAgent parse_uuid sha256 now dbnow a (\<lambda>_. Some c) req e = Inr (a, site, e')"
    using r(1) unfolding run_enroll by blast
  then have "\<exists>i secret tk. splitToken parse_uuid (eq_token req) = Some (i, secret) \<and> ed_tokens e' i = Some tk
    \<and> tk_secret_hash tk = sha256 secret \<and> now \<le> tk_expires tk \<and> tk_used_by tk = Some a \<and> tk_used_csr tk = eq_csr_hash req \<and> tk_used_at tk \<noteq> None"
    by (cases rule: EnrollAgent_cases) (auto simp: add_agent_def)
  then obtain i secret tk where t: "splitToken parse_uuid (eq_token req) = Some (i, secret)" "ed_tokens (ts_db s) i = Some tk"
    "tk_secret_hash tk = sha256 secret" "now \<le> tk_expires tk" "tk_used_by tk = Some a" "tk_used_csr tk = eq_csr_hash req"
    using run_ops_rows[OF r(2)] unfolding rows_kept_def by blast
  have "token_wf (ts_db s)" using run wf(2) by (rule run_ops_induct) (rule run_op_token_wf)
  then show ?thesis using t unfolding token_wf_def by metis
qed

definition demo_token :: token_row where
  "demo_token = \<lparr>tk_secret_hash = [1], tk_site = 2, tk_network = 3, tk_expires = 50, tk_used_at = None, tk_used_by = None, tk_used_csr = []\<rparr>"

definition demo_req :: enroll_req where
  "demo_req = \<lparr>eq_token = ''4.s'', eq_hostname = ''h'', eq_probe_address = ''p'', eq_version = ''v'', eq_csr_hash = [9]\<rparr>"

definition token_db :: enroll_db where
  "token_db = \<lparr>ed_tokens = [4 \<mapsto> demo_token], ed_agents = Map.empty, ed_targets = [], ed_certs = []\<rparr>"

definition demo_issued :: issued_cert where
  "demo_issued = \<lparr>ic_serial = 8, ic_not_before = 0, ic_not_after = 90\<rparr>"

text \<open>A run in which agent 6 enrols with token 4.\<close>

lemma demo_enrol_run:
  "\<exists>s. (tx_step (\<lambda>_. Some 4) (\<lambda>_. [1]))\<^sup>*\<^sup>* (tx_start token_db) s \<and> OpEnroll 10 11 6 demo_issued demo_req \<in> set (ts_log s)"
proof -
  let ?S = "tx_step (\<lambda>_. Some 4) (\<lambda>_. [1])" and ?s0 = "tx_start token_db"
  let ?e = "\<lparr>en_req = demo_req, en_dbnow = 11, en_now = 10, en_token = 4, en_row = demo_token, en_use = None\<rparr>"
  define s1 where "s1 = goto 0 (EnrollBegun demo_req 11) ?s0"
  define s2 where "s2 = goto 0 (EnrollToken ?e) s1"
  define s3 where "s3 = goto 0 (EnrollReady ?e 6) s2"
  define s4 where "s4 = goto 0 (EnrollWritten ?e 6 demo_issued) s3"
  note defs = s1_def s2_def s3_def s4_def goto_def tx_start_def token_db_def demo_req_def demo_token_def demo_issued_def
  have free: "free_for s1 0 r" "free_for s2 0 r" "free_for s3 0 r" for r by (simp_all add: free_for_def defs)
  have 1: "?S ?s0 s1" unfolding s1_def by (rule tx_step.enroll_begin) (simp add: tx_start_def)
  have 2: "?S s1 s2" unfolding s2_def
    by (rule tx_step.enroll_token[where secret = "''s''"]) (simp_all add: free, simp_all add: defs splitToken_def token_use_def)
  have 3: "?S s2 s3" unfolding s3_def by (rule tx_step.enroll_create) (simp_all add: free, simp_all add: defs)
  have 4: "?S s3 s4" unfolding s4_def by (rule tx_step.enroll_write) (simp_all add: free, simp_all add: defs)
  have 5: "?S s4 (commit 0 (OpEnroll 10 11 6 demo_issued demo_req) (enroll_writes ?e 6 demo_issued (ts_db s4)) s4)"
    using tx_step.enroll_commit[of s4 0 ?e 6 demo_issued] by (simp add: s4_def goto_def)
  have "?S\<^sup>*\<^sup>* ?s0 (commit 0 (OpEnroll 10 11 6 demo_issued demo_req) (enroll_writes ?e 6 demo_issued (ts_db s4)) s4)"
    using 1 2 3 4 5 by (meson converse_rtranclp_into_rtranclp r_into_rtranclp)
  moreover have "OpEnroll 10 11 6 demo_issued demo_req \<in> set (ts_log (commit 0 (OpEnroll 10 11 6 demo_issued demo_req) db s4))" for db
    by (simp add: commit_def)
  ultimately show ?thesis by blast
qed

theorem token_binds_one_agent_witness:
  "\<exists>s ag. (tx_step (\<lambda>_. Some 4) (\<lambda>_. [1]))\<^sup>*\<^sup>* (tx_start token_db) s \<and> ed_agents (ts_db s) 6 = Some ag
     \<and> (\<exists>tk. ed_tokens (ts_db s) 4 = Some tk \<and> tk_used_by tk = Some 6 \<and> ar_network ag = tk_network tk)"
proof -
  obtain s where s: "(tx_step (\<lambda>_. Some 4) (\<lambda>_. [1]))\<^sup>*\<^sup>* (tx_start token_db) s" "OpEnroll 10 11 6 demo_issued demo_req \<in> set (ts_log s)"
    using demo_enrol_run by blast
  have w: "distinct (map fst (ed_certs token_db))" "token_wf token_db" by (auto simp: token_db_def token_wf_def demo_token_def split: if_splits)
  have "splitToken (\<lambda>_. Some 4) (eq_token demo_req) = Some (4, ''s'')" by (simp add: splitToken_def demo_req_def)
  then show ?thesis using token_binds_one_agent[OF s(1) w s(2)] s(1) by auto
qed

end
