(* ===== verification/Auth_Correct.thy ===== *)
theory Auth_Correct
  imports Grpc_Auth Enroll_Correct
begin

text \<open>
  The properties of agent authentication: how long a revoked agent can still get in through the
  cache, and what the credential calls record and change.
\<close>

section \<open>The revocation window\<close>

text \<open>
  The certificate cache as the requests of the server use it: a fetch reads the database at some
  instant while it runs, and a check that bypasses the cache only ever notes a refusal.
\<close>

definition cert_fetch :: "(gtime \<Rightarrow> enroll_db) \<Rightarrow> cert_key \<Rightarrow> gtime \<Rightarrow> gtime \<Rightarrow> bool \<Rightarrow> bool" where
  "cert_fetch hist k t0 t1 v \<longleftrightarrow> (\<exists>t. t0 \<le> t \<and> t \<le> t1 \<and> v = certValid (hist t) t (snd k) (fst k))"

definition cert_proved :: "cert_key \<Rightarrow> gtime \<Rightarrow> bool \<Rightarrow> bool" where
  "cert_proved k t v \<longleftrightarrow> \<not> v"

lemma authenticated_valid:
  assumes "authenticateAgent parse_uuid uuid_str ctx now fetch c = (Inr i, c', evs)"
  shows "cert_lookup c (id_AgentID i, x_SerialNumber (id_Cert i)) now = Some True
    \<or> fetch (x_SerialNumber (id_Cert i)) (id_AgentID i) = Some True"
  using assms by (auto simp: authenticateAgent_def certValidCached_def split: option.splits list.splits bool.splits prod.splits if_splits)

text \<open>
  C22: A revoked agent is locked out within thirty seconds. Once the revocation of an agent has
  committed at \<open>tr\<close>, then whatever requests hit, missed, fetched and stored in the certificate cache
  in whatever interleaving, no call that begins more than the time to live of the cache after \<open>tr\<close>
  is authenticated as that agent.
\<close>

theorem revoked_agent_locked_out:
  assumes reach: "(tx_step parse_uuid sha256)\<^sup>*\<^sup>* (tx_start db0) s" "enroll_wf db0" "OpRevokeAll u a \<in> set (ts_log s)"
    and after: "\<And>t. tr \<le> t \<Longrightarrow> (tx_step parse_uuid sha256)\<^sup>*\<^sup>* s (hist t)"
    and cache: "(cache_step cert_lookup cert_put (cert_fetch (\<lambda>t. ts_db (hist t))) cert_proved)\<^sup>*\<^sup>* (cache_start fmempty tb) c"
    and auth: "authenticateAgent parse_uuid uuid_str ctx (cs_now c)
        (\<lambda>n b. if fails then None else Some (certValid (ts_db (hist (cs_now c))) (cs_now c) n b)) (cs_cache c) = (Inr i, c', evs)"
    and agent: "id_AgentID i = a"
  shows "cs_now c < tr + certCacheTTL"
proof -
  have invalid: "\<not> certValid (ts_db (hist t)) t n a" if "tr \<le> t" for t n
    by (rule revoked_all_invalid[OF reach(1) after[OF that] reach(2,3)])
  have ttl: "0 < certCacheTTL" by (simp add: certCacheTTL_def)
  consider "cert_lookup (cs_cache c) (a, x_SerialNumber (id_Cert i)) (cs_now c) = Some True"
    | "certValid (ts_db (hist (cs_now c))) (cs_now c) (x_SerialNumber (id_Cert i)) a"
    using authenticated_valid[OF auth] agent by (auto split: if_splits)
  then show ?thesis
  proof cases
    case 1
    then have "certs.backed (cert_fetch (\<lambda>t. ts_db (hist t))) cert_proved (a, x_SerialNumber (id_Cert i)) (cs_now c) True"
      using ttl by (intro certs.lookup_backed[OF cache]) auto
    then obtain f f' where f: "cert_fetch (\<lambda>t. ts_db (hist t)) (a, x_SerialNumber (id_Cert i)) f f' True" "cs_now c \<le> f + certCacheTTL"
      by (auto simp: certs.backed_def cert_proved_def)
    then obtain t where "f \<le> t" "certValid (ts_db (hist t)) t (x_SerialNumber (id_Cert i)) a" by (auto simp: cert_fetch_def)
    then show ?thesis using invalid[of t] f(2) by force
  next
    case 2
    then show ?thesis using invalid[of "cs_now c"] ttl by force
  qed
qed

definition demo_ctx :: grpc_ctx where
  "demo_ctx = Some \<lparr>pe_Addr = Some ''192.0.2.7:4711'',
     pe_Chains = Some [[\<lparr>x_SerialNumber = 7, x_URIs = [\<lparr>u_Scheme = ''polarbeam'', u_Host = ''agent'', u_Path = ''/1''\<rparr>], x_CommonName = ''h''\<rparr>]]\<rparr>"

theorem revoked_agent_locked_out_witness:
  "\<exists>s hist i c' evs. (tx_step (\<lambda>_. Some 1) (\<lambda>_. []))\<^sup>*\<^sup>* (tx_start demo_enroll_db) s \<and> OpRevokeAll 5 1 \<in> set (ts_log s)
     \<and> hist = (\<lambda>t :: gtime. if t < 10 then tx_start demo_enroll_db else s)
     \<and> authenticateAgent (\<lambda>_. Some 1) (\<lambda>_. ''1'') demo_ctx 5 (\<lambda>n b. Some (certValid (ts_db (hist 5)) 5 n b)) fmempty = (Inr i, c', evs)
     \<and> 5 < 10 + certCacheTTL"
proof -
  obtain s where s: "(tx_step (\<lambda>_. Some 1) (\<lambda>_. []))\<^sup>*\<^sup>* (tx_start demo_enroll_db) s" "OpRevokeAll 5 1 \<in> set (ts_log s)"
    "certValid demo_enroll_db 5 7 1" using demo_run by blast
  have wf: "enroll_wf demo_enroll_db" by (auto simp: enroll_wf_def demo_enroll_db_def cert_agents_def demo_cert_def split: if_splits)
  define hist where "hist t = (if t < 10 then tx_start demo_enroll_db else s)" for t :: gtime
  let ?c = "cache_start fmempty 5 :: (cert_cache, cert_key, bool) cache_sys"
  let ?fetch = "\<lambda>n b. Some (certValid (ts_db (hist 5)) 5 n b)"
  have valid: "certValid (ts_db (hist 5)) 5 7 1" using s(3) by (simp add: hist_def tx_start_def)
  obtain i c' evs where auth: "authenticateAgent (\<lambda>_. Some 1) (\<lambda>_. ''1'') demo_ctx 5 ?fetch fmempty = (Inr i, c', evs)" "id_AgentID i = 1"
    using valid by (simp add: authenticateAgent_def demo_ctx_def AgentIDFromCert_def certValidCached_def cert_lookup_def)
  have "cs_now ?c < 10 + certCacheTTL"
  proof (rule revoked_agent_locked_out[OF s(1) wf s(2), where hist = hist and tb = 5 and fails = False])
    show "10 \<le> t \<Longrightarrow> (tx_step (\<lambda>_. Some 1) (\<lambda>_. []))\<^sup>*\<^sup>* s (hist t)" for t by (simp add: hist_def)
    show "(cache_step cert_lookup cert_put (cert_fetch (\<lambda>t. ts_db (hist t))) cert_proved)\<^sup>*\<^sup>* ?c ?c" by simp
    show "authenticateAgent (\<lambda>_. Some 1) (\<lambda>_. ''1'') demo_ctx (cs_now ?c)
        (\<lambda>n b. if False then None else Some (certValid (ts_db (hist (cs_now ?c))) (cs_now ?c) n b)) (cs_cache ?c) = (Inr i, c', evs)"
      using auth(1) by (simp add: cache_start_def)
  qed (rule auth(2))
  then have "5 < 10 + certCacheTTL" by (simp add: cache_start_def)
  moreover have "hist = (\<lambda>t. if t < 10 then tx_start demo_enroll_db else s)" by (simp add: hist_def fun_eq_iff)
  ultimately show ?thesis using s(1,2) auth(1) by blast
qed

section \<open>What the credential calls record\<close>

definition documented :: "audit_event \<Rightarrow> bool" where
  "documented ev \<longleftrightarrow> (case map_of Catalog (ev_ID ev) of None \<Rightarrow> False | Some ks \<Rightarrow> fst ` set (ev_Attrs ev) \<subseteq> set ks)"

lemma catalog_agent_events:
  "map_of Catalog EventAgentEnroll = Some [''agent'', ''site'', ''network'', ''hostname'', ''probe_address'', ''reason'']"
  "map_of Catalog EventAgentCertRenew = Some [''agent'', ''not_after'', ''reason'']"
  "map_of Catalog EventAgentAuth = Some [''reason'']"
  by (simp_all add: Catalog_def event_ids)

lemma enroll_event_documented:
  "set (map fst attrs) \<subseteq> {''agent'', ''site'', ''hostname'', ''probe_address'', ''reason''} \<Longrightarrow> documented (enroll_event o1 m a r attrs)"
  by (auto simp: documented_def enroll_event_def catalog_agent_events)

lemma renew_event_documented:
  "set (map fst attrs) \<subseteq> {''not_after'', ''reason''} \<Longrightarrow> documented (renew_event uuid_str ctx a o1 m attrs)"
  by (auto simp: documented_def renew_event_def catalog_agent_events)

text \<open>
  C23: Every enrolment attempt is recorded, and a refused one changes nothing. The handler emits
  exactly one audit event, of the catalogued kind with documented attributes, whose outcome is
  success exactly when a certificate is returned. A refusal leaves the tables as they were; a
  success records the returned certificate, valid from then on, for the agent named in the response.
\<close>

theorem enroll_audited_atomic:
  "\<exists>res db' ev. Enroll parse_uuid uuid_str sha256 csr_sum ValidateCSR now dbnow fresh sign ctx req db = (res, db', [ev])
     \<and> documented ev \<and> (ev_Outcome ev = Success \<longleftrightarrow> \<not> isl res)
     \<and> (case res of
          Inl e \<Rightarrow> db' = db
        | Inr r \<Rightarrow> \<exists>a serial. sign (ec_CsrDer req) a (ec_Hostname req) = Some (er_CertDer r, serial, er_NotAfter r)
            \<and> er_AgentId r = uuid_str a \<and> map_of (ed_certs db) serial = None
            \<and> (\<forall>t. certValid db' t serial a \<longleftrightarrow> now - 5 * minute \<le> t \<and> t \<le> er_NotAfter r))"
proof -
  have refused: "documented (enroll_refused req (peerHost ctx) o1 reason)" "ev_Outcome (enroll_refused req (peerHost ctx) o1 reason) = o1" for o1 reason
    unfolding enroll_refused_def by (auto intro: enroll_event_documented) (simp add: enroll_event_def)
  show ?thesis
  proof (cases "ec_JoinToken req = '''' \<or> ec_CsrDer req = [] \<or> \<not> ValidateCSR (ec_CsrDer req)")
    case True
    then show ?thesis using refused by (auto simp: Enroll_def Let_def)
  next
    case False
    show ?thesis
    proof (cases "enroll_store parse_uuid sha256 csr_sum now dbnow fresh sign ctx req db")
      case (Inl e)
      then show ?thesis using False refused by (cases e) (auto simp: Enroll_def Let_def)
    next
      case (Inr x)
      obtain a site db' where x: "x = (a, site, db')" by (metis prod_cases3)
      obtain c where c: "map_option (cert_of_signing now) (sign (ec_CsrDer req) a (ec_Hostname req)) = Some c" "map_of (ed_certs db) (ic_serial c) = None"
        "\<exists>d. db' = add_cert a c d \<and> ed_certs d = ed_certs db"
        using Inr[unfolded x enroll_store_def] by (rule EnrollAgent_cases) (metis add_agent_certs)
      obtain der serial na where sg: "sign (ec_CsrDer req) a (ec_Hostname req) = Some (der, serial, na)"
        "c = \<lparr>ic_serial = serial, ic_not_before = now - 5 * minute, ic_not_after = na\<rparr>"
        using c(1) by (auto simp: cert_of_signing_def)
      have "certValid db' t serial a \<longleftrightarrow> now - 5 * minute \<le> t \<and> t \<le> na" for t
        using c(2,3) sg(2) by (auto simp: certValid_def map_of_add_cert)
      moreover have "documented (enroll_event Success ''agent enrolled'' (agentActor uuid_str a) (peerHost ctx) (enrolled_attrs uuid_str ctx req a site))"
        by (rule enroll_event_documented) (simp add: enrolled_attrs_def)
      ultimately show ?thesis using False Inr sg c(2) unfolding x by (auto simp: Enroll_def Let_def enroll_event_def)
    qed
  qed
qed

text \<open>
  A renewal never rests on the cache. For an authenticated caller the handler emits exactly one
  documented event whose outcome is success exactly when a certificate is returned; it returns one
  only if the presented certificate is valid in the tables at that moment, whatever the cache says,
  and a presented certificate that is not valid is refused, leaves the tables as they were and is
  refused by the cache from then on.
\<close>

theorem renewal_checks_uncached:
  assumes "authenticateAgent parse_uuid uuid_str ctx now fetch c = (Inr i, c1, evs)"
  shows "\<exists>res c' db' ev. RenewCert parse_uuid uuid_str time_text now fetch sign ctx csr c db = (res, c', db', [ev])
    \<and> documented ev \<and> (ev_Outcome ev = Success \<longleftrightarrow> \<not> isl res)
    \<and> (\<not> isl res \<longrightarrow> certValid db now (x_SerialNumber (id_Cert i)) (id_AgentID i))
    \<and> (isl res \<longrightarrow> db' = db)
    \<and> (\<not> certValid db now (x_SerialNumber (id_Cert i)) (id_AgentID i) \<longrightarrow>
         res = Inl PermissionDenied \<and> cert_lookup c' (id_AgentID i, x_SerialNumber (id_Cert i)) now = Some False)"
proof -
  have evs: "evs = []"
    using assms by (auto simp: authenticateAgent_def split: option.splits list.splits bool.splits prod.splits)
  have doc: "documented (renew_event uuid_str ctx a o1 m [(''reason'', r)])" "documented (renew_event uuid_str ctx a o1 m [(''not_after'', r)])" for a o1 m r
    by (rule renew_event_documented, simp)+
  have out: "ev_Outcome (renew_event uuid_str ctx a o1 m as) = o1" for a o1 m as by (simp add: renew_event_def)
  have rev: "cert_lookup (cacheRevoked i now c1) (id_AgentID i, x_SerialNumber (id_Cert i)) now = Some False"
    by (simp add: cacheRevoked_def certs.lookup_put_same certCacheTTL_def)
  let ?signed = "sign csr (id_AgentID i) (x_CommonName (id_Cert i))"
  show ?thesis
  proof (cases "RenewCertificate now (id_AgentID i) (x_SerialNumber (id_Cert i)) (map_option (cert_of_signing now) ?signed) db")
    case (Inl e)
    have "e = CertRevoked \<or> certValid db now (x_SerialNumber (id_Cert i)) (id_AgentID i)"
      using Inl by (auto simp: RenewCertificate_def split: if_splits)
    then show ?thesis
      using Inl assms evs doc out rev by (cases e; cases ?signed) (auto simp: RenewCert_def Let_def)
  next
    case (Inr db')
    then have "certValid db now (x_SerialNumber (id_Cert i)) (id_AgentID i)" "?signed \<noteq> None"
      by (auto simp: RenewCertificate_def split: if_splits option.splits)
    then show ?thesis using Inr assms evs doc out by (auto simp: RenewCert_def Let_def)
  qed
qed

theorem renewal_checks_uncached_witness:
  "\<exists>c' ev. RenewCert (\<lambda>_. Some 1) (\<lambda>_. ''1'') (\<lambda>_. '''') 5 (\<lambda>n b. Some True) (\<lambda>csr a cn. None) demo_ctx [] fmempty (revoke_serials 4 [7] demo_enroll_db)
     = (Inl PermissionDenied, c', revoke_serials 4 [7] demo_enroll_db, [ev])"
proof -
  let ?db = "revoke_serials 4 [7] demo_enroll_db"
  obtain i c1 evs where auth: "authenticateAgent (\<lambda>_. Some 1) (\<lambda>_. ''1'') demo_ctx 5 (\<lambda>n b. Some True) fmempty = (Inr i, c1, evs)"
    "id_AgentID i = 1" "x_SerialNumber (id_Cert i) = 7"
    by (simp add: authenticateAgent_def demo_ctx_def AgentIDFromCert_def certValidCached_def cert_lookup_def)
  have "\<not> certValid ?db 5 7 1" by (simp add: certValid_def map_of_revoke demo_enroll_db_def demo_cert_def)
  then show ?thesis
    using renewal_checks_uncached[OF auth(1), of "\<lambda>_. ''''" "\<lambda>csr a cn. None" "[]" ?db] auth(2,3) by auto
qed

text \<open>The refusal of a certificate that names an agent carries an attribute its catalog entry does not list.\<close>

lemma auth_event_undocumented: "a \<noteq> 0 \<Longrightarrow> \<not> documented (auth_refused uuid_str ctx a reason)"
  by (simp add: documented_def auth_refused_def catalog_agent_events)

lemma agent_identity_roundtrip:
  "parse_uuid (uuid_str a) = Some a \<Longrightarrow> uuid_str a \<noteq> '''' \<Longrightarrow>
     AgentIDFromCert parse_uuid \<lparr>x_SerialNumber = n, x_URIs = [AgentURISAN uuid_str a], x_CommonName = cn\<rparr> = Some a"
  by (simp add: AgentIDFromCert_def AgentURISAN_def)

end
