(* ===== verification/Ingest_Correct.thy ===== *)
theory Ingest_Correct
  imports Ingest Outage_Correct Auth_Correct
begin

text \<open>
  The properties of ingestion: what is stored, that nothing is counted twice however often a batch is
  sent, that only assigned probes are accepted, and that the drop counters add up.
\<close>

section \<open>Stored error text\<close>

lemma storable_cut:
  assumes "valid_utf8 s" "maxErrorLen < length s"
  shows "valid_utf8 (take (rune_cut s maxErrorLen) s)" "125 \<le> rune_cut s maxErrorLen"
proof -
  have le: "rune_cut s maxErrorLen \<le> maxErrorLen" by (rule rune_cut_le)
  have "rune_cut s maxErrorLen = 0 \<or> rune_start (s ! rune_cut s maxErrorLen)" using rune_cut_start by blast
  then show "valid_utf8 (take (rune_cut s maxErrorLen) s)"
    using valid_take[OF assms(1), of "rune_cut s maxErrorLen"] le assms(2) by (cases "rune_cut s maxErrorLen = 0") auto
  show "125 \<le> rune_cut s maxErrorLen"
  proof (rule ccontr)
    assume "\<not> 125 \<le> rune_cut s maxErrorLen"
    then show False
      using valid_rune_gap[OF assms(1), of 128] rune_cut_max[of s maxErrorLen] assms(2) by (auto simp: maxErrorLen_def)
  qed
qed

text \<open>
  C27: Whatever text an agent reports as an error, what is stored is a valid UTF-8 string without NUL of
  at most 128 bytes, so no result can make the insert of its batch fail on it. Text that is already
  storable is stored unchanged, storing is idempotent, and of longer text at most three bytes less
  than the bound are kept.
\<close>

theorem stored_error_safe:
  "valid_utf8 (storableError e) \<and> CHR 0x00 \<notin> set (storableError e) \<and> length (storableError e) \<le> maxErrorLen
    \<and> (valid_utf8 e \<and> CHR 0x00 \<notin> set e \<and> length e \<le> maxErrorLen \<longrightarrow> storableError e = e)
    \<and> storableError (storableError e) = storableError e
    \<and> (valid_utf8 e \<and> CHR 0x00 \<notin> set e \<and> length e > maxErrorLen \<longrightarrow> (\<exists>k. 125 \<le> k \<and> storableError e = take k e))"
proof -
  let ?r = "replace_nul (to_valid_utf8 e rune_error)"
  have v: "valid_utf8 ?r" by (simp add: valid_replace_nul to_valid_utf8_valid)
  have z: "CHR 0x00 \<notin> set ?r" by (rule replace_nul_free)
  have safe: "valid_utf8 (storableError e)" "CHR 0x00 \<notin> set (storableError e)" "length (storableError e) \<le> maxErrorLen"
    using v z storable_cut[OF v] rune_cut_le[of ?r maxErrorLen] in_set_takeD[of "CHR 0x00" _ ?r]
    by (auto simp: storableError_def Let_def)
  have id: "replace_nul (to_valid_utf8 x rune_error) = x" if "valid_utf8 x" "CHR 0x00 \<notin> set x" for x
    using that by (simp add: to_valid_utf8_id replace_nul_id)
  have same: "storableError x = x" if "valid_utf8 x" "CHR 0x00 \<notin> set x" "length x \<le> maxErrorLen" for x
    using id[OF that(1,2)] that(3) by (simp add: storableError_def)
  have "\<exists>k. 125 \<le> k \<and> storableError e = take k e" if "valid_utf8 e" "CHR 0x00 \<notin> set e" "length e > maxErrorLen"
    using id[OF that(1,2)] that(3) storable_cut[OF that(1,3)] by (intro exI[of _ "rune_cut e maxErrorLen"]) (simp add: storableError_def)
  then show ?thesis using safe same[of e] same[OF safe] by blast
qed

theorem stored_error_safe_witness:
  "storableError [CHR 0x00, CHR 0xFF, CHR 0xFE] = rune_error @ rune_error \<and> storableError ''timeout'' = ''timeout''"
  using stored_error_safe[of "''timeout''"]
  by (simp add: maxErrorLen_def storableError_def to_valid_utf8_def to_valid_loop.simps valid_utf8.simps replace_nul_def rune_error_def)

section \<open>The insert\<close>

text \<open>The rows of a batch whose key is new: absent from the table and from the batch so far.\<close>

fun fresh_rows :: "uuid \<Rightarrow> result_row list \<Rightarrow> result_table \<Rightarrow> result_row list" where
  "fresh_rows agent [] tbl = []"
| "fresh_rows agent (r # rs) tbl =
     (if tbl (row_key agent r) \<noteq> None then fresh_rows agent rs tbl else r # fresh_rows agent rs (tbl(row_key agent r \<mapsto> r)))"

definition add_rows :: "uuid \<Rightarrow> result_row list \<Rightarrow> result_table \<Rightarrow> result_table" where
  "add_rows agent rows tbl = foldl (\<lambda>t r. t(row_key agent r \<mapsto> r)) tbl rows"

lemma insert_rows_fresh:
  "insert_rows agent rows tbl = (map (row_key agent) (fresh_rows agent rows tbl), add_rows agent (fresh_rows agent rows tbl) tbl)"
  by (induction rows arbitrary: tbl) (auto simp: add_rows_def)

lemma fresh_rows_keys:
  "row_key agent ` set (fresh_rows agent rows tbl) = row_key agent ` set rows - dom tbl"
proof (induction rows arbitrary: tbl)
  case (Cons r rs)
  show ?case
  proof (cases "tbl (row_key agent r)")
    case None
    have "row_key agent ` set (fresh_rows agent (r # rs) tbl) = insert (row_key agent r) (row_key agent ` set rs - dom (tbl(row_key agent r \<mapsto> r)))"
      using None Cons[of "tbl(row_key agent r \<mapsto> r)"] by (simp del: fun_upd_apply dom_fun_upd)
    also have "\<dots> = row_key agent ` set (r # rs) - dom tbl" using None by auto
    finally show ?thesis .
  qed (use Cons in auto)
qed simp

lemma fresh_rows_distinct: "distinct (map (row_key agent) (fresh_rows agent rows tbl))"
proof (induction rows arbitrary: tbl)
  case (Cons r rs)
  have "row_key agent r \<notin> row_key agent ` set (fresh_rows agent rs (tbl(row_key agent r \<mapsto> r)))"
    unfolding fresh_rows_keys by simp
  then show ?case using Cons by simp
qed simp

lemma fresh_rows_subset: "set (fresh_rows agent rows tbl) \<subseteq> set rows"
proof (induction rows arbitrary: tbl)
  case (Cons r rs)
  show ?case using Cons[of tbl] Cons[of "tbl(row_key agent r \<mapsto> r)"] by (auto simp del: fun_upd_apply)
qed simp

lemma rows_of_fresh: "rows_of_keys agent rows (map (row_key agent) (fresh_rows agent rows tbl)) = fresh_rows agent rows tbl"
proof (induction rows arbitrary: tbl)
  case (Cons r rs)
  show ?case
  proof (cases "tbl (row_key agent r)")
    case (Some x)
    have "row_key agent r \<notin> row_key agent ` set (fresh_rows agent rs tbl)" unfolding fresh_rows_keys using Some by auto
    then show ?thesis using Cons Some by simp
  next
    case None
    let ?f = "fresh_rows agent rs (tbl(row_key agent r \<mapsto> r))"
    have "row_key agent r \<notin> row_key agent ` set ?f" unfolding fresh_rows_keys by simp
    then have "removeAll (row_key agent r) (map (row_key agent) ?f) = map (row_key agent) ?f"
      by (intro removeAll_id) (metis image_set)
    then show ?thesis using Cons[of "tbl(row_key agent r \<mapsto> r)"] None by (simp del: fun_upd_apply)
  qed
qed simp

lemma InsertResultsTx_fresh: "InsertResultsTx agent rows tbl = (fresh_rows agent rows tbl, add_rows agent (fresh_rows agent rows tbl) tbl)"
  by (cases rows) (simp_all add: InsertResultsTx_def insert_rows_fresh rows_of_fresh add_rows_def del: insert_rows.simps rows_of_keys.simps fresh_rows.simps(2))

lemma dom_add_rows: "dom (add_rows agent rows tbl) = dom tbl \<union> row_key agent ` set rows"
  unfolding add_rows_def by (induction rows arbitrary: tbl) auto

lemma fresh_rows_none: "row_key agent ` set rows \<subseteq> dom tbl \<Longrightarrow> fresh_rows agent rows tbl = []"
  using fresh_rows_keys[of agent rows tbl] by (metis Diff_eq_empty_iff image_is_empty set_empty)

section \<open>The transaction\<close>

lemma stage_Some [simp]: "stage e st x = Some y \<longleftrightarrow> \<not> ie_fault e st \<and> x = Some y"
  by (simp add: stage_def)

lemma push_tx_Some:
  assumes "push_tx e agent assigned req rows db = Some db'"
  shows "account_drops e agent req (ib_drops db) = Some (ib_drops db')"
    and "ib_results db' = add_rows agent (fresh_rows agent rows (ib_results db)) (ib_results db)"
    and "\<exists>trs. Apply (ie_gen e) agent (toOutageResults (ie_detail_text e) assigned (fresh_rows agent rows (ib_results db))) (ib_outage db) = Some (trs, ib_outage db')"
  using assms by (auto simp: push_tx_def InsertResultsTx_fresh bind_eq_Some_conv)

lemma bookkeeping_nil:
  "Apply gen agent [] od = Some ([], od)" "path_Apply gen agent [] paths = Some ([], paths)" "mtu_Apply gen agent [] mtus = Some ([], mtus)"
  by (simp_all add: Apply_def path_Apply_def mtu_Apply_def watch_apply_def watch_good_def split: prod.split)

text \<open>A transaction whose rows are all known changes only the drop counters.\<close>

lemma push_tx_known:
  assumes "row_key agent ` set rows \<subseteq> dom (ib_results db)" "\<And>st. \<not> ie_fault e st" "account_drops e agent req (ib_drops db) = Some drops"
  shows "push_tx e agent assigned req rows db = Some (db\<lparr>ib_drops := drops\<rparr>)"
  using assms(2,3) fresh_rows_none[OF assms(1)]
  by (simp add: push_tx_def stage_def InsertResultsTx_fresh add_rows_def toOutageResults_def toPathRuns_def toMTURuns_def bookkeeping_nil split: prod.split)

text \<open>Reporting the same total again adds nothing.\<close>

lemma drops_again:
  assumes "account_drops e agent req tbl = Some tbl'" "pq_DroppedTotal req = Some n" "pq_DroppedTotal req' = Some n"
  shows "account_drops e' agent req' tbl' = Some tbl'"
proof (cases "n > 0")
  case True
  obtain row where row: "tbl agent = Some row" using assms True by (cases "tbl agent") (auto simp: account_drops_def RecordDroppedTotalTx_def)
  obtain delta reset where d: "droppedDelta (dr_last_total row) (clampInt64 n) (clampInt64 (min (pq_DroppedSinceLastPush req) n)) = (delta, reset)"
    by (metis surj_pair)
  have "\<exists>row'. tbl' agent = Some row' \<and> dr_last_total row' = Some (clampInt64 n)"
  proof (cases "dr_last_total row \<noteq> None \<and> delta = 0 \<and> \<not> reset")
    case same: True
    then have "tbl' = tbl" using assms(1,2) True row d by (simp add: account_drops_def RecordDroppedTotalTx_def)
    moreover have "dr_last_total row = Some (clampInt64 n)" using same d by (auto simp: droppedDelta_def split: if_splits)
    ultimately show ?thesis using row by simp
  next
    case False
    then show ?thesis using assms(1,2) True row d by (auto simp: account_drops_def RecordDroppedTotalTx_def Let_def)
  qed
  then show ?thesis using assms(3) True by (auto simp: account_drops_def RecordDroppedTotalTx_def droppedDelta_def Let_def)
qed (use assms in \<open>simp add: account_drops_def\<close>)

text \<open>
  A repeated push is counted once. After a push has committed, sending it again - because the
  response was lost - commits and leaves the stored results, the outage, path and MTU bookkeeping and
  the drop counters exactly as they were, as long as it accepts no result the first one did not
  accept and the agent reports its lifetime total of drops.
\<close>

theorem repeated_push_counted_once:
  assumes first: "push_batch e agent (Some assigned) req db = (Inr n, db')"
    and size1: "length (pq_Results req') \<le> maxBatchSize" and ok: "\<And>st. \<not> ie_fault e' st"
    and known: "row_key agent ` set (accept_rows e' assigned' (pq_Results req')) \<subseteq> row_key agent ` set (accept_rows e assigned (pq_Results req))"
    and total: "pq_DroppedTotal req = Some d" "pq_DroppedTotal req' = Some d"
  shows "\<exists>k. push_batch e' agent (Some assigned') req' db' = (Inr k, db')"
proof -
  let ?rows = "accept_rows e assigned (pq_Results req)" and ?rows' = "accept_rows e' assigned' (pq_Results req')"
  have tx: "push_tx e agent assigned req ?rows db = Some db'"
    using first by (auto simp: push_batch_def Let_def split: if_splits option.splits)
  have "row_key agent ` set ?rows \<subseteq> dom (ib_results db')"
    unfolding push_tx_Some(2)[OF tx] dom_add_rows fresh_rows_keys by auto
  then have "push_tx e' agent assigned' req' ?rows' db' = Some (db'\<lparr>ib_drops := ib_drops db'\<rparr>)"
    using known drops_again[OF push_tx_Some(1)[OF tx] total] by (intro push_tx_known) (auto simp: ok)
  then show ?thesis using size1 by (simp add: push_batch_def Let_def)
qed

definition demo_env :: ingest_env where
  "demo_env = \<lparr>ie_parse_uuid = (\<lambda>s. Some (if s = ''1'' then 7 else length s)), ie_detail_text = (\<lambda>_. ''critical''), ie_gen = demo_gen, ie_now = 100, ie_fault = (\<lambda>_. False)\<rparr>"

definition demo_wire :: probe_result where
  "demo_wire = \<lparr>pr_ProbeId = ''pp'', pr_Type = 1, pr_TargetId = ''ttt'', pr_StartedAt = Some 50, pr_Status = PROBE_STATUS_TIMEOUT, pr_Error = ''timeout'',
     pr_Sent = 0, pr_Received = 0, pr_Rtt = None, pr_JitterUs = 0, pr_Timings = None, pr_Traceroute = None, pr_PathMtu = None\<rparr>"

definition demo_assigned :: probe_map where
  "demo_assigned = [2 \<mapsto> \<lparr>as_TargetID = 3, as_Crit = \<lparr>LatencyWarnUS = 1000, LatencyCritUS = 5000, LossWarnPct = 1, LossCritPct = 5\<rparr>\<rparr>]"

definition demo_req :: "probe_result list \<Rightarrow> u64 \<Rightarrow> push_request" where
  "demo_req rs n = \<lparr>pq_Results = rs, pq_DroppedSinceLastPush = 0, pq_DroppedTotal = Some n\<rparr>"

definition demo_ingest_db :: ingest_db where
  "demo_ingest_db = \<lparr>ib_results = Map.empty, ib_drops = [7 \<mapsto> \<lparr>dr_results = 2, dr_last_total = Some 3, dr_last_at = None\<rparr>],
     ib_outage = empty_db, ib_paths = ([], Map.empty), ib_mtus = ([], Map.empty)\<rparr>"

lemma demo_accept: "accept_rows demo_env demo_assigned [demo_wire] = [base_row 50 3 2 demo_wire]"
  by (simp add: accept_rows_def map_filter_simps accept_row_def resultToRow_def demo_env_def demo_wire_def demo_assigned_def maxFutureSkew_def
      PROBE_STATUS_TIMEOUT_def with_traceroute_def with_path_mtu_def base_row_def)

lemma demo_push: "\<exists>db'. push_batch demo_env 7 (Some demo_assigned) (demo_req [demo_wire] 5) demo_ingest_db = (Inr 1, db')"
proof -
  let ?row = "base_row 50 3 2 demo_wire"
  have fresh: "InsertResultsTx 7 [?row] Map.empty = ([?row], [row_key 7 ?row \<mapsto> ?row])" by (simp add: InsertResultsTx_def)
  have runs: "toPathRuns [?row] = []" "toMTURuns [?row] = []" by (simp_all add: toPathRuns_def toMTURuns_def base_row_def)
  obtain trs od where "Apply demo_gen 7 (toOutageResults (\<lambda>_. ''critical'') demo_assigned [?row]) empty_db = Some (trs, od)"
    using Apply_keeps[OF demo_gen_fresh empty_db_inv] by blast
  then show ?thesis
    by (simp add: push_batch_def demo_req_def maxBatchSize_def demo_accept[unfolded demo_env_def] push_tx_def stage_def demo_env_def demo_ingest_db_def
        account_drops_def RecordDroppedTotalTx_def droppedDelta_def clampInt64_def max_int64_def Let_def fresh runs bookkeeping_nil)
qed

theorem repeated_push_counted_once_witness:
  "\<exists>db' k. push_batch demo_env 7 (Some demo_assigned) (demo_req [demo_wire] 5) demo_ingest_db = (Inr 1, db')
     \<and> push_batch demo_env 7 (Some demo_assigned) (demo_req [demo_wire] 5) db' = (Inr k, db')"
proof -
  obtain db' where db': "push_batch demo_env 7 (Some demo_assigned) (demo_req [demo_wire] 5) demo_ingest_db = (Inr 1, db')" using demo_push by blast
  have "\<exists>k. push_batch demo_env 7 (Some demo_assigned) (demo_req [demo_wire] 5) db' = (Inr k, db')"
    by (rule repeated_push_counted_once[OF db', where d = 5]) (simp_all add: demo_req_def maxBatchSize_def demo_env_def)
  then show ?thesis using db' by blast
qed

section \<open>Sequences of pushes\<close>

type_synonym push_call = "ingest_env \<times> uuid \<times> probe_map option \<times> push_request"

fun pushes :: "push_call list \<Rightarrow> ingest_db \<Rightarrow> ingest_db" where
  "pushes [] db = db"
| "pushes ((e, agent, assigned, req) # ps) db = pushes ps (snd (push_batch e agent assigned req db))"

text \<open>The rows each committed push handed to the bookkeeping, with their agent.\<close>

fun counted :: "push_call list \<Rightarrow> ingest_db \<Rightarrow> (uuid \<times> result_row) list" where
  "counted [] db = []"
| "counted ((e, agent, assigned, req) # ps) db =
     (case push_batch e agent assigned req db of
        (Inl c, db') \<Rightarrow> counted ps db'
      | (Inr n, db') \<Rightarrow>
          map (Pair agent) (fst (InsertResultsTx agent (accept_rows e (the assigned) (pq_Results req)) (ib_results db))) @ counted ps db')"

text \<open>The rows the committed pushes accepted.\<close>

fun accepted :: "push_call list \<Rightarrow> ingest_db \<Rightarrow> (uuid \<times> result_row) list" where
  "accepted [] db = []"
| "accepted ((e, agent, assigned, req) # ps) db =
     (case push_batch e agent assigned req db of
        (Inl c, db') \<Rightarrow> accepted ps db'
      | (Inr n, db') \<Rightarrow> map (Pair agent) (accept_rows e (the assigned) (pq_Results req)) @ accepted ps db')"

definition key_of :: "uuid \<times> result_row \<Rightarrow> uuid \<times> uuid \<times> int" where
  "key_of x = row_key (fst x) (snd x)"

lemma push_batch_cases:
  assumes "push_batch e agent assigned req db = (res, db')"
  obtains c where "res = Inl c" "db' = db"
  | m where "assigned = Some m" "res = Inr (length (accept_rows e m (pq_Results req)))" "push_tx e agent m req (accept_rows e m (pq_Results req)) db = Some db'"
  using assms by (auto simp: push_batch_def Let_def split: if_splits option.splits)

lemma counted_keys:
  "key_of ` set (counted ps db) = key_of ` set (accepted ps db) - dom (ib_results db)
   \<and> distinct (map key_of (counted ps db)) \<and> dom (ib_results (pushes ps db)) = dom (ib_results db) \<union> key_of ` set (accepted ps db)"
proof (induction ps arbitrary: db)
  case (Cons p ps)
  obtain e agent assigned req where p: "p = (e, agent, assigned, req)" by (metis prod_cases4)
  obtain res db' where pb: "push_batch e agent assigned req db = (res, db')" by fastforce
  note IH = Cons[of db']
  show ?case using pb
  proof (cases rule: push_batch_cases)
    case (1 c)
    then show ?thesis using Cons[of db] pb by (simp add: p)
  next
    case (2 m)
    let ?rows = "accept_rows e m (pq_Results req)"
    let ?new = "map (Pair agent) (fresh_rows agent ?rows (ib_results db))"
    have c: "counted (p # ps) db = ?new @ counted ps db'" "accepted (p # ps) db = map (Pair agent) ?rows @ accepted ps db'"
      "pushes (p # ps) db = pushes ps db'"
      using pb 2 by (simp_all add: p InsertResultsTx_fresh)
    have dom': "dom (ib_results db') = dom (ib_results db) \<union> row_key agent ` set ?rows"
      unfolding push_tx_Some(2)[OF 2(3)] dom_add_rows fresh_rows_keys by auto
    have new: "key_of ` set ?new = row_key agent ` set ?rows - dom (ib_results db)" "map key_of ?new = map (row_key agent) (fresh_rows agent ?rows (ib_results db))"
      using fresh_rows_keys[of agent ?rows "ib_results db"] by (simp_all add: key_of_def image_image comp_def)
    have rows: "key_of ` set (map (Pair agent) ?rows) = row_key agent ` set ?rows" by (simp add: key_of_def image_image)
    have "distinct (map key_of ?new)" unfolding new(2) by (rule fresh_rows_distinct)
    moreover have "key_of ` set ?new \<inter> key_of ` set (counted ps db') = {}" using IH new(1) dom' by auto
    ultimately have "distinct (map key_of (counted (p # ps) db))" unfolding c map_append distinct_append set_map using IH by (simp only: set_map simp_thms)
    moreover have "key_of ` set (counted (p # ps) db) = key_of ` set (accepted (p # ps) db) - dom (ib_results db)"
      unfolding c set_append image_Un new(1) rows using IH dom' by auto
    moreover have "dom (ib_results (pushes (p # ps) db)) = dom (ib_results db) \<union> key_of ` set (accepted (p # ps) db)"
      unfolding c set_append image_Un rows using IH dom' by auto
    ultimately show ?thesis by blast
  qed
qed simp


section \<open>Only assigned probes\<close>

text \<open>
  The assignment cache as the pushes use it: a fetch reads the configuration (\<open>config\<close>, by instant and
  agent) at some instant while it runs, and the threshold tables at any. Nothing is noted without a
  fetch.
\<close>

definition assignment_fetch ::
  "(agent_inputs \<Rightarrow> probe_spec list option) \<Rightarrow> (gtime \<Rightarrow> uuid \<Rightarrow> agent_inputs option) \<Rightarrow> uuid \<Rightarrow> gtime \<Rightarrow> gtime \<Rightarrow> probe_map \<Rightarrow> bool" where
  "assignment_fetch snapshot_of config k t0 t1 m \<longleftrightarrow>
     (\<exists>t ai. t0 \<le> t \<and> t \<le> t1 \<and> ai_Config ai = config t k \<and> build_assignments snapshot_of ai = Some m)"

lemma assignment_map_spec:
  assumes "assignment_map inp global os network specs p = Some a"
  shows "\<exists>spec\<in>set specs. s_ProbeId spec = p \<and> t_TargetId (s_Target spec) = as_TargetID a"
  using assms unfolding assignment_map_def
  by (induction specs rule: rev_induct) (auto split: if_splits)

lemma build_assignments_spec:
  assumes "build_assignments snapshot_of ai = Some m" "m p = Some a"
  shows "\<exists>inp specs spec. ai_Config ai = Some inp \<and> snapshot_of inp = Some specs \<and> spec \<in> set specs
    \<and> s_ProbeId spec = p \<and> t_TargetId (s_Target spec) = as_TargetID a"
  using assms assignment_map_spec by (fastforce simp: build_assignments_def bind_eq_Some_conv)

lemma accept_rows_assigned:
  assumes "row \<in> set (accept_rows e m rs)"
  shows "\<exists>a. m (rw_ProbeID row) = Some a \<and> as_TargetID a = rw_TargetID row"
proof -
  obtain r where "accept_row e m r = Some row"
    using assms unfolding accept_rows_def by (induction rs) (auto simp: map_filter_simps split: option.splits)
  then show ?thesis by (auto simp: accept_row_def split: sum.splits option.splits if_splits)
qed

lemma add_rows_new:
  assumes "add_rows agent rows tbl k = Some row" "k \<notin> dom tbl"
  shows "row \<in> set rows \<and> k = row_key agent row"
  using assms unfolding add_rows_def
  by (induction rows rule: rev_induct) (auto split: if_splits simp del: fun_upd_apply simp: fun_upd_def)

text \<open>What a batch adds to the stored results are accepted rows of the pushing agent.\<close>

lemma push_batch_new:
  assumes "push_batch e agent assigned req db = (res, db')" "ib_results db' k = Some row" "k \<notin> dom (ib_results db)"
  shows "\<exists>m. assigned = Some m \<and> row \<in> set (accept_rows e m (pq_Results req)) \<and> k = row_key agent row"
  using assms(1)
proof (cases rule: push_batch_cases)
  case (2 m)
  let ?rows = "fresh_rows agent (accept_rows e m (pq_Results req)) (ib_results db)"
  have "row \<in> set ?rows \<and> k = row_key agent row"
    using assms(2,3) unfolding push_tx_Some(2)[OF 2(3)] by (rule add_rows_new)
  then show ?thesis using 2(1) subsetD[OF fresh_rows_subset] by blast
qed (use assms in auto)

text \<open>Where the map a push checks against comes from, hit or miss.\<close>

lemma agentProbeMap_backed:
  assumes cache: "(cache_step assignment_lookup assignment_put (assignment_fetch snapshot_of config) (\<lambda>_ _ _. False))\<^sup>*\<^sup>* (cache_start fmempty tb) c"
    and load: "cs_now c \<le> tl1" "\<And>a. ai_Config (load a) = config tl1 a"
    and m: "fst (if big then (None, cs_cache c) else agentProbeMap snapshot_of (load agent) (cs_now c) agent (cs_cache c)) = Some m"
  shows "\<exists>t ai. cs_now c \<le> t + assignmentCacheTTL \<and> ai_Config ai = config t agent \<and> build_assignments snapshot_of ai = Some m"
proof (cases "assignment_lookup (cs_cache c) agent (cs_now c)")
  case None
  then have "build_assignments snapshot_of (load agent) = Some m" using m by (auto simp: agentProbeMap_def split: if_splits option.splits)
  then show ?thesis using load by (intro exI[of _ tl1] exI[of _ "load agent"]) (simp add: assignmentCacheTTL_def)
next
  case (Some m')
  then have "m' = m" using m by (auto simp: agentProbeMap_def split: if_splits)
  then have "assignments.backed (assignment_fetch snapshot_of config) (\<lambda>_ _ _. False) agent (cs_now c) m"
    using Some by (intro assignments.lookup_backed[OF cache]) (auto simp: assignmentCacheTTL_def)
  then obtain t0 t1 where t0: "assignment_fetch snapshot_of config agent t0 t1 m" "cs_now c \<le> t0 + assignmentCacheTTL"
    unfolding assignments.backed_def by blast
  then obtain t ai where "t0 \<le> t" "ai_Config ai = config t agent" "build_assignments snapshot_of ai = Some m"
    unfolding assignment_fetch_def by blast
  then show ?thesis using t0(2) by (intro exI[of _ t] exI[of _ ai]) simp
qed

text \<open>
  C25: Only what an agent is assigned is stored. Whatever pushes hit, missed and filled the assignment
  cache before in whatever interleaving: a result that a push adds is stored under the agent its
  verified certificate names, and its probe and target are those of a probe in that agent's own
  snapshot, built from a configuration no older than thirty seconds. A push that is refused stores
  nothing.
\<close>

theorem push_only_assigned:
  assumes cache: "(cache_step assignment_lookup assignment_put (assignment_fetch snapshot_of config) (\<lambda>_ _ _. False))\<^sup>*\<^sup>* (cache_start fmempty tb) c"
    and s: "gs_assignments s = cs_cache c" "ie_now e = cs_now c"
    and load: "cs_now c \<le> tl1" "\<And>a. ai_Config (load a) = config tl1 a"
    and push: "PushResults e uuid_str fetch snapshot_of load ctx req s db = (res, s', db', evs)"
  shows "(isl res \<longrightarrow> db' = db) \<and>
    (\<forall>k row. ib_results db' k = Some row \<and> k \<notin> dom (ib_results db) \<longrightarrow>
      (\<exists>i certs t inp specs spec. authenticateAgent (ie_parse_uuid e) uuid_str ctx (cs_now c) fetch (gs_certs s) = (Inr i, certs, evs)
        \<and> k = row_key (id_AgentID i) row \<and> cs_now c \<le> t + assignmentCacheTTL \<and> config t (id_AgentID i) = Some inp
        \<and> snapshot_of inp = Some specs \<and> spec \<in> set specs \<and> s_ProbeId spec = rw_ProbeID row \<and> t_TargetId (s_Target spec) = rw_TargetID row))"
proof (cases "authenticateAgent (ie_parse_uuid e) uuid_str ctx (cs_now c) fetch (gs_certs s)")
  case (fields ar certs evs1)
  show ?thesis
  proof (cases ar)
    case (Inl code)
    then show ?thesis using push fields s(2) by (auto simp: PushResults_def)
  next
    case (Inr i)
    define assigned where "assigned = fst (if length (pq_Results req) > maxBatchSize then (None, gs_assignments s)
       else agentProbeMap snapshot_of (load (id_AgentID i)) (ie_now e) (id_AgentID i) (gs_assignments s))"
    have batch: "push_batch e (id_AgentID i) assigned req db = (res, db')" and evs: "evs1 = evs"
      using push fields s(2) Inr by (auto simp: PushResults_def assigned_def Let_def split: prod.splits if_splits)
    have "isl res \<longrightarrow> db' = db" using batch by (cases rule: push_batch_cases) auto
    moreover have "\<exists>t inp specs spec. k = row_key (id_AgentID i) row \<and> cs_now c \<le> t + assignmentCacheTTL
        \<and> config t (id_AgentID i) = Some inp \<and> snapshot_of inp = Some specs \<and> spec \<in> set specs
        \<and> s_ProbeId spec = rw_ProbeID row \<and> t_TargetId (s_Target spec) = rw_TargetID row"
      if new: "ib_results db' k = Some row" "k \<notin> dom (ib_results db)" for k row
    proof -
      obtain m where m: "assigned = Some m" "row \<in> set (accept_rows e m (pq_Results req))" "k = row_key (id_AgentID i) row"
        using push_batch_new[OF batch new] by blast
      obtain a where a: "m (rw_ProbeID row) = Some a" "as_TargetID a = rw_TargetID row" using accept_rows_assigned[OF m(2)] by blast
      obtain t ai where t: "cs_now c \<le> t + assignmentCacheTTL" "ai_Config ai = config t (id_AgentID i)" "build_assignments snapshot_of ai = Some m"
        using agentProbeMap_backed[OF cache load m(1)[unfolded assigned_def s]] by blast
      show ?thesis using build_assignments_spec[OF t(3) a(1)] a(2) t(1,2) m(3) by auto
    qed
    moreover have "authenticateAgent (ie_parse_uuid e) uuid_str ctx (cs_now c) fetch (gs_certs s) = (Inr i, certs, evs)"
      using fields Inr evs by simp
    ultimately show ?thesis by blast
  qed
qed

definition demo_spec :: probe_spec where
  "demo_spec = \<lparr>s_ProbeId = 2, s_Type = 1, s_Target = \<lparr>t_Kind = External, t_TargetId = 3, t_Address = ''192.0.2.9'', t_Port = 0, t_Url = ''''\<rparr>,
     s_Interval = 60 * second, s_Timeout = 5 * second, s_TrainCount = 1, s_TrainSpacing = None, s_Params = []\<rparr>"

definition demo_loaded :: agent_inputs where
  "demo_loaded = \<lparr>in_AgentID = 7, in_SiteID = 4, in_NetworkID = 5, in_Direct = [], in_Mesh = [], in_Peers = []\<rparr>"

definition demo_loads :: "uuid \<Rightarrow> assignment_inputs" where
  "demo_loads a = \<lparr>ai_Config = Some demo_loaded, ai_Settings = Some (as_Crit (the (demo_assigned 2))), ai_Overrides = Some [], ai_Network = Some None\<rparr>"

definition demo_server :: grpc_server where
  "demo_server = \<lparr>gs_certs = fmempty, gs_assignments = fmempty\<rparr>"

lemma demo_build: "build_assignments (\<lambda>_. Some [demo_spec]) (demo_loads a) = Some demo_assigned"
  by (simp add: build_assignments_def demo_loads_def assignment_map_def demo_spec_def demo_assigned_def probe_layers_def target_site_def demo_loaded_def
      no_override_def Effective_def)

lemma demo_push_server:
  "\<exists>s' db'. PushResults demo_env (\<lambda>_. ''1'') (\<lambda>_ _. Some True) (\<lambda>_. Some [demo_spec]) demo_loads demo_ctx (demo_req [demo_wire] 5) demo_server demo_ingest_db
     = (Inr 1, s', db', []) \<and> ib_results db' (row_key 7 (base_row 50 3 2 demo_wire)) = Some (base_row 50 3 2 demo_wire)"
proof -
  obtain db' where db': "push_batch demo_env 7 (Some demo_assigned) (demo_req [demo_wire] 5) demo_ingest_db = (Inr 1, db')" using demo_push by blast
  have auth: "\<exists>certs i. authenticateAgent (ie_parse_uuid demo_env) (\<lambda>_. ''1'') demo_ctx (ie_now demo_env) (\<lambda>_ _. Some True) fmempty = (Inr i, certs, []) \<and> id_AgentID i = 7"
    by (simp add: authenticateAgent_def demo_ctx_def AgentIDFromCert_def certValidCached_def cert_lookup_def demo_env_def)
  have "ib_results db' (row_key 7 (base_row 50 3 2 demo_wire)) = Some (base_row 50 3 2 demo_wire)" using db'
  proof (cases rule: push_batch_cases)
    case (2 m)
    then show ?thesis using push_tx_Some(2)[OF 2(3)] demo_accept by (simp add: demo_req_def demo_ingest_db_def add_rows_def)
  qed simp
  moreover have "agentProbeMap (\<lambda>_. Some [demo_spec]) (demo_loads 7) (ie_now demo_env) 7 fmempty
      = (Some demo_assigned, assignment_put fmempty 7 demo_assigned (ie_now demo_env))"
    by (simp add: agentProbeMap_def assignment_lookup_def demo_build)
  moreover have "\<not> length (pq_Results (demo_req [demo_wire] 5)) > maxBatchSize" by (simp add: demo_req_def maxBatchSize_def)
  ultimately show ?thesis using auth db' by (auto simp: PushResults_def demo_server_def)
qed

theorem push_only_assigned_witness:
  "\<exists>s' db' i certs t inp specs spec.
     PushResults demo_env (\<lambda>_. ''1'') (\<lambda>_ _. Some True) (\<lambda>_. Some [demo_spec]) demo_loads demo_ctx (demo_req [demo_wire] 5) demo_server demo_ingest_db = (Inr 1, s', db', [])
     \<and> authenticateAgent (ie_parse_uuid demo_env) (\<lambda>_. ''1'') demo_ctx 100 (\<lambda>_ _. Some True) fmempty = (Inr i, certs, [])
     \<and> row_key 7 (base_row 50 3 2 demo_wire) = row_key (id_AgentID i) (base_row 50 3 2 demo_wire) \<and> 100 \<le> t + assignmentCacheTTL
     \<and> (\<lambda>(t :: gtime) (a :: uuid). Some demo_loaded) t (id_AgentID i) = Some inp \<and> Some [demo_spec] = Some specs \<and> spec \<in> set specs
     \<and> s_ProbeId spec = 2 \<and> t_TargetId (s_Target spec) = 3"
proof -
  let ?c = "cache_start fmempty 100 :: (assignment_cache, uuid, probe_map) cache_sys" and ?row = "base_row 50 3 2 demo_wire"
  let ?load = "\<lambda>_. Some [demo_spec]" and ?config = "\<lambda>(t :: gtime) (a :: uuid). Some demo_loaded"
  obtain s' db' where p: "PushResults demo_env (\<lambda>_. ''1'') (\<lambda>_ _. Some True) ?load demo_loads demo_ctx (demo_req [demo_wire] 5) demo_server demo_ingest_db
     = (Inr 1, s', db', [])" "ib_results db' (row_key 7 ?row) = Some ?row" using demo_push_server by blast
  have "row_key 7 ?row \<notin> dom (ib_results demo_ingest_db)" by (simp add: demo_ingest_db_def)
  moreover have c: "(cache_step assignment_lookup assignment_put (assignment_fetch ?load ?config) (\<lambda>_ _ _. False))\<^sup>*\<^sup>* ?c ?c" by simp
  ultimately have "\<exists>i certs t inp specs spec. authenticateAgent (ie_parse_uuid demo_env) (\<lambda>_. ''1'') demo_ctx (cs_now ?c) (\<lambda>_ _. Some True) (gs_certs demo_server) = (Inr i, certs, [])
        \<and> row_key 7 ?row = row_key (id_AgentID i) ?row \<and> cs_now ?c \<le> t + assignmentCacheTTL \<and> ?config t (id_AgentID i) = Some inp
        \<and> ?load inp = Some specs \<and> spec \<in> set specs \<and> s_ProbeId spec = rw_ProbeID ?row \<and> t_TargetId (s_Target spec) = rw_TargetID ?row"
    using push_only_assigned[OF c _ _ _ _ p(1), of 100] p(2)
    by (simp only: cache_start_def demo_server_def demo_env_def demo_loads_def assignment_inputs.simps cache_sys.simps grpc_server.simps ingest_env.simps order_refl) blast
  then show ?thesis using p(1) by (auto simp: cache_start_def demo_server_def base_row_def)
qed

section \<open>Drop totals\<close>

text \<open>The positive lifetime totals an agent's committed pushes reported, in order.\<close>

fun reported :: "uuid \<Rightarrow> push_call list \<Rightarrow> ingest_db \<Rightarrow> int list" where
  "reported a [] db = []"
| "reported a ((e, agent, assigned, req) # ps) db =
     (case push_batch e agent assigned req db of
        (Inl c, db') \<Rightarrow> reported a ps db'
      | (Inr n, db') \<Rightarrow>
          (case pq_DroppedTotal req of Some t \<Rightarrow> if agent = a \<and> t > 0 then [clampInt64 t] else [] | None \<Rightarrow> []) @ reported a ps db')"

lemma account_drops_other:
  assumes "account_drops e agent req tbl = Some tbl'" "agent \<noteq> a"
  shows "tbl' a = tbl a"
  using assms by (auto simp: account_drops_def RecordDroppedTotalTx_def RecordDroppedResultsTx_def Let_def split: option.splits if_splits prod.splits)

text \<open>A total that has grown adds its growth, up to the largest value of the column.\<close>

lemma account_drops_grows:
  assumes "account_drops e a req tbl = Some tbl'" "pq_DroppedTotal req = Some t" "tbl a = Some row" "dr_last_total row = Some l"
    and "t > 0 \<longrightarrow> l \<le> clampInt64 t" "dr_results row \<le> max_int64"
  shows "\<exists>row'. tbl' a = Some row' \<and> dr_last_total row' = Some (if t > 0 then clampInt64 t else l)
    \<and> dr_results row' = min max_int64 (dr_results row + ((if t > 0 then clampInt64 t else l) - l))"
  using assms by (auto simp: account_drops_def RecordDroppedTotalTx_def droppedDelta_def add_dropped_def Let_def split: if_splits)

text \<open>
  C26: Drop totals add up. However an agent's pushes are repeated, fail and interleave with those of
  other agents: while the lifetime totals its committed pushes report do not decrease, the drops the
  server has recorded for it grow by exactly the growth of the total since the last one it had seen,
  capped at the largest value the column holds, and the last total it keeps is the last one reported.
\<close>

theorem drops_counted_once:
  assumes "ib_drops db a = Some row" "dr_last_total row = Some l" "dr_results row \<le> max_int64"
    and "sorted (l # reported a ps db)"
    and "\<forall>(e, agent, assigned, req)\<in>set ps. agent = a \<longrightarrow> pq_DroppedTotal req \<noteq> None"
  shows "\<exists>row'. ib_drops (pushes ps db) a = Some row' \<and> dr_last_total row' = Some (last (l # reported a ps db))
    \<and> dr_results row' = min max_int64 (dr_results row + (last (l # reported a ps db) - l))"
  using assms
proof (induction ps arbitrary: db row l)
  case (Cons p ps)
  obtain e agent assigned req where p: "p = (e, agent, assigned, req)" by (metis prod_cases4)
  obtain res db' where pb: "push_batch e agent assigned req db = (res, db')" by fastforce
  note IH = Cons.IH[where db = db']
  show ?case using pb
  proof (cases rule: push_batch_cases)
    case (1 c)
    then show ?thesis using IH[of row l] Cons.prems pb by (simp add: p)
  next
    case (2 m)
    have d: "account_drops e agent req (ib_drops db) = Some (ib_drops db')" by (rule push_tx_Some(1)[OF 2(3)])
    show ?thesis
    proof (cases "agent = a")
      case False
      then have "reported a (p # ps) db = reported a ps db'" using pb 2 by (simp add: p split: option.split)
      then show ?thesis using IH[of row l] Cons.prems account_drops_other[OF d False] pb by (simp add: p)
    next
      case True
      obtain t where t: "pq_DroppedTotal req = Some t" using Cons.prems(5) True by (auto simp: p)
      define l' where "l' = (if t > 0 then clampInt64 t else l)"
      have r: "reported a (p # ps) db = (if t > 0 then [clampInt64 t] else []) @ reported a ps db'" using pb 2 t True by (simp add: p)
      have srt: "l \<le> l'" "sorted (l' # reported a ps db')" using Cons.prems(4) by (auto simp: r l'_def split: if_splits)
      have "t > 0 \<longrightarrow> l \<le> clampInt64 t" using srt(1) by (auto simp: l'_def split: if_splits)
      then obtain row' where row': "ib_drops db' a = Some row'" "dr_last_total row' = Some l'" "dr_results row' = min max_int64 (dr_results row + (l' - l))"
        using account_drops_grows[OF d[unfolded True] t Cons.prems(1,2) _ Cons.prems(3)] unfolding l'_def by blast
      have lst: "last (l # reported a (p # ps) db) = last (l' # reported a ps db')" by (simp add: r l'_def)
      have "l' \<le> last (l' # reported a ps db')" using srt(2) by (cases "reported a ps db'") auto
      then show ?thesis using IH[OF row'(1,2) _ srt(2)] Cons.prems(3,5) pb row'(3) srt(1) unfolding lst by (auto simp: p)
    qed
  qed
qed simp

lemma demo_empty_push:
  assumes "ib_drops db 7 = Some row" "n > 0" "dr_last_total row = Some l" "l < clampInt64 n"
  shows "push_batch demo_env 7 (Some demo_assigned) (demo_req [] n) db = (Inr 0, db\<lparr>ib_drops := (ib_drops db)(7 \<mapsto>
    row\<lparr>dr_results := add_dropped (dr_results row) (clampInt64 n - l), dr_last_total := Some (clampInt64 n), dr_last_at := Some 100\<rparr>)\<rparr>)"
  using assms push_tx_known[of 7 "[]" db demo_env "demo_req [] n" _ demo_assigned]
  by (simp add: push_batch_def accept_rows_def map_filter_simps demo_req_def maxBatchSize_def account_drops_def RecordDroppedTotalTx_def
      droppedDelta_def demo_env_def Let_def)

theorem drops_counted_once_witness:
  "\<exists>row'. ib_drops (pushes [(demo_env, 7, Some demo_assigned, demo_req [] 5), (demo_env, 7, None, demo_req [] 6), (demo_env, 7, Some demo_assigned, demo_req [] 9)] demo_ingest_db) 7
      = Some row' \<and> dr_last_total row' = Some 9 \<and> dr_results row' = 8"
proof -
  let ?ps = "[(demo_env, 7, Some demo_assigned, demo_req [] 5), (demo_env, 7, None, demo_req [] 6), (demo_env, 7, Some demo_assigned, demo_req [] 9)]"
  have row: "ib_drops demo_ingest_db 7 = Some \<lparr>dr_results = 2, dr_last_total = Some 3, dr_last_at = None\<rparr>" by (simp add: demo_ingest_db_def)
  have none: "push_batch demo_env 7 None (demo_req [] 6) db = (Inl Unavailable, db)" for db by (simp add: push_batch_def demo_req_def maxBatchSize_def)
  have clamp: "clampInt64 5 = 5" "clampInt64 9 = 9" by (simp_all add: clampInt64_def max_int64_def)
  have tot: "pq_DroppedTotal (demo_req [] n) = Some n" for n by (simp add: demo_req_def)
  have "reported 7 ?ps demo_ingest_db = [5, 9]"
    using demo_empty_push[OF row, of 5] demo_empty_push[where n = 9 and l = 5] by (simp add: none clamp tot)
  then show ?thesis using drops_counted_once[OF row, of 3 ?ps] by (simp add: tot max_int64_def del: pushes.simps reported.simps)
qed

end
