(* ===== verification/Stream_Config.thy ===== *)
theory Stream_Config
  imports Agent_Config Grpc_Auth
begin

text \<open>
  The configuration stream (\<open>StreamConfig\<close> and \<open>streamConfig\<close> of \<open>internal/server/grpcapi/server.go\<close>) and
  the version counter it watches (\<open>noteConfigWrite\<close>, \<open>ConfigDBVersion\<close> of \<open>internal/server/store/store.go\<close>).

  \<open>stream_tick\<close> is the body of the loop on a tick, over what the database and the connection answer; it
  is put together from the sections between two accesses to the database. \<open>stream_step\<close> interleaves
  those sections with configuration writes, which commit first and note the version afterwards, in a
  statement of their own that may fail. The four queries of a build each see the tables as they are
  when they run, so a build that a write overlaps may return anything.
\<close>

section \<open>The sections of the loop\<close>

datatype end_reason = Closed | ConfigUnavailable | SendFailed | Unconfirmable | StreamRevoked

fun reason_text :: "end_reason \<Rightarrow> string" where
  "reason_text Closed = ''closed''"
| "reason_text ConfigUnavailable = ''config_unavailable''"
| "reason_text SendFailed = ''send_failed''"
| "reason_text Unconfirmable = ''unconfirmable''"
| "reason_text StreamRevoked = ''revoked''"

text \<open>The error of the call; a failed send returns the error of the connection.\<close>

datatype stream_error = Status code | SendError

fun reason_error :: "end_reason \<Rightarrow> stream_error option" where
  "reason_error Closed = None"
| "reason_error ConfigUnavailable = Some (Status Unavailable)"
| "reason_error SendFailed = Some SendError"
| "reason_error Unconfirmable = Some (Status Unavailable)"
| "reason_error StreamRevoked = Some (Status PermissionDenied)"

record stream_st =
  ss_Snapshot :: config_snapshot
  ss_LastVer :: int
  ss_SinceRebuild :: nat

text \<open>What the stream does to its surroundings, in order; \<open>Send\<close> only when it succeeded.\<close>

datatype stream_out = Send config_snapshot | TouchAgent string | CacheRevoked

definition forcedRebuildTicks :: nat where "forcedRebuildTicks = 10"

definition rebuildEvery :: "nat \<Rightarrow> nat" where
  "rebuildEvery forcedRebuildEvery = (if forcedRebuildEvery > 0 then forcedRebuildEvery else forcedRebuildTicks)"

definition touch :: "stream_st \<Rightarrow> stream_out" where
  "touch st = TouchAgent (c_ConfigHash (ss_Snapshot st))"

text \<open>Opening: after the version \<open>lastVer\<close> was read, a snapshot is built and sent unless the agent runs it.\<close>

definition open_built :: "string \<Rightarrow> int \<Rightarrow> config_snapshot option \<Rightarrow> bool \<Rightarrow> (end_reason + stream_st) \<times> stream_out list" where
  "open_built hello lastVer built send_ok =
     (case built of
        None \<Rightarrow> (Inl ConfigUnavailable, [])
      | Some snapshot \<Rightarrow>
          (let st = \<lparr>ss_Snapshot = snapshot, ss_LastVer = lastVer, ss_SinceRebuild = 0\<rparr>
           in if hello \<noteq> c_ConfigHash snapshot
              then (if send_ok then (Inr st, [Send snapshot, touch st]) else (Inl SendFailed, []))
              else (Inr st, [touch st])))"

text \<open>The certificate check of a tick; \<open>None\<close> goes on.\<close>

fun tick_cert :: "bool option \<Rightarrow> (end_reason \<times> stream_out list) option" where
  "tick_cert None = Some (Unconfirmable, [])"
| "tick_cert (Some False) = Some (StreamRevoked, [CacheRevoked])"
| "tick_cert (Some True) = None"

definition tick_count :: "stream_st \<Rightarrow> stream_st" where
  "tick_count st = st\<lparr>ss_SinceRebuild := ss_SinceRebuild st + 1\<rparr>"

definition want_rebuild :: "nat \<Rightarrow> int option \<Rightarrow> stream_st \<Rightarrow> bool" where
  "want_rebuild every ver st \<longleftrightarrow> ver \<noteq> None \<and> ver \<noteq> Some (ss_LastVer st) \<or> ss_SinceRebuild st \<ge> every"

definition tick_rebuilt :: "int option \<Rightarrow> config_snapshot option \<Rightarrow> bool \<Rightarrow> stream_st \<Rightarrow> (end_reason + stream_st) \<times> stream_out list" where
  "tick_rebuilt ver built send_ok st =
     (case built of
        None \<Rightarrow> (Inr st, [])
      | Some fresh \<Rightarrow>
          (let changed = (c_ConfigHash fresh \<noteq> c_ConfigHash (ss_Snapshot st))
           in if changed \<and> \<not> send_ok then (Inl SendFailed, [])
              else (let st = (if changed then st\<lparr>ss_Snapshot := fresh\<rparr> else st);
                        st = (case ver of Some v \<Rightarrow> st\<lparr>ss_LastVer := v\<rparr> | None \<Rightarrow> st)
                    in (Inr (st\<lparr>ss_SinceRebuild := 0\<rparr>), if changed then [Send fresh] else []))))"

definition tick_end :: "(end_reason + stream_st) \<times> stream_out list \<Rightarrow> (end_reason + stream_st) \<times> stream_out list" where
  "tick_end r = (case r of (Inl e, out) \<Rightarrow> (Inl e, out) | (Inr st, out) \<Rightarrow> (Inr st, out @ [touch st]))"

section \<open>The handler\<close>

record tick_io =
  io_cert :: "bool option"
  io_ver :: "int option"
  io_built :: "config_snapshot option"
  io_send :: bool

definition stream_tick :: "nat \<Rightarrow> tick_io \<Rightarrow> stream_st \<Rightarrow> (end_reason + stream_st) \<times> stream_out list" where
  "stream_tick every io st =
     (case tick_cert (io_cert io) of
        Some (r, out) \<Rightarrow> (Inl r, out)
      | None \<Rightarrow>
          (let st = tick_count st
           in tick_end (if want_rebuild every (io_ver io) st then tick_rebuilt (io_ver io) (io_built io) (io_send io) st else (Inr st, []))))"

text \<open>
  The loop over its ticks until the context ends. An input sequence that runs out is a stream still
  waiting: no reason yet.
\<close>

datatype stream_event = CtxDone | Tick tick_io

fun stream_loop :: "nat \<Rightarrow> stream_event list \<Rightarrow> stream_st \<Rightarrow> end_reason option \<times> stream_out list" where
  "stream_loop every [] st = (None, [])"
| "stream_loop every (CtxDone # evs) st = (Some Closed, [])"
| "stream_loop every (Tick io # evs) st =
     (case stream_tick every io st of
        (Inl r, out) \<Rightarrow> (Some r, out)
      | (Inr st, out) \<Rightarrow> (let (r, out') = stream_loop every evs st in (r, out @ out')))"

definition streamConfig ::
  "nat \<Rightarrow> string \<Rightarrow> int option \<Rightarrow> config_snapshot option \<Rightarrow> bool \<Rightarrow> stream_event list \<Rightarrow> end_reason option \<times> stream_out list" where
  "streamConfig every hello ver built send_ok evs =
     (case ver of
        None \<Rightarrow> (Some ConfigUnavailable, [])
      | Some lastVer \<Rightarrow>
          (case open_built hello lastVer built send_ok of
             (Inl r, out) \<Rightarrow> (Some r, out)
           | (Inr st, out) \<Rightarrow> (let (r, out') = stream_loop every evs st in (r, out @ out'))))"

definition session_event :: "(uuid \<Rightarrow> string) \<Rightarrow> grpc_ctx \<Rightarrow> uuid \<Rightarrow> string \<Rightarrow> string \<Rightarrow> Outcome \<Rightarrow> attr \<Rightarrow> audit_event" where
  "session_event uuid_str ctx agentID ident msg outcome attr =
     \<lparr>ev_ID = ident, ev_Msg = msg, ev_Outcome = outcome, ev_Actor = agentActor uuid_str agentID, ev_Remote = peerHost ctx, ev_At = 0,
      ev_Attrs = [(''agent'', uuid_str agentID), attr]\<rparr>"

definition session_outcome :: "string \<Rightarrow> Outcome" where
  "session_outcome reason = (if reason = ''closed'' then Success else if reason = ''revoked'' then Denied else Failure)"

definition session_end :: "(uuid \<Rightarrow> string) \<Rightarrow> grpc_ctx \<Rightarrow> uuid \<Rightarrow> end_reason \<Rightarrow> audit_event" where
  "session_end uuid_str ctx agentID r =
     session_event uuid_str ctx agentID EventAgentSessionEnd ''agent disconnected'' (session_outcome (reason_text r)) (''reason'', reason_text r)"

text \<open>
  The whole call: \<open>stream agentID\<close> is the run of \<open>streamConfig\<close> for the authenticated agent, \<open>tend\<close> the
  instant it ends at. While the stream is open the result is \<open>None\<close>.
\<close>

definition StreamConfig ::
  "(string \<Rightarrow> uuid option) \<Rightarrow> (uuid \<Rightarrow> string) \<Rightarrow> gtime \<Rightarrow> (nat \<Rightarrow> uuid \<Rightarrow> bool option) \<Rightarrow> gtime \<Rightarrow> grpc_ctx \<Rightarrow> string
   \<Rightarrow> (uuid \<Rightarrow> end_reason option \<times> stream_out list) \<Rightarrow> cert_cache
   \<Rightarrow> stream_error option option \<times> stream_out list \<times> cert_cache \<times> audit_event list" where
  "StreamConfig parse_uuid uuid_str now fetch tend ctx version stream c =
     (case authenticateAgent parse_uuid uuid_str ctx now fetch c of
        (Inl e, c, evs) \<Rightarrow> (Some (Some (Status e)), [], c, evs)
      | (Inr i, c, evs) \<Rightarrow>
          (let agentID = id_AgentID i;
               start = session_event uuid_str ctx agentID EventAgentSessionStart ''agent connected'' Success (''version'', version);
               (r, out) = stream agentID;
               c = (if CacheRevoked \<in> set out then cacheRevoked i tend c else c)
           in case r of
                None \<Rightarrow> (None, out, c, evs @ [start])
              | Some r \<Rightarrow> (Some (reason_error r), out, c, evs @ [start, session_end uuid_str ctx agentID r])))"

section \<open>Configuration writes and the stream\<close>

definition buildSnapshot ::
  "(uuid \<Rightarrow> string \<Rightarrow> uuid) \<Rightarrow> (uuid \<Rightarrow> string) \<Rightarrow> (probe_spec \<Rightarrow> byte list option) \<Rightarrow> (byte list \<Rightarrow> string) \<Rightarrow> uuid \<Rightarrow> config_tables
   \<Rightarrow> config_snapshot option" where
  "buildSnapshot new_sha1 uuid_str marshal sha256 agentID tables =
     (case LoadAgentConfigInputs tables agentID of
        None \<Rightarrow> None
      | Some inp \<Rightarrow> (case BuildSnapshot new_sha1 uuid_str marshal sha256 inp of Inl e \<Rightarrow> None | Inr snap \<Rightarrow> Some snap))"

text \<open>Where the stream is; while it builds, whether a write has landed since it began.\<close>

datatype stream_pc =
  Opening
| OpenBuild int bool
| Waiting
| Checked
| Rebuild "int option" bool
| Ended end_reason

record 'db stream_sys =
  sy_db :: 'db
  sy_version :: int
  sy_pending :: nat
  sy_missed :: bool
  sy_pc :: stream_pc
  sy_st :: stream_st
  sy_agent :: string

fun pc_dirty :: "stream_pc \<Rightarrow> stream_pc" where
  "pc_dirty (OpenBuild v d) = OpenBuild v True"
| "pc_dirty (Rebuild v d) = Rebuild v True"
| "pc_dirty pc = pc"

definition config_write :: "'db \<Rightarrow> 'db stream_sys \<Rightarrow> 'db stream_sys" where
  "config_write db s = s\<lparr>sy_db := db, sy_pc := pc_dirty (sy_pc s)\<rparr>"

definition noteConfigWrite :: "bool \<Rightarrow> 'db stream_sys \<Rightarrow> 'db stream_sys" where
  "noteConfigWrite ok s =
     (if ok then s\<lparr>sy_version := sy_version s + 1, sy_pending := sy_pending s - 1\<rparr>
      else s\<lparr>sy_missed := True, sy_pending := sy_pending s - 1\<rparr>)"

fun told :: "string \<Rightarrow> stream_out list \<Rightarrow> string" where
  "told h [] = h"
| "told h (Send snap # out) = told (c_ConfigHash snap) out"
| "told h (_ # out) = told h out"

definition goes_on :: "(end_reason + stream_st) \<times> stream_out list \<Rightarrow> 'db stream_sys \<Rightarrow> 'db stream_sys" where
  "goes_on r s =
     (case r of
        (Inl e, out) \<Rightarrow> s\<lparr>sy_pc := Ended e, sy_agent := told (sy_agent s) out\<rparr>
      | (Inr st, out) \<Rightarrow> s\<lparr>sy_pc := Waiting, sy_st := st, sy_agent := told (sy_agent s) out\<rparr>)"

definition read_ok :: "('db \<Rightarrow> config_snapshot option) \<Rightarrow> bool \<Rightarrow> config_snapshot option \<Rightarrow> 'db stream_sys \<Rightarrow> bool" where
  "read_ok build dirty built s \<longleftrightarrow> built = None \<or> dirty \<or> built = build (sy_db s)"

inductive stream_step :: "('db \<Rightarrow> config_snapshot option) \<Rightarrow> nat \<Rightarrow> 'db stream_sys \<Rightarrow> 'db stream_sys \<Rightarrow> bool"
  for build every where
  s_write: "stream_step build every s ((config_write db s)\<lparr>sy_pending := sy_pending s + 1\<rparr>)"
| s_note: "sy_pending s > 0 \<Longrightarrow> stream_step build every s (noteConfigWrite ok s)"
| s_manual: "stream_step build every s ((config_write db s)\<lparr>sy_missed := True\<rparr>)"
| s_open: "sy_pc s = Opening \<Longrightarrow> stream_step build every s (s\<lparr>sy_pc := OpenBuild (sy_version s) False\<rparr>)"
| s_open_fails: "sy_pc s = Opening \<Longrightarrow> stream_step build every s (s\<lparr>sy_pc := Ended ConfigUnavailable\<rparr>)"
| s_opened: "sy_pc s = OpenBuild v dirty \<Longrightarrow> read_ok build dirty built s \<Longrightarrow>
    stream_step build every s (goes_on (open_built (sy_agent s) v built send_ok) s)"
| s_done: "sy_pc s = Waiting \<Longrightarrow> stream_step build every s (s\<lparr>sy_pc := Ended Closed\<rparr>)"
| s_cut: "sy_pc s = Waiting \<Longrightarrow> tick_cert cert = Some (r, out) \<Longrightarrow> stream_step build every s (s\<lparr>sy_pc := Ended r\<rparr>)"
| s_tick: "sy_pc s = Waiting \<Longrightarrow> tick_cert cert = None \<Longrightarrow>
    stream_step build every s (s\<lparr>sy_pc := Checked, sy_st := tick_count (sy_st s)\<rparr>)"
| s_unchanged: "sy_pc s = Checked \<Longrightarrow> ver \<in> {None, Some (sy_version s)} \<Longrightarrow> \<not> want_rebuild every ver (sy_st s) \<Longrightarrow>
    stream_step build every s (goes_on (tick_end (Inr (sy_st s), [])) s)"
| s_rebuild: "sy_pc s = Checked \<Longrightarrow> ver \<in> {None, Some (sy_version s)} \<Longrightarrow> want_rebuild every ver (sy_st s) \<Longrightarrow>
    stream_step build every s (s\<lparr>sy_pc := Rebuild ver False\<rparr>)"
| s_rebuilt: "sy_pc s = Rebuild ver dirty \<Longrightarrow> read_ok build dirty built s \<Longrightarrow>
    stream_step build every s (goes_on (tick_end (tick_rebuilt ver built send_ok (sy_st s))) s)"

text \<open>A stream opens while \<open>n\<close> writes are committed but not yet noted.\<close>

definition stream_start :: "'db \<Rightarrow> int \<Rightarrow> nat \<Rightarrow> string \<Rightarrow> stream_st \<Rightarrow> 'db stream_sys" where
  "stream_start db v n hello st =
     \<lparr>sy_db = db, sy_version = v, sy_pending = n, sy_missed = False, sy_pc = Opening, sy_st = st, sy_agent = hello\<rparr>"

inductive_cases stream_stepE: "stream_step build every s s'"

end
