(* ===== verification/Stream_Correct.thy ===== *)
theory Stream_Correct
  imports Stream_Config
begin

text \<open>
  The properties of the configuration stream: no write is missed whatever it races, and a write
  nobody noted is picked up by the forced rebuild.
\<close>

section \<open>No write is masked\<close>

definition noticed :: "'db stream_sys \<Rightarrow> int \<Rightarrow> bool" where
  "noticed s v \<longleftrightarrow> sy_missed s \<or> sy_pending s > 0 \<or> v < sy_version s"

text \<open>The agent was told what a build would give now.\<close>

definition up_to_date :: "('db \<Rightarrow> config_snapshot option) \<Rightarrow> 'db stream_sys \<Rightarrow> bool" where
  "up_to_date build s \<longleftrightarrow> (\<forall>snap. build (sy_db s) = Some snap \<longrightarrow> c_ConfigHash snap = sy_agent s)"

definition tick_inv :: "('db \<Rightarrow> config_snapshot option) \<Rightarrow> 'db stream_sys \<Rightarrow> bool" where
  "tick_inv build s \<longleftrightarrow> sy_agent s = c_ConfigHash (ss_Snapshot (sy_st s)) \<and> ss_LastVer (sy_st s) \<le> sy_version s
     \<and> (up_to_date build s \<or> noticed s (ss_LastVer (sy_st s)))"

definition kept_ver :: "int option \<Rightarrow> stream_st \<Rightarrow> int" where
  "kept_ver ver st = (case ver of Some v \<Rightarrow> v | None \<Rightarrow> ss_LastVer st)"

fun stream_inv :: "('db \<Rightarrow> config_snapshot option) \<Rightarrow> stream_pc \<Rightarrow> 'db stream_sys \<Rightarrow> bool" where
  "stream_inv build Opening s = True"
| "stream_inv build (OpenBuild v dirty) s = (v \<le> sy_version s \<and> (dirty \<longrightarrow> noticed s v))"
| "stream_inv build Waiting s = tick_inv build s"
| "stream_inv build Checked s = tick_inv build s"
| "stream_inv build (Rebuild ver dirty) s =
     (tick_inv build s \<and> kept_ver ver (sy_st s) \<le> sy_version s \<and> (dirty \<longrightarrow> noticed s (kept_ver ver (sy_st s))))"
| "stream_inv build (Ended r) s = True"

lemma told_touch [simp]: "told h (out @ [touch st]) = told h out"
  by (induction h out rule: told.induct) (simp_all add: touch_def)

lemma told_append: "told h (out @ out') = told (told h out) out'"
  by (induction h out rule: told.induct) simp_all

text \<open>A write, noted or not, and the note of a version keep the invariant wherever the stream is.\<close>

lemma inv_written:
  assumes "stream_inv build (sy_pc s) s" "sy_pc s' = pc_dirty (sy_pc s)" "sy_st s' = sy_st s" "sy_agent s' = sy_agent s"
    and "sy_version s' = sy_version s" "\<And>v. noticed s' v"
  shows "stream_inv build (sy_pc s') s'"
proof (cases "sy_pc s")
  case (Rebuild ver dirty)
  then show ?thesis using assms by (simp add: tick_inv_def)
qed (use assms in \<open>simp_all add: tick_inv_def\<close>)

lemma inv_noted:
  assumes "stream_inv build (sy_pc s) s" "sy_pc s' = sy_pc s" "sy_db s' = sy_db s" "sy_st s' = sy_st s" "sy_agent s' = sy_agent s"
    and "sy_version s \<le> sy_version s'" "\<And>v. v \<le> sy_version s \<Longrightarrow> noticed s v \<Longrightarrow> noticed s' v"
  shows "stream_inv build (sy_pc s') s'"
proof -
  have up: "up_to_date build s' = up_to_date build s" using assms(3,5) by (simp add: up_to_date_def)
  have tick: "tick_inv build s \<Longrightarrow> tick_inv build s'"
    using assms(4-7) by (auto simp: tick_inv_def up)
  show ?thesis
  proof (cases "sy_pc s")
    case (OpenBuild v d)
    then show ?thesis using assms(1,2,6) assms(7)[of v] by auto
  next
    case (Rebuild ver d)
    then show ?thesis using assms(1,2,4,6) assms(7)[of "kept_ver ver (sy_st s)"] tick by auto
  qed (use assms(1,2) tick in simp_all)
qed

lemma open_built_inv:
  assumes "open_built (sy_agent s) v built send_ok = (r, out)" "v \<le> sy_version s" "dirty \<longrightarrow> noticed s v" "read_ok build dirty built s"
  shows "stream_inv build (sy_pc (goes_on (r, out) s)) (goes_on (r, out) s)"
  using assms by (cases r)
    (auto simp: open_built_def goes_on_def Let_def tick_inv_def up_to_date_def noticed_def read_ok_def touch_def split: option.splits if_splits)

lemma tick_inv_pc [simp]: "tick_inv build (s\<lparr>sy_pc := pc\<rparr>) = tick_inv build s"
  by (simp add: tick_inv_def up_to_date_def noticed_def)

lemma goes_on_same: "goes_on (tick_end (Inr (sy_st s), [])) s = s\<lparr>sy_pc := Waiting\<rparr>"
  by (simp add: goes_on_def tick_end_def touch_def)

lemma tick_rebuilt_st:
  assumes "tick_rebuilt ver (Some fresh) send_ok st = (Inr st', out)"
  shows "ss_LastVer st' = kept_ver ver st" "c_ConfigHash (ss_Snapshot st') = c_ConfigHash fresh" "told (c_ConfigHash (ss_Snapshot st)) out = c_ConfigHash fresh"
  using assms by (auto simp: tick_rebuilt_def kept_ver_def Let_def split: if_splits option.splits)

lemma tick_rebuilt_inv:
  assumes "tick_rebuilt ver built send_ok (sy_st s) = (r, out)" "stream_inv build (Rebuild ver dirty) s" "read_ok build dirty built s"
  shows "stream_inv build (sy_pc (goes_on (tick_end (r, out)) s)) (goes_on (tick_end (r, out)) s)"
proof (cases r)
  case (Inr st)
  show ?thesis
  proof (cases built)
    case None
    then have "(r, out) = (Inr (sy_st s), [])" using assms(1) by (simp add: tick_rebuilt_def)
    then show ?thesis using assms(2) by (simp add: goes_on_same)
  next
    case (Some fresh)
    have st: "ss_LastVer st = kept_ver ver (sy_st s)" "c_ConfigHash (ss_Snapshot st) = c_ConfigHash fresh" "told (sy_agent s) out = c_ConfigHash fresh"
      using tick_rebuilt_st[OF assms(1)[unfolded Inr Some]] assms(2) by (simp_all add: tick_inv_def)
    let ?s' = "s\<lparr>sy_pc := Waiting, sy_st := st, sy_agent := c_ConfigHash fresh\<rparr>"
    have "dirty \<or> build (sy_db s) = Some fresh" using assms(3) Some by (auto simp: read_ok_def)
    then have "up_to_date build ?s' \<or> noticed ?s' (ss_LastVer st)"
      using assms(2) st(1) by (cases dirty) (simp_all add: up_to_date_def noticed_def)
    moreover have "goes_on (tick_end (r, out)) s = ?s'" using Inr st(3) by (simp add: goes_on_def tick_end_def)
    ultimately show ?thesis using assms(2) st by (simp add: tick_inv_def)
  qed
qed (simp add: goes_on_def tick_end_def)

lemma stream_inv_step:
  assumes "stream_step build every s s'" "stream_inv build (sy_pc s) s"
  shows "stream_inv build (sy_pc s') s'"
  using assms
proof cases
  case (s_write db)
  then show ?thesis using inv_written[OF assms(2), of s'] by (simp add: config_write_def noticed_def)
next
  case (s_note ok)
  then show ?thesis using inv_noted[OF assms(2), of s'] by (cases ok) (auto simp: noteConfigWrite_def noticed_def)
next
  case (s_manual db)
  then show ?thesis using inv_written[OF assms(2), of s'] by (simp add: config_write_def noticed_def)
next
  case (s_opened v dirty built send_ok)
  obtain r out where "open_built (sy_agent s) v built send_ok = (r, out)" by fastforce
  then show ?thesis using open_built_inv[of s v built send_ok r out dirty build] assms(2) s_opened by simp
next
  case (s_tick cert)
  then show ?thesis using assms(2) by (auto simp: tick_inv_def tick_count_def up_to_date_def noticed_def)
next
  case (s_unchanged ver)
  then show ?thesis using assms(2) by (simp add: goes_on_same)
next
  case (s_rebuild ver)
  then show ?thesis using assms(2) by (auto simp: tick_inv_def up_to_date_def noticed_def kept_ver_def)
next
  case (s_rebuilt ver dirty built send_ok)
  obtain r out where "tick_rebuilt ver built send_ok (sy_st s) = (r, out)" by fastforce
  then show ?thesis using tick_rebuilt_inv[of ver built send_ok s r out build dirty] assms(2) s_rebuilt by simp
qed auto

lemma stream_inv_reachable:
  assumes "(stream_step build every)\<^sup>*\<^sup>* (stream_start db v n hello st) s"
  shows "stream_inv build (sy_pc s) s"
  using assms by (induction rule: rtranclp_induct) (auto simp: stream_start_def intro: stream_inv_step)

text \<open>
  C28: No configuration change is masked by a rebuild it races. However writes, the notes of their
  version, failed reads, failed builds and the sections of the stream interleave: when the stream
  waits, every write has been noted and no note was lost, the next tick that can read and send
  leaves the agent with the hash of the configuration as it now is, and the stream records the hash
  the agent was last told.
\<close>

theorem config_change_reaches_agent:
  assumes "(stream_step (buildSnapshot new_sha1 uuid_str marshal sha256 agentID) every)\<^sup>*\<^sup>* (stream_start db v n hello st) s"
    and "sy_pc s = Waiting" "sy_pending s = 0" "\<not> sy_missed s"
    and "buildSnapshot new_sha1 uuid_str marshal sha256 agentID (sy_db s) = Some snap"
  shows "sy_agent s = c_ConfigHash (ss_Snapshot (sy_st s))
    \<and> (\<exists>st' out. stream_tick every \<lparr>io_cert = Some True, io_ver = Some (sy_version s), io_built = Some snap, io_send = True\<rparr> (sy_st s) = (Inr st', out)
         \<and> told (sy_agent s) out = c_ConfigHash snap \<and> c_ConfigHash (ss_Snapshot st') = c_ConfigHash snap)"
proof -
  have "tick_inv (buildSnapshot new_sha1 uuid_str marshal sha256 agentID) s" using stream_inv_reachable[OF assms(1)] assms(2) by simp
  then show ?thesis using assms(3-5)
    by (auto simp: tick_inv_def up_to_date_def noticed_def stream_tick_def tick_end_def want_rebuild_def tick_rebuilt_def tick_count_def touch_def Let_def)
qed

text \<open>A run that reaches the end: the stream opens, then a write commits and is noted.\<close>

lemma stream_run:
  assumes "build db = Some snap0"
  shows "\<exists>s. (stream_step build every)\<^sup>*\<^sup>* (stream_start db v 0 hello st) s \<and> sy_pc s = Waiting \<and> sy_pending s = 0 \<and> \<not> sy_missed s
    \<and> sy_db s = db' \<and> sy_version s = v + 1 \<and> sy_agent s = c_ConfigHash snap0"
proof -
  let ?s0 = "stream_start db v 0 hello st"
  let ?s1 = "?s0\<lparr>sy_pc := OpenBuild v False\<rparr>"
  let ?s2 = "goes_on (open_built (sy_agent ?s1) v (Some snap0) True) ?s1"
  let ?s3 = "(config_write db' ?s2)\<lparr>sy_pending := sy_pending ?s2 + 1\<rparr>"
  have "stream_step build every ?s0 ?s1" using s_open[of ?s0 build every] by (simp add: stream_start_def)
  moreover have "stream_step build every ?s1 ?s2" using assms by (intro s_opened[where dirty = False]) (auto simp: read_ok_def stream_start_def)
  moreover have "stream_step build every ?s2 ?s3" by (rule s_write)
  moreover have "stream_step build every ?s3 (noteConfigWrite True ?s3)" by (intro s_note) simp
  ultimately have "(stream_step build every)\<^sup>*\<^sup>* ?s0 (noteConfigWrite True ?s3)" by (meson converse_rtranclp_into_rtranclp rtranclp.rtrancl_refl)
  moreover have "sy_pc (noteConfigWrite True ?s3) = Waiting \<and> sy_pending (noteConfigWrite True ?s3) = 0 \<and> \<not> sy_missed (noteConfigWrite True ?s3)
      \<and> sy_db (noteConfigWrite True ?s3) = db' \<and> sy_version (noteConfigWrite True ?s3) = v + 1 \<and> sy_agent (noteConfigWrite True ?s3) = c_ConfigHash snap0"
    by (auto simp: noteConfigWrite_def config_write_def goes_on_def open_built_def stream_start_def touch_def Let_def)
  ultimately show ?thesis by blast
qed

definition demo_tables :: "config_entry list \<Rightarrow> config_tables" where
  "demo_tables cs = \<lparr>ct_agents = [\<lparr>ag_id = 1, ag_site = 2, ag_network = 3, ag_probe_address = ''''\<rparr>],
     ct_targets = [\<lparr>tg_id = 4, tg_kind = ''external'', tg_agent = None, tg_address = ''h'', tg_port = 0, tg_url = ''''\<rparr>],
     ct_meshes = [], ct_members = [], ct_configs = cs\<rparr>"

definition demo_entry :: config_entry where
  "demo_entry = \<lparr>pc_id = 5, pc_site = Some 2, pc_target = Some 4, pc_mesh = None, pc_network = Some 3, pc_type = 1, pc_interval_ms = 10, pc_timeout_ms = 5,
     pc_train_count = 0, pc_train_spacing_ms = 0, pc_params = [], pc_enabled = True, pc_created = 0\<rparr>"

definition demo_build :: "config_tables \<Rightarrow> config_snapshot option" where
  "demo_build = buildSnapshot (\<lambda>u n. u) (\<lambda>u. ''u'') (\<lambda>s. Some []) (\<lambda>b. if b = [] then ''none'' else ''one'') 1"

lemma demo_build_simps:
  "\<exists>snap. demo_build (demo_tables []) = Some snap \<and> c_ConfigHash snap = ''none''"
  "\<exists>snap. demo_build (demo_tables [demo_entry]) = Some snap \<and> c_ConfigHash snap = ''one''"
  by (simp_all add: demo_build_def buildSnapshot_def LoadAgentConfigInputs_def demo_tables_def direct_query_def mesh_query_def peer_query_def target_sites_def
      BuildSnapshot_def expand_def mesh_pairs_def hashSpecs_def hash_chunk_def framed_def put_uint64_def demo_entry_def direct_entry_def direct_spec_def settings_of_def Let_def)

theorem config_change_reaches_agent_witness:
  "\<exists>(s :: config_tables stream_sys) snap st' out. sy_agent s = ''none'' \<and> demo_build (sy_db s) = Some snap \<and> c_ConfigHash snap = ''one''
     \<and> stream_tick 10 \<lparr>io_cert = Some True, io_ver = Some (sy_version s), io_built = Some snap, io_send = True\<rparr> (sy_st s) = (Inr st', out)
     \<and> told (sy_agent s) out = ''one''"
proof -
  obtain snap0 snap where b: "demo_build (demo_tables []) = Some snap0" "c_ConfigHash snap0 = ''none''"
    "demo_build (demo_tables [demo_entry]) = Some snap" "c_ConfigHash snap = ''one''" using demo_build_simps by blast
  obtain s where s: "(stream_step demo_build 10)\<^sup>*\<^sup>* (stream_start (demo_tables []) 7 0 ''hello'' undefined) s" "sy_pc s = Waiting" "sy_pending s = 0"
    "\<not> sy_missed s" "sy_db s = demo_tables [demo_entry]" "sy_agent s = ''none''"
    using stream_run[of demo_build "demo_tables []" snap0 10 7 "''hello''" undefined "demo_tables [demo_entry]"] b(1,2) by auto
  have d: "demo_build (sy_db s) = Some snap" using b(3) s(5) by simp
  obtain st' out where "stream_tick 10 \<lparr>io_cert = Some True, io_ver = Some (sy_version s), io_built = Some snap, io_send = True\<rparr> (sy_st s) = (Inr st', out)"
    "told (sy_agent s) out = c_ConfigHash snap"
    using config_change_reaches_agent[OF s(1)[unfolded demo_build_def] s(2-4) d[unfolded demo_build_def]] by blast
  then show ?thesis using b(4) s(6) d by (intro exI[of _ s] exI[of _ snap] exI[of _ st'] exI[of _ out]) simp
qed

section \<open>The forced rebuild\<close>

definition good_tick :: "config_snapshot \<Rightarrow> tick_io \<Rightarrow> bool" where
  "good_tick snap io \<longleftrightarrow> io_cert io = Some True \<and> io_built io = Some snap \<and> io_send io"

lemma good_tick_stays_open:
  assumes "good_tick snap io" "h = c_ConfigHash (ss_Snapshot st)"
  shows "\<exists>st' out. stream_tick every io st = (Inr st', out) \<and> told h out = c_ConfigHash (ss_Snapshot st')
    \<and> (h = c_ConfigHash snap \<or> every \<le> ss_SinceRebuild st + 1 \<longrightarrow> c_ConfigHash (ss_Snapshot st') = c_ConfigHash snap)
    \<and> (c_ConfigHash (ss_Snapshot st') = c_ConfigHash snap \<or> ss_SinceRebuild st' = ss_SinceRebuild st + 1)"
  using assms
  by (auto simp: good_tick_def stream_tick_def tick_end_def want_rebuild_def tick_rebuilt_def tick_count_def touch_def Let_def split: option.split)

lemma good_ticks:
  assumes "\<forall>io\<in>set ios. good_tick snap io" "h = c_ConfigHash (ss_Snapshot st)"
    and "h = c_ConfigHash snap \<or> ios \<noteq> [] \<and> every \<le> ss_SinceRebuild st + length ios"
  shows "\<exists>out. stream_loop every (map Tick ios) st = (None, out) \<and> told h out = c_ConfigHash snap"
  using assms
proof (induction ios arbitrary: st h)
  case (Cons io ios)
  obtain st' out where t: "stream_tick every io st = (Inr st', out)" "told h out = c_ConfigHash (ss_Snapshot st')"
    "h = c_ConfigHash snap \<or> every \<le> ss_SinceRebuild st + 1 \<longrightarrow> c_ConfigHash (ss_Snapshot st') = c_ConfigHash snap"
    "c_ConfigHash (ss_Snapshot st') = c_ConfigHash snap \<or> ss_SinceRebuild st' = ss_SinceRebuild st + 1"
    using good_tick_stays_open[of snap io h st every] Cons.prems by auto
  have "c_ConfigHash (ss_Snapshot st') = c_ConfigHash snap \<or> ios \<noteq> [] \<and> every \<le> ss_SinceRebuild st' + length ios"
    using t(3,4) Cons.prems(3) by (cases ios) auto
  then obtain out' where "stream_loop every (map Tick ios) st' = (None, out')" "told (told h out) out' = c_ConfigHash snap"
    using Cons.IH[of "c_ConfigHash (ss_Snapshot st')" st'] Cons.prems(1) t(2) by auto
  then show ?case using t(1) by (auto simp: told_append)
qed auto

text \<open>
  C29: A change nobody noted is found within the forced rebuild. From whatever state the stream is in,
  and whatever the version reads return or fail with, after as many ticks as the rebuild interval -
  ten in production - in which the certificate is valid and builds and sends succeed, the agent has
  been told the hash of the configuration, and the stream is still open.
\<close>

theorem forced_rebuild_bounds_staleness:
  assumes "length ios = rebuildEvery forced" "\<forall>io\<in>set ios. good_tick snap io"
  shows "\<exists>out. stream_loop (rebuildEvery forced) (map Tick ios) st = (None, out) \<and> told (c_ConfigHash (ss_Snapshot st)) out = c_ConfigHash snap"
proof -
  have "0 < rebuildEvery forced" by (simp add: rebuildEvery_def forcedRebuildTicks_def)
  then have "ios \<noteq> []" using assms(1) by auto
  then show ?thesis using assms by (intro good_ticks) auto
qed

theorem forced_rebuild_bounds_staleness_witness:
  "\<exists>(st :: stream_st) snap out. c_ConfigHash (ss_Snapshot st) = ''old'' \<and> c_ConfigHash snap = ''new''
     \<and> stream_loop (rebuildEvery 2) (map Tick [\<lparr>io_cert = Some True, io_ver = None, io_built = Some snap, io_send = True\<rparr>,
          \<lparr>io_cert = Some True, io_ver = Some 7, io_built = Some snap, io_send = True\<rparr>]) st = (None, out)
     \<and> told ''old'' out = ''new''"
proof -
  let ?snap = "\<lparr>c_ConfigHash = ''new'', c_Probes = []\<rparr>"
  let ?st = "\<lparr>ss_Snapshot = \<lparr>c_ConfigHash = ''old'', c_Probes = []\<rparr>, ss_LastVer = 7, ss_SinceRebuild = 0\<rparr>"
  have "\<exists>out. stream_loop (rebuildEvery 2) (map Tick [\<lparr>io_cert = Some True, io_ver = None, io_built = Some ?snap, io_send = True\<rparr>,
      \<lparr>io_cert = Some True, io_ver = Some 7, io_built = Some ?snap, io_send = True\<rparr>]) ?st = (None, out)
    \<and> told (c_ConfigHash (ss_Snapshot ?st)) out = c_ConfigHash ?snap"
    by (rule forced_rebuild_bounds_staleness) (simp_all add: rebuildEvery_def good_tick_def)
  then show ?thesis by (intro exI[of _ ?st] exI[of _ ?snap]) simp
qed

section \<open>Sessions\<close>

text \<open>
  Every session that ends is recorded with its start and its reason, and one that a revocation cut is
  refused by the certificate cache for as long as the cut is remembered.
\<close>

lemma loop_revoked: "stream_loop every evs st = (Some r, out) \<Longrightarrow> CacheRevoked \<in> set out \<longleftrightarrow> r = StreamRevoked"
proof (induction every evs st arbitrary: out rule: stream_loop.induct)
  case (3 every io evs st)
  have t: "CacheRevoked \<in> set out \<longleftrightarrow> r = Inl StreamRevoked" if "stream_tick every io st = (r, out)" for r out
    using that by (cases "io_cert io" rule: tick_cert.cases)
      (auto simp: stream_tick_def tick_end_def tick_rebuilt_def touch_def Let_def split: if_splits option.splits)
  show ?case
  proof (cases "stream_tick every io st")
    case (Pair r' out1)
    show ?thesis
    proof (cases r')
      case (Inl e)
      then show ?thesis using 3 Pair t[OF Pair] by auto
    next
      case (Inr st')
      then show ?thesis using 3 Pair t[OF Pair] by (auto split: prod.splits)
    qed
  qed
qed auto

lemma session_cut_refused:
  assumes "authenticateAgent parse_uuid uuid_str ctx now fetch c = (Inr i, c1, evs)"
    and "stream (id_AgentID i) = streamConfig every hello ver built send_ok ticks"
    and "streamConfig every hello ver built send_ok ticks = (Some StreamRevoked, out)"
  shows "\<exists>c'. StreamConfig parse_uuid uuid_str now fetch tend ctx version stream c
      = (Some (Some (Status PermissionDenied)), out, c',
         evs @ [session_event uuid_str ctx (id_AgentID i) EventAgentSessionStart ''agent connected'' Success (''version'', version),
                session_end uuid_str ctx (id_AgentID i) StreamRevoked])
    \<and> cert_lookup c' (id_AgentID i, x_SerialNumber (id_Cert i)) t = (if t \<le> tend + certCacheTTL then Some False else None)"
proof -
  have "CacheRevoked \<in> set out"
    using assms(3) loop_revoked
    by (fastforce simp: streamConfig_def open_built_def Let_def split: option.splits if_splits prod.splits)
  then show ?thesis using assms by (simp add: StreamConfig_def cacheRevoked_def certs.lookup_put_same Let_def)
qed

end
