(* ===== verification/Scheduler.thy ===== *)
theory Scheduler
  imports Go_Strings Meshexpand
begin

text \<open>
  The probe scheduler of the agent (\<open>internal/agent/scheduler/scheduler.go\<close>): the worker map, \<open>Apply\<close>,
  \<open>Stop\<close>, the stand-in probers and what a worker delivers.

  A worker is a goroutine with a context; contexts are numbered in the order they are made. \<open>sc_running\<close>
  holds the goroutines that have not returned, cancelled or not. Go iterates over a map in an
  arbitrary order, so the orders of the two loops of \<open>Apply\<close> are arguments. \<open>marshal\<close> is the
  deterministic protobuf encoding (\<open>None\<close> its error) and \<open>addr\<close> the address printed in that case.
\<close>

section \<open>Specs as the agent gets them\<close>

record wire_spec =
  ws_ProbeId :: string
  ws_Type :: int
  ws_Kind :: target_kind
  ws_TargetId :: string
  ws_Address :: string
  ws_Port :: u32
  ws_Url :: string
  ws_Interval :: duration
  ws_Timeout :: duration
  ws_TrainCount :: u32
  ws_TrainSpacing :: "duration option"
  ws_Params :: params

definition wire_of :: "(uuid \<Rightarrow> string) \<Rightarrow> probe_spec \<Rightarrow> wire_spec" where
  "wire_of uuid_str s =
     \<lparr>ws_ProbeId = uuid_str (s_ProbeId s), ws_Type = s_Type s, ws_Kind = t_Kind (s_Target s), ws_TargetId = uuid_str (t_TargetId (s_Target s)),
      ws_Address = t_Address (s_Target s), ws_Port = t_Port (s_Target s), ws_Url = t_Url (s_Target s),
      ws_Interval = s_Interval s, ws_Timeout = s_Timeout s, ws_TrainCount = s_TrainCount s, ws_TrainSpacing = s_TrainSpacing s,
      ws_Params = s_Params s\<rparr>"

section \<open>Hashes\<close>

text \<open>\<open>fnv.New64a\<close>.\<close>

definition fnv64a :: "byte list \<Rightarrow> u64" where
  "fnv64a bs = foldl (\<lambda>h b. xor h (ucast b) * 1099511628211) 14695981039346656037 bs"

fun hex_text :: "nat \<Rightarrow> string" where
  "hex_text n = (if n < 16 then [''0123456789abcdef'' ! n] else hex_text (n div 16) @ [''0123456789abcdef'' ! (n mod 16)])"

declare hex_text.simps [simp del]

definition specHash :: "(wire_spec \<Rightarrow> byte list option) \<Rightarrow> (wire_spec \<Rightarrow> string) \<Rightarrow> wire_spec \<Rightarrow> string" where
  "specHash marshal addr spec =
     (case marshal spec of
        None \<Rightarrow> ''marshal-error-'' @ addr spec
      | Some b \<Rightarrow> hex_text (unat (fnv64a b)))"

definition splayFor :: "string \<Rightarrow> duration \<Rightarrow> duration" where
  "splayFor probeID interval = uint (fnv64a (map (\<lambda>c. word_of_nat (of_char c)) probeID) mod word_of_int interval)"

section \<open>Workers\<close>

datatype prober = Registered int | UnsupportedType | Misconfigured duration

record worker =
  w_specHash :: string
  w_ctx :: nat
  w_interval :: duration
  w_evidence :: bool

record goroutine =
  g_ctx :: nat
  g_spec :: wire_spec
  g_prober :: prober
  g_interval :: duration

record scheduler =
  sc_stopped :: bool
  sc_workers :: "string \<rightharpoonup> worker"
  sc_next :: nat
  sc_cancelled :: "nat list"
  sc_running :: "goroutine list"

definition newScheduler :: scheduler where
  "newScheduler = \<lparr>sc_stopped = False, sc_workers = Map.empty, sc_next = 0, sc_cancelled = [], sc_running = []\<rparr>"

definition misconfiguredInterval :: duration where "misconfiguredInterval = minute"

text \<open>The types of \<open>DefaultRegistry\<close>.\<close>

definition DefaultRegistry :: "int list" where
  "DefaultRegistry = [ICMP, TCP, TLS, HTTP, DNS, NTP, TRACEROUTE, PATH_MTU]"

text \<open>The prober and the interval a spec is scheduled with.\<close>

definition prober_for :: "int list \<Rightarrow> wire_spec \<Rightarrow> prober \<times> duration" where
  "prober_for reg spec =
     (let interval = ws_Interval spec;
          prober = (if ws_Type spec \<in> set reg then Registered (ws_Type spec) else UnsupportedType)
      in if interval \<le> 0 then (Misconfigured interval, misconfiguredInterval) else (prober, interval))"

definition startWorkerLocked ::
  "int list \<Rightarrow> (wire_spec \<Rightarrow> string) \<Rightarrow> string \<Rightarrow> wire_spec \<Rightarrow> scheduler \<Rightarrow> scheduler" where
  "startWorkerLocked reg hash id1 spec s =
     (let (prober, interval) = prober_for reg spec;
          ctx = sc_next s
      in s\<lparr>sc_workers := (sc_workers s)(id1 \<mapsto> \<lparr>w_specHash = hash spec, w_ctx = ctx, w_interval = interval,
             w_evidence = (case prober of Registered t \<Rightarrow> True | _ \<Rightarrow> False)\<rparr>),
           sc_next := ctx + 1,
           sc_running := \<lparr>g_ctx = ctx, g_spec = spec, g_prober = prober, g_interval = interval\<rparr> # sc_running s\<rparr>)"

section \<open>Apply\<close>

definition desired_of :: "wire_spec list \<Rightarrow> string \<rightharpoonup> wire_spec" where
  "desired_of specs =
     foldl (\<lambda>m spec. if ws_ProbeId spec = '''' then m
                      else if m (ws_ProbeId spec) \<noteq> None then m
                      else m(ws_ProbeId spec \<mapsto> spec)) Map.empty specs"

text \<open>One turn of the loop over the workers.\<close>

definition keep_or_stop ::
  "(wire_spec \<Rightarrow> string) \<Rightarrow> scheduler \<times> (string \<rightharpoonup> wire_spec) \<Rightarrow> string \<Rightarrow> scheduler \<times> (string \<rightharpoonup> wire_spec)" where
  "keep_or_stop hash sd id1 =
     (let (s, desired) = sd
      in case sc_workers s id1 of
           None \<Rightarrow> (s, desired)
         | Some w \<Rightarrow>
             if (case desired id1 of None \<Rightarrow> False | Some spec \<Rightarrow> w_specHash w = hash spec)
             then (s, desired(id1 := None))
             else (s\<lparr>sc_cancelled := w_ctx w # sc_cancelled s, sc_workers := (sc_workers s)(id1 := None)\<rparr>, desired))"

definition start_desired :: "int list \<Rightarrow> (wire_spec \<Rightarrow> string) \<Rightarrow> (string \<rightharpoonup> wire_spec) \<Rightarrow> scheduler \<Rightarrow> string \<Rightarrow> scheduler" where
  "start_desired reg hash desired s id1 =
     (case desired id1 of None \<Rightarrow> s | Some spec \<Rightarrow> startWorkerLocked reg hash id1 spec s)"

definition applySnapshot ::
  "int list \<Rightarrow> (wire_spec \<Rightarrow> string) \<Rightarrow> string list \<Rightarrow> string list \<Rightarrow> wire_spec list \<Rightarrow> scheduler \<Rightarrow> scheduler" where
  "applySnapshot reg hash order1 order2 specs s =
     (if sc_stopped s then s
      else (let (s, desired) = foldl (keep_or_stop hash) (s, desired_of specs) order1
            in foldl (start_desired reg hash desired) s order2))"

definition stopScheduler :: "scheduler \<Rightarrow> scheduler" where
  "stopScheduler s = s\<lparr>sc_stopped := True, sc_workers := Map.empty\<rparr>"

text \<open>\<open>ctx.Err() != nil\<close> for the context of a goroutine.\<close>

definition ctx_done :: "scheduler \<Rightarrow> goroutine \<Rightarrow> bool" where
  "ctx_done s g \<longleftrightarrow> sc_stopped s \<or> g_ctx g \<in> set (sc_cancelled s)"

definition live :: "scheduler \<Rightarrow> goroutine list" where
  "live s = filter (\<lambda>g. \<not> ctx_done s g) (sc_running s)"

text \<open>A goroutine whose context is done returns, after the run it may be in.\<close>

definition worker_returns :: "nat \<Rightarrow> scheduler \<Rightarrow> scheduler" where
  "worker_returns ctx s = s\<lparr>sc_running := filter (\<lambda>g. g_ctx g \<noteq> ctx \<or> \<not> ctx_done s g) (sc_running s)\<rparr>"

definition FastestInterval :: "string list \<Rightarrow> scheduler \<Rightarrow> duration" where
  "FastestInterval order s =
     foldl (\<lambda>fastest id1. case sc_workers s id1 of
         None \<Rightarrow> fastest
       | Some w \<Rightarrow> if w_evidence w \<and> (fastest = 0 \<or> w_interval w < fastest) then w_interval w else fastest) 0 order"

text \<open>What a finished run delivers: a failure that the cancellation may have caused is not kept.\<close>

definition deliver :: "bool \<Rightarrow> bool \<Rightarrow> 'r \<Rightarrow> 'r list" where
  "deliver done1 is_ok res = (if \<not> done1 \<or> is_ok then [res] else [])"

section \<open>The desired specs\<close>

lemma desired_snoc:
  "desired_of (specs @ [spec]) = (if ws_ProbeId spec = '''' \<or> desired_of specs (ws_ProbeId spec) \<noteq> None then desired_of specs
     else (desired_of specs)(ws_ProbeId spec \<mapsto> spec))"
  by (simp add: desired_of_def)

lemma desired_Some: "desired_of specs id1 = Some spec \<Longrightarrow> spec \<in> set specs \<and> ws_ProbeId spec = id1 \<and> id1 \<noteq> ''''"
  by (induction specs arbitrary: spec rule: rev_induct) (auto simp: desired_snoc desired_of_def split: if_splits)

lemma dom_desired: "dom (desired_of specs) = ws_ProbeId ` set specs - {''''}"
  by (induction specs rule: rev_induct) (auto simp: desired_snoc desired_of_def split: if_splits)

lemma desired_distinct:
  assumes "distinct (map ws_ProbeId specs)" "spec \<in> set specs" "ws_ProbeId spec \<noteq> ''''"
  shows "desired_of specs (ws_ProbeId spec) = Some spec"
proof -
  have "ws_ProbeId spec \<in> dom (desired_of specs)" using assms(2,3) by (auto simp: dom_desired)
  then obtain spec' where s: "desired_of specs (ws_ProbeId spec) = Some spec'" by auto
  have "spec' \<in> set specs" "ws_ProbeId spec' = ws_ProbeId spec" using desired_Some[OF s] by auto
  then have "spec' = spec" using assms(1,2) by (metis distinct_map inj_on_contraD)
  then show ?thesis using s by simp
qed

section \<open>The worker map and the goroutines\<close>

definition runs :: "int list \<Rightarrow> (wire_spec \<Rightarrow> string) \<Rightarrow> string \<Rightarrow> worker \<Rightarrow> goroutine \<Rightarrow> bool" where
  "runs reg hash id1 w g \<longleftrightarrow> g_ctx g = w_ctx w \<and> ws_ProbeId (g_spec g) = id1 \<and> w_specHash w = hash (g_spec g)
     \<and> (g_prober g, g_interval g) = prober_for reg (g_spec g) \<and> w_interval w = g_interval g
     \<and> w_evidence w = (case g_prober g of Registered t \<Rightarrow> True | _ \<Rightarrow> False)"

definition sched_inv :: "int list \<Rightarrow> (wire_spec \<Rightarrow> string) \<Rightarrow> scheduler \<Rightarrow> bool" where
  "sched_inv reg hash s \<longleftrightarrow>
     (\<forall>id1 w. sc_workers s id1 = Some w \<longrightarrow> w_ctx w \<notin> set (sc_cancelled s) \<and> (\<exists>g\<in>set (sc_running s). runs reg hash id1 w g))
   \<and> (\<forall>g\<in>set (sc_running s). g_ctx g < sc_next s) \<and> (\<forall>c\<in>set (sc_cancelled s). c < sc_next s)
   \<and> distinct (map g_ctx (sc_running s))
   \<and> (\<not> sc_stopped s \<longrightarrow> (\<forall>g\<in>set (sc_running s). g_ctx g \<notin> set (sc_cancelled s) \<longrightarrow>
        (\<exists>w. sc_workers s (ws_ProbeId (g_spec g)) = Some w \<and> w_ctx w = g_ctx g)))
   \<and> (sc_stopped s \<longrightarrow> sc_workers s = Map.empty)"

lemma sched_inv_new: "sched_inv reg hash newScheduler"
  by (simp add: sched_inv_def newScheduler_def)

lemma inv_worker:
  assumes "sched_inv reg hash s" "sc_workers s id1 = Some w"
  obtains g where "g \<in> set (sc_running s)" "runs reg hash id1 w g" "w_ctx w \<notin> set (sc_cancelled s)"
  using assms unfolding sched_inv_def by blast

lemma same_ctx: "sched_inv reg hash s \<Longrightarrow> g \<in> set (sc_running s) \<Longrightarrow> g' \<in> set (sc_running s) \<Longrightarrow> g_ctx g = g_ctx g' \<Longrightarrow> g = g'"
  by (simp add: sched_inv_def distinct_map inj_on_def)

lemma ctx_owner:
  assumes "sched_inv reg hash s" "sc_workers s id1 = Some w" "sc_workers s id2 = Some w'" "w_ctx w = w_ctx w'"
  shows "id1 = id2"
proof -
  obtain g where g: "g \<in> set (sc_running s)" "runs reg hash id1 w g" using inv_worker[OF assms(1,2)] by metis
  obtain g' where g': "g' \<in> set (sc_running s)" "runs reg hash id2 w' g'" using inv_worker[OF assms(1,3)] by metis
  have "g = g'" by (rule same_ctx[OF assms(1) g(1) g'(1)]) (use g(2) g'(2) assms(4) in \<open>simp add: runs_def\<close>)
  then show ?thesis using g(2) g'(2) by (simp add: runs_def)
qed

lemma inv_keep_or_stop:
  assumes "sched_inv reg hash s" "\<not> sc_stopped s"
  shows "sched_inv reg hash (fst (keep_or_stop hash (s, d) id1))"
proof (cases "sc_workers s id1")
  case (Some w)
  let ?s' = "s\<lparr>sc_cancelled := w_ctx w # sc_cancelled s, sc_workers := (sc_workers s)(id1 := None)\<rparr>"
  obtain g where g: "g \<in> set (sc_running s)" "runs reg hash id1 w g" using inv_worker[OF assms(1) Some] by metis
  have "sched_inv reg hash ?s'"
    unfolding sched_inv_def
  proof (intro conjI)
    show "\<forall>id2 w'. sc_workers ?s' id2 = Some w' \<longrightarrow> w_ctx w' \<notin> set (sc_cancelled ?s') \<and> (\<exists>g\<in>set (sc_running ?s'). runs reg hash id2 w' g)"
      using assms(1) ctx_owner[OF assms(1) Some] by (auto simp: sched_inv_def)
    show "\<forall>c\<in>set (sc_cancelled ?s'). c < sc_next ?s'" using assms(1) g by (auto simp: sched_inv_def runs_def)
    show "\<not> sc_stopped ?s' \<longrightarrow> (\<forall>g\<in>set (sc_running ?s'). g_ctx g \<notin> set (sc_cancelled ?s') \<longrightarrow>
        (\<exists>w. sc_workers ?s' (ws_ProbeId (g_spec g)) = Some w \<and> w_ctx w = g_ctx g))"
      using assms Some by (auto simp: sched_inv_def)
  qed (use assms in \<open>auto simp: sched_inv_def\<close>)
  then show ?thesis using Some assms(1) by (auto simp: keep_or_stop_def split: option.split)
qed (use assms in \<open>simp add: keep_or_stop_def\<close>)

lemma inv_start:
  assumes "sched_inv reg hash s" "\<not> sc_stopped s" "sc_workers s id1 = None" "ws_ProbeId spec = id1"
  shows "sched_inv reg hash (startWorkerLocked reg hash id1 spec s)"
proof -
  obtain p i where p: "prober_for reg spec = (p, i)" by fastforce
  define w where "w = \<lparr>w_specHash = hash spec, w_ctx = sc_next s, w_interval = i, w_evidence = (case p of Registered t \<Rightarrow> True | _ \<Rightarrow> False)\<rparr>"
  define g where "g = \<lparr>g_ctx = sc_next s, g_spec = spec, g_prober = p, g_interval = i\<rparr>"
  define s' where "s' = startWorkerLocked reg hash id1 spec s"
  have s': "sc_workers s' = (sc_workers s)(id1 \<mapsto> w)" "sc_running s' = g # sc_running s" "sc_next s' = sc_next s + 1"
    "sc_cancelled s' = sc_cancelled s" "sc_stopped s' = sc_stopped s"
    by (simp_all add: s'_def startWorkerLocked_def p w_def g_def Let_def)
  have rg: "runs reg hash id1 w g" using assms(4) p by (simp add: runs_def w_def g_def)
  have fresh: "\<And>g'. g' \<in> set (sc_running s) \<Longrightarrow> g_ctx g' < sc_next s" "\<And>c. c \<in> set (sc_cancelled s) \<Longrightarrow> c < sc_next s"
    using assms(1) by (auto simp: sched_inv_def)
  have ctx: "w_ctx w = sc_next s" "g_ctx g = sc_next s" "ws_ProbeId (g_spec g) = id1" using assms(4) by (simp_all add: w_def g_def)
  have "sched_inv reg hash s'"
    unfolding sched_inv_def
  proof (intro conjI)
    show "\<forall>id2 w'. sc_workers s' id2 = Some w' \<longrightarrow> w_ctx w' \<notin> set (sc_cancelled s') \<and> (\<exists>g\<in>set (sc_running s'). runs reg hash id2 w' g)"
      using assms(1) rg fresh(2)[of "sc_next s"] ctx(1) unfolding s' by (auto simp: sched_inv_def)
    show "\<forall>g\<in>set (sc_running s'). g_ctx g < sc_next s'" using fresh(1) ctx(2) by (auto simp: s' less_Suc_eq)
    show "\<forall>c\<in>set (sc_cancelled s'). c < sc_next s'" using fresh(2) by (auto simp: s' less_Suc_eq)
    show "distinct (map g_ctx (sc_running s'))" using assms(1) fresh(1) ctx(2) by (force simp: s' sched_inv_def)
    show "\<not> sc_stopped s' \<longrightarrow> (\<forall>g\<in>set (sc_running s'). g_ctx g \<notin> set (sc_cancelled s') \<longrightarrow>
        (\<exists>w. sc_workers s' (ws_ProbeId (g_spec g)) = Some w \<and> w_ctx w = g_ctx g))"
      using assms(1-3) ctx unfolding s' by (auto simp: sched_inv_def)
  qed (use assms(2) in \<open>simp add: s'\<close>)
  then show ?thesis by (simp add: s'_def)
qed

section \<open>Reconciliation\<close>

definition kept :: "(wire_spec \<Rightarrow> string) \<Rightarrow> scheduler \<Rightarrow> (string \<rightharpoonup> wire_spec) \<Rightarrow> string \<Rightarrow> bool" where
  "kept hash s d id1 \<longleftrightarrow> (\<exists>w spec. sc_workers s id1 = Some w \<and> d id1 = Some spec \<and> w_specHash w = hash spec)"

text \<open>What the loop over the workers has done for the names it has visited.\<close>

lemma keep_fold:
  assumes "sched_inv reg hash s" "\<not> sc_stopped s" "distinct order"
    and "foldl (keep_or_stop hash) (s, d) order = (s', d')"
  shows "sched_inv reg hash s' \<and> \<not> sc_stopped s' \<and> sc_running s' = sc_running s
    \<and> (\<forall>id1. sc_workers s' id1 = (if id1 \<in> set order \<and> \<not> kept hash s d id1 then None else sc_workers s id1))
    \<and> (\<forall>id1. d' id1 = (if id1 \<in> set order \<and> kept hash s d id1 then None else d id1))"
  using assms(3,4)
proof (induction order arbitrary: s' d' rule: rev_induct)
  case Nil
  then show ?case using assms(1,2) by auto
next
  case (snoc x order)
  obtain s1 d1 where 1: "foldl (keep_or_stop hash) (s, d) order = (s1, d1)" by fastforce
  have IH: "sched_inv reg hash s1" "\<not> sc_stopped s1" "sc_running s1 = sc_running s"
    "\<And>id1. sc_workers s1 id1 = (if id1 \<in> set order \<and> \<not> kept hash s d id1 then None else sc_workers s id1)"
    "\<And>id1. d1 id1 = (if id1 \<in> set order \<and> kept hash s d id1 then None else d id1)"
    using snoc.IH[OF _ 1] snoc.prems(1) by auto
  have x: "x \<notin> set order" using snoc.prems(1) by simp
  then have here: "sc_workers s1 x = sc_workers s x" "d1 x = d x" using IH(4,5) by auto
  have step: "keep_or_stop hash (s1, d1) x = (s', d')" using snoc.prems(2) 1 by simp
  have "sched_inv reg hash s'" using inv_keep_or_stop[OF IH(1,2), of d1 x] step by simp
  moreover have "\<not> sc_stopped s' \<and> sc_running s' = sc_running s1 \<and> sc_workers s' = (if kept hash s d x then sc_workers s1 else (sc_workers s1)(x := None))
      \<and> d' = (if kept hash s d x then d1(x := None) else d1)"
    using step IH(2) here by (auto simp: keep_or_stop_def kept_def fun_upd_idem split: option.splits if_splits)
  ultimately show ?case using IH(3,4,5) x by auto
qed

text \<open>What the loop over the remaining specs has done.\<close>

lemma start_fold:
  assumes "sched_inv reg hash s" "\<not> sc_stopped s" "distinct order"
    and "\<And>id1 spec. d id1 = Some spec \<Longrightarrow> sc_workers s id1 = None \<and> ws_ProbeId spec = id1"
    and "foldl (start_desired reg hash d) s order = s'"
  shows "sched_inv reg hash s' \<and> \<not> sc_stopped s' \<and> set (sc_running s) \<subseteq> set (sc_running s') \<and> sc_cancelled s' = sc_cancelled s
    \<and> (\<forall>id1 spec. id1 \<in> set order \<and> d id1 = Some spec \<longrightarrow> (\<exists>w. sc_workers s' id1 = Some w \<and> w_specHash w = hash spec))
    \<and> (\<forall>id1. id1 \<notin> set order \<or> d id1 = None \<longrightarrow> sc_workers s' id1 = sc_workers s id1)"
  using assms(3,5)
proof (induction order arbitrary: s' rule: rev_induct)
  case Nil
  then show ?case using assms(1,2) by auto
next
  case (snoc x order)
  let ?s1 = "foldl (start_desired reg hash d) s order"
  have IH: "sched_inv reg hash ?s1" "\<not> sc_stopped ?s1" "set (sc_running s) \<subseteq> set (sc_running ?s1)" "sc_cancelled ?s1 = sc_cancelled s"
    "\<And>id1 spec. id1 \<in> set order \<and> d id1 = Some spec \<Longrightarrow> \<exists>w. sc_workers ?s1 id1 = Some w \<and> w_specHash w = hash spec"
    "\<And>id1. id1 \<notin> set order \<or> d id1 = None \<Longrightarrow> sc_workers ?s1 id1 = sc_workers s id1"
    using snoc.IH[OF _ refl] snoc.prems(1) by simp_all
  have x: "x \<notin> set order" using snoc.prems(1) by simp
  have s': "s' = start_desired reg hash d ?s1 x" using snoc.prems(2) by simp
  show ?case
  proof (cases "d x")
    case None
    then have "s' = ?s1" by (simp add: s' start_desired_def)
    then show ?thesis using IH None by auto
  next
    case (Some spec)
    have free: "sc_workers ?s1 x = None" "ws_ProbeId spec = x" using IH(6)[of x] x assms(4)[OF Some] by auto
    have st: "s' = startWorkerLocked reg hash x spec ?s1" by (simp add: s' start_desired_def Some)
    have "sched_inv reg hash s'" unfolding st by (rule inv_start[OF IH(1,2) free])
    moreover have "\<not> sc_stopped s'" "set (sc_running s) \<subseteq> set (sc_running s')" "sc_cancelled s' = sc_cancelled s"
      using IH(2-4) by (auto simp: st startWorkerLocked_def Let_def split: prod.splits)
    moreover have "\<exists>w. sc_workers s' = (sc_workers ?s1)(x \<mapsto> w) \<and> w_specHash w = hash spec"
      by (auto simp: st startWorkerLocked_def Let_def split: prod.splits)
    ultimately show ?thesis using IH(5,6) Some x by auto
  qed
qed

text \<open>
  \<open>Apply\<close> as a whole: afterwards there is a worker for exactly the desired names, with the hash of the
  desired spec, and a worker whose hash did not change is the one that was there.
\<close>

lemma apply_reconciles:
  assumes "sched_inv reg hash s" "\<not> sc_stopped s" "distinct order1" "distinct order2"
    and "dom (sc_workers s) \<subseteq> set order1" "dom (desired_of specs) \<subseteq> set order2"
  defines "s' \<equiv> applySnapshot reg hash order1 order2 specs s"
  shows "sched_inv reg hash s'" "\<not> sc_stopped s'" "set (sc_running s) \<subseteq> set (sc_running s')"
    and "desired_of specs id1 = Some spec \<Longrightarrow> \<exists>w. sc_workers s' id1 = Some w \<and> w_specHash w = hash spec"
    and "desired_of specs id1 = None \<Longrightarrow> sc_workers s' id1 = None"
    and "kept hash s (desired_of specs) id1 \<Longrightarrow> sc_workers s' id1 = sc_workers s id1"
proof -
  obtain s1 d1 where 1: "foldl (keep_or_stop hash) (s, desired_of specs) order1 = (s1, d1)" by fastforce
  note k = keep_fold[OF assms(1-3) 1]
  have s': "s' = foldl (start_desired reg hash d1) s1 order2" using assms(2) 1 by (simp add: s'_def applySnapshot_def)
  have k': "sched_inv reg hash s1" "\<not> sc_stopped s1" "sc_running s1 = sc_running s"
    and kw: "\<And>id1. sc_workers s1 id1 = (if kept hash s (desired_of specs) id1 then sc_workers s id1 else None)"
    and kd: "\<And>id1. d1 id1 = (if kept hash s (desired_of specs) id1 then None else desired_of specs id1)"
    using k assms(5) by (auto simp: kept_def)
  have free: "sc_workers s1 id1 = None \<and> ws_ProbeId spec = id1" if "d1 id1 = Some spec" for id1 spec
    using that kd[of id1] kw[of id1] desired_Some by (auto split: if_splits)
  note st = start_fold[OF k'(1,2) assms(4) free s'[symmetric]]
  show "sched_inv reg hash s'" "\<not> sc_stopped s'" "set (sc_running s) \<subseteq> set (sc_running s')" using st k'(3) by auto
  show "\<exists>w. sc_workers s' id1 = Some w \<and> w_specHash w = hash spec" if d: "desired_of specs id1 = Some spec"
  proof (cases "kept hash s (desired_of specs) id1")
    case True
    then have "d1 id1 = None" using kd[of id1] by simp
    then have "sc_workers s' id1 = sc_workers s id1" using st kw[of id1] True by auto
    then show ?thesis using True d by (auto simp: kept_def)
  next
    case False
    then show ?thesis using st kd[of id1] d assms(6) by auto
  qed
  show "sc_workers s' id1 = None" if "desired_of specs id1 = None"
    using st kd[of id1] kw[of id1] that by (auto simp: kept_def)
  show "sc_workers s' id1 = sc_workers s id1" if "kept hash s (desired_of specs) id1"
    using st kd[of id1] kw[of id1] that by auto
qed

text \<open>The goroutines that are not cancelled are those of the workers, one each.\<close>

lemma live_iff:
  assumes "sched_inv reg hash s" "\<not> sc_stopped s"
  shows "g \<in> set (live s) \<longleftrightarrow> g \<in> set (sc_running s) \<and> (\<exists>w. sc_workers s (ws_ProbeId (g_spec g)) = Some w \<and> runs reg hash (ws_ProbeId (g_spec g)) w g)"
proof
  assume "g \<in> set (live s)"
  then have g: "g \<in> set (sc_running s)" "g_ctx g \<notin> set (sc_cancelled s)" by (auto simp: live_def ctx_done_def)
  then obtain w where w: "sc_workers s (ws_ProbeId (g_spec g)) = Some w" "w_ctx w = g_ctx g" using assms unfolding sched_inv_def by blast
  obtain g' where g': "g' \<in> set (sc_running s)" "runs reg hash (ws_ProbeId (g_spec g)) w g'" using inv_worker[OF assms(1) w(1)] by metis
  have "g' = g" using same_ctx[OF assms(1) g'(1) g(1)] g'(2) w(2) by (simp add: runs_def)
  then show "g \<in> set (sc_running s) \<and> (\<exists>w. sc_workers s (ws_ProbeId (g_spec g)) = Some w \<and> runs reg hash (ws_ProbeId (g_spec g)) w g)"
    using g(1) w(1) g'(2) by blast
next
  assume "g \<in> set (sc_running s) \<and> (\<exists>w. sc_workers s (ws_ProbeId (g_spec g)) = Some w \<and> runs reg hash (ws_ProbeId (g_spec g)) w g)"
  then show "g \<in> set (live s)" using assms by (auto simp: live_def ctx_done_def sched_inv_def runs_def)
qed

lemma live_distinct:
  assumes "sched_inv reg hash s" "\<not> sc_stopped s"
  shows "distinct (map (ws_ProbeId \<circ> g_spec) (live s))"
proof -
  have "distinct (live s)" using assms(1) by (simp add: live_def sched_inv_def distinct_map)
  moreover have "g = g'" if g: "g \<in> set (live s)" "g' \<in> set (live s)" "ws_ProbeId (g_spec g) = ws_ProbeId (g_spec g')" for g g'
    using g live_iff[OF assms] same_ctx[OF assms(1), of g g'] by (auto simp: runs_def)
  ultimately show ?thesis by (auto simp: distinct_map inj_on_def)
qed

lemma inv_stop: "sched_inv reg hash s \<Longrightarrow> sched_inv reg hash (stopScheduler s)"
  by (simp add: sched_inv_def stopScheduler_def)

lemma inv_returns:
  assumes "sched_inv reg hash s"
  shows "sched_inv reg hash (worker_returns ctx s)"
proof -
  have sub: "set (sc_running (worker_returns ctx s)) \<subseteq> set (sc_running s)" by (auto simp: worker_returns_def)
  have same: "sc_workers (worker_returns ctx s) = sc_workers s" "sc_next (worker_returns ctx s) = sc_next s"
    "sc_cancelled (worker_returns ctx s) = sc_cancelled s" "sc_stopped (worker_returns ctx s) = sc_stopped s"
    by (simp_all add: worker_returns_def)
  have stays: "g \<in> set (sc_running (worker_returns ctx s))" if "sc_workers s id1 = Some w" "g \<in> set (sc_running s)" "runs reg hash id1 w g" for id1 w g
    using assms that by (auto simp: worker_returns_def ctx_done_def sched_inv_def runs_def)
  have "distinct (map g_ctx (sc_running (worker_returns ctx s)))"
    using assms by (auto simp: worker_returns_def sched_inv_def distinct_map intro: inj_on_subset)
  then show ?thesis using assms sub stays unfolding sched_inv_def same by blast
qed

section \<open>Intervals\<close>

lemma prober_interval_pos: "0 < snd (prober_for reg spec)"
  by (simp add: prober_for_def misconfiguredInterval_def Let_def)

lemma worker_interval_pos:
  assumes "sched_inv reg hash s" "sc_workers s id1 = Some w"
  shows "0 < w_interval w"
proof -
  obtain g where "runs reg hash id1 w g" using inv_worker[OF assms] by metis
  then show ?thesis using prober_interval_pos[of reg "g_spec g"] by (metis runs_def snd_conv)
qed

text \<open>The first run of a worker is within its interval, and the modulus is never zero.\<close>

lemma splay_bounds:
  assumes "0 < interval" "interval < 2 ^ 63"
  shows "0 \<le> splayFor id1 interval" "splayFor id1 interval < interval"
proof -
  have "uint (word_of_int interval :: u64) = interval" using assms by (simp add: uint_word_of_int_eq take_bit_int_eq_self)
  then show "splayFor id1 interval < interval" using assms(1) by (simp add: splayFor_def uint_mod)
qed (simp add: splayFor_def)

text \<open>The fastest interval is that of a probe that can succeed, and no such probe is faster.\<close>

lemma fastest_fold:
  assumes "sched_inv reg hash s"
  shows "(FastestInterval order s = 0 \<longleftrightarrow> (\<forall>id1\<in>set order. \<forall>w. sc_workers s id1 = Some w \<longrightarrow> \<not> w_evidence w))
    \<and> (\<forall>id1\<in>set order. \<forall>w. sc_workers s id1 = Some w \<and> w_evidence w \<longrightarrow> FastestInterval order s \<le> w_interval w)
    \<and> (FastestInterval order s \<noteq> 0 \<longrightarrow> (\<exists>id1\<in>set order. \<exists>w. sc_workers s id1 = Some w \<and> w_evidence w \<and> w_interval w = FastestInterval order s))"
proof (induction order rule: rev_induct)
  case (snoc x order)
  let ?f = "FastestInterval order s"
  show ?case
  proof (cases "sc_workers s x")
    case None
    then show ?thesis using snoc by (simp add: FastestInterval_def)
  next
    case (Some w)
    have pos: "0 < w_interval w" by (rule worker_interval_pos[OF assms Some])
    have "FastestInterval (order @ [x]) s = (if w_evidence w \<and> (?f = 0 \<or> w_interval w < ?f) then w_interval w else ?f)"
      using Some by (auto simp: FastestInterval_def)
    then show ?thesis using snoc Some pos by (cases "w_evidence w \<and> (?f = 0 \<or> w_interval w < ?f)") auto
  qed
qed (simp add: FastestInterval_def)

end
