(* ===== verification/Agent_Runtime.thy ===== *)
theory Agent_Runtime
  imports Scheduler
begin

text \<open>
  How the agent process takes its configuration: the cache of \<open>internal/agent/confcache/confcache.go\<close>,
  the hash the uplink says hello with (\<open>streamOnce\<close>, \<open>SetCachedConfigHash\<close> of
  \<open>internal/agent/uplink/uplink.go\<close>), the wiring in \<open>cmdRun\<close> of \<open>cmd/polarbeam-agent/main.go\<close>, and the
  watchdog of \<open>internal/agent/uplink/watchdog.go\<close>.

  The state directory is a map from file names to contents. A write can fail after any number of
  bytes, a rename and a removal can fail, and the process can be killed at any point; only the
  directory survives that. \<open>marshal\<close> and \<open>unmarshal\<close> stand for the protobuf encoding of a snapshot,
  \<open>sha256\<close> for the checksum.
\<close>

section \<open>The config cache\<close>

record wire_snapshot =
  wn_ConfigHash :: string
  wn_Probes :: "wire_spec list"

type_synonym state_dir = "string \<rightharpoonup> byte list"

datatype cache_error = ReadFailed | CacheTruncated | ChecksumMismatch | UnmarshalFailed | NoConfigHash | MarshalFailed | WriteFailed | RenameFailed

definition cachePath :: "string \<Rightarrow> string" where
  "cachePath agentID = ''config-cache-'' @ agentID @ ''.pb''"

definition tmpPath :: "string \<Rightarrow> string" where
  "tmpPath agentID = cachePath agentID @ ''.tmp''"

record codec =
  cd_marshal :: "wire_snapshot \<Rightarrow> byte list option"
  cd_unmarshal :: "byte list \<Rightarrow> wire_snapshot option"
  cd_sha256 :: "byte list \<Rightarrow> byte list"

definition sha256_Size :: nat where "sha256_Size = 32"

definition loadCache :: "codec \<Rightarrow> bool \<Rightarrow> state_dir \<Rightarrow> string \<Rightarrow> cache_error + wire_snapshot option" where
  "loadCache cd read_ok dir agentID =
     (case dir (cachePath agentID) of
        None \<Rightarrow> Inr None
      | Some b \<Rightarrow>
          if \<not> read_ok then Inl ReadFailed
          else if length b < sha256_Size then Inl CacheTruncated
          else (let n = length b - sha256_Size; payload = take n b; sum = drop n b
                in if cd_sha256 cd payload \<noteq> sum then Inl ChecksumMismatch
                   else (case cd_unmarshal cd payload of
                           None \<Rightarrow> Inl UnmarshalFailed
                         | Some snap \<Rightarrow> if wn_ConfigHash snap = '''' then Inl NoConfigHash else Inr (Some snap))))"

text \<open>What can go wrong while storing: nothing written or only so many bytes, or the rename fails; and which foreign caches cannot be removed.\<close>

record store_faults =
  sf_write :: "nat option option"
  sf_rename :: bool
  sf_stuck :: "string \<Rightarrow> bool"

text \<open>The pattern \<open>config-cache-*.pb\<close>.\<close>

definition cache_name :: "string \<Rightarrow> bool" where
  "cache_name name \<longleftrightarrow> length name \<ge> 16 \<and> take 13 name = ''config-cache-'' \<and> drop (length name - 3) name = ''.pb''"

definition foreign_cache :: "string \<Rightarrow> string \<Rightarrow> bool" where
  "foreign_cache agentID name \<longleftrightarrow> cache_name name \<and> name \<noteq> cachePath agentID"

definition sweepForeign :: "(string \<Rightarrow> bool) \<Rightarrow> string \<Rightarrow> state_dir \<Rightarrow> state_dir" where
  "sweepForeign stuck agentID dir = (\<lambda>name. if foreign_cache agentID name \<and> \<not> stuck name then None else dir name)"

definition storeCache :: "codec \<Rightarrow> store_faults \<Rightarrow> string \<Rightarrow> wire_snapshot \<Rightarrow> state_dir \<Rightarrow> cache_error option \<times> state_dir" where
  "storeCache cd f agentID snap dir =
     (case cd_marshal cd snap of
        None \<Rightarrow> (Some MarshalFailed, dir)
      | Some payload \<Rightarrow>
          (let content = payload @ cd_sha256 cd payload
           in case sf_write f of
                Some None \<Rightarrow> (Some WriteFailed, dir)
              | Some (Some k) \<Rightarrow> (Some WriteFailed, dir(tmpPath agentID \<mapsto> take k content))
              | None \<Rightarrow>
                  (let dir = dir(tmpPath agentID \<mapsto> content)
                   in if sf_rename f then (Some RenameFailed, dir)
                      else (None, sweepForeign (sf_stuck f) agentID (dir(cachePath agentID \<mapsto> content, tmpPath agentID := None))))))"

definition clearCache :: "bool \<Rightarrow> string \<Rightarrow> state_dir \<Rightarrow> state_dir" where
  "clearCache remove_ok agentID dir = (if remove_ok then dir(cachePath agentID := None) else dir)"

section \<open>The process\<close>

record agent_env =
  ae_registry :: "int list"
  ae_hash :: "wire_spec \<Rightarrow> string"

text \<open>A running process: the scheduler and the hash of the uplink.\<close>

record process =
  ps_sched :: scheduler
  ps_configHash :: string

text \<open>\<open>sched.Apply\<close>; the orders its loops go through are those of the two maps at that time.\<close>

definition orders_ok :: "string list \<Rightarrow> string list \<Rightarrow> wire_snapshot \<Rightarrow> scheduler \<Rightarrow> bool" where
  "orders_ok order1 order2 snap s \<longleftrightarrow> distinct order1 \<and> distinct order2 \<and> set order1 = dom (sc_workers s) \<and> set order2 = dom (desired_of (wn_Probes snap))"

definition startAgent :: "agent_env \<Rightarrow> string list \<Rightarrow> cache_error + wire_snapshot option \<Rightarrow> process" where
  "startAgent env order loaded =
     (case loaded of
        Inr (Some cached) \<Rightarrow>
          \<lparr>ps_sched = applySnapshot (ae_registry env) (ae_hash env) [] order (wn_Probes cached) newScheduler, ps_configHash = wn_ConfigHash cached\<rparr>
      | _ \<Rightarrow> \<lparr>ps_sched = newScheduler, ps_configHash = ''''\<rparr>)"

text \<open>A snapshot from the stream: \<open>streamOnce\<close> notes its hash, then \<open>OnSnapshot\<close> runs.\<close>

definition takeSnapshot :: "agent_env \<Rightarrow> string list \<Rightarrow> string list \<Rightarrow> wire_snapshot \<Rightarrow> process \<Rightarrow> process" where
  "takeSnapshot env order1 order2 snap p =
     p\<lparr>ps_configHash := wn_ConfigHash snap,
       ps_sched := applySnapshot (ae_registry env) (ae_hash env) order1 order2 (wn_Probes snap) (ps_sched p)\<rparr>"

definition onSnapshot :: "codec \<Rightarrow> store_faults \<Rightarrow> bool \<Rightarrow> string \<Rightarrow> wire_snapshot \<Rightarrow> state_dir \<Rightarrow> state_dir" where
  "onSnapshot cd f clear_ok agentID snap dir =
     (if agentID = '''' then dir
      else case storeCache cd f agentID snap dir of
             (None, dir) \<Rightarrow> dir
           | (Some err, dir) \<Rightarrow> clearCache clear_ok agentID dir)"

text \<open>
  The agent over time. \<open>as_applied\<close> is the snapshot the running process applied last, \<open>as_received\<close> what
  each identity was ever sent. Re-enrolment changes the identity and keeps the directory. Killing the
  process while a snapshot is handled leaves the directory after any part of \<open>Store\<close>.
\<close>

record agent_sys =
  as_agentID :: string
  as_dir :: state_dir
  as_proc :: "process option"
  as_applied :: "wire_snapshot option"
  as_received :: "(string \<times> wire_snapshot) list"

inductive agent_step :: "codec \<Rightarrow> agent_env \<Rightarrow> agent_sys \<Rightarrow> agent_sys \<Rightarrow> bool" for cd env where
  a_start: "as_proc s = None \<Longrightarrow>
      loaded = (if as_agentID s = '''' then Inr None else loadCache cd read_ok (as_dir s) (as_agentID s)) \<Longrightarrow>
      (\<And>snap. loaded = Inr (Some snap) \<Longrightarrow> orders_ok [] order snap newScheduler) \<Longrightarrow>
      agent_step cd env s (s\<lparr>as_proc := Some (startAgent env order loaded),
        as_applied := (case loaded of Inr snap \<Rightarrow> snap | Inl e \<Rightarrow> None)\<rparr>)"
| a_snapshot: "as_proc s = Some p \<Longrightarrow> orders_ok order1 order2 snap (ps_sched p) \<Longrightarrow>
      agent_step cd env s (s\<lparr>as_proc := Some (takeSnapshot env order1 order2 snap p),
        as_dir := onSnapshot cd f clear_ok (as_agentID s) snap (as_dir s),
        as_applied := Some snap, as_received := (as_agentID s, snap) # as_received s\<rparr>)"
| a_returns: "as_proc s = Some p \<Longrightarrow> agent_step cd env s (s\<lparr>as_proc := Some (p\<lparr>ps_sched := worker_returns ctx (ps_sched p)\<rparr>)\<rparr>)"
| a_killed: "agent_step cd env s (s\<lparr>as_proc := None, as_applied := None\<rparr>)"
| a_killed_storing: "as_proc s = Some p \<Longrightarrow> as_agentID s \<noteq> '''' \<Longrightarrow>
      agent_step cd env s (s\<lparr>as_proc := None, as_applied := None, as_dir := snd (storeCache cd f (as_agentID s) snap (as_dir s)),
        as_received := (as_agentID s, snap) # as_received s\<rparr>)"
| a_enrolled: "as_proc s = None \<Longrightarrow> agent_step cd env s (s\<lparr>as_agentID := a\<rparr>)"

definition agent_start :: "string \<Rightarrow> agent_sys" where
  "agent_start agentID = \<lparr>as_agentID = agentID, as_dir = Map.empty, as_proc = None, as_applied = None, as_received = []\<rparr>"

section \<open>The watchdog\<close>

definition watchdogTick :: duration where "watchdogTick = 15 * second"

text \<open>What a turn sees: whether the context is done, the clock, the channel, the fastest interval and the last success (\<open>0\<close> if none).\<close>

record wd_tick =
  wd_done :: bool
  wd_now :: gtime
  wd_ready :: bool
  wd_fastest :: duration
  wd_lastOK :: gtime

datatype wd_end = WdDone | WdUnreachable duration duration

record wd_st =
  wd_lastReady :: gtime
  wd_heldBack :: bool

text \<open>One turn; the warning is given once per outage.\<close>

definition watchdog_turn :: "duration \<Rightarrow> wd_tick \<Rightarrow> wd_st \<Rightarrow> (wd_end + wd_st) \<times> bool" where
  "watchdog_turn limit t st =
     (if wd_done t then (Inl WdDone, False)
      else if wd_ready t then (Inr (st\<lparr>wd_lastReady := wd_now t, wd_heldBack := False\<rparr>), False)
      else (let since = wd_now t - wd_lastReady st; budget = max limit (2 * wd_fastest t)
            in if since < budget then (Inr st, False)
               else if wd_lastOK t \<noteq> 0 \<and> wd_now t - wd_lastOK t < budget
               then (Inr (st\<lparr>wd_heldBack := True\<rparr>), \<not> wd_heldBack st)
               else (Inl (WdUnreachable since budget), False)))"

text \<open>The loop over its turns: how it ended, if it has, and the warnings it gave.\<close>

fun watchdog_loop :: "duration \<Rightarrow> wd_tick list \<Rightarrow> wd_st \<Rightarrow> wd_end option \<times> nat" where
  "watchdog_loop limit [] st = (None, 0)"
| "watchdog_loop limit (t # ts) st =
     (case watchdog_turn limit t st of
        (Inl e, w) \<Rightarrow> (Some e, of_bool w)
      | (Inr st, w) \<Rightarrow> (let (e, n) = watchdog_loop limit ts st in (e, of_bool w + n)))"

definition Watchdog :: "duration \<Rightarrow> gtime \<Rightarrow> wd_tick list \<Rightarrow> wd_end option \<times> nat" where
  "Watchdog limit start ts =
     (if limit \<le> 0 then (Some WdDone, 0) else watchdog_loop limit ts \<lparr>wd_lastReady = start, wd_heldBack = False\<rparr>)"

end
