(* ===== verification/Agent_Correct.thy ===== *)
theory Agent_Correct
  imports Agent_Runtime
begin

text \<open>
  The properties of the agent process: it runs exactly the snapshot it was given, the hash it reports
  is that of what it runs, a restart resumes only what this identity was sent, and the watchdog gives
  up exactly when nothing works.
\<close>

section \<open>The scheduler follows the snapshot\<close>

definition matches :: "agent_env \<Rightarrow> wire_snapshot \<Rightarrow> scheduler \<Rightarrow> bool" where
  "matches env snap s \<longleftrightarrow>
     (\<forall>id1. case desired_of (wn_Probes snap) id1 of
        None \<Rightarrow> sc_workers s id1 = None
      | Some spec \<Rightarrow> \<exists>w. sc_workers s id1 = Some w \<and> w_specHash w = ae_hash env spec)"

definition sound_sched :: "agent_env \<Rightarrow> scheduler \<Rightarrow> bool" where
  "sound_sched env s \<longleftrightarrow> sched_inv (ae_registry env) (ae_hash env) s \<and> \<not> sc_stopped s"

lemma sound_new: "sound_sched env newScheduler"
  by (simp add: sound_sched_def sched_inv_new) (simp add: newScheduler_def)

lemma matches_apply:
  assumes "sound_sched env s" "orders_ok order1 order2 snap s"
  shows "sound_sched env (applySnapshot (ae_registry env) (ae_hash env) order1 order2 (wn_Probes snap) s)"
    and "matches env snap (applySnapshot (ae_registry env) (ae_hash env) order1 order2 (wn_Probes snap) s)"
proof -
  have o: "distinct order1" "distinct order2" "dom (sc_workers s) \<subseteq> set order1" "dom (desired_of (wn_Probes snap)) \<subseteq> set order2"
    using assms(2) by (auto simp: orders_ok_def)
  have s: "sched_inv (ae_registry env) (ae_hash env) s" "\<not> sc_stopped s" using assms(1) by (auto simp: sound_sched_def)
  note r = apply_reconciles[OF s o]
  show "sound_sched env (applySnapshot (ae_registry env) (ae_hash env) order1 order2 (wn_Probes snap) s)"
    using r(1,2) by (simp add: sound_sched_def)
  show "matches env snap (applySnapshot (ae_registry env) (ae_hash env) order1 order2 (wn_Probes snap) s)"
    using r(4,5) by (auto simp: matches_def split: option.split)
qed

lemma apply_running:
  "set (sc_running (applySnapshot reg hash order1 order2 specs s)) \<subseteq> set (sc_running s) \<union> {g. g_spec g \<in> set specs}"
proof (cases "sc_stopped s")
  case False
  have k: "sc_running (fst (foldl (keep_or_stop hash) (s, d) order)) = sc_running s \<and>
      (\<forall>i spec. snd (foldl (keep_or_stop hash) (s, d) order) i = Some spec \<longrightarrow> d i = Some spec)" for d order
  proof (induction order rule: rev_induct)
    case (snoc x order)
    then show ?case by (auto simp: keep_or_stop_def Let_def split: prod.splits option.splits if_splits)
  qed simp
  have st: "set (sc_running (foldl (start_desired reg hash d) s1 order)) \<subseteq> set (sc_running s1) \<union> {g. g_spec g \<in> set specs}"
    if "\<And>i spec. d i = Some spec \<Longrightarrow> spec \<in> set specs" for d s1 order
  proof (induction order rule: rev_induct)
    case (snoc x order)
    then show ?case using that by (fastforce simp: start_desired_def startWorkerLocked_def Let_def split: option.splits prod.splits)
  qed simp
  obtain s1 d1 where 1: "foldl (keep_or_stop hash) (s, desired_of specs) order1 = (s1, d1)" by fastforce
  have "d1 i = Some spec \<Longrightarrow> spec \<in> set specs" for i spec
    using k[of "desired_of specs" order1] 1 desired_Some[of specs i spec] by auto
  then show ?thesis using st[of d1 s1 order2] k[of "desired_of specs" order1] 1 False by (simp add: applySnapshot_def)
qed (simp add: applySnapshot_def)

text \<open>Unless two specs share a hash, the live goroutines run the desired specs, one each.\<close>

lemma live_specs:
  assumes "sound_sched env s" "matches env snap s" "inj_on (ae_hash env) S" "set (wn_Probes snap) \<subseteq> S" "g_spec ` set (sc_running s) \<subseteq> S"
  shows "g_spec ` set (live s) = ran (desired_of (wn_Probes snap))"
proof -
  note li = live_iff[OF conjunct1[OF assms(1)[unfolded sound_sched_def]] conjunct2[OF assms(1)[unfolded sound_sched_def]]]
  have eq: "g_spec g = spec" if "g \<in> set (sc_running s)" "desired_of (wn_Probes snap) i = Some spec" "ae_hash env (g_spec g) = ae_hash env spec" for g i spec
    using that assms(3,4,5) desired_Some[of "wn_Probes snap" i spec] by (auto simp: inj_on_def)
  have "g_spec g \<in> ran (desired_of (wn_Probes snap))" if g: "g \<in> set (live s)" for g
  proof -
    obtain w where w: "g \<in> set (sc_running s)" "sc_workers s (ws_ProbeId (g_spec g)) = Some w" "w_specHash w = ae_hash env (g_spec g)"
      using g[unfolded li] unfolding runs_def by blast
    then obtain spec where "desired_of (wn_Probes snap) (ws_ProbeId (g_spec g)) = Some spec" "w_specHash w = ae_hash env spec"
      using assms(2)[unfolded matches_def, rule_format, of "ws_ProbeId (g_spec g)"] by (cases "desired_of (wn_Probes snap) (ws_ProbeId (g_spec g))") auto
    then show ?thesis using eq[OF w(1)] w(3) by (metis ranI)
  qed
  moreover have "spec \<in> g_spec ` set (live s)" if d: "desired_of (wn_Probes snap) i = Some spec" for i spec
  proof -
    obtain w where w: "sc_workers s i = Some w" "w_specHash w = ae_hash env spec"
      using assms(2)[unfolded matches_def, rule_format, of i] d by auto
    obtain g where g: "g \<in> set (sc_running s)" "runs (ae_registry env) (ae_hash env) i w g"
      using inv_worker[OF conjunct1[OF assms(1)[unfolded sound_sched_def]] w(1)] by metis
    then have "g \<in> set (live s)" using li w(1) by (auto simp: runs_def)
    moreover have "g_spec g = spec" using eq[OF g(1) d] g(2) w(2) by (simp add: runs_def)
    ultimately show ?thesis by blast
  qed
  ultimately show ?thesis by (auto simp: ran_def)
qed

section \<open>The cache\<close>

definition codec_ok :: "codec \<Rightarrow> bool" where
  "codec_ok cd \<longleftrightarrow> (\<forall>snap p. cd_marshal cd snap = Some p \<longrightarrow> cd_unmarshal cd p = Some snap) \<and> (\<forall>b. length (cd_sha256 cd b) = sha256_Size)"

lemma cachePath_inj [simp]: "cachePath a = cachePath b \<longleftrightarrow> a = b"
  by (simp add: cachePath_def)

lemma tmp_not_cache [simp]: "tmpPath a \<noteq> cachePath b" "cachePath b \<noteq> tmpPath a"
proof -
  have "last (tmpPath a) = CHR ''p''" "last (cachePath b) = CHR ''b''" by (simp_all add: tmpPath_def cachePath_def)
  then show "tmpPath a \<noteq> cachePath b" "cachePath b \<noteq> tmpPath a" by auto
qed

text \<open>A cache file is always a whole one.\<close>

definition cache_good :: "codec \<Rightarrow> (string \<times> wire_snapshot) list \<Rightarrow> state_dir \<Rightarrow> bool" where
  "cache_good cd received dir \<longleftrightarrow>
     (\<forall>a b. dir (cachePath a) = Some b \<longrightarrow>
        (\<exists>snap p. cd_marshal cd snap = Some p \<and> b = p @ cd_sha256 cd p \<and> (a, snap) \<in> set received))"

lemma cache_good_store:
  "cache_good cd received dir \<Longrightarrow> cache_good cd ((a, snap) # received) (snd (storeCache cd f a snap dir))"
  by (force simp: cache_good_def storeCache_def sweepForeign_def Let_def split: option.split)

lemma cache_good_on:
  assumes "cache_good cd received dir"
  shows "cache_good cd ((a, snap) # received) (onSnapshot cd f clear_ok a snap dir)"
  using cache_good_store[OF assms, of a snap f] assms
  by (auto simp: onSnapshot_def clearCache_def cache_good_def split: prod.split option.split) blast+

lemma load_received:
  assumes "codec_ok cd" "cache_good cd received dir"
  shows "loadCache cd True dir a = Inr None \<or> (\<exists>snap. (a, snap) \<in> set received
    \<and> loadCache cd True dir a = (if wn_ConfigHash snap = '''' then Inl NoConfigHash else Inr (Some snap)))"
proof (cases "dir (cachePath a)")
  case (Some b)
  then obtain snap p where p: "cd_marshal cd snap = Some p" "b = p @ cd_sha256 cd p" "(a, snap) \<in> set received"
    using assms(2) unfolding cache_good_def by blast
  then have "loadCache cd True dir a = (if wn_ConfigHash snap = '''' then Inl NoConfigHash else Inr (Some snap))"
    using assms(1) Some by (simp add: loadCache_def codec_ok_def Let_def)
  then show ?thesis using p(3) by blast
qed (simp add: loadCache_def)

section \<open>The process over time\<close>

definition seen :: "agent_sys \<Rightarrow> wire_spec set" where
  "seen s = (\<Union>(a, snap)\<in>set (as_received s). set (wn_Probes snap))"

definition proc_ok :: "agent_env \<Rightarrow> agent_sys \<Rightarrow> process \<Rightarrow> bool" where
  "proc_ok env s p \<longleftrightarrow> sound_sched env (ps_sched p) \<and> g_spec ` set (sc_running (ps_sched p)) \<subseteq> seen s
     \<and> (case as_applied s of
          None \<Rightarrow> ps_configHash p = '''' \<and> sc_workers (ps_sched p) = Map.empty
        | Some snap \<Rightarrow> ps_configHash p = wn_ConfigHash snap \<and> matches env snap (ps_sched p) \<and> (as_agentID s, snap) \<in> set (as_received s))"

definition agent_inv :: "codec \<Rightarrow> agent_env \<Rightarrow> agent_sys \<Rightarrow> bool" where
  "agent_inv cd env s \<longleftrightarrow> cache_good cd (as_received s) (as_dir s) \<and> (\<forall>p. as_proc s = Some p \<longrightarrow> proc_ok env s p)"

lemma agent_inv_step:
  assumes "agent_step cd env s s'" "agent_inv cd env s" "codec_ok cd"
  shows "agent_inv cd env s'"
  using assms(1)
proof cases
  case (a_start loaded read_ok order)
  show ?thesis
  proof (cases "\<exists>snap. loaded = Inr (Some snap)")
    case True
    then obtain snap where l: "loaded = Inr (Some snap)" by blast
    have "loadCache cd True (as_dir s) (as_agentID s) = Inr (Some snap)"
      using a_start(3) l by (auto simp: loadCache_def split: if_splits option.splits)
    then have rec: "(as_agentID s, snap) \<in> set (as_received s)"
      using load_received[OF assms(3), of "as_received s" "as_dir s" "as_agentID s"] assms(2) by (auto simp: agent_inv_def split: if_splits)
    note m = matches_apply[OF sound_new a_start(4)[OF l], of env]
    have "g_spec ` set (sc_running (applySnapshot (ae_registry env) (ae_hash env) [] order (wn_Probes snap) newScheduler)) \<subseteq> seen s"
      using apply_running[of "ae_registry env" "ae_hash env" "[]" order "wn_Probes snap" newScheduler] rec by (force simp: seen_def newScheduler_def)
    moreover have "s' = s\<lparr>as_proc := Some \<lparr>ps_sched = applySnapshot (ae_registry env) (ae_hash env) [] order (wn_Probes snap) newScheduler,
        ps_configHash = wn_ConfigHash snap\<rparr>, as_applied := Some snap\<rparr>"
      using a_start(1) l by (simp add: startAgent_def)
    ultimately show ?thesis using assms(2) m rec by (simp add: agent_inv_def proc_ok_def seen_def)
  next
    case False
    then have "startAgent env order loaded = \<lparr>ps_sched = newScheduler, ps_configHash = ''''\<rparr>" "(case loaded of Inr snap \<Rightarrow> snap | Inl e \<Rightarrow> None) = None"
      by (auto simp: startAgent_def split: sum.split option.split)
    then show ?thesis using assms(2) a_start sound_new[of env] by (simp add: agent_inv_def proc_ok_def) (simp add: newScheduler_def)
  qed
next
  case (a_snapshot p order1 order2 snap f clear_ok)
  have p: "sound_sched env (ps_sched p)" "g_spec ` set (sc_running (ps_sched p)) \<subseteq> seen s" using assms(2) a_snapshot(2) by (auto simp: agent_inv_def proc_ok_def)
  note m = matches_apply[OF p(1) a_snapshot(3)]
  have "g_spec ` set (sc_running (applySnapshot (ae_registry env) (ae_hash env) order1 order2 (wn_Probes snap) (ps_sched p))) \<subseteq> seen s \<union> set (wn_Probes snap)"
    using apply_running[of "ae_registry env" "ae_hash env" order1 order2 "wn_Probes snap" "ps_sched p"] p(2) by force
  then show ?thesis using assms(2) a_snapshot m cache_good_on
    by (auto simp: agent_inv_def proc_ok_def takeSnapshot_def seen_def)
next
  case (a_returns p ctx)
  let ?r = "worker_returns ctx (ps_sched p)"
  have p: "proc_ok env s p" using assms(2) a_returns(2) by (simp add: agent_inv_def)
  have w: "sc_workers ?r = sc_workers (ps_sched p)" "sc_stopped ?r = sc_stopped (ps_sched p)" by (simp_all add: worker_returns_def)
  have "set (sc_running ?r) \<subseteq> set (sc_running (ps_sched p))" by (auto simp: worker_returns_def)
  then have "g_spec ` set (sc_running ?r) \<subseteq> seen s" using p unfolding proc_ok_def by blast
  moreover have "sound_sched env ?r" using p inv_returns w(2) by (auto simp: proc_ok_def sound_sched_def)
  moreover have "matches env snap ?r = matches env snap (ps_sched p)" for snap unfolding matches_def w(1) by (rule refl)
  ultimately have "proc_ok env s' (p\<lparr>ps_sched := ?r\<rparr>)" using p w(1) a_returns(1) by (simp add: proc_ok_def seen_def split: option.splits)
  then show ?thesis using assms(2) a_returns by (simp add: agent_inv_def)
next
  case (a_killed_storing p f snap)
  then show ?thesis using assms(2) cache_good_store by (simp add: agent_inv_def)
qed (use assms(2) in \<open>simp_all add: agent_inv_def\<close>)

lemma agent_inv_reachable:
  assumes "(agent_step cd env)\<^sup>*\<^sup>* (agent_start a) s" "codec_ok cd"
  shows "agent_inv cd env s"
  using assms(1)
proof (induction rule: rtranclp_induct)
  case base
  then show ?case by (simp add: agent_inv_def agent_start_def cache_good_def)
qed (rule agent_inv_step[OF _ _ assms(2)])

text \<open>
  C30: The agent runs what it reports. Whatever snapshots arrive, fail to be cached or are cut off by a
  kill, across restarts and re-enrolments: the hash a running agent says hello with is that of the
  snapshot its scheduler follows - one live worker for each of its probes and none else, unless two
  specs collide in their hash - and that snapshot was sent to this identity. What a restart would load
  for any identity is nothing, or a snapshot that was sent to exactly that identity; a file is never
  half a snapshot.
\<close>

theorem agent_config_coherent:
  assumes "(agent_step cd env)\<^sup>*\<^sup>* (agent_start a) s" "codec_ok cd" "inj_on (ae_hash env) (seen s)"
  shows "(\<forall>p. as_proc s = Some p \<longrightarrow>
      (case as_applied s of
         None \<Rightarrow> ps_configHash p = '''' \<and> live (ps_sched p) = []
       | Some snap \<Rightarrow> ps_configHash p = wn_ConfigHash snap \<and> (as_agentID s, snap) \<in> set (as_received s)
           \<and> g_spec ` set (live (ps_sched p)) = ran (desired_of (wn_Probes snap))
           \<and> distinct (map (ws_ProbeId \<circ> g_spec) (live (ps_sched p)))))
    \<and> (loadCache cd True (as_dir s) b = Inr None \<or> (\<exists>snap. (b, snap) \<in> set (as_received s)
         \<and> loadCache cd True (as_dir s) b = (if wn_ConfigHash snap = '''' then Inl NoConfigHash else Inr (Some snap))))"
proof -
  have inv: "agent_inv cd env s" by (rule agent_inv_reachable[OF assms(1,2)])
  have "case as_applied s of
         None \<Rightarrow> ps_configHash p = '''' \<and> live (ps_sched p) = []
       | Some snap \<Rightarrow> ps_configHash p = wn_ConfigHash snap \<and> (as_agentID s, snap) \<in> set (as_received s)
           \<and> g_spec ` set (live (ps_sched p)) = ran (desired_of (wn_Probes snap))
           \<and> distinct (map (ws_ProbeId \<circ> g_spec) (live (ps_sched p)))"
    if run: "as_proc s = Some p" for p
  proof -
    have p: "proc_ok env s p" using inv run by (simp add: agent_inv_def)
    then have s: "sched_inv (ae_registry env) (ae_hash env) (ps_sched p)" "\<not> sc_stopped (ps_sched p)" by (auto simp: proc_ok_def sound_sched_def)
    show ?thesis
    proof (cases "as_applied s")
      case None
      then have "g \<notin> set (live (ps_sched p))" for g using p live_iff[OF s] by (auto simp: proc_ok_def)
      then have "live (ps_sched p) = []" by (metis last_in_set)
      then show ?thesis using p None by (simp add: proc_ok_def)
    next
      case (Some snap)
      then have f: "matches env snap (ps_sched p)" "(as_agentID s, snap) \<in> set (as_received s)" "ps_configHash p = wn_ConfigHash snap"
        "g_spec ` set (sc_running (ps_sched p)) \<subseteq> seen s" "sound_sched env (ps_sched p)" using p by (auto simp: proc_ok_def)
      have "set (wn_Probes snap) \<subseteq> seen s" using f(2) by (auto simp: seen_def)
      then have "g_spec ` set (live (ps_sched p)) = ran (desired_of (wn_Probes snap))" by (rule live_specs[OF f(5,1) assms(3) _ f(4)])
      then show ?thesis using f(2,3) live_distinct[OF s] Some by simp
    qed
  qed
  moreover have "cache_good cd (as_received s) (as_dir s)" using inv by (simp add: agent_inv_def)
  ultimately show ?thesis using load_received[OF assms(2)] by blast
qed

section \<open>From the server's snapshot to running probes\<close>

definition wire_snapshot_of :: "(uuid \<Rightarrow> string) \<Rightarrow> config_snapshot \<Rightarrow> wire_snapshot" where
  "wire_snapshot_of uuid_str snap = \<lparr>wn_ConfigHash = c_ConfigHash snap, wn_Probes = map (wire_of uuid_str) (c_Probes snap)\<rparr>"

lemma built_distinct:
  assumes "BuildSnapshot new_sha1 uuid_str marshal sha256 inp = Inr snap"
  shows "distinct (map s_ProbeId (c_Probes snap))"
  using assms by (auto simp: BuildSnapshot_def Let_def adjacent_dup_None split: option.splits)

lemma desired_all:
  assumes "distinct (map ws_ProbeId specs)" "'''' \<notin> ws_ProbeId ` set specs"
  shows "ran (desired_of specs) = set specs"
proof
  show "ran (desired_of specs) \<subseteq> set specs" using desired_Some by (fastforce simp: ran_def)
  show "set specs \<subseteq> ran (desired_of specs)" using desired_distinct[OF assms(1)] assms(2) by (force simp: ran_def)
qed

text \<open>A run: the agent starts with an empty directory, takes a snapshot, is killed and starts again.\<close>

definition demo_wire_spec :: wire_spec where
  "demo_wire_spec = \<lparr>ws_ProbeId = ''p'', ws_Type = 1, ws_Kind = External, ws_TargetId = ''t'', ws_Address = ''192.0.2.1'', ws_Port = 0, ws_Url = '''',
     ws_Interval = 60 * second, ws_Timeout = 5 * second, ws_TrainCount = 0, ws_TrainSpacing = None, ws_Params = []\<rparr>"

definition demo_snap :: wire_snapshot where
  "demo_snap = \<lparr>wn_ConfigHash = ''h'', wn_Probes = [demo_wire_spec]\<rparr>"

definition demo_codec :: codec where
  "demo_codec = \<lparr>cd_marshal = (\<lambda>s. if s = demo_snap then Some [1] else None), cd_unmarshal = (\<lambda>b. if b = [1] then Some demo_snap else None),
     cd_sha256 = (\<lambda>b. replicate 32 0)\<rparr>"

definition demo_agent_env :: agent_env where
  "demo_agent_env = \<lparr>ae_registry = DefaultRegistry, ae_hash = specHash (\<lambda>s. Some []) (\<lambda>s. '''')\<rparr>"

lemma demo_codec_ok: "codec_ok demo_codec"
  by (auto simp: codec_ok_def demo_codec_def sha256_Size_def split: if_splits)

lemma demo_orders: "orders_ok [] [''p''] demo_snap newScheduler"
  by (auto simp: orders_ok_def newScheduler_def demo_snap_def dom_desired) (simp_all add: demo_wire_spec_def)

lemma demo_first_start:
  "agent_step cd env (agent_start ''a'') ((agent_start ''a'')\<lparr>as_proc := Some \<lparr>ps_sched = newScheduler, ps_configHash = ''''\<rparr>\<rparr>)"
  using a_start[of "agent_start ''a''" "Inr None" cd True "[]" env]
  by (simp add: agent_start_def loadCache_def startAgent_def)

lemma demo_agent_run:
  "\<exists>s p. (agent_step demo_codec demo_agent_env)\<^sup>*\<^sup>* (agent_start ''a'') s \<and> as_proc s = Some p \<and> as_applied s = Some demo_snap
     \<and> seen s = {demo_wire_spec} \<and> loadCache demo_codec True (as_dir s) ''a'' = Inr (Some demo_snap)"
proof -
  let ?p1 = "\<lparr>ps_sched = newScheduler, ps_configHash = ''''\<rparr>"
  let ?s1 = "(agent_start ''a'')\<lparr>as_proc := Some ?p1\<rparr>"
  let ?f = "\<lparr>sf_write = None, sf_rename = False, sf_stuck = (\<lambda>_. False)\<rparr>"
  let ?dir = "onSnapshot demo_codec ?f True ''a'' demo_snap Map.empty"
  let ?s2 = "?s1\<lparr>as_proc := Some (takeSnapshot demo_agent_env [] [''p''] demo_snap ?p1), as_dir := ?dir,
      as_applied := Some demo_snap, as_received := [(''a'', demo_snap)]\<rparr>"
  let ?s3 = "?s2\<lparr>as_proc := None, as_applied := None\<rparr>"
  let ?s4 = "?s3\<lparr>as_proc := Some (startAgent demo_agent_env [''p''] (Inr (Some demo_snap))), as_applied := Some demo_snap\<rparr>"
  have l: "loadCache demo_codec True ?dir ''a'' = Inr (Some demo_snap)"
    by (simp add: onSnapshot_def storeCache_def demo_codec_def sweepForeign_def foreign_cache_def loadCache_def sha256_Size_def Let_def)
      (simp add: demo_snap_def)
  have "agent_step demo_codec demo_agent_env (agent_start ''a'') ?s1" by (rule demo_first_start)
  moreover have "agent_step demo_codec demo_agent_env ?s1 ?s2"
    using a_snapshot[of ?s1 ?p1 "[]" "[''p'']" demo_snap demo_codec demo_agent_env ?f True] demo_orders by (simp add: agent_start_def)
  moreover have "agent_step demo_codec demo_agent_env ?s2 ?s3" by (rule a_killed)
  moreover have "agent_step demo_codec demo_agent_env ?s3 ?s4"
    using a_start[of ?s3 "Inr (Some demo_snap)" demo_codec True "[''p'']" demo_agent_env] l demo_orders by (simp add: agent_start_def)
  ultimately have "(agent_step demo_codec demo_agent_env)\<^sup>*\<^sup>* (agent_start ''a'') ?s4"
    by (meson converse_rtranclp_into_rtranclp rtranclp.rtrancl_refl)
  moreover have "seen ?s4 = {demo_wire_spec}" by (simp add: seen_def demo_snap_def)
  ultimately show ?thesis using l by (intro exI[of _ ?s4]) (simp add: agent_start_def)
qed

theorem agent_config_coherent_witness:
  "\<exists>(s :: agent_sys) (p :: process). as_proc s = Some p \<and> ps_configHash p = ''h'' \<and> g_spec ` set (live (ps_sched p)) = {demo_wire_spec}
     \<and> loadCache demo_codec True (as_dir s) ''a'' = Inr (Some demo_snap)"
proof -
  obtain s p where s: "(agent_step demo_codec demo_agent_env)\<^sup>*\<^sup>* (agent_start ''a'') s" "as_proc s = Some p" "as_applied s = Some demo_snap"
    "seen s = {demo_wire_spec}" "loadCache demo_codec True (as_dir s) ''a'' = Inr (Some demo_snap)" using demo_agent_run by blast
  have "inj_on (ae_hash demo_agent_env) (seen s)" using s(4) by simp
  note c = agent_config_coherent[OF s(1) demo_codec_ok this, of "''a''"]
  have "ran (desired_of (wn_Probes demo_snap)) = {demo_wire_spec}"
    using desired_all[of "wn_Probes demo_snap"] by (simp add: demo_snap_def) (simp add: demo_wire_spec_def)
  then have "ps_configHash p = ''h'' \<and> g_spec ` set (live (ps_sched p)) = {demo_wire_spec}"
    using c s(2,3) by (simp add: demo_snap_def)
  then show ?thesis using s(2,5) by (intro exI[of _ s] exI[of _ p]) simp
qed

text \<open>
  C31: An agent runs exactly the probes the server assigned, without disturbing the rest. When a running
  agent, in whatever state its history left it, takes a snapshot the server built, then afterwards one
  live worker runs each probe of the snapshot as specified and no other worker is live; a worker whose
  spec is still in the snapshot is the same worker as before, so its cadence is kept.
\<close>

theorem snapshot_applied_exactly:
  assumes reach: "(agent_step cd env)\<^sup>*\<^sup>* (agent_start a) s" "codec_ok cd" "as_proc s = Some p"
    and built: "BuildSnapshot new_sha1 uuid_str marshal sha256 inp = Inr snap"
    and names: "inj_on uuid_str (s_ProbeId ` set (c_Probes snap))" "\<And>u. uuid_str u \<noteq> ''''"
    and hash: "inj_on (ae_hash env) (seen s \<union> wire_of uuid_str ` set (c_Probes snap))"
    and orders: "orders_ok order1 order2 (wire_snapshot_of uuid_str snap) (ps_sched p)"
  shows "g_spec ` set (live (ps_sched (takeSnapshot env order1 order2 (wire_snapshot_of uuid_str snap) p))) = wire_of uuid_str ` set (c_Probes snap)
    \<and> length (live (ps_sched (takeSnapshot env order1 order2 (wire_snapshot_of uuid_str snap) p))) = length (c_Probes snap)
    \<and> (\<forall>g\<in>set (live (ps_sched p)). g_spec g \<in> wire_of uuid_str ` set (c_Probes snap) \<longrightarrow>
         g \<in> set (live (ps_sched (takeSnapshot env order1 order2 (wire_snapshot_of uuid_str snap) p))))"
proof -
  let ?w = "wire_snapshot_of uuid_str snap" and ?S = "seen s \<union> wire_of uuid_str ` set (c_Probes snap)"
  let ?s' = "applySnapshot (ae_registry env) (ae_hash env) order1 order2 (wn_Probes ?w) (ps_sched p)"
  have p: "proc_ok env s p" using agent_inv_reachable[OF reach(1,2)] reach(3) by (simp add: agent_inv_def)
  have s: "sound_sched env (ps_sched p)" "g_spec ` set (sc_running (ps_sched p)) \<subseteq> seen s" using p by (auto simp: proc_ok_def)
  have s0: "sched_inv (ae_registry env) (ae_hash env) (ps_sched p)" "\<not> sc_stopped (ps_sched p)" using s(1) by (auto simp: sound_sched_def)
  note m = matches_apply[OF s(1) orders]
  have s1: "sched_inv (ae_registry env) (ae_hash env) ?s'" "\<not> sc_stopped ?s'" using m(1) by (auto simp: sound_sched_def)
  have take: "ps_sched (takeSnapshot env order1 order2 ?w p) = ?s'" by (simp add: takeSnapshot_def)
  have "map (ws_ProbeId \<circ> wire_of uuid_str) (c_Probes snap) = map uuid_str (map s_ProbeId (c_Probes snap))" by (simp add: wire_of_def)
  then have ids: "distinct (map ws_ProbeId (wn_Probes ?w))"
    using built_distinct[OF built] names(1) by (simp add: wire_snapshot_of_def distinct_map) (simp add: comp_def wire_of_def inj_on_def)
  have nonempty: "ws_ProbeId (wire_of uuid_str x) \<noteq> ''''" for x using names(2) by (simp add: wire_of_def)
  have probes: "set (wn_Probes ?w) = wire_of uuid_str ` set (c_Probes snap)" by (simp add: wire_snapshot_of_def)
  have "'''' \<notin> ws_ProbeId ` set (wn_Probes ?w)" using nonempty by (metis imageE probes)
  then have want: "ran (desired_of (wn_Probes ?w)) = wire_of uuid_str ` set (c_Probes snap)"
    using desired_all[OF ids] probes by simp
  have sub: "set (wn_Probes ?w) \<subseteq> ?S" by (auto simp: wire_snapshot_of_def)
  have "set (sc_running ?s') \<subseteq> set (sc_running (ps_sched p)) \<union> {g. g_spec g \<in> set (wn_Probes ?w)}" by (rule apply_running)
  then have "g_spec ` set (sc_running ?s') \<subseteq> ?S" using s(2) sub by blast
  then have live: "g_spec ` set (live ?s') = wire_of uuid_str ` set (c_Probes snap)" using live_specs[OF m hash sub] want by simp
  have "distinct (map ws_ProbeId (map g_spec (live ?s')))" using live_distinct[OF s1] by (simp only: map_map)
  then have "distinct (map g_spec (live ?s'))" "distinct (wn_Probes ?w)" using ids distinct_map by blast+
  then have "length (map g_spec (live ?s')) = length (wn_Probes ?w)"
    using live probes distinct_card[of "map g_spec (live ?s')"] distinct_card[of "wn_Probes ?w"] by (simp only: set_map)
  then have len: "length (live ?s') = length (c_Probes snap)" by (simp add: wire_snapshot_of_def)
  have "g \<in> set (live ?s')" if g: "g \<in> set (live (ps_sched p))" "g_spec g \<in> wire_of uuid_str ` set (c_Probes snap)" for g
  proof -
    obtain w where w: "g \<in> set (sc_running (ps_sched p))" "sc_workers (ps_sched p) (ws_ProbeId (g_spec g)) = Some w"
      "runs (ae_registry env) (ae_hash env) (ws_ProbeId (g_spec g)) w g" using g(1)[unfolded live_iff[OF s0]] by blast
    have "desired_of (wn_Probes ?w) (ws_ProbeId (g_spec g)) = Some (g_spec g)"
      using g(2) nonempty by (intro desired_distinct[OF ids]) (auto simp: probes)
    then have k: "kept (ae_hash env) (ps_sched p) (desired_of (wn_Probes ?w)) (ws_ProbeId (g_spec g))"
      using w(2,3) by (simp add: kept_def runs_def)
    have o: "distinct order1" "distinct order2" "dom (sc_workers (ps_sched p)) \<subseteq> set order1" "dom (desired_of (wn_Probes ?w)) \<subseteq> set order2"
      using orders by (auto simp: orders_ok_def)
    have "sc_workers ?s' (ws_ProbeId (g_spec g)) = Some w" "g \<in> set (sc_running ?s')"
      using apply_reconciles(6)[OF s0 o k] apply_reconciles(3)[OF s0 o] w(1,2) by auto
    then show ?thesis unfolding live_iff[OF s1] using w(3) by blast
  qed
  then show ?thesis unfolding take using live len by blast
qed

definition demo_direct_inputs :: agent_inputs where
  "demo_direct_inputs = \<lparr>in_AgentID = 1, in_SiteID = 2, in_NetworkID = 3,
     in_Direct = [\<lparr>d_ID = 5, d_Settings = \<lparr>ps_ProbeType = 1, ps_Interval = 10, ps_Timeout = 5, ps_TrainCount = 0, ps_TrainSpacing = 0, ps_Params = []\<rparr>,
       d_TargetID = 4, d_Kind = ''external'', d_Address = ''h'', d_Port = 0, d_URL = '''', d_DstSiteID = None\<rparr>],
     in_Mesh = [], in_Peers = []\<rparr>"

theorem snapshot_applied_exactly_witness:
  "\<exists>(p' :: process) snap. BuildSnapshot (\<lambda>u n. u) (\<lambda>u. ''u'') (\<lambda>s. Some []) (\<lambda>b. ''h'') demo_direct_inputs = Inr snap
     \<and> g_spec ` set (live (ps_sched p')) = wire_of (\<lambda>u. ''u'') ` set (c_Probes snap) \<and> length (live (ps_sched p')) = 1"
proof -
  let ?p = "\<lparr>ps_sched = newScheduler, ps_configHash = ''''\<rparr>"
  let ?s = "(agent_start ''a'')\<lparr>as_proc := Some ?p\<rparr>"
  obtain snap x where snap: "BuildSnapshot (\<lambda>u n. u) (\<lambda>u. ''u'') (\<lambda>s. Some []) (\<lambda>b. ''h'') demo_direct_inputs = Inr snap" "c_Probes snap = [x]"
    by (simp add: BuildSnapshot_def expand_def mesh_pairs_def demo_direct_inputs_def Let_def)
  have reach: "(agent_step demo_codec demo_agent_env)\<^sup>*\<^sup>* (agent_start ''a'') ?s" using demo_first_start by blast
  have "seen ?s = {}" by (simp add: seen_def agent_start_def)
  then have inj: "inj_on (ae_hash demo_agent_env) (seen ?s \<union> wire_of (\<lambda>u. ''u'') ` set (c_Probes snap))" using snap(2) by simp
  have orders: "orders_ok [] [''u''] (wire_snapshot_of (\<lambda>u. ''u'') snap) (ps_sched ?p)"
    using snap(2) by (auto simp: orders_ok_def newScheduler_def wire_snapshot_of_def dom_desired) (simp_all add: wire_of_def)
  let ?p' = "takeSnapshot demo_agent_env [] [''u''] (wire_snapshot_of (\<lambda>u. ''u'') snap) ?p"
  have "g_spec ` set (live (ps_sched ?p')) = wire_of (\<lambda>u. ''u'') ` set (c_Probes snap)
    \<and> length (live (ps_sched ?p')) = length (c_Probes snap)"
    using snapshot_applied_exactly[OF reach demo_codec_ok _ snap(1) _ _ inj orders] snap(2) by simp
  then show ?thesis using snap by (intro exI[of _ ?p'] exI[of _ snap]) simp
qed

section \<open>The watchdog\<close>

text \<open>A turn at which nothing has worked for the budget: no turn saw the channel ready, and no probe succeeded.\<close>

definition nothing_works :: "duration \<Rightarrow> gtime \<Rightarrow> wd_tick list \<Rightarrow> nat \<Rightarrow> bool" where
  "nothing_works limit start ts i \<longleftrightarrow>
     (let t = ts ! i; budget = max limit (2 * wd_fastest t)
      in \<not> wd_ready t \<and> start + budget \<le> wd_now t
       \<and> (\<forall>j<i. wd_ready (ts ! j) \<longrightarrow> wd_now (ts ! j) + budget \<le> wd_now t)
       \<and> (wd_lastOK t = 0 \<or> wd_lastOK t + budget \<le> wd_now t))"

lemma nothing_works_Suc:
  assumes "start \<le> wd_now t"
  shows "nothing_works limit start (t # ts) (Suc i) \<longleftrightarrow> nothing_works limit (if wd_ready t then wd_now t else start) ts i"
  using assms by (auto simp: nothing_works_def Let_def All_less_Suc2)

lemma watchdog_loop_exact:
  assumes "sorted (wd_lastReady st # map wd_now ts)"
  shows "(\<exists>a b. fst (watchdog_loop limit ts st) = Some (WdUnreachable a b)) \<longleftrightarrow>
    (\<exists>i<length ts. nothing_works limit (wd_lastReady st) ts i \<and> (\<forall>j\<le>i. \<not> wd_done (ts ! j)))"
  using assms
proof (induction ts arbitrary: st)
  case (Cons t ts)
  let ?r = "if wd_ready t then wd_now t else wd_lastReady st"
  have here: "(\<exists>a b. fst (watchdog_turn limit t st) = Inl (WdUnreachable a b)) \<longleftrightarrow> nothing_works limit (wd_lastReady st) (t # ts) 0 \<and> \<not> wd_done t"
    by (auto simp: watchdog_turn_def nothing_works_def Let_def)
  have on: "wd_lastReady st' = ?r \<and> \<not> wd_done t" if "fst (watchdog_turn limit t st) = Inr st'" for st'
    using that by (auto simp: watchdog_turn_def Let_def split: if_splits)
  have split: "(\<exists>i<length (t # ts). nothing_works limit (wd_lastReady st) (t # ts) i \<and> (\<forall>j\<le>i. \<not> wd_done ((t # ts) ! j))) \<longleftrightarrow>
      \<not> wd_done t \<and> (nothing_works limit (wd_lastReady st) (t # ts) 0 \<or> (\<exists>i<length ts. nothing_works limit ?r ts i \<and> (\<forall>j\<le>i. \<not> wd_done (ts ! j))))"
    using Cons.prems nothing_works_Suc[of "wd_lastReady st" t limit ts]
    by (simp add: Ex_less_Suc2 less_Suc_eq_le[symmetric] All_less_Suc2) blast
  show ?case
  proof (cases "fst (watchdog_turn limit t st)")
    case (Inl e)
    have "\<not> (\<exists>i<length ts. nothing_works limit ?r ts i)" if "e = WdDone" "\<not> wd_done t"
      using Inl that by (auto simp: watchdog_turn_def Let_def split: if_splits)
    then show ?thesis using Inl here unfolding split
      by (cases e) (auto simp: split_beta split: sum.splits prod.splits)
  next
    case (Inr st')
    have "sorted (wd_lastReady st' # map wd_now ts)" using on[OF Inr] Cons.prems by auto
    note ih = Cons.IH[OF this]
    have "\<not> nothing_works limit (wd_lastReady st) (t # ts) 0" using here Inr on[OF Inr] by auto
    then show ?thesis using ih Inr on[OF Inr] unfolding split by (simp add: split_beta split: prod.splits)
  qed
qed simp

text \<open>
  C32: The watchdog restarts the agent exactly when nothing works. Over any run of its ticker, with a
  clock that does not run backwards, the watchdog of a positive limit exits with the unreachable error if
  and only if, at some tick before shutdown, neither the channel has been ready (now, at an earlier
  tick, or at the start) nor a probe succeeded within the budget: the limit, or twice the interval of
  the fastest probe when that is longer.
\<close>

theorem watchdog_exits_exactly:
  assumes "0 < limit" "sorted (start # map wd_now ts)"
  shows "(\<exists>a b. fst (Watchdog limit start ts) = Some (WdUnreachable a b)) \<longleftrightarrow>
    (\<exists>i<length ts. nothing_works limit start ts i \<and> (\<forall>j\<le>i. \<not> wd_done (ts ! j)))"
  using assms watchdog_loop_exact[of "\<lparr>wd_lastReady = start, wd_heldBack = False\<rparr>" ts limit] by (simp add: Watchdog_def)

definition demo_ticks :: "gtime \<Rightarrow> wd_tick list" where
  "demo_ticks ok = [\<lparr>wd_done = False, wd_now = 15, wd_ready = True, wd_fastest = 10, wd_lastOK = 0\<rparr>,
     \<lparr>wd_done = False, wd_now = 100, wd_ready = False, wd_fastest = 10, wd_lastOK = ok\<rparr>]"

theorem watchdog_exits_exactly_witness:
  "(\<exists>a b. fst (Watchdog 60 0 (demo_ticks 20)) = Some (WdUnreachable a b)) \<and> \<not> (\<exists>a b. fst (Watchdog 60 0 (demo_ticks 90)) = Some (WdUnreachable a b))"
  using watchdog_exits_exactly[of 60 0 "demo_ticks 20"] watchdog_exits_exactly[of 60 0 "demo_ticks 90"]
  by (simp add: demo_ticks_def nothing_works_def Ex_less_Suc2 less_Suc_eq_le[symmetric] All_less_Suc2)

end
