(* ===== verification/Accounts.thy ===== *)
theory Accounts
  imports Go_Strings
begin

text \<open>
  Dashboard accounts and their sessions in the store (\<open>internal/server/store/users.go\<close>, \<open>roles.go\<close>,
  \<open>oidc.go\<close>): roles and network scopes, users, passwords, sessions and the single sign-on settings,
  each operation as it acts on the committed tables when it runs alone; theory \<open>Accounts_Tx\<close>
  interleaves them.

  Identifiers the database generates and its clock \<open>now()\<close> are arguments; \<open>uuid.Nil\<close> is \<open>0\<close>, which
  \<open>gen_random_uuid\<close> never returns. A failing statement aborts its transaction and changes nothing, so
  it has no branch of its own here. Messages of errors are constructors with the values they print.
\<close>

section \<open>Roles\<close>

definition RoleAdmin :: string where "RoleAdmin = ''admin''"
definition RoleViewer :: string where "RoleViewer = ''viewer''"
definition RoleNetworkAdmin :: string where "RoleNetworkAdmin = ''network_admin''"
definition RoleNetworkViewer :: string where "RoleNetworkViewer = ''network_viewer''"

lemmas role_names = RoleAdmin_def RoleViewer_def RoleNetworkAdmin_def RoleNetworkViewer_def

definition Roles :: "string list" where
  "Roles = [RoleAdmin, RoleViewer, RoleNetworkAdmin, RoleNetworkViewer]"

definition ValidRole :: "string \<Rightarrow> bool" where
  "ValidRole role \<longleftrightarrow> role \<in> set Roles"

definition RoleIsNetworkScoped :: "string \<Rightarrow> bool" where
  "RoleIsNetworkScoped role \<longleftrightarrow> role = RoleNetworkAdmin \<or> role = RoleNetworkViewer"

section \<open>Tables\<close>

text \<open>\<open>us_oidc\<close> is the pair of issuer and subject, which the schema keeps null or not null together.\<close>

record user_row =
  us_id :: uuid
  us_username :: string
  us_hash :: "string option"
  us_role :: string
  us_disabled :: bool
  us_source :: string
  us_oidc :: "(string \<times> string) option"
  us_created :: gtime

record session_row =
  se_id :: uuid
  se_token :: "byte list"
  se_user :: uuid
  se_csrf :: string
  se_expires :: gtime
  se_lastUsed :: gtime

record OIDCRoleRule =
  ru_Value :: string
  ru_Role :: string
  ru_Networks :: "string list"

record OIDCSettings =
  os_Enabled :: bool
  os_Issuer :: string
  os_ClientID :: string
  os_ClientSecret :: string
  os_RedirectURL :: string
  os_Scopes :: "string list"
  os_UsernameClaim :: string
  os_RoleClaim :: string
  os_AdminValues :: "string list"
  os_RoleRules :: "OIDCRoleRule list"
  os_UnmatchedRole :: string
  os_CAPEM :: string
  os_UpdatedAt :: gtime
  os_UpdatedBy :: string

record login_event =
  le_user :: uuid
  le_identity :: string
  le_username :: string
  le_role :: string
  le_source :: string
  le_at :: gtime

text \<open>\<open>ac_scope\<close> is \<open>user_networks\<close>; \<open>ac_activity\<close> is keyed by user and UTC day.\<close>

record accounts =
  ac_users :: "user_row list"
  ac_sessions :: "session_row list"
  ac_scope :: "(uuid \<times> uuid) list"
  ac_networks :: "(uuid \<times> string) list"
  ac_oidc :: OIDCSettings
  ac_logins :: "login_event list"
  ac_activity :: "uuid \<times> int \<rightharpoonup> string \<times> gtime"

datatype acct_error =
    RoleInvalid string | RoleNeedsNetwork string | RoleIsGlobal string | NetworksRequired
  | UserExists string | UserMissing uuid | NetworkMissing string | NetworkGone
  | RoleHasNoScope string | ScopeFromProvider | FederatedAccount
  | LastAdminDisable | LastAdminDelete | PasswordChangedMeanwhile
  | ErrPasswordChanged | ErrProviderChanged | ErrOIDCPolicyChanged | ErrConcurrentProviderChange
  | EmptyIdentity | ScopeMismatch | UsernameTaken | StatementError

text \<open>The sentinel an error matches with \<open>errors.Is\<close>, as far as the HTTP layer asks.\<close>

datatype error_class = ClassInvalid | ClassNotFound | ClassConflict | ClassOther

fun class_of :: "acct_error \<Rightarrow> error_class" where
  "class_of (RoleInvalid r) = ClassInvalid"
| "class_of (RoleNeedsNetwork r) = ClassInvalid"
| "class_of (RoleIsGlobal r) = ClassInvalid"
| "class_of NetworksRequired = ClassInvalid"
| "class_of (UserExists n) = ClassConflict"
| "class_of (UserMissing i) = ClassNotFound"
| "class_of (NetworkMissing n) = ClassNotFound"
| "class_of NetworkGone = ClassNotFound"
| "class_of (RoleHasNoScope r) = ClassConflict"
| "class_of ScopeFromProvider = ClassConflict"
| "class_of FederatedAccount = ClassConflict"
| "class_of LastAdminDisable = ClassConflict"
| "class_of LastAdminDelete = ClassConflict"
| "class_of PasswordChangedMeanwhile = ClassConflict"
| "class_of _ = ClassOther"

section \<open>Reading users\<close>

record UserInfo =
  ui_ID :: uuid
  ui_Username :: string
  ui_PasswordHash :: string
  ui_Role :: string
  ui_Disabled :: bool
  ui_CreatedAt :: gtime
  ui_AuthSource :: string
  ui_Networks :: "string list option"

definition user_at :: "accounts \<Rightarrow> uuid \<Rightarrow> user_row option" where
  "user_at db i = find (\<lambda>u. us_id u = i) (ac_users db)"

text \<open>The networks of a user in the order of their names: \<open>array_agg(... ORDER BY n.name)\<close>. \<open>ac_networks\<close> lists the table in that order.\<close>

definition userNetworks :: "accounts \<Rightarrow> uuid \<Rightarrow> (uuid \<times> string) list" where
  "userNetworks db i = filter (\<lambda>n. (i, fst n) \<in> set (ac_scope db)) (ac_networks db)"

definition userNetworkNames :: "accounts \<Rightarrow> uuid \<Rightarrow> string list" where
  "userNetworkNames db i = map snd (userNetworks db i)"

text \<open>\<open>None\<close> is the nil slice, which means unfiltered.\<close>

definition store_scopeNames :: "string \<Rightarrow> string list \<Rightarrow> string list option" where
  "store_scopeNames role names = (if \<not> RoleIsNetworkScoped role then None else Some names)"

definition info_of :: "accounts \<Rightarrow> user_row \<Rightarrow> UserInfo" where
  "info_of db u =
     \<lparr>ui_ID = us_id u, ui_Username = us_username u, ui_PasswordHash = (case us_hash u of None \<Rightarrow> '''' | Some h \<Rightarrow> h),
      ui_Role = us_role u, ui_Disabled = us_disabled u, ui_CreatedAt = us_created u, ui_AuthSource = us_source u,
      ui_Networks = store_scopeNames (us_role u) (userNetworkNames db (us_id u))\<rparr>"

definition GetUserByUsername :: "accounts \<Rightarrow> string \<Rightarrow> UserInfo option" where
  "GetUserByUsername db username = map_option (info_of db) (find (\<lambda>u. us_username u = username) (ac_users db))"

definition GetUserByID :: "accounts \<Rightarrow> uuid \<Rightarrow> UserInfo option" where
  "GetUserByID db i = map_option (info_of db) (user_at db i)"

definition NetworkIDByName :: "accounts \<Rightarrow> string \<Rightarrow> acct_error + uuid" where
  "NetworkIDByName db name =
     (case find (\<lambda>n. snd n = name) (ac_networks db) of None \<Rightarrow> Inl (NetworkMissing name) | Some n \<Rightarrow> Inr (fst n))"

section \<open>Sessions\<close>

record NetworkRef =
  nr_ID :: uuid
  nr_Name :: string

record SessionInfo =
  si_ID :: uuid
  si_UserID :: uuid
  si_Username :: string
  si_Role :: string
  si_AuthSource :: string
  si_CSRFToken :: string
  si_ExpiresAt :: gtime
  si_LastUsedAt :: gtime
  si_Networks :: "NetworkRef list option"

definition session_info :: "accounts \<Rightarrow> session_row \<Rightarrow> user_row \<Rightarrow> SessionInfo" where
  "session_info db se u =
     \<lparr>si_ID = se_id se, si_UserID = se_user se, si_Username = us_username u, si_Role = us_role u, si_AuthSource = us_source u,
      si_CSRFToken = se_csrf se, si_ExpiresAt = se_expires se, si_LastUsedAt = se_lastUsed se,
      si_Networks = (if RoleIsNetworkScoped (us_role u)
        then Some (map (\<lambda>n. \<lparr>nr_ID = fst n, nr_Name = snd n\<rparr>) (userNetworks db (us_id u))) else None)\<rparr>"

definition GetSessionByTokenHash :: "gtime \<Rightarrow> accounts \<Rightarrow> byte list \<Rightarrow> SessionInfo option" where
  "GetSessionByTokenHash now db tokenHash =
     (case find (\<lambda>se. se_token se = tokenHash) (ac_sessions db) of
        None \<Rightarrow> None
      | Some se \<Rightarrow>
          (case user_at db (se_user se) of
             None \<Rightarrow> None
           | Some u \<Rightarrow> if se_expires se > now \<and> \<not> us_disabled u then Some (session_info db se u) else None))"

text \<open>\<open>None\<close> for a global role, else the allowed networks, possibly none of them.\<close>

definition NetworkScope :: "SessionInfo \<Rightarrow> NetworkRef list option" where
  "NetworkScope s =
     (if \<not> RoleIsNetworkScoped (si_Role s) then None
      else case si_Networks s of None \<Rightarrow> Some [] | Some ns \<Rightarrow> Some ns)"

record SessionRef =
  sr_ID :: uuid
  sr_UserID :: uuid
  sr_Username :: string
  sr_ExpiresAt :: gtime

definition ref_of :: "accounts \<Rightarrow> session_row \<Rightarrow> SessionRef" where
  "ref_of db se =
     \<lparr>sr_ID = se_id se, sr_UserID = se_user se,
      sr_Username = (case user_at db (se_user se) of None \<Rightarrow> '''' | Some u \<Rightarrow> us_username u), sr_ExpiresAt = se_expires se\<rparr>"

text \<open>A \<open>DELETE FROM sessions ... RETURNING\<close> of the rows that satisfy a condition.\<close>

definition delete_sessions :: "(session_row \<Rightarrow> bool) \<Rightarrow> accounts \<Rightarrow> SessionRef list \<times> accounts" where
  "delete_sessions P db =
     (map (ref_of db) (filter P (ac_sessions db)), db\<lparr>ac_sessions := filter (\<lambda>se. \<not> P se) (ac_sessions db)\<rparr>)"

definition sessions_but :: "uuid \<Rightarrow> uuid option \<Rightarrow> session_row \<Rightarrow> bool" where
  "sessions_but userID keep se \<longleftrightarrow>
     (let keepID = (case keep of None \<Rightarrow> 0 | Some k \<Rightarrow> k) in se_user se = userID \<and> se_id se \<noteq> keepID)"

definition deleteUserSessions :: "uuid \<Rightarrow> uuid option \<Rightarrow> accounts \<Rightarrow> SessionRef list \<times> accounts" where
  "deleteUserSessions userID keep db = delete_sessions (sessions_but userID keep) db"

definition DeleteSessionByTokenHash :: "byte list \<Rightarrow> accounts \<Rightarrow> accounts" where
  "DeleteSessionByTokenHash tokenHash db = snd (delete_sessions (\<lambda>se. se_token se = tokenHash) db)"

definition DeleteExpiredSessions :: "gtime \<Rightarrow> accounts \<Rightarrow> SessionRef list \<times> accounts" where
  "DeleteExpiredSessions now db = delete_sessions (\<lambda>se. se_expires se \<le> now) db"

text \<open>An insert into \<open>sessions\<close>: the token hash is unique, \<open>last_used_at\<close> defaults to the present.\<close>

definition insert_session :: "gtime \<Rightarrow> uuid \<Rightarrow> byte list \<Rightarrow> uuid \<Rightarrow> string \<Rightarrow> gtime \<Rightarrow> accounts \<Rightarrow> acct_error + accounts" where
  "insert_session now sid tokenHash userID csrf expires db =
     (if list_ex (\<lambda>se. se_token se = tokenHash \<or> se_id se = sid) (ac_sessions db) then Inl StatementError
      else Inr (db\<lparr>ac_sessions := ac_sessions db @ [\<lparr>se_id = sid, se_token = tokenHash, se_user = userID, se_csrf = csrf,
        se_expires = expires, se_lastUsed = now\<rparr>]\<rparr>))"

text \<open>The rows of \<open>users\<close> a password login may still mint for.\<close>

definition local_login_row :: "uuid \<Rightarrow> string \<Rightarrow> user_row \<Rightarrow> bool" where
  "local_login_row userID verifiedHash u \<longleftrightarrow>
     us_id u = userID \<and> us_source u = ''local'' \<and> us_hash u = Some verifiedHash \<and> \<not> us_disabled u"

definition CreateLocalSession ::
  "gtime \<Rightarrow> uuid \<Rightarrow> uuid \<Rightarrow> byte list \<Rightarrow> string \<Rightarrow> gtime \<Rightarrow> string \<Rightarrow> accounts \<Rightarrow> acct_error + accounts" where
  "CreateLocalSession now sid userID tokenHash csrf expires verifiedHash db =
     (if \<not> list_ex (local_login_row userID verifiedHash) (ac_users db) then Inl ErrPasswordChanged
      else insert_session now sid tokenHash userID csrf expires db)"

section \<open>Identity and activity\<close>

definition identityExpr :: "user_row \<Rightarrow> string" where
  "identityExpr u =
     (if us_source u = ''oidc'' then (case us_oidc u of Some (issuer, subject) \<Rightarrow> issuer @ [CHR 0x1F] @ subject | None \<Rightarrow> '''')
      else us_username u)"

definition utc_day :: "gtime \<Rightarrow> int" where
  "utc_day t = t div (24 * 60 * minute)"

definition touch_activity :: "gtime \<Rightarrow> user_row \<Rightarrow> accounts \<Rightarrow> accounts" where
  "touch_activity now u db =
     db\<lparr>ac_activity := (ac_activity db)((us_id u, utc_day now) \<mapsto>
        (case ac_activity db (us_id u, utc_day now) of None \<Rightarrow> (identityExpr u, now) | Some (i, t) \<Rightarrow> (i, now)))\<rparr>"

definition TouchSession :: "gtime \<Rightarrow> uuid \<Rightarrow> accounts \<Rightarrow> accounts" where
  "TouchSession now sid db =
     (case find (\<lambda>se. se_id se = sid) (ac_sessions db) of
        None \<Rightarrow> db
      | Some se \<Rightarrow>
          (let db = db\<lparr>ac_sessions := map (\<lambda>se. if se_id se = sid then se\<lparr>se_lastUsed := now\<rparr> else se) (ac_sessions db)\<rparr>
           in case user_at db (se_user se) of None \<Rightarrow> db | Some u \<Rightarrow> touch_activity now u db))"

definition RecordLogin :: "gtime \<Rightarrow> uuid \<Rightarrow> accounts \<Rightarrow> acct_error + accounts" where
  "RecordLogin now userID db =
     (case user_at db userID of
        None \<Rightarrow> Inl StatementError
      | Some u \<Rightarrow>
          Inr (touch_activity now u (db\<lparr>ac_logins := ac_logins db @ [\<lparr>le_user = us_id u, le_identity = identityExpr u,
            le_username = us_username u, le_role = us_role u, le_source = us_source u, le_at = now\<rparr>]\<rparr>)))"

section \<open>Administration of users\<close>

definition update_user :: "uuid \<Rightarrow> (user_row \<Rightarrow> user_row) \<Rightarrow> accounts \<Rightarrow> accounts" where
  "update_user i f db = db\<lparr>ac_users := map (\<lambda>u. if us_id u = i then f u else u) (ac_users db)\<rparr>"

text \<open>Every network must exist (a foreign key); rows already there are left.\<close>

definition insertUserNetworks :: "uuid \<Rightarrow> uuid list \<Rightarrow> accounts \<Rightarrow> acct_error + accounts" where
  "insertUserNetworks userID networks db =
     (if \<not> set networks \<subseteq> fst ` set (ac_networks db) then Inl NetworkGone
      else Inr (db\<lparr>ac_scope := foldl (\<lambda>rows n. if (userID, n) \<in> set rows then rows else rows @ [(userID, n)]) (ac_scope db) networks\<rparr>))"

definition CreateUser ::
  "gtime \<Rightarrow> uuid \<Rightarrow> string \<Rightarrow> string \<Rightarrow> string \<Rightarrow> uuid list \<Rightarrow> accounts \<Rightarrow> acct_error + accounts" where
  "CreateUser now fresh username passwordHash role networks db =
     (if \<not> ValidRole role then Inl (RoleInvalid role)
      else if RoleIsNetworkScoped role \<and> networks = [] then Inl (RoleNeedsNetwork role)
      else if \<not> RoleIsNetworkScoped role \<and> networks \<noteq> [] then Inl (RoleIsGlobal role)
      else if list_ex (\<lambda>u. us_id u = fresh) (ac_users db) then Inl StatementError
      else if list_ex (\<lambda>u. us_username u = username) (ac_users db) then Inl (UserExists username)
      else (let db' = db\<lparr>ac_users := ac_users db @ [\<lparr>us_id = fresh, us_username = username, us_hash = Some passwordHash,
                  us_role = role, us_disabled = False, us_source = ''local'', us_oidc = None, us_created = now\<rparr>]\<rparr>
            in if networks \<noteq> [] then insertUserNetworks fresh networks db' else Inr db'))"

definition drop_scope :: "uuid \<Rightarrow> accounts \<Rightarrow> accounts" where
  "drop_scope userID db = db\<lparr>ac_scope := filter (\<lambda>r. fst r \<noteq> userID) (ac_scope db)\<rparr>"

definition SetUserNetworks :: "uuid \<Rightarrow> uuid list \<Rightarrow> accounts \<Rightarrow> acct_error + accounts" where
  "SetUserNetworks i networks db =
     (if networks = [] then Inl NetworksRequired
      else case user_at db i of
        None \<Rightarrow> Inl (UserMissing i)
      | Some u \<Rightarrow>
          if \<not> RoleIsNetworkScoped (us_role u) then Inl (RoleHasNoScope (us_role u))
          else if us_source u \<noteq> ''local'' then Inl ScopeFromProvider
          else insertUserNetworks i networks (drop_scope i db))"

text \<open>The last-admin guard: the rows the locking query returns, and what is read off them.\<close>

definition active_admin :: "user_row \<Rightarrow> bool" where
  "active_admin u \<longleftrightarrow> us_role u = ''admin'' \<and> \<not> us_disabled u"

definition guard_row :: "uuid \<Rightarrow> user_row \<Rightarrow> bool" where
  "guard_row i u \<longleftrightarrow> us_id u = i \<or> active_admin u"

definition guard_result :: "uuid \<Rightarrow> user_row list \<Rightarrow> acct_error + (string \<times> bool \<times> nat)" where
  "guard_result i rows =
     (case find (\<lambda>u. us_id u = i) rows of
        None \<Rightarrow> Inl (UserMissing i)
      | Some u \<Rightarrow> Inr (us_role u, us_disabled u, length (filter (\<lambda>r. us_id r \<noteq> i \<and> active_admin r) rows)))"

definition lockUserAndActiveAdmins :: "uuid \<Rightarrow> accounts \<Rightarrow> acct_error + (string \<times> bool \<times> nat)" where
  "lockUserAndActiveAdmins i db = guard_result i (sort_key us_id (filter (guard_row i) (ac_users db)))"

definition live_refs :: "gtime \<Rightarrow> uuid \<Rightarrow> accounts \<Rightarrow> SessionRef list" where
  "live_refs now i db =
     map (ref_of db) (sort_key se_expires (filter (\<lambda>se. se_user se = i \<and> se_expires se > now) (ac_sessions db)))"

text \<open>The decision and the write of \<open>SetUserDisabled\<close>, given what the guard read.\<close>

definition set_disabled ::
  "gtime \<Rightarrow> uuid \<Rightarrow> bool \<Rightarrow> string \<times> bool \<times> nat \<Rightarrow> accounts \<Rightarrow> acct_error + (bool \<times> SessionRef list \<times> accounts)" where
  "set_disabled now i disabled g db =
     (let (role, cur, otherAdmins) = g
      in if cur = disabled then Inr (False, [], db)
         else if disabled \<and> role = ''admin'' \<and> otherAdmins = 0 then Inl LastAdminDisable
         else Inr (True, live_refs now i db, update_user i (\<lambda>u. u\<lparr>us_disabled := disabled\<rparr>) db))"

definition SetUserDisabled ::
  "gtime \<Rightarrow> uuid \<Rightarrow> bool \<Rightarrow> accounts \<Rightarrow> acct_error + (bool \<times> SessionRef list \<times> accounts)" where
  "SetUserDisabled now i disabled db =
     (case lockUserAndActiveAdmins i db of Inl e \<Rightarrow> Inl e | Inr g \<Rightarrow> set_disabled now i disabled g db)"

definition delete_user :: "uuid \<Rightarrow> string \<times> bool \<times> nat \<Rightarrow> accounts \<Rightarrow> acct_error + (SessionRef list \<times> accounts)" where
  "delete_user i g db =
     (let (role, disabled, otherAdmins) = g
      in if role = ''admin'' \<and> \<not> disabled \<and> otherAdmins = 0 then Inl LastAdminDelete
         else (let (revoked, db) = deleteUserSessions i None db
               in Inr (revoked, drop_scope i (db\<lparr>ac_users := filter (\<lambda>u. us_id u \<noteq> i) (ac_users db),
                    ac_sessions := filter (\<lambda>se. se_user se \<noteq> i) (ac_sessions db)\<rparr>))))"

definition DeleteUser :: "uuid \<Rightarrow> accounts \<Rightarrow> acct_error + (SessionRef list \<times> accounts)" where
  "DeleteUser i db = (case lockUserAndActiveAdmins i db of Inl e \<Rightarrow> Inl e | Inr g \<Rightarrow> delete_user i g db)"

section \<open>Passwords\<close>

definition set_hash :: "uuid \<Rightarrow> string \<Rightarrow> accounts \<Rightarrow> accounts" where
  "set_hash i passwordHash = update_user i (\<lambda>u. u\<lparr>us_hash := Some passwordHash\<rparr>)"

text \<open>What the locked row must satisfy.\<close>

definition reset_check :: "uuid \<Rightarrow> accounts \<Rightarrow> acct_error + user_row" where
  "reset_check i db =
     (case user_at db i of
        None \<Rightarrow> Inl (UserMissing i)
      | Some u \<Rightarrow> if us_source u \<noteq> ''local'' then Inl FederatedAccount else Inr u)"

definition ResetLocalUserPassword ::
  "uuid \<Rightarrow> string \<Rightarrow> accounts \<Rightarrow> acct_error + (string \<times> string \<times> SessionRef list \<times> accounts)" where
  "ResetLocalUserPassword i passwordHash db =
     (case reset_check i db of
        Inl e \<Rightarrow> Inl e
      | Inr u \<Rightarrow>
          (let (revoked, db) = deleteUserSessions i None (set_hash i passwordHash db)
           in Inr (us_username u, us_role u, revoked, db)))"

definition own_check :: "uuid \<Rightarrow> string \<Rightarrow> accounts \<Rightarrow> acct_error + user_row" where
  "own_check userID verifiedHash db =
     (case user_at db userID of
        None \<Rightarrow> Inl (UserMissing userID)
      | Some u \<Rightarrow>
          if us_source u \<noteq> ''local'' then Inl (UserMissing userID)
          else if (case us_hash u of None \<Rightarrow> '''' | Some h \<Rightarrow> h) \<noteq> verifiedHash then Inl PasswordChangedMeanwhile
          else Inr u)"

definition UpdateOwnPassword ::
  "uuid \<Rightarrow> string \<Rightarrow> string \<Rightarrow> uuid \<Rightarrow> accounts \<Rightarrow> acct_error + (SessionRef list \<times> accounts)" where
  "UpdateOwnPassword userID verifiedHash passwordHash keepSessionID db =
     (case own_check userID verifiedHash db of
        Inl e \<Rightarrow> Inl e
      | Inr u \<Rightarrow> Inr (deleteUserSessions userID (Some keepSessionID) (set_hash userID passwordHash db)))"

section \<open>Single sign-on settings and users\<close>

definition GetOIDCSettings :: "accounts \<Rightarrow> OIDCSettings" where
  "GetOIDCSettings db = ac_oidc db"

definition roleRulesEqual :: "OIDCRoleRule list \<Rightarrow> OIDCRoleRule list \<Rightarrow> bool" where
  "roleRulesEqual a b \<longleftrightarrow>
     list_all2 (\<lambda>x y. ru_Value x = ru_Value y \<and> ru_Role x = ru_Role y \<and> ru_Networks x = ru_Networks y) a b"

text \<open>What a request that keeps stored fields amounts to, against the locked row.\<close>

definition merged_settings :: "gtime \<Rightarrow> OIDCSettings \<Rightarrow> bool \<Rightarrow> bool \<Rightarrow> bool \<Rightarrow> OIDCSettings \<Rightarrow> OIDCSettings" where
  "merged_settings now o1 keepSecret keepRoleRules keepUnmatchedRole cur =
     o1\<lparr>os_ClientSecret := (if keepSecret then os_ClientSecret cur else os_ClientSecret o1),
        os_RoleRules := (if keepRoleRules then os_RoleRules cur else os_RoleRules o1),
        os_UnmatchedRole := (if keepUnmatchedRole then os_UnmatchedRole cur else os_UnmatchedRole o1),
        os_UpdatedAt := now\<rparr>"

definition provider_changed :: "OIDCSettings \<Rightarrow> OIDCSettings \<Rightarrow> bool" where
  "provider_changed cur o1 \<longleftrightarrow> os_Issuer cur \<noteq> os_Issuer o1 \<or> os_ClientID cur \<noteq> os_ClientID o1"

definition policy_changed :: "OIDCSettings \<Rightarrow> OIDCSettings \<Rightarrow> bool" where
  "policy_changed cur o1 \<longleftrightarrow>
     os_RoleClaim cur \<noteq> os_RoleClaim o1 \<or> os_AdminValues cur \<noteq> os_AdminValues o1
     \<or> \<not> roleRulesEqual (os_RoleRules cur) (os_RoleRules o1) \<or> os_UnmatchedRole cur \<noteq> os_UnmatchedRole o1"

definition federated_session :: "accounts \<Rightarrow> session_row \<Rightarrow> bool" where
  "federated_session db se \<longleftrightarrow> list_ex (\<lambda>u. us_id u = se_user se \<and> us_source u = ''oidc'') (ac_users db)"

definition UpdateOIDCSettings ::
  "gtime \<Rightarrow> OIDCSettings \<Rightarrow> bool \<Rightarrow> bool \<Rightarrow> bool \<Rightarrow> accounts \<Rightarrow> acct_error + (OIDCSettings \<times> SessionRef list \<times> accounts)" where
  "UpdateOIDCSettings now o1 keepSecret keepRoleRules keepUnmatchedRole db =
     (let cur = ac_oidc db;
          out = merged_settings now o1 keepSecret keepRoleRules keepUnmatchedRole cur
      in if provider_changed cur o1 \<and> keepSecret \<and> os_ClientSecret cur \<noteq> '''' then Inl ErrConcurrentProviderChange
         else (let (revoked, db) = (if provider_changed cur o1 \<or> policy_changed cur out
                 then delete_sessions (federated_session db) db else ([], db))
               in Inr (out, revoked, db\<lparr>ac_oidc := out\<rparr>)))"

definition CreateOIDCSession ::
  "gtime \<Rightarrow> uuid \<Rightarrow> uuid \<Rightarrow> byte list \<Rightarrow> string \<Rightarrow> gtime \<Rightarrow> string \<Rightarrow> string \<Rightarrow> gtime \<Rightarrow> accounts \<Rightarrow> acct_error + accounts" where
  "CreateOIDCSession now sid userID tokenHash csrf expires issuer clientID policyUpdatedAt db =
     (let cur = ac_oidc db
      in if \<not> os_Enabled cur \<or> os_Issuer cur \<noteq> issuer \<or> os_ClientID cur \<noteq> clientID then Inl ErrProviderChanged
         else if os_UpdatedAt cur \<noteq> policyUpdatedAt then Inl ErrOIDCPolicyChanged
         else if user_at db userID = None then Inl StatementError
         else insert_session now sid tokenHash userID csrf expires db)"

record OIDCUpsertResult =
  ur_User :: UserInfo
  ur_Created :: bool
  ur_PrevUsername :: string
  ur_PrevRole :: string
  ur_PrevNetworks :: "string list option"

text \<open>\<open>slices.Equal\<close> does not tell a nil slice from an empty one.\<close>

definition Changed :: "OIDCUpsertResult \<Rightarrow> bool" where
  "Changed r \<longleftrightarrow> \<not> ur_Created r \<and>
     (ur_PrevUsername r \<noteq> ui_Username (ur_User r) \<or> ur_PrevRole r \<noteq> ui_Role (ur_User r)
      \<or> (case ur_PrevNetworks r of None \<Rightarrow> [] | Some ns \<Rightarrow> ns) \<noteq> (case ui_Networks (ur_User r) of None \<Rightarrow> [] | Some ns \<Rightarrow> ns))"

definition oidc_row :: "string \<Rightarrow> string \<Rightarrow> accounts \<Rightarrow> user_row option" where
  "oidc_row issuer subject db = find (\<lambda>u. us_oidc u = Some (issuer, subject)) (ac_users db)"

text \<open>The insert or update of the \<open>users\<close> row; a username of another row is the unique violation.\<close>

definition put_oidc_user ::
  "gtime \<Rightarrow> uuid \<Rightarrow> string \<Rightarrow> string \<Rightarrow> string \<Rightarrow> string \<Rightarrow> accounts \<Rightarrow> acct_error + (uuid \<times> accounts)" where
  "put_oidc_user now fresh issuer subject username role db =
     (let i = (case oidc_row issuer subject db of Some u \<Rightarrow> us_id u | None \<Rightarrow> fresh)
      in if list_ex (\<lambda>u. us_username u = username \<and> us_id u \<noteq> i) (ac_users db) then Inl UsernameTaken
         else case oidc_row issuer subject db of
           Some u \<Rightarrow> Inr (i, update_user i (\<lambda>u. u\<lparr>us_username := username, us_role := role\<rparr>) db)
         | None \<Rightarrow>
             if list_ex (\<lambda>u. us_id u = fresh) (ac_users db) then Inl StatementError
             else Inr (i, db\<lparr>ac_users := ac_users db @ [\<lparr>us_id = fresh, us_username = username, us_hash = None, us_role = role,
               us_disabled = False, us_source = ''oidc'', us_oidc = Some (issuer, subject), us_created = now\<rparr>]\<rparr>))"

definition upsertOIDCUser ::
  "gtime \<Rightarrow> uuid \<Rightarrow> string \<Rightarrow> string \<Rightarrow> string \<Rightarrow> string \<Rightarrow> uuid list \<Rightarrow> gtime \<Rightarrow> accounts \<Rightarrow> acct_error + (OIDCUpsertResult \<times> accounts)" where
  "upsertOIDCUser now fresh issuer subject username role networks policyUpdatedAt db =
     (if os_UpdatedAt (ac_oidc db) \<noteq> policyUpdatedAt then Inl ErrOIDCPolicyChanged
      else case put_oidc_user now fresh issuer subject username role db of
        Inl e \<Rightarrow> Inl e
      | Inr (i, db1) \<Rightarrow>
          (case (if networks \<noteq> [] then insertUserNetworks i networks (drop_scope i db1) else Inr (drop_scope i db1)) of
             Inl e \<Rightarrow> Inl e
           | Inr db2 \<Rightarrow>
               (case user_at db2 i of
                  None \<Rightarrow> Inl StatementError
                | Some u \<Rightarrow>
                    Inr ((case oidc_row issuer subject db of
                            None \<Rightarrow> \<lparr>ur_User = info_of db2 u, ur_Created = True, ur_PrevUsername = '''', ur_PrevRole = '''', ur_PrevNetworks = None\<rparr>
                          | Some p \<Rightarrow> \<lparr>ur_User = info_of db2 u, ur_Created = False, ur_PrevUsername = us_username p, ur_PrevRole = us_role p,
                              ur_PrevNetworks = store_scopeNames (us_role p) (userNetworkNames db (us_id p))\<rparr>), db2))))"

text \<open>\<open>suffix\<close> is the hexadecimal form of the first four bytes of the SHA-256 of issuer, NUL and subject.\<close>

definition UpsertOIDCUser ::
  "(string \<Rightarrow> string \<Rightarrow> string) \<Rightarrow> gtime \<Rightarrow> uuid \<Rightarrow> string \<Rightarrow> string \<Rightarrow> string \<Rightarrow> string \<Rightarrow> uuid list \<Rightarrow> gtime \<Rightarrow> accounts
   \<Rightarrow> acct_error + (OIDCUpsertResult \<times> accounts)" where
  "UpsertOIDCUser suffix now fresh issuer subject username role networks policyUpdatedAt db =
     (if issuer = '''' \<or> subject = '''' then Inl EmptyIdentity
      else if RoleIsNetworkScoped role = (networks = []) then Inl ScopeMismatch
      else case upsertOIDCUser now fresh issuer subject username role networks policyUpdatedAt db of
        Inl UsernameTaken \<Rightarrow> upsertOIDCUser now fresh issuer subject (username @ ''-'' @ suffix issuer subject) role networks policyUpdatedAt db
      | r \<Rightarrow> r)"

end
