(* ===== verification/Accounts_Tx.thy ===== *)
theory Accounts_Tx
  imports Accounts
begin

text \<open>
  The account operations of \<open>internal/server/store/users.go\<close> and \<open>oidc.go\<close> interleaved, as the database
  runs them under \<open>READ COMMITTED\<close>: a statement sees what was committed when it started, a row taken
  \<open>FOR UPDATE\<close> is not changed by others until the end of the transaction and is read as it is when the
  lock is granted, and what a transaction writes appears when it commits.

  An operation that holds locks on all the rows its decision rests on acts as one step at its commit:
  \<open>UpdateOIDCSettings\<close>, \<open>upsertOIDCUser\<close> and \<open>CreateOIDCSession\<close> take the settings row (exclusively or
  shared) and the rows of \<open>users\<close> they write. Three do not, and are modelled statement by statement:

  \<^item> \<open>lockUserAndActiveAdmins\<close> finds the rows of its query first and then locks them one after another in
    the order of their ids; a row that no longer satisfies the query when it is locked is left out;

  \<^item> a password change locks its row, deletes the sessions it sees and commits;

  \<^item> \<open>CreateLocalSession\<close> is one statement that reads the \<open>users\<close> row without locking it; the foreign key
    of \<open>sessions\<close> then takes a key-share lock on that row, which waits for a transaction that holds it
    \<open>FOR UPDATE\<close>.

  Ghost components record what the proofs speak about: how each session was minted, every row the
  settings ever had, every password hash ever set, every user and session id ever used, and how
  often a federated login took the admin role from an enabled admin.
\<close>

datatype admin_op = OpDisable bool | OpDelete

text \<open>
  \<open>PassTx user hash keep deleted\<close>: the password change of a user; \<open>deleted\<close> are the sessions its
  \<open>DELETE\<close> saw. \<open>LoginTx sid user token csrf expires hash\<close>: an insert whose condition held.
\<close>

datatype acct_tx =
    AdminTx uuid admin_op "uuid list" "user_row list"
  | PassTx uuid string "uuid option" "uuid list option"
  | LoginTx uuid uuid "byte list" string gtime string

datatype mint = ByPassword string | ByProvider OIDCSettings

record acct_sys =
  ax_db :: accounts
  ax_locks :: "uuid \<rightharpoonup> nat"
  ax_txs :: "nat \<rightharpoonup> acct_tx"
  ax_minted :: "uuid \<rightharpoonup> mint"
  ax_revs :: "OIDCSettings list"
  ax_hashes :: "(uuid \<times> string) list"
  ax_ids :: "uuid list"
  ax_sids :: "uuid list"
  ax_demoted :: nat

definition finish :: "nat \<Rightarrow> acct_sys \<Rightarrow> acct_sys" where
  "finish t s = s\<lparr>ax_txs := (ax_txs s)(t := None), ax_locks := (\<lambda>i. if ax_locks s i = Some t then None else ax_locks s i)\<rparr>"

definition guard_ids :: "uuid \<Rightarrow> accounts \<Rightarrow> uuid list" where
  "guard_ids i db = map us_id (sort_key us_id (filter (guard_row i) (ac_users db)))"

definition free :: "acct_sys \<Rightarrow> uuid \<Rightarrow> bool" where
  "free s i \<longleftrightarrow> ax_locks s i = None"

text \<open>Granting the next row lock of a guard query, and the row as it is then.\<close>

definition lock_next :: "nat \<Rightarrow> uuid \<Rightarrow> admin_op \<Rightarrow> uuid \<Rightarrow> uuid list \<Rightarrow> user_row list \<Rightarrow> acct_sys \<Rightarrow> acct_sys" where
  "lock_next t i op j todo got s =
     (case user_at (ax_db s) j of
        None \<Rightarrow> s\<lparr>ax_txs := (ax_txs s)(t \<mapsto> AdminTx i op todo got)\<rparr>
      | Some u \<Rightarrow>
          s\<lparr>ax_locks := (ax_locks s)(j \<mapsto> t),
            ax_txs := (ax_txs s)(t \<mapsto> AdminTx i op todo (if guard_row i u then got @ [u] else got))\<rparr>)"

text \<open>The end of \<open>SetUserDisabled\<close> and \<open>DeleteUser\<close>, from what was read to the new tables.\<close>

definition admin_effect :: "gtime \<Rightarrow> uuid \<Rightarrow> admin_op \<Rightarrow> user_row list \<Rightarrow> accounts \<Rightarrow> acct_error + accounts" where
  "admin_effect now i op got db =
     (case guard_result i got of
        Inl e \<Rightarrow> Inl e
      | Inr g \<Rightarrow>
          (case op of
             OpDisable d \<Rightarrow> map_sum id (snd \<circ> snd) (set_disabled now i d g db)
           | OpDelete \<Rightarrow> map_sum id snd (delete_user i g db)))"

definition pass_effect :: "uuid \<Rightarrow> string \<Rightarrow> uuid list \<Rightarrow> accounts \<Rightarrow> accounts" where
  "pass_effect i h deleted db = snd (delete_sessions (\<lambda>se. se_id se \<in> set deleted) (set_hash i h db))"

definition demotes :: "string \<Rightarrow> string \<Rightarrow> string \<Rightarrow> accounts \<Rightarrow> bool" where
  "demotes issuer subject role db \<longleftrightarrow>
     (case oidc_row issuer subject db of None \<Rightarrow> False | Some u \<Rightarrow> active_admin u \<and> role \<noteq> ''admin'')"

definition minted_session :: "uuid \<Rightarrow> mint \<Rightarrow> accounts \<Rightarrow> acct_sys \<Rightarrow> acct_sys" where
  "minted_session sid m db s = s\<lparr>ax_db := db, ax_minted := (ax_minted s)(sid \<mapsto> m), ax_sids := sid # ax_sids s\<rparr>"

inductive acct_step :: "acct_sys \<Rightarrow> acct_sys \<Rightarrow> bool" where
  x_create_user: "fresh \<notin> set (ax_ids s) \<Longrightarrow> CreateUser now fresh username h role networks (ax_db s) = Inr db \<Longrightarrow>
      acct_step s (s\<lparr>ax_db := db, ax_ids := fresh # ax_ids s, ax_hashes := (fresh, h) # ax_hashes s\<rparr>)"
| x_set_networks: "free s i \<Longrightarrow> SetUserNetworks i networks (ax_db s) = Inr db \<Longrightarrow> acct_step s (s\<lparr>ax_db := db\<rparr>)"
| x_networks: "acct_step s (s\<lparr>ax_db := (ax_db s)\<lparr>ac_networks := ns,
      ac_scope := filter (\<lambda>r. snd r \<in> fst ` set ns) (ac_scope (ax_db s))\<rparr>\<rparr>)"
| x_admin_begin: "ax_txs s t = None \<Longrightarrow>
      acct_step s (s\<lparr>ax_txs := (ax_txs s)(t \<mapsto> AdminTx i op (guard_ids i (ax_db s)) [])\<rparr>)"
| x_admin_lock: "ax_txs s t = Some (AdminTx i op (j # todo) got) \<Longrightarrow> free s j \<Longrightarrow> acct_step s (lock_next t i op j todo got s)"
| x_admin_commit: "ax_txs s t = Some (AdminTx i op [] got) \<Longrightarrow> admin_effect now i op got (ax_db s) = Inr db \<Longrightarrow>
      acct_step s (finish t (s\<lparr>ax_db := db\<rparr>))"
| x_reset_lock: "ax_txs s t = None \<Longrightarrow> free s i \<Longrightarrow> reset_check i (ax_db s) = Inr u \<Longrightarrow>
      acct_step s (s\<lparr>ax_locks := (ax_locks s)(i \<mapsto> t), ax_txs := (ax_txs s)(t \<mapsto> PassTx i h None None)\<rparr>)"
| x_own_lock: "ax_txs s t = None \<Longrightarrow> free s i \<Longrightarrow> own_check i verified (ax_db s) = Inr u \<Longrightarrow>
      acct_step s (s\<lparr>ax_locks := (ax_locks s)(i \<mapsto> t), ax_txs := (ax_txs s)(t \<mapsto> PassTx i h (Some keep) None)\<rparr>)"
| x_pass_delete: "ax_txs s t = Some (PassTx i h keep None) \<Longrightarrow>
      acct_step s (s\<lparr>ax_txs := (ax_txs s)(t \<mapsto> PassTx i h keep (Some (map se_id (filter (sessions_but i keep) (ac_sessions (ax_db s))))))\<rparr>)"
| x_pass_commit: "ax_txs s t = Some (PassTx i h keep (Some deleted)) \<Longrightarrow>
      acct_step s (finish t (s\<lparr>ax_db := pass_effect i h deleted (ax_db s), ax_hashes := (i, h) # ax_hashes s\<rparr>))"
| x_login_read: "ax_txs s t = None \<Longrightarrow> list_ex (local_login_row i h) (ac_users (ax_db s)) \<Longrightarrow>
      acct_step s (s\<lparr>ax_txs := (ax_txs s)(t \<mapsto> LoginTx sid i token csrf expires h)\<rparr>)"
| x_login_insert: "ax_txs s t = Some (LoginTx sid i token csrf expires h) \<Longrightarrow> free s i \<Longrightarrow> user_at (ax_db s) i \<noteq> None \<Longrightarrow>
      sid \<noteq> 0 \<Longrightarrow> sid \<notin> set (ax_sids s) \<Longrightarrow> insert_session now sid token i csrf expires (ax_db s) = Inr db \<Longrightarrow>
      acct_step s (finish t (minted_session sid (ByPassword h) db s))"
| x_upsert: "cfg \<in> set (ax_revs s) \<Longrightarrow> fresh \<notin> set (ax_ids s) \<Longrightarrow>
      (\<And>u. oidc_row issuer subject (ax_db s) = Some u \<Longrightarrow> free s (us_id u)) \<Longrightarrow>
      upsertOIDCUser now fresh issuer subject username role networks (os_UpdatedAt cfg) (ax_db s) = Inr (res, db) \<Longrightarrow>
      acct_step s (s\<lparr>ax_db := db, ax_ids := fresh # ax_ids s, ax_demoted := ax_demoted s + of_bool (demotes issuer subject role (ax_db s))\<rparr>)"
| x_oidc_session: "cfg \<in> set (ax_revs s) \<Longrightarrow> free s i \<Longrightarrow> user_at (ax_db s) i = Some u \<Longrightarrow> us_source u = ''oidc'' \<Longrightarrow>
      sid \<noteq> 0 \<Longrightarrow> sid \<notin> set (ax_sids s) \<Longrightarrow>
      CreateOIDCSession now sid i token csrf expires (os_Issuer cfg) (os_ClientID cfg) (os_UpdatedAt cfg) (ax_db s) = Inr db \<Longrightarrow>
      acct_step s (minted_session sid (ByProvider cfg) db s)"
| x_settings: "UpdateOIDCSettings now o1 keepSecret keepRoleRules keepUnmatchedRole (ax_db s) = Inr (out, revoked, db) \<Longrightarrow>
      acct_step s (s\<lparr>ax_db := db, ax_revs := out # ax_revs s\<rparr>)"
| x_sessions_end: "acct_step s (s\<lparr>ax_db := snd (delete_sessions P (ax_db s))\<rparr>)"
| x_touch: "acct_step s (s\<lparr>ax_db := TouchSession now sid (ax_db s)\<rparr>)"
| x_record_login: "RecordLogin now i (ax_db s) = Inr db \<Longrightarrow> acct_step s (s\<lparr>ax_db := db\<rparr>)"
| x_rollback: "acct_step s (finish t s)"

text \<open>A new installation: its first accounts, no session and no transaction.\<close>

definition acct_start :: "accounts \<Rightarrow> acct_sys" where
  "acct_start db = \<lparr>ax_db = db, ax_locks = Map.empty, ax_txs = Map.empty, ax_minted = Map.empty, ax_revs = [ac_oidc db],
     ax_hashes = [(us_id u, h). u \<leftarrow> ac_users db, h \<leftarrow> (case us_hash u of None \<Rightarrow> [] | Some h \<Rightarrow> [h])],
     ax_ids = map us_id (ac_users db), ax_sids = [], ax_demoted = 0\<rparr>"

definition start_ok :: "accounts \<Rightarrow> bool" where
  "start_ok db \<longleftrightarrow> distinct (map us_id (ac_users db)) \<and> ac_sessions db = [] \<and>
     (\<forall>u\<in>set (ac_users db). (us_source u = ''oidc'') = (us_oidc u \<noteq> None) \<and> (us_source u = ''oidc'') = (us_hash u = None))"

end
