(* ===== verification/Accounts_Inv.thy ===== *)
theory Accounts_Inv
  imports Accounts_Tx
begin

text \<open>
  What the interleaved account operations keep: the effect of every operation on the users and
  sessions tables, and the invariant of the system of \<open>Accounts_Tx\<close>.
\<close>

section \<open>Effects on the tables\<close>

definition sids_of :: "accounts \<Rightarrow> uuid \<Rightarrow> uuid set" where
  "sids_of db i = {se_id se |se. se \<in> set (ac_sessions db) \<and> se_user se = i}"

lemma user_at_in: "user_at db i = Some u \<Longrightarrow> u \<in> set (ac_users db) \<and> us_id u = i"
  by (auto simp: user_at_def find_Some_iff)

lemma user_at_None: "user_at db i = None \<longleftrightarrow> i \<notin> us_id ` set (ac_users db)"
  by (auto simp: user_at_def find_None_iff)

lemma delete_sessions_simps [simp]:
  "ac_users (snd (delete_sessions P db)) = ac_users db" "ac_oidc (snd (delete_sessions P db)) = ac_oidc db"
  "ac_sessions (snd (delete_sessions P db)) = filter (\<lambda>se. \<not> P se) (ac_sessions db)"
  by (auto simp: delete_sessions_def)

lemma update_user_simps [simp]:
  "ac_sessions (update_user i f db) = ac_sessions db" "ac_oidc (update_user i f db) = ac_oidc db"
  "ac_users (update_user i f db) = map (\<lambda>u. if us_id u = i then f u else u) (ac_users db)"
  by (auto simp: update_user_def)

lemma drop_scope_simps [simp]:
  "ac_users (drop_scope i db) = ac_users db" "ac_sessions (drop_scope i db) = ac_sessions db" "ac_oidc (drop_scope i db) = ac_oidc db"
  by (auto simp: drop_scope_def)

lemma insertUserNetworks_effect:
  "insertUserNetworks i ns db = Inr db' \<Longrightarrow> ac_users db' = ac_users db \<and> ac_sessions db' = ac_sessions db \<and> ac_oidc db' = ac_oidc db"
  by (auto simp: insertUserNetworks_def split: if_splits)

lemma CreateUser_effect:
  assumes "CreateUser now fresh username h role networks db = Inr db'"
  shows "\<exists>u. ac_users db' = ac_users db @ [u] \<and> us_id u = fresh \<and> us_source u = ''local'' \<and> us_oidc u = None \<and> us_hash u = Some h \<and> us_role u = role
    \<and> \<not> us_disabled u \<and> fresh \<notin> us_id ` set (ac_users db) \<and> ac_sessions db' = ac_sessions db \<and> ac_oidc db' = ac_oidc db"
  using assms by (auto simp: CreateUser_def Let_def list_ex_iff split: if_splits dest!: insertUserNetworks_effect)

lemma SetUserNetworks_effect:
  "SetUserNetworks i networks db = Inr db' \<Longrightarrow> ac_users db' = ac_users db \<and> ac_sessions db' = ac_sessions db \<and> ac_oidc db' = ac_oidc db"
  by (auto simp: SetUserNetworks_def split: if_splits option.splits dest!: insertUserNetworks_effect)

lemma pass_effect_simps [simp]:
  "ac_users (pass_effect i h ids db) = map (\<lambda>u. if us_id u = i then u\<lparr>us_hash := Some h\<rparr> else u) (ac_users db)"
  "ac_sessions (pass_effect i h ids db) = filter (\<lambda>se. se_id se \<notin> set ids) (ac_sessions db)" "ac_oidc (pass_effect i h ids db) = ac_oidc db"
  by (auto simp: pass_effect_def set_hash_def)

lemma insert_session_effect:
  assumes "insert_session now sid token i csrf expires db = Inr db'"
  shows "\<exists>se. ac_sessions db' = ac_sessions db @ [se] \<and> se_id se = sid \<and> se_user se = i \<and> se_token se = token \<and> sid \<notin> se_id ` set (ac_sessions db)
    \<and> ac_users db' = ac_users db \<and> ac_oidc db' = ac_oidc db"
  using assms by (auto simp: insert_session_def list_ex_iff split: if_splits)

lemma CreateOIDCSession_effect:
  assumes "CreateOIDCSession now sid i token csrf expires issuer client rv db = Inr db'"
  shows "insert_session now sid token i csrf expires db = Inr db' \<and> os_Issuer (ac_oidc db) = issuer \<and> os_ClientID (ac_oidc db) = client
    \<and> os_UpdatedAt (ac_oidc db) = rv \<and> os_Enabled (ac_oidc db)"
  using assms by (auto simp: CreateOIDCSession_def Let_def split: if_splits)

text \<open>An administrative commit changes the row of its target only, which was among those it locked.\<close>

lemma admin_effect_cases:
  assumes "admin_effect now i op got db = Inr db'"
  obtains (same) "db' = db" "i \<in> us_id ` set got"
  | (flag) d where "db' = update_user i (\<lambda>u. u\<lparr>us_disabled := d\<rparr>) db" "i \<in> us_id ` set got"
  | (gone) "ac_users db' = filter (\<lambda>u. us_id u \<noteq> i) (ac_users db)" "ac_sessions db' = filter (\<lambda>se. se_user se \<noteq> i) (ac_sessions db)"
      "ac_oidc db' = ac_oidc db" "i \<in> us_id ` set got"
proof -
  obtain g where g: "guard_result i got = Inr g" using assms by (auto simp: admin_effect_def split: sum.splits)
  have i: "i \<in> us_id ` set got" using g by (auto simp: guard_result_def find_Some_iff image_iff split: option.splits)
  show thesis
  proof (cases op)
    case (OpDisable d)
    have "db' = db \<or> db' = update_user i (\<lambda>u. u\<lparr>us_disabled := d\<rparr>) db"
      using assms g by (cases g) (auto simp: admin_effect_def OpDisable set_disabled_def split: if_splits)
    then show thesis using that(1,2) i by blast
  next
    case OpDelete
    have "ac_users db' = filter (\<lambda>u. us_id u \<noteq> i) (ac_users db)" "ac_sessions db' = filter (\<lambda>se. se_user se \<noteq> i) (ac_sessions db)" "ac_oidc db' = ac_oidc db"
      using assms g by (cases g; auto simp: admin_effect_def OpDelete delete_user_def deleteUserSessions_def delete_sessions_def sessions_but_def Let_def
          split: if_splits prod.splits intro: filter_cong)+
    then show thesis using that(3) i by blast
  qed
qed

text \<open>A federated login replaces username and role of one row, or adds one.\<close>

lemma upsert_cases:
  assumes "upsertOIDCUser now fresh issuer subject username role networks rv db = Inr (res, db')"
  obtains (update) u where "oidc_row issuer subject db = Some u" "ac_users db' = map (\<lambda>v. if us_id v = us_id u then v\<lparr>us_username := username, us_role := role\<rparr> else v) (ac_users db)"
      "ac_sessions db' = ac_sessions db" "ac_oidc db' = ac_oidc db"
  | (add) u where "oidc_row issuer subject db = None" "ac_users db' = ac_users db @ [u]" "us_id u = fresh" "us_source u = ''oidc''" "us_oidc u \<noteq> None" "us_hash u = None"
      "fresh \<notin> us_id ` set (ac_users db)" "ac_sessions db' = ac_sessions db" "ac_oidc db' = ac_oidc db"
proof -
  obtain j db1 where put: "put_oidc_user now fresh issuer subject username role db = Inr (j, db1)"
    and scope: "(if networks \<noteq> [] then insertUserNetworks j networks (drop_scope j db1) else Inr (drop_scope j db1)) = Inr db'"
    using assms by (auto simp: upsertOIDCUser_def split: if_splits sum.splits option.splits)
  have same: "ac_users db' = ac_users db1" "ac_sessions db' = ac_sessions db1" "ac_oidc db' = ac_oidc db1"
    using scope by (auto split: if_splits dest!: insertUserNetworks_effect)
  show thesis
  proof (cases "oidc_row issuer subject db")
    case (Some u)
    show thesis using put same by (intro that(1)[OF Some]) (auto simp: put_oidc_user_def Some Let_def split: if_splits)
  next
    case None
    have db1: "ac_users db1 = ac_users db @ [\<lparr>us_id = fresh, us_username = username, us_hash = None, us_role = role,
        us_disabled = False, us_source = ''oidc'', us_oidc = Some (issuer, subject), us_created = now\<rparr>]"
      "ac_sessions db1 = ac_sessions db" "ac_oidc db1 = ac_oidc db"
      using put by (auto simp: put_oidc_user_def None Let_def split: if_splits)
    have "fresh \<notin> us_id ` set (ac_users db)" using put by (auto simp: put_oidc_user_def None Let_def list_ex_iff split: if_splits)
    then show thesis using that(2)[OF None] same db1 by simp
  qed
qed

lemma settings_effect:
  assumes "UpdateOIDCSettings now o1 ks kr ku db = Inr (out, revoked, db')"
  shows "ac_users db' = ac_users db \<and> ac_oidc db' = out \<and> out = merged_settings now o1 ks kr ku (ac_oidc db)
    \<and> ac_sessions db' = (if provider_changed (ac_oidc db) o1 \<or> policy_changed (ac_oidc db) out
         then filter (\<lambda>se. \<not> federated_session db se) (ac_sessions db) else ac_sessions db)"
  using assms by (auto simp: UpdateOIDCSettings_def Let_def delete_sessions_def split: if_splits prod.splits)

lemma TouchSession_effect:
  "ac_users (TouchSession now sid db) = ac_users db \<and> ac_oidc (TouchSession now sid db) = ac_oidc db
   \<and> map (\<lambda>se. (se_id se, se_user se)) (ac_sessions (TouchSession now sid db)) = map (\<lambda>se. (se_id se, se_user se)) (ac_sessions db)"
  by (auto simp: TouchSession_def touch_activity_def Let_def split: option.splits)

lemma RecordLogin_effect:
  "RecordLogin now i db = Inr db' \<Longrightarrow> ac_users db' = ac_users db \<and> ac_oidc db' = ac_oidc db \<and> ac_sessions db' = ac_sessions db"
  by (auto simp: RecordLogin_def touch_activity_def split: option.splits)

section \<open>The invariant\<close>

definition user_shape :: "user_row \<Rightarrow> bool" where
  "user_shape u \<longleftrightarrow> (us_source u = ''oidc'') = (us_oidc u \<noteq> None) \<and> (us_source u = ''oidc'') = (us_hash u = None)"

definition mint_ok :: "acct_sys \<Rightarrow> session_row \<Rightarrow> bool" where
  "mint_ok s se \<longleftrightarrow> se_id se \<noteq> 0 \<and> se_id se \<in> set (ax_sids s) \<and>
     (\<exists>u\<in>set (ac_users (ax_db s)). us_id u = se_user se \<and>
        (case ax_minted s (se_id se) of
           None \<Rightarrow> False
         | Some (ByPassword h) \<Rightarrow> us_source u \<noteq> ''oidc'' \<and> (se_user se, h) \<in> set (ax_hashes s)
         | Some (ByProvider cfg) \<Rightarrow> us_source u = ''oidc'' \<and> cfg \<in> set (ax_revs s)))"

definition tx_ok :: "acct_sys \<Rightarrow> nat \<Rightarrow> acct_tx \<Rightarrow> bool" where
  "tx_ok s t tx \<longleftrightarrow>
     (case tx of
        AdminTx i op todo got \<Rightarrow> \<forall>r\<in>set got. ax_locks s (us_id r) = Some t \<and> r \<in> set (ac_users (ax_db s)) \<and> guard_row i r
      | PassTx i h keep deleted \<Rightarrow> ax_locks s i = Some t \<and> (\<exists>u\<in>set (ac_users (ax_db s)). us_id u = i \<and> us_source u \<noteq> ''oidc'')
          \<and> (\<forall>ids. deleted = Some ids \<longrightarrow> (\<forall>x\<in>sids_of (ax_db s) i. x \<noteq> (case keep of None \<Rightarrow> 0 | Some k \<Rightarrow> k) \<longrightarrow> x \<in> set ids))
      | LoginTx sid i token csrf expires h \<Rightarrow> (i, h) \<in> set (ax_hashes s) \<and> i \<in> set (ax_ids s)
          \<and> (\<forall>u\<in>set (ac_users (ax_db s)). us_id u = i \<longrightarrow> us_source u \<noteq> ''oidc''))"

definition acct_inv :: "acct_sys \<Rightarrow> bool" where
  "acct_inv s \<longleftrightarrow>
     distinct (map us_id (ac_users (ax_db s))) \<and> us_id ` set (ac_users (ax_db s)) \<subseteq> set (ax_ids s)
     \<and> (\<forall>u\<in>set (ac_users (ax_db s)). user_shape u \<and> (\<forall>h. us_hash u = Some h \<longrightarrow> (us_id u, h) \<in> set (ax_hashes s)))
     \<and> (\<forall>se\<in>set (ac_sessions (ax_db s)). mint_ok s se)
     \<and> (\<forall>t tx. ax_txs s t = Some tx \<longrightarrow> tx_ok s t tx)
     \<and> (\<exists>rs. ax_revs s = ac_oidc (ax_db s) # rs)"

text \<open>
  What a step may do to the tables without breaking a transaction \<open>t\<close> it does not belong to: rows \<open>t\<close>
  has locked stay as they are and gain no session, and a row keeps its kind of account.
\<close>

definition framed :: "acct_sys \<Rightarrow> acct_sys \<Rightarrow> nat \<Rightarrow> bool" where
  "framed s s' t \<longleftrightarrow>
     (\<forall>i. ax_locks s i = Some t \<longrightarrow> ax_locks s' i = Some t
        \<and> (\<forall>r. us_id r = i \<longrightarrow> r \<in> set (ac_users (ax_db s)) \<longrightarrow> r \<in> set (ac_users (ax_db s')))
        \<and> sids_of (ax_db s') i \<subseteq> sids_of (ax_db s) i)
     \<and> (\<forall>u'\<in>set (ac_users (ax_db s')). us_id u' \<in> set (ax_ids s) \<longrightarrow> (\<exists>u\<in>set (ac_users (ax_db s)). us_id u = us_id u' \<and> us_source u = us_source u'))
     \<and> set (ax_hashes s) \<subseteq> set (ax_hashes s') \<and> set (ax_ids s) \<subseteq> set (ax_ids s')"

lemma tx_ok_framed:
  assumes "tx_ok s t tx" "framed s s' t"
  shows "tx_ok s' t tx"
proof (cases tx)
  case (AdminTx i op todo got)
  then show ?thesis using assms by (auto simp: tx_ok_def framed_def)
next
  case (PassTx i h keep deleted)
  have "ax_locks s i = Some t" using assms(1) by (simp add: tx_ok_def PassTx)
  then show ?thesis using assms unfolding framed_def tx_ok_def PassTx by (simp add: subset_iff) (metis (no_types, opaque_lifting))
next
  case (LoginTx sid i token csrf expires h)
  then show ?thesis using assms unfolding framed_def tx_ok_def LoginTx by (simp add: subset_iff) metis
qed

lemma framedI:
  assumes "\<And>i. ax_locks s i = Some t \<Longrightarrow> ax_locks s' i = Some t"
    and "\<And>r. r \<in> set (ac_users (ax_db s)) \<Longrightarrow> ax_locks s (us_id r) = Some t \<Longrightarrow> r \<in> set (ac_users (ax_db s'))"
    and "\<And>se'. se' \<in> set (ac_sessions (ax_db s')) \<Longrightarrow> ax_locks s (se_user se') = Some t \<Longrightarrow>
      (se_id se', se_user se') \<in> (\<lambda>se. (se_id se, se_user se)) ` set (ac_sessions (ax_db s))"
    and "\<And>u'. u' \<in> set (ac_users (ax_db s')) \<Longrightarrow> us_id u' \<in> set (ax_ids s) \<Longrightarrow> \<exists>u\<in>set (ac_users (ax_db s)). us_id u = us_id u' \<and> us_source u = us_source u'"
    and "set (ax_hashes s) \<subseteq> set (ax_hashes s')" "set (ax_ids s) \<subseteq> set (ax_ids s')"
  shows "framed s s' t"
proof -
  have "sids_of (ax_db s') i \<subseteq> sids_of (ax_db s) i" if "ax_locks s i = Some t" for i
    using assms(3) that by (fastforce simp: sids_of_def)
  then show ?thesis using assms(1,2,4,5,6) by (auto simp: framed_def)
qed

lemma mint_ok_mono:
  assumes "mint_ok s se" "se_id se' = se_id se" "se_user se' = se_user se"
    and "\<And>u. u \<in> set (ac_users (ax_db s)) \<Longrightarrow> us_id u = se_user se \<Longrightarrow> \<exists>u'\<in>set (ac_users (ax_db s')). us_id u' = us_id u \<and> us_source u' = us_source u"
    and "ax_minted s' (se_id se) = ax_minted s (se_id se)"
    and "set (ax_hashes s) \<subseteq> set (ax_hashes s')" "set (ax_revs s) \<subseteq> set (ax_revs s')" "set (ax_sids s) \<subseteq> set (ax_sids s')"
  shows "mint_ok s' se'"
proof -
  obtain u where u: "u \<in> set (ac_users (ax_db s))" "us_id u = se_user se"
    "case ax_minted s (se_id se) of None \<Rightarrow> False
       | Some (ByPassword h) \<Rightarrow> us_source u \<noteq> ''oidc'' \<and> (se_user se, h) \<in> set (ax_hashes s)
       | Some (ByProvider cfg) \<Rightarrow> us_source u = ''oidc'' \<and> cfg \<in> set (ax_revs s)"
    using assms(1) by (auto simp: mint_ok_def)
  obtain u' where u': "u' \<in> set (ac_users (ax_db s'))" "us_id u' = us_id u" "us_source u' = us_source u" using assms(4)[OF u(1,2)] by blast
  have "case ax_minted s' (se_id se) of None \<Rightarrow> False
       | Some (ByPassword h) \<Rightarrow> us_source u' \<noteq> ''oidc'' \<and> (se_user se, h) \<in> set (ax_hashes s')
       | Some (ByProvider cfg) \<Rightarrow> us_source u' = ''oidc'' \<and> cfg \<in> set (ax_revs s')"
    using u(3) u'(3) assms(5,6,7) by (auto split: option.splits mint.splits)
  moreover have "se_id se \<noteq> 0" "se_id se \<in> set (ax_sids s')" using assms(1,8) by (auto simp: mint_ok_def)
  moreover have "us_id u' = se_user se" using u'(2) u(2) by simp
  ultimately show ?thesis using u'(1) unfolding mint_ok_def assms(2,3) by blast
qed

lemma acct_invI:
  assumes "acct_inv s"
    and "distinct (map us_id (ac_users (ax_db s')))" "us_id ` set (ac_users (ax_db s')) \<subseteq> set (ax_ids s')"
    and "\<And>u. u \<in> set (ac_users (ax_db s')) \<Longrightarrow> user_shape u \<and> (\<forall>h. us_hash u = Some h \<longrightarrow> (us_id u, h) \<in> set (ax_hashes s'))"
    and "\<And>se. se \<in> set (ac_sessions (ax_db s')) \<Longrightarrow> mint_ok s' se"
    and "\<And>t tx. ax_txs s' t = Some tx \<Longrightarrow> ax_txs s t = Some tx \<and> framed s s' t \<or> tx_ok s' t tx"
    and "\<exists>rs. ax_revs s' = ac_oidc (ax_db s') # rs"
  shows "acct_inv s'"
proof -
  have "tx_ok s' t tx" if "ax_txs s' t = Some tx" for t tx
    using assms(6)[OF that] assms(1) tx_ok_framed unfolding acct_inv_def by blast
  then show ?thesis using assms(2,3,4,5,7) unfolding acct_inv_def by blast
qed

text \<open>A step that touches the tables only, on rows nobody has locked.\<close>

lemma inv_tables:
  assumes "acct_inv s" "ax_locks s' = ax_locks s" "ax_txs s' = ax_txs s"
    and "distinct (map us_id (ac_users (ax_db s')))" "us_id ` set (ac_users (ax_db s')) \<subseteq> set (ax_ids s')"
    and "\<And>u. u \<in> set (ac_users (ax_db s')) \<Longrightarrow> user_shape u \<and> (\<forall>h. us_hash u = Some h \<longrightarrow> (us_id u, h) \<in> set (ax_hashes s'))"
    and "\<And>se. se \<in> set (ac_sessions (ax_db s')) \<Longrightarrow> mint_ok s' se"
    and "\<exists>rs. ax_revs s' = ac_oidc (ax_db s') # rs"
    and "\<And>r. r \<in> set (ac_users (ax_db s)) \<Longrightarrow> \<not> free s (us_id r) \<Longrightarrow> r \<in> set (ac_users (ax_db s'))"
    and "\<And>se'. se' \<in> set (ac_sessions (ax_db s')) \<Longrightarrow> \<not> free s (se_user se') \<Longrightarrow>
      (se_id se', se_user se') \<in> (\<lambda>se. (se_id se, se_user se)) ` set (ac_sessions (ax_db s))"
    and "\<And>u'. u' \<in> set (ac_users (ax_db s')) \<Longrightarrow> us_id u' \<in> set (ax_ids s) \<Longrightarrow> \<exists>u\<in>set (ac_users (ax_db s)). us_id u = us_id u' \<and> us_source u = us_source u'"
    and "set (ax_hashes s) \<subseteq> set (ax_hashes s')" "set (ax_ids s) \<subseteq> set (ax_ids s')"
  shows "acct_inv s'"
proof (rule acct_invI[OF assms(1,4,5,6,7) _ assms(8)])
  fix t tx
  assume "ax_txs s' t = Some tx"
  moreover have "framed s s' t" by (rule framedI) (use assms in \<open>auto simp: free_def\<close>)
  ultimately show "ax_txs s t = Some tx \<and> framed s s' t \<or> tx_ok s' t tx" using assms(3) by simp
qed

lemma inv_parts:
  assumes "acct_inv s"
  shows "distinct (map us_id (ac_users (ax_db s)))" "us_id ` set (ac_users (ax_db s)) \<subseteq> set (ax_ids s)"
    "u \<in> set (ac_users (ax_db s)) \<Longrightarrow> user_shape u" "u \<in> set (ac_users (ax_db s)) \<Longrightarrow> us_hash u = Some h \<Longrightarrow> (us_id u, h) \<in> set (ax_hashes s)"
    "se \<in> set (ac_sessions (ax_db s)) \<Longrightarrow> mint_ok s se" "ax_txs s t = Some tx \<Longrightarrow> tx_ok s t tx" "\<exists>rs. ax_revs s = ac_oidc (ax_db s) # rs"
  using assms by (auto simp: acct_inv_def)

lemma kept_by_map:
  assumes "\<And>u. us_id (f u) = us_id u \<and> us_source (f u) = us_source u" "u \<in> set us"
  shows "\<exists>u'\<in>set (map f us). us_id u' = us_id u \<and> us_source u' = us_source u"
  using assms by (intro bexI[of _ "f u"]) auto

text \<open>A row rewritten in place, its credential kept.\<close>

lemma rewritten_row:
  assumes inv: "acct_inv s" and g: "\<And>u. us_id (g u) = us_id u \<and> us_source (g u) = us_source u \<and> us_oidc (g u) = us_oidc u \<and> us_hash (g u) = us_hash u"
    and v: "v \<in> set (map (\<lambda>u. if us_id u = i then g u else u) (ac_users (ax_db s)))"
  shows "user_shape v \<and> (\<forall>h. us_hash v = Some h \<longrightarrow> (us_id v, h) \<in> set (ax_hashes s))"
proof -
  obtain w where w: "w \<in> set (ac_users (ax_db s))" "v = (if us_id w = i then g w else w)" using v by auto
  have "us_id v = us_id w" "us_source v = us_source w" "us_oidc v = us_oidc w" "us_hash v = us_hash w" using w(2) g by auto
  then show ?thesis using inv_parts(3,4)[OF inv w(1)] unfolding user_shape_def by metis
qed

text \<open>Steps that leave the users alone and add no session.\<close>

lemma inv_users_same:
  assumes inv: "acct_inv s" and same: "ac_users (ax_db s') = ac_users (ax_db s)" "ax_locks s' = ax_locks s" "ax_txs s' = ax_txs s"
    "ax_hashes s' = ax_hashes s" "ax_ids s' = ax_ids s" "ax_minted s' = ax_minted s" "ax_sids s' = ax_sids s"
    and sess: "(\<lambda>se. (se_id se, se_user se)) ` set (ac_sessions (ax_db s')) \<subseteq> (\<lambda>se. (se_id se, se_user se)) ` set (ac_sessions (ax_db s))"
    and revs: "\<exists>rs. ax_revs s' = ac_oidc (ax_db s') # rs" "set (ax_revs s) \<subseteq> set (ax_revs s')"
  shows "acct_inv s'"
proof (rule inv_tables[OF inv same(2,3)])
  fix se'
  assume "se' \<in> set (ac_sessions (ax_db s'))"
  then obtain se where se: "se \<in> set (ac_sessions (ax_db s))" "se_id se' = se_id se" "se_user se' = se_user se" using sess by force
  show "mint_ok s' se'" by (rule mint_ok_mono[OF inv_parts(5)[OF inv se(1)] se(2,3)]) (use same revs(2) in auto)
next
  show "\<And>se'. se' \<in> set (ac_sessions (ax_db s')) \<Longrightarrow> \<not> free s (se_user se') \<Longrightarrow>
      (se_id se', se_user se') \<in> (\<lambda>se. (se_id se, se_user se)) ` set (ac_sessions (ax_db s))" using sess by blast
qed (use same revs(1) inv_parts[OF inv] in auto)

lemma inv_create_user:
  assumes inv: "acct_inv s" and new: "fresh \<notin> set (ax_ids s)" "CreateUser now fresh username h role networks (ax_db s) = Inr db"
  shows "acct_inv (s\<lparr>ax_db := db, ax_ids := fresh # ax_ids s, ax_hashes := (fresh, h) # ax_hashes s\<rparr>)" (is "acct_inv ?s")
proof -
  obtain u where u: "ac_users db = ac_users (ax_db s) @ [u]" "us_id u = fresh" "us_source u = ''local''" "us_oidc u = None" "us_hash u = Some h"
    "fresh \<notin> us_id ` set (ac_users (ax_db s))" "ac_sessions db = ac_sessions (ax_db s)" "ac_oidc db = ac_oidc (ax_db s)"
    using CreateUser_effect[OF new(2)] by blast
  show ?thesis
  proof (rule inv_tables[OF inv])
    fix se
    assume "se \<in> set (ac_sessions (ax_db ?s))"
    then have "se \<in> set (ac_sessions (ax_db s))" using u(7) by simp
    then show "mint_ok ?s se" by (rule mint_ok_mono[OF inv_parts(5)[OF inv] refl refl]) (use u in auto)
  qed (use u new(1) inv_parts[OF inv] in \<open>auto simp: user_shape_def\<close>)
qed

lemma inv_upsert:
  assumes inv: "acct_inv s" and new: "fresh \<notin> set (ax_ids s)" and row: "\<And>u. oidc_row issuer subject (ax_db s) = Some u \<Longrightarrow> free s (us_id u)"
    and up: "upsertOIDCUser now fresh issuer subject username role networks rv (ax_db s) = Inr (res, db)"
  shows "acct_inv (s\<lparr>ax_db := db, ax_ids := fresh # ax_ids s, ax_demoted := n\<rparr>)" (is "acct_inv ?s")
  using up
proof (cases rule: upsert_cases)
  case (update u)
  have free: "free s (us_id u)" using row update(1) by simp
  show ?thesis
  proof (rule inv_tables[OF inv])
    show "distinct (map us_id (ac_users (ax_db ?s)))" using inv_parts(1)[OF inv] update(2) by (simp add: comp_def if_distrib cong: if_cong)
  next
    fix se
    assume "se \<in> set (ac_sessions (ax_db ?s))"
    then have "se \<in> set (ac_sessions (ax_db s))" using update(3) by simp
    moreover have "\<exists>u'\<in>set (ac_users (ax_db ?s)). us_id u' = us_id v \<and> us_source u' = us_source v" if "v \<in> set (ac_users (ax_db s))" for v
      using kept_by_map[OF _ that, of "\<lambda>v. if us_id v = us_id u then v\<lparr>us_username := username, us_role := role\<rparr> else v"] update(2) by simp
    ultimately show "mint_ok ?s se" by (intro mint_ok_mono[OF inv_parts(5)[OF inv] refl refl]) (blast | simp)+
  next
    fix v
    assume "v \<in> set (ac_users (ax_db ?s))"
    then show "user_shape v \<and> (\<forall>h. us_hash v = Some h \<longrightarrow> (us_id v, h) \<in> set (ax_hashes ?s))"
      using rewritten_row[OF inv, of "\<lambda>v. v\<lparr>us_username := username, us_role := role\<rparr>" v "us_id u"] update(2) by simp
  next
    fix r
    assume "r \<in> set (ac_users (ax_db s))" "\<not> free s (us_id r)"
    then show "r \<in> set (ac_users (ax_db ?s))" using update(2) free by force
  next
    fix v
    assume "v \<in> set (ac_users (ax_db ?s))"
    then show "\<exists>w\<in>set (ac_users (ax_db s)). us_id w = us_id v \<and> us_source w = us_source v" using update(2) by (auto split: if_splits)
  qed (use update inv_parts[OF inv] in auto)
next
  case (add u)
  show ?thesis
  proof (rule inv_tables[OF inv])
    fix se
    assume "se \<in> set (ac_sessions (ax_db ?s))"
    then have "se \<in> set (ac_sessions (ax_db s))" using add by simp
    then show "mint_ok ?s se" by (rule mint_ok_mono[OF inv_parts(5)[OF inv] refl refl]) (use add in auto)
  qed (use add new inv_parts[OF inv] in \<open>auto simp: user_shape_def\<close>)
qed

text \<open>A transaction that ends, with what it changed on the rows it held or nobody held.\<close>

lemma finish_simps [simp]:
  "ax_db (finish t s) = ax_db s" "ax_minted (finish t s) = ax_minted s" "ax_revs (finish t s) = ax_revs s" "ax_hashes (finish t s) = ax_hashes s"
  "ax_ids (finish t s) = ax_ids s" "ax_sids (finish t s) = ax_sids s" "ax_demoted (finish t s) = ax_demoted s"
  "ax_txs (finish t s) = (ax_txs s)(t := None)"
  by (simp_all add: finish_def)

lemma finish_lock: "ax_locks (finish t s) i = (if ax_locks s i = Some t then None else ax_locks s i)"
  by (simp add: finish_def)

lemma inv_finish:
  assumes inv: "acct_inv s" and same: "ax_locks s' = ax_locks s" "ax_txs s' = ax_txs s" "ax_ids s' = ax_ids s" "set (ax_hashes s) \<subseteq> set (ax_hashes s')"
    and users: "distinct (map us_id (ac_users (ax_db s')))"
      "\<And>u'. u' \<in> set (ac_users (ax_db s')) \<Longrightarrow> \<exists>u\<in>set (ac_users (ax_db s)). us_id u = us_id u' \<and> us_source u = us_source u'"
      "\<And>u. u \<in> set (ac_users (ax_db s')) \<Longrightarrow> user_shape u \<and> (\<forall>h. us_hash u = Some h \<longrightarrow> (us_id u, h) \<in> set (ax_hashes s'))"
      "\<And>r. r \<in> set (ac_users (ax_db s)) \<Longrightarrow> ax_locks s (us_id r) \<noteq> Some t \<Longrightarrow> \<not> free s (us_id r) \<Longrightarrow> r \<in> set (ac_users (ax_db s'))"
    and sess: "\<And>se. se \<in> set (ac_sessions (ax_db s')) \<Longrightarrow> mint_ok s' se"
      "\<And>se. se \<in> set (ac_sessions (ax_db s')) \<Longrightarrow> \<not> free s (se_user se) \<Longrightarrow> se \<in> set (ac_sessions (ax_db s))"
    and revs: "\<exists>rs. ax_revs s' = ac_oidc (ax_db s') # rs"
  shows "acct_inv (finish t s')"
proof (rule acct_invI[OF inv])
  show "us_id ` set (ac_users (ax_db (finish t s'))) \<subseteq> set (ax_ids (finish t s'))"
    using users(2) inv_parts(2)[OF inv] same(3) by fastforce
next
  fix se
  assume "se \<in> set (ac_sessions (ax_db (finish t s')))"
  then show "mint_ok (finish t s') se" using sess(1) unfolding mint_ok_def finish_simps by blast
next
  fix t' tx
  assume tx: "ax_txs (finish t s') t' = Some tx"
  then have t': "t' \<noteq> t" "ax_txs s t' = Some tx" using same(2) by (auto split: if_splits)
  have "framed s (finish t s') t'"
  proof (rule framedI)
    fix u'
    assume "u' \<in> set (ac_users (ax_db (finish t s')))"
    then show "\<exists>u\<in>set (ac_users (ax_db s)). us_id u = us_id u' \<and> us_source u = us_source u'" using users(2) by simp
  next
    fix se'
    assume "se' \<in> set (ac_sessions (ax_db (finish t s')))" "ax_locks s (se_user se') = Some t'"
    then show "(se_id se', se_user se') \<in> (\<lambda>se. (se_id se, se_user se)) ` set (ac_sessions (ax_db s))" using sess(2) by (force simp: free_def)
  qed (use t' same users(4) in \<open>auto simp: finish_lock free_def\<close>)
  then show "ax_txs s t' = Some tx \<and> framed s (finish t s') t' \<or> tx_ok (finish t s') t' tx" using t' by simp
qed (use users revs in auto)

lemma inv_admin_commit:
  assumes inv: "acct_inv s" and tx: "ax_txs s t = Some (AdminTx i op [] got)" and eff: "admin_effect now i op got (ax_db s) = Inr db"
  shows "acct_inv (finish t (s\<lparr>ax_db := db\<rparr>))"
proof -
  have ok: "tx_ok s t (AdminTx i op [] got)" by (rule inv_parts(6)[OF inv tx])
  have own: "ax_locks s i = Some t" if "i \<in> us_id ` set got" using ok that by (auto simp: tx_ok_def)
  show ?thesis using eff
  proof (cases rule: admin_effect_cases)
    case same
    have "acct_inv (finish t (s\<lparr>ax_db := ax_db s\<rparr>))"
    proof (rule inv_finish[OF inv])
      fix se
      assume "se \<in> set (ac_sessions (ax_db (s\<lparr>ax_db := ax_db s\<rparr>)))"
      then show "mint_ok (s\<lparr>ax_db := ax_db s\<rparr>) se" using inv_parts(5)[OF inv] by simp
    qed (use inv_parts[OF inv] in auto)
    then show ?thesis using same(1) by simp
  next
    case (flag d)
    let ?f = "\<lambda>u. if us_id u = i then u\<lparr>us_disabled := d\<rparr> else u"
    let ?s = "s\<lparr>ax_db := db\<rparr>"
    have u: "ac_users db = map ?f (ac_users (ax_db s))" "ac_sessions db = ac_sessions (ax_db s)" "ac_oidc db = ac_oidc (ax_db s)"
      by (auto simp: flag(1))
    show ?thesis
    proof (rule inv_finish[OF inv])
      show "distinct (map us_id (ac_users (ax_db ?s)))" using inv_parts(1)[OF inv] u(1) by (simp add: comp_def if_distrib cong: if_cong)
    next
      fix se
      assume "se \<in> set (ac_sessions (ax_db ?s))"
      then have se: "se \<in> set (ac_sessions (ax_db s))" using u(2) by simp
      have "\<exists>u'\<in>set (ac_users (ax_db ?s)). us_id u' = us_id v \<and> us_source u' = us_source v" if "v \<in> set (ac_users (ax_db s))" for v
        using kept_by_map[OF _ that, of ?f] u(1) by simp
      then show "mint_ok ?s se" using se by (intro mint_ok_mono[OF inv_parts(5)[OF inv] refl refl]) (blast | simp)+
    next
      fix r
      assume "r \<in> set (ac_users (ax_db s))" "ax_locks s (us_id r) \<noteq> Some t"
      then show "r \<in> set (ac_users (ax_db ?s))" using own flag(2) u(1) by force
    next
      fix v
      assume "v \<in> set (ac_users (ax_db ?s))"
      then show "user_shape v \<and> (\<forall>h. us_hash v = Some h \<longrightarrow> (us_id v, h) \<in> set (ax_hashes ?s))"
        using rewritten_row[OF inv, of "\<lambda>u. u\<lparr>us_disabled := d\<rparr>" v i] u(1) by simp
    next
      fix v
      assume "v \<in> set (ac_users (ax_db ?s))"
      then show "\<exists>w\<in>set (ac_users (ax_db s)). us_id w = us_id v \<and> us_source w = us_source v" using u(1) by (auto split: if_splits)
    qed (use u inv_parts[OF inv] in auto)
  next
    case gone
    let ?s = "s\<lparr>ax_db := db\<rparr>"
    show ?thesis
    proof (rule inv_finish[OF inv])
      show "distinct (map us_id (ac_users (ax_db ?s)))" using inv_parts(1)[OF inv] gone(1) by (simp add: distinct_map_filter)
    next
      fix se
      assume "se \<in> set (ac_sessions (ax_db ?s))"
      then have se: "se \<in> set (ac_sessions (ax_db s))" "se_user se \<noteq> i" using gone(2) by auto
      then show "mint_ok ?s se" by (intro mint_ok_mono[OF inv_parts(5)[OF inv] refl refl]) (use gone(1) in auto)
    next
      fix r
      assume "r \<in> set (ac_users (ax_db s))" "ax_locks s (us_id r) \<noteq> Some t"
      then show "r \<in> set (ac_users (ax_db ?s))" using own gone(1,4) by auto
    qed (use gone inv_parts[OF inv] in auto)
  qed
qed

lemma inv_pass_commit:
  assumes inv: "acct_inv s" and tx: "ax_txs s t = Some (PassTx i h keep (Some deleted))"
  shows "acct_inv (finish t (s\<lparr>ax_db := pass_effect i h deleted (ax_db s), ax_hashes := (i, h) # ax_hashes s\<rparr>))" (is "acct_inv (finish t ?s)")
proof -
  have ok: "ax_locks s i = Some t" "\<exists>u\<in>set (ac_users (ax_db s)). us_id u = i \<and> us_source u \<noteq> ''oidc''"
    using inv_parts(6)[OF inv tx] by (auto simp: tx_ok_def)
  let ?f = "\<lambda>u. if us_id u = i then u\<lparr>us_hash := Some h\<rparr> else u"
  show ?thesis
  proof (rule inv_finish[OF inv])
    show "distinct (map us_id (ac_users (ax_db ?s)))" using inv_parts(1)[OF inv] by (simp add: comp_def if_distrib cong: if_cong)
  next
    fix se
    assume "se \<in> set (ac_sessions (ax_db ?s))"
    then have se: "se \<in> set (ac_sessions (ax_db s))" by simp
    have "\<exists>u'\<in>set (ac_users (ax_db ?s)). us_id u' = us_id v \<and> us_source u' = us_source v" if "v \<in> set (ac_users (ax_db s))" for v
      using kept_by_map[OF _ that, of ?f] by simp
    then show "mint_ok ?s se" using se
      by (intro mint_ok_mono[OF inv_parts(5)[OF inv] refl refl]) (blast | simp | auto)+
  next
    fix v
    assume "v \<in> set (ac_users (ax_db ?s))"
    then obtain w where w: "w \<in> set (ac_users (ax_db s))" "v = ?f w" by auto
    show "user_shape v \<and> (\<forall>h'. us_hash v = Some h' \<longrightarrow> (us_id v, h') \<in> set (ax_hashes ?s))"
    proof (cases "us_id w = i")
      case True
      obtain u where "u \<in> set (ac_users (ax_db s))" "us_id u = i" "us_source u \<noteq> ''oidc''" using ok(2) by blast
      then have "w = u" using True w(1) inv_parts(1)[OF inv] by (metis distinct_map inj_on_contraD)
      then have "us_source w \<noteq> ''oidc''" using \<open>us_source u \<noteq> ''oidc''\<close> by simp
      then show ?thesis using inv_parts(3)[OF inv w(1)] w(2) True by (simp add: user_shape_def)
    next
      case False
      then show ?thesis using inv_parts(3,4)[OF inv w(1)] w(2) by simp
    qed
  next
    fix r
    assume "r \<in> set (ac_users (ax_db s))" "ax_locks s (us_id r) \<noteq> Some t"
    then show "r \<in> set (ac_users (ax_db ?s))" using ok(1) by force
  next
    fix v
    assume "v \<in> set (ac_users (ax_db ?s))"
    then show "\<exists>w\<in>set (ac_users (ax_db s)). us_id w = us_id v \<and> us_source w = us_source v" by (auto split: if_splits)
  qed (use inv_parts(7)[OF inv] in auto)
qed

text \<open>Minting a session for a user nobody holds.\<close>

lemma mint_ok_minted:
  assumes inv: "acct_inv s" and ins: "insert_session now sid token i csrf expires (ax_db s) = Inr db"
    and u: "u \<in> set (ac_users (ax_db s))" "us_id u = i" and sid: "sid \<noteq> 0"
    and m: "case m of ByPassword h \<Rightarrow> us_source u \<noteq> ''oidc'' \<and> (i, h) \<in> set (ax_hashes s) | ByProvider cfg \<Rightarrow> us_source u = ''oidc'' \<and> cfg \<in> set (ax_revs s)"
    and se: "se \<in> set (ac_sessions (ax_db (minted_session sid m db s)))"
  shows "mint_ok (minted_session sid m db s) se"
proof -
  obtain new where n: "ac_sessions db = ac_sessions (ax_db s) @ [new]" "se_id new = sid" "se_user new = i" "sid \<notin> se_id ` set (ac_sessions (ax_db s))"
    "ac_users db = ac_users (ax_db s)" using insert_session_effect[OF ins] by blast
  show ?thesis
  proof (cases "se = new")
    case True
    have "case ax_minted (minted_session sid m db s) sid of None \<Rightarrow> False
        | Some (ByPassword h) \<Rightarrow> us_source u \<noteq> ''oidc'' \<and> (i, h) \<in> set (ax_hashes s) | Some (ByProvider cfg) \<Rightarrow> us_source u = ''oidc'' \<and> cfg \<in> set (ax_revs s)"
      using m by (simp add: minted_session_def split: mint.splits)
    moreover have "ax_hashes (minted_session sid m db s) = ax_hashes s" "ax_revs (minted_session sid m db s) = ax_revs s"
      "sid \<in> set (ax_sids (minted_session sid m db s))" "u \<in> set (ac_users (ax_db (minted_session sid m db s)))"
      using u(1) n(5) by (simp_all add: minted_session_def)
    ultimately show ?thesis using sid u(2) unfolding mint_ok_def True n(2,3) by metis
  next
    case False
    then have old: "se \<in> set (ac_sessions (ax_db s))" using se n(1) by (auto simp: minted_session_def)
    then have "se_id se \<noteq> sid" using n(4) by blast
    then show ?thesis using n(5) by (intro mint_ok_mono[OF inv_parts(5)[OF inv old] refl refl]) (auto simp: minted_session_def)
  qed
qed

lemma inv_login_insert:
  assumes inv: "acct_inv s" and tx: "ax_txs s t = Some (LoginTx sid i token csrf expires h)" and row: "free s i" "user_at (ax_db s) i \<noteq> None"
    and sid: "sid \<noteq> 0" and ins: "insert_session now sid token i csrf expires (ax_db s) = Inr db"
  shows "acct_inv (finish t (minted_session sid (ByPassword h) db s))"
proof -
  obtain u where u: "u \<in> set (ac_users (ax_db s))" "us_id u = i" using row(2) user_at_in by blast
  have ok: "us_source u \<noteq> ''oidc'' \<and> (i, h) \<in> set (ax_hashes s)" using inv_parts(6)[OF inv tx] u by (auto simp: tx_ok_def)
  obtain new where n: "ac_sessions db = ac_sessions (ax_db s) @ [new]" "se_user new = i" "ac_users db = ac_users (ax_db s)" "ac_oidc db = ac_oidc (ax_db s)"
    using insert_session_effect[OF ins] by blast
  show ?thesis
  proof (rule inv_finish[OF inv])
    show "\<And>se. se \<in> set (ac_sessions (ax_db (minted_session sid (ByPassword h) db s))) \<Longrightarrow> mint_ok (minted_session sid (ByPassword h) db s) se"
      by (rule mint_ok_minted[OF inv ins u sid]) (use ok in auto)
  qed (use n row(1) inv_parts[OF inv] in \<open>auto simp: minted_session_def\<close>)
qed

lemma inv_oidc_session:
  assumes inv: "acct_inv s" and row: "free s i" "user_at (ax_db s) i = Some u" "us_source u = ''oidc''" "cfg \<in> set (ax_revs s)"
    and sid: "sid \<noteq> 0" and ins: "insert_session now sid token i csrf expires (ax_db s) = Inr db"
  shows "acct_inv (minted_session sid (ByProvider cfg) db s)"
proof -
  have u: "u \<in> set (ac_users (ax_db s))" "us_id u = i" using user_at_in[OF row(2)] by auto
  obtain new where n: "ac_sessions db = ac_sessions (ax_db s) @ [new]" "se_user new = i" "ac_users db = ac_users (ax_db s)" "ac_oidc db = ac_oidc (ax_db s)"
    using insert_session_effect[OF ins] by blast
  show ?thesis
  proof (rule inv_tables[OF inv])
    show "\<And>se. se \<in> set (ac_sessions (ax_db (minted_session sid (ByProvider cfg) db s))) \<Longrightarrow> mint_ok (minted_session sid (ByProvider cfg) db s) se"
      by (rule mint_ok_minted[OF inv ins u sid]) (use row in auto)
  qed (use n row(1) inv_parts[OF inv] in \<open>auto simp: minted_session_def\<close>)
qed

text \<open>Steps that only move a transaction on: the tables stay, locks are added on free rows.\<close>

lemma inv_tx:
  assumes inv: "acct_inv s" and s': "ax_db s' = ax_db s" "ax_minted s' = ax_minted s" "ax_revs s' = ax_revs s" "ax_hashes s' = ax_hashes s"
      "ax_ids s' = ax_ids s" "ax_sids s' = ax_sids s" "ax_txs s' = (ax_txs s)(t \<mapsto> tx)" "\<And>i t'. ax_locks s i = Some t' \<Longrightarrow> ax_locks s' i = Some t'"
    and tx: "tx_ok s' t tx"
  shows "acct_inv s'"
proof (rule acct_invI[OF inv])
  fix se
  assume "se \<in> set (ac_sessions (ax_db s'))"
  then show "mint_ok s' se" using inv_parts(5)[OF inv] unfolding mint_ok_def s'(1-6) by blast
next
  fix t1 tx1
  assume "ax_txs s' t1 = Some tx1"
  moreover have "framed s s' t1" by (rule framedI) (use s' in auto)
  ultimately show "ax_txs s t1 = Some tx1 \<and> framed s s' t1 \<or> tx_ok s' t1 tx1" using tx s'(7) by (auto split: if_splits)
qed (use s' inv_parts[OF inv] in auto)

lemma inv_lock_next:
  assumes inv: "acct_inv s" and tx: "ax_txs s t = Some (AdminTx i op (j # todo) got)" and row: "free s j"
  shows "acct_inv (lock_next t i op j todo got s)"
proof (cases "user_at (ax_db s) j")
  case None
  show ?thesis unfolding lock_next_def None option.case
    by (rule inv_tx[OF inv, of _ t "AdminTx i op todo got"]) (use inv_parts(6)[OF inv tx] in \<open>auto simp: tx_ok_def\<close>)
next
  case (Some u)
  have u: "u \<in> set (ac_users (ax_db s))" "us_id u = j" using user_at_in[OF Some] by auto
  show ?thesis unfolding lock_next_def Some option.case
    by (rule inv_tx[OF inv, of _ t "AdminTx i op todo (if guard_row i u then got @ [u] else got)"])
      (use inv_parts(6)[OF inv tx] row u in \<open>auto simp: tx_ok_def free_def\<close>)
qed

lemma checked_row:
  assumes "acct_inv s" and "reset_check i (ax_db s) = Inr u \<or> own_check i verified (ax_db s) = Inr u"
  shows "\<exists>u\<in>set (ac_users (ax_db s)). us_id u = i \<and> us_source u \<noteq> ''oidc''"
  using assms(2) by (auto simp: reset_check_def own_check_def split: option.splits if_splits dest!: user_at_in)

lemma inv_pass_lock:
  assumes inv: "acct_inv s" and row: "free s i" "\<exists>u\<in>set (ac_users (ax_db s)). us_id u = i \<and> us_source u \<noteq> ''oidc''"
  shows "acct_inv (s\<lparr>ax_locks := (ax_locks s)(i \<mapsto> t), ax_txs := (ax_txs s)(t \<mapsto> PassTx i h keep None)\<rparr>)"
  by (rule inv_tx[OF inv, of _ t "PassTx i h keep None"]) (use row in \<open>auto simp: tx_ok_def free_def\<close>)

lemma inv_pass_delete:
  assumes inv: "acct_inv s" and tx: "ax_txs s t = Some (PassTx i h keep None)"
  shows "acct_inv (s\<lparr>ax_txs := (ax_txs s)(t \<mapsto> PassTx i h keep (Some (map se_id (filter (sessions_but i keep) (ac_sessions (ax_db s))))))\<rparr>)"
  by (rule inv_tx[OF inv, of _ t "PassTx i h keep (Some (map se_id (filter (sessions_but i keep) (ac_sessions (ax_db s)))))"])
    (use inv_parts(6)[OF inv tx] in \<open>auto simp: tx_ok_def sids_of_def sessions_but_def Let_def\<close>)

lemma inv_login_read:
  assumes inv: "acct_inv s" and row: "list_ex (local_login_row i h) (ac_users (ax_db s))"
  shows "acct_inv (s\<lparr>ax_txs := (ax_txs s)(t \<mapsto> LoginTx sid i token csrf expires h)\<rparr>)"
proof (rule inv_tx[OF inv, of _ t "LoginTx sid i token csrf expires h"])
  obtain u where u: "u \<in> set (ac_users (ax_db s))" "us_id u = i" "us_source u = ''local''" "us_hash u = Some h"
    using row by (auto simp: list_ex_iff local_login_row_def)
  have "us_source v \<noteq> ''oidc''" if "v \<in> set (ac_users (ax_db s))" "us_id v = i" for v
  proof -
    have "v = u" using that u(1,2) inv_parts(1)[OF inv] by (metis distinct_map inj_on_contraD)
    then show ?thesis using u(3) by simp
  qed
  moreover have "(i, h) \<in> set (ax_hashes s)" "i \<in> set (ax_ids s)" using inv_parts(4)[OF inv u(1,4)] inv_parts(2)[OF inv] u(1,2) by auto
  ultimately show "tx_ok (s\<lparr>ax_txs := (ax_txs s)(t \<mapsto> LoginTx sid i token csrf expires h)\<rparr>) t (LoginTx sid i token csrf expires h)"
    by (simp add: tx_ok_def)
qed auto

lemma inv_rollback: "acct_inv s \<Longrightarrow> acct_inv (finish t s)"
  by (rule inv_finish) (use inv_parts[of s] in auto)

lemma acct_inv_step: "acct_step s s' \<Longrightarrow> acct_inv s \<Longrightarrow> acct_inv s'"
proof (induction rule: acct_step.induct)
  case (x_set_networks s i networks db)
  then show ?case using SetUserNetworks_effect[OF x_set_networks(2)] by (intro inv_users_same[OF x_set_networks(3)]) (auto dest: inv_parts(7))
next
  case (x_networks s ns)
  then show ?case by (intro inv_users_same[OF x_networks]) (auto dest: inv_parts(7))
next
  case (x_admin_begin s t i op)
  show ?case by (rule inv_tx[OF x_admin_begin(2), of _ t]) (auto simp: tx_ok_def)
next
  case (x_upsert cfg s fresh issuer subject now username role networks res db)
  then show ?case by (intro inv_upsert)
next
  case (x_oidc_session cfg s i u sid now token csrf expires db)
  then show ?case by (intro inv_oidc_session[of s i u]) (auto dest: CreateOIDCSession_effect)
next
  case (x_settings now o1 ks kr ku s out revoked db)
  then show ?case using settings_effect[OF x_settings(1)] by (intro inv_users_same[OF x_settings(2)]) (auto split: if_splits)
next
  case (x_sessions_end s P)
  then show ?case by (intro inv_users_same[OF x_sessions_end]) (auto dest: inv_parts(7))
next
  case (x_touch s now sid)
  have "(\<lambda>se. (se_id se, se_user se)) ` set (ac_sessions (TouchSession now sid (ax_db s))) = (\<lambda>se. (se_id se, se_user se)) ` set (ac_sessions (ax_db s))"
    using TouchSession_effect[of now sid "ax_db s"] by (metis set_map)
  then show ?case using TouchSession_effect[of now sid "ax_db s"] by (intro inv_users_same[OF x_touch]) (use inv_parts(7)[OF x_touch] in auto)
next
  case (x_record_login now i s db)
  then show ?case using RecordLogin_effect[OF x_record_login(1)] by (intro inv_users_same[OF x_record_login(2)]) (auto dest: inv_parts(7))
qed (auto intro: inv_create_user inv_lock_next inv_admin_commit inv_pass_lock checked_row inv_pass_delete inv_pass_commit inv_login_read inv_login_insert inv_rollback)

lemma acct_inv_start: "start_ok db \<Longrightarrow> acct_inv (acct_start db)"
  by (fastforce simp: acct_inv_def acct_start_def start_ok_def user_shape_def)

lemma acct_inv_reachable: "acct_step\<^sup>*\<^sup>* s s' \<Longrightarrow> acct_inv s \<Longrightarrow> acct_inv s'"
  by (induction rule: rtranclp_induct) (auto intro: acct_inv_step)

end
