(* ===== verification/Accounts_Correct.thy ===== *)
theory Accounts_Correct
  imports Accounts_Inv
begin

text \<open>
  The properties of accounts and sessions over all interleavings of \<open>Accounts_Tx\<close>: an enabled admin
  always remains, a single sign-on session never outlives the policy it was mapped under, and a
  changed password locks out the old one but for the logins that were in flight.
\<close>

section \<open>The last admin\<close>

definition has_admin :: "accounts \<Rightarrow> bool" where
  "has_admin db \<longleftrightarrow> (\<exists>u\<in>set (ac_users db). active_admin u)"

lemma has_admin_map: "ac_users db = map f us \<Longrightarrow> a \<in> set us \<Longrightarrow> active_admin (f a) \<Longrightarrow> has_admin db"
  unfolding has_admin_def by (intro bexI[of _ "f a"]) simp_all

text \<open>What the guard read still holds when the transaction commits, because it holds the rows.\<close>

lemma guard_sound:
  assumes inv: "acct_inv s" and tx: "ax_txs s t = Some (AdminTx i op [] got)" and g: "guard_result i got = Inr (role, dis, n)"
  shows "\<exists>u\<in>set (ac_users (ax_db s)). us_id u = i \<and> us_role u = role \<and> us_disabled u = dis"
    "n \<noteq> 0 \<Longrightarrow> \<exists>u\<in>set (ac_users (ax_db s)). us_id u \<noteq> i \<and> active_admin u"
proof -
  have got: "r \<in> set (ac_users (ax_db s))" if "r \<in> set got" for r using inv_parts(6)[OF inv tx] that by (simp add: tx_ok_def)
  obtain u where u: "find (\<lambda>u. us_id u = i) got = Some u" "role = us_role u" "dis = us_disabled u"
    "n = length (filter (\<lambda>r. us_id r \<noteq> i \<and> active_admin r) got)" using g by (auto simp: guard_result_def split: option.splits)
  have "u \<in> set got" "us_id u = i" using u(1) by (auto simp: find_Some_iff)
  then show "\<exists>u\<in>set (ac_users (ax_db s)). us_id u = i \<and> us_role u = role \<and> us_disabled u = dis" using got u(2,3) by blast
  assume "n \<noteq> 0"
  then have "filter (\<lambda>r. us_id r \<noteq> i \<and> active_admin r) got \<noteq> []" using u(4) by simp
  then obtain r where "r \<in> set got" "us_id r \<noteq> i" "active_admin r" by (auto simp: filter_empty_conv)
  then show "\<exists>u\<in>set (ac_users (ax_db s)). us_id u \<noteq> i \<and> active_admin u" using got by blast
qed

lemma admin_commit_keeps_admin:
  assumes inv: "acct_inv s" and tx: "ax_txs s t = Some (AdminTx i op [] got)" and eff: "admin_effect now i op got (ax_db s) = Inr db"
    and adm: "has_admin (ax_db s)"
  shows "has_admin db"
proof -
  obtain role dis n where g: "guard_result i got = Inr (role, dis, n)" using eff by (auto simp: admin_effect_def split: sum.splits)
  obtain r where r: "r \<in> set (ac_users (ax_db s))" "us_id r = i" "us_role r = role" "us_disabled r = dis" using guard_sound(1)[OF inv tx g] by blast
  obtain a where a: "a \<in> set (ac_users (ax_db s))" "active_admin a" using adm by (auto simp: has_admin_def)
  have same: "a = r" if "us_id a = i" using that r a inv_parts(1)[OF inv] by (metis distinct_map inj_on_contraD)
  have other: "\<exists>u\<in>set (ac_users (ax_db s)). us_id u \<noteq> i \<and> active_admin u" if "\<not> (role = ''admin'' \<and> \<not> dis) \<or> n \<noteq> 0"
  proof (cases "n = 0")
    case True
    then have "\<not> active_admin r" using that r(3,4) by (auto simp: active_admin_def)
    then show ?thesis using a same by blast
  qed (use guard_sound(2)[OF inv tx g] in blast)
  show ?thesis
  proof (cases op)
    case (OpDisable d)
    have "db = ax_db s \<or> db = update_user i (\<lambda>u. u\<lparr>us_disabled := d\<rparr>) (ax_db s) \<and> dis \<noteq> d \<and> (d \<longrightarrow> \<not> (role = ''admin'' \<and> n = 0))"
      using eff g by (auto simp: admin_effect_def OpDisable set_disabled_def split: if_splits)
    then consider "db = ax_db s" | "ac_users db = map (\<lambda>u. if us_id u = i then u\<lparr>us_disabled := d\<rparr> else u) (ac_users (ax_db s))" "dis \<noteq> d" "d \<Longrightarrow> \<not> (role = ''admin'' \<and> n = 0)"
      by auto
    then show ?thesis
    proof cases
      case 2
      show ?thesis
      proof (cases "d")
        case True
        then obtain u where "u \<in> set (ac_users (ax_db s))" "us_id u \<noteq> i" "active_admin u" using other 2(3) by blast
        then show ?thesis using 2(1) by (force simp: has_admin_def)
      next
        case False
        let ?f = "\<lambda>u. if us_id u = i then u\<lparr>us_disabled := d\<rparr> else u"
        have "active_admin (?f a)" using a(2) False by (auto simp: active_admin_def)
        then show ?thesis by (rule has_admin_map[OF 2(1) a(1)])
      qed
    qed (use adm in simp)
  next
    case OpDelete
    have "ac_users db = filter (\<lambda>u. us_id u \<noteq> i) (ac_users (ax_db s))" "\<not> (role = ''admin'' \<and> \<not> dis \<and> n = 0)"
      using eff g by (auto simp: admin_effect_def OpDelete delete_user_def deleteUserSessions_def delete_sessions_def split: if_splits)
    moreover obtain u where "u \<in> set (ac_users (ax_db s))" "us_id u \<noteq> i" "active_admin u" using other calculation(2) by blast
    ultimately show ?thesis by (auto simp: has_admin_def)
  qed
qed

lemma upsert_keeps_admin:
  assumes "acct_inv s" "upsertOIDCUser now fresh issuer subject username role networks rv (ax_db s) = Inr (res, db)"
    "\<not> demotes issuer subject role (ax_db s)" "has_admin (ax_db s)"
  shows "has_admin db"
  using assms(2)
proof (cases rule: upsert_cases)
  case (update u)
  let ?f = "\<lambda>v. if us_id v = us_id u then v\<lparr>us_username := username, us_role := role\<rparr> else v"
  have u: "u \<in> set (ac_users (ax_db s))" using update(1) by (auto simp: oidc_row_def find_Some_iff)
  obtain a where a: "a \<in> set (ac_users (ax_db s))" "active_admin a" using assms(4) by (auto simp: has_admin_def)
  have "a = u" if "us_id a = us_id u" using that u a inv_parts(1)[OF assms(1)] by (metis distinct_map inj_on_contraD)
  then have "active_admin (?f a)" using a(2) assms(3) update(1) by (auto simp: demotes_def active_admin_def)
  then show ?thesis by (rule has_admin_map[OF update(2) a(1)])
qed (use assms(4) in \<open>auto simp: has_admin_def\<close>)

lemma step_keeps_admin:
  assumes "acct_step s s'" "acct_inv s"
  shows "ax_demoted s \<le> ax_demoted s'" "ax_demoted s' = ax_demoted s \<Longrightarrow> has_admin (ax_db s) \<Longrightarrow> has_admin (ax_db s')"
proof -
  show "ax_demoted s \<le> ax_demoted s'" using assms(1) by cases (auto simp: lock_next_def minted_session_def split: option.splits)
  assume d: "ax_demoted s' = ax_demoted s" "has_admin (ax_db s)"
  show "has_admin (ax_db s')" using assms(1)
  proof cases
    case (x_create_user fresh now username h role networks db)
    then show ?thesis using CreateUser_effect[OF x_create_user(3)] d(2) by (auto simp: has_admin_def)
  next
    case (x_admin_commit t i op got now db)
    then show ?thesis using admin_commit_keeps_admin[OF assms(2) x_admin_commit(2,3) d(2)] by simp
  next
    case (x_pass_commit t i h keep deleted)
    let ?f = "\<lambda>u. if us_id u = i then u\<lparr>us_hash := Some h\<rparr> else u"
    obtain a where a: "a \<in> set (ac_users (ax_db s))" "active_admin a" using d(2) by (auto simp: has_admin_def)
    then have "active_admin (?f a)" by (simp add: active_admin_def)
    then show ?thesis using a(1) x_pass_commit(1) by (intro has_admin_map[of _ ?f "ac_users (ax_db s)" a]) simp_all
  next
    case (x_upsert cfg fresh issuer subject now username role networks res db)
    have "\<not> demotes issuer subject role (ax_db s)" using d(1) x_upsert(1) by simp
    then show ?thesis using upsert_keeps_admin[OF assms(2) x_upsert(5)] d(2) x_upsert(1) by simp
  qed (use d(2) in \<open>auto simp: has_admin_def lock_next_def minted_session_def TouchSession_effect split: option.splits
      dest!: SetUserNetworks_effect insert_session_effect CreateOIDCSession_effect settings_effect RecordLogin_effect\<close>)
qed

text \<open>
  C33: There is always an enabled admin. However disabling, deleting and creating of users, password
  changes, logins and settings writes interleave, row lock by row lock, an installation that has an
  enabled admin keeps one: two admins who disable each other at the same time cannot both succeed.
  The one way to lose the last admin is a federated login whose claims no longer map to admin,
  which \<open>ax_demoted\<close> counts.
\<close>

theorem last_admin_kept:
  assumes "start_ok db" "has_admin db" "acct_step\<^sup>*\<^sup>* (acct_start db) s" "ax_demoted s = 0"
  shows "has_admin (ax_db s)"
proof -
  have "ax_demoted s = 0 \<longrightarrow> has_admin (ax_db s)" using assms(3)
  proof (induction rule: rtranclp_induct)
    case base
    then show ?case using assms(2) by (simp add: acct_start_def)
  next
    case (step s1 s2)
    have "acct_inv s1" using acct_inv_reachable[OF step(1) acct_inv_start[OF assms(1)]] .
    note k = step_keeps_admin[OF step(2) this]
    show ?case
    proof
      assume "ax_demoted s2 = 0"
      then have "ax_demoted s1 = 0" "ax_demoted s2 = ax_demoted s1" using k(1) by auto
      then show "has_admin (ax_db s2)" using k(2) step(3) by simp
    qed
  qed
  then show ?thesis using assms(4) by simp
qed

definition demo_user :: "uuid \<Rightarrow> string \<Rightarrow> string \<Rightarrow> user_row" where
  "demo_user i name role = \<lparr>us_id = i, us_username = name, us_hash = Some (''hash-'' @ name), us_role = role, us_disabled = False,
     us_source = ''local'', us_oidc = None, us_created = 0\<rparr>"

definition demo_oidc :: OIDCSettings where
  "demo_oidc = \<lparr>os_Enabled = True, os_Issuer = ''https://idp'', os_ClientID = ''pb'', os_ClientSecret = ''s'', os_RedirectURL = '''', os_Scopes = [''openid''],
     os_UsernameClaim = ''email'', os_RoleClaim = ''groups'', os_AdminValues = [''ops''], os_RoleRules = [], os_UnmatchedRole = ''viewer'',
     os_CAPEM = '''', os_UpdatedAt = 1, os_UpdatedBy = ''''\<rparr>"

definition demo_accounts :: accounts where
  "demo_accounts = \<lparr>ac_users = [demo_user 3 ''ann'' ''admin'', demo_user 5 ''bob'' ''admin''], ac_sessions = [], ac_scope = [], ac_networks = [],
     ac_oidc = demo_oidc, ac_logins = [], ac_activity = Map.empty\<rparr>"

lemma demo_start_ok: "start_ok demo_accounts" "has_admin demo_accounts"
  by (simp_all add: start_ok_def demo_accounts_def demo_user_def has_admin_def active_admin_def)

lemma step_rtrancl: "acct_step\<^sup>*\<^sup>* a b \<Longrightarrow> acct_step b c \<Longrightarrow> acct_step\<^sup>*\<^sup>* a c"
  by (rule rtranclp.rtrancl_into_rtrancl)

text \<open>Ann and Bob disable each other: both read two admins, Ann gets the locks first.\<close>

lemma demo_race:
  "\<exists>s :: acct_sys. acct_step\<^sup>*\<^sup>* (acct_start demo_accounts) s \<and> ax_demoted s = 0 \<and> map us_disabled (ac_users (ax_db s)) = [False, True]
     \<and> ax_txs s 8 = Some (AdminTx 3 (OpDisable True) [3, 5] [])"
proof -
  let ?a = "demo_user 3 ''ann'' ''admin''" and ?b = "demo_user 5 ''bob'' ''admin''"
  let ?op = "OpDisable True" and ?s0 = "acct_start demo_accounts"
  let ?db = "update_user 5 (\<lambda>u. u\<lparr>us_disabled := True\<rparr>) demo_accounts"
  let ?s1 = "?s0\<lparr>ax_txs := [7 \<mapsto> AdminTx 5 ?op [3, 5] []]\<rparr>"
  let ?s2 = "?s0\<lparr>ax_txs := [7 \<mapsto> AdminTx 5 ?op [3, 5] [], 8 \<mapsto> AdminTx 3 ?op [3, 5] []]\<rparr>"
  let ?s3 = "?s0\<lparr>ax_locks := [3 \<mapsto> 7], ax_txs := [7 \<mapsto> AdminTx 5 ?op [5] [?a], 8 \<mapsto> AdminTx 3 ?op [3, 5] []]\<rparr>"
  let ?s4 = "?s0\<lparr>ax_locks := [3 \<mapsto> 7, 5 \<mapsto> 7], ax_txs := [7 \<mapsto> AdminTx 5 ?op [] [?a, ?b], 8 \<mapsto> AdminTx 3 ?op [3, 5] []]\<rparr>"
  let ?s5 = "finish 7 (?s4\<lparr>ax_db := ?db\<rparr>)"
  have ids: "guard_ids i demo_accounts = [3, 5]" for i
    by (simp add: guard_ids_def demo_accounts_def guard_row_def active_admin_def demo_user_def)
  have db: "ax_db ?s0 = demo_accounts" "ax_locks ?s0 = Map.empty" "ax_txs ?s0 = Map.empty" "ax_demoted ?s0 = 0" by (simp_all add: acct_start_def)
  have at: "user_at demo_accounts 3 = Some ?a" "user_at demo_accounts 5 = Some ?b" by (simp_all add: user_at_def demo_accounts_def demo_user_def)
  have g: "guard_row 5 ?a" "guard_row 5 ?b" by (simp_all add: guard_row_def active_admin_def demo_user_def)
  have s3: "lock_next 7 5 ?op 3 [5] [] ?s2 = ?s3" using at(1) g(1) by (simp add: lock_next_def db fun_upd_twist)
  have s4: "lock_next 7 5 ?op 5 [] [?a] ?s3 = ?s4" using at(2) g(2) by (simp add: lock_next_def db fun_upd_twist)
  have eff: "admin_effect 0 5 ?op [?a, ?b] demo_accounts = Inr ?db"
    by (simp add: admin_effect_def guard_result_def active_admin_def demo_user_def set_disabled_def)
  have "acct_step ?s0 ?s1" using x_admin_begin[of ?s0 7 5 ?op] ids[of 5] db by simp
  moreover have "acct_step ?s1 ?s2" using x_admin_begin[of ?s1 8 3 ?op] ids[of 3] db by simp
  moreover have "acct_step ?s2 ?s3" using x_admin_lock[of ?s2 7 5 ?op 3 "[5]" "[]"] s3 by (simp add: free_def db)
  moreover have "acct_step ?s3 ?s4" using x_admin_lock[of ?s3 7 5 ?op 5 "[]" "[?a]"] s4 by (simp add: free_def db)
  moreover have "acct_step ?s4 ?s5" using x_admin_commit[of ?s4 7 5 ?op "[?a, ?b]" 0 ?db] eff by (simp add: db)
  ultimately have "acct_step\<^sup>*\<^sup>* ?s0 ?s5" by (meson converse_rtranclp_into_rtranclp rtranclp.rtrancl_refl)
  moreover have "ax_demoted ?s5 = 0 \<and> map us_disabled (ac_users (ax_db ?s5)) = [False, True] \<and> ax_txs ?s5 8 = Some (AdminTx 3 ?op [3, 5] [])"
    by (simp add: acct_start_def demo_accounts_def demo_user_def)
  ultimately show ?thesis by (intro exI[of _ ?s5] conjI) simp_all
qed

theorem last_admin_kept_witness:
  "\<exists>s :: acct_sys. map us_disabled (ac_users (ax_db s)) = [False, True] \<and> has_admin (ax_db s)"
proof -
  obtain s where s: "acct_step\<^sup>*\<^sup>* (acct_start demo_accounts) s" "ax_demoted s = 0" "map us_disabled (ac_users (ax_db s)) = [False, True]"
    using demo_race by (elim exE conjE)
  show ?thesis by (intro exI[of _ s] conjI s(3) last_admin_kept[OF demo_start_ok s(1,2)])
qed

section \<open>Single sign-on sessions\<close>

text \<open>The provider and every input of the mapping from claims to roles are the same.\<close>

definition same_policy :: "OIDCSettings \<Rightarrow> OIDCSettings \<Rightarrow> bool" where
  "same_policy a b \<longleftrightarrow> os_Issuer a = os_Issuer b \<and> os_ClientID a = os_ClientID b \<and> os_RoleClaim a = os_RoleClaim b
     \<and> os_AdminValues a = os_AdminValues b \<and> os_RoleRules a = os_RoleRules b \<and> os_UnmatchedRole a = os_UnmatchedRole b"

lemma roleRulesEqual_eq: "roleRulesEqual a b \<longleftrightarrow> a = b"
proof -
  have "(\<lambda>x y. ru_Value x = ru_Value y \<and> ru_Role x = ru_Role y \<and> ru_Networks x = ru_Networks y) = ((=) :: OIDCRoleRule \<Rightarrow> _)"
    by (intro ext) (auto intro: OIDCRoleRule.equality)
  then show ?thesis by (simp add: roleRulesEqual_def list.rel_eq)
qed

lemma settings_policy:
  assumes "UpdateOIDCSettings now o1 ks kr ku db = Inr (out, revoked, db')" "\<not> (provider_changed (ac_oidc db) o1 \<or> policy_changed (ac_oidc db) out)"
  shows "same_policy (ac_oidc db) out"
  using assms(2) settings_effect[OF assms(1)] by (auto simp: same_policy_def provider_changed_def policy_changed_def roleRulesEqual_eq merged_settings_def)

definition fed_current :: "acct_sys \<Rightarrow> bool" where
  "fed_current s \<longleftrightarrow> (\<forall>se\<in>set (ac_sessions (ax_db s)). \<forall>cfg. ax_minted s (se_id se) = Some (ByProvider cfg) \<longrightarrow> same_policy cfg (ac_oidc (ax_db s)))"

text \<open>Steps that neither mint nor write the settings.\<close>

lemma fed_current_mono:
  assumes "fed_current s" "ax_minted s' = ax_minted s" "ac_oidc (ax_db s') = ac_oidc (ax_db s)"
    "se_id ` set (ac_sessions (ax_db s')) \<subseteq> se_id ` set (ac_sessions (ax_db s))"
  shows "fed_current s'"
  unfolding fed_current_def assms(2,3)
proof (intro ballI allI impI)
  fix se cfg
  assume "se \<in> set (ac_sessions (ax_db s'))" "ax_minted s (se_id se) = Some (ByProvider cfg)"
  moreover from this(1) obtain se0 where "se0 \<in> set (ac_sessions (ax_db s))" "se_id se0 = se_id se" using assms(4) by force
  ultimately show "same_policy cfg (ac_oidc (ax_db s))" using assms(1) unfolding fed_current_def by metis
qed

lemma fed_current_minted:
  assumes "fed_current s" "insert_session now sid token i csrf expires (ax_db s) = Inr db"
    "\<And>cfg. m = ByProvider cfg \<Longrightarrow> same_policy cfg (ac_oidc (ax_db s))"
  shows "fed_current (minted_session sid m db s)"
proof -
  obtain new where n: "ac_sessions db = ac_sessions (ax_db s) @ [new]" "se_id new = sid" "sid \<notin> se_id ` set (ac_sessions (ax_db s))" "ac_oidc db = ac_oidc (ax_db s)"
    using insert_session_effect[OF assms(2)] by blast
  have "se_id se \<noteq> sid" if "se \<in> set (ac_sessions (ax_db s))" for se using that n(3) by blast
  then show ?thesis using assms(1,3) n by (auto simp: fed_current_def minted_session_def)
qed

lemma fed_current_step:
  assumes "acct_step s s'" "acct_inv s" "distinct (map os_UpdatedAt (ax_revs s'))" "fed_current s"
  shows "fed_current s'"
  using assms(1)
proof cases
  case (x_create_user fresh now username h role networks db)
  then show ?thesis using CreateUser_effect[OF x_create_user(3)] by (intro fed_current_mono[OF assms(4)]) auto
next
  case (x_set_networks i networks db)
  then show ?thesis using SetUserNetworks_effect[OF x_set_networks(3)] by (intro fed_current_mono[OF assms(4)]) auto
next
  case (x_admin_commit t i op got now db)
  from x_admin_commit(3) have "ac_oidc db = ac_oidc (ax_db s) \<and> se_id ` set (ac_sessions db) \<subseteq> se_id ` set (ac_sessions (ax_db s))"
    by (cases rule: admin_effect_cases) auto
  then show ?thesis using x_admin_commit(1) by (intro fed_current_mono[OF assms(4)]) auto
next
  case (x_login_insert t sid i token csrf expires h now db)
  have "fed_current (minted_session sid (ByPassword h) db s)" by (rule fed_current_minted[OF assms(4) x_login_insert(7)]) simp
  then show ?thesis unfolding x_login_insert(1) by (rule fed_current_mono) auto
next
  case (x_upsert cfg fresh issuer subject now username role networks res db)
  from x_upsert(5) have "ac_oidc db = ac_oidc (ax_db s) \<and> ac_sessions db = ac_sessions (ax_db s)" by (cases rule: upsert_cases) auto
  then show ?thesis using x_upsert(1) by (intro fed_current_mono[OF assms(4)]) auto
next
  case (x_oidc_session cfg i u sid now token csrf expires db)
  note e = CreateOIDCSession_effect[OF x_oidc_session(8)]
  have cur: "ac_oidc (ax_db s) \<in> set (ax_revs s)" using inv_parts(7)[OF assms(2)] by force
  have "distinct (map os_UpdatedAt (ax_revs s))" using assms(3) x_oidc_session(1) by (simp add: minted_session_def)
  then have "cfg = ac_oidc (ax_db s)" using cur x_oidc_session(2) e by (metis distinct_map inj_on_contraD)
  then show ?thesis unfolding x_oidc_session(1) using e by (intro fed_current_minted[OF assms(4)]) (auto simp: same_policy_def)
next
  case (x_settings now o1 ks kr ku out revoked db)
  note e = settings_effect[OF x_settings(2)]
  show ?thesis
  proof (cases "provider_changed (ac_oidc (ax_db s)) o1 \<or> policy_changed (ac_oidc (ax_db s)) out")
    case True
    have "ax_minted s (se_id se) \<noteq> Some (ByProvider cfg)" if "se \<in> set (ac_sessions db)" for se cfg
    proof
      assume m: "ax_minted s (se_id se) = Some (ByProvider cfg)"
      have "se \<in> set (ac_sessions (ax_db s))" "\<not> federated_session (ax_db s) se" using that e True by auto
      then show False using m inv_parts(5)[OF assms(2), of se] by (auto simp: mint_ok_def federated_session_def list_ex_iff)
    qed
    then show ?thesis using x_settings(1) by (simp add: fed_current_def)
  next
    case False
    have "same_policy (ac_oidc (ax_db s)) out" by (rule settings_policy[OF x_settings(2) False])
    then show ?thesis using x_settings(1) e False assms(4) by (auto simp: fed_current_def same_policy_def)
  qed
next
  case (x_touch now sid)
  have "map fst (map (\<lambda>se. (se_id se, se_user se)) (ac_sessions (TouchSession now sid (ax_db s)))) = map fst (map (\<lambda>se. (se_id se, se_user se)) (ac_sessions (ax_db s)))"
    using TouchSession_effect[of now sid "ax_db s"] by simp
  then have "se_id ` set (ac_sessions (TouchSession now sid (ax_db s))) = se_id ` set (ac_sessions (ax_db s))" by (metis (no_types, lifting) comp_def fst_conv list.set_map map_eq_conv map_map)
  then show ?thesis using TouchSession_effect[of now sid "ax_db s"] x_touch by (intro fed_current_mono[OF assms(4)]) auto
next
  case (x_record_login now i db)
  then show ?thesis using RecordLogin_effect[OF x_record_login(2)] by (intro fed_current_mono[OF assms(4)]) auto
qed (auto simp: lock_next_def split: option.splits intro!: fed_current_mono[OF assms(4)])

lemma revs_grow: "acct_step s s' \<Longrightarrow> \<exists>rs. ax_revs s' = rs @ ax_revs s"
  by (induction rule: acct_step.induct) (auto simp: lock_next_def minted_session_def split: option.splits)

text \<open>
  C34: Access through single sign-on never outlives the policy it was granted under. However logins that
  are still at the identity provider, settings writes and account changes interleave, every live
  session of a federated user was minted under the provider and the role mapping that are configured
  now: a write that changes either leaves no session of before, and no login that read the old
  settings adds one. The settings rows must differ in \<open>updated_at\<close>, by which the code tells them
  apart.
\<close>

theorem federated_sessions_current:
  assumes "start_ok db" "acct_step\<^sup>*\<^sup>* (acct_start db) s" "distinct (map os_UpdatedAt (ax_revs s))"
    "se \<in> set (ac_sessions (ax_db s))" "federated_session (ax_db s) se"
  shows "\<exists>cfg. ax_minted s (se_id se) = Some (ByProvider cfg) \<and> same_policy cfg (ac_oidc (ax_db s))"
proof -
  have "distinct (map os_UpdatedAt (ax_revs s)) \<longrightarrow> fed_current s" using assms(2)
  proof (induction rule: rtranclp_induct)
    case base
    then show ?case using assms(1) by (simp add: fed_current_def acct_start_def start_ok_def)
  next
    case (step s1 s2)
    have inv: "acct_inv s1" using acct_inv_reachable[OF step(1) acct_inv_start[OF assms(1)]] .
    show ?case
    proof
      assume d: "distinct (map os_UpdatedAt (ax_revs s2))"
      then have "distinct (map os_UpdatedAt (ax_revs s1))" using revs_grow[OF step(2)] by auto
      then show "fed_current s2" using fed_current_step[OF step(2) inv d] step(3) by simp
    qed
  qed
  then have cur: "fed_current s" using assms(3) by simp
  have inv: "acct_inv s" using acct_inv_reachable[OF assms(2) acct_inv_start[OF assms(1)]] .
  obtain f where f: "f \<in> set (ac_users (ax_db s))" "us_id f = se_user se" "us_source f = ''oidc''"
    using assms(5) by (auto simp: federated_session_def list_ex_iff)
  obtain u where u: "u \<in> set (ac_users (ax_db s))" "us_id u = se_user se"
    "case ax_minted s (se_id se) of None \<Rightarrow> False
       | Some (ByPassword h) \<Rightarrow> us_source u \<noteq> ''oidc'' \<and> (se_user se, h) \<in> set (ax_hashes s)
       | Some (ByProvider cfg) \<Rightarrow> us_source u = ''oidc'' \<and> cfg \<in> set (ax_revs s)"
    using inv_parts(5)[OF inv assms(4)] by (auto simp: mint_ok_def)
  have "u = f" using u(1,2) f(1,2) inv_parts(1)[OF inv] by (metis distinct_map inj_on_contraD)
  then obtain cfg where "ax_minted s (se_id se) = Some (ByProvider cfg)" using u(3) f(3) by (auto split: option.splits mint.splits)
  then show ?thesis using cur assms(4) by (auto simp: fed_current_def)
qed

text \<open>Eve signs in through the provider.\<close>

definition demo_eve :: "string \<Rightarrow> user_row" where
  "demo_eve role = \<lparr>us_id = 9, us_username = ''eve'', us_hash = None, us_role = role, us_disabled = False, us_source = ''oidc'',
     us_oidc = Some (''https://idp'', ''e''), us_created = 2\<rparr>"

definition demo_session :: "uuid \<Rightarrow> uuid \<Rightarrow> session_row" where
  "demo_session sid i = \<lparr>se_id = sid, se_token = [of_nat sid], se_user = i, se_csrf = ''c'', se_expires = 1000, se_lastUsed = 3\<rparr>"

definition demo_after :: acct_sys where
  "demo_after = (acct_start demo_accounts)\<lparr>ax_db := demo_accounts\<lparr>ac_users := ac_users demo_accounts @ [demo_eve ''admin''],
       ac_sessions := [demo_session 11 9]\<rparr>, ax_ids := 9 # ax_ids (acct_start demo_accounts),
     ax_minted := [11 \<mapsto> ByProvider demo_oidc], ax_sids := [11]\<rparr>"

lemma demo_sso: "acct_step\<^sup>*\<^sup>* (acct_start demo_accounts) demo_after"
proof -
  let ?s0 = "acct_start demo_accounts"
  let ?db1 = "demo_accounts\<lparr>ac_users := ac_users demo_accounts @ [demo_eve ''admin'']\<rparr>"
  let ?s1 = "?s0\<lparr>ax_db := ?db1, ax_ids := 9 # ax_ids ?s0\<rparr>"
  have none: "oidc_row ''https://idp'' ''e'' demo_accounts = None" by (simp add: oidc_row_def demo_accounts_def demo_user_def)
  obtain res where up: "upsertOIDCUser 2 9 ''https://idp'' ''e'' ''eve'' ''admin'' [] 1 demo_accounts = Inr (res, ?db1)"
    by (simp add: upsertOIDCUser_def oidc_row_def Let_def put_oidc_user_def demo_accounts_def demo_user_def demo_eve_def demo_oidc_def drop_scope_def user_at_def)
  have s0: "ax_db ?s0 = demo_accounts" "ax_revs ?s0 = [demo_oidc]" "ax_ids ?s0 = [3, 5]" "ax_demoted ?s0 = 0" "ax_locks ?s0 = Map.empty" "ax_sids ?s0 = []" "ax_minted ?s0 = Map.empty"
    by (simp_all add: acct_start_def demo_accounts_def demo_user_def)
  have "acct_step ?s0 (?s0\<lparr>ax_db := ?db1, ax_ids := 9 # ax_ids ?s0, ax_demoted := ax_demoted ?s0 + of_bool (demotes ''https://idp'' ''e'' ''admin'' (ax_db ?s0))\<rparr>)"
    by (rule x_upsert[of demo_oidc]) (use up none s0 in \<open>simp_all add: demo_oidc_def\<close>)
  then have "acct_step ?s0 ?s1" by (simp add: acct_start_def demotes_def none)
  moreover have "acct_step ?s1 (minted_session 11 (ByProvider demo_oidc) (?db1\<lparr>ac_sessions := [demo_session 11 9]\<rparr>) ?s1)"
    by (rule x_oidc_session[of demo_oidc _ 9 "demo_eve ''admin''" 11 3 "[11]" "''c''" 1000])
      (simp_all add: acct_start_def free_def user_at_def demo_eve_def demo_accounts_def demo_user_def CreateOIDCSession_def demo_oidc_def insert_session_def demo_session_def)
  moreover have "minted_session 11 (ByProvider demo_oidc) (?db1\<lparr>ac_sessions := [demo_session 11 9]\<rparr>) ?s1 = demo_after"
    by (simp add: minted_session_def demo_after_def s0)
  ultimately show ?thesis by (metis converse_rtranclp_into_rtranclp rtranclp.rtrancl_refl)
qed

theorem federated_sessions_current_witness:
  "\<exists>cfg. ax_minted demo_after 11 = Some (ByProvider cfg) \<and> same_policy cfg (ac_oidc (ax_db demo_after))"
  using federated_sessions_current[OF demo_start_ok(1) demo_sso, of "demo_session 11 9"]
  by (simp add: demo_after_def acct_start_def federated_session_def demo_session_def demo_eve_def)

section \<open>Changed passwords\<close>

text \<open>
  Since the commit of a password change of user \<open>i\<close> (in \<open>s1\<close>, when \<open>old\<close> were the hashes the user ever
  had before): the user's present hash is newer, and old hashes are only in the hands of the session
  that was kept and of logins whose insert had already read the table.
\<close>

definition in_flight :: "acct_sys \<Rightarrow> uuid \<Rightarrow> string \<Rightarrow> uuid \<Rightarrow> bool" where
  "in_flight s i h sid \<longleftrightarrow> (\<exists>t token csrf expires. ax_txs s t = Some (LoginTx sid i token csrf expires h))"

definition rotated :: "acct_sys \<Rightarrow> uuid \<Rightarrow> (uuid \<times> string) list \<Rightarrow> uuid option \<Rightarrow> acct_sys \<Rightarrow> bool" where
  "rotated s1 i old keep s \<longleftrightarrow>
     i \<in> set (ax_ids s) \<and> (\<exists>new. ax_hashes s = new @ old \<and> (\<forall>u\<in>set (ac_users (ax_db s)). us_id u = i \<longrightarrow> (i, the (us_hash u)) \<in> set new))
     \<and> (\<forall>h sid. (i, h) \<in> set old \<longrightarrow> in_flight s i h sid \<longrightarrow> in_flight s1 i h sid)
     \<and> (\<forall>se\<in>set (ac_sessions (ax_db s)). se_user se = i \<longrightarrow>
          (\<forall>h. ax_minted s (se_id se) = Some (ByPassword h) \<longrightarrow> (i, h) \<in> set old \<longrightarrow> keep = Some (se_id se) \<or> in_flight s1 i h (se_id se)))"

lemma rotatedI:
  assumes "rotated s1 i old keep s" "set (ax_ids s) \<subseteq> set (ax_ids s')" "ax_hashes s' = ax_hashes s"
    and "\<And>u'. u' \<in> set (ac_users (ax_db s')) \<Longrightarrow> us_id u' = i \<Longrightarrow> \<exists>u\<in>set (ac_users (ax_db s)). us_id u = i \<and> us_hash u = us_hash u'"
    and "\<And>h sid. (i, h) \<in> set old \<Longrightarrow> in_flight s' i h sid \<Longrightarrow> in_flight s i h sid"
    and "\<And>se' h. se' \<in> set (ac_sessions (ax_db s')) \<Longrightarrow> se_user se' = i \<Longrightarrow> ax_minted s' (se_id se') = Some (ByPassword h) \<Longrightarrow> (i, h) \<in> set old \<Longrightarrow>
      in_flight s i h (se_id se') \<or> (\<exists>se\<in>set (ac_sessions (ax_db s)). se_id se = se_id se' \<and> se_user se = i \<and> ax_minted s (se_id se) = Some (ByPassword h))"
  shows "rotated s1 i old keep s'"
proof -
  obtain new where n: "ax_hashes s = new @ old" "\<forall>u\<in>set (ac_users (ax_db s)). us_id u = i \<longrightarrow> (i, the (us_hash u)) \<in> set new"
    using assms(1) by (auto simp: rotated_def)
  have "ax_hashes s' = new @ old \<and> (\<forall>u\<in>set (ac_users (ax_db s')). us_id u = i \<longrightarrow> (i, the (us_hash u)) \<in> set new)"
    using n assms(3,4) by metis
  moreover have "i \<in> set (ax_ids s')" using assms(1,2) by (auto simp: rotated_def)
  moreover have "in_flight s1 i h sid" if "(i, h) \<in> set old" "in_flight s' i h sid" for h sid
    using assms(1) assms(5)[OF that] that(1) unfolding rotated_def by blast
  moreover have "keep = Some (se_id se') \<or> in_flight s1 i h (se_id se')"
    if "se' \<in> set (ac_sessions (ax_db s'))" "se_user se' = i" "ax_minted s' (se_id se') = Some (ByPassword h)" "(i, h) \<in> set old" for se' h
    using assms(6)[OF that] assms(1) that(4) unfolding rotated_def by metis
  ultimately show ?thesis unfolding rotated_def by blast
qed

lemma in_flight_finish: "in_flight (finish t s) i h sid \<Longrightarrow> in_flight s i h sid"
  by (auto simp: in_flight_def split: if_splits)

text \<open>A login whose insert reads the table now does so with a hash that is not an old one.\<close>

lemma rotated_read:
  assumes rot: "rotated s1 i old keep s" and dist: "distinct (ax_hashes s)" and row: "list_ex (local_login_row j h) (ac_users (ax_db s))"
  shows "rotated s1 i old keep (s\<lparr>ax_txs := (ax_txs s)(t \<mapsto> LoginTx sid j token csrf expires h)\<rparr>)" (is "rotated s1 i old keep ?s")
proof (rule rotatedI[OF rot])
  fix h' sid'
  assume h': "(i, h') \<in> set old" "in_flight ?s i h' sid'"
  obtain u where u: "u \<in> set (ac_users (ax_db s))" "us_id u = j" "us_hash u = Some h" using row by (auto simp: list_ex_iff local_login_row_def)
  obtain new where n: "ax_hashes s = new @ old" "us_id u = i \<longrightarrow> (i, the (us_hash u)) \<in> set new" using rot u(1) by (auto simp: rotated_def)
  have "j \<noteq> i \<or> h \<noteq> h'" using dist n u h'(1) by auto
  then show "in_flight s i h' sid'" using h'(2) by (auto simp: in_flight_def split: if_splits)
qed (use rot in \<open>auto simp: rotated_def\<close>)

lemma rotated_minted:
  assumes rot: "rotated s1 i old keep s" and ins: "insert_session now sid token j csrf expires (ax_db s) = Inr db"
    and m: "\<And>h. m = ByPassword h \<Longrightarrow> j = i \<Longrightarrow> (i, h) \<in> set old \<Longrightarrow> in_flight s i h sid"
  shows "rotated s1 i old keep (minted_session sid m db s)" (is "rotated s1 i old keep ?s")
proof -
  obtain new where n: "ac_sessions db = ac_sessions (ax_db s) @ [new]" "se_id new = sid" "se_user new = j" "sid \<notin> se_id ` set (ac_sessions (ax_db s))" "ac_users db = ac_users (ax_db s)"
    using insert_session_effect[OF ins] by blast
  show ?thesis
  proof (rule rotatedI[OF rot])
    fix se' h
    assume se': "se' \<in> set (ac_sessions (ax_db ?s))" "se_user se' = i" "ax_minted ?s (se_id se') = Some (ByPassword h)" "(i, h) \<in> set old"
    show "in_flight s i h (se_id se') \<or> (\<exists>se\<in>set (ac_sessions (ax_db s)). se_id se = se_id se' \<and> se_user se = i \<and> ax_minted s (se_id se) = Some (ByPassword h))"
    proof (cases "se' = new")
      case True
      then have "m = ByPassword h" "j = i" using se' n(2,3) by (auto simp: minted_session_def)
      then show ?thesis using m se'(4) True n(2) by simp
    next
      case False
      then have "se' \<in> set (ac_sessions (ax_db s))" using se'(1) n(1) by (auto simp: minted_session_def)
      moreover from this have "se_id se' \<noteq> sid" using n(4) by blast
      ultimately show ?thesis using se'(2,3) by (auto simp: minted_session_def)
    qed
  qed (use n in \<open>auto simp: minted_session_def in_flight_def\<close>)
qed

lemma rotated_step:
  assumes st: "acct_step s s'" and inv: "acct_inv s" and dist: "distinct (ax_hashes s')" and rot: "rotated s1 i old keep s"
  shows "rotated s1 i old keep s'"
  using st
proof cases
  case (x_create_user fresh now username h role networks db)
  obtain new where n: "ax_hashes s = new @ old" "\<forall>u\<in>set (ac_users (ax_db s)). us_id u = i \<longrightarrow> (i, the (us_hash u)) \<in> set new" "i \<in> set (ax_ids s)"
    using rot by (auto simp: rotated_def)
  then have "ax_hashes s' = ((fresh, h) # new) @ old \<and> (\<forall>u\<in>set (ac_users (ax_db s')). us_id u = i \<longrightarrow> (i, the (us_hash u)) \<in> set ((fresh, h) # new))"
    using x_create_user CreateUser_effect[OF x_create_user(3)] by auto
  moreover have "ac_sessions (ax_db s') = ac_sessions (ax_db s)" using x_create_user(1) CreateUser_effect[OF x_create_user(3)] by auto
  ultimately show ?thesis using rot x_create_user(1) n(3) unfolding rotated_def by (intro conjI exI[of _ "(fresh, h) # new"]) (auto simp: in_flight_def)
next
  case (x_set_networks j networks db)
  then show ?thesis using SetUserNetworks_effect[OF x_set_networks(3)] by (intro rotatedI[OF rot]) (auto simp: in_flight_def)
next
  case (x_networks ns)
  then show ?thesis by (intro rotatedI[OF rot]) (auto simp: in_flight_def)
next
  case (x_admin_begin t j op)
  then show ?thesis by (intro rotatedI[OF rot]) (auto simp: in_flight_def split: if_splits)
next
  case (x_admin_lock t j op k todo got)
  then show ?thesis by (intro rotatedI[OF rot]) (auto simp: in_flight_def lock_next_def split: if_splits option.splits)
next
  case (x_admin_commit t j op got now db)
  from x_admin_commit(3) have e: "\<forall>u'\<in>set (ac_users db). \<exists>u\<in>set (ac_users (ax_db s)). us_id u = us_id u' \<and> us_hash u = us_hash u'" "set (ac_sessions db) \<subseteq> set (ac_sessions (ax_db s))"
    by (cases rule: admin_effect_cases, auto)+
  then show ?thesis using x_admin_commit(1) by (intro rotatedI[OF rot]) (fastforce dest: in_flight_finish simp: in_flight_def)+
next
  case (x_reset_lock t j u h)
  then show ?thesis by (intro rotatedI[OF rot]) (auto simp: in_flight_def split: if_splits)
next
  case (x_own_lock t j verified u h keep')
  then show ?thesis by (intro rotatedI[OF rot]) (auto simp: in_flight_def split: if_splits)
next
  case (x_pass_delete t j h keep')
  then show ?thesis by (intro rotatedI[OF rot]) (auto simp: in_flight_def split: if_splits)
next
  case (x_pass_commit t j h keep' deleted)
  obtain new where n: "ax_hashes s = new @ old" "\<forall>u\<in>set (ac_users (ax_db s)). us_id u = i \<longrightarrow> (i, the (us_hash u)) \<in> set new" "i \<in> set (ax_ids s)"
    using rot by (auto simp: rotated_def)
  have "ax_hashes s' = ((j, h) # new) @ old \<and> (\<forall>u\<in>set (ac_users (ax_db s')). us_id u = i \<longrightarrow> (i, the (us_hash u)) \<in> set ((j, h) # new))"
    using n x_pass_commit(1) by (auto split: if_splits)
  moreover have "in_flight s i h' sid" if "in_flight s' i h' sid" for h' sid
    using that x_pass_commit(1) by (auto simp: in_flight_def split: if_splits)
  moreover have "i \<in> set (ax_ids s')" "ax_minted s' = ax_minted s" "set (ac_sessions (ax_db s')) \<subseteq> set (ac_sessions (ax_db s))"
    using n(3) x_pass_commit(1) by auto
  ultimately show ?thesis using rot unfolding rotated_def by (metis (no_types, lifting) subsetD)
next
  case (x_login_read t j h sid token csrf expires)
  then show ?thesis using rotated_read[OF rot _ x_login_read(3)] dist by simp
next
  case (x_login_insert t sid j token csrf expires h now db)
  have "rotated s1 i old keep (minted_session sid (ByPassword h) db s)"
    by (rule rotated_minted[OF rot x_login_insert(7)]) (use x_login_insert(2) in \<open>auto simp: in_flight_def\<close>)
  then show ?thesis unfolding x_login_insert(1) by (rule rotatedI) (auto dest: in_flight_finish)
next
  case (x_upsert cfg fresh issuer subject now username role networks res db)
  have "i \<in> set (ax_ids s)" using rot by (simp add: rotated_def)
  then have "i \<noteq> fresh" using x_upsert(3) by blast
  from x_upsert(5) have e: "\<forall>u'\<in>set (ac_users db). us_id u' = i \<longrightarrow> (\<exists>u\<in>set (ac_users (ax_db s)). us_id u = i \<and> us_hash u = us_hash u')" "ac_sessions db = ac_sessions (ax_db s)"
    by (cases rule: upsert_cases, use \<open>i \<noteq> fresh\<close> in \<open>auto split: if_splits\<close>)+
  then show ?thesis using x_upsert(1) by (intro rotatedI[OF rot]) (auto simp: in_flight_def)
next
  case (x_oidc_session cfg j u sid now token csrf expires db)
  show ?thesis unfolding x_oidc_session(1) by (rule rotated_minted[OF rot conjunct1[OF CreateOIDCSession_effect[OF x_oidc_session(8)]]]) simp
next
  case (x_settings now o1 ks kr ku out revoked db)
  then show ?thesis using settings_effect[OF x_settings(2)] by (intro rotatedI[OF rot]) (auto simp: in_flight_def split: if_splits)
next
  case (x_sessions_end P)
  then show ?thesis by (intro rotatedI[OF rot]) (auto simp: in_flight_def)
next
  case (x_touch now sid)
  have t: "\<exists>se\<in>set (ac_sessions (ax_db s)). se_id se = se_id se' \<and> se_user se = se_user se'" if "se' \<in> set (ac_sessions (ax_db s'))" for se'
    using that x_touch by (auto simp: TouchSession_def touch_activity_def Let_def split: option.splits)
  show ?thesis
  proof (rule rotatedI[OF rot])
    fix se' h
    assume "se' \<in> set (ac_sessions (ax_db s'))" "se_user se' = i" "ax_minted s' (se_id se') = Some (ByPassword h)"
    then show "in_flight s i h (se_id se') \<or> (\<exists>se\<in>set (ac_sessions (ax_db s)). se_id se = se_id se' \<and> se_user se = i \<and> ax_minted s (se_id se) = Some (ByPassword h))"
      using t x_touch by fastforce
  qed (use x_touch TouchSession_effect[of now sid "ax_db s"] in \<open>auto simp: in_flight_def\<close>)
next
  case (x_record_login now j db)
  then show ?thesis using RecordLogin_effect[OF x_record_login(2)] by (intro rotatedI[OF rot]) (auto simp: in_flight_def)
next
  case (x_rollback t)
  then show ?thesis by (intro rotatedI[OF rot]) (auto dest: in_flight_finish)
qed

lemma rotated_start:
  assumes inv: "acct_inv s" and tx: "ax_txs s t = Some (PassTx i h keep (Some deleted))"
  defines "s1 \<equiv> finish t (s\<lparr>ax_db := pass_effect i h deleted (ax_db s), ax_hashes := (i, h) # ax_hashes s\<rparr>)"
  shows "rotated s1 i (ax_hashes s) keep s1"
proof -
  have ok: "\<exists>u\<in>set (ac_users (ax_db s)). us_id u = i" "\<And>x. x \<in> sids_of (ax_db s) i \<Longrightarrow> x \<noteq> (case keep of None \<Rightarrow> 0 | Some k \<Rightarrow> k) \<Longrightarrow> x \<in> set deleted"
    using inv_parts(6)[OF inv tx] by (auto simp: tx_ok_def)
  have "i \<in> set (ax_ids s)" using ok(1) inv_parts(2)[OF inv] by blast
  then have "i \<in> set (ax_ids s1)" by (simp add: s1_def)
  moreover have "keep = Some (se_id se)" if "se \<in> set (ac_sessions (ax_db s1))" "se_user se = i" for se
  proof -
    have se: "se \<in> set (ac_sessions (ax_db s))" "se_id se \<notin> set deleted" using that(1) by (auto simp: s1_def)
    then have "se_id se = (case keep of None \<Rightarrow> 0 | Some k \<Rightarrow> k)" using ok(2)[of "se_id se"] that(2) by (auto simp: sids_of_def)
    moreover have "se_id se \<noteq> 0" using inv_parts(5)[OF inv se(1)] by (simp add: mint_ok_def)
    ultimately show ?thesis by (auto split: option.splits)
  qed
  moreover have "ax_hashes s1 = [(i, h)] @ ax_hashes s" by (simp add: s1_def)
  moreover have "\<forall>u\<in>set (ac_users (ax_db s1)). us_id u = i \<longrightarrow> (i, the (us_hash u)) \<in> set [(i, h)]"
  proof (intro ballI impI)
    fix u
    assume u: "u \<in> set (ac_users (ax_db s1))" "us_id u = i"
    have "ac_users (ax_db s1) = map (\<lambda>w. if us_id w = i then w\<lparr>us_hash := Some h\<rparr> else w) (ac_users (ax_db s))" by (simp add: s1_def)
    then have "u \<in> (\<lambda>w. if us_id w = i then w\<lparr>us_hash := Some h\<rparr> else w) ` set (ac_users (ax_db s))" using u(1) by (simp only: set_map)
    then obtain w where "u = (if us_id w = i then w\<lparr>us_hash := Some h\<rparr> else w)" by (rule imageE)
    then have "us_hash u = Some h \<or> us_id u \<noteq> i" by (cases "us_id w = i") simp_all
    then show "(i, the (us_hash u)) \<in> set [(i, h)]" using u(2) by simp
  qed
  ultimately show ?thesis unfolding rotated_def by blast
qed

text \<open>
  C35: A changed password locks the old one out. Once a reset or a change of a user's password has
  committed, every session that a login with one of the user's earlier hashes gets, in whatever
  interleaving, is the one session the change kept, or comes from a login whose insert statement had
  already read the users table before the commit (no hash is ever set twice: each is salted anew). So
  after the commit no login can start with the old password, and all older sessions are gone. The
  exception is real: lemma \<open>login_outlives_reset\<close>.
\<close>

theorem rotated_password_refused:
  assumes "start_ok db" "acct_step\<^sup>*\<^sup>* (acct_start db) s" "ax_txs s t = Some (PassTx i h keep (Some deleted))"
    and s1: "s1 = finish t (s\<lparr>ax_db := pass_effect i h deleted (ax_db s), ax_hashes := (i, h) # ax_hashes s\<rparr>)"
    and "acct_step\<^sup>*\<^sup>* s1 s2" "distinct (ax_hashes s2)" "se \<in> set (ac_sessions (ax_db s2))" "se_user se = i"
      "ax_minted s2 (se_id se) = Some (ByPassword h0)" "(i, h0) \<in> set (ax_hashes s)"
  shows "keep = Some (se_id se) \<or> in_flight s1 i h0 (se_id se)"
proof -
  have inv: "acct_inv s" using acct_inv_reachable[OF assms(2) acct_inv_start[OF assms(1)]] .
  have inv1: "acct_inv s1" unfolding s1 by (rule inv_pass_commit[OF inv assms(3)])
  have "distinct (ax_hashes s2) \<longrightarrow> rotated s1 i (ax_hashes s) keep s2" using assms(5)
  proof (induction rule: rtranclp_induct)
    case base
    then show ?case using rotated_start[OF inv assms(3)] s1 by simp
  next
    case (step sa sb)
    have "\<exists>hs. ax_hashes sb = hs @ ax_hashes sa" using step(2) by cases (auto simp: lock_next_def minted_session_def split: option.splits)
    then show ?case using rotated_step[OF step(2) acct_inv_reachable[OF step(1) inv1]] step(3) by auto
  qed
  then have "rotated s1 i (ax_hashes s) keep s2" using assms(6) by simp
  then show ?thesis using assms(7-10) unfolding rotated_def by blast
qed

text \<open>
  Bob's password is reset while somebody logs in with the old one: the reset has deleted the sessions,
  the login's insert reads the table before the commit, waits for the row and adds its session after.
  The session is live although its password no longer is.
\<close>

definition demo_reset :: acct_sys where
  "demo_reset = (acct_start demo_accounts)\<lparr>ax_locks := [5 \<mapsto> 7],
     ax_txs := [7 \<mapsto> PassTx 5 ''new'' None (Some []), 8 \<mapsto> LoginTx 11 5 [11] ''c'' 1000 ''hash-bob'']\<rparr>"

definition demo_committed :: acct_sys where
  "demo_committed = finish 7 (demo_reset\<lparr>ax_db := pass_effect 5 ''new'' [] (ax_db demo_reset), ax_hashes := (5, ''new'') # ax_hashes demo_reset\<rparr>)"

definition demo_leaked :: acct_sys where
  "demo_leaked = finish 8 (minted_session 11 (ByPassword ''hash-bob'')
     ((ax_db demo_committed)\<lparr>ac_sessions := [\<lparr>se_id = 11, se_token = [11], se_user = 5, se_csrf = ''c'', se_expires = 1000, se_lastUsed = 3\<rparr>]\<rparr>) demo_committed)"

lemmas demo_states = demo_leaked_def demo_committed_def demo_reset_def acct_start_def demo_accounts_def demo_user_def demo_oidc_def

lemma demo_reset_reach: "acct_step\<^sup>*\<^sup>* (acct_start demo_accounts) demo_reset"
proof -
  let ?s0 = "acct_start demo_accounts"
  let ?s1 = "?s0\<lparr>ax_locks := [5 \<mapsto> 7], ax_txs := [7 \<mapsto> PassTx 5 ''new'' None None]\<rparr>"
  let ?s2 = "?s0\<lparr>ax_locks := [5 \<mapsto> 7], ax_txs := [7 \<mapsto> PassTx 5 ''new'' None (Some [])]\<rparr>"
  have "reset_check 5 (ax_db ?s0) = Inr (demo_user 5 ''bob'' ''admin'')"
    by (simp add: reset_check_def user_at_def acct_start_def demo_accounts_def demo_user_def)
  then have "acct_step ?s0 ?s1" using x_reset_lock[of ?s0 7 5 "demo_user 5 ''bob'' ''admin''" "''new''"] by (simp add: free_def acct_start_def)
  moreover have "acct_step ?s1 ?s2" using x_pass_delete[of ?s1 7 5 "''new''" None] by (simp add: acct_start_def demo_accounts_def)
  moreover have "acct_step ?s2 demo_reset"
    using x_login_read[of ?s2 8 5 "''hash-bob''" 11 "[11]" "''c''" 1000] by (simp add: demo_reset_def local_login_row_def acct_start_def demo_accounts_def demo_user_def)
  ultimately show ?thesis by (meson converse_rtranclp_into_rtranclp rtranclp.rtrancl_refl)
qed

lemma demo_leak_step: "acct_step demo_committed demo_leaked"
  unfolding demo_leaked_def
  by (rule x_login_insert[of demo_committed 8 11 5 "[11]" "''c''" 1000 "''hash-bob''" 3])
    (simp_all add: demo_committed_def demo_reset_def acct_start_def demo_accounts_def demo_user_def free_def finish_lock user_at_def insert_session_def)

lemma login_outlives_reset:
  "acct_step\<^sup>*\<^sup>* (acct_start demo_accounts) demo_committed \<and> acct_step demo_committed demo_leaked
   \<and> map us_hash (ac_users (ax_db demo_committed)) = [Some ''hash-ann'', Some ''new''] \<and> ax_minted demo_leaked 11 = Some (ByPassword ''hash-bob'')
   \<and> GetSessionByTokenHash 500 (ax_db demo_leaked) [11] \<noteq> None"
proof -
  have "acct_step demo_reset demo_committed"
    unfolding demo_committed_def by (rule x_pass_commit[of _ _ _ _ None]) (simp add: demo_reset_def)
  then have "acct_step\<^sup>*\<^sup>* (acct_start demo_accounts) demo_committed" using demo_reset_reach step_rtrancl by blast
  moreover have "map us_hash (ac_users (ax_db demo_committed)) = [Some ''hash-ann'', Some ''new'']" by (simp add: demo_states)
  moreover have "ax_minted demo_leaked 11 = Some (ByPassword ''hash-bob'')" by (simp add: demo_leaked_def minted_session_def)
  moreover have "GetSessionByTokenHash 500 (ax_db demo_leaked) [11] \<noteq> None"
    by (simp add: demo_states minted_session_def GetSessionByTokenHash_def user_at_def)
  ultimately show ?thesis using demo_leak_step by blast
qed

theorem rotated_password_refused_witness:
  "in_flight demo_committed 5 ''hash-bob'' 11 \<and> ax_minted demo_leaked 11 = Some (ByPassword ''hash-bob'')"
proof -
  let ?se = "\<lparr>se_id = 11, se_token = [11], se_user = 5, se_csrf = ''c'', se_expires = 1000, se_lastUsed = 3\<rparr>"
  have tx: "ax_txs demo_reset 7 = Some (PassTx 5 ''new'' None (Some []))" by (simp add: demo_reset_def)
  have "acct_step\<^sup>*\<^sup>* demo_committed demo_leaked" using demo_leak_step by blast
  moreover have "distinct (ax_hashes demo_leaked)" "?se \<in> set (ac_sessions (ax_db demo_leaked))" "(5, ''hash-bob'') \<in> set (ax_hashes demo_reset)"
    by (simp_all add: demo_states minted_session_def)
  moreover have m: "ax_minted demo_leaked (se_id ?se) = Some (ByPassword ''hash-bob'')" by (simp add: demo_leaked_def minted_session_def)
  ultimately have "None = Some (se_id ?se) \<or> in_flight demo_committed 5 ''hash-bob'' (se_id ?se)"
    by (intro rotated_password_refused[OF demo_start_ok(1) demo_reset_reach tx demo_committed_def, of demo_leaked ?se]) auto
  then show ?thesis using m by simp
qed

end
