(* ===== verification/Dashboard.thy ===== *)
theory Dashboard
  imports Accounts Grpc_Auth Go_Utf8
begin

text \<open>
  The dashboard's HTTP layer around accounts (\<open>internal/server/httpapi\<close>): the login limiter, login,
  logout and password change (\<open>auth.go\<close>), the session and role gates every route is mounted behind,
  their audit records (\<open>audit.go\<close>), network scopes (\<open>httpapi.go\<close>) and the administration of users
  (\<open>users.go\<close>).

  A request is what the handlers read of it. JSON bodies are given decoded, with the ways decoding
  fails; random tokens, \<open>sha256\<close>, the argon2 functions \<open>verify\<close> and \<open>hash\<close> and failures of single store
  calls are arguments. Where a handler calls the store more than once, other requests may act in
  between: it takes the tables as each call finds them.
\<close>

section \<open>Requests and responses\<close>

record http_request =
  rq_Method :: string
  rq_Pattern :: string
  rq_Path :: string
  rq_RemoteAddr :: string
  rq_Cookie :: "string option"
  rq_CSRF :: string

datatype resp_body =
    ErrorBody string | EmptyBody | OkBody
  | LoginBody string string string "string list option" string
  | UserBody uuid string string string
  | RedirectTo string

type_synonym response = "nat \<times> resp_body"

definition writeError :: "nat \<Rightarrow> string \<Rightarrow> response" where
  "writeError status msg = (status, ErrorBody msg)"

definition internalError :: response where
  "internalError = writeError 500 ''internal error''"

text \<open>\<open>err.Error()\<close> of a store error; the identifiers it prints are those of the error.\<close>

definition writeStoreError :: "(acct_error \<Rightarrow> string) \<Rightarrow> acct_error \<Rightarrow> response" where
  "writeStoreError msg e =
     (case class_of e of
        ClassConflict \<Rightarrow> writeError 409 (msg e)
      | ClassInvalid \<Rightarrow> writeError 400 (msg e)
      | ClassNotFound \<Rightarrow> writeError 404 (msg e)
      | ClassOther \<Rightarrow> internalError)"

definition clientIP :: "http_request \<Rightarrow> string" where
  "clientIP r = (case SplitHostPort (rq_RemoteAddr r) of None \<Rightarrow> rq_RemoteAddr r | Some (host, port) \<Rightarrow> host)"

definition mutating :: "http_request \<Rightarrow> bool" where
  "mutating r \<longleftrightarrow> rq_Method r \<noteq> ''GET'' \<and> rq_Method r \<noteq> ''HEAD''"

section \<open>The limiter\<close>

definition loginLimit :: nat where "loginLimit = 10"
definition loginWindow :: duration where "loginWindow = minute"
definition touchInterval :: duration where "touchInterval = 5 * minute"
definition sessionTTL :: duration where "sessionTTL = 7 * 24 * 60 * minute"

record loginLimiter =
  ll_limit :: nat
  ll_window :: duration
  ll_start :: gtime
  ll_attempts :: "string \<Rightarrow> nat"

definition newLoginLimiter :: "nat \<Rightarrow> duration \<Rightarrow> gtime \<Rightarrow> loginLimiter" where
  "newLoginLimiter limit window now = \<lparr>ll_limit = limit, ll_window = window, ll_start = now, ll_attempts = (\<lambda>_. 0)\<rparr>"

definition allow :: "gtime \<Rightarrow> string \<Rightarrow> loginLimiter \<Rightarrow> bool \<times> loginLimiter" where
  "allow now ip l =
     (let l = (if now - ll_start l > ll_window l then l\<lparr>ll_start := now, ll_attempts := (\<lambda>_. 0)\<rparr> else l);
          l = l\<lparr>ll_attempts := (ll_attempts l)(ip := ll_attempts l ip + 1)\<rparr>
      in (ll_attempts l ip \<le> ll_limit l, l))"

section \<open>Audit records\<close>

definition actorFrom :: "(uuid \<Rightarrow> string) \<Rightarrow> SessionInfo option \<Rightarrow> Actor" where
  "actorFrom uuid_str so =
     (case so of
        None \<Rightarrow> \<lparr>a_User = '''', a_Source = '''', a_Session = ''''\<rparr>
      | Some s \<Rightarrow> \<lparr>a_User = si_Username s, a_Source = si_AuthSource s, a_Session = uuid_str (si_ID s)\<rparr>)"

definition routeAttrs :: "http_request \<Rightarrow> attr list" where
  "routeAttrs r = [(''route'', rq_Pattern r), (''path'', rq_Path r)]"

definition auditRequest :: "(uuid \<Rightarrow> string) \<Rightarrow> http_request \<Rightarrow> SessionInfo \<Rightarrow> nat \<Rightarrow> Extras option \<Rightarrow> audit_event list" where
  "auditRequest uuid_str r s status ex =
     (let (extras, denied, failed, suppressed) = Take ex;
          outcome = (if failed then Failure
                     else if status = 401 \<or> status = 403 \<or> denied then Denied
                     else if status \<ge> 400 then Failure else Success)
      in if suppressed then []
         else if \<not> mutating r \<and> outcome \<noteq> Denied then []
         else [\<lparr>ev_ID = (if mutating r then EventAPIWrite else EventAuthzDenied),
                ev_Msg = (if mutating r then ''dashboard write'' else ''dashboard read refused''),
                ev_Outcome = outcome, ev_Actor = actorFrom uuid_str (Some s), ev_Remote = clientIP r, ev_At = 0,
                ev_Attrs = routeAttrs r @ [(''status'', itoa (int status))] @ extras\<rparr>])"

definition session_ref_event :: "(uuid \<Rightarrow> string) \<Rightarrow> string \<Rightarrow> string \<Rightarrow> SessionRef \<Rightarrow> string \<Rightarrow> gtime \<Rightarrow> attr list \<Rightarrow> audit_event" where
  "session_ref_event uuid_str i msg ref remote ts attrs =
     \<lparr>ev_ID = i, ev_Msg = msg, ev_Outcome = Success,
      ev_Actor = \<lparr>a_User = sr_Username ref, a_Source = '''', a_Session = uuid_str (sr_ID ref)\<rparr>, ev_Remote = remote, ev_At = ts, ev_Attrs = attrs\<rparr>"

text \<open>\<open>time_text\<close> formats a time as RFC 3339.\<close>

definition sessionsExpired :: "(uuid \<Rightarrow> string) \<Rightarrow> (gtime \<Rightarrow> string) \<Rightarrow> SessionRef list \<Rightarrow> gtime \<Rightarrow> audit_event list" where
  "sessionsExpired uuid_str time_text refs observed =
     map (\<lambda>ref. session_ref_event uuid_str EventSessionEnded ''session ended'' ref '''' (sr_ExpiresAt ref)
       [(''reason'', ''expired''), (''observed_at'', time_text observed)]) refs"

definition sessionsEnded ::
  "(uuid \<Rightarrow> string) \<Rightarrow> (gtime \<Rightarrow> string) \<Rightarrow> gtime \<Rightarrow> SessionRef list \<Rightarrow> string \<Rightarrow> string \<Rightarrow> audit_event list" where
  "sessionsEnded uuid_str time_text now refs reason remote =
     concat (map (\<lambda>ref. if \<not> sr_ExpiresAt ref > now then sessionsExpired uuid_str time_text [ref] now
       else [session_ref_event uuid_str EventSessionEnded ''session ended'' ref remote 0 [(''reason'', reason)]]) refs)"

section \<open>The gates\<close>

text \<open>
  A handler behind a session: from the session, the tables and the request's scratchpad to the
  response, the tables, the scratchpad and the events it emits itself.
\<close>

type_synonym handler = "SessionInfo \<Rightarrow> accounts \<Rightarrow> Extras option \<Rightarrow> response \<times> accounts \<times> Extras option \<times> audit_event list"

definition session_rejected :: "(uuid \<Rightarrow> string) \<Rightarrow> http_request \<Rightarrow> SessionInfo option \<Rightarrow> string \<Rightarrow> audit_event" where
  "session_rejected uuid_str r so reason =
     \<lparr>ev_ID = EventSessionRejected, ev_Msg = ''session rejected'', ev_Outcome = Denied, ev_Actor = actorFrom uuid_str so,
      ev_Remote = clientIP r, ev_At = 0, ev_Attrs = routeAttrs r @ [(''reason'', reason)]\<rparr>"

text \<open>The library functions the handlers use, and the texts of store errors.\<close>

record http_env =
  he_uuid :: "uuid \<Rightarrow> string"
  he_time :: "gtime \<Rightarrow> string"
  he_sha256 :: "string \<Rightarrow> byte list"
  he_verify :: "string \<Rightarrow> string \<Rightarrow> bool option"
  he_msg :: "acct_error \<Rightarrow> string"

text \<open>\<open>fail_get\<close> and \<open>fail_touch\<close>: the lookup or the touch of the session failed.\<close>

definition withSession ::
  "http_env \<Rightarrow> gtime \<Rightarrow> bool \<Rightarrow> bool \<Rightarrow> handler \<Rightarrow> http_request \<Rightarrow> accounts \<Rightarrow> response \<times> accounts \<times> audit_event list" where
  "withSession env now fail_get fail_touch handle r db =
     (case rq_Cookie r of
        None \<Rightarrow> (writeError 401 ''not authenticated'', db, [session_rejected (he_uuid env) r None ''no_session_cookie''])
      | Some c \<Rightarrow>
          if fail_get then (internalError, db, [])
          else (case GetSessionByTokenHash now db (he_sha256 env c) of
             None \<Rightarrow> (writeError 401 ''not authenticated'', db, [session_rejected (he_uuid env) r None ''unknown_or_expired_session''])
           | Some s \<Rightarrow>
               if mutating r \<and> rq_CSRF r \<noteq> si_CSRFToken s then
                 (writeError 403 ''missing or invalid CSRF token'', db, [session_rejected (he_uuid env) r (Some s) ''csrf''])
               else (let db = (if now - si_LastUsedAt s > touchInterval \<and> \<not> fail_touch then TouchSession now (si_ID s) db else db);
                         (resp, db, ex, evs) = handle s db (Some WithExtras)
                     in (resp, db, evs @ auditRequest (he_uuid env) r s (fst resp) ex))))"

definition requireRole :: "string \<Rightarrow> handler \<Rightarrow> handler" where
  "requireRole role handle s db ex =
     (if si_Role s \<noteq> role then (writeError 403 (''requires '' @ role @ '' role''), db, ex, []) else handle s db ex)"

fun join_with :: "string \<Rightarrow> string list \<Rightarrow> string" where
  "join_with sep [] = ''''"
| "join_with sep [x] = x"
| "join_with sep (x # xs) = x @ sep @ join_with sep xs"

definition requireRoles :: "handler \<Rightarrow> string list \<Rightarrow> handler" where
  "requireRoles handle roles s db ex =
     (if si_Role s \<notin> set roles then (writeError 403 (''requires '' @ join_with '' or '' roles @ '' role''), db, ex, []) else handle s db ex)"

text \<open>The two wrappers the routes of writes are mounted with.\<close>

definition adminWrite :: "http_env \<Rightarrow> gtime \<Rightarrow> bool \<Rightarrow> bool \<Rightarrow> handler \<Rightarrow> http_request \<Rightarrow> accounts \<Rightarrow> response \<times> accounts \<times> audit_event list" where
  "adminWrite env now fail_get fail_touch h = withSession env now fail_get fail_touch (requireRole ''admin'' h)"

definition networkWrite :: "http_env \<Rightarrow> gtime \<Rightarrow> bool \<Rightarrow> bool \<Rightarrow> handler \<Rightarrow> http_request \<Rightarrow> accounts \<Rightarrow> response \<times> accounts \<times> audit_event list" where
  "networkWrite env now fail_get fail_touch h = withSession env now fail_get fail_touch (requireRoles h [RoleAdmin, RoleNetworkAdmin])"

section \<open>Network scopes\<close>

text \<open>\<open>None\<close> is the nil slice: unfiltered.\<close>

definition scopeIDs :: "SessionInfo option \<Rightarrow> uuid list option" where
  "scopeIDs so = (case so of None \<Rightarrow> Some [] | Some s \<Rightarrow> map_option (map nr_ID) (NetworkScope s))"

definition scopeNames :: "SessionInfo option \<Rightarrow> string list option" where
  "scopeNames so = (case so of None \<Rightarrow> Some [] | Some s \<Rightarrow> map_option (map nr_Name) (NetworkScope s))"

definition requireNetworkScopeName ::
  "(acct_error \<Rightarrow> string) \<Rightarrow> SessionInfo \<Rightarrow> accounts \<Rightarrow> string \<Rightarrow> Extras option \<Rightarrow> (response + uuid) \<times> Extras option" where
  "requireNetworkScopeName msg s db name ex =
     (if (case scopeNames (Some s) of None \<Rightarrow> False | Some names \<Rightarrow> name \<notin> set names)
      then (Inl (writeError 404 (msg (NetworkMissing name))), Deny ''out_of_scope'' ex)
      else case NetworkIDByName db name of
        Inl e \<Rightarrow> (Inl (writeStoreError msg e), ex)
      | Inr i \<Rightarrow> (Inr i, ex))"

definition callerIsScoped :: "SessionInfo \<Rightarrow> bool" where
  "callerIsScoped s \<longleftrightarrow> scopeIDs (Some s) \<noteq> None"

section \<open>Login and logout\<close>

text \<open>How decoding the body ends; the second decode must hit the end of the body.\<close>

datatype login_body = BodyTooLarge | BodyBad | LoginFields string string

text \<open>Failures of single calls: the lookup, the cleanup, the two tokens, the insert, the login record.\<close>

record login_faults =
  lf_lookup :: bool
  lf_cleanup :: bool
  lf_token :: bool
  lf_insert :: bool
  lf_record :: bool

record minted =
  mi_token :: string
  mi_csrf :: string
  mi_sid :: uuid

definition DummyHash :: string where
  "DummyHash = ''$argon2id$v=19$m=19456,t=2,p=1$AAAAAAAAAAAAAAAAAAAAAA$oIWm1DDXsD1L7ZS1RiCbcaCTF645MK2NX4mciZuUUyU''"

definition login_event_of :: "Outcome \<Rightarrow> string \<Rightarrow> string \<Rightarrow> string \<Rightarrow> string \<Rightarrow> string \<Rightarrow> attr list \<Rightarrow> audit_event" where
  "login_event_of outcome msg user source session remote attrs =
     \<lparr>ev_ID = EventLogin, ev_Msg = msg, ev_Outcome = outcome, ev_Actor = \<lparr>a_User = user, a_Source = source, a_Session = session\<rparr>,
      ev_Remote = remote, ev_At = 0, ev_Attrs = attrs\<rparr>"

definition login_refused :: "string \<Rightarrow> Outcome \<Rightarrow> string \<Rightarrow> string \<Rightarrow> audit_event" where
  "login_refused remote outcome username reason = login_event_of outcome ''login refused'' username ''local'' '''' remote [(''reason'', reason)]"

text \<open>
  \<open>issueSession\<close>: the cleanup, the tokens, the insert \<open>create\<close> and the record of the login. The result is
  the error of the insert (\<open>StatementError\<close> also for a failure to draw tokens), or success.
\<close>

definition issueSession ::
  "http_env \<Rightarrow> login_faults \<Rightarrow> gtime \<Rightarrow> minted \<Rightarrow> uuid
   \<Rightarrow> (gtime \<Rightarrow> uuid \<Rightarrow> byte list \<Rightarrow> string \<Rightarrow> gtime \<Rightarrow> accounts \<Rightarrow> acct_error + accounts) \<Rightarrow> accounts
   \<Rightarrow> acct_error option \<times> accounts \<times> audit_event list" where
  "issueSession env f now m userID create db =
     (let (expired, db) = (if lf_cleanup f then ([], db) else DeleteExpiredSessions now db);
          evs = (if expired \<noteq> [] then sessionsExpired (he_uuid env) (he_time env) expired now else [])
      in if lf_token f then (Some StatementError, db, evs)
         else if lf_insert f then (Some StatementError, db, evs)
         else case create now (mi_sid m) (he_sha256 env (mi_token m)) (mi_csrf m) (now + sessionTTL) db of
           Inl e \<Rightarrow> (Some e, db, evs)
         | Inr db \<Rightarrow>
             (case (if lf_record f then Inl StatementError else RecordLogin now userID db) of
                Inl _ \<Rightarrow> (None, db, evs)
              | Inr db \<Rightarrow> (None, db, evs)))"

text \<open>
  The outcome of a login: the response, the session cookie it sets, the tables, the limiter, the
  events, and the hashes passwords were verified against, in order.
\<close>

record login_result =
  lr_resp :: response
  lr_cookie :: "string option"
  lr_db :: accounts
  lr_limiter :: loginLimiter
  lr_events :: "audit_event list"
  lr_verified :: "string list"

text \<open>\<open>db0\<close> are the tables at the lookup, \<open>db1\<close> at the insert, after the verification.\<close>

definition handleLogin ::
  "http_env \<Rightarrow> login_faults \<Rightarrow> gtime \<Rightarrow> minted \<Rightarrow> http_request \<Rightarrow> login_body \<Rightarrow> loginLimiter \<Rightarrow> accounts \<Rightarrow> accounts \<Rightarrow> login_result" where
  "handleLogin env f now m r body limiter db0 db1 =
     (let remote = clientIP r;
          (ok, limiter) = allow now remote limiter;
          done1 = (\<lambda>resp evs vs. \<lparr>lr_resp = resp, lr_cookie = None, lr_db = db1, lr_limiter = limiter, lr_events = evs, lr_verified = vs\<rparr>);
          refused = login_refused remote
      in if \<not> ok then done1 (writeError 429 ''too many login attempts; try again in a minute'') [refused Denied '''' ''rate_limited''] []
         else case body of
           BodyTooLarge \<Rightarrow> done1 (writeError 413 ''request body too large'') [] []
         | BodyBad \<Rightarrow> done1 (writeError 400 ''username and password are required'') [] []
         | LoginFields username password \<Rightarrow>
             if username = '''' \<or> password = '''' then done1 (writeError 400 ''username and password are required'') [] []
             else if CHR 0x00 \<in> set username then done1 (writeError 400 ''invalid body: strings must not contain NUL characters'') [] []
             else if lf_lookup f then done1 internalError [refused Failure username ''internal''] []
             else (let user = GetUserByUsername db0 username;
                       hash = (case user of
                           Some u \<Rightarrow> if \<not> ui_Disabled u \<and> ui_PasswordHash u \<noteq> '''' then ui_PasswordHash u else DummyHash
                         | None \<Rightarrow> DummyHash)
                   in case he_verify env password hash of
                        None \<Rightarrow> done1 internalError [refused Failure username ''internal''] [hash]
                      | Some ok \<Rightarrow>
                          (case user of
                             None \<Rightarrow> done1 (writeError 401 ''invalid credentials'') [refused Failure username ''invalid_credentials''] [hash]
                           | Some u \<Rightarrow>
                               if \<not> ok \<or> ui_Disabled u \<or> ui_PasswordHash u = '''' then
                                 done1 (writeError 401 ''invalid credentials'')
                                   [refused Failure username (if ui_Disabled u then ''disabled'' else ''invalid_credentials'')] [hash]
                               else (case issueSession env f now m (ui_ID u)
                                        (\<lambda>now sid th csrf exp db. CreateLocalSession now sid (ui_ID u) th csrf exp hash db) db1 of
                                  (Some ErrPasswordChanged, db, evs) \<Rightarrow>
                                    (done1 (writeError 401 ''invalid credentials'') (evs @ [refused Failure username ''password_changed'']) [hash])\<lparr>lr_db := db\<rparr>
                                | (Some e, db, evs) \<Rightarrow> (done1 internalError (evs @ [refused Failure username ''internal'']) [hash])\<lparr>lr_db := db\<rparr>
                                | (None, db, evs) \<Rightarrow>
                                    (done1 (200, LoginBody (ui_Username u) (ui_Role u) (ui_AuthSource u) (ui_Networks u) (mi_csrf m))
                                       (evs @ [login_event_of Success ''login'' (ui_Username u) (ui_AuthSource u) (he_uuid env (mi_sid m)) remote []]) [hash])
                                      \<lparr>lr_db := db, lr_cookie := Some (mi_token m)\<rparr>))))"

definition handleLogout :: "http_env \<Rightarrow> bool \<Rightarrow> http_request \<Rightarrow> handler" where
  "handleLogout env fail r s db ex =
     (if rq_Cookie r \<noteq> None \<and> fail then (internalError, db, ex, [])
      else ((200, OkBody), (case rq_Cookie r of None \<Rightarrow> db | Some c \<Rightarrow> DeleteSessionByTokenHash (he_sha256 env c) db), Suppress ex,
            [\<lparr>ev_ID = EventSessionEnded, ev_Msg = ''session ended'', ev_Outcome = Success, ev_Actor = actorFrom (he_uuid env) (Some s),
              ev_Remote = clientIP r, ev_At = 0, ev_Attrs = [(''reason'', ''logout'')]\<rparr>]))"

definition handleMe :: handler where
  "handleMe s db ex = ((200, LoginBody (si_Username s) (si_Role s) (si_AuthSource s) (scopeNames (Some s)) (si_CSRFToken s)), db, ex, [])"

section \<open>Password change\<close>

definition MinPasswordLen :: nat where "MinPasswordLen = 8"

text \<open>\<open>utf8.RuneCountInString\<close>: a byte that starts no rune counts as one.\<close>

function rune_count :: "string \<Rightarrow> nat" where
  "rune_count s = (if s = [] then 0 else 1 + rune_count (drop (max 1 (rune_len s)) s))"
  by pat_completeness auto
termination by (relation "measure length") auto

declare rune_count.simps [simp del]

datatype password_body = PasswordBad response | PasswordFields string string

definition password_problems :: "string \<Rightarrow> string \<Rightarrow> string list" where
  "password_problems cur new =
     (if cur = '''' then [''current_password is required''] else [])
     @ (if new = '''' then [''new_password is required'']
        else if rune_count new < MinPasswordLen then [''new_password must be at least 8 characters''] else [])"

text \<open>
  \<open>hash\<close> is the new hash (\<open>None\<close>: hashing failed), \<open>fail_get\<close> the lookup's failure; \<open>db0\<close> are the tables at
  the lookup and \<open>db\<close> those at the update.
\<close>

definition handlePasswordChange ::
  "http_env \<Rightarrow> gtime \<Rightarrow> http_request \<Rightarrow> password_body \<Rightarrow> bool \<Rightarrow> string option \<Rightarrow> accounts \<Rightarrow> loginLimiter \<Rightarrow> SessionInfo \<Rightarrow> accounts \<Rightarrow> Extras option
   \<Rightarrow> (response \<times> accounts \<times> Extras option \<times> audit_event list) \<times> loginLimiter" where
  "handlePasswordChange env now r body fail_get hash db0 pwLimiter s db ex =
     (if si_AuthSource s \<noteq> ''local'' then ((writeError 409 ''federated accounts authenticate at the identity provider'', db, ex, []), pwLimiter)
      else case body of
        PasswordBad resp \<Rightarrow> ((resp, db, ex, []), pwLimiter)
      | PasswordFields cur new \<Rightarrow>
          if password_problems cur new \<noteq> [] then ((writeError 400 (join_with ''; '' (password_problems cur new)), db, ex, []), pwLimiter)
          else (let (ok, pwLimiter) = allow now (he_uuid env (si_UserID s)) pwLimiter
                in (if \<not> ok then (writeError 429 ''too many password attempts; try again in a minute'', db, ex, [])
                    else if fail_get then (internalError, db, ex, [])
                    else case GetUserByID db0 (si_UserID s) of
                      None \<Rightarrow> (writeError 401 ''not authenticated'', db, ex, [])
                    | Some u \<Rightarrow>
                        if ui_PasswordHash u = '''' then (internalError, db, ex, [])
                        else (case he_verify env cur (ui_PasswordHash u) of
                           None \<Rightarrow> (internalError, db, ex, [])
                         | Some False \<Rightarrow> (writeError 403 ''current password is incorrect'', db, Fail ''wrong_current_password'' ex, [])
                         | Some True \<Rightarrow>
                             (case hash of
                                None \<Rightarrow> (internalError, db, ex, [])
                              | Some h \<Rightarrow>
                                  (case UpdateOwnPassword (si_UserID s) (ui_PasswordHash u) h (si_ID s) db of
                                     Inl e \<Rightarrow> (writeStoreError (he_msg env) e, db, ex, [])
                                   | Inr (revoked, db) \<Rightarrow>
                                       ((200, OkBody), db, Add [(''sessions_revoked'', itoa (int (length revoked)))] ex,
                                        sessionsEnded (he_uuid env) (he_time env) now revoked ''password_changed'' (clientIP r))))),
                    pwLimiter)))"

section \<open>Administration of users\<close>

text \<open>
  \<open>userIDParam\<close>: the path's id (\<open>None\<close> when it does not parse), refused for the caller's own account; the
  account is named in the audit record while it exists.
\<close>

definition userIDParam :: "SessionInfo \<Rightarrow> uuid option \<Rightarrow> string \<Rightarrow> accounts \<Rightarrow> Extras option \<Rightarrow> (response + uuid) \<times> Extras option" where
  "userIDParam s i selfRefusal db ex =
     (case i of
        None \<Rightarrow> (Inl (writeError 400 ''user id must be a UUID''), ex)
      | Some i \<Rightarrow>
          if si_UserID s = i then (Inl (writeError 409 selfRefusal), ex)
          else (Inr i, (case GetUserByID db i of None \<Rightarrow> ex | Some u \<Rightarrow> Add [(''user_target'', ui_Username u)] ex)))"

text \<open>The ids of the names that exist, and a problem for each that does not.\<close>

fun resolveNetworkNames :: "(acct_error \<Rightarrow> string) \<Rightarrow> accounts \<Rightarrow> string list \<Rightarrow> uuid list \<times> string list" where
  "resolveNetworkNames msg db [] = ([], [])"
| "resolveNetworkNames msg db (name # names) =
     (let (ids, problems) = resolveNetworkNames msg db names
      in case NetworkIDByName db name of
           Inl e \<Rightarrow> (ids, msg (NetworkMissing name) # problems)
         | Inr i \<Rightarrow> (i # ids, problems))"

text \<open>\<open>mintPassword\<close> gives the cleartext and its hash, or fails.\<close>

definition user_post_problems :: "string \<Rightarrow> string \<Rightarrow> string list \<Rightarrow> string list" where
  "user_post_problems username role networks =
     (if trim_space username = '''' then [''username is required''] else [])
     @ (if \<not> ValidRole role then [''role must be one of: '' @ join_with '', '' Roles]
        else if RoleIsNetworkScoped role \<and> networks = [] then [''networks is required for role '' @ role]
        else if \<not> RoleIsNetworkScoped role \<and> networks \<noteq> [] then [''networks is only valid for the network-scoped roles''] else [])"

definition handleUserPost ::
  "http_env \<Rightarrow> gtime \<Rightarrow> uuid \<Rightarrow> string \<Rightarrow> string \<Rightarrow> string list \<Rightarrow> (string \<times> string) option \<Rightarrow> handler" where
  "handleUserPost env now fresh username role networks password s db ex =
     (let (ids, nprob) = resolveNetworkNames (he_msg env) db networks;
          problems = user_post_problems username role networks @ nprob;
          name = trim_space username
      in if problems \<noteq> [] then (writeError 400 (join_with ''; '' problems), db, ex, [])
         else case password of
           None \<Rightarrow> (internalError, db, ex, [])
         | Some (cleartext, hash) \<Rightarrow>
             (case CreateUser now fresh name hash role ids db of
                Inl e \<Rightarrow> (writeStoreError (he_msg env) e, db, ex, [])
              | Inr db \<Rightarrow>
                  ((200, UserBody fresh name role cleartext), db,
                   Add [(''user_target'', name), (''user_id'', he_uuid env fresh), (''role'', role), (''networks'', join_with '','' networks)] ex, [])))"

definition handleUserResetPassword :: "http_env \<Rightarrow> gtime \<Rightarrow> http_request \<Rightarrow> uuid option \<Rightarrow> (string \<times> string) option \<Rightarrow> handler" where
  "handleUserResetPassword env now r i password s db ex =
     (case userIDParam s i ''reset your own password from the user menu instead'' db ex of
        (Inl resp, ex) \<Rightarrow> (resp, db, ex, [])
      | (Inr i, ex) \<Rightarrow>
          (case password of
             None \<Rightarrow> (internalError, db, ex, [])
           | Some (cleartext, hash) \<Rightarrow>
               (case ResetLocalUserPassword i hash db of
                  Inl e \<Rightarrow> (writeStoreError (he_msg env) e, db, ex, [])
                | Inr (username, role, revoked, db) \<Rightarrow>
                    ((200, UserBody i username role cleartext), db, Add [(''sessions_revoked'', itoa (int (length revoked)))] ex,
                     sessionsEnded (he_uuid env) (he_time env) now revoked ''password_reset'' (clientIP r)))))"

definition bool_text :: "bool \<Rightarrow> string" where
  "bool_text b = (if b then ''true'' else ''false'')"

text \<open>The second half of \<open>handleUserPut\<close>: the flag.\<close>

definition put_disabled :: "http_env \<Rightarrow> gtime \<Rightarrow> http_request \<Rightarrow> uuid \<Rightarrow> bool \<Rightarrow> accounts \<Rightarrow> Extras option \<Rightarrow> response \<times> accounts \<times> Extras option \<times> audit_event list" where
  "put_disabled env now r i d db ex =
     (case SetUserDisabled now i d db of
        Inl e \<Rightarrow> (writeStoreError (he_msg env) e, db, ex, [])
      | Inr (changed, alive, db) \<Rightarrow>
          ((200, EmptyBody), db, Add [(''disabled'', bool_text d), (''changed'', bool_text changed)] ex,
           (if \<not> changed then []
            else if d then sessionsEnded (he_uuid env) (he_time env) now alive ''user_disabled'' (clientIP r)
            else map (\<lambda>ref. session_ref_event (he_uuid env) EventSessionRestored ''session restored'' ref (clientIP r) 0 [(''reason'', ''user_enabled'')]) alive)))"

definition handleUserPut :: "http_env \<Rightarrow> gtime \<Rightarrow> http_request \<Rightarrow> uuid option \<Rightarrow> bool option \<Rightarrow> string list option \<Rightarrow> handler" where
  "handleUserPut env now r i disabled networks s db ex =
     (case userIDParam s i ''you cannot disable or delete your own account'' db ex of
        (Inl resp, ex) \<Rightarrow> (resp, db, ex, [])
      | (Inr i, ex) \<Rightarrow>
          if disabled = None \<and> networks = None then (writeError 400 ''disabled or networks is required'', db, ex, [])
          else (case networks of
             None \<Rightarrow> put_disabled env now r i (the disabled) db ex
           | Some names \<Rightarrow>
               (let (ids, nprob) = resolveNetworkNames (he_msg env) db names;
                    problems = nprob @ (if names = [] then [''networks must not be empty (a scoped user needs at least one network)''] else [])
                in if problems \<noteq> [] then (writeError 400 (join_with ''; '' problems), db, ex, [])
                   else (case SetUserNetworks i ids db of
                      Inl e \<Rightarrow> (writeStoreError (he_msg env) e, db, ex, [])
                    | Inr db \<Rightarrow>
                        (let ex = Add [(''networks'', join_with '','' names)] ex
                         in case disabled of None \<Rightarrow> ((200, EmptyBody), db, ex, []) | Some d \<Rightarrow> put_disabled env now r i d db ex)))))"

definition handleUserDelete :: "http_env \<Rightarrow> gtime \<Rightarrow> http_request \<Rightarrow> uuid option \<Rightarrow> handler" where
  "handleUserDelete env now r i s db ex =
     (case userIDParam s i ''you cannot disable or delete your own account'' db ex of
        (Inl resp, ex) \<Rightarrow> (resp, db, ex, [])
      | (Inr i, ex) \<Rightarrow>
          (case DeleteUser i db of
             Inl e \<Rightarrow> (writeStoreError (he_msg env) e, db, ex, [])
           | Inr (revoked, db) \<Rightarrow>
               ((200, EmptyBody), db, Add [(''sessions_revoked'', itoa (int (length revoked)))] ex,
                sessionsEnded (he_uuid env) (he_time env) now revoked ''user_deleted'' (clientIP r))))"

end
