(* ===== verification/Dashboard_Sso.thy ===== *)
theory Dashboard_Sso
  imports Dashboard "HOL-Library.Char_ord" "HOL-Library.List_Lexorder"
begin

text \<open>
  Single sign-on: the mapping from verified claims to a role (\<open>internal/server/oidcauth/claims.go\<close>), the
  provider cache (\<open>oidcauth.go\<close>) and the flow of \<open>internal/server/httpapi/oidc.go\<close>.

  The exchange with the identity provider is a parameter: it yields the verified issuer, subject and
  claims, or an error. Other requests may act between the steps of the callback, so it takes the
  tables as the settings read, the account write and the session insert find them.
\<close>

section \<open>Claims\<close>

text \<open>A decoded JSON value, as far as the mapping looks.\<close>

datatype claim = ClaimString string | ClaimArray "claim list" | ClaimOther

record Claims =
  cl_Issuer :: string
  cl_Subject :: string
  cl_Username :: string
  cl_Role :: string
  cl_Networks :: "string list"

datatype claims_error = EmptyIssuer | EmptySubject | NoUsername string | AccessDenied string string string

fun claim_string :: "claim \<Rightarrow> string option" where
  "claim_string (ClaimString v) = Some v"
| "claim_string _ = None"

definition claimValues :: "claim option \<Rightarrow> string list" where
  "claimValues c =
     (case c of
        Some (ClaimString v) \<Rightarrow> [v]
      | Some (ClaimArray vs) \<Rightarrow> List.map_filter claim_string vs
      | _ \<Rightarrow> [])"

text \<open>The networks of the rules that grant a role, each once, in the order they are met.\<close>

definition granted :: "OIDCRoleRule list \<Rightarrow> string list \<Rightarrow> string \<Rightarrow> string list" where
  "granted rules values want =
     foldl (\<lambda>networks rule. if ru_Role rule \<noteq> want \<or> ru_Value rule \<notin> set values then networks
       else foldl (\<lambda>networks n. if n \<in> set networks then networks else networks @ [n]) networks (ru_Networks rule)) [] rules"

fun map_rules :: "OIDCRoleRule list \<Rightarrow> string list \<Rightarrow> string list \<Rightarrow> (string \<times> string list) option" where
  "map_rules rules values [] = None"
| "map_rules rules values (want # wants) =
     (let networks = granted rules values want
      in if networks \<noteq> [] then Some (want, sort networks) else map_rules rules values wants)"

definition mapClaims ::
  "string \<Rightarrow> string \<Rightarrow> string list \<Rightarrow> OIDCRoleRule list \<Rightarrow> string \<Rightarrow> string \<Rightarrow> string \<Rightarrow> (string \<rightharpoonup> claim) \<Rightarrow> claims_error + Claims" where
  "mapClaims usernameClaim roleClaim adminValues roleRules unmatchedRole issuer subject all =
     (if issuer = '''' then Inl EmptyIssuer
      else if subject = '''' then Inl EmptySubject
      else (let username = (case all usernameClaim of Some (ClaimString v) \<Rightarrow> v | _ \<Rightarrow> '''');
                c = \<lparr>cl_Issuer = issuer, cl_Subject = subject, cl_Username = username, cl_Role = '''', cl_Networks = []\<rparr>;
                values = claimValues (all roleClaim)
            in if username = '''' then Inl (NoUsername usernameClaim)
               else if adminValues \<noteq> [] \<and> list_ex (\<lambda>v. v \<in> set adminValues) values then Inr (c\<lparr>cl_Role := RoleAdmin\<rparr>)
               else case map_rules roleRules values [RoleNetworkAdmin, RoleNetworkViewer] of
                 Some (role, networks) \<Rightarrow> Inr (c\<lparr>cl_Role := role, cl_Networks := networks\<rparr>)
               | None \<Rightarrow>
                   if unmatchedRole = ''deny'' then Inl (AccessDenied issuer subject username)
                   else Inr (c\<lparr>cl_Role := RoleViewer\<rparr>)))"

section \<open>The provider\<close>

text \<open>
  \<open>Manager.Provider\<close>: a discovered provider is kept under the revision it was built from. It is
  represented by the settings it was built from; \<open>discovers\<close> says whether discovery would succeed.
\<close>

record Manager =
  mg_cacheKey :: "gtime option"
  mg_cached :: "OIDCSettings option"

datatype provider_error = ProviderDisabled | DiscoveryFailed

definition Provider :: "(OIDCSettings \<Rightarrow> bool) \<Rightarrow> accounts \<Rightarrow> Manager \<Rightarrow> (provider_error + (OIDCSettings \<times> OIDCSettings)) \<times> Manager" where
  "Provider discovers db m =
     (let cfg = GetOIDCSettings db
      in if \<not> os_Enabled cfg then (Inl ProviderDisabled, m)
         else case mg_cached m of
           Some p \<Rightarrow>
             if mg_cacheKey m = Some (os_UpdatedAt cfg) then (Inr (p, cfg), m)
             else if discovers cfg then (Inr (cfg, cfg), \<lparr>mg_cacheKey = Some (os_UpdatedAt cfg), mg_cached = Some cfg\<rparr>)
             else (Inl DiscoveryFailed, m)
         | None \<Rightarrow>
             if discovers cfg then (Inr (cfg, cfg), \<lparr>mg_cacheKey = Some (os_UpdatedAt cfg), mg_cached = Some cfg\<rparr>)
             else (Inl DiscoveryFailed, m))"

definition Invalidate :: "Manager \<Rightarrow> Manager" where
  "Invalidate m = \<lparr>mg_cacheKey = None, mg_cached = None\<rparr>"

text \<open>
  \<open>Exchange\<close>: \<open>redeem\<close> yields the nonce, issuer, subject and claims of the verified token, or an error.
\<close>

datatype exchange_error = ExchangeFailed | NonceMismatch | BadClaims claims_error

record id_token =
  it_Nonce :: string
  it_Issuer :: string
  it_Subject :: string
  it_Claims :: "string \<rightharpoonup> claim"

definition Exchange ::
  "(OIDCSettings \<Rightarrow> string \<Rightarrow> string \<Rightarrow> id_token option) \<Rightarrow> OIDCSettings \<Rightarrow> string \<Rightarrow> string \<Rightarrow> string \<Rightarrow> exchange_error + Claims" where
  "Exchange redeem prov code verifier expectedNonce =
     (case redeem prov code verifier of
        None \<Rightarrow> Inl ExchangeFailed
      | Some tok \<Rightarrow>
          if it_Nonce tok \<noteq> expectedNonce then Inl NonceMismatch
          else map_sum BadClaims id (mapClaims (os_UsernameClaim prov) (os_RoleClaim prov) (os_AdminValues prov) (os_RoleRules prov)
            (os_UnmatchedRole prov) (it_Issuer tok) (it_Subject tok) (it_Claims tok)))"

section \<open>The callback\<close>

text \<open>\<open>strings.SplitN(s, ".", 3)\<close> with three non-empty parts.\<close>

definition split_state :: "string \<Rightarrow> (string \<times> string \<times> string) option" where
  "split_state s =
     (let a = takeWhile (\<lambda>c. c \<noteq> CHR ''.'') s; r1 = drop (length a + 1) s;
          b = takeWhile (\<lambda>c. c \<noteq> CHR ''.'') r1; c = drop (length b + 1) r1
      in if a = '''' \<or> b = '''' \<or> c = '''' then None else Some (a, b, c))"

text \<open>What the callback reads of its request.\<close>

record callback_request =
  cb_error :: string
  cb_cookie :: "string option"
  cb_state :: string
  cb_code :: string

definition ssoRedirect :: "string \<Rightarrow> response" where
  "ssoRedirect code = (303, RedirectTo (if code = '''' then ''/'' else ''/#/sso-error='' @ code))"

definition reasonToken :: "string \<Rightarrow> string" where
  "reasonToken what = map (\<lambda>c. if c = CHR '' '' then CHR ''_'' else c) (to_lower (trim_space what))"

definition sso_refused :: "string \<Rightarrow> string \<Rightarrow> string \<Rightarrow> Outcome \<Rightarrow> string \<Rightarrow> audit_event" where
  "sso_refused remote username issuer outcome reason =
     \<lparr>ev_ID = EventSSOLogin, ev_Msg = ''sso login refused'', ev_Outcome = outcome,
      ev_Actor = \<lparr>a_User = username, a_Source = ''oidc'', a_Session = ''''\<rparr>, ev_Remote = remote, ev_At = 0,
      ev_Attrs = (''reason'', reason) # (if issuer \<noteq> '''' then [(''issuer'', issuer)] else [])\<rparr>"

definition auditSSOAccount :: "(uuid \<Rightarrow> string) \<Rightarrow> OIDCUpsertResult \<Rightarrow> string list \<Rightarrow> string \<Rightarrow> audit_event list" where
  "auditSSOAccount uuid_str res networks remote =
     (let u = ur_User res;
          base = [(''user_id'', uuid_str (ui_ID u)), (''user_target'', ui_Username u), (''role'', ui_Role u), (''networks'', join_with '','' networks)];
          event = (\<lambda>i msg attrs. \<lparr>ev_ID = i, ev_Msg = msg, ev_Outcome = Success,
            ev_Actor = \<lparr>a_User = ui_Username u, a_Source = ''oidc'', a_Session = ''''\<rparr>, ev_Remote = remote, ev_At = 0, ev_Attrs = attrs\<rparr>)
      in if ur_Created res then [event EventSSOAccountCreated ''sso account created'' base]
         else if Changed res then [event EventSSOAccountUpdated ''sso account updated''
           (base @ [(''prev_username'', ur_PrevUsername res), (''prev_role'', ur_PrevRole res),
                    (''prev_networks'', join_with '','' (case ur_PrevNetworks res of None \<Rightarrow> [] | Some ns \<Rightarrow> ns))])]
         else [])"

text \<open>The networks that exist among the mapped names: ids and names, in order.\<close>

definition resolve_existing :: "accounts \<Rightarrow> string list \<Rightarrow> (uuid \<times> string) list" where
  "resolve_existing db names =
     List.map_filter (\<lambda>name. case NetworkIDByName db name of Inl e \<Rightarrow> None | Inr i \<Rightarrow> Some (i, name)) names"

record sso_result =
  so_resp :: response
  so_cookie :: "string option"
  so_db :: accounts
  so_limiter :: loginLimiter
  so_manager :: Manager
  so_events :: "audit_event list"

text \<open>
  \<open>db0\<close> are the tables when the settings are read, \<open>db1\<close> when networks are resolved and the account is
  written; \<open>mid\<close> is what others do between that commit and the insert of the session. \<open>fresh\<close> is the id
  of an account to create, \<open>suffix\<close> as in \<open>UpsertOIDCUser\<close>.
\<close>

definition sso_issue ::
  "http_env \<Rightarrow> login_faults \<Rightarrow> gtime \<Rightarrow> minted \<Rightarrow> string \<Rightarrow> OIDCSettings \<Rightarrow> Claims \<Rightarrow> OIDCUpsertResult \<Rightarrow> accounts
   \<Rightarrow> response \<times> string option \<times> accounts \<times> audit_event list" where
  "sso_issue env f now m remote cfg claims res db =
     (let user = ur_User res;
          fail = (\<lambda>code what. (ssoRedirect code, None,
            [sso_refused remote (ui_Username user) (cl_Issuer claims) (if code = ''denied'' \<or> code = ''disabled'' then Denied else Failure) (reasonToken what)]))
      in if ui_Disabled user then (let (resp, c, evs) = fail ''disabled'' ''user is disabled'' in (resp, c, db, evs))
         else (case issueSession env f now m (ui_ID user)
                 (\<lambda>now sid th csrf exp db. CreateOIDCSession now sid (ui_ID user) th csrf exp (os_Issuer cfg) (os_ClientID cfg) (os_UpdatedAt cfg) db) db of
            (Some e, db, evs) \<Rightarrow>
              (let (resp, c, evs') = (if e = ErrProviderChanged then fail ''config'' ''provider changed during login''
                     else if e = ErrOIDCPolicyChanged then fail ''state'' ''settings changed during login''
                     else fail ''internal'' ''issue session'')
               in (resp, c, db, evs @ evs'))
          | (None, db, evs) \<Rightarrow>
              (ssoRedirect '''', Some (mi_token m), db,
               evs @ [\<lparr>ev_ID = EventSSOLogin, ev_Msg = ''sso login'', ev_Outcome = Success,
                       ev_Actor = \<lparr>a_User = ui_Username user, a_Source = ''oidc'', a_Session = he_uuid env (mi_sid m)\<rparr>,
                       ev_Remote = remote, ev_At = 0, ev_Attrs = [(''issuer'', cl_Issuer claims)]\<rparr>])))"

text \<open>From the claims to the account: the scope must resolve, the write is bound to the settings' revision.\<close>

definition sso_account ::
  "(string \<Rightarrow> string \<Rightarrow> string) \<Rightarrow> gtime \<Rightarrow> uuid \<Rightarrow> OIDCSettings \<Rightarrow> Claims \<Rightarrow> accounts
   \<Rightarrow> (string \<times> string) + (OIDCUpsertResult \<times> string list \<times> accounts)" where
  "sso_account suffix now fresh cfg claims db =
     (let scope = (if RoleIsNetworkScoped (cl_Role claims) then resolve_existing db (cl_Networks claims) else [])
      in if RoleIsNetworkScoped (cl_Role claims) \<and> scope = [] then Inl (''claims'', ''role mapping resolved to no existing networks'')
         else case UpsertOIDCUser suffix now fresh (cl_Issuer claims) (cl_Subject claims) (cl_Username claims) (cl_Role claims) (map fst scope)
                (os_UpdatedAt cfg) db of
           Inl e \<Rightarrow> Inl (if e = ErrOIDCPolicyChanged then (''state'', ''settings changed during login'') else (''internal'', ''upsert oidc user''))
         | Inr (res, db) \<Rightarrow> Inr (res, map snd scope, db))"

definition handleOIDCCallback ::
  "http_env \<Rightarrow> (string \<Rightarrow> string \<Rightarrow> string) \<Rightarrow> (OIDCSettings \<Rightarrow> bool) \<Rightarrow> (OIDCSettings \<Rightarrow> string \<Rightarrow> string \<Rightarrow> id_token option) \<Rightarrow> login_faults
   \<Rightarrow> gtime \<Rightarrow> uuid \<Rightarrow> minted \<Rightarrow> http_request \<Rightarrow> callback_request \<Rightarrow> loginLimiter \<Rightarrow> Manager \<Rightarrow> accounts \<Rightarrow> accounts \<Rightarrow> (accounts \<Rightarrow> accounts) \<Rightarrow> sso_result" where
  "handleOIDCCallback env suffix discovers redeem f now fresh m r cb limiter mgr db0 db1 mid =
     (let remote = clientIP r;
          (ok, limiter) = allow now remote limiter;
          res0 = \<lparr>so_resp = ssoRedirect '''', so_cookie = None, so_db = db1, so_limiter = limiter, so_manager = mgr, so_events = []\<rparr>;
          fail = (\<lambda>username issuer code what. res0\<lparr>so_resp := ssoRedirect code,
            so_events := [sso_refused remote username issuer (if code = ''denied'' \<or> code = ''disabled'' then Denied else Failure) (reasonToken what)]\<rparr>)
      in if \<not> ok then res0\<lparr>so_resp := writeError 429 ''too many attempts; try again in a minute'',
                so_events := [sso_refused remote '''' '''' Denied ''rate_limited'']\<rparr>
         else if cb_error cb \<noteq> '''' then fail '''' '''' ''provider'' ''idp returned error''
         else case cb_cookie cb of
           None \<Rightarrow> fail '''' '''' ''state'' ''missing state cookie''
         | Some v \<Rightarrow>
             (case split_state v of
                None \<Rightarrow> fail '''' '''' ''state'' ''malformed state cookie''
              | Some (state, nonce, verifier) \<Rightarrow>
                  if cb_state cb = '''' \<or> cb_state cb \<noteq> state then fail '''' '''' ''state'' ''state mismatch''
                  else if cb_code cb = '''' then fail '''' '''' ''state'' ''missing authorization code''
                  else (case Provider discovers db0 mgr of
                     (Inl e, mgr) \<Rightarrow> (fail '''' '''' (if e = ProviderDisabled then ''config'' else ''provider'') ''provider unavailable'')\<lparr>so_manager := mgr\<rparr>
                   | (Inr (prov, cfg), mgr) \<Rightarrow>
                       (case Exchange redeem prov (cb_code cb) verifier nonce of
                          Inl (BadClaims (AccessDenied iss sub name)) \<Rightarrow> (fail name iss ''denied'' ''code exchange'')\<lparr>so_manager := mgr\<rparr>
                        | Inl (BadClaims e) \<Rightarrow> (fail '''' '''' ''claims'' ''code exchange'')\<lparr>so_manager := mgr\<rparr>
                        | Inl e \<Rightarrow> (fail '''' '''' ''provider'' ''code exchange'')\<lparr>so_manager := mgr\<rparr>
                        | Inr claims \<Rightarrow>
                            (case sso_account suffix now fresh cfg claims db1 of
                               Inl (code, what) \<Rightarrow> (fail (cl_Username claims) (cl_Issuer claims) code what)\<lparr>so_manager := mgr\<rparr>
                             | Inr (res, names, db) \<Rightarrow>
                                 (let (resp, cookie, db, evs) = sso_issue env f now m remote cfg claims res (mid db)
                                  in res0\<lparr>so_resp := resp, so_cookie := cookie, so_db := db, so_manager := mgr,
                                       so_events := auditSSOAccount (he_uuid env) res names remote @ evs\<rparr>))))))"

end
