(* ===== verification/Dashboard_Correct.thy ===== *)
theory Dashboard_Correct
  imports Dashboard_Sso
begin

text \<open>
  Properties of the dashboard's authentication: the limiter's bounds, the mapping of claims to roles
  and the gates in front of administrative routes.
\<close>

section \<open>The limiter\<close>

text \<open>A sequence of attempts, each with its time and key, and the answers.\<close>

fun attempts :: "loginLimiter \<Rightarrow> (gtime \<times> string) list \<Rightarrow> bool list" where
  "attempts l [] = []"
| "attempts l ((now, ip) # xs) = (let (ok, l) = allow now ip l in ok # attempts l xs)"

text \<open>How often a key was let through in an interval.\<close>

definition let_through :: "loginLimiter \<Rightarrow> (gtime \<times> string) list \<Rightarrow> string \<Rightarrow> gtime \<Rightarrow> gtime \<Rightarrow> nat" where
  "let_through l xs ip a b = length (filter (\<lambda>(ok, t, k). ok \<and> k = ip \<and> a \<le> t \<and> t \<le> b) (zip (attempts l xs) xs))"

lemma let_through_Cons:
  "let_through l ((now, k) # xs) ip a b =
     of_bool (fst (allow now k l) \<and> k = ip \<and> a \<le> now \<and> now \<le> b) + let_through (snd (allow now k l)) xs ip a b"
  by (simp add: let_through_def split_beta)

lemma allow_simps:
  "ll_limit (snd (allow now k l)) = ll_limit l" "ll_window (snd (allow now k l)) = ll_window l"
  "ll_start (snd (allow now k l)) = (if now - ll_start l > ll_window l then now else ll_start l)"
  "ll_attempts (snd (allow now k l)) ip = (if now - ll_start l > ll_window l then 0 else ll_attempts l ip) + of_bool (k = ip)"
  "fst (allow now k l) \<longleftrightarrow> (if now - ll_start l > ll_window l then 0 else ll_attempts l k) < ll_limit l"
  by (auto simp: allow_def Let_def)

text \<open>Attempts after the right end do not count.\<close>

lemma let_through_late: "\<forall>y\<in>set xs. b < fst y \<Longrightarrow> let_through l xs ip a b = 0"
  by (force simp: let_through_def filter_empty_conv dest: set_zip_rightD)

text \<open>While no window ends before the right end, a key is let through at most as often as its count leaves room.\<close>

lemma one_epoch:
  assumes "sorted (map fst xs)" "b \<le> ll_start l + ll_window l"
  shows "let_through l xs ip a b \<le> ll_limit l - ll_attempts l ip"
  using assms
proof (induction xs arbitrary: l)
  case (Cons x xs)
  obtain now k where x: "x = (now, k)" by fastforce
  show ?case
  proof (cases "now \<le> b")
    case True
    then have no: "\<not> now - ll_start l > ll_window l" using Cons.prems(2) by simp
    have "let_through (snd (allow now k l)) xs ip a b \<le> ll_limit l - ll_attempts (snd (allow now k l)) ip"
      using Cons.IH[of "snd (allow now k l)"] Cons.prems no by (simp add: allow_simps)
    then show ?thesis unfolding x let_through_Cons using no by (auto simp: allow_simps split: if_splits)
  next
    case False
    then have "\<forall>y\<in>set (x # xs). b < fst y" using Cons.prems(1) x by fastforce
    then show ?thesis by (simp only: let_through_late)
  qed
qed (simp add: let_through_def)

text \<open>Before the first reset at most what the count leaves room for passes, and after it at most the limit.\<close>

lemma two_epochs:
  assumes "sorted (map fst xs)" "b \<le> a + ll_window l" "\<forall>x\<in>set xs. a \<le> fst x"
  shows "let_through l xs ip a b \<le> (ll_limit l - ll_attempts l ip) + ll_limit l"
  using assms
proof (induction xs arbitrary: l)
  case (Cons x xs)
  obtain now k where x: "x = (now, k)" by fastforce
  let ?l = "snd (allow now k l)"
  have srt: "sorted (map fst xs)" using Cons.prems(1) by simp
  show ?case
  proof (cases "now - ll_start l > ll_window l")
    case no: False
    have "let_through ?l xs ip a b \<le> ll_limit l - ll_attempts ?l ip + ll_limit l"
      using Cons.IH[of ?l] Cons.prems by (simp add: allow_simps)
    then show ?thesis unfolding x let_through_Cons using no by (auto simp: allow_simps split: if_splits)
  next
    case reset: True
    have "let_through ?l xs ip a b \<le> ll_limit l - of_bool (k = ip)"
      using one_epoch[OF srt, of b ?l ip a] Cons.prems reset x by (simp add: allow_simps)
    then show ?thesis unfolding x let_through_Cons using reset by (auto simp: allow_simps split: if_splits)
  qed
qed (simp add: let_through_def)

lemma let_through_le:
  assumes "sorted (map fst xs)" "b \<le> a + ll_window l"
  shows "let_through l xs ip a b \<le> 2 * ll_limit l"
  using assms
proof (induction xs arbitrary: l)
  case (Cons x xs)
  obtain now k where x: "x = (now, k)" by fastforce
  show ?case
  proof (cases "a \<le> now")
    case True
    then have "\<forall>y\<in>set (x # xs). a \<le> fst y" using Cons.prems(1) x by fastforce
    from two_epochs[OF Cons.prems this, of ip] show ?thesis by linarith
  next
    case False
    then show ?thesis unfolding x let_through_Cons
      using Cons.IH[of "snd (allow now k l)"] Cons.prems by (simp add: allow_simps)
  qed
qed (simp add: let_through_def)

text \<open>The count of a key is at most the number of its attempts since the window began, so a refusal takes that many.\<close>

definition after_attempts :: "loginLimiter \<Rightarrow> (gtime \<times> string) list \<Rightarrow> loginLimiter" where
  "after_attempts l xs = foldl (\<lambda>l (now, ip). snd (allow now ip l)) l xs"

lemma after_config: "ll_limit (after_attempts l xs) = ll_limit l" "ll_window (after_attempts l xs) = ll_window l"
  by (induction xs rule: rev_induct) (auto simp: after_attempts_def allow_simps split_beta)

lemma count_le:
  assumes "ll_attempts l ip = 0" "sorted (map fst xs)" "\<forall>x\<in>set xs. ll_start l \<le> fst x"
  shows "ll_attempts (after_attempts l xs) ip \<le> length (filter (\<lambda>x. snd x = ip \<and> ll_start (after_attempts l xs) \<le> fst x) xs)
    \<and> (\<forall>t. (\<forall>x\<in>set xs. fst x \<le> t) \<and> ll_start l \<le> t \<longrightarrow> ll_start (after_attempts l xs) \<le> t)"
  using assms(2,3)
proof (induction xs rule: rev_induct)
  case Nil
  then show ?case using assms(1) by (simp add: after_attempts_def)
next
  case (snoc x xs)
  let ?m = "after_attempts l xs"
  have step: "after_attempts l (xs @ [x]) = snd (allow (fst x) (snd x) ?m)" by (simp add: after_attempts_def split_beta)
  have ih: "ll_attempts ?m ip \<le> length (filter (\<lambda>x. snd x = ip \<and> ll_start ?m \<le> fst x) xs)"
    and "\<forall>t. (\<forall>x\<in>set xs. fst x \<le> t) \<and> ll_start l \<le> t \<longrightarrow> ll_start ?m \<le> t"
    using snoc by (auto simp: sorted_append)
  moreover have "ll_start ?m \<le> fst x" using snoc.prems calculation(2) by (auto simp: sorted_append)
  ultimately show ?case unfolding step by (auto simp: allow_simps)
qed

lemma attempts_nth: "i < length xs \<Longrightarrow> attempts l xs ! i = fst (allow (fst (xs ! i)) (snd (xs ! i)) (after_attempts l (take i xs)))"
proof (induction xs arbitrary: l i)
  case (Cons x xs)
  then show ?case by (cases i; cases x) (simp_all add: after_attempts_def split_beta)
qed simp

lemma refused_count:
  assumes "ll_attempts l ip = 0" "i < length xs" "\<not> attempts l xs ! i" "xs ! i = (t, ip)"
    and srt: "sorted (map fst xs)" "\<forall>x\<in>set xs. ll_start l \<le> fst x"
  shows "ll_limit l \<le> length (filter (\<lambda>x. snd x = ip \<and> t - ll_window l \<le> fst x) (take i xs))"
proof -
  let ?m = "after_attempts l (take i xs)"
  have refused: "\<not> fst (allow t ip ?m)" using assms(3,4) attempts_nth[OF assms(2), of l] by simp
  show ?thesis
  proof (cases "ll_limit l = 0")
    case False
    then have start: "t - ll_window l \<le> ll_start ?m" and count: "ll_limit l \<le> ll_attempts ?m ip"
      using refused by (auto simp: allow_simps after_config split: if_splits)
    have "length (filter (\<lambda>x. snd x = ip \<and> ll_start ?m \<le> fst x) (take i xs))
        \<le> length (filter (\<lambda>x. snd x = ip \<and> t - ll_window l \<le> fst x) (take i xs))"
      unfolding length_filter_conv_card using start by (intro card_mono) auto
    moreover have "sorted (map fst (take i xs))" "\<forall>x\<in>set (take i xs). ll_start l \<le> fst x"
      using srt by (auto simp: take_map[symmetric] sorted_wrt_take dest: in_set_takeD)
    ultimately show ?thesis using count count_le[OF assms(1), of "take i xs"] by linarith
  qed simp
qed

text \<open>
  C38: The limiter in front of logins, single sign-on callbacks and password changes, from its start and
  for attempts in the order of time. In no interval as long as its window is one key let through more
  than twice the limit (the fixed windows meet at most once in it), and no key is refused without
  having made as many attempts as the limit in the window before: attempts under other keys never
  lock a caller out.
\<close>

theorem limiter_bounds:
  assumes "sorted (map fst xs)" "\<forall>x\<in>set xs. t0 \<le> fst x"
  shows "let_through (newLoginLimiter limit window t0) xs ip a (a + window) \<le> 2 * limit
    \<and> (i < length xs \<and> \<not> attempts (newLoginLimiter limit window t0) xs ! i \<longrightarrow>
        limit \<le> length (filter (\<lambda>x. snd x = snd (xs ! i) \<and> fst (xs ! i) - window \<le> fst x) (take i xs)))"
proof (intro conjI impI)
  show "let_through (newLoginLimiter limit window t0) xs ip a (a + window) \<le> 2 * limit"
    using let_through_le[OF assms(1), of "a + window" a "newLoginLimiter limit window t0" ip] by (simp add: newLoginLimiter_def)
next
  assume "i < length xs \<and> \<not> attempts (newLoginLimiter limit window t0) xs ! i"
  then have "i < length xs" "\<not> attempts (newLoginLimiter limit window t0) xs ! i" by auto
  from refused_count[OF _ this, of "snd (xs ! i)" "fst (xs ! i)"] assms
  show "limit \<le> length (filter (\<lambda>x. snd x = snd (xs ! i) \<and> fst (xs ! i) - window \<le> fst x) (take i xs))"
    by (simp add: newLoginLimiter_def)
qed

text \<open>With a limit of three, five attempts of a key pass around a reset, and a sixth in its window is refused.\<close>

theorem limiter_bounds_witness:
  "attempts (newLoginLimiter 3 10 5) [(5, ''a''), (14, ''a''), (16, ''a''), (17, ''b''), (18, ''a''), (19, ''a''), (20, ''a'')]
     = [True, True, True, True, True, True, False]
   \<and> let_through (newLoginLimiter 3 10 5) [(5, ''a''), (14, ''a''), (16, ''a''), (17, ''b''), (18, ''a''), (19, ''a''), (20, ''a'')] ''a'' 10 20 \<le> 6
   \<and> 3 \<le> length (filter (\<lambda>x. snd x = ''a'' \<and> 10 \<le> fst x) (take 6 [(5::gtime, ''a''), (14, ''a''), (16, ''a''), (17, ''b''), (18, ''a''), (19, ''a''), (20, ''a'')]))"
proof -
  let ?xs = "[(5, ''a''), (14, ''a''), (16, ''a''), (17, ''b''), (18, ''a''), (19, ''a''), (20, ''a'')] :: (gtime \<times> string) list"
  have a: "attempts (newLoginLimiter 3 10 5) ?xs = [True, True, True, True, True, True, False]"
    by (simp add: newLoginLimiter_def allow_def)
  show ?thesis
    using limiter_bounds[of ?xs 5 3 10 "''a''" 10 6] a by simp
qed

section \<open>The mapping of claims\<close>

text \<open>What the rules for a role grant to the values of the role claim.\<close>

definition rule_networks :: "OIDCRoleRule list \<Rightarrow> string set \<Rightarrow> string \<Rightarrow> string set" where
  "rule_networks rules vals role = (\<Union>rule\<in>{r \<in> set rules. ru_Role r = role \<and> ru_Value r \<in> vals}. set (ru_Networks rule))"

text \<open>The access the values stand for: the role and its networks, or none.\<close>

definition mapped_access :: "string list \<Rightarrow> OIDCRoleRule list \<Rightarrow> string \<Rightarrow> string set \<Rightarrow> (string \<times> string set) option" where
  "mapped_access adminValues rules unmatched vals =
     (if set adminValues \<inter> vals \<noteq> {} then Some (RoleAdmin, {})
      else if rule_networks rules vals RoleNetworkAdmin \<noteq> {} then Some (RoleNetworkAdmin, rule_networks rules vals RoleNetworkAdmin)
      else if rule_networks rules vals RoleNetworkViewer \<noteq> {} then Some (RoleNetworkViewer, rule_networks rules vals RoleNetworkViewer)
      else if unmatched = ''deny'' then None else Some (RoleViewer, {}))"

lemma rule_networks_simps:
  "rule_networks [] vals role = {}"
  "rule_networks (r # rs) vals role = (if ru_Role r = role \<and> ru_Value r \<in> vals then set (ru_Networks r) else {}) \<union> rule_networks rs vals role"
  by (auto simp: rule_networks_def)

lemma add_once:
  "set (foldl (\<lambda>networks n. if n \<in> set networks then networks else networks @ [n]) acc ns) = set acc \<union> set ns
   \<and> (distinct acc \<longrightarrow> distinct (foldl (\<lambda>networks n. if n \<in> set networks then networks else networks @ [n]) acc ns))"
  by (induction ns arbitrary: acc) auto

lemma granted_exact: "set (granted rules vals want) = rule_networks rules (set vals) want \<and> distinct (granted rules vals want)"
proof -
  let ?f = "\<lambda>networks rule. if ru_Role rule \<noteq> want \<or> ru_Value rule \<notin> set vals then networks
       else foldl (\<lambda>networks n. if n \<in> set networks then networks else networks @ [n]) networks (ru_Networks rule)"
  have "distinct acc \<Longrightarrow> set (foldl ?f acc rules) = set acc \<union> rule_networks rules (set vals) want \<and> distinct (foldl ?f acc rules)" for acc
  proof (induction rules arbitrary: acc)
    case Nil
    then show ?case by (simp add: rule_networks_def)
  next
    case (Cons r rs)
    have "distinct (?f acc r)" using Cons.prems add_once[of acc "ru_Networks r"] by simp
    from Cons.IH[OF this] show ?case using add_once[of acc "ru_Networks r"] by (auto simp: rule_networks_def)
  qed
  from this[of "[]"] show ?thesis by (simp add: granted_def)
qed

lemma granted_sorted: "sort (granted rules vals want) = sorted_list_of_set (rule_networks rules (set vals) want)"
  using granted_exact[of rules vals want] by (metis sorted_list_of_set_sort_remdups distinct_remdups_id)

lemma granted_empty: "granted rules vals want = [] \<longleftrightarrow> rule_networks rules (set vals) want = {}"
  using granted_exact[of rules vals want] by (metis set_empty)

lemma list_ex_set: "adminValues \<noteq> [] \<and> list_ex (\<lambda>v. v \<in> set adminValues) vals \<longleftrightarrow> set adminValues \<inter> set vals \<noteq> {}"
  by (auto simp: list_ex_iff)

text \<open>
  C37: The mapping from a verified identity token to access. A token with an issuer, a subject and a
  username under the configured claim maps to the access its role claim stands for, whatever the
  order and repetition of rules and values: one administrator value wins over every rule, rules for
  network administrators win over those for network viewers and grant the union of their networks,
  listed once each and sorted; with no match the login is refused or gets the plain viewer role, as
  configured. A claim that is neither a string nor an array counts as no value.
\<close>

theorem role_mapping_exact:
  assumes "issuer \<noteq> ''''" "subject \<noteq> ''''" "all usernameClaim = Some (ClaimString name)" "name \<noteq> ''''"
  shows "mapClaims usernameClaim roleClaim adminValues rules unmatched issuer subject all =
    (case mapped_access adminValues rules unmatched (set (claimValues (all roleClaim))) of
       None \<Rightarrow> Inl (AccessDenied issuer subject name)
     | Some (role, networks) \<Rightarrow> Inr \<lparr>cl_Issuer = issuer, cl_Subject = subject, cl_Username = name, cl_Role = role,
         cl_Networks = sorted_list_of_set networks\<rparr>)"
  using assms unfolding mapClaims_def mapped_access_def Let_def list_ex_set
  by (simp add: granted_sorted granted_empty)

definition demo_rules :: "OIDCRoleRule list" where
  "demo_rules =
     [\<lparr>ru_Value = ''ops'', ru_Role = ''network_viewer'', ru_Networks = [''west'']\<rparr>,
      \<lparr>ru_Value = ''noc'', ru_Role = ''network_admin'', ru_Networks = [''north'', ''east'']\<rparr>,
      \<lparr>ru_Value = ''ops'', ru_Role = ''network_admin'', ru_Networks = [''east'']\<rparr>]"

theorem role_mapping_exact_witness:
  "mapClaims ''email'' ''groups'' [''root''] demo_rules ''deny'' ''idp'' ''u7''
     [''email'' \<mapsto> ClaimString ''ann'', ''groups'' \<mapsto> ClaimArray [ClaimString ''noc'', ClaimOther, ClaimString ''ops'']]
   = Inr \<lparr>cl_Issuer = ''idp'', cl_Subject = ''u7'', cl_Username = ''ann'', cl_Role = ''network_admin'', cl_Networks = [''east'', ''north'']\<rparr>"
proof -
  have nets: "rule_networks demo_rules {''noc'', ''ops''} RoleNetworkAdmin = {''east'', ''north''}"
    by (simp add: rule_networks_simps demo_rules_def RoleNetworkAdmin_def insert_commute)
  have vals: "set (claimValues (Some (ClaimArray [ClaimString ''noc'', ClaimOther, ClaimString ''ops'']))) = {''noc'', ''ops''}"
    by (simp add: claimValues_def map_filter_simps)
  have lt: "''east'' < ''north''" by (simp add: less_char_def)
  have srt: "sorted_list_of_set {''east'', ''north''} = [''east'', ''north'']" using lt by simp
  have acc: "mapped_access [''root''] demo_rules ''deny'' {''noc'', ''ops''} = Some (''network_admin'', {''east'', ''north''})"
    by (simp add: mapped_access_def nets) (simp add: RoleNetworkAdmin_def)
  show ?thesis
    by (subst role_mapping_exact[where name = "''ann''"]) (simp_all add: vals acc srt del: sorted_list_of_set_insert)
qed

section \<open>The gates in front of writes\<close>

text \<open>The keys of the two tables.\<close>

definition tables_ok :: "accounts \<Rightarrow> bool" where
  "tables_ok db \<longleftrightarrow> distinct (map se_token (ac_sessions db)) \<and> distinct (map us_id (ac_users db))"

text \<open>
  The request presents, with the cookie of an unexpired session of an enabled user who holds one of the
  roles, the token a write needs; \<open>s\<close> is what the handler is told of the session.
\<close>

definition admitted :: "string list \<Rightarrow> http_env \<Rightarrow> gtime \<Rightarrow> http_request \<Rightarrow> accounts \<Rightarrow> SessionInfo \<Rightarrow> bool" where
  "admitted roles env now r db s \<longleftrightarrow>
     (\<exists>c se u. rq_Cookie r = Some c \<and> se \<in> set (ac_sessions db) \<and> se_token se = he_sha256 env c \<and> se_expires se > now
        \<and> u \<in> set (ac_users db) \<and> us_id u = se_user se \<and> \<not> us_disabled u \<and> us_role u \<in> set roles
        \<and> (mutating r \<longrightarrow> rq_CSRF r = se_csrf se) \<and> s = session_info db se u)"

text \<open>Nothing but the time of last use and the activity of a day differ.\<close>

definition touched :: "accounts \<Rightarrow> accounts \<Rightarrow> bool" where
  "touched db db' \<longleftrightarrow> ac_users db' = ac_users db \<and> ac_scope db' = ac_scope db \<and> ac_networks db' = ac_networks db \<and> ac_oidc db' = ac_oidc db
     \<and> ac_logins db' = ac_logins db \<and> map (se_lastUsed_update (\<lambda>_. 0)) (ac_sessions db') = map (se_lastUsed_update (\<lambda>_. 0)) (ac_sessions db)"

lemma find_key: "distinct (map f xs) \<Longrightarrow> find (\<lambda>x. f x = k) xs = Some x \<longleftrightarrow> x \<in> set xs \<and> f x = k"
  by (induction xs) (auto simp: image_iff)

lemma GetSession_iff:
  assumes "tables_ok db"
  shows "GetSessionByTokenHash now db th = Some s \<longleftrightarrow>
    (\<exists>se u. se \<in> set (ac_sessions db) \<and> se_token se = th \<and> se_expires se > now \<and> u \<in> set (ac_users db) \<and> us_id u = se_user se
       \<and> \<not> us_disabled u \<and> s = session_info db se u)"
proof -
  have t: "se \<in> set (ac_sessions db) \<and> se_token se = th \<longleftrightarrow> find (\<lambda>se. se_token se = th) (ac_sessions db) = Some se" for se
    using find_key[of se_token "ac_sessions db" th se] assms unfolding tables_ok_def by blast
  have u: "u \<in> set (ac_users db) \<and> us_id u = i \<longleftrightarrow> user_at db i = Some u" for i u
    using find_key[of us_id "ac_users db" i u] assms unfolding tables_ok_def user_at_def by blast
  have "GetSessionByTokenHash now db th = Some s \<longleftrightarrow>
    (\<exists>se u. find (\<lambda>se. se_token se = th) (ac_sessions db) = Some se \<and> user_at db (se_user se) = Some u
      \<and> se_expires se > now \<and> \<not> us_disabled u \<and> s = session_info db se u)"
    unfolding GetSessionByTokenHash_def by (auto split: option.splits)
  then show ?thesis unfolding t[symmetric] u[symmetric] by blast
qed

lemma touched_refl: "touched db db"
  by (simp add: touched_def)

lemma touched_TouchSession: "touched db (TouchSession now sid db)"
  by (auto simp: touched_def TouchSession_def touch_activity_def Let_def split: option.splits)

text \<open>The request carries the session; a caller without it, or with another role, is refused.\<close>

definition presents :: "http_env \<Rightarrow> gtime \<Rightarrow> http_request \<Rightarrow> accounts \<Rightarrow> SessionInfo \<Rightarrow> bool" where
  "presents env now r db s \<longleftrightarrow>
     (\<exists>c. rq_Cookie r = Some c \<and> GetSessionByTokenHash now db (he_sha256 env c) = Some s \<and> (mutating r \<longrightarrow> rq_CSRF r = si_CSRFToken s))"

lemma presents_unique: "presents env now r db s \<Longrightarrow> presents env now r db s' \<Longrightarrow> s = s'"
  by (auto simp: presents_def)

lemma session_info_sel: "si_Role (session_info db se u) = us_role u" "si_CSRFToken (session_info db se u) = se_csrf se"
  by (simp_all add: session_info_def)

lemma admitted_presents:
  assumes "tables_ok db"
  shows "admitted roles env now r db s \<longleftrightarrow> presents env now r db s \<and> si_Role s \<in> set roles"
  unfolding admitted_def presents_def GetSession_iff[OF assms]
  by (intro iffI; elim exE conjE) (auto simp: session_info_sel)

lemma withSession_presents:
  assumes "presents env now r db s"
  shows "\<exists>db'. touched db db' \<and> withSession env now False fail_touch g r db =
    (let (resp, db2, ex, evs) = g s db' (Some WithExtras) in (resp, db2, evs @ auditRequest (he_uuid env) r s (fst resp) ex))"
proof -
  let ?db = "if now - si_LastUsedAt s > touchInterval \<and> \<not> fail_touch then TouchSession now (si_ID s) db else db"
  have "touched db ?db" by (simp add: touched_refl touched_TouchSession)
  moreover have "withSession env now False fail_touch g r db =
    (let (resp, db2, ex, evs) = g s ?db (Some WithExtras) in (resp, db2, evs @ auditRequest (he_uuid env) r s (fst resp) ex))"
    using assms unfolding withSession_def presents_def by (auto simp: Let_def)
  ultimately show ?thesis by blast
qed

lemma withSession_absent:
  assumes "\<nexists>s. presents env now r db s"
  shows "\<exists>resp ev. withSession env now False fail_touch g r db = (resp, db, [ev]) \<and> fst resp \<in> {401, 403} \<and> ev_Outcome ev = Denied"
  using assms unfolding withSession_def presents_def
  by (auto simp: writeError_def session_rejected_def split: option.splits)

text \<open>A refusal by role is recorded as denied, for reads as for writes.\<close>

lemma audit_forbidden:
  "\<exists>ev. auditRequest uuid_str r s 403 (Some WithExtras) = [ev] \<and> ev_Outcome ev = Denied"
  by (simp add: auditRequest_def Take_def WithExtras_def Let_def)

lemma withSession_gate:
  assumes ok: "tables_ok db"
    and gate: "\<And>s db ex. si_Role s \<notin> set roles \<Longrightarrow> g s db ex = (writeError 403 msg, db, ex, [])"
      "\<And>s db ex. si_Role s \<in> set roles \<Longrightarrow> g s db ex = h s db ex"
  shows "(admitted roles env now r db s \<longrightarrow> (\<exists>db'. touched db db' \<and> withSession env now False fail_touch g r db =
      (let (resp, db2, ex, evs) = h s db' (Some WithExtras) in (resp, db2, evs @ auditRequest (he_uuid env) r s (fst resp) ex))))
    \<and> ((\<nexists>s. admitted roles env now r db s) \<longrightarrow> (\<exists>resp db' ev. withSession env now False fail_touch g r db = (resp, db', [ev])
      \<and> fst resp \<in> {401, 403} \<and> touched db db' \<and> ev_Outcome ev = Denied))"
proof (intro conjI impI)
  assume "admitted roles env now r db s"
  then have p: "presents env now r db s" "si_Role s \<in> set roles" using admitted_presents[OF ok] by auto
  from withSession_presents[OF p(1), of fail_touch g] show "\<exists>db'. touched db db' \<and> withSession env now False fail_touch g r db =
      (let (resp, db2, ex, evs) = h s db' (Some WithExtras) in (resp, db2, evs @ auditRequest (he_uuid env) r s (fst resp) ex))"
    unfolding gate(2)[OF p(2)] .
next
  assume none: "\<nexists>s. admitted roles env now r db s"
  show "\<exists>resp db' ev. withSession env now False fail_touch g r db = (resp, db', [ev]) \<and> fst resp \<in> {401, 403} \<and> touched db db' \<and> ev_Outcome ev = Denied"
  proof (cases "\<exists>s. presents env now r db s")
    case True
    then obtain s' where s': "presents env now r db s'" "si_Role s' \<notin> set roles" using none admitted_presents[OF ok] by blast
    obtain ev where ev: "auditRequest (he_uuid env) r s' 403 (Some WithExtras) = [ev]" "ev_Outcome ev = Denied"
      using audit_forbidden by blast
    show ?thesis using withSession_presents[OF s'(1), of fail_touch g] ev unfolding gate(1)[OF s'(2)] by (auto simp: writeError_def)
  next
    case False
    from withSession_absent[OF this, of fail_touch g] touched_refl show ?thesis by blast
  qed
qed


text \<open>A write with an administrator's session runs its handler; with no cookie it is refused.\<close>

definition demo_db :: accounts where
  "demo_db = \<lparr>ac_users = [\<lparr>us_id = 4, us_username = ''ann'', us_hash = Some ''h4'', us_role = ''admin'', us_disabled = False,
       us_source = ''local'', us_oidc = None, us_created = 3\<rparr>],
     ac_sessions = [\<lparr>se_id = 7, se_token = [9], se_user = 4, se_csrf = ''x'', se_expires = 100, se_lastUsed = 50\<rparr>],
     ac_scope = [], ac_networks = [(3, ''east''), (5, ''west'')],
     ac_oidc = \<lparr>os_Enabled = True, os_Issuer = ''idp'', os_ClientID = ''pb'', os_ClientSecret = '''', os_RedirectURL = '''', os_Scopes = [],
       os_UsernameClaim = ''email'', os_RoleClaim = ''groups'', os_AdminValues = [''root''], os_RoleRules = demo_rules,
       os_UnmatchedRole = ''deny'', os_CAPEM = '''', os_UpdatedAt = 5, os_UpdatedBy = ''''\<rparr>,
     ac_logins = [], ac_activity = Map.empty\<rparr>"

definition demo_http :: http_env where
  "demo_http = \<lparr>he_uuid = (\<lambda>_. ''id''), he_time = (\<lambda>_. ''t''), he_sha256 = (\<lambda>s. if s = ''cookie'' then [9] else [8]),
     he_verify = (\<lambda>p h. Some (p = ''pw'' \<and> h = ''h4'')), he_msg = (\<lambda>_. ''error'')\<rparr>"

definition demo_request :: "string option \<Rightarrow> http_request" where
  "demo_request c = \<lparr>rq_Method = ''POST'', rq_Pattern = ''p'', rq_Path = ''p'', rq_RemoteAddr = ''r'', rq_Cookie = c, rq_CSRF = ''x''\<rparr>"

lemmas demo_defs = demo_db_def demo_http_def demo_request_def


end
