(* ===== verification/Dashboard_Login.thy ===== *)
theory Dashboard_Login
  imports Dashboard_Correct
begin

text \<open>
  What a login and a single sign-on callback give: the only difference a caller can see between the
  ways a password login fails, and the access of a session after the callback.
\<close>

section \<open>Password logins\<close>

text \<open>The tables after the cleanup a login starts with.\<close>

definition cleaned :: "login_faults \<Rightarrow> gtime \<Rightarrow> accounts \<Rightarrow> accounts" where
  "cleaned f now db = (if lf_cleanup f then db else snd (DeleteExpiredSessions now db))"

lemma cleaned_simps [simp]:
  "ac_users (cleaned f now db) = ac_users db" "ac_scope (cleaned f now db) = ac_scope db" "ac_networks (cleaned f now db) = ac_networks db"
  "ac_oidc (cleaned f now db) = ac_oidc db"
  by (auto simp: cleaned_def DeleteExpiredSessions_def delete_sessions_def)

lemma cleaned_mem [dest]: "se \<in> set (ac_sessions (cleaned f now db)) \<Longrightarrow> se \<in> set (ac_sessions db)"
  by (auto simp: cleaned_def DeleteExpiredSessions_def delete_sessions_def split: if_splits)

lemma no_login_events [simp]: "filter (\<lambda>e. ev_ID e = EventLogin) (sessionsExpired us tt refs now) = []"
  by (simp add: sessionsExpired_def session_ref_event_def EventLogin_def EventSessionEnded_def filter_empty_conv)

definition new_session :: "http_env \<Rightarrow> gtime \<Rightarrow> minted \<Rightarrow> uuid \<Rightarrow> session_row" where
  "new_session env now m userID = \<lparr>se_id = mi_sid m, se_token = he_sha256 env (mi_token m), se_user = userID, se_csrf = mi_csrf m,
     se_expires = now + sessionTTL, se_lastUsed = now\<rparr>"

definition fresh_session :: "http_env \<Rightarrow> minted \<Rightarrow> accounts \<Rightarrow> bool" where
  "fresh_session env m db \<longleftrightarrow> (\<forall>se\<in>set (ac_sessions db). se_token se \<noteq> he_sha256 env (mi_token m) \<and> se_id se \<noteq> mi_sid m)"

text \<open>Recording the login touches no session and no user.\<close>

lemma RecordLogin_keeps: "RecordLogin now i db = Inr db' \<Longrightarrow> ac_sessions db' = ac_sessions db \<and> ac_users db' = ac_users db \<and> ac_scope db' = ac_scope db
    \<and> ac_networks db' = ac_networks db"
  by (auto simp: RecordLogin_def touch_activity_def split: option.splits)

text \<open>What issuing a session does when the insert finds its row, and when it does not.\<close>

lemma issueSession_ok:
  assumes "\<not> lf_token f" "\<not> lf_insert f"
    and ins: "create now (mi_sid m) (he_sha256 env (mi_token m)) (mi_csrf m) (now + sessionTTL) (cleaned f now db) = Inr db1"
  shows "\<exists>db' evs. issueSession env f now m userID create db = (None, db', evs) \<and> filter (\<lambda>e. ev_ID e = EventLogin) evs = []
    \<and> ac_sessions db' = ac_sessions db1 \<and> ac_users db' = ac_users db1 \<and> ac_scope db' = ac_scope db1 \<and> ac_networks db' = ac_networks db1"
  using assms unfolding issueSession_def cleaned_def
  by (cases "DeleteExpiredSessions now db") (auto simp: Let_def split: sum.splits if_splits dest: RecordLogin_keeps)

lemma issueSession_error:
  assumes "\<not> lf_token f" "\<not> lf_insert f"
    and ins: "create now (mi_sid m) (he_sha256 env (mi_token m)) (mi_csrf m) (now + sessionTTL) (cleaned f now db) = Inl e"
  shows "\<exists>evs. issueSession env f now m userID create db = (Some e, cleaned f now db, evs) \<and> filter (\<lambda>e. ev_ID e = EventLogin) evs = []"
  using assms unfolding issueSession_def cleaned_def
  by (cases "DeleteExpiredSessions now db") (auto simp: Let_def)

lemma CreateLocalSession_fresh:
  assumes "fresh_session env m db"
  shows "CreateLocalSession now (mi_sid m) i (he_sha256 env (mi_token m)) csrf expires h (cleaned f now db) =
    (if list_ex (local_login_row i h) (ac_users db)
     then Inr ((cleaned f now db)\<lparr>ac_sessions := ac_sessions (cleaned f now db) @ [\<lparr>se_id = mi_sid m, se_token = he_sha256 env (mi_token m), se_user = i,
        se_csrf = csrf, se_expires = expires, se_lastUsed = now\<rparr>]\<rparr>)
     else Inl ErrPasswordChanged)"
  using assms by (auto simp: CreateLocalSession_def insert_session_def fresh_session_def list_ex_iff)

text \<open>
  The account a password login is entitled to: the row of that name when it was looked up was enabled
  and had a hash the password verifies against, and when the session is inserted that row is still
  local, enabled and under the same hash.
\<close>

definition entitled :: "http_env \<Rightarrow> accounts \<Rightarrow> accounts \<Rightarrow> string \<Rightarrow> string \<Rightarrow> user_row \<Rightarrow> bool" where
  "entitled env db0 db1 username password u \<longleftrightarrow>
     (\<exists>h. find (\<lambda>u. us_username u = username) (ac_users db0) = Some u \<and> \<not> us_disabled u \<and> us_hash u = Some h \<and> h \<noteq> []
        \<and> he_verify env password h = Some True \<and> list_ex (local_login_row (us_id u) h) (ac_users db1))"

text \<open>A request that is under the limit and well formed, and no failing lookup.\<close>

definition login_runs :: "login_faults \<Rightarrow> gtime \<Rightarrow> http_request \<Rightarrow> loginLimiter \<Rightarrow> string \<Rightarrow> string \<Rightarrow> bool" where
  "login_runs f now r limiter username password \<longleftrightarrow> fst (allow now (clientIP r) limiter) \<and> username \<noteq> [] \<and> password \<noteq> []
     \<and> CHR 0x00 \<notin> set username \<and> \<not> lf_lookup f"

definition verified_row :: "http_env \<Rightarrow> accounts \<Rightarrow> string \<Rightarrow> string \<Rightarrow> user_row \<Rightarrow> string \<Rightarrow> bool" where
  "verified_row env db0 username password u h \<longleftrightarrow>
     find (\<lambda>u. us_username u = username) (ac_users db0) = Some u \<and> \<not> us_disabled u \<and> us_hash u = Some h \<and> h \<noteq> [] \<and> he_verify env password h = Some True"

lemma login_issued:
  assumes "login_runs f now r limiter username password" "verified_row env db0 username password u h"
    and "issueSession env f now m (us_id u) (\<lambda>now sid th csrf exp db. CreateLocalSession now sid (us_id u) th csrf exp h db) db1 = (None, db, evs)"
  shows "handleLogin env f now m r (LoginFields username password) limiter db0 db1 =
    \<lparr>lr_resp = (200, LoginBody (us_username u) (us_role u) (us_source u) (ui_Networks (info_of db0 u)) (mi_csrf m)),
     lr_cookie = Some (mi_token m), lr_db = db, lr_limiter = snd (allow now (clientIP r) limiter),
     lr_events = evs @ [login_event_of Success ''login'' (us_username u) (us_source u) (he_uuid env (mi_sid m)) (clientIP r) []], lr_verified = [h]\<rparr>"
  using assms unfolding handleLogin_def GetUserByUsername_def login_runs_def verified_row_def
  by (cases "allow now (clientIP r) limiter") (simp add: info_of_def Let_def)

lemma login_lost:
  assumes "login_runs f now r limiter username password" "verified_row env db0 username password u h"
    and "issueSession env f now m (us_id u) (\<lambda>now sid th csrf exp db. CreateLocalSession now sid (us_id u) th csrf exp h db) db1 = (Some ErrPasswordChanged, db, evs)"
  shows "handleLogin env f now m r (LoginFields username password) limiter db0 db1 =
    \<lparr>lr_resp = writeError 401 ''invalid credentials'', lr_cookie = None, lr_db = db, lr_limiter = snd (allow now (clientIP r) limiter),
     lr_events = evs @ [login_refused (clientIP r) Failure username ''password_changed''], lr_verified = [h]\<rparr>"
  using assms unfolding handleLogin_def GetUserByUsername_def login_runs_def verified_row_def
  by (cases "allow now (clientIP r) limiter") (simp add: info_of_def Let_def)

lemma login_unverified:
  assumes "login_runs f now r limiter username password" "\<forall>h. he_verify env password h \<noteq> None" "\<nexists>u h. verified_row env db0 username password u h"
  shows "\<exists>hash reason. handleLogin env f now m r (LoginFields username password) limiter db0 db1 =
    \<lparr>lr_resp = writeError 401 ''invalid credentials'', lr_cookie = None, lr_db = db1, lr_limiter = snd (allow now (clientIP r) limiter),
     lr_events = [login_refused (clientIP r) Failure username reason], lr_verified = [hash]\<rparr>"
proof (cases "find (\<lambda>u. us_username u = username) (ac_users db0)")
  case None
  obtain b where "he_verify env password DummyHash = Some b" using assms(2) by auto
  with None assms(1) show ?thesis unfolding handleLogin_def GetUserByUsername_def login_runs_def
    by (cases "allow now (clientIP r) limiter") (auto simp: Let_def)
next
  case (Some u)
  let ?hash = "if \<not> us_disabled u \<and> us_hash u \<noteq> None \<and> us_hash u \<noteq> Some [] then the (us_hash u) else DummyHash"
  obtain b where b: "he_verify env password ?hash = Some b" using assms(2) by blast
  have no: "\<not> b \<or> us_disabled u \<or> us_hash u = None \<or> us_hash u = Some []"
    using assms(3) Some b unfolding verified_row_def by (auto split: if_splits)
  show ?thesis
  proof (cases "us_disabled u \<or> us_hash u = None \<or> us_hash u = Some []")
    case True
    with Some b assms(1) show ?thesis unfolding handleLogin_def GetUserByUsername_def login_runs_def
      by (cases "allow now (clientIP r) limiter"; cases "us_hash u") (auto simp: Let_def info_of_def)
  next
    case False
    with Some b no assms(1) show ?thesis unfolding handleLogin_def GetUserByUsername_def login_runs_def
      by (cases "allow now (clientIP r) limiter") (auto simp: Let_def info_of_def)
  qed
qed

text \<open>
  C39: A password login that is under the limit and well formed, while no call of the store fails. It
  always verifies the password against exactly one hash, whoever asked for whom. It sets a cookie
  exactly when the account was enabled with a hash the password verifies against at the lookup and
  is still local, enabled and under that hash when the session is inserted, and then adds exactly
  that user's session. In every other case (no such user, federated, disabled, wrong password, a
  password changed in between) the answer is the same 401 with the same text and no cookie, nothing
  but expired sessions leaves the tables, and one failed login is recorded.
\<close>

theorem login_refusals_uniform:
  assumes "login_runs f now r limiter username password" "\<not> lf_token f" "\<not> lf_insert f" "fresh_session env m db1"
    and "\<forall>h. he_verify env password h \<noteq> None"
  shows "length (lr_verified (handleLogin env f now m r (LoginFields username password) limiter db0 db1)) = 1
    \<and> (entitled env db0 db1 username password u \<longrightarrow>
        lr_cookie (handleLogin env f now m r (LoginFields username password) limiter db0 db1) = Some (mi_token m)
        \<and> ac_sessions (lr_db (handleLogin env f now m r (LoginFields username password) limiter db0 db1))
            = ac_sessions (cleaned f now db1) @ [new_session env now m (us_id u)])
    \<and> ((\<nexists>u. entitled env db0 db1 username password u) \<longrightarrow>
        lr_resp (handleLogin env f now m r (LoginFields username password) limiter db0 db1) = (401, ErrorBody ''invalid credentials'')
        \<and> lr_cookie (handleLogin env f now m r (LoginFields username password) limiter db0 db1) = None
        \<and> lr_db (handleLogin env f now m r (LoginFields username password) limiter db0 db1) \<in> {db1, cleaned f now db1}
        \<and> map ev_Outcome (filter (\<lambda>e. ev_ID e = EventLogin)
            (lr_events (handleLogin env f now m r (LoginFields username password) limiter db0 db1))) = [Failure])"
    (is "length (lr_verified ?res) = 1 \<and> _")
proof (cases "\<exists>u h. verified_row env db0 username password u h")
  case False
  from login_unverified[OF assms(1,5) False, of m db1] obtain hash reason where
    res: "?res = \<lparr>lr_resp = writeError 401 ''invalid credentials'', lr_cookie = None, lr_db = db1, lr_limiter = snd (allow now (clientIP r) limiter),
     lr_events = [login_refused (clientIP r) Failure username reason], lr_verified = [hash]\<rparr>" by blast
  have "\<not> entitled env db0 db1 username password u" using False by (auto simp: entitled_def verified_row_def)
  then show ?thesis unfolding res by (simp add: writeError_def login_refused_def login_event_of_def)
next
  case True
  then obtain v h where v: "verified_row env db0 username password v h" by blast
  have ent: "entitled env db0 db1 username password u \<longleftrightarrow> u = v \<and> list_ex (local_login_row (us_id v) h) (ac_users db1)" for u
    using v by (auto simp: entitled_def verified_row_def)
  note create = CreateLocalSession_fresh[OF assms(4), of now "us_id v" "mi_csrf m" "now + sessionTTL" h f]
  show ?thesis
  proof (cases "list_ex (local_login_row (us_id v) h) (ac_users db1)")
    case True
    obtain db' evs where iss: "issueSession env f now m (us_id v)
        (\<lambda>now sid th csrf exp db. CreateLocalSession now sid (us_id v) th csrf exp h db) db1 = (None, db', evs)"
      "ac_sessions db' = ac_sessions (cleaned f now db1) @ [new_session env now m (us_id v)]"
      using issueSession_ok[OF assms(2,3), of "\<lambda>now sid th csrf exp db. CreateLocalSession now sid (us_id v) th csrf exp h db" now m env db1 _ "us_id v"]
        create True by (auto simp: new_session_def)
    show ?thesis unfolding login_issued[OF assms(1) v iss(1)] using iss(2) True by (auto simp: ent)
  next
    case False
    obtain evs where iss: "issueSession env f now m (us_id v)
        (\<lambda>now sid th csrf exp db. CreateLocalSession now sid (us_id v) th csrf exp h db) db1 = (Some ErrPasswordChanged, cleaned f now db1, evs)"
      "filter (\<lambda>e. ev_ID e = EventLogin) evs = []"
      using issueSession_error[OF assms(2,3), of "\<lambda>now sid th csrf exp db. CreateLocalSession now sid (us_id v) th csrf exp h db" now m env db1 _ "us_id v"]
        create False by auto
    show ?thesis unfolding login_lost[OF assms(1) v iss(1)] using iss(2) False
      by (simp add: ent writeError_def login_refused_def login_event_of_def)
  qed
qed

text \<open>Ann's password opens a session; for a name that does not exist the answer is the uniform refusal.\<close>

definition demo_minted :: minted where
  "demo_minted = \<lparr>mi_token = ''new'', mi_csrf = ''y'', mi_sid = 8\<rparr>"

definition no_faults :: login_faults where
  "no_faults = \<lparr>lf_lookup = False, lf_cleanup = False, lf_token = False, lf_insert = False, lf_record = False\<rparr>"

theorem login_refusals_uniform_witness:
  "lr_cookie (handleLogin demo_http no_faults 60 demo_minted (demo_request None) (LoginFields ''ann'' ''pw'') (newLoginLimiter 10 60 5) demo_db demo_db)
     = Some ''new''
   \<and> lr_resp (handleLogin demo_http no_faults 60 demo_minted (demo_request None) (LoginFields ''eve'' ''pw'') (newLoginLimiter 10 60 5) demo_db demo_db)
     = (401, ErrorBody ''invalid credentials'')"
proof -
  have runs: "login_runs no_faults 60 (demo_request None) (newLoginLimiter 10 60 5) n ''pw''" if "n \<noteq> []" "CHR 0x00 \<notin> set n" for n
    using that by (simp add: login_runs_def no_faults_def allow_simps newLoginLimiter_def)
  have fresh: "fresh_session demo_http demo_minted demo_db" by (simp add: fresh_session_def demo_minted_def demo_defs)
  have total: "\<forall>h. he_verify demo_http ''pw'' h \<noteq> None" by (simp add: demo_http_def)
  have ann: "entitled demo_http demo_db demo_db ''ann'' ''pw'' (hd (ac_users demo_db))"
    by (simp add: entitled_def demo_defs local_login_row_def)
  have eve: "\<nexists>u. entitled demo_http demo_db demo_db ''eve'' ''pw'' u" by (simp add: entitled_def demo_db_def)
  note uniform = login_refusals_uniform[OF runs _ _ fresh total]
  show ?thesis
    using uniform[of "''ann''" demo_db "hd (ac_users demo_db)"] uniform[of "''eve''" demo_db] ann eve by (simp add: no_faults_def demo_minted_def)
qed

section \<open>Single sign-on\<close>

lemma put_exact:
  assumes "put_oidc_user now fresh issuer subject username role db = Inr (i, db1)" "distinct (map us_id (ac_users db))"
  shows "distinct (map us_id (ac_users db1)) \<and> (\<exists>u. user_at db1 i = Some u \<and> us_role u = role \<and> us_oidc u = Some (issuer, subject))
    \<and> ac_sessions db1 = ac_sessions db \<and> ac_scope db1 = ac_scope db \<and> ac_networks db1 = ac_networks db \<and> ac_oidc db1 = ac_oidc db"
proof (cases "oidc_row issuer subject db")
  case None
  have fresh: "fresh \<notin> us_id ` set (ac_users db)" "i = fresh"
    using assms(1) None by (auto simp: put_oidc_user_def Let_def list_ex_iff split: if_splits)
  then have tail: "find (\<lambda>u. us_id u = fresh) (ac_users db @ [u]) = Some u" if "us_id u = fresh" for u
    using find_key[of us_id "ac_users db @ [u]" fresh u] that assms(2) by auto
  show ?thesis using assms None fresh tail by (auto simp: put_oidc_user_def Let_def user_at_def split: if_splits)
next
  case (Some u)
  have u: "u \<in> set (ac_users db)" "us_oidc u = Some (issuer, subject)" using Some by (auto simp: oidc_row_def find_Some_iff)
  let ?f = "\<lambda>v. if us_id v = i then v\<lparr>us_username := username, us_role := role\<rparr> else v"
  have db1: "i = us_id u" "db1 = update_user i (\<lambda>u. u\<lparr>us_username := username, us_role := role\<rparr>) db"
    using assms(1) Some by (auto simp: put_oidc_user_def Let_def split: if_splits)
  have users: "ac_users db1 = map ?f (ac_users db)" by (simp add: db1(2) update_user_def)
  have ids: "map us_id (ac_users db1) = map us_id (ac_users db)" by (simp add: users)
  have "?f u \<in> set (ac_users db1)" using u(1) by (simp add: users)
  then have "user_at db1 i = Some (?f u)"
    using find_key[of us_id "ac_users db1" i "?f u"] assms(2) ids db1(1) by (simp add: user_at_def)
  with u(2) assms(2) ids db1(1) show ?thesis by (simp add: db1(2)) (simp add: update_user_def)
qed

text \<open>The scope of the account is replaced as a whole.\<close>

lemma insert_scope_mem:
  "r \<in> set (foldl (\<lambda>rows n. if (i, n) \<in> set rows then rows else rows @ [(i, n)]) rows ns) \<longleftrightarrow> r \<in> set rows \<or> r \<in> Pair i ` set ns"
  by (induction ns arbitrary: rows) auto

lemma upsert_exact:
  assumes "upsertOIDCUser now fresh issuer subject username role networks rv db = Inr (res, db2)" "tables_ok db"
  shows "tables_ok db2 \<and> ac_sessions db2 = ac_sessions db \<and> ac_networks db2 = ac_networks db \<and> ac_oidc db2 = ac_oidc db \<and> rv = os_UpdatedAt (ac_oidc db)
    \<and> (\<exists>u. user_at db2 (us_id u) = Some u \<and> ur_User res = info_of db2 u \<and> us_role u = role \<and> us_oidc u = Some (issuer, subject)
        \<and> (\<forall>n. (us_id u, n) \<in> set (ac_scope db2) \<longleftrightarrow> n \<in> set networks))"
proof -
  obtain i db1 u where put: "put_oidc_user now fresh issuer subject username role db = Inr (i, db1)"
    and scope: "(if networks \<noteq> [] then insertUserNetworks i networks (drop_scope i db1) else Inr (drop_scope i db1)) = Inr db2"
    and u: "user_at db2 i = Some u" "ur_User res = info_of db2 u" and rv: "rv = os_UpdatedAt (ac_oidc db)"
    using assms(1) by (auto simp: upsertOIDCUser_def split: if_splits sum.splits option.splits)
  note exact = put_exact[OF put] 
  have same: "ac_users db2 = ac_users db1" "ac_sessions db2 = ac_sessions db1" "ac_oidc db2 = ac_oidc db1" "ac_networks db2 = ac_networks db1"
    using scope by (auto simp: insertUserNetworks_def drop_scope_def split: if_splits)
  have mem: "(i, n) \<in> set (ac_scope db2) \<longleftrightarrow> n \<in> set networks" for n
    using scope by (auto simp: insertUserNetworks_def drop_scope_def insert_scope_mem split: if_splits)
  have i: "us_id u = i" using u(1) by (auto simp: user_at_def find_Some_iff)
  have "user_at db1 i = Some u" using u(1) same(1) by (simp add: user_at_def)
  then have "us_role u = role" "us_oidc u = Some (issuer, subject)" using exact assms(2) by (auto simp: tables_ok_def)
  then show ?thesis using exact assms(2) same mem u i rv by (auto simp: tables_ok_def)
qed

lemma Upsert_exact:
  assumes "UpsertOIDCUser suffix now fresh issuer subject username role networks rv db = Inr (res, db2)" "tables_ok db"
  shows "tables_ok db2 \<and> ac_sessions db2 = ac_sessions db \<and> ac_networks db2 = ac_networks db \<and> ac_oidc db2 = ac_oidc db \<and> rv = os_UpdatedAt (ac_oidc db)
    \<and> (\<exists>u. user_at db2 (us_id u) = Some u \<and> ur_User res = info_of db2 u \<and> us_role u = role \<and> us_oidc u = Some (issuer, subject)
        \<and> (\<forall>n. (us_id u, n) \<in> set (ac_scope db2) \<longleftrightarrow> n \<in> set networks))"
proof -
  obtain name where "upsertOIDCUser now fresh issuer subject name role networks rv db = Inr (res, db2)"
    using assms(1) by (auto simp: UpsertOIDCUser_def split: if_splits sum.splits acct_error.splits)
  from upsert_exact[OF this assms(2)] show ?thesis .
qed

text \<open>The names a mapping resolves to are those of networks that exist.\<close>

definition networks_ok :: "accounts \<Rightarrow> bool" where
  "networks_ok db \<longleftrightarrow> distinct (map fst (ac_networks db)) \<and> distinct (map snd (ac_networks db))"

lemma NetworkID_iff:
  assumes "networks_ok db"
  shows "NetworkIDByName db name = Inr j \<longleftrightarrow> (j, name) \<in> set (ac_networks db)"
proof -
  have "distinct (map snd (ac_networks db))" using assms by (simp add: networks_ok_def)
  note key = find_key[OF this, of name]
  show ?thesis
  proof (cases "find (\<lambda>n. snd n = name) (ac_networks db)")
    case None
    with key[of "(j, name)"] show ?thesis by (simp add: NetworkIDByName_def)
  next
    case (Some n)
    with key[of n] key[of "(j, name)"] show ?thesis by (cases n) (auto simp: NetworkIDByName_def)
  qed
qed

lemma resolve_mem:
  assumes "networks_ok db"
  shows "(i, name) \<in> set (resolve_existing db names) \<longleftrightarrow> name \<in> set names \<and> (i, name) \<in> set (ac_networks db)"
proof (induction names)
  case (Cons n ns)
  show ?case
  proof (cases "NetworkIDByName db n")
    case (Inl e)
    then have "(i, n) \<notin> set (ac_networks db)" using NetworkID_iff[OF assms, of n i] by simp
    with Inl Cons show ?thesis by (auto simp: resolve_existing_def map_filter_simps)
  next
    case (Inr j)
    then have "(i, n) \<in> set (ac_networks db) \<longleftrightarrow> i = j" using NetworkID_iff[OF assms, of n i] by auto
    with Inr Cons show ?thesis by (auto simp: resolve_existing_def map_filter_simps)
  qed
qed (simp add: resolve_existing_def map_filter_simps)

lemma resolve_scope:
  assumes "networks_ok db" "n \<in> set (ac_networks db)"
  shows "fst n \<in> set (map fst (resolve_existing db names)) \<longleftrightarrow> snd n \<in> set names"
proof
  assume "fst n \<in> set (map fst (resolve_existing db names))"
  then obtain name where "(fst n, name) \<in> set (resolve_existing db names)" by force
  then have name: "name \<in> set names" "(fst n, name) \<in> set (ac_networks db)" using resolve_mem[OF assms(1)] by auto
  have "inj_on fst (set (ac_networks db))" using assms(1) by (simp add: networks_ok_def distinct_map)
  from inj_onD[OF this _ name(2) assms(2)] have "n = (fst n, name)" by simp
  with name(1) show "snd n \<in> set names" by (metis snd_conv)
next
  assume "snd n \<in> set names"
  then have "(fst n, snd n) \<in> set (resolve_existing db names)" using resolve_mem[OF assms(1), of "fst n" "snd n" names] assms(2) by simp
  then show "fst n \<in> set (map fst (resolve_existing db names))" by force
qed

text \<open>A session that was issued is the one the insert added.\<close>

lemma issueSession_None:
  assumes "issueSession env f now m i create db = (None, db', evs)"
  shows "\<exists>db1. create now (mi_sid m) (he_sha256 env (mi_token m)) (mi_csrf m) (now + sessionTTL) (cleaned f now db) = Inr db1
    \<and> ac_sessions db' = ac_sessions db1 \<and> ac_users db' = ac_users db1 \<and> ac_scope db' = ac_scope db1 \<and> ac_networks db' = ac_networks db1"
  using assms unfolding issueSession_def cleaned_def
  by (cases "DeleteExpiredSessions now db") (auto simp: Let_def split: sum.splits if_splits dest: RecordLogin_keeps)

lemma sso_issue_session:
  assumes "sso_issue env f now m remote cfg claims res db = (resp, Some c, db', evs)"
  shows "c = mi_token m \<and> \<not> ui_Disabled (ur_User res) \<and> ac_users db' = ac_users db \<and> ac_scope db' = ac_scope db \<and> ac_networks db' = ac_networks db
    \<and> ac_sessions db' = ac_sessions (cleaned f now db) @ [new_session env now m (ui_ID (ur_User res))]
    \<and> he_sha256 env c \<notin> se_token ` set (ac_sessions (cleaned f now db))"
proof -
  let ?create = "\<lambda>now sid th csrf exp db. CreateOIDCSession now sid (ui_ID (ur_User res)) th csrf exp (os_Issuer cfg) (os_ClientID cfg) (os_UpdatedAt cfg) db"
  obtain evs' where iss: "issueSession env f now m (ui_ID (ur_User res)) ?create db = (None, db', evs')"
    and c: "c = mi_token m" "\<not> ui_Disabled (ur_User res)"
    using assms by (auto simp: sso_issue_def Let_def split: if_splits prod.splits option.splits)
  from issueSession_None[OF iss] obtain db1 where
    ins: "?create now (mi_sid m) (he_sha256 env (mi_token m)) (mi_csrf m) (now + sessionTTL) (cleaned f now db) = Inr db1"
    and same: "ac_sessions db' = ac_sessions db1" "ac_users db' = ac_users db1" "ac_scope db' = ac_scope db1" "ac_networks db' = ac_networks db1" by blast
  have "insert_session now (mi_sid m) (he_sha256 env (mi_token m)) (ui_ID (ur_User res)) (mi_csrf m) (now + sessionTTL) (cleaned f now db) = Inr db1"
    using ins by (auto simp: CreateOIDCSession_def Let_def split: if_splits)
  then have "db1 = (cleaned f now db)\<lparr>ac_sessions := ac_sessions (cleaned f now db) @ [new_session env now m (ui_ID (ur_User res))]\<rparr>"
    "he_sha256 env (mi_token m) \<notin> se_token ` set (ac_sessions (cleaned f now db))"
    by (auto simp: insert_session_def new_session_def list_ex_iff split: if_splits)
  with same c show ?thesis by simp
qed

lemma tables_ok_issued:
  assumes "tables_ok db" "ac_users db' = ac_users db" "ac_sessions db' = ac_sessions (cleaned f now db) @ [se]"
    "se_token se \<notin> se_token ` set (ac_sessions (cleaned f now db))"
  shows "tables_ok db'"
  using assms by (auto simp: tables_ok_def cleaned_def DeleteExpiredSessions_def delete_sessions_def distinct_map inj_on_def split: if_splits)

text \<open>The account write of a callback, and the session after it, in the terms of the claims.\<close>

lemma sso_account_exact:
  assumes "sso_account suffix now fresh cfg claims db = Inr (res, names, db2)" "tables_ok db" "networks_ok db"
  shows "tables_ok db2 \<and> ac_networks db2 = ac_networks db \<and> os_UpdatedAt cfg = os_UpdatedAt (ac_oidc db)
    \<and> (\<exists>u. user_at db2 (us_id u) = Some u \<and> ur_User res = info_of db2 u \<and> us_role u = cl_Role claims \<and> us_oidc u = Some (cl_Issuer claims, cl_Subject claims)
        \<and> (RoleIsNetworkScoped (cl_Role claims) \<longrightarrow> userNetworks db2 (us_id u) = filter (\<lambda>n. snd n \<in> set (cl_Networks claims)) (ac_networks db)
             \<and> userNetworks db2 (us_id u) \<noteq> []))"
proof -
  let ?scope = "if RoleIsNetworkScoped (cl_Role claims) then resolve_existing db (cl_Networks claims) else []"
  have up: "UpsertOIDCUser suffix now fresh (cl_Issuer claims) (cl_Subject claims) (cl_Username claims) (cl_Role claims) (map fst ?scope) (os_UpdatedAt cfg) db = Inr (res, db2)"
    and some: "RoleIsNetworkScoped (cl_Role claims) \<longrightarrow> ?scope \<noteq> []"
    using assms(1) by (auto simp: sso_account_def Let_def split: if_splits sum.splits)
  from Upsert_exact[OF up assms(2)] obtain u where u: "user_at db2 (us_id u) = Some u" "ur_User res = info_of db2 u" "us_role u = cl_Role claims"
    "us_oidc u = Some (cl_Issuer claims, cl_Subject claims)" "\<forall>n. (us_id u, n) \<in> set (ac_scope db2) \<longleftrightarrow> n \<in> set (map fst ?scope)"
    and db2: "tables_ok db2" "ac_networks db2 = ac_networks db" "os_UpdatedAt cfg = os_UpdatedAt (ac_oidc db)" by blast
  have nets: "userNetworks db2 (us_id u) = filter (\<lambda>n. snd n \<in> set (cl_Networks claims)) (ac_networks db)" if "RoleIsNetworkScoped (cl_Role claims)"
    unfolding userNetworks_def db2(2) using u(5) that resolve_scope[OF assms(3)] by (intro filter_cong) simp_all
  have "userNetworks db2 (us_id u) \<noteq> []" if scoped: "RoleIsNetworkScoped (cl_Role claims)"
  proof -
    have "resolve_existing db (cl_Networks claims) \<noteq> []" using some scoped by simp
    then obtain n where "n \<in> set (resolve_existing db (cl_Networks claims))" by (meson hd_in_set)
    then have "n \<in> set (filter (\<lambda>n. snd n \<in> set (cl_Networks claims)) (ac_networks db))"
      using resolve_mem[OF assms(3), of "fst n" "snd n" "cl_Networks claims"] by simp
    then show ?thesis unfolding nets[OF scoped] by force
  qed
  with nets u db2 show ?thesis by blast
qed

text \<open>What a callback that sets a cookie went through.\<close>

lemma callback_inv:
  assumes "so_cookie (handleOIDCCallback env suffix discovers redeem f now fresh m r cb limiter mgr db0 db1 mid) = Some c"
  shows "\<exists>v nonce verifier prov cfg claims res names db2 resp evs. cb_cookie cb = Some v \<and> split_state v = Some (cb_state cb, nonce, verifier)
    \<and> fst (Provider discovers db0 mgr) = Inr (prov, cfg) \<and> Exchange redeem prov (cb_code cb) verifier nonce = Inr claims
    \<and> sso_account suffix now fresh cfg claims db1 = Inr (res, names, db2)
    \<and> sso_issue env f now m (clientIP r) cfg claims res (mid db2)
        = (resp, Some c, so_db (handleOIDCCallback env suffix discovers redeem f now fresh m r cb limiter mgr db0 db1 mid), evs)"
  using assms unfolding handleOIDCCallback_def Let_def
  by (auto split: if_splits option.splits prod.splits sum.splits exchange_error.splits claims_error.splits)

lemma Provider_settings: "fst (Provider discovers db mgr) = Inr (prov, cfg) \<Longrightarrow> cfg = ac_oidc db"
  by (auto simp: Provider_def Let_def GetOIDCSettings_def split: option.splits if_splits)


text \<open>A token whose groups match two rules of the settings opens a session; only one of the mapped networks exists.\<close>

definition demo_token :: id_token where
  "demo_token = \<lparr>it_Nonce = ''n'', it_Issuer = ''idp'', it_Subject = ''u7'',
     it_Claims = (\<lambda>k. if k = ''email'' then Some (ClaimString ''bob'') else if k = ''groups'' then Some (ClaimArray [ClaimString ''noc'', ClaimString ''ops'']) else None)\<rparr>"

definition demo_callback :: callback_request where
  "demo_callback = \<lparr>cb_error = [], cb_cookie = Some ''s.n.v'', cb_state = ''s'', cb_code = ''c''\<rparr>"

definition demo_callback_result :: sso_result where
  "demo_callback_result = handleOIDCCallback demo_http (\<lambda>i s. ''x'') (\<lambda>_. True) (\<lambda>_ _ _. Some demo_token) no_faults 60 6 demo_minted (demo_request None)
     demo_callback (newLoginLimiter 10 60 5) \<lparr>mg_cacheKey = None, mg_cached = None\<rparr> demo_db demo_db (\<lambda>db. db)"

lemma demo_callback_cookie: "so_cookie demo_callback_result = Some ''new''"
  by code_simp


end
