(* ===== verification/Spec2Isabelle.thy ===== *)
theory Spec2Isabelle
  imports Spool_Correct Watch_Correct Path_Mtu_Correct Config_Correct Syslog_Correct Ingest_Correct Stream_Correct Agent_Correct
    Accounts_Correct Dashboard_Login
begin

text \<open>
  PolarBEAM is a network monitor: agents probe targets and each other, buffer their results on
  disk and push them to a control plane, which derives outages, path changes and MTU changes from
  them, hands every agent its configuration and forwards its audit log. This development models
  the parts of the Go code that carry that logic and proves what they promise.

  \<^bold>\<open>The program and its theories.\<close>

  \<^item> Shared: \<open>Prelude\<close> (machine integers, times and durations in nanoseconds, generic lemmas) and
    \<open>Go_Strings\<close> (the parts of \<open>strconv\<close>, \<open>strings\<close> and \<open>utf8\<close> the code calls, on bytes).

  \<^item> The agent's spool, \<open>internal/agent/spool/spool.go\<close>: \<open>Spool_Record\<close> (frames and checksums),
    \<open>Spool\<close> (the state and every operation over an explicit directory with a fault oracle),
    \<open>Spool_Queue\<close> (the interface as a locale), \<open>Spool_Ops\<close>, \<open>Spool_Delivery\<close>, \<open>Spool_Recovery\<close> (lemmas per
    operation), \<open>Pusher\<close> (the drain loop of \<open>internal/agent/uplink/pusher.go\<close>), \<open>Spool_Correct\<close>.
    The spool is a queue: what is accepted plus what is spooled is an ordered subsequence of what
    was produced, everything missing is counted, and crashes at any write lose nothing else.

  \<^item> Outage detection, \<open>internal/server/outage\<close>: \<open>Outage\<close> (hysteresis, \<open>Apply\<close>, orphan repair and the
    offline sweep over the two tables), \<open>Outage_Streaks\<close>, \<open>Outage_Apply\<close>, \<open>Outage_Sweep\<close>,
    \<open>Outage_Timeline\<close>, \<open>Outage_Correct\<close>. The counters refine a specification that looks only at the
    last three grades; pushes are order independent and idempotent; events of a series form a timeline.

  \<^item> The watchers, \<open>internal/server/pathwatch\<close> and \<open>internal/server/mtuwatch\<close>: \<open>Watch\<close> is their common
    engine as a locale, \<open>Pathwatch\<close> and \<open>Mtuwatch\<close> interpret it, \<open>Watch_Correct\<close> has the properties: the
    set-based push equals feeding runs one at a time, and events form a walk to the current row.

  \<^item> The path MTU prober, \<open>internal/agent/probes/pathmtu.go\<close>: \<open>Path_Mtu\<close> (the search and the send and
    wait loop as a machine driven by clock readings, send outcomes and replies), \<open>Path_Mtu_Search\<close>,
    \<open>Path_Mtu_Run\<close>, \<open>Path_Mtu_Correct\<close>: bounded sequence numbers, evidence for every reported bound, and
    the right answer on an honest path.

  \<^item> Configuration: \<open>Probe_Admin\<close> (\<open>internal/server/probeadmin\<close>), \<open>Probe_Params\<close> (how
    \<open>internal/agent/probes/dns.go\<close> and \<open>http.go\<close> read parameters), \<open>Agent_Config\<close> (the queries of
    \<open>internal/server/store/agentconfig.go\<close> over the configuration tables), \<open>Meshexpand\<close>
    (\<open>internal/server/meshexpand\<close>, \<open>probeid\<close>), \<open>Thresholds\<close> (\<open>internal/server/thresholds\<close>),
    \<open>Config_Correct\<close>: what the server validates the agent accepts, snapshots are stable, told apart by
    their hash and contain exactly what the tables assign to the agent on its own network.

  \<^item> Credentials: \<open>Enrollment\<close> (tokens, agents and certificates of \<open>internal/server/store/enrollment.go\<close>
    and \<open>tokens.go\<close>, each operation alone), \<open>Enrollment_Tx\<close> (the same operations statement by statement
    under row locks), \<open>Enrollment_Serial\<close>, \<open>Enroll_Correct\<close>: interleavings are serialisable, revocation is
    final, a token enrols one agent. \<open>Ttl_Cache\<close> states the contract of the two caches of
    \<open>internal/server/grpcapi\<close> as a locale over concurrent requests; \<open>Grpc_Auth\<close> (\<open>auth.go\<close>, \<open>Enroll\<close> and
    \<open>RenewCert\<close> of \<open>server.go\<close>, the identity of \<open>internal/server/ca/ca.go\<close>) interprets it, and
    \<open>Auth_Correct\<close> bounds how long a revoked agent gets in.

  \<^item> Ingestion: \<open>Go_Utf8\<close> (\<open>utf8.ValidString\<close>, \<open>strings.ToValidUTF8\<close>), \<open>Ingest_Row\<close> (conversion of results in
    \<open>internal/server/grpcapi/ingest.go\<close>), \<open>Ingest\<close> (the assignment cache, the insert of
    \<open>internal/server/store/results.go\<close>, drop counters and \<open>PushResults\<close>, calling the outage and watcher
    components in one transaction) and \<open>Ingest_Correct\<close>: every accepted result is counted once, only
    assigned probes are stored, drops add up, stored text is storable.

  \<^item> The configuration stream: \<open>Stream_Config\<close> (\<open>StreamConfig\<close> of \<open>server.go\<close>, as a function of what it reads and
    as a transition system with configuration writes) and \<open>Stream_Correct\<close>: no change is masked by a
    rebuild it races, and one that nobody noted is found by the forced rebuild.

  \<^item> The agent process: \<open>Scheduler\<close> (the worker map of \<open>internal/agent/scheduler/scheduler.go\<close> and the
    goroutines it starts and cancels), \<open>Agent_Runtime\<close> (the cache of \<open>internal/agent/confcache\<close>, how
    \<open>cmd/polarbeam-agent/main.go\<close> and \<open>uplink.go\<close> take a snapshot, and \<open>uplink/watchdog.go\<close>) and
    \<open>Agent_Correct\<close>: over restarts and crashes an agent runs the configuration it reports, a snapshot is
    followed exactly without disturbing unchanged probes, and the watchdog exits only when nothing works.

  \<^item> Accounts: \<open>Accounts\<close> (users, sessions, network scopes and single sign-on settings of
    \<open>internal/server/store/users.go\<close>, \<open>roles.go\<close> and \<open>oidc.go\<close>, each operation on the tables), \<open>Accounts_Tx\<close> (the
    same operations statement by statement under row locks), \<open>Accounts_Inv\<close>, \<open>Accounts_Correct\<close>: an
    administrator remains, single sign-on sessions follow the current policy, and what a changed
    password still lets through is exactly the logins in flight.

  \<^item> The dashboard's doors: \<open>Dashboard\<close> (the limiter, login, password change, the session and role gates with
    their audit records and the administration of users, \<open>internal/server/httpapi\<close>), \<open>Dashboard_Sso\<close>
    (\<open>internal/server/oidcauth\<close> and the callback of \<open>httpapi/oidc.go\<close>), \<open>Dashboard_Correct\<close>
    and \<open>Dashboard_Login\<close>: the gates admit exactly the entitled, claims map to the access they stand for,
    the limiter's bounds, refusals of logins that look alike, and the access of a single sign-on session.

  \<^item> Audit and syslog: \<open>Audit_Log\<close> (\<open>internal/audit\<close>), \<open>Syslog_Config\<close>, \<open>Syslog_Format\<close>, \<open>Syslog_Receive\<close>
    (the collector's side), \<open>Syslog_Ring\<close> (the buffer, as an interpretation of the locale \<open>outbox\<close>),
    \<open>Syslog_Sink\<close> (one function per section under the sink's lock), \<open>Syslog_System\<close> (their interleavings)
    and \<open>Syslog_Correct\<close> for \<open>internal/server/syslogfwd\<close>: no record is lost uncounted, headers cannot
    be forged by values, streams are read back, audit events are always forwarded.

  \<^bold>\<open>How code becomes definitions.\<close> Structs are records, enums and errors datatypes, handlers functions
  that return the new state; SQL statements are functions on tables; text messages are constructors
  carrying the values they print. Times are integers in nanoseconds with the zero time as \<open>0\<close>.
  Counters that the code keeps at a width where wrap-around matters are words. Concurrency appears
  where the code has it as a transition relation over sections under a lock.

  \<^bold>\<open>Bounds and fuel.\<close> Loops are structural or have a measure. The bounds loop of the spool takes the
  number of segments as fuel, which is enough because each turn removes one. The path MTU run is
  driven by its inputs; the number of probes is bounded by the width of the search.

  \<^bold>\<open>Parameters.\<close> The checksum of records, SHA-1 based ids, printing and parsing of UUIDs, the protobuf
  encoding, SHA-256, PEM and X.509 parsing, the signing of certificates, random tokens, the
  argon2 functions, discovery and the redemption of codes at the identity provider and
  \<open>strconv.Quote\<close> are arguments. Properties that need something of them say so (an injective encoding,
  no collision among the names at hand) and have a witness.

  \<^bold>\<open>Not modelled.\<close> Sockets, dialling and TLS; the exchanges of the probers other than path MTU; the agent's
  own enrolment and renewal client; the reconnect loop of the uplink; the HTTP handlers
  other than those of accounts, the start of the single sign-on flow and the validation of its settings;
  the store's queries for dashboards, events, listings and probe administration, which are SQL text
  run by the database; schema migrations, seeding, the command lines, generated protobuf code and the web
  interface. Where time only delays (tickers, backoff sleeps) the model keeps the order of steps, not
  their duration.
\<close>

end
